(* ===== verification/Phi_Prelude.thy ===== *)
theory Phi_Prelude
  imports Main "HOL-Library.Word"
begin

unbundle bit_operations_syntax

section \<open>Prelude: outcomes, slices, machine integers\<close>

text \<open>
  What every component of the library shares: the outcome type of a Rust function that may
  return an error or panic, slice and index operations with the panic of an out-of-range
  access written out, checked \<open>usize\<close> arithmetic, and big-endian integers
  (\<open>to_be_bytes\<close>, \<open>from_be_bytes\<close>) with their round trips. \<open>usize\<close> is a natural
  number below \<open>2 ^ 64\<close> (the native targets of the crate); every operation of the source
  that can leave that range is modelled by a checked operation or by a truncating cast.
\<close>

named_theorems outcome_simps \<open>rewriting of sequenced outcomes\<close>
named_theorems framing_simps \<open>lengths and shapes of framed byte strings\<close>

type_synonym byte = "8 word"
type_synonym bytes = "8 word list"
type_synonym u32 = "32 word"
type_synonym u64 = "64 word"
type_synonym usize = nat

subsection \<open>Outcomes\<close>

text \<open>
  \<open>Ok\<close> and \<open>Err\<close> are the constructors of Rust's \<open>Result\<close>; \<open>Panic\<close> is a panicking run,
  which no later statement of the function can undo. A Rust function that returns a plain
  value but may panic has the same type and never yields \<open>Err\<close>.
\<close>

datatype ('a, 'e) result = Ok 'a | Err 'e | Panic

primrec bind_r :: "('a, 'e) result \<Rightarrow> ('a \<Rightarrow> ('b, 'e) result) \<Rightarrow> ('b, 'e) result" where
  "bind_r (Ok x) f = f x"
| "bind_r (Err e) f = Err e"
| "bind_r Panic f = Panic"

primrec map_err :: "'f \<Rightarrow> ('a, 'e) result \<Rightarrow> ('a, 'f) result" where
  "map_err f (Ok x) = Ok x"
| "map_err f (Err e) = Err f"
| "map_err f Panic = Panic"

primrec ok_or :: "'e \<Rightarrow> 'a option \<Rightarrow> ('a, 'e) result" where
  "ok_or e None = Err e"
| "ok_or e (Some x) = Ok x"

primrec ok :: "('a, 'e) result \<Rightarrow> 'a option" where
  "ok (Ok x) = Some x"
| "ok (Err e) = None"
| "ok Panic = None"

text \<open>\<open>is_ok\<close> on a result that may be a panic: the panic is not turned into \<open>False\<close>.\<close>

primrec is_ok :: "('a, 'e) result \<Rightarrow> (bool, 'f) result" where
  "is_ok (Ok x) = Ok True"
| "is_ok (Err e) = Ok False"
| "is_ok Panic = Panic"

lemma bind_r_Ok_iff [outcome_simps]:
  "bind_r m f = Ok y \<longleftrightarrow> (\<exists>x. m = Ok x \<and> f x = Ok y)"
  by (cases m) auto

lemma bind_r_Panic_iff [outcome_simps]:
  "bind_r m f = Panic \<longleftrightarrow> m = Panic \<or> (\<exists>x. m = Ok x \<and> f x = Panic)"
  by (cases m) auto

lemma bind_r_Err_iff [outcome_simps]:
  "bind_r m f = Err e \<longleftrightarrow> m = Err e \<or> (\<exists>x. m = Ok x \<and> f x = Err e)"
  by (cases m) auto

text \<open>A run that returns, with a value or an error.\<close>

primrec no_panic :: "('a, 'e) result \<Rightarrow> bool" where
  "no_panic (Ok x) \<longleftrightarrow> True"
| "no_panic (Err e) \<longleftrightarrow> True"
| "no_panic Panic \<longleftrightarrow> False"

lemma no_panic_iff: "no_panic m \<longleftrightarrow> m \<noteq> Panic"
  by (cases m) auto

lemma no_panic_bind:
  "no_panic m \<Longrightarrow> (\<And>x. m = Ok x \<Longrightarrow> no_panic (f x)) \<Longrightarrow> no_panic (bind_r m f)"
  by (cases m) auto

lemma no_panic_ok_or [simp]: "no_panic (ok_or e v)"
  by (cases v) auto

lemma no_panic_map_err [simp]: "no_panic (map_err f m) \<longleftrightarrow> no_panic m"
  by (cases m) auto

lemma no_panic_is_ok [simp]: "no_panic (is_ok m) \<longleftrightarrow> no_panic m"
  by (cases m) auto

lemma bind_r_cong [fundef_cong]:
  "m = m' \<Longrightarrow> (\<And>x. m' = Ok x \<Longrightarrow> f x = g x) \<Longrightarrow> bind_r m f = bind_r m' g"
  by (cases m') auto

lemma ok_or_Ok_iff [simp]: "ok_or e v = Ok x \<longleftrightarrow> v = Some x"
  by (cases v) auto

lemma ok_or_Err_iff [simp]: "ok_or e v = Err e' \<longleftrightarrow> v = None \<and> e' = e"
  by (cases v) auto

lemma ok_or_not_Panic [simp]: "ok_or e v \<noteq> Panic"
  by (cases v) auto

lemma map_err_Ok_iff [simp]: "map_err f m = Ok x \<longleftrightarrow> m = Ok x"
  by (cases m) auto

lemma map_err_Panic_iff [simp]: "map_err f m = Panic \<longleftrightarrow> m = Panic"
  by (cases m) auto

lemma map_err_Err_iff [simp]: "map_err f m = Err e \<longleftrightarrow> (\<exists>e'. m = Err e') \<and> e = f"
  by (cases m) auto

lemma ok_eq_Some_iff [simp]: "ok m = Some x \<longleftrightarrow> m = Ok x"
  by (cases m) auto

lemma is_ok_True_iff [simp]: "is_ok m = Ok True \<longleftrightarrow> (\<exists>x. m = Ok x)"
  by (cases m) auto

lemma is_ok_False_iff [simp]: "is_ok m = Ok False \<longleftrightarrow> (\<exists>e. m = Err e)"
  by (cases m) auto

lemma is_ok_Panic_iff [simp]: "is_ok m = Panic \<longleftrightarrow> m = Panic"
  by (cases m) auto

lemma is_ok_not_Err [simp]: "is_ok m \<noteq> Err e"
  by (cases m) auto

subsection \<open>Slices and arrays\<close>

text \<open>\<open>xs[i]\<close> and \<open>xs[i..j]\<close> panic out of range; \<open>xs.get(i..j)\<close> is \<open>None\<close> there.\<close>

definition index :: "'a list \<Rightarrow> usize \<Rightarrow> ('a, 'e) result" where
  "index xs i = (if i < length xs then Ok (xs ! i) else Panic)"

definition index_range :: "'a list \<Rightarrow> usize \<Rightarrow> usize \<Rightarrow> ('a list, 'e) result" where
  "index_range xs i j =
     (if i \<le> j \<and> j \<le> length xs then Ok (take (j - i) (drop i xs)) else Panic)"

definition get_range :: "'a list \<Rightarrow> usize \<Rightarrow> usize \<Rightarrow> 'a list option" where
  "get_range xs i j =
     (if i \<le> j \<and> j \<le> length xs then Some (take (j - i) (drop i xs)) else None)"

text \<open>\<open><[T; N]>::try_from\<close> of a slice: the slice itself when it has \<open>N\<close> elements.\<close>

definition try_into_array :: "nat \<Rightarrow> 'a list \<Rightarrow> 'a list option" where
  "try_into_array n xs = (if length xs = n then Some xs else None)"

lemma try_into_array_iff [simp]:
  "try_into_array n xs = Some ys \<longleftrightarrow> ys = xs \<and> length xs = n"
  by (auto simp: try_into_array_def)

definition checked_add :: "usize \<Rightarrow> usize \<Rightarrow> usize option" where
  "checked_add a b = (if a + b < 2 ^ 64 then Some (a + b) else None)"

lemma checked_add_iff [simp]:
  "checked_add a b = Some c \<longleftrightarrow> c = a + b \<and> a + b < 2 ^ 64"
  by (auto simp: checked_add_def)

text \<open>A \<open>BTreeSet\<close> of indices collected from a slice, in its iteration order.\<close>

definition btree_set :: "nat list \<Rightarrow> nat list" where
  "btree_set xs = sort (remdups xs)"

lemma set_btree_set [simp]: "set (btree_set xs) = set xs"
  by (simp add: btree_set_def)

lemma distinct_btree_set [simp]: "distinct (btree_set xs)"
  by (simp add: btree_set_def)

lemma sorted_btree_set [simp]: "sorted (btree_set xs)"
  by (simp add: btree_set_def)

lemma strict_sorted_btree_set: "sorted_wrt (<) (btree_set xs)"
  by (simp add: strict_sorted_iff)

lemma length_btree_set_bound:
  assumes "\<forall>i \<in> set xs. i < n"
  shows "length (btree_set xs) \<le> n"
proof -
  have "length (btree_set xs) = card (set xs)"
    by (metis distinct_btree_set distinct_card set_btree_set)
  also have "\<dots> \<le> card {..<n}"
    using assms by (intro card_mono) auto
  finally show ?thesis by simp
qed

subsection \<open>Big-endian integers\<close>

text \<open>
  \<open>be_bytes n x\<close> is the \<open>n\<close>-byte big-endian form of \<open>x\<close> taken modulo \<open>256 ^ n\<close>: it is
  \<open>to_be_bytes\<close> of the \<open>8 * n\<close>-bit value \<open>x as uN\<close>, the cast's truncation included.
\<close>

primrec be_bytes :: "nat \<Rightarrow> nat \<Rightarrow> bytes" where
  "be_bytes 0 x = []"
| "be_bytes (Suc n) x = be_bytes n (x div 256) @ [word_of_nat x]"

definition be_val :: "bytes \<Rightarrow> nat" where
  "be_val bs = foldl (\<lambda>acc b. acc * 256 + unat b) 0 bs"

lemma be_val_Nil [simp]: "be_val [] = 0"
  by (simp add: be_val_def)

lemma be_val_snoc [simp]: "be_val (bs @ [b]) = be_val bs * 256 + unat b"
  by (simp add: be_val_def)

lemma length_be_bytes [simp, framing_simps]: "length (be_bytes n x) = n"
  by (induction n arbitrary: x) auto

lemma unat_byte_lt: "unat (b :: byte) < 256"
  by (rule order_less_le_trans [OF unsigned_less]) simp

lemma unat_byte_of_nat [simp]: "unat (word_of_nat x :: byte) = x mod 256"
  by (simp add: unat_of_nat)

lemma be_val_be_bytes: "be_val (be_bytes n x) = x mod 256 ^ n"
proof (induction n arbitrary: x)
  case (Suc n)
  have "be_val (be_bytes (Suc n) x) = (x div 256 mod 256 ^ n) * 256 + x mod 256"
    by (simp add: Suc)
  also have "\<dots> = x mod 256 ^ Suc n"
    by (simp add: mod_mult2_eq mult.commute)
  finally show ?case .
qed simp

lemma be_bytes_be_val: "be_bytes (length bs) (be_val bs) = bs"
proof (induction bs rule: rev_induct)
  case (snoc b bs)
  have "(be_val bs * 256 + unat b) div 256 = be_val bs"
    using unat_byte_lt [of b] by simp
  moreover have "(word_of_nat (be_val bs * 256 + unat b) :: byte) = b"
    unfolding word_unat_eq_iff unat_byte_of_nat using unat_byte_lt [of b] by simp
  ultimately show ?case
    using snoc by simp
qed simp

lemma be_val_lt: "be_val bs < 256 ^ length bs"
proof (induction bs rule: rev_induct)
  case (snoc b bs)
  then show ?case
    using unat_byte_lt [of b] by (simp add: algebra_simps)
qed simp

definition u32_to_be_bytes :: "u32 \<Rightarrow> bytes" where
  "u32_to_be_bytes w = be_bytes 4 (unat w)"

definition u32_from_be_bytes :: "bytes \<Rightarrow> u32" where
  "u32_from_be_bytes bs = word_of_nat (be_val bs)"

text \<open>\<open>(n as u32).to_be_bytes()\<close> and \<open>(n as u64).to_be_bytes()\<close> of a \<open>usize\<close>.\<close>

definition len_be32 :: "usize \<Rightarrow> bytes" where
  "len_be32 n = u32_to_be_bytes (word_of_nat n)"

definition len_be64 :: "usize \<Rightarrow> bytes" where
  "len_be64 n = be_bytes 8 n"

lemma length_u32_to_be_bytes [simp, framing_simps]: "length (u32_to_be_bytes w) = 4"
  by (simp add: u32_to_be_bytes_def)

lemma length_len_be32 [simp, framing_simps]: "length (len_be32 n) = 4"
  by (simp add: len_be32_def)

lemma length_len_be64 [simp, framing_simps]: "length (len_be64 n) = 8"
  by (simp add: len_be64_def)

lemma u32_from_to_be_bytes [simp]: "u32_from_be_bytes (u32_to_be_bytes w) = w"
proof -
  have "unat w < 256 ^ 4" by (rule order_less_le_trans [OF unsigned_less]) simp
  then show ?thesis
    by (simp add: u32_from_be_bytes_def u32_to_be_bytes_def be_val_be_bytes)
qed

lemma u32_to_from_be_bytes [simp]:
  assumes "length bs = 4"
  shows "u32_to_be_bytes (u32_from_be_bytes bs) = bs"
proof -
  have "be_val bs < 2 ^ 32" using be_val_lt [of bs] assms by simp
  then have "unat (word_of_nat (be_val bs) :: u32) = be_val bs"
    by (simp add: unat_of_nat)
  then show ?thesis
    using be_bytes_be_val [of bs] assms by (simp add: u32_to_be_bytes_def u32_from_be_bytes_def)
qed

lemma u32_to_be_bytes_inj [simp]: "u32_to_be_bytes v = u32_to_be_bytes w \<longleftrightarrow> v = w"
  by (metis u32_from_to_be_bytes)

lemma len_be64_inj:
  assumes "len_be64 m = len_be64 n" "m < 2 ^ 64" "n < 2 ^ 64"
  shows "m = n"
proof -
  have "m mod 256 ^ 8 = n mod 256 ^ 8"
    using assms(1) by (metis be_val_be_bytes len_be64_def)
  then show ?thesis using assms(2,3) by simp
qed

lemma len_be32_inj:
  assumes "len_be32 m = len_be32 n" "m < 2 ^ 32" "n < 2 ^ 32"
  shows "m = n"
proof -
  have "(word_of_nat m :: u32) = word_of_nat n"
    using assms(1) by (simp add: len_be32_def)
  then have "unat (word_of_nat m :: u32) = unat (word_of_nat n :: u32)" by simp
  then show ?thesis using assms(2,3) by (simp add: unat_of_nat)
qed

lemma unat_len_u32 [simp]: "n < 2 ^ 32 \<Longrightarrow> unat (word_of_nat n :: u32) = n"
  by (simp add: unat_of_nat)

subsection \<open>String literals of the source as bytes\<close>

text \<open>\<open>b"..."\<close>: the ASCII bytes of a literal.\<close>

definition ascii :: "string \<Rightarrow> bytes" where
  "ascii s = map (\<lambda>c. word_of_nat (of_char c)) s"

lemma length_ascii [simp, framing_simps]: "length (ascii s) = length s"
  by (simp add: ascii_def)

end
