(* ===== verification/Phi_Framing.thy ===== *)
theory Phi_Framing
  imports Phi_Prelude
begin

section \<open>Length-prefixed framing and hash binding\<close>

text \<open>
  The crate frames every hash input and every wire value by length prefixes. This theory
  states what such a framing promises as two interfaces: \<open>framing\<close> (different contents give
  different bytes, so a digest of the framed bytes determines the contents unless the hash
  collides) and \<open>prefix_framing\<close> (the contents can be read off the front of a longer
  string). The length-prefixed strings of the source (\<open>put_bytes\<close> with a \<open>u32\<close> length, the
  \<open>u64\<close> length prefixes of the nullifier preimages) are its first instances.
\<close>

definition collision :: "(bytes \<Rightarrow> 'd) \<Rightarrow> bytes \<Rightarrow> bytes \<Rightarrow> bool" where
  "collision H x y \<longleftrightarrow> x \<noteq> y \<and> H x = H y"

text \<open>A 32-byte digest that evaluates, for the examples the claims are applied to.\<close>

definition sample_hash :: "bytes \<Rightarrow> bytes" where
  "sample_hash x = take 32 (x @ replicate 32 0)"

lemma length_sample_hash [simp]: "length (sample_hash x) = 32"
  by (simp add: sample_hash_def)

locale framing =
  fixes enc :: "'a \<Rightarrow> bytes"
    and good :: "'a \<Rightarrow> bool"
  assumes enc_inj: "good x \<Longrightarrow> good y \<Longrightarrow> enc x = enc y \<Longrightarrow> x = y"
begin

lemma binding:
  assumes "good x" "good y" "H (enc x) = H (enc y)"
  shows "x = y \<or> collision H (enc x) (enc y)"
  using assms enc_inj by (auto simp: collision_def)

lemma binding_iff:
  assumes "good x" "good y" "\<not> collision H (enc x) (enc y)"
  shows "H (enc x) = H (enc y) \<longleftrightarrow> x = y"
  using assms binding by blast

end

locale prefix_framing =
  fixes enc :: "'a \<Rightarrow> bytes"
    and good :: "'a \<Rightarrow> bool"
  assumes prefix_free: "good x \<Longrightarrow> good y \<Longrightarrow> enc x @ s = enc y @ t \<Longrightarrow> x = y"
begin

lemma split_front:
  assumes "good x" "good y" "enc x @ s = enc y @ t"
  shows "x = y \<and> s = t"
  using assms prefix_free [OF assms] by simp

lemma append_eq_iff:
  assumes "good x" "good y"
  shows "enc x @ s = enc y @ t \<longleftrightarrow> x = y \<and> s = t"
  using assms split_front by blast

end

sublocale prefix_framing \<subseteq> framing enc good
  by unfold_locales (metis prefix_free append_Nil2)

subsection \<open>The two length prefixes of the source\<close>

definition put_bytes :: "bytes \<Rightarrow> bytes \<Rightarrow> bytes" where
  "put_bytes out b = out @ len_be32 (length b) @ b"

definition lp32 :: "bytes \<Rightarrow> bytes" where
  "lp32 b = len_be32 (length b) @ b"

definition lp64 :: "bytes \<Rightarrow> bytes" where
  "lp64 b = len_be64 (length b) @ b"

text \<open>The lengths a prefix can represent: a longer string has its length truncated by the cast.\<close>

definition fits32 :: "bytes \<Rightarrow> bool" where
  "fits32 b \<longleftrightarrow> length b < 2 ^ 32"

definition fits64 :: "bytes \<Rightarrow> bool" where
  "fits64 b \<longleftrightarrow> length b < 2 ^ 64"

lemma put_bytes_eq: "put_bytes out b = out @ lp32 b"
  by (simp add: put_bytes_def lp32_def)

lemma length_lp32 [simp, framing_simps]: "length (lp32 b) = 4 + length b"
  by (simp add: lp32_def)

lemma length_lp64 [simp, framing_simps]: "length (lp64 b) = 8 + length b"
  by (simp add: lp64_def)

interpretation lp32: prefix_framing lp32 fits32
proof
  fix x y s t :: bytes
  assume len: "fits32 x" "fits32 y" and eq: "lp32 x @ s = lp32 y @ t"
  have "len_be32 (length x) = len_be32 (length y)" and rest: "x @ s = y @ t"
    using eq by (simp_all add: lp32_def)
  then have "length x = length y" using len len_be32_inj unfolding fits32_def by blast
  with rest show "x = y" by simp
qed

interpretation lp64: prefix_framing lp64 fits64
proof
  fix x y s t :: bytes
  assume len: "fits64 x" "fits64 y" and eq: "lp64 x @ s = lp64 y @ t"
  have "len_be64 (length x) = len_be64 (length y)" and rest: "x @ s = y @ t"
    using eq by (simp_all add: lp64_def)
  then have "length x = length y" using len len_be64_inj unfolding fits64_def by blast
  with rest show "x = y" by simp
qed

interpretation be32: prefix_framing u32_to_be_bytes "\<lambda>_. True"
  by unfold_locales simp

end
