(* ===== verification/Phi_Voting.thy ===== *)
theory Phi_Voting
  imports Phi_Framing
begin

section \<open>Anonymous voting primitives (voting.rs)\<close>

text \<open>
  Nullifiers and the distinct-nullifier tally. \<open>sha256\<close> is an argument: the digest of the
  concatenation of the \<open>update\<close> calls (\<open>Phi_Hash_Sites\<close> supplies the code's own). A nullifier binds its \<open>(secret, topic)\<close> pair up to a
  collision of the hash, and the tally counts each nullifier once.
\<close>

definition NULLIFIER_LEN :: nat where
  "NULLIFIER_LEN = 32"

text \<open>The bytes hashed by \<open>compute_nullifier\<close>, in the order of its \<open>update\<close> calls.\<close>

definition nullifier_preimage :: "bytes \<Rightarrow> bytes \<Rightarrow> bytes" where
  "nullifier_preimage secret topic =
     ascii ''phi-nullifier-v1'' @ len_be64 (length secret) @ secret
       @ len_be64 (length topic) @ topic"

definition compute_nullifier :: "(bytes \<Rightarrow> bytes) \<Rightarrow> bytes \<Rightarrow> bytes \<Rightarrow> bytes" where
  "compute_nullifier sha256 secret topic = sha256 (nullifier_preimage secret topic)"

record VoteProof =
  vp_nullifier :: bytes

text \<open>The loop of \<open>distinct_nullifiers\<close>: insert every vote's nullifier into the set.\<close>

fun insert_nullifiers :: "bytes set \<Rightarrow> VoteProof list \<Rightarrow> bytes set" where
  "insert_nullifiers seen [] = seen"
| "insert_nullifiers seen (v # votes) = insert_nullifiers (insert (vp_nullifier v) seen) votes"

definition distinct_nullifiers :: "VoteProof list \<Rightarrow> usize" where
  "distinct_nullifiers votes = card (insert_nullifiers {} votes)"

text \<open>The count is cast to \<open>u64\<close> before the comparison.\<close>

definition verify_threshold_tally :: "VoteProof list \<Rightarrow> u64 \<Rightarrow> bool" where
  "verify_threshold_tally votes threshold \<longleftrightarrow>
     (word_of_nat (distinct_nullifiers votes) :: u64) \<ge> threshold"

subsection \<open>Nullifier binding\<close>

lemma nullifier_preimage_lp:
  "nullifier_preimage secret topic = ascii ''phi-nullifier-v1'' @ lp64 secret @ lp64 topic"
  by (simp add: nullifier_preimage_def lp64_def)

interpretation nullifier_framing: framing
  "\<lambda>(secret, topic). nullifier_preimage secret topic"
  "\<lambda>(secret, topic). fits64 secret \<and> fits64 topic"
proof
  fix x y :: "bytes \<times> bytes"
  assume "case x of (secret, topic) \<Rightarrow> fits64 secret \<and> fits64 topic"
    and "case y of (secret, topic) \<Rightarrow> fits64 secret \<and> fits64 topic"
    and "(case x of (secret, topic) \<Rightarrow> nullifier_preimage secret topic) =
         (case y of (secret, topic) \<Rightarrow> nullifier_preimage secret topic)"
  then show "x = y"
    by (cases x; cases y) (auto simp: nullifier_preimage_lp lp64.append_eq_iff dest: lp64.enc_inj)
qed

subsection \<open>The tally\<close>

lemma insert_nullifiers_eq: "insert_nullifiers seen votes = seen \<union> vp_nullifier ` set votes"
  by (induction votes arbitrary: seen) auto

lemma distinct_nullifiers_eq: "distinct_nullifiers votes = card (vp_nullifier ` set votes)"
  by (simp add: distinct_nullifiers_def insert_nullifiers_eq)

lemma distinct_nullifiers_le_length: "distinct_nullifiers votes \<le> length votes"
  unfolding distinct_nullifiers_eq
  using card_image_le [of "set votes" vp_nullifier] card_length [of votes] by simp

lemma distinct_nullifiers_snoc:
  "distinct_nullifiers (votes @ [v]) =
     (if vp_nullifier v \<in> vp_nullifier ` set votes then distinct_nullifiers votes
      else Suc (distinct_nullifiers votes))"
  by (simp add: distinct_nullifiers_eq insert_absorb)

lemma card_image_selection:
  assumes "finite A" "k \<le> card (f ` A)"
  shows "\<exists>B \<subseteq> A. card B = k \<and> inj_on f B"
proof -
  obtain C where C: "C \<subseteq> f ` A" "card C = k" "finite C"
    using obtain_subset_with_card_n [OF assms(2)] by blast
  then obtain B where B: "B \<subseteq> A" "inj_on f B" "C = f ` B"
    using subset_image_inj [of C f A] by blast
  then have "card B = k" using C card_image [of f B] by simp
  with B show ?thesis by blast
qed

lemma distinct_voters_characterisation:
  "k \<le> distinct_nullifiers votes \<longleftrightarrow>
     (\<exists>B \<subseteq> set votes. card B = k \<and> inj_on vp_nullifier B)"
proof
  assume "k \<le> distinct_nullifiers votes"
  then show "\<exists>B \<subseteq> set votes. card B = k \<and> inj_on vp_nullifier B"
    using card_image_selection [of "set votes" k vp_nullifier] by (simp add: distinct_nullifiers_eq)
next
  assume "\<exists>B \<subseteq> set votes. card B = k \<and> inj_on vp_nullifier B"
  then obtain B where B: "B \<subseteq> set votes" "card B = k" "inj_on vp_nullifier B" by blast
  have "k = card (vp_nullifier ` B)" using B card_image by metis
  also have "\<dots> \<le> distinct_nullifiers votes"
    unfolding distinct_nullifiers_eq using B by (intro card_mono) auto
  finally show "k \<le> distinct_nullifiers votes" .
qed

lemma threshold_tally_nat:
  assumes "length votes < 2 ^ 64"
  shows "verify_threshold_tally votes threshold \<longleftrightarrow> unat threshold \<le> distinct_nullifiers votes"
proof -
  have "distinct_nullifiers votes < 2 ^ 64"
    using assms distinct_nullifiers_le_length le_less_trans by blast
  then show ?thesis
    by (simp add: verify_threshold_tally_def word_le_nat_alt unat_of_nat)
qed

subsection \<open>Claims\<close>

text \<open>A nullifier identifies its secret and its topic: equal nullifiers of different pairs are
  a collision of SHA-256 on the two framed preimages.\<close>

theorem nullifier_binding:
  assumes "fits64 secret" "fits64 topic" "fits64 secret'" "fits64 topic'"
    and "compute_nullifier sha256 secret topic = compute_nullifier sha256 secret' topic'"
  shows "secret = secret' \<and> topic = topic'
     \<or> collision sha256 (nullifier_preimage secret topic) (nullifier_preimage secret' topic')"
  using nullifier_framing.binding [of "(secret, topic)" "(secret', topic')" sha256] assms
  by (simp add: compute_nullifier_def)

text \<open>C34: the tally passes a threshold exactly when that many votes with pairwise different
  nullifiers were recorded; repeating a vote changes nothing.\<close>

theorem tally_counts_distinct_voters:
  assumes "length votes < 2 ^ 64"
  shows "(verify_threshold_tally votes threshold \<longleftrightarrow>
            (\<exists>B \<subseteq> set votes. card B = unat threshold \<and> inj_on vp_nullifier B))
     \<and> (v \<in> set votes \<longrightarrow> distinct_nullifiers (votes @ [v]) = distinct_nullifiers votes)"
  by (simp add: threshold_tally_nat [OF assms] distinct_voters_characterisation distinct_nullifiers_snoc)

theorem tally_counts_distinct_voters_witness:
  "(verify_threshold_tally [\<lparr>vp_nullifier = [1]\<rparr>, \<lparr>vp_nullifier = [2]\<rparr>, \<lparr>vp_nullifier = [1]\<rparr>] 2 \<longleftrightarrow>
      (\<exists>B \<subseteq> set [\<lparr>vp_nullifier = [1]\<rparr>, \<lparr>vp_nullifier = [2]\<rparr>, \<lparr>vp_nullifier = [1]\<rparr>].
         card B = unat (2 :: u64) \<and> inj_on vp_nullifier B))"
  using tally_counts_distinct_voters
    [of "[\<lparr>vp_nullifier = [1]\<rparr>, \<lparr>vp_nullifier = [2]\<rparr>, \<lparr>vp_nullifier = [1]\<rparr>]" 2]
  by simp

end
