(* ===== verification/Phi_Error.thy ===== *)
theory Phi_Error
  imports Phi_Prelude
begin

section \<open>Errors and secret hand-off (error.rs, secret.rs)\<close>

text \<open>
  The crate's error enumeration with its stable numeric codes and its \<open>Display\<close> texts, and
  the move of a secret out of its zeroizing wrapper that every key-returning boundary
  function performs. The WASM and Flutter boundaries hand the \<open>Display\<close> text to their
  callers, so the texts are shown to identify the error.
\<close>

datatype crypto_error =
    InvalidInput string
  | InvalidKey
  | InvalidSignature
  | VerificationFailed
  | UnsupportedCurve
  | Backend string

fun code :: "crypto_error \<Rightarrow> int" where
  "code (InvalidInput s) = 1"
| "code InvalidKey = 2"
| "code InvalidSignature = 3"
| "code VerificationFailed = 4"
| "code UnsupportedCurve = 5"
| "code (Backend s) = 6"

fun display :: "crypto_error \<Rightarrow> string" where
  "display (InvalidInput s) = ''invalid input: '' @ s"
| "display InvalidKey = ''invalid key''"
| "display InvalidSignature = ''invalid signature''"
| "display VerificationFailed = ''verification failed''"
| "display UnsupportedCurve = ''unsupported curve''"
| "display (Backend s) = ''backend error: '' @ s"

lemma code_range: "1 \<le> code e \<and> code e \<le> 6"
  by (cases e) auto

lemma display_inj_imp: "display e = display e' \<Longrightarrow> e = e'"
  by (cases e; cases e') auto

text \<open>
  A \<open>Zeroizing<T>\<close> wrapper: the value it owns, what a default value of the type is, and what
  wiping leaves behind when the wrapper is dropped.
\<close>

record 'a zeroizing =
  held :: 'a

definition mem_take :: "'a \<Rightarrow> 'a zeroizing \<Rightarrow> 'a \<times> 'a zeroizing" where
  "mem_take dflt z = (held z, z\<lparr>held := dflt\<rparr>)"

definition zeroizing_drop :: "('a \<Rightarrow> 'a) \<Rightarrow> 'a zeroizing \<Rightarrow> 'a zeroizing" where
  "zeroizing_drop zeroize z = z\<lparr>held := zeroize (held z)\<rparr>"

text \<open>
  The value handed to the caller and the dropped wrapper: \<open>dflt\<close> is \<open>T::default()\<close> and
  \<open>zeroize\<close> the type's wipe.
\<close>

definition into_boundary_owned ::
    "'a \<Rightarrow> ('a \<Rightarrow> 'a) \<Rightarrow> 'a zeroizing \<Rightarrow> 'a \<times> 'a zeroizing" where
  "into_boundary_owned dflt zeroize secret =
     (let (v, left) = mem_take dflt secret in (v, zeroizing_drop zeroize left))"

text \<open>\<open>Vec<u8>::zeroize\<close> overwrites every byte and then clears the vector.\<close>

definition zeroize_vec :: "bytes \<Rightarrow> bytes" where
  "zeroize_vec b = take 0 (map (\<lambda>_. 0) b)"

abbreviation boundary_bytes :: "bytes zeroizing \<Rightarrow> bytes" where
  "boundary_bytes z \<equiv> fst (into_boundary_owned [] zeroize_vec z)"

lemma into_boundary_owned_value [simp]: "fst (into_boundary_owned d w z) = held z"
  by (simp add: into_boundary_owned_def mem_take_def)

lemma into_boundary_owned_left: "held (snd (into_boundary_owned d w z)) = w d"
  by (simp add: into_boundary_owned_def mem_take_def zeroizing_drop_def)

end
