(* ===== verification/Phi_Reader.thy ===== *)
theory Phi_Reader
  imports Phi_Framing Phi_Error
begin

section \<open>Panic-free big-endian readers\<close>

text \<open>
  The decoders of the crate read a byte buffer through a cursor: \<open>bbs::Reader\<close>, its twin
  \<open>voting_snark::Reader\<close>, and the \<open>u32_at\<close> closure of \<open>ffi::decode_revealed\<close>. A cursor over a
  buffer promises that what it reads is exactly the front of the rest of the buffer
  (\<open>field_codec\<close>); from that promise the loop over revealed entries, which all three decoders
  share up to their index check, is proved once (\<open>entry_reader\<close>).
\<close>

subsection \<open>The interface of a field reader\<close>

locale field_codec = prefix_framing enc good
  for enc :: "'a \<Rightarrow> bytes" and good :: "'a \<Rightarrow> bool" +
  fixes read :: "'c \<Rightarrow> ('a \<times> 'c) option"
    and rest :: "'c \<Rightarrow> bytes"
    and on :: "bytes \<Rightarrow> 'c \<Rightarrow> bool"
  assumes read_sound:
      "on b c \<Longrightarrow> read c = Some (x, c') \<Longrightarrow> rest c = enc x @ rest c' \<and> good x \<and> on b c'"
    and read_complete:
      "on b c \<Longrightarrow> good x \<Longrightarrow> rest c = enc x @ s \<Longrightarrow>
         \<exists>c'. read c = Some (x, c') \<and> rest c' = s \<and> on b c'"
begin

text \<open>A reader succeeds exactly when the buffer continues with a well-formed field.\<close>

lemma read_iff:
  assumes "on b c"
  shows "(\<exists>c'. read c = Some (x, c') \<and> rest c' = s) \<longleftrightarrow> good x \<and> rest c = enc x @ s"
  using assms read_sound read_complete by blast

end

subsection \<open>The loop over revealed entries\<close>

text \<open>
  \<open>for _ in 0..n\<close> of the three decoders: read an index, apply the decoder's check to it and
  the previous index, read a length-prefixed value, push the pair. \<open>check\<close> gives the error
  of a rejected index.
\<close>

fun entries_loop ::
    "('c \<Rightarrow> (u32 \<times> 'c, 'e) result) \<Rightarrow> ('c \<Rightarrow> (bytes \<times> 'c, 'e) result) \<Rightarrow>
     (u32 option \<Rightarrow> u32 \<Rightarrow> 'e option) \<Rightarrow> nat \<Rightarrow> u32 option \<Rightarrow> 'c \<Rightarrow> (u32 \<times> bytes) list \<Rightarrow>
     ((u32 \<times> bytes) list \<times> 'c, 'e) result" where
  "entries_loop ru rb check 0 prev c acc = Ok (acc, c)"
| "entries_loop ru rb check (Suc n) prev c acc =
     bind_r (ru c) (\<lambda>(idx, c).
       case check prev idx of
         Some e \<Rightarrow> Err e
       | None \<Rightarrow> bind_r (rb c) (\<lambda>(claim, c).
           entries_loop ru rb check n (Some idx) c (acc @ [(idx, claim)])))"

definition entry_bytes :: "u32 \<times> bytes \<Rightarrow> bytes" where
  "entry_bytes e = u32_to_be_bytes (fst e) @ lp32 (snd e)"

fun entries_bytes :: "(u32 \<times> bytes) list \<Rightarrow> bytes" where
  "entries_bytes [] = []"
| "entries_bytes (e # es) = entry_bytes e @ entries_bytes es"

fun admitted :: "(u32 option \<Rightarrow> u32 \<Rightarrow> 'e option) \<Rightarrow> u32 option \<Rightarrow> (u32 \<times> bytes) list \<Rightarrow> bool" where
  "admitted check prev [] \<longleftrightarrow> True"
| "admitted check prev (e # es) \<longleftrightarrow>
     check prev (fst e) = None \<and> fits32 (snd e) \<and> admitted check (Some (fst e)) es"

lemma admitted_fits32: "admitted check prev es \<Longrightarrow> e \<in> set es \<Longrightarrow> fits32 (snd e)"
  by (induction es arbitrary: prev) auto

lemma entries_bytes_split:
  assumes "length es = length fs" "\<forall>e \<in> set es. fits32 (snd e)" "\<forall>f \<in> set fs. fits32 (snd f)"
    and "entries_bytes es @ s = entries_bytes fs @ t"
  shows "es = fs \<and> s = t"
  using assms
proof (induction es fs rule: list_induct2)
  case (Cons e es f fs)
  then have "u32_to_be_bytes (fst e) @ lp32 (snd e) @ entries_bytes es @ s =
             u32_to_be_bytes (fst f) @ lp32 (snd f) @ entries_bytes fs @ t"
    by (simp add: entry_bytes_def)
  then have "fst e = fst f" and tl: "lp32 (snd e) @ entries_bytes es @ s = lp32 (snd f) @ entries_bytes fs @ t"
    by (simp_all add: be32.append_eq_iff)
  moreover have "snd e = snd f" "entries_bytes es @ s = entries_bytes fs @ t"
    using Cons.prems lp32.split_front [OF _ _ tl] by auto
  ultimately show ?case
    using Cons.IH Cons.prems by (simp add: prod_eq_iff)
qed simp

locale entry_reader =
    u: field_codec u32_to_be_bytes "\<lambda>_. True" "\<lambda>c. ok (ru c)" rest on +
    v: field_codec lp32 fits32 "\<lambda>c. ok (rb c)" rest on
  for ru :: "'c \<Rightarrow> (u32 \<times> 'c, 'e) result" and rb :: "'c \<Rightarrow> (bytes \<times> 'c, 'e) result"
    and rest :: "'c \<Rightarrow> bytes" and on :: "bytes \<Rightarrow> 'c \<Rightarrow> bool" +
  assumes ru_no_panic: "on b c \<Longrightarrow> ru c \<noteq> Panic"
    and rb_no_panic: "on b c \<Longrightarrow> rb c \<noteq> Panic"
begin

lemma ru_sound: "on b c \<Longrightarrow> ru c = Ok (x, c') \<Longrightarrow> rest c = u32_to_be_bytes x @ rest c' \<and> on b c'"
  using u.read_sound [of b c x c'] by simp

lemma rb_sound:
  "on b c \<Longrightarrow> rb c = Ok (x, c') \<Longrightarrow> rest c = lp32 x @ rest c' \<and> fits32 x \<and> on b c'"
  using v.read_sound [of b c x c'] by simp

lemma ru_complete:
  "on b c \<Longrightarrow> rest c = u32_to_be_bytes x @ s \<Longrightarrow> \<exists>c'. ru c = Ok (x, c') \<and> rest c' = s \<and> on b c'"
  using u.read_complete [of b c x s] by simp

lemma rb_complete:
  "on b c \<Longrightarrow> fits32 x \<Longrightarrow> rest c = lp32 x @ s \<Longrightarrow>
     \<exists>c'. rb c = Ok (x, c') \<and> rest c' = s \<and> on b c'"
  using v.read_complete [of b c x s] by simp

lemma loop_sound:
  assumes "on b c" "entries_loop ru rb check n prev c acc = Ok (out, c')"
  shows "\<exists>es. out = acc @ es \<and> length es = n \<and> admitted check prev es
           \<and> rest c = entries_bytes es @ rest c' \<and> on b c'"
  using assms
proof (induction n arbitrary: prev c acc)
  case (Suc n)
  then obtain idx c1 claim c2 where
      r1: "ru c = Ok (idx, c1)" and chk: "check prev idx = None" and r2: "rb c1 = Ok (claim, c2)"
      and loop: "entries_loop ru rb check n (Some idx) c2 (acc @ [(idx, claim)]) = Ok (out, c')"
    by (auto simp: bind_r_Ok_iff split: option.splits)
  from ru_sound [OF Suc.prems(1) r1] have s1: "rest c = u32_to_be_bytes idx @ rest c1" "on b c1" by auto
  from rb_sound [OF s1(2) r2] have s2: "rest c1 = lp32 claim @ rest c2" "fits32 claim" "on b c2" by auto
  from Suc.IH [OF s2(3) loop] obtain es where
      "out = (acc @ [(idx, claim)]) @ es" "length es = n" "admitted check (Some idx) es"
      "rest c2 = entries_bytes es @ rest c'" "on b c'" by blast
  then show ?case
    using s1 s2 chk by (intro exI [of _ "(idx, claim) # es"]) (simp add: entry_bytes_def)
qed simp

lemma loop_complete:
  assumes "on b c" "admitted check prev es" "rest c = entries_bytes es @ s"
  shows "\<exists>c'. entries_loop ru rb check (length es) prev c acc = Ok (acc @ es, c')
           \<and> rest c' = s \<and> on b c'"
  using assms
proof (induction es arbitrary: prev c acc)
  case (Cons e es)
  have "rest c = u32_to_be_bytes (fst e) @ lp32 (snd e) @ entries_bytes es @ s"
    using Cons.prems(3) by (simp add: entry_bytes_def)
  from ru_complete [OF Cons.prems(1) this] obtain c1 where
    c1: "ru c = Ok (fst e, c1)" "rest c1 = lp32 (snd e) @ entries_bytes es @ s" "on b c1" by blast
  from rb_complete [OF c1(3) _ c1(2)] Cons.prems(2) obtain c2 where
    c2: "rb c1 = Ok (snd e, c2)" "rest c2 = entries_bytes es @ s" "on b c2" by auto
  from Cons.IH [OF c2(3) _ c2(2), of "Some (fst e)" "acc @ [e]"] Cons.prems(2) show ?case
    using c1 c2 by simp
qed simp

lemma loop_no_panic:
  assumes "on b c"
  shows "entries_loop ru rb check n prev c acc \<noteq> Panic"
  using assms
proof (induction n arbitrary: prev c acc)
  case (Suc n)
  show ?case
  proof
    assume "entries_loop ru rb check (Suc n) prev c acc = Panic"
    then consider "ru c = Panic" | idx c1 where "ru c = Ok (idx, c1)" "rb c1 = Panic"
      | idx c1 claim c2 where "ru c = Ok (idx, c1)" "rb c1 = Ok (claim, c2)"
          "entries_loop ru rb check n (Some idx) c2 (acc @ [(idx, claim)]) = Panic"
      by (auto simp: bind_r_Panic_iff split: option.splits)
    then show False
    proof cases
      case 1
      with ru_no_panic [OF Suc.prems] show ?thesis by simp
    next
      case (2 idx c1)
      with ru_sound [OF Suc.prems 2(1)] have "on b c1" by simp
      from rb_no_panic [OF this] 2(2) show ?thesis by simp
    next
      case (3 idx c1 claim c2)
      with ru_sound [OF Suc.prems 3(1)] have "on b c1" by simp
      from rb_sound [OF this 3(2)] have "on b c2" by simp
      from Suc.IH [OF this] 3(3) show ?thesis by simp
    qed
  qed
qed simp

text \<open>Sequencing: a decoder that continues a cursor of the buffer does not panic.\<close>

lemma ru_then:
  "on b c \<Longrightarrow> (\<And>x c'. on b c' \<Longrightarrow> no_panic (f (x, c'))) \<Longrightarrow> no_panic (bind_r (ru c) f)"
  using ru_no_panic ru_sound by (auto simp: no_panic_iff [of "ru c"] intro!: no_panic_bind)

lemma rb_then:
  "on b c \<Longrightarrow> (\<And>x c'. on b c' \<Longrightarrow> no_panic (f (x, c'))) \<Longrightarrow> no_panic (bind_r (rb c) f)"
  using rb_no_panic rb_sound by (auto simp: no_panic_iff [of "rb c"] intro!: no_panic_bind)

lemma loop_then:
  assumes "on b c" "\<And>x c'. on b c' \<Longrightarrow> no_panic (f (x, c'))"
  shows "no_panic (bind_r (entries_loop ru rb check n prev c acc) f)"
proof (rule no_panic_bind)
  show "no_panic (entries_loop ru rb check n prev c acc)"
    using loop_no_panic [OF assms(1)] by (simp add: no_panic_iff)
next
  fix p assume "entries_loop ru rb check n prev c acc = Ok p"
  then have "on b (snd p)" using loop_sound [OF assms(1), of check n prev acc "fst p" "snd p"] by auto
  then show "no_panic (f p)" using assms(2) [of "snd p" "fst p"] by simp
qed

end

subsection \<open>bbs::Reader\<close>

record reader =
  rd_b :: bytes
  rd_pos :: usize

definition rd_rest :: "reader \<Rightarrow> bytes" where
  "rd_rest r = drop (rd_pos r) (rd_b r)"

text \<open>A cursor of the buffer \<open>b\<close>; a Rust slice is shorter than \<open>2 ^ 64\<close>.\<close>

definition rd_on :: "bytes \<Rightarrow> reader \<Rightarrow> bool" where
  "rd_on b r \<longleftrightarrow> rd_b r = b \<and> rd_pos r \<le> length b \<and> fits64 b"

definition truncated :: crypto_error where
  "truncated = InvalidInput ''truncated''"

definition reader_u32 :: "reader \<Rightarrow> (u32 \<times> reader, crypto_error) result" where
  "reader_u32 r =
     bind_r (ok_or truncated (checked_add (rd_pos r) 4)) (\<lambda>end.
     if end > length (rd_b r) then Err truncated
     else bind_r (index_range (rd_b r) (rd_pos r) end) (\<lambda>slice.
     bind_r (ok_or truncated (try_into_array 4 slice)) (\<lambda>chunk.
     let v = u32_from_be_bytes chunk in
     Ok (v, r\<lparr>rd_pos := end\<rparr>))))"

definition reader_bytes :: "reader \<Rightarrow> (bytes \<times> reader, crypto_error) result" where
  "reader_bytes r =
     bind_r (reader_u32 r) (\<lambda>(len32, r).
     let len = unat len32 in
     bind_r (ok_or truncated (checked_add (rd_pos r) len)) (\<lambda>end.
     if end > length (rd_b r) then Err truncated
     else bind_r (index_range (rd_b r) (rd_pos r) end) (\<lambda>v.
     Ok (v, r\<lparr>rd_pos := end\<rparr>))))"

lemma reader_u32_eq:
  assumes "rd_on b r"
  shows "reader_u32 r =
    (if 4 \<le> length (rd_rest r)
     then Ok (u32_from_be_bytes (take 4 (rd_rest r)), r\<lparr>rd_pos := rd_pos r + 4\<rparr>)
     else Err truncated)"
  using assms
  by (auto simp: reader_u32_def rd_on_def rd_rest_def fits64_def checked_add_def index_range_def
      try_into_array_def)

lemma rd_on_advance:
  assumes "rd_on b r" "n \<le> length (rd_rest r)"
  shows "rd_on b (r\<lparr>rd_pos := rd_pos r + n\<rparr>)"
    and "rd_rest (r\<lparr>rd_pos := rd_pos r + n\<rparr>) = drop n (rd_rest r)"
  using assms by (auto simp: rd_on_def rd_rest_def add.commute)

interpretation rd_u32: field_codec u32_to_be_bytes "\<lambda>_. True" "\<lambda>r. ok (reader_u32 r)" rd_rest rd_on
proof
  fix b c x c'
  assume on: "rd_on b c" and rd: "ok (reader_u32 c) = Some (x, c')"
  then have len: "4 \<le> length (rd_rest c)"
    and eq: "x = u32_from_be_bytes (take 4 (rd_rest c))" "c' = c\<lparr>rd_pos := rd_pos c + 4\<rparr>"
    by (auto simp: reader_u32_eq [OF on] split: if_splits)
  then show "rd_rest c = u32_to_be_bytes x @ rd_rest c' \<and> True \<and> rd_on b c'"
    using rd_on_advance [OF on len] by simp
next
  fix b c x s
  assume on: "rd_on b c" and "rd_rest c = u32_to_be_bytes x @ s"
  then have len: "4 \<le> length (rd_rest c)" and "take 4 (rd_rest c) = u32_to_be_bytes x"
    and "drop 4 (rd_rest c) = s" by auto
  then show "\<exists>c'. ok (reader_u32 c) = Some (x, c') \<and> rd_rest c' = s \<and> rd_on b c'"
    using rd_on_advance [OF on len] by (simp add: reader_u32_eq [OF on])
qed

lemma reader_u32_Ok_on:
  assumes "rd_on b r" "reader_u32 r = Ok (x, r')"
  shows "rd_on b r'" and "rd_rest r = u32_to_be_bytes x @ rd_rest r'"
  using rd_u32.read_sound [of b r x r'] assms by auto

lemma reader_bytes_eq:
  assumes "rd_on b r"
  shows "reader_bytes r =
    bind_r (reader_u32 r) (\<lambda>(n, r').
      if unat n \<le> length (rd_rest r')
      then Ok (take (unat n) (rd_rest r'), r'\<lparr>rd_pos := rd_pos r' + unat n\<rparr>)
      else Err truncated)"
proof (cases "reader_u32 r")
  case (Ok p)
  obtain n r' where p: "p = (n, r')" by (cases p)
  have "rd_on b r'" using reader_u32_Ok_on [OF assms] Ok p by blast
  then show ?thesis
    using Ok p
    by (auto simp: reader_bytes_def rd_on_def rd_rest_def fits64_def checked_add_def
        index_range_def Let_def)
qed (simp_all add: reader_bytes_def)

interpretation rd_bytes: field_codec lp32 fits32 "\<lambda>r. ok (reader_bytes r)" rd_rest rd_on
proof
  fix b c x c'
  assume on: "rd_on b c" and "ok (reader_bytes c) = Some (x, c')"
  then obtain n r' where r': "reader_u32 c = Ok (n, r')" and le: "unat n \<le> length (rd_rest r')"
    and x: "x = take (unat n) (rd_rest r')" and c': "c' = r'\<lparr>rd_pos := rd_pos r' + unat n\<rparr>"
    by (auto simp: reader_bytes_eq bind_r_Ok_iff split: if_splits)
  have "rd_on b r'" and rest: "rd_rest c = u32_to_be_bytes n @ rd_rest r'"
    using reader_u32_Ok_on [OF on r'] by auto
  moreover have "unat n < 2 ^ 32"
    by (rule order_less_le_trans [OF unsigned_less]) simp
  moreover have "len_be32 (length x) = u32_to_be_bytes n"
    using le x by (simp add: len_be32_def)
  ultimately show "rd_rest c = lp32 x @ rd_rest c' \<and> fits32 x \<and> rd_on b c'"
    using rd_on_advance [of b r' "unat n"] le x c' by (simp add: lp32_def fits32_def)
next
  fix b c x s
  assume on: "rd_on b c" and fits: "fits32 x" and "rd_rest c = lp32 x @ s"
  then have "rd_rest c = u32_to_be_bytes (word_of_nat (length x)) @ (x @ s)"
    by (simp add: lp32_def len_be32_def)
  from rd_u32.read_complete [OF on _ this] obtain r' where
    r': "reader_u32 c = Ok (word_of_nat (length x), r')" "rd_rest r' = x @ s" "rd_on b r'" by auto
  moreover have "unat (word_of_nat (length x) :: u32) = length x"
    using fits by (simp add: fits32_def unat_of_nat)
  ultimately show "\<exists>c'. ok (reader_bytes c) = Some (x, c') \<and> rd_rest c' = s \<and> rd_on b c'"
    using rd_on_advance [of b r' "length x"] by (simp add: reader_bytes_eq [OF on])
qed

interpretation rd: entry_reader reader_u32 reader_bytes rd_rest rd_on
proof
  fix b c assume on: "rd_on b c"
  show "reader_u32 c \<noteq> Panic" by (simp add: reader_u32_eq [OF on])
  then show "reader_bytes c \<noteq> Panic"
    by (auto simp: reader_bytes_eq [OF on] bind_r_Panic_iff)
qed

lemma rd_on_start: "fits64 b \<Longrightarrow> rd_on b \<lparr>rd_b = b, rd_pos = 0\<rparr>"
  by (simp add: rd_on_def)

lemma rd_rest_start [simp]: "rd_rest \<lparr>rd_b = b, rd_pos = 0\<rparr> = b"
  by (simp add: rd_rest_def)

text \<open>\<open>r.pos != b.len()\<close>: the trailing-bytes test of the decoders.\<close>

lemma rd_at_end: "rd_on b r \<Longrightarrow> rd_pos r = length b \<longleftrightarrow> rd_rest r = []"
  by (auto simp: rd_on_def rd_rest_def)

end
