(* ===== verification/Phi_Codec.thy ===== *)
theory Phi_Codec
  imports Phi_Framing
begin

section \<open>Canonical wire codecs\<close>

text \<open>
  What a decoder at a trust boundary promises together with its encoder: it accepts exactly
  the encodings of well-formed values. Round trip, uniqueness of the accepted encoding,
  injectivity of decoding and the rejection of trailing and truncated input follow once, for
  every codec of the crate.
\<close>

locale canonical_codec =
  fixes decode :: "bytes \<Rightarrow> 'a option"
    and encode :: "'a \<Rightarrow> bytes"
    and wf :: "'a \<Rightarrow> bool"
  assumes decode_iff: "fits64 b \<Longrightarrow> decode b = Some x \<longleftrightarrow> wf x \<and> encode x = b"
    and encode_fits: "wf x \<Longrightarrow> fits64 (encode x)"
    and encode_prefix: "wf x \<Longrightarrow> wf y \<Longrightarrow> encode x @ s = encode y \<Longrightarrow> s = []"
begin

lemma roundtrip: "wf x \<Longrightarrow> decode (encode x) = Some x"
  using decode_iff encode_fits by blast

lemma decode_inj:
  assumes "fits64 b" "fits64 b'" "decode b = Some x" "decode b' = Some x"
  shows "b = b'"
  using decode_iff [OF assms(1), of x] decode_iff [OF assms(2), of x] assms(3,4) by simp

lemma encode_inj:
  assumes "wf x" "wf y" "encode x = encode y"
  shows "x = y"
proof -
  have "Some x = Some y" using roundtrip [OF assms(1)] roundtrip [OF assms(2)] assms(3) by metis
  then show ?thesis by simp
qed

lemma rejects_trailing:
  assumes "fits64 (b @ s)" "decode b = Some x" "s \<noteq> []"
  shows "decode (b @ s) = None"
proof (rule ccontr)
  have "fits64 b" using assms(1) by (simp add: fits64_def)
  then have x: "wf x" "encode x = b" using assms(2) decode_iff by auto
  assume "decode (b @ s) \<noteq> None"
  then obtain y where "decode (b @ s) = Some y" by blast
  then have "wf y" "encode y = encode x @ s" using x decode_iff [OF assms(1)] by auto
  then show False using encode_prefix x assms(3) by metis
qed

lemma rejects_truncated:
  assumes "fits64 b" "decode b = Some x" "n < length b"
  shows "decode (take n b) = None"
proof (rule ccontr)
  assume "decode (take n b) \<noteq> None"
  then obtain y where y: "decode (take n b) = Some y" by blast
  have b: "take n b @ drop n b = b" by simp
  then have "decode (take n b @ drop n b) = None"
    using rejects_trailing [OF _ y, of "drop n b"] assms by simp
  with assms(2) b show False by simp
qed

end

sublocale canonical_codec \<subseteq> framing encode wf
  by unfold_locales (rule encode_inj)

end
