(* ===== verification/Phi_Wire.thy ===== *)
theory Phi_Wire
  imports Phi_Reader Phi_Codec
begin

section \<open>The SelectiveProof wire format (bbs.rs)\<close>

text \<open>
  \<open>SelectiveProof\<close>, its length-prefixed encoding and its decoder. The decoder accepts exactly
  the encodings of well-formed proofs (\<open>sp_wf\<close>): a claim count between 1 and
  \<open>MAX_BBS_MESSAGES\<close>, no more revealed entries than claims, strictly increasing indices below
  the count, and lengths a \<open>u32\<close> prefix can carry.
\<close>

definition MAX_BBS_MESSAGES :: u32 where
  "MAX_BBS_MESSAGES = 64"

record SelectiveProof =
  sp_message_count :: u32
  sp_proof :: bytes
  sp_revealed :: "(u32 \<times> bytes) list"

definition message_count_in_range :: "u32 \<Rightarrow> usize \<Rightarrow> bool" where
  "message_count_in_range message_count revealed_count \<longleftrightarrow>
     message_count \<noteq> 0 \<and> message_count \<le> MAX_BBS_MESSAGES \<and> revealed_count \<le> unat message_count"

subsection \<open>Encoding\<close>

text \<open>The loop of \<open>to_bytes\<close> over the revealed claims, appending to \<open>out\<close>.\<close>

fun sp_put_revealed :: "bytes \<Rightarrow> (u32 \<times> bytes) list \<Rightarrow> bytes" where
  "sp_put_revealed out [] = out"
| "sp_put_revealed out ((idx, claim) # es) =
     sp_put_revealed (out @ u32_to_be_bytes idx @ len_be32 (length claim) @ claim) es"

definition sp_to_bytes :: "SelectiveProof \<Rightarrow> bytes" where
  "sp_to_bytes p =
     (let out = [] @ u32_to_be_bytes (sp_message_count p);
          out = out @ len_be32 (length (sp_proof p));
          out = out @ sp_proof p;
          out = out @ len_be32 (length (sp_revealed p))
      in sp_put_revealed out (sp_revealed p))"

subsection \<open>Decoding\<close>

definition sp_index_check :: "u32 \<Rightarrow> u32 option \<Rightarrow> u32 \<Rightarrow> crypto_error option" where
  "sp_index_check message_count prev idx =
     (if idx \<ge> message_count then Some (InvalidInput ''revealed index out of range'')
      else case prev of
        Some p \<Rightarrow>
          (if idx \<le> p then Some (InvalidInput ''revealed indices must be strictly increasing'')
           else None)
      | None \<Rightarrow> None)"

definition sp_from_bytes :: "bytes \<Rightarrow> (SelectiveProof, crypto_error) result" where
  "sp_from_bytes b =
     bind_r (reader_u32 \<lparr>rd_b = b, rd_pos = 0\<rparr>) (\<lambda>(message_count, r).
     if message_count = 0 \<or> message_count > MAX_BBS_MESSAGES
     then Err (InvalidInput ''message_count out of range'')
     else bind_r (reader_bytes r) (\<lambda>(proof, r).
     bind_r (reader_u32 r) (\<lambda>(n32, r).
     let n = unat n32 in
     if n > unat message_count
     then Err (InvalidInput ''revealed count exceeds message_count'')
     else bind_r (entries_loop reader_u32 reader_bytes (sp_index_check message_count) n None r [])
       (\<lambda>(revealed, r).
     if rd_pos r \<noteq> length b then Err (InvalidInput ''trailing bytes'')
     else Ok \<lparr>sp_message_count = message_count, sp_proof = proof, sp_revealed = revealed\<rparr>))))"

subsection \<open>Well-formed proofs\<close>

definition sp_wf :: "SelectiveProof \<Rightarrow> bool" where
  "sp_wf p \<longleftrightarrow>
     message_count_in_range (sp_message_count p) (length (sp_revealed p))
     \<and> fits32 (sp_proof p)
     \<and> sorted_wrt (<) (map fst (sp_revealed p))
     \<and> (\<forall>e \<in> set (sp_revealed p). fst e < sp_message_count p \<and> fits32 (snd e))"

lemma sp_put_revealed_eq: "sp_put_revealed out es = out @ entries_bytes es"
  by (induction out es rule: sp_put_revealed.induct) (auto simp: entry_bytes_def lp32_def)

lemma sp_to_bytes_eq:
  "sp_to_bytes p = u32_to_be_bytes (sp_message_count p) @ lp32 (sp_proof p)
     @ u32_to_be_bytes (word_of_nat (length (sp_revealed p))) @ entries_bytes (sp_revealed p)"
  by (simp add: sp_to_bytes_def sp_put_revealed_eq lp32_def len_be32_def)

lemma sp_admitted:
  "admitted (sp_index_check mc) prev es \<longleftrightarrow>
     sorted_wrt (<) (map fst es)
     \<and> (\<forall>e \<in> set es. fst e < mc \<and> fits32 (snd e) \<and> (\<forall>p. prev = Some p \<longrightarrow> p < fst e))"
  by (induction es arbitrary: prev)
    (fastforce simp: sp_index_check_def not_le split: option.splits if_splits)+

lemma unat_MAX_BBS_MESSAGES [simp]: "unat MAX_BBS_MESSAGES = 64"
  by (simp add: MAX_BBS_MESSAGES_def)

lemma message_count_in_rangeD:
  "message_count_in_range mc n \<Longrightarrow> 0 < unat mc \<and> unat mc \<le> 64 \<and> n \<le> 64"
  by (auto simp: message_count_in_range_def word_le_nat_alt unat_gt_0)

lemma in_range_iff:
  "message_count_in_range mc n \<longleftrightarrow> \<not> (mc = 0 \<or> mc > MAX_BBS_MESSAGES) \<and> \<not> n > unat mc"
  by (auto simp: message_count_in_range_def)

lemma length_entries_bytes:
  assumes "\<forall>e \<in> set es. fits32 (snd e)"
  shows "length (entries_bytes es) \<le> length es * (8 + 2 ^ 32)"
  using assms by (induction es) (auto simp: entry_bytes_def fits32_def)

lemma sp_encode_fits:
  assumes "sp_wf p"
  shows "fits64 (sp_to_bytes p)"
proof -
  have len: "length (sp_revealed p) \<le> 64" and pf: "fits32 (sp_proof p)"
    and ents: "\<forall>e \<in> set (sp_revealed p). fits32 (snd e)"
    using assms message_count_in_rangeD by (auto simp: sp_wf_def)
  have "length (entries_bytes (sp_revealed p)) \<le> 64 * (8 + 2 ^ 32)"
    using length_entries_bytes [OF ents] len
    by (meson le_trans mult_le_mono1)
  then show ?thesis
    using pf by (simp add: sp_to_bytes_eq fits64_def fits32_def)
qed

lemma unat_revealed_count:
  assumes "message_count_in_range mc n"
  shows "unat (word_of_nat n :: u32) = n"
  using message_count_in_rangeD [OF assms] by (simp add: unat_of_nat)

lemma sp_from_bytes_sound:
  assumes "fits64 b" "sp_from_bytes b = Ok p"
  shows "sp_wf p \<and> sp_to_bytes p = b"
proof -
  let ?r0 = "\<lparr>rd_b = b, rd_pos = 0\<rparr>"
  from assms(2) obtain mc r1 pr r2 n r3 ents r4 where
      r1: "reader_u32 ?r0 = Ok (mc, r1)" and r2: "reader_bytes r1 = Ok (pr, r2)"
      and r3: "reader_u32 r2 = Ok (n, r3)" and range: "message_count_in_range mc (unat n)"
      and r4: "entries_loop reader_u32 reader_bytes (sp_index_check mc) (unat n) None r3 [] = Ok (ents, r4)"
      and at_end: "rd_pos r4 = length b"
      and p: "p = \<lparr>sp_message_count = mc, sp_proof = pr, sp_revealed = ents\<rparr>"
    by (auto simp: sp_from_bytes_def bind_r_Ok_iff in_range_iff Let_def split: if_splits)
  have s1: "b = u32_to_be_bytes mc @ rd_rest r1" "rd_on b r1"
    using rd.ru_sound [OF rd_on_start [OF assms(1)] r1] by auto
  have s2: "rd_rest r1 = lp32 pr @ rd_rest r2" "fits32 pr" "rd_on b r2"
    using rd.rb_sound [OF s1(2) r2] by auto
  have s3: "rd_rest r2 = u32_to_be_bytes n @ rd_rest r3" "rd_on b r3"
    using rd.ru_sound [OF s2(3) r3] by auto
  have s4: "length ents = unat n" "admitted (sp_index_check mc) None ents"
      "rd_rest r3 = entries_bytes ents @ rd_rest r4" "rd_on b r4"
    using rd.loop_sound [OF s3(2) r4] by auto
  have "rd_rest r4 = []" using rd_at_end [OF s4(4)] at_end by simp
  moreover have "(word_of_nat (length ents) :: u32) = n" using s4(1) by simp
  ultimately have "sp_to_bytes p = b"
    using s1 s2 s3 s4 p by (simp add: sp_to_bytes_eq)
  moreover have "sp_wf p"
    using range s2(2) s4(1,2) p by (auto simp: sp_wf_def sp_admitted)
  ultimately show ?thesis by blast
qed

lemma sp_from_bytes_complete:
  assumes "sp_wf p"
  shows "sp_from_bytes (sp_to_bytes p) = Ok p"
proof -
  let ?b = "sp_to_bytes p"
  let ?mc = "sp_message_count p"
  let ?n = "word_of_nat (length (sp_revealed p)) :: u32"
  have on: "rd_on ?b \<lparr>rd_b = ?b, rd_pos = 0\<rparr>"
    using rd_on_start sp_encode_fits [OF assms] by blast
  have rest: "rd_rest \<lparr>rd_b = ?b, rd_pos = 0\<rparr> = u32_to_be_bytes ?mc @ lp32 (sp_proof p)
       @ u32_to_be_bytes ?n @ entries_bytes (sp_revealed p) @ []"
    by (simp add: sp_to_bytes_eq)
  from rd.ru_complete [OF on rest] obtain r1 where
    r1: "reader_u32 \<lparr>rd_b = ?b, rd_pos = 0\<rparr> = Ok (?mc, r1)"
      "rd_rest r1 = lp32 (sp_proof p) @ u32_to_be_bytes ?n @ entries_bytes (sp_revealed p) @ []"
      "rd_on ?b r1" by blast
  have wf: "message_count_in_range ?mc (length (sp_revealed p))" "fits32 (sp_proof p)"
      "admitted (sp_index_check ?mc) None (sp_revealed p)"
    using assms by (auto simp: sp_wf_def sp_admitted)
  from rd.rb_complete [OF r1(3) wf(2) r1(2)] obtain r2 where
    r2: "reader_bytes r1 = Ok (sp_proof p, r2)"
      "rd_rest r2 = u32_to_be_bytes ?n @ entries_bytes (sp_revealed p) @ []" "rd_on ?b r2" by blast
  from rd.ru_complete [OF r2(3) r2(2)] obtain r3 where
    r3: "reader_u32 r2 = Ok (?n, r3)" "rd_rest r3 = entries_bytes (sp_revealed p) @ []"
      "rd_on ?b r3" by blast
  from rd.loop_complete [OF r3(3) wf(3) r3(2), of "[]"] obtain r4 where
    r4: "entries_loop reader_u32 reader_bytes (sp_index_check ?mc) (length (sp_revealed p)) None r3 []
           = Ok (sp_revealed p, r4)" "rd_rest r4 = []" "rd_on ?b r4" by auto
  have "rd_pos r4 = length ?b" using rd_at_end [OF r4(3)] r4(2) by simp
  then show ?thesis
    using r1(1) r2(1) r3(1) r4(1) wf(1) unat_revealed_count [OF wf(1)]
    by (auto simp: sp_from_bytes_def Let_def in_range_iff)
qed

lemma sp_encode_prefix:
  assumes "sp_wf p" "sp_wf q" "sp_to_bytes p @ s = sp_to_bytes q"
  shows "s = []"
proof -
  have f: "fits32 (sp_proof p)" "fits32 (sp_proof q)" and
       e: "\<forall>e \<in> set (sp_revealed p). fits32 (snd e)" "\<forall>e \<in> set (sp_revealed q). fits32 (snd e)"
    using assms(1,2) by (auto simp: sp_wf_def)
  have n: "unat (word_of_nat (length (sp_revealed p)) :: u32) = length (sp_revealed p)"
       "unat (word_of_nat (length (sp_revealed q)) :: u32) = length (sp_revealed q)"
    using assms(1,2) unat_revealed_count unfolding sp_wf_def by blast+
  have "(word_of_nat (length (sp_revealed p)) :: u32) = word_of_nat (length (sp_revealed q))"
    and ents: "entries_bytes (sp_revealed p) @ s = entries_bytes (sp_revealed q) @ []"
    using assms(3) f by (auto simp: sp_to_bytes_eq be32.append_eq_iff lp32.append_eq_iff)
  then have "length (sp_revealed p) = length (sp_revealed q)" using n by metis
  from entries_bytes_split [OF this e ents] show ?thesis by simp
qed

lemma sp_from_bytes_no_panic:
  assumes "fits64 b"
  shows "no_panic (sp_from_bytes b)"
  unfolding sp_from_bytes_def Let_def
  by (auto intro!: rd.ru_then [where b = b] rd.rb_then [where b = b] rd.loop_then [where b = b]
      rd_on_start assms)

interpretation sp: canonical_codec "\<lambda>b. ok (sp_from_bytes b)" sp_to_bytes sp_wf
proof
  fix b p assume "fits64 b"
  then show "ok (sp_from_bytes b) = Some p \<longleftrightarrow> sp_wf p \<and> sp_to_bytes p = b"
    using sp_from_bytes_sound sp_from_bytes_complete by auto
qed (fact sp_encode_fits, fact sp_encode_prefix)

subsection \<open>Claims\<close>

text \<open>C6: the decoder of the wire format never panics, and it accepts a buffer exactly when the
  buffer is the encoding of a well-formed proof, which it then returns: decoding and encoding
  are inverse to each other, every accepted value has one accepted encoding, and an accepted
  buffer that is extended or cut short is refused with an error.\<close>

theorem sp_decode_canonical:
  assumes "fits64 b"
  shows "no_panic (sp_from_bytes b)
     \<and> (sp_from_bytes b = Ok p \<longleftrightarrow> sp_wf p \<and> sp_to_bytes p = b)
     \<and> (sp_from_bytes b = Ok p \<and> n < length b \<longrightarrow> (\<exists>e. sp_from_bytes (take n b) = Err e))
     \<and> (sp_from_bytes b = Ok p \<and> s \<noteq> [] \<and> fits64 (b @ s) \<longrightarrow> (\<exists>e. sp_from_bytes (b @ s) = Err e))"
proof -
  have err: "\<exists>e. sp_from_bytes c = Err e" if "fits64 c" "ok (sp_from_bytes c) = None" for c
    using sp_from_bytes_no_panic [OF that(1)] that(2) by (cases "sp_from_bytes c") auto
  have "fits64 (take n b)" using assms by (simp add: fits64_def)
  then show ?thesis
    using sp.decode_iff [OF assms, of p] sp_from_bytes_no_panic [OF assms] sp.rejects_truncated [OF assms, of p n]
      sp.rejects_trailing [of b s p] err by auto
qed

definition sample_proof :: SelectiveProof where
  "sample_proof = \<lparr>sp_message_count = 3, sp_proof = [25, 2], sp_revealed = [(0, [1]), (2, [3])]\<rparr>"

theorem sp_decode_canonical_witness:
  "sp_from_bytes (sp_to_bytes sample_proof) = Ok sample_proof
   \<and> (\<exists>e. sp_from_bytes (take 4 (sp_to_bytes sample_proof)) = Err e)
   \<and> (\<exists>e. sp_from_bytes (sp_to_bytes sample_proof @ [0]) = Err e)"
proof -
  have wf: "sp_wf sample_proof"
    by (simp add: sp_wf_def sample_proof_def fits32_def message_count_in_range_def MAX_BBS_MESSAGES_def)
  have l: "length (sp_to_bytes sample_proof) = 32" by (simp add: sample_proof_def sp_to_bytes_def)
  then have "fits64 (sp_to_bytes sample_proof)" "fits64 (sp_to_bytes sample_proof @ [0])" by (simp_all add: fits64_def)
  then show ?thesis
    using sp_decode_canonical [of "sp_to_bytes sample_proof" sample_proof 4 "[0]"] wf l by simp
qed

end
