(* ===== verification/Phi_State.thy ===== *)
theory Phi_State
  imports Phi_Error
begin

section \<open>Sequenced effects and ordered maps\<close>

text \<open>
  The operations of the signature suites thread state (the parameter cache, the random
  generator) and may fail or panic at any call. \<open>bind_s\<close> sequences such operations the way
  the \<open>?\<close> operator does; the rules here relate it to the outcome of each step. A
  \<open>BTreeMap<usize, T>\<close> is the list of its entries in key order.
\<close>

type_synonym ('s, 'a) st = "'s \<Rightarrow> ('a, crypto_error) result \<times> 's"

definition bind_s :: "('s, 'a) st \<Rightarrow> ('a \<Rightarrow> ('s, 'b) st) \<Rightarrow> ('s, 'b) st" where
  "bind_s m f s = (case m s of
       (Ok x, s') \<Rightarrow> f x s'
     | (Err e, s') \<Rightarrow> (Err e, s')
     | (Panic, s') \<Rightarrow> (Panic, s'))"

definition lift_s :: "('a, crypto_error) result \<Rightarrow> ('s, 'a) st" where
  "lift_s r s = (r, s)"

lemma lift_s_app [simp]: "lift_s r s = (r, s)"
  by (simp add: lift_s_def)

lemma bind_s_lift:
  "bind_s (lift_s r) f s = (case r of Ok x \<Rightarrow> f x s | Err e \<Rightarrow> (Err e, s) | Panic \<Rightarrow> (Panic, s))"
  by (simp add: bind_s_def split: result.split)

lemma bind_s_Ok_iff [outcome_simps]:
  "bind_s m f s = (Ok y, s2) \<longleftrightarrow> (\<exists>x s1. m s = (Ok x, s1) \<and> f x s1 = (Ok y, s2))"
  by (cases "m s" rule: prod.exhaust; cases "fst (m s)") (auto simp: bind_s_def)

lemma bind_s_step: "m s = (Ok x, s') \<Longrightarrow> bind_s m f s = f x s'"
  by (simp add: bind_s_def)

lemma bind_s_no_panic:
  assumes "no_panic (fst (m s))" "\<And>x s'. m s = (Ok x, s') \<Longrightarrow> no_panic (fst (f x s'))"
  shows "no_panic (fst (bind_s m f s))"
  using assms by (cases "m s"; cases "fst (m s)") (auto simp: bind_s_def)

text \<open>Operations that keep an invariant of the state compose.\<close>

definition keeps :: "('s \<Rightarrow> bool) \<Rightarrow> ('s, 'a) st \<Rightarrow> bool" where
  "keeps I m \<longleftrightarrow> (\<forall>s. I s \<longrightarrow> I (snd (m s)))"

lemma keepsD: "keeps I m \<Longrightarrow> I s \<Longrightarrow> I (snd (m s))"
  by (simp add: keeps_def)

lemma keeps_lift [simp, intro]: "keeps I (lift_s r)"
  by (simp add: keeps_def)

lemma keeps_bind [intro!]:
  assumes "keeps I m" "\<And>x. keeps I (f x)"
  shows "keeps I (bind_s m f)"
  unfolding keeps_def
proof (intro allI impI)
  fix s assume "I s"
  with assms(1) have "I (snd (m s))" by (simp add: keeps_def)
  with assms(2) show "I (snd (bind_s m f s))"
    by (cases "m s"; cases "fst (m s)") (auto simp: bind_s_def keeps_def)
qed

subsection \<open>BTreeMap\<close>

type_synonym 'v btree_map = "(nat \<times> 'v) list"

fun bt_insert :: "nat \<Rightarrow> 'v \<Rightarrow> 'v btree_map \<Rightarrow> 'v btree_map" where
  "bt_insert k v [] = [(k, v)]"
| "bt_insert k v ((k', v') # m) =
     (if k < k' then (k, v) # (k', v') # m
      else if k = k' then (k, v) # m
      else (k', v') # bt_insert k v m)"

definition bt_get :: "'v btree_map \<Rightarrow> nat \<Rightarrow> 'v option" where
  "bt_get m k = map_of m k"

definition bt_ok :: "'v btree_map \<Rightarrow> bool" where
  "bt_ok m \<longleftrightarrow> sorted_wrt (<) (map fst m)"

lemma bt_insert_keys: "fst ` set (bt_insert k v m) = insert k (fst ` set m)"
  by (induction k v m rule: bt_insert.induct) auto

lemma bt_insert_ok: "bt_ok m \<Longrightarrow> bt_ok (bt_insert k v m)"
proof (induction k v m rule: bt_insert.induct)
  case (2 k v k' v' m)
  then show ?case
    using bt_insert_keys [of k v m] by (fastforce simp: bt_ok_def)
qed (simp add: bt_ok_def)

lemma bt_get_insert: "bt_get (bt_insert k v m) = (bt_get m)(k \<mapsto> v)"
  by (induction k v m rule: bt_insert.induct) (auto simp: bt_get_def fun_eq_iff)

lemma bt_get_None_iff: "bt_get m k = None \<longleftrightarrow> k \<notin> fst ` set m"
  by (simp add: bt_get_def map_of_eq_None_iff)

lemma length_bt_insert_fresh:
  "bt_get m k = None \<Longrightarrow> length (bt_insert k v m) = Suc (length m)"
  by (induction k v m rule: bt_insert.induct) (auto simp: bt_get_def split: if_splits)

lemma bt_insert_last:
  "\<forall>k' \<in> fst ` set m. k' < k \<Longrightarrow> bt_insert k v m = m @ [(k, v)]"
  by (induction k v m rule: bt_insert.induct) auto

lemma bt_ok_rebuild:
  assumes "bt_ok m"
  shows "map (\<lambda>k. (k, the (bt_get m k))) (map fst m) = m"
proof -
  have "distinct (map fst m)"
    using assms strict_sorted_iff by (auto simp: bt_ok_def)
  then have "(fst e, the (bt_get m (fst e))) = e" if "e \<in> set m" for e
    using that by (cases e) (simp add: bt_get_def)
  then show ?thesis by (simp add: map_idI)
qed

lemma bt_ok_unique:
  assumes "bt_ok m" "bt_ok m'" "bt_get m = bt_get m'"
  shows "m = m'"
proof -
  have "fst ` set m = fst ` set m'"
    using bt_get_None_iff assms(3) by (metis subsetI subset_antisym)
  then have "map fst m = map fst m'"
    using strict_sorted_equal [of "map fst m'" "map fst m"] assms(1,2) by (simp add: bt_ok_def)
  then show ?thesis
    using bt_ok_rebuild assms by metis
qed

end
