(* ===== verification/Phi_Params.thy ===== *)
theory Phi_Params
  imports Phi_Wire Phi_State
begin

section \<open>The memoized signature parameters (bbs.rs)\<close>

text \<open>
  \<open>params_for\<close> serves the generators of a claim count from a process-wide cache behind a mutex,
  and derives them afresh when the count is out of range, absent or the mutex is poisoned.
  \<open>new\<close> stands for \<open>SignatureParamsG1::new::<Blake2b512>\<close>, which asserts a non-zero count. The
  sequential function is modelled with the cache as explicit state; the interleaving of
  concurrent calls, with the mutex itself, is the subject of \<open>Phi_Pool\<close>. In both, memoization is
  invisible and the cache is bounded.
\<close>

definition PARAMS_LABEL :: bytes where
  "PARAMS_LABEL = ascii ''phi-bbs-v1''"

type_synonym 'p params_new = "bytes \<Rightarrow> u32 \<Rightarrow> ('p, crypto_error) result"

definition derive_params :: "'p params_new \<Rightarrow> u32 \<Rightarrow> ('p, crypto_error) result" where
  "derive_params new count = new PARAMS_LABEL count"

record 'p params_cache =
  pc_entries :: "(u32 \<times> 'p) list"
  pc_poisoned :: bool

text \<open>The initial value behind the \<open>OnceLock\<close>.\<close>

definition params_cache :: "'p params_cache" where
  "params_cache = \<lparr>pc_entries = [], pc_poisoned = False\<rparr>"

definition cache_get :: "'p params_cache \<Rightarrow> u32 \<Rightarrow> 'p option" where
  "cache_get c count = (if pc_poisoned c then None else map_of (pc_entries c) count)"

definition cache_insert :: "u32 \<Rightarrow> 'p \<Rightarrow> 'p params_cache \<Rightarrow> 'p params_cache" where
  "cache_insert count p c =
     (if pc_poisoned c then c
      else c\<lparr>pc_entries := (count, p) # filter (\<lambda>e. fst e \<noteq> count) (pc_entries c)\<rparr>)"

definition params_for :: "'p params_new \<Rightarrow> u32 \<Rightarrow> ('p params_cache, 'p) st" where
  "params_for new count cache =
     (if count > MAX_BBS_MESSAGES then (derive_params new count, cache)
      else case cache_get cache count of
        Some cached \<Rightarrow> (Ok cached, cache)
      | None \<Rightarrow>
          (case derive_params new count of
             Ok params \<Rightarrow> (Ok params, cache_insert count params cache)
           | Err e \<Rightarrow> (Err e, cache)
           | Panic \<Rightarrow> (Panic, cache)))"

text \<open>Every cached entry is what a fresh derivation gives, for a count in range, once.\<close>

definition cache_ok :: "'p params_new \<Rightarrow> 'p params_cache \<Rightarrow> bool" where
  "cache_ok new c \<longleftrightarrow>
     distinct (map fst (pc_entries c))
     \<and> (\<forall>(count, p) \<in> set (pc_entries c).
          count \<le> MAX_BBS_MESSAGES \<and> derive_params new count = Ok p)"

lemma cache_ok_initial: "cache_ok new params_cache"
  by (simp add: cache_ok_def params_cache_def)

lemma cache_get_ok:
  "cache_ok new c \<Longrightarrow> cache_get c count = Some p \<Longrightarrow> derive_params new count = Ok p"
  by (auto simp: cache_ok_def cache_get_def split: if_splits dest!: map_of_SomeD)

lemma cache_insert_ok:
  assumes "cache_ok new c" "count \<le> MAX_BBS_MESSAGES" "derive_params new count = Ok p"
  shows "cache_ok new (cache_insert count p c)"
proof -
  have "distinct (map fst (filter (\<lambda>e. fst e \<noteq> count) (pc_entries c)))"
    using assms(1) by (simp add: cache_ok_def distinct_map_filter)
  then show ?thesis
    using assms by (auto simp: cache_ok_def cache_insert_def)
qed

lemma params_for_ok: "cache_ok new c \<Longrightarrow> cache_ok new (snd (params_for new count c))"
  by (auto simp: params_for_def cache_insert_ok split: option.splits result.splits)

lemma params_for_transparent:
  "cache_ok new c \<Longrightarrow> fst (params_for new count c) = derive_params new count"
  by (auto simp: params_for_def dest: cache_get_ok split: option.splits result.splits)

lemma cache_ok_size:
  assumes "cache_ok new c"
  shows "length (pc_entries c) \<le> 65"
proof -
  let ?ks = "fst ` set (pc_entries c)"
  have "unat ` ?ks \<subseteq> {..64}"
    using assms by (auto simp: cache_ok_def word_le_nat_alt)
  then have "card (unat ` ?ks) \<le> card {..64 :: nat}"
    by (intro card_mono) auto
  moreover have "card (unat ` ?ks) = card ?ks"
    by (intro card_image inj_onI) (simp add: word_unat_eq_iff)
  moreover have "card ?ks = length (pc_entries c)"
    using assms distinct_card [of "map fst (pc_entries c)"] by (simp add: cache_ok_def)
  ultimately show ?thesis by simp
qed

end
