(* ===== verification/Phi_Suite.thy ===== *)
theory Phi_Suite
  imports Phi_Params
begin

section \<open>The selective-disclosure suite interface (bbs.rs, trait CryptoSuite)\<close>

text \<open>
  What both suites of the crate promise of \<open>derive_proof\<close>: a successful call discloses exactly
  the requested claims, once each and in index order, and records the claim count. The
  interface fixes the operation and the states it is called in; its consequences (no claim
  outside the request is disclosed; a proof within the wire bounds crosses the C-ABI
  unchanged) hold for every suite that keeps the promise.
\<close>

definition disclosed :: "bytes list \<Rightarrow> nat list \<Rightarrow> (u32 \<times> bytes) list" where
  "disclosed claims reveal = map (\<lambda>i. (word_of_nat i, claims ! i)) (btree_set reveal)"

lemma disclosed_index:
  assumes "\<forall>i \<in> set reveal. i < length claims" "length claims \<le> 2 ^ 32" "i \<in> set reveal"
  shows "unat (word_of_nat i :: u32) = i"
  using assms order_less_le_trans by (auto simp: unat_of_nat)

lemma disclosed_sorted:
  assumes "\<forall>i \<in> set reveal. i < length claims" "length claims \<le> 2 ^ 32"
  shows "sorted_wrt (<) (map fst (disclosed claims reveal))"
proof -
  have "sorted_wrt (\<lambda>i j. (word_of_nat i :: u32) < word_of_nat j) (btree_set reveal)"
    by (rule sorted_wrt_mono_rel [OF _ strict_sorted_btree_set])
      (simp add: word_less_nat_alt disclosed_index [OF assms])
  then show ?thesis by (simp add: disclosed_def sorted_wrt_map comp_def)
qed

locale crypto_suite =
  fixes derive :: "bytes list \<Rightarrow> bytes \<Rightarrow> nat list \<Rightarrow> bytes \<Rightarrow> ('s, SelectiveProof) st"
    and st_ok :: "'s \<Rightarrow> bool"
  assumes derive_shape: "derive claims sig reveal nonce s = (Ok p, s') \<Longrightarrow>
      (\<forall>i \<in> set reveal. i < length claims)
      \<and> sp_revealed p = disclosed claims reveal
      \<and> sp_message_count p = word_of_nat (length claims)"
    and derive_no_panic: "st_ok s \<Longrightarrow> no_panic (fst (derive claims sig reveal nonce s))"
    and derive_keeps: "st_ok s \<Longrightarrow> st_ok (snd (derive claims sig reveal nonce s))"
begin

lemma discloses_exactly:
  assumes "derive claims sig reveal nonce s = (Ok p, s')" "length claims \<le> 2 ^ 32"
  shows "(\<lambda>(i, v). (unat i, v)) ` set (sp_revealed p) = (\<lambda>i. (i, claims ! i)) ` set reveal"
proof -
  note shape = derive_shape [OF assms(1)]
  have u: "unat (word_of_nat i :: u32) = i" if "i \<in> set reveal" for i
    using disclosed_index [of reveal claims] shape assms(2) that by blast
  have "set (sp_revealed p) = (\<lambda>i. (word_of_nat i, claims ! i)) ` set reveal"
    using shape by (simp add: disclosed_def)
  then show ?thesis
    by (simp add: image_image u cong: image_cong)
qed

lemma derived_wf:
  assumes "derive claims sig reveal nonce s = (Ok p, s')"
    and "claims \<noteq> []" "length claims \<le> 64" "fits32 (sp_proof p)" "\<forall>c \<in> set claims. fits32 c"
  shows "sp_wf p"
proof -
  note shape = derive_shape [OF assms(1)]
  have mc: "unat (sp_message_count p) = length claims"
    using shape assms(3) by (simp add: unat_of_nat)
  then have nz: "sp_message_count p \<noteq> 0" using assms(2) by auto
  have lt: "unat (word_of_nat i :: u32) = i" if "i \<in> set reveal" for i
    using disclosed_index [of reveal claims i] shape assms(3) that by simp
  have "sorted_wrt (<) (map fst (sp_revealed p))"
    using shape assms(3) disclosed_sorted [of reveal claims] by simp
  moreover have "message_count_in_range (sp_message_count p) (length (sp_revealed p))"
    using mc nz shape assms(3) length_btree_set_bound [of reveal "length claims"]
    by (auto simp: message_count_in_range_def word_le_nat_alt disclosed_def)
  moreover have "fst e < sp_message_count p \<and> fits32 (snd e)" if "e \<in> set (sp_revealed p)" for e
    using that shape mc lt assms(5) by (auto simp: disclosed_def word_less_nat_alt)
  ultimately show ?thesis
    using assms(4) by (simp add: sp_wf_def)
qed

text \<open>A derived proof survives the trip over the byte boundary.\<close>

lemma crosses_wire:
  assumes "derive claims sig reveal nonce s = (Ok p, s')"
    and "claims \<noteq> []" "length claims \<le> 64" "fits32 (sp_proof p)" "\<forall>c \<in> set claims. fits32 c"
  shows "sp_from_bytes (sp_to_bytes p) = Ok p"
  using sp.roundtrip derived_wf [OF assms] by simp

end

end
