(* ===== verification/Phi_Bbs.thy ===== *)
theory Phi_Bbs
  imports Phi_Suite
begin

section \<open>The phi-bbs-v1 suite (bbs.rs)\<close>

text \<open>
  Key generation, credential signing, proof derivation and verification over the docknetwork
  BBS+ backend. The backend (\<open>bbs_plus\<close>, \<open>ark_serialize\<close>, \<open>schnorr_pok\<close>, \<open>sha2\<close>) is the record
  \<open>bbs_backend\<close> of the operations the module calls, over opaque types of parameters \<open>'p\<close>,
  generator states \<open>'r\<close>, scalars \<open>'f\<close>, keys, signatures, protocols and proofs. Its documented
  behaviour is stated by \<open>params_law\<close>, \<open>codec_law\<close>, \<open>sign_law\<close> and \<open>pok_law\<close>, and used only
  where a theorem names it.
\<close>

definition PROOF_CHALLENGE_DOMAIN :: bytes where
  "PROOF_CHALLENGE_DOMAIN = ascii ''phi-bbs-proof-v1''"

subsection \<open>The backend\<close>

record 'a ark_codec =
  serialize_compressed :: "'a \<Rightarrow> bytes option"
  deserialize_compressed :: "bytes \<Rightarrow> ('a \<times> bytes) option"

datatype 'f message_or_blinding =
    BlindMessageRandomly 'f
  | BlindMessageWithConcreteBlinding 'f 'f
  | RevealMessage 'f

record ('p, 'r, 'f, 'sk, 'pk, 'sg, 'pok, 'pf) bbs_backend =
  bk_params_new :: "'p params_new"
  bk_keygen :: "'r \<Rightarrow> 'p \<Rightarrow> ('sk \<times> 'pk) \<times> 'r"
  bk_sign :: "'r \<Rightarrow> 'f list \<Rightarrow> 'sk \<Rightarrow> 'p \<Rightarrow> 'sg option \<times> 'r"
  bk_pok_init :: "'r \<Rightarrow> 'sg \<Rightarrow> 'p \<Rightarrow> 'f message_or_blinding list \<Rightarrow> 'pok option \<times> 'r"
  bk_pok_contribution :: "'pok \<Rightarrow> 'f btree_map \<Rightarrow> 'p \<Rightarrow> bytes option"
  bk_gen_proof :: "'pok \<Rightarrow> 'f \<Rightarrow> 'pf option"
  bk_pf_contribution :: "'pf \<Rightarrow> 'f btree_map \<Rightarrow> 'p \<Rightarrow> bytes option"
  bk_pf_verify :: "'pf \<Rightarrow> 'f btree_map \<Rightarrow> 'f \<Rightarrow> 'pk \<Rightarrow> 'p \<Rightarrow> bool"
  bk_pf_response :: "'pf \<Rightarrow> nat \<Rightarrow> nat list \<Rightarrow> 'f option"
  bk_oracle :: "bytes \<Rightarrow> 'f"
  bk_from_le_bytes_mod_order :: "bytes \<Rightarrow> 'f"
  bk_sha256 :: "bytes \<Rightarrow> bytes"
  bk_sk_codec :: "'sk ark_codec"
  bk_pk_codec :: "'pk ark_codec"
  bk_sg_codec :: "'sg ark_codec"
  bk_pf_codec :: "'pf ark_codec"

record ('p, 'r) suite_state =
  ss_cache :: "'p params_cache"
  ss_rng :: 'r

record BbsKeyPair =
  bkp_secret :: "bytes zeroizing"
  bkp_public :: bytes

subsection \<open>Helpers\<close>

definition ser :: "'a ark_codec \<Rightarrow> 'a \<Rightarrow> (bytes, crypto_error) result" where
  "ser C t = ok_or (Backend ''bbs serialize'') (serialize_compressed C t)"

definition deser :: "'a ark_codec \<Rightarrow> bytes \<Rightarrow> ('a, crypto_error) result" where
  "deser C b =
     bind_r (ok_or (InvalidInput ''bbs deserialize'') (deserialize_compressed C b)) (\<lambda>(v, cursor).
     if cursor \<noteq> [] then Err (InvalidInput ''bbs deserialize: trailing bytes'')
     else Ok v)"

definition claim_to_fr :: "('p, 'r, 'f, 'sk, 'pk, 'sg, 'pok, 'pf) bbs_backend \<Rightarrow> bytes \<Rightarrow> 'f" where
  "claim_to_fr B claim = bk_from_le_bytes_mod_order B (bk_sha256 B claim)"

definition proof_transcript :: "bytes \<Rightarrow> bytes \<Rightarrow> bytes" where
  "proof_transcript contribution nonce =
     (let t = [];
          t = put_bytes t PROOF_CHALLENGE_DOMAIN;
          t = put_bytes t contribution;
          t = put_bytes t nonce
      in t)"

definition challenge ::
    "('p, 'r, 'f, 'sk, 'pk, 'sg, 'pok, 'pf) bbs_backend \<Rightarrow> bytes \<Rightarrow> bytes \<Rightarrow> 'f" where
  "challenge B contribution nonce = bk_oracle B (proof_transcript contribution nonce)"

text \<open>\<open>params_for\<close> on the suite's state, and a backend call that draws from the generator.\<close>

definition suite_params ::
    "('p, 'r, 'f, 'sk, 'pk, 'sg, 'pok, 'pf) bbs_backend \<Rightarrow> u32 \<Rightarrow> (('p, 'r) suite_state, 'p) st" where
  "suite_params B count s =
     (case params_for (bk_params_new B) count (ss_cache s) of (r, c) \<Rightarrow> (r, s\<lparr>ss_cache := c\<rparr>))"

definition draw :: "('r \<Rightarrow> 'a \<times> 'r) \<Rightarrow> (('p, 'r) suite_state, 'a) st" where
  "draw f s = (case f (ss_rng s) of (x, r) \<Rightarrow> (Ok x, s\<lparr>ss_rng := r\<rparr>))"

definition draw_or :: "crypto_error \<Rightarrow> ('r \<Rightarrow> 'a option \<times> 'r) \<Rightarrow> (('p, 'r) suite_state, 'a) st" where
  "draw_or e f s = (case f (ss_rng s) of (x, r) \<Rightarrow> (ok_or e x, s\<lparr>ss_rng := r\<rparr>))"

text \<open>
  \<open>for &i in &reveal_set \<open>{\<close> revealed_msgs.insert(i, messages[i]) \<open>}\<close>\<close> and the collection of
  \<open>(i as u32, claims[i].clone())\<close>: both index by every element of the set.
\<close>

fun insert_messages :: "'f list \<Rightarrow> 'f btree_map \<Rightarrow> nat list \<Rightarrow> ('f btree_map, crypto_error) result" where
  "insert_messages messages m [] = Ok m"
| "insert_messages messages m (i # is) =
     bind_r (index messages i) (\<lambda>x. insert_messages messages (bt_insert i x m) is)"

fun collect_claims :: "bytes list \<Rightarrow> nat list \<Rightarrow> ((u32 \<times> bytes) list, crypto_error) result" where
  "collect_claims claims [] = Ok []"
| "collect_claims claims (i # is) =
     bind_r (index claims i) (\<lambda>c.
     bind_r (collect_claims claims is) (\<lambda>rest. Ok ((word_of_nat i, c) # rest)))"

text \<open>
  The verifier's loop over the revealed claims: out of range or already present is a
  rejection (\<open>None\<close>).
\<close>

fun collect_revealed ::
    "(bytes \<Rightarrow> 'f) \<Rightarrow> u32 \<Rightarrow> 'f btree_map \<Rightarrow> (u32 \<times> bytes) list \<Rightarrow> 'f btree_map option" where
  "collect_revealed to_fr mc m [] = Some m"
| "collect_revealed to_fr mc m ((i, b) # es) =
     (if unat i \<ge> unat mc then None
      else if bt_get m (unat i) \<noteq> None then None
      else collect_revealed to_fr mc (bt_insert (unat i) (to_fr b) m) es)"

subsection \<open>Operations\<close>

definition bbs_generate_keypair ::
    "('p, 'r, 'f, 'sk, 'pk, 'sg, 'pok, 'pf) bbs_backend \<Rightarrow> u32 \<Rightarrow>
     (('p, 'r) suite_state, BbsKeyPair) st" where
  "bbs_generate_keypair B message_count =
     (if message_count = 0 \<or> message_count > MAX_BBS_MESSAGES
      then lift_s (Err (InvalidInput ''message_count out of range''))
      else
        bind_s (suite_params B message_count) (\<lambda>params.
        bind_s (draw (\<lambda>rng. bk_keygen B rng params)) (\<lambda>(secret_key, public_key).
        bind_s (lift_s (ser (bk_sk_codec B) secret_key)) (\<lambda>secret.
        bind_s (lift_s (ser (bk_pk_codec B) public_key)) (\<lambda>public.
        lift_s (Ok \<lparr>bkp_secret = \<lparr>held = secret\<rparr>, bkp_public = public\<rparr>))))))"

definition bbs_sign_credential ::
    "('p, 'r, 'f, 'sk, 'pk, 'sg, 'pok, 'pf) bbs_backend \<Rightarrow> bytes list \<Rightarrow> bytes \<Rightarrow>
     (('p, 'r) suite_state, bytes) st" where
  "bbs_sign_credential B claims secret =
     (if claims = [] then lift_s (Err (InvalidInput ''no claims''))
      else if length claims > unat MAX_BBS_MESSAGES
      then lift_s (Err (InvalidInput ''message_count out of range''))
      else
        bind_s (suite_params B (word_of_nat (length claims))) (\<lambda>params.
        bind_s (lift_s (deser (bk_sk_codec B) secret)) (\<lambda>sk.
        let messages = map (claim_to_fr B) claims in
        bind_s (draw_or (Backend ''bbs sign'') (\<lambda>rng. bk_sign B rng messages sk params)) (\<lambda>sig.
        lift_s (ser (bk_sg_codec B) sig)))))"

definition bbs_derive_proof ::
    "('p, 'r, 'f, 'sk, 'pk, 'sg, 'pok, 'pf) bbs_backend \<Rightarrow> bytes list \<Rightarrow> bytes \<Rightarrow> nat list \<Rightarrow>
     bytes \<Rightarrow> (('p, 'r) suite_state, SelectiveProof) st" where
  "bbs_derive_proof B claims signature reveal nonce =
     (if claims = [] then lift_s (Err (InvalidInput ''no claims''))
      else if length claims > unat MAX_BBS_MESSAGES
      then lift_s (Err (InvalidInput ''message_count out of range''))
      else let count = length claims in
        bind_s (suite_params B (word_of_nat count)) (\<lambda>params.
        bind_s (lift_s (deser (bk_sg_codec B) signature)) (\<lambda>sig.
        let messages = map (claim_to_fr B) claims;
            reveal_set = btree_set reveal in
        if list_ex (\<lambda>i. i \<ge> count) reveal_set
        then lift_s (Err (InvalidInput ''reveal index out of range''))
        else let mbi = map (\<lambda>(i, m). if i \<in> set reveal_set then RevealMessage m
                                     else BlindMessageRandomly m) (enumerate 0 messages) in
        bind_s (draw_or (Backend ''bbs pok init'') (\<lambda>rng. bk_pok_init B rng sig params mbi)) (\<lambda>pok.
        bind_s (lift_s (insert_messages messages [] reveal_set)) (\<lambda>revealed_msgs.
        bind_s (lift_s (ok_or (Backend ''bbs challenge'')
                 (bk_pok_contribution B pok revealed_msgs params))) (\<lambda>contribution.
        let c = challenge B contribution nonce in
        bind_s (lift_s (ok_or (Backend ''bbs gen_proof'') (bk_gen_proof B pok c))) (\<lambda>proof.
        bind_s (lift_s (collect_claims claims reveal_set)) (\<lambda>revealed.
        bind_s (lift_s (ser (bk_pf_codec B) proof)) (\<lambda>proof_bytes.
        lift_s (Ok \<lparr>sp_message_count = word_of_nat count, sp_proof = proof_bytes,
                    sp_revealed = revealed\<rparr>))))))))))"

text \<open>
  The \<open>debug_assert_eq!\<close> after the loop is the \<open>Panic\<close> branch: debug builds panic there.
\<close>

definition bbs_verify_proof ::
    "('p, 'r, 'f, 'sk, 'pk, 'sg, 'pok, 'pf) bbs_backend \<Rightarrow> SelectiveProof \<Rightarrow> bytes \<Rightarrow> bytes \<Rightarrow>
     (('p, 'r) suite_state, bool) st" where
  "bbs_verify_proof B proof public nonce =
     (if \<not> message_count_in_range (sp_message_count proof) (length (sp_revealed proof))
      then lift_s (Ok False)
      else
        bind_s (suite_params B (sp_message_count proof)) (\<lambda>params.
        case deser (bk_pk_codec B) public of
          Panic \<Rightarrow> lift_s Panic
        | Err _ \<Rightarrow> lift_s (Ok False)
        | Ok pk \<Rightarrow>
        (case deser (bk_pf_codec B) (sp_proof proof) of
          Panic \<Rightarrow> lift_s Panic
        | Err _ \<Rightarrow> lift_s (Ok False)
        | Ok p \<Rightarrow>
        (case collect_revealed (claim_to_fr B) (sp_message_count proof) [] (sp_revealed proof) of
          None \<Rightarrow> lift_s (Ok False)
        | Some revealed_msgs \<Rightarrow>
        if length revealed_msgs \<noteq> length (sp_revealed proof) then lift_s Panic
        else (case bk_pf_contribution B p revealed_msgs params of
          None \<Rightarrow> lift_s (Ok False)
        | Some contribution \<Rightarrow>
            let c = challenge B contribution nonce in
            lift_s (Ok (bk_pf_verify B p revealed_msgs c pk params)))))))"

definition bbs_verify_proof_bytes ::
    "('p, 'r, 'f, 'sk, 'pk, 'sg, 'pok, 'pf) bbs_backend \<Rightarrow> bytes \<Rightarrow> bytes \<Rightarrow> bytes \<Rightarrow>
     (('p, 'r) suite_state, bool) st" where
  "bbs_verify_proof_bytes B proof_bytes public nonce =
     (case sp_from_bytes proof_bytes of
        Ok p \<Rightarrow> bbs_verify_proof B p public nonce
      | Err _ \<Rightarrow> lift_s (Ok False)
      | Panic \<Rightarrow> lift_s Panic)"

subsection \<open>The documented behaviour of the backend\<close>

text \<open>\<open>SignatureParamsG1::new\<close> asserts a non-zero message count and nothing else.\<close>

definition params_law :: "('p, 'r, 'f, 'sk, 'pk, 'sg, 'pok, 'pf) bbs_backend \<Rightarrow> bool" where
  "params_law B \<longleftrightarrow> (\<forall>label count. count \<noteq> 0 \<longrightarrow> (\<exists>p. bk_params_new B label count = Ok p))"

text \<open>Compressed serialization is total and read back from the front of its own output.\<close>

definition codec_law :: "'a ark_codec \<Rightarrow> bool" where
  "codec_law C \<longleftrightarrow> (\<forall>x. \<exists>b. serialize_compressed C x = Some b
      \<and> (\<forall>s. deserialize_compressed C (b @ s) = Some (x, s)))"

fun mbi_message :: "'f message_or_blinding \<Rightarrow> 'f" where
  "mbi_message (BlindMessageRandomly m) = m"
| "mbi_message (BlindMessageWithConcreteBlinding m b) = m"
| "mbi_message (RevealMessage m) = m"

fun reveal_entry :: "nat \<times> 'f message_or_blinding \<Rightarrow> 'f btree_map" where
  "reveal_entry (i, RevealMessage m) = [(i, m)]"
| "reveal_entry (i, BlindMessageRandomly m) = []"
| "reveal_entry (i, BlindMessageWithConcreteBlinding m b) = []"

text \<open>The messages a protocol instance reveals, at their indices.\<close>

definition revealed_of :: "'f message_or_blinding list \<Rightarrow> 'f btree_map" where
  "revealed_of mbi = concat (map reveal_entry (enumerate 0 mbi))"

text \<open>Signing succeeds for parameters made for the number of messages.\<close>

definition sign_law :: "('p, 'r, 'f, 'sk, 'pk, 'sg, 'pok, 'pf) bbs_backend \<Rightarrow> bool" where
  "sign_law B \<longleftrightarrow> (\<forall>params messages rng0 sk pk rng0' rng.
      messages \<noteq> [] \<longrightarrow> bk_params_new B PARAMS_LABEL (word_of_nat (length messages)) = Ok params \<longrightarrow>
      bk_keygen B rng0 params = ((sk, pk), rng0') \<longrightarrow>
      (\<exists>sg rng'. bk_sign B rng messages sk params = (Some sg, rng')))"

text \<open>
  Completeness of the proof of knowledge: a protocol started from a signature made with a key
  pair over the same messages runs to a proof, both sides contribute the same bytes to the
  challenge, and the proof verifies under the public key and the challenge it was made with.
\<close>

definition pok_law :: "('p, 'r, 'f, 'sk, 'pk, 'sg, 'pok, 'pf) bbs_backend \<Rightarrow> bool" where
  "pok_law B \<longleftrightarrow> (\<forall>params messages rng0 sk pk rng0' rng1 sg rng1' rng2 mbi.
      messages \<noteq> [] \<longrightarrow> bk_params_new B PARAMS_LABEL (word_of_nat (length messages)) = Ok params \<longrightarrow>
      bk_keygen B rng0 params = ((sk, pk), rng0') \<longrightarrow>
      bk_sign B rng1 messages sk params = (Some sg, rng1') \<longrightarrow>
      map mbi_message mbi = messages \<longrightarrow>
      (\<exists>pok rng2' contribution.
         bk_pok_init B rng2 sg params mbi = (Some pok, rng2')
         \<and> bk_pok_contribution B pok (revealed_of mbi) params = Some contribution
         \<and> (\<forall>c. \<exists>pf. bk_gen_proof B pok c = Some pf
              \<and> bk_pf_contribution B pf (revealed_of mbi) params = Some contribution
              \<and> bk_pf_verify B pf (revealed_of mbi) c pk params)))"

subsection \<open>Serialization\<close>

lemma deser_no_panic [simp]: "deser C b \<noteq> Panic"
  by (auto simp: deser_def bind_r_Panic_iff)

lemma ser_no_panic [simp]: "ser C x \<noteq> Panic"
  by (simp add: ser_def)

lemma codec_law_ser:
  assumes "codec_law C"
  shows "\<exists>b. ser C x = Ok b \<and> deser C b = Ok x"
proof -
  obtain b where b: "serialize_compressed C x = Some b"
      "\<forall>s. deserialize_compressed C (b @ s) = Some (x, s)"
    using assms by (auto simp: codec_law_def)
  from spec [OF b(2), of "[]"] have "deserialize_compressed C b = Some (x, [])" by simp
  with b(1) show ?thesis by (simp add: ser_def deser_def)
qed

text \<open>A serialized value followed by anything is refused.\<close>

lemma deser_rejects_trailing:
  assumes "codec_law C" "ser C x = Ok b" "s \<noteq> []"
  shows "deser C (b @ s) = Err (InvalidInput ''bbs deserialize: trailing bytes'')"
proof -
  obtain b' where "serialize_compressed C x = Some b'"
      "\<forall>s. deserialize_compressed C (b' @ s) = Some (x, s)"
    using assms(1) by (auto simp: codec_law_def)
  with assms(2,3) show ?thesis by (simp add: ser_def deser_def)
qed

subsection \<open>The message maps of prover and verifier\<close>

lemma insert_messages_eq:
  assumes "sorted_wrt (<) is" "\<forall>i \<in> set is. i < length messages"
    "\<forall>k \<in> fst ` set m. \<forall>i \<in> set is. k < i"
  shows "insert_messages messages m is = Ok (m @ map (\<lambda>i. (i, messages ! i)) is)"
  using assms
proof (induction "is" arbitrary: m)
  case (Cons i "is")
  have "insert_messages messages (m @ [(i, messages ! i)]) is =
      Ok ((m @ [(i, messages ! i)]) @ map (\<lambda>i. (i, messages ! i)) is)"
    using Cons.prems by (intro Cons.IH) auto
  then show ?case
    using Cons.prems by (simp add: index_def bt_insert_last)
qed simp

lemma collect_claims_eq:
  "\<forall>i \<in> set is. i < length claims \<Longrightarrow>
     collect_claims claims is = Ok (map (\<lambda>i. (word_of_nat i, claims ! i)) is)"
  by (induction "is") (auto simp: index_def)

lemma collect_claims_disclosed:
  "\<forall>i \<in> set reveal. i < length claims \<Longrightarrow>
     collect_claims claims (btree_set reveal) = Ok (disclosed claims reveal)"
  by (simp add: collect_claims_eq disclosed_def)

lemma collect_revealed_defined:
  "(\<exists>m'. collect_revealed f mc m es = Some m') \<longleftrightarrow>
     distinct (map fst es) \<and> (\<forall>e \<in> set es. fst e < mc \<and> bt_get m (unat (fst e)) = None)"
proof (induction f mc m es rule: collect_revealed.induct)
  case (2 f mc m i b es)
  show ?case
  proof (cases "unat i < unat mc \<and> bt_get m (unat i) = None")
    case True
    have "bt_get (bt_insert (unat i) (f b) m) (unat (fst e)) = None \<longleftrightarrow>
        fst e \<noteq> i \<and> bt_get m (unat (fst e)) = None" for e :: "u32 \<times> bytes"
      by (simp add: bt_get_insert word_unat_eq_iff)
    with 2 True show ?thesis
      by (simp add: word_less_nat_alt) blast
  next
    case False
    then show ?thesis by (auto simp: word_less_nat_alt)
  qed
qed simp

lemma collect_revealed_Some:
  assumes "collect_revealed f mc m es = Some m'" "bt_ok m"
  shows "bt_ok m' \<and> length m' = length m + length es
     \<and> bt_get m' = bt_get m ++ map_of (map (\<lambda>(i, b). (unat i, f b)) es)"
  using assms
proof (induction f mc m es rule: collect_revealed.induct)
  case (2 f mc m i b es)
  let ?m = "bt_insert (unat i) (f b) m"
  have fresh: "bt_get m (unat i) = None" and rec: "collect_revealed f mc ?m es = Some m'"
    and lt: "unat i < unat mc"
    using "2.prems"(1) by (auto split: if_splits)
  have IH: "bt_ok m' \<and> length m' = length ?m + length es
      \<and> bt_get m' = bt_get ?m ++ map_of (map (\<lambda>(i, b). (unat i, f b)) es)"
    using "2.IH" fresh lt rec bt_insert_ok [OF "2.prems"(2)] by simp
  have "\<forall>e \<in> set es. bt_get ?m (unat (fst e)) = None"
    using rec collect_revealed_defined [of f mc ?m es] by blast
  then have "unat i \<notin> fst ` set (map (\<lambda>(i, b). (unat i, f b)) es)"
    by (auto simp: bt_get_insert split: if_splits)
  then have "map_of (map (\<lambda>(i, b). (unat i, f b)) es) (unat i) = None"
    by (simp only: map_of_eq_None_iff not_False_eq_True)
  then show ?case
    using IH fresh length_bt_insert_fresh [of m "unat i" "f b"]
    by (auto simp: bt_get_insert fun_eq_iff map_add_def split: option.splits)
qed simp

end
