(* ===== verification/Phi_Bbs_Correct.thy ===== *)
theory Phi_Bbs_Correct
  imports Phi_Bbs
begin

section \<open>Correctness of the phi-bbs-v1 suite\<close>

text \<open>
  The verifier computes a declarative predicate on every input (\<open>bbs_verify_spec\<close>), without
  panicking; proof derivation keeps the suite interface; key generation, signing, derivation
  and verification compose (\<open>bbs_roundtrip\<close>), over the wire as well.
\<close>

definition suite_ok ::
    "('p, 'r, 'f, 'sk, 'pk, 'sg, 'pok, 'pf) bbs_backend \<Rightarrow> ('p, 'r) suite_state \<Rightarrow> bool" where
  "suite_ok B s \<longleftrightarrow> params_law B \<and> cache_ok (bk_params_new B) (ss_cache s)"

lemma suite_params_ok:
  assumes "suite_ok B s" "count \<noteq> 0"
  shows "\<exists>p s'. suite_params B count s = (Ok p, s')
     \<and> bk_params_new B PARAMS_LABEL count = Ok p \<and> suite_ok B s' \<and> ss_rng s' = ss_rng s"
proof -
  obtain r c where rc: "params_for (bk_params_new B) count (ss_cache s) = (r, c)" by force
  have "r = derive_params (bk_params_new B) count" "cache_ok (bk_params_new B) c"
    using assms(1) rc params_for_transparent [of "bk_params_new B" "ss_cache s" count]
      params_for_ok [of "bk_params_new B" "ss_cache s" count]
    by (auto simp: suite_ok_def)
  moreover obtain p where "bk_params_new B PARAMS_LABEL count = Ok p"
    using assms by (auto simp: suite_ok_def params_law_def)
  ultimately show ?thesis
    using assms(1) rc by (simp add: suite_params_def derive_params_def suite_ok_def)
qed

lemma suite_params_Ok:
  assumes "suite_params B count s = (Ok p, s')" "cache_ok (bk_params_new B) (ss_cache s)"
  shows "bk_params_new B PARAMS_LABEL count = Ok p"
  using assms params_for_transparent [OF assms(2), of count]
  by (auto simp: suite_params_def derive_params_def split: prod.splits)

lemma draw_keeps [simp, intro]: "keeps (suite_ok B) (draw f)"
  by (simp add: keeps_def draw_def suite_ok_def split: prod.split)

lemma draw_or_keeps [simp, intro]: "keeps (suite_ok B) (draw_or e f)"
  by (simp add: keeps_def draw_or_def suite_ok_def split: prod.split)

lemma draw_or_no_panic [simp]: "no_panic (fst (draw_or e f s))"
  by (simp add: draw_or_def split: prod.split)

lemma draw_no_panic [simp]: "no_panic (fst (draw f s))"
  by (simp add: draw_def split: prod.split)

lemma suite_params_keeps [simp, intro]: "keeps (suite_ok B) (suite_params B count)"
  unfolding keeps_def
proof (intro allI impI)
  fix s assume "suite_ok B s"
  then show "suite_ok B (snd (suite_params B count s))"
    using params_for_ok [of "bk_params_new B" "ss_cache s" count]
    by (auto simp: suite_ok_def suite_params_def split: prod.split)
qed

subsection \<open>Verification\<close>

text \<open>What it means for a selective proof to be valid, without reference to the algorithm.\<close>

definition selective_valid ::
    "('p, 'r, 'f, 'sk, 'pk, 'sg, 'pok, 'pf) bbs_backend \<Rightarrow> SelectiveProof \<Rightarrow> bytes \<Rightarrow> bytes \<Rightarrow> bool" where
  "selective_valid B proof public nonce \<longleftrightarrow>
     1 \<le> unat (sp_message_count proof) \<and> unat (sp_message_count proof) \<le> 64
     \<and> distinct (map fst (sp_revealed proof))
     \<and> (\<forall>e \<in> set (sp_revealed proof). fst e < sp_message_count proof)
     \<and> (\<exists>params pk p msgs contribution.
          bk_params_new B PARAMS_LABEL (sp_message_count proof) = Ok params
          \<and> deser (bk_pk_codec B) public = Ok pk
          \<and> deser (bk_pf_codec B) (sp_proof proof) = Ok p
          \<and> bt_ok msgs
          \<and> bt_get msgs = map_of (map (\<lambda>(i, b). (unat i, claim_to_fr B b)) (sp_revealed proof))
          \<and> bk_pf_contribution B p msgs params = Some contribution
          \<and> bk_pf_verify B p msgs (challenge B contribution nonce) pk params)"

lemma distinct_below_length:
  fixes ks :: "u32 list"
  assumes "distinct ks" "\<forall>k \<in> set ks. k < mc"
  shows "length ks \<le> unat mc"
proof -
  have "inj_on unat (set ks)" by (intro inj_onI) (simp add: word_unat_eq_iff)
  then have "length ks = card (unat ` set ks)"
    using assms(1) by (simp add: card_image distinct_card)
  also have "\<dots> \<le> card {..<unat mc}"
    using assms(2) by (intro card_mono) (auto simp: word_less_nat_alt)
  finally show ?thesis by simp
qed

lemma in_range_words:
  "message_count_in_range mc n \<longleftrightarrow> 1 \<le> unat mc \<and> unat mc \<le> 64 \<and> n \<le> unat mc"
  by (auto simp: message_count_in_range_def word_le_nat_alt Suc_le_eq unat_gt_0)

lemma collect_revealed_spec:
  "collect_revealed f mc [] es = Some m \<longleftrightarrow>
     distinct (map fst es) \<and> (\<forall>e \<in> set es. fst e < mc) \<and> bt_ok m
     \<and> bt_get m = map_of (map (\<lambda>(i, b). (unat i, f b)) es)"
proof -
  have nil: "bt_get [] k = None" "bt_ok []" for k by (simp_all add: bt_get_def bt_ok_def)
  show ?thesis
  proof
    assume "collect_revealed f mc [] es = Some m"
    then show "distinct (map fst es) \<and> (\<forall>e \<in> set es. fst e < mc) \<and> bt_ok m
        \<and> bt_get m = map_of (map (\<lambda>(i, b). (unat i, f b)) es)"
      using collect_revealed_Some [of f mc "[]" es m] collect_revealed_defined [of f mc "[]" es] nil
      by (auto simp: fun_eq_iff map_add_def split: option.splits)
  next
    assume R: "distinct (map fst es) \<and> (\<forall>e \<in> set es. fst e < mc) \<and> bt_ok m
        \<and> bt_get m = map_of (map (\<lambda>(i, b). (unat i, f b)) es)"
    then obtain m' where m': "collect_revealed f mc [] es = Some m'"
      using collect_revealed_defined [of f mc "[]" es] nil by auto
    from collect_revealed_Some [OF m' nil(2)] R nil have "m' = m"
      by (intro bt_ok_unique) (auto simp: fun_eq_iff map_add_def split: option.splits)
    with m' show "collect_revealed f mc [] es = Some m" by simp
  qed
qed

lemma selective_valid_collect:
  "selective_valid B proof public nonce \<longleftrightarrow>
     1 \<le> unat (sp_message_count proof) \<and> unat (sp_message_count proof) \<le> 64
     \<and> (\<exists>params pk p msgs contribution.
          bk_params_new B PARAMS_LABEL (sp_message_count proof) = Ok params
          \<and> deser (bk_pk_codec B) public = Ok pk
          \<and> deser (bk_pf_codec B) (sp_proof proof) = Ok p
          \<and> collect_revealed (claim_to_fr B) (sp_message_count proof) [] (sp_revealed proof) = Some msgs
          \<and> bk_pf_contribution B p msgs params = Some contribution
          \<and> bk_pf_verify B p msgs (challenge B contribution nonce) pk params)"
  unfolding selective_valid_def collect_revealed_spec by blast

lemma verify_spec_aux:
  assumes "suite_ok B s"
  shows "fst (bbs_verify_proof B proof public nonce s) = Ok (selective_valid B proof public nonce)"
proof (cases "message_count_in_range (sp_message_count proof) (length (sp_revealed proof))")
  case False
  then have "\<not> selective_valid B proof public nonce"
    using distinct_below_length [of "map fst (sp_revealed proof)" "sp_message_count proof"]
    by (auto simp: selective_valid_def in_range_words)
  with False show ?thesis by (simp add: bbs_verify_proof_def)
next
  case True
  then have "sp_message_count proof \<noteq> 0" by (simp add: message_count_in_range_def)
  from suite_params_ok [OF assms this] obtain params s' where
    params: "suite_params B (sp_message_count proof) s = (Ok params, s')"
      "bk_params_new B PARAMS_LABEL (sp_message_count proof) = Ok params" by blast
  have len: "length m = length (sp_revealed proof)"
    if "collect_revealed f mc [] (sp_revealed proof) = Some m" for f mc m
    using collect_revealed_Some [OF that] by (simp add: bt_ok_def)
  show ?thesis
    using True params(2)
    by (auto simp: bbs_verify_proof_def bind_s_step [where m = "suite_params B (sp_message_count proof)",
          OF params(1)] selective_valid_collect in_range_words Let_def len
        split: result.split option.split)
qed

lemma verify_keeps [intro]: "keeps (suite_ok B) (bbs_verify_proof B proof public nonce)"
  unfolding bbs_verify_proof_def Let_def by (auto split: result.split option.split)

subsection \<open>Derivation keeps the suite interface\<close>

lemma derive_facts:
  assumes "bbs_derive_proof B claims sig reveal nonce s = (Ok p, s')"
  shows "claims \<noteq> [] \<and> length claims \<le> 64 \<and> (\<forall>i \<in> set reveal. i < length claims)
     \<and> sp_revealed p = disclosed claims reveal \<and> sp_message_count p = word_of_nat (length claims)"
proof -
  have range: "\<forall>i \<in> set reveal. i < length claims"
    using assms by (auto simp: bbs_derive_proof_def bind_s_Ok_iff Let_def list_ex_iff not_le
        split: if_splits)
  show ?thesis
    using assms range
    by (auto simp: bbs_derive_proof_def bind_s_Ok_iff Let_def collect_claims_disclosed
        split: if_splits)
qed

lemma insert_messages_btree:
  "\<forall>i \<in> set reveal. i < length messages \<Longrightarrow>
     insert_messages messages [] (btree_set reveal) = Ok (map (\<lambda>i. (i, messages ! i)) (btree_set reveal))"
  by (simp add: insert_messages_eq strict_sorted_btree_set)

lemma claim_count_nonzero:
  assumes "claims \<noteq> []" "\<not> 64 < length claims"
  shows "(word_of_nat (length claims) :: u32) \<noteq> 0"
proof -
  have "unat (word_of_nat (length claims) :: u32) = length claims"
    using assms(2) by (simp add: unat_of_nat)
  with assms(1) show ?thesis by (metis length_0_conv unat_0)
qed

lemma no_panic_ser [simp]: "no_panic (ser C x)"
  by (simp add: no_panic_iff)

lemma no_panic_deser [simp]: "no_panic (deser C b)"
  by (simp add: no_panic_iff)

lemma suite_params_no_panic:
  "suite_ok B s \<Longrightarrow> count \<noteq> 0 \<Longrightarrow> no_panic (fst (suite_params B count s))"
  using suite_params_ok by fastforce

lemma bbs_derive_no_panic:
  assumes "suite_ok B s"
  shows "no_panic (fst (bbs_derive_proof B claims sig reveal nonce s))"
  unfolding bbs_derive_proof_def Let_def
  using assms
  by (auto intro!: bind_s_no_panic suite_params_no_panic
      simp: list_ex_iff not_le insert_messages_btree collect_claims_eq claim_count_nonzero)

lemma bbs_derive_keeps [intro]: "keeps (suite_ok B) (bbs_derive_proof B claims sig reveal nonce)"
  unfolding bbs_derive_proof_def Let_def by auto

interpretation docknet: crypto_suite "bbs_derive_proof B" "suite_ok B" for B
  using derive_facts bbs_derive_no_panic keepsD [OF bbs_derive_keeps] by unfold_locales blast+

subsection \<open>Issuing, presenting and verifying compose\<close>

definition backend_laws :: "('p, 'r, 'f, 'sk, 'pk, 'sg, 'pok, 'pf) bbs_backend \<Rightarrow> bool" where
  "backend_laws B \<longleftrightarrow> sign_law B \<and> pok_law B \<and> codec_law (bk_sk_codec B) \<and> codec_law (bk_pk_codec B)
     \<and> codec_law (bk_sg_codec B) \<and> codec_law (bk_pf_codec B)"

lemma btree_set_filter:
  assumes "\<forall>i \<in> set reveal. i < n"
  shows "btree_set reveal = filter (\<lambda>i. i \<in> set reveal) [0..<n]"
proof (rule sorted_distinct_set_unique)
  show "sorted (filter (\<lambda>i. i \<in> set reveal) [0..<n])" by (simp add: sorted_wrt_filter)
  show "set (btree_set reveal) = set (filter (\<lambda>i. i \<in> set reveal) [0..<n])"
    using assms by auto
qed simp_all

lemma concat_singleton_filter:
  "concat (map (\<lambda>i. if P i then [f i] else []) xs) = map f (filter P xs)"
  by (induction xs) auto

lemma enumerate_nth: "enumerate 0 xs = map (\<lambda>i. (i, xs ! i)) [0..<length xs]"
  by (rule nth_equalityI) (auto simp: nth_enumerate_eq)

text \<open>The messages the prover's protocol reveals are the entries of the prover's map.\<close>

definition prover_mbi :: "'f list \<Rightarrow> nat list \<Rightarrow> 'f message_or_blinding list" where
  "prover_mbi messages reveal = map (\<lambda>(i, m). if i \<in> set (btree_set reveal) then RevealMessage m
       else BlindMessageRandomly m) (enumerate 0 messages)"

lemma prover_mbi_messages: "map mbi_message (prover_mbi messages reveal) = messages"
  by (rule nth_equalityI) (auto simp: prover_mbi_def nth_enumerate_eq)

lemma prover_mbi_revealed:
  assumes "\<forall>i \<in> set reveal. i < length messages"
  shows "revealed_of (prover_mbi messages reveal) = map (\<lambda>i. (i, messages ! i)) (btree_set reveal)"
proof -
  let ?n = "length messages"
  have "prover_mbi messages reveal = map (\<lambda>i. if i \<in> set reveal then RevealMessage (messages ! i)
      else BlindMessageRandomly (messages ! i)) [0..<?n]"
    by (simp add: prover_mbi_def enumerate_nth)
  then have "revealed_of (prover_mbi messages reveal)
      = concat (map (\<lambda>i. if i \<in> set reveal then [(i, messages ! i)] else []) [0..<?n])"
    by (auto simp: revealed_of_def enumerate_nth comp_def intro!: arg_cong [where f = concat])
  then show ?thesis
    by (simp add: concat_singleton_filter btree_set_filter [OF assms])
qed

lemma verifier_map:
  assumes "\<forall>i \<in> set reveal. i < length claims" "length claims \<le> 64"
  shows "collect_revealed f (word_of_nat (length claims)) [] (disclosed claims reveal)
     = Some (map (\<lambda>i. (i, map f claims ! i)) (btree_set reveal))"
proof -
  have u: "unat (word_of_nat i :: u32) = i" if "i \<in> set reveal" for i
    using assms that by (force simp: unat_of_nat)
  have mc: "unat (word_of_nat (length claims) :: u32) = length claims"
    using assms(2) by (simp add: unat_of_nat)
  have "inj_on (word_of_nat :: nat \<Rightarrow> u32) (set (btree_set reveal))"
    by (rule inj_onI) (metis u set_btree_set)
  then have "distinct (map fst (disclosed claims reveal))"
    by (simp add: disclosed_def comp_def distinct_map)
  moreover have "\<forall>e \<in> set (disclosed claims reveal). fst e < word_of_nat (length claims)"
    using assms(1) u mc by (auto simp: disclosed_def word_less_nat_alt)
  moreover have "map (\<lambda>(i, b). (unat i, f b)) (disclosed claims reveal)
      = map (\<lambda>i. (i, map f claims ! i)) (btree_set reveal)"
    using assms(1) u by (auto simp: disclosed_def)
  moreover have "bt_ok (map (\<lambda>i. (i, map f claims ! i)) (btree_set reveal))"
    by (simp add: bt_ok_def comp_def strict_sorted_btree_set)
  ultimately show ?thesis
    by (simp add: collect_revealed_spec fun_eq_iff bt_get_def)
qed

lemma generate_ok:
  assumes "suite_ok B s" "backend_laws B" "count \<noteq> 0" "count \<le> MAX_BBS_MESSAGES"
  shows "\<exists>kp s' params sk pk rng'. bbs_generate_keypair B count s = (Ok kp, s')
     \<and> bk_params_new B PARAMS_LABEL count = Ok params
     \<and> bk_keygen B (ss_rng s) params = ((sk, pk), rng')
     \<and> deser (bk_sk_codec B) (held (bkp_secret kp)) = Ok sk
     \<and> deser (bk_pk_codec B) (bkp_public kp) = Ok pk"
proof -
  obtain params s1 where p: "suite_params B count s = (Ok params, s1)"
      "bk_params_new B PARAMS_LABEL count = Ok params" "ss_rng s1 = ss_rng s"
    using suite_params_ok [OF assms(1,3)] by blast
  obtain sk pk rng' where k: "bk_keygen B (ss_rng s) params = ((sk, pk), rng')"
    by (metis surj_pair)
  obtain bs where bs: "ser (bk_sk_codec B) sk = Ok bs" "deser (bk_sk_codec B) bs = Ok sk"
    using codec_law_ser assms(2) by (metis backend_laws_def)
  obtain bp where bp: "ser (bk_pk_codec B) pk = Ok bp" "deser (bk_pk_codec B) bp = Ok pk"
    using codec_law_ser assms(2) by (metis backend_laws_def)
  show ?thesis
    using p k bs bp assms(3,4)
    by (auto simp: bbs_generate_keypair_def bind_s_def draw_def not_less)
qed

lemma sign_ok:
  assumes "suite_ok B s" "backend_laws B" "claims \<noteq> []" "length claims \<le> 64"
    and "bk_params_new B PARAMS_LABEL (word_of_nat (length claims)) = Ok params"
    and "bk_keygen B rng0 params = ((sk, pk), rng0')" "deser (bk_sk_codec B) secret = Ok sk"
  shows "\<exists>sgb s' sg rng rng'. bbs_sign_credential B claims secret s = (Ok sgb, s')
     \<and> bk_sign B rng (map (claim_to_fr B) claims) sk params = (Some sg, rng')
     \<and> deser (bk_sg_codec B) sgb = Ok sg"
proof -
  have nz: "(word_of_nat (length claims) :: u32) \<noteq> 0"
    using assms(3,4) by (intro claim_count_nonzero) simp_all
  obtain s1 where p: "suite_params B (word_of_nat (length claims)) s = (Ok params, s1)"
    using suite_params_ok [OF assms(1) nz] assms(5) by auto
  obtain sg rng' where sg: "bk_sign B (ss_rng s1) (map (claim_to_fr B) claims) sk params = (Some sg, rng')"
    using assms(2,3,5,6) unfolding backend_laws_def sign_law_def
    by (metis length_map list.map_disc_iff)
  obtain sgb where "ser (bk_sg_codec B) sg = Ok sgb" "deser (bk_sg_codec B) sgb = Ok sg"
    using codec_law_ser assms(2) by (metis backend_laws_def)
  then show ?thesis
    using p sg assms(3,4,7)
    by (auto simp: bbs_sign_credential_def bind_s_def draw_or_def Let_def)
qed

lemma derive_ok:
  assumes "suite_ok B s" "backend_laws B" "claims \<noteq> []" "length claims \<le> 64"
    and "\<forall>i \<in> set reveal. i < length claims"
    and "bk_params_new B PARAMS_LABEL (word_of_nat (length claims)) = Ok params"
    and "bk_keygen B rng0 params = ((sk, pk), rng0')"
    and "bk_sign B rng1 (map (claim_to_fr B) claims) sk params = (Some sg, rng1')"
    and "deser (bk_sg_codec B) sgb = Ok sg"
  shows "\<exists>p s' pf contribution. bbs_derive_proof B claims sgb reveal nonce s = (Ok p, s')
     \<and> deser (bk_pf_codec B) (sp_proof p) = Ok pf
     \<and> bk_pf_contribution B pf (map (\<lambda>i. (i, map (claim_to_fr B) claims ! i)) (btree_set reveal)) params
         = Some contribution
     \<and> bk_pf_verify B pf (map (\<lambda>i. (i, map (claim_to_fr B) claims ! i)) (btree_set reveal))
         (challenge B contribution nonce) pk params"
proof -
  let ?ms = "map (claim_to_fr B) claims"
  let ?rev = "map (\<lambda>i. (i, ?ms ! i)) (btree_set reveal)"
  have nz: "(word_of_nat (length claims) :: u32) \<noteq> 0"
    using assms(3,4) by (intro claim_count_nonzero) simp_all
  obtain s1 where p: "suite_params B (word_of_nat (length claims)) s = (Ok params, s1)"
    using suite_params_ok [OF assms(1) nz] assms(6) by auto
  have rev: "revealed_of (prover_mbi ?ms reveal) = ?rev"
    using prover_mbi_revealed [of reveal ?ms] assms(5) by simp
  obtain pok rng2 contribution where
      init: "bk_pok_init B (ss_rng s1) sg params (prover_mbi ?ms reveal) = (Some pok, rng2)"
      and contr: "bk_pok_contribution B pok ?rev params = Some contribution"
      and gen: "\<forall>c. \<exists>pf. bk_gen_proof B pok c = Some pf
              \<and> bk_pf_contribution B pf ?rev params = Some contribution
              \<and> bk_pf_verify B pf ?rev c pk params"
    using assms(2,3,6,7,8) prover_mbi_messages [of ?ms reveal]
    unfolding backend_laws_def pok_law_def rev [symmetric]
    by (metis length_map list.map_disc_iff)
  obtain pf where pf: "bk_gen_proof B pok (challenge B contribution nonce) = Some pf"
      "bk_pf_contribution B pf ?rev params = Some contribution"
      "bk_pf_verify B pf ?rev (challenge B contribution nonce) pk params"
    using gen by blast
  obtain pfb where pfb: "ser (bk_pf_codec B) pf = Ok pfb" "deser (bk_pf_codec B) pfb = Ok pf"
    using codec_law_ser assms(2) by (metis backend_laws_def)
  have ins: "insert_messages ?ms [] (btree_set reveal) = Ok ?rev"
    using insert_messages_btree [of reveal ?ms] assms(5) by simp
  have "bbs_derive_proof B claims sgb reveal nonce s =
      (Ok \<lparr>sp_message_count = word_of_nat (length claims), sp_proof = pfb,
           sp_revealed = disclosed claims reveal\<rparr>, s1\<lparr>ss_rng := rng2\<rparr>)"
    using p assms(3,4,5,9) init [unfolded prover_mbi_def] contr pf(1) pfb(1) ins
    by (simp add: bbs_derive_proof_def bind_s_def draw_or_def Let_def
        list_ex_iff not_le collect_claims_disclosed)
  then show ?thesis using pf pfb by force
qed

lemma generate_keeps [intro]: "keeps (suite_ok B) (bbs_generate_keypair B count)"
  unfolding bbs_generate_keypair_def Let_def by auto

lemma sign_keeps [intro]: "keeps (suite_ok B) (bbs_sign_credential B claims secret)"
  unfolding bbs_sign_credential_def Let_def by auto

lemma verify_bytes_keeps [intro]: "keeps (suite_ok B) (bbs_verify_proof_bytes B pb public nonce)"
  unfolding bbs_verify_proof_bytes_def by (auto split: result.split)

lemma selective_valid_derived:
  assumes "claims \<noteq> []" "length claims \<le> 64" "\<forall>i \<in> set reveal. i < length claims"
    and "sp_message_count p = word_of_nat (length claims)" "sp_revealed p = disclosed claims reveal"
    and "bk_params_new B PARAMS_LABEL (word_of_nat (length claims)) = Ok params"
    and "deser (bk_pk_codec B) public = Ok pk" "deser (bk_pf_codec B) (sp_proof p) = Ok pf"
    and "bk_pf_contribution B pf (map (\<lambda>i. (i, map (claim_to_fr B) claims ! i)) (btree_set reveal)) params
         = Some contribution"
    and "bk_pf_verify B pf (map (\<lambda>i. (i, map (claim_to_fr B) claims ! i)) (btree_set reveal))
         (challenge B contribution nonce) pk params"
  shows "selective_valid B p public nonce"
proof -
  have "unat (word_of_nat (length claims) :: u32) = length claims"
    using assms(2) by (simp add: unat_of_nat)
  moreover have "1 \<le> length claims" using assms(1) by (simp add: Suc_le_eq)
  ultimately show ?thesis
    unfolding selective_valid_collect assms(4,5)
  proof (intro conjI exI)
    show "bk_params_new B PARAMS_LABEL (word_of_nat (length claims)) = Ok params" by fact
    show "collect_revealed (claim_to_fr B) (word_of_nat (length claims)) [] (disclosed claims reveal)
        = Some (map (\<lambda>i. (i, map (claim_to_fr B) claims ! i)) (btree_set reveal))"
      by (rule verifier_map [OF assms(3,2)])
  qed (use assms in simp_all)
qed

lemma verify_bytes_spec_aux:
  assumes "suite_ok B s" "fits64 pb"
  shows "fst (bbs_verify_proof_bytes B pb public nonce s) =
     Ok (\<exists>p. sp_wf p \<and> sp_to_bytes p = pb \<and> selective_valid B p public nonce)"
proof (cases "sp_from_bytes pb")
  case (Ok p)
  with sp_from_bytes_sound [OF assms(2)] have p: "sp_wf p" "sp_to_bytes p = pb" by auto
  have "sp_wf q \<and> sp_to_bytes q = pb \<longleftrightarrow> q = p" for q
    using sp.encode_inj [of q p] p by metis
  then have "(\<exists>q. sp_wf q \<and> sp_to_bytes q = pb \<and> selective_valid B q public nonce)
      \<longleftrightarrow> selective_valid B p public nonce"
    by metis
  with Ok show ?thesis
    by (simp add: bbs_verify_proof_bytes_def verify_spec_aux [OF assms(1)])
next
  case (Err e)
  then have "\<not> (sp_wf p \<and> sp_to_bytes p = pb)" for p
    using sp_from_bytes_complete [of p] by auto
  then have "\<not> (\<exists>q. sp_wf q \<and> sp_to_bytes q = pb \<and> selective_valid B q public nonce)" by blast
  with Err show ?thesis by (simp add: bbs_verify_proof_bytes_def)
next
  case Panic
  with sp_from_bytes_no_panic [OF assms(2)] show ?thesis by simp
qed

text \<open>The challenge preimage frames its two variable parts.\<close>

interpretation proof_transcript_framing: framing
  "\<lambda>(contribution, nonce). proof_transcript contribution nonce"
  "\<lambda>(contribution, nonce). fits32 contribution \<and> fits32 nonce"
proof
  fix x y :: "bytes \<times> bytes"
  assume "case x of (c, n) \<Rightarrow> fits32 c \<and> fits32 n" and "case y of (c, n) \<Rightarrow> fits32 c \<and> fits32 n"
    and "(case x of (c, n) \<Rightarrow> proof_transcript c n) = (case y of (c, n) \<Rightarrow> proof_transcript c n)"
  then show "x = y"
    by (cases x; cases y)
      (auto simp: proof_transcript_def put_bytes_eq lp32.append_eq_iff dest: lp32.enc_inj)
qed

lemma roundtrip_aux:
  assumes "backend_laws B" "suite_ok B si" "suite_ok B sh" "suite_ok B sv"
    and "claims \<noteq> []" "length claims \<le> 64" "\<forall>i \<in> set reveal. i < length claims"
  shows "\<exists>kp si1 sg si2 p sh1.
      bbs_generate_keypair B (word_of_nat (length claims)) si = (Ok kp, si1)
      \<and> bbs_sign_credential B claims (held (bkp_secret kp)) si1 = (Ok sg, si2)
      \<and> bbs_derive_proof B claims sg reveal nonce sh = (Ok p, sh1)
      \<and> fst (bbs_verify_proof B p (bkp_public kp) nonce sv) = Ok True
      \<and> (fits32 (sp_proof p) \<and> (\<forall>c \<in> set claims. fits32 c) \<longrightarrow>
           fst (bbs_verify_proof_bytes B (sp_to_bytes p) (bkp_public kp) nonce sv) = Ok True)"
proof -
  let ?n = "word_of_nat (length claims) :: u32"
  have n: "?n \<noteq> 0" "?n \<le> MAX_BBS_MESSAGES"
    using assms(5,6) claim_count_nonzero [of claims] by (auto simp: word_le_nat_alt unat_of_nat)
  obtain kp si1 params sk pk rng' where g: "bbs_generate_keypair B ?n si = (Ok kp, si1)"
      "bk_params_new B PARAMS_LABEL ?n = Ok params" "bk_keygen B (ss_rng si) params = ((sk, pk), rng')"
      "deser (bk_sk_codec B) (held (bkp_secret kp)) = Ok sk"
      "deser (bk_pk_codec B) (bkp_public kp) = Ok pk"
    using generate_ok [OF assms(2,1) n] by blast
  have si1: "suite_ok B si1" using keepsD [OF generate_keeps assms(2), of ?n] g(1) by simp
  obtain sg si2 sig rng1 rng1' where s: "bbs_sign_credential B claims (held (bkp_secret kp)) si1 = (Ok sg, si2)"
      "bk_sign B rng1 (map (claim_to_fr B) claims) sk params = (Some sig, rng1')"
      "deser (bk_sg_codec B) sg = Ok sig"
    using sign_ok [OF si1 assms(1,5,6) g(2,3,4)] by blast
  obtain p sh1 pf contribution where d: "bbs_derive_proof B claims sg reveal nonce sh = (Ok p, sh1)"
      "deser (bk_pf_codec B) (sp_proof p) = Ok pf"
      "bk_pf_contribution B pf (map (\<lambda>i. (i, map (claim_to_fr B) claims ! i)) (btree_set reveal)) params
         = Some contribution"
      "bk_pf_verify B pf (map (\<lambda>i. (i, map (claim_to_fr B) claims ! i)) (btree_set reveal))
         (challenge B contribution nonce) pk params"
    using derive_ok [OF assms(3,1,5,6,7) g(2,3) s(2,3)] by blast
  note shape = derive_facts [OF d(1)]
  have valid: "selective_valid B p (bkp_public kp) nonce"
    using selective_valid_derived [OF assms(5,6,7) _ _ g(2,5) d(2,3,4)] shape by blast
  have v: "fst (bbs_verify_proof B p (bkp_public kp) nonce sv) = Ok True"
    using verify_spec_aux [OF assms(4)] valid by simp
  have "fst (bbs_verify_proof_bytes B (sp_to_bytes p) (bkp_public kp) nonce sv) = Ok True"
    if "fits32 (sp_proof p)" "\<forall>c \<in> set claims. fits32 c"
    using docknet.crosses_wire [OF d(1) assms(5,6) that] v by (simp add: bbs_verify_proof_bytes_def)
  with g(1) s(1) d(1) v show ?thesis by blast
qed

end
