(* ===== verification/Phi_Semaphore.thy ===== *)
theory Phi_Semaphore
  imports Phi_Voting Phi_Bbs_Correct
begin

section \<open>Semaphore-style nullifier binding (semaphore.rs)\<close>

text \<open>
  The per-election nullifier and the presentation header that ties a BBS eligibility proof to
  an election, a nullifier and a vote. Each hash input is framed and starts with its own
  domain label, so equal digests mean equal contents up to a collision of the hash, and a
  digest of one domain is never the digest of another domain's preimage.
\<close>

definition external_preimage :: "bytes \<Rightarrow> bytes" where
  "external_preimage election_id =
     ascii ''phi-extnull-v1'' @ len_be64 (length election_id) @ election_id"

definition external_nullifier :: "(bytes \<Rightarrow> bytes) \<Rightarrow> bytes \<Rightarrow> bytes" where
  "external_nullifier sha256 election_id = sha256 (external_preimage election_id)"

definition sem_nullifier :: "(bytes \<Rightarrow> bytes) \<Rightarrow> bytes \<Rightarrow> bytes \<Rightarrow> bytes" where
  "sem_nullifier sha256 secret election_id =
     compute_nullifier sha256 secret (external_nullifier sha256 election_id)"

definition bind_preimage :: "bytes \<Rightarrow> bytes \<Rightarrow> bytes \<Rightarrow> bytes" where
  "bind_preimage election_id nullifier signal =
     ascii ''phi-vote-bind-v2'' @ len_be64 (length election_id) @ election_id
       @ len_be64 (length signal) @ signal @ nullifier"

definition bind_nonce :: "(bytes \<Rightarrow> bytes) \<Rightarrow> bytes \<Rightarrow> bytes \<Rightarrow> bytes \<Rightarrow> bytes" where
  "bind_nonce sha256 election_id nullifier signal =
     sha256 (bind_preimage election_id nullifier signal)"

definition verify_bound_proof ::
    "('p, 'r, 'f, 'sk, 'pk, 'sg, 'pok, 'pf) bbs_backend \<Rightarrow> bytes \<Rightarrow> bytes \<Rightarrow> bytes \<Rightarrow> bytes \<Rightarrow> bytes \<Rightarrow>
     (('p, 'r) suite_state, bool) st" where
  "verify_bound_proof B bbs_proof issuer_public_key election_id nullifier signal =
     (let nonce = bind_nonce (bk_sha256 B) election_id nullifier signal in
      bbs_verify_proof_bytes B bbs_proof issuer_public_key nonce)"

subsection \<open>Framing\<close>

lemma external_preimage_lp: "external_preimage e = ascii ''phi-extnull-v1'' @ lp64 e"
  by (simp add: external_preimage_def lp64_def)

lemma bind_preimage_lp: "bind_preimage e n s = ascii ''phi-vote-bind-v2'' @ lp64 e @ lp64 s @ n"
  by (simp add: bind_preimage_def lp64_def)

interpretation external_framing: framing external_preimage fits64
  by unfold_locales (auto simp: external_preimage_lp dest: lp64.enc_inj)

interpretation bind_framing: framing "\<lambda>(e, n, s). bind_preimage e n s"
  "\<lambda>(e, n, s). fits64 e \<and> fits64 s"
proof
  fix x y :: "bytes \<times> bytes \<times> bytes"
  assume "case x of (e, n, s) \<Rightarrow> fits64 e \<and> fits64 s" and "case y of (e, n, s) \<Rightarrow> fits64 e \<and> fits64 s"
    and "(case x of (e, n, s) \<Rightarrow> bind_preimage e n s) = (case y of (e, n, s) \<Rightarrow> bind_preimage e n s)"
  then show "x = y"
    by (cases x; cases y) (auto simp: bind_preimage_lp lp64.append_eq_iff)
qed

lemma preimages_disjoint:
  "nullifier_preimage s t \<noteq> external_preimage e"
  "nullifier_preimage s t \<noteq> bind_preimage e' n g"
  "external_preimage e \<noteq> bind_preimage e' n g"
  by (simp_all add: nullifier_preimage_def external_preimage_def bind_preimage_def ascii_def)

subsection \<open>Claims\<close>

text \<open>The election nullifier is a function of exactly the voter's secret and the election:
  two voters or two elections with the same nullifier exhibit a collision of SHA-256, in the
  nullifier's preimage or in the external nullifier's. (\<open>sha256\<close> only has to give 32 bytes.)\<close>

theorem sem_nullifier_binding:
  assumes "\<forall>x. length (sha256 x) = 32" "fits64 secret" "fits64 secret'" "fits64 election" "fits64 election'"
    and "sem_nullifier sha256 secret election = sem_nullifier sha256 secret' election'"
  shows "secret = secret' \<and> election = election'
     \<or> collision sha256 (nullifier_preimage secret (external_nullifier sha256 election))
         (nullifier_preimage secret' (external_nullifier sha256 election'))
     \<or> collision sha256 (external_preimage election) (external_preimage election')"
proof -
  have f: "fits64 (external_nullifier sha256 e)" for e
    using assms(1) by (simp add: external_nullifier_def fits64_def)
  from nullifier_framing.binding [of "(secret, external_nullifier sha256 election)"
      "(secret', external_nullifier sha256 election')" sha256] assms f
  have "secret = secret' \<and> external_nullifier sha256 election = external_nullifier sha256 election'
     \<or> collision sha256 (nullifier_preimage secret (external_nullifier sha256 election))
         (nullifier_preimage secret' (external_nullifier sha256 election'))"
    by (simp add: sem_nullifier_def compute_nullifier_def)
  moreover have "election = election' \<or> collision sha256 (external_preimage election) (external_preimage election')"
    if "external_nullifier sha256 election = external_nullifier sha256 election'"
    using external_framing.binding [OF assms(4,5), of sha256] that by (simp add: external_nullifier_def)
  ultimately show ?thesis by blast
qed

text \<open>C33: the presentation header binds election, nullifier and vote, and its preimage is disjoint
  from those of the nullifier and the external nullifier: any two of the crate's voting hashes
  that agree, of the same or of different kinds, agree on their contents or collide.\<close>

theorem voting_hashes_bind:
  assumes "fits64 e" "fits64 g" "fits64 e'" "fits64 g'"
  shows "(bind_nonce sha256 e n g = bind_nonce sha256 e' n' g' \<longrightarrow>
            e = e' \<and> n = n' \<and> g = g' \<or> collision sha256 (bind_preimage e n g) (bind_preimage e' n' g'))
     \<and> (bind_nonce sha256 e n g = compute_nullifier sha256 s t \<longrightarrow>
            collision sha256 (bind_preimage e n g) (nullifier_preimage s t))
     \<and> (bind_nonce sha256 e n g = external_nullifier sha256 d \<longrightarrow>
            collision sha256 (bind_preimage e n g) (external_preimage d))
     \<and> (compute_nullifier sha256 s t = external_nullifier sha256 d \<longrightarrow>
            collision sha256 (nullifier_preimage s t) (external_preimage d))"
  using bind_framing.binding [of "(e, n, g)" "(e', n', g')" sha256] assms
  by (auto simp: bind_nonce_def compute_nullifier_def external_nullifier_def collision_def
      preimages_disjoint preimages_disjoint [THEN not_sym])

theorem voting_hashes_bind_witness:
  "collision sample_hash (bind_preimage [1] [7] [2]) (bind_preimage [1] [7] [3])"
proof -
  have f: "fits64 [x]" for x by (simp add: fits64_def)
  have "bind_nonce sample_hash [1] [7] [2] = bind_nonce sample_hash [1] [7] [3]"
    by (simp add: bind_nonce_def bind_preimage_def sample_hash_def numeral_eq_Suc)
  then show ?thesis
    using voting_hashes_bind [OF f [of 1] f [of 2] f [of 1] f [of 3], of sample_hash "[7]" "[7]"] by simp
qed

end
