(* ===== verification/Phi_Bound_Once.thy ===== *)
theory Phi_Bound_Once
  imports Phi_Semaphore
begin

section \<open>A presentation is bound to one header (bbs.rs, semaphore.rs)\<close>

text \<open>
  One presentation accepted under two different headers was checked against two different
  transcripts. So either the challenge hash collides on them, or the backend accepts the one
  proof under two different challenges. Both events are named with the values of the
  presentation itself. With the framing of the header this says what reusing a bound
  presentation for another election, nullifier or vote takes.
\<close>

text \<open>The transcript a presentation is checked against, and the check under a given challenge.\<close>

definition transcript_of ::
    "('p, 'r, 'f, 'sk, 'pk, 'sg, 'pok, 'pf) bbs_backend \<Rightarrow> SelectiveProof \<Rightarrow> bytes \<Rightarrow> bytes \<Rightarrow> bool" where
  "transcript_of B p nonce t \<longleftrightarrow> (\<exists>params pf msgs contribution.
     bk_params_new B PARAMS_LABEL (sp_message_count p) = Ok params \<and> deser (bk_pf_codec B) (sp_proof p) = Ok pf
     \<and> bt_ok msgs \<and> bt_get msgs = map_of (map (\<lambda>(i, b). (unat i, claim_to_fr B b)) (sp_revealed p))
     \<and> bk_pf_contribution B pf msgs params = Some contribution \<and> t = proof_transcript contribution nonce)"

definition accepted_at ::
    "('p, 'r, 'f, 'sk, 'pk, 'sg, 'pok, 'pf) bbs_backend \<Rightarrow> SelectiveProof \<Rightarrow> bytes \<Rightarrow> 'f \<Rightarrow> bool" where
  "accepted_at B p public c \<longleftrightarrow> (\<exists>params pk pf msgs.
     bk_params_new B PARAMS_LABEL (sp_message_count p) = Ok params \<and> deser (bk_pk_codec B) public = Ok pk
     \<and> deser (bk_pf_codec B) (sp_proof p) = Ok pf
     \<and> bt_ok msgs \<and> bt_get msgs = map_of (map (\<lambda>(i, b). (unat i, claim_to_fr B b)) (sp_revealed p))
     \<and> bk_pf_verify B pf msgs c pk params)"

definition opens_twice ::
    "('p, 'r, 'f, 'sk, 'pk, 'sg, 'pok, 'pf) bbs_backend \<Rightarrow> SelectiveProof \<Rightarrow> bytes \<Rightarrow> bytes \<Rightarrow> bytes \<Rightarrow> bool" where
  "opens_twice B p public nonce nonce' \<longleftrightarrow> (\<exists>t t'. transcript_of B p nonce t \<and> transcript_of B p nonce' t'
     \<and> (collision (bk_oracle B) t t'
        \<or> bk_oracle B t \<noteq> bk_oracle B t' \<and> accepted_at B p public (bk_oracle B t) \<and> accepted_at B p public (bk_oracle B t')))"

lemma selective_valid_at:
  "selective_valid B p public nonce \<Longrightarrow> \<exists>t. transcript_of B p nonce t \<and> accepted_at B p public (bk_oracle B t)"
  unfolding selective_valid_def transcript_of_def accepted_at_def challenge_def by blast

lemma transcript_of_inj:
  assumes "transcript_of B p nonce t" "transcript_of B p nonce' t" "fits32 nonce" "fits32 nonce'"
  shows "nonce = nonce'"
proof -
  from assms(1,2) obtain c c' where c: "t = proof_transcript c nonce" "t = proof_transcript c' nonce'" "c = c'"
    unfolding transcript_of_def by (metis bt_ok_unique option.inject result.inject(1))
  then show ?thesis
    using assms(3,4) by (auto simp: proof_transcript_def put_bytes_eq dest: lp32.enc_inj)
qed

lemma presented_once:
  assumes "selective_valid B p public nonce" "selective_valid B p public nonce'" "fits32 nonce" "fits32 nonce'"
  shows "nonce = nonce' \<or> opens_twice B p public nonce nonce'"
proof -
  obtain t t' where t: "transcript_of B p nonce t" "accepted_at B p public (bk_oracle B t)"
      "transcript_of B p nonce' t'" "accepted_at B p public (bk_oracle B t')"
    using selective_valid_at [OF assms(1)] selective_valid_at [OF assms(2)] by blast
  show ?thesis
  proof (cases "t = t'")
    case True
    then show ?thesis using transcript_of_inj [OF t(1) _ assms(3,4)] t(3) by blast
  next
    case False
    with t show ?thesis unfolding opens_twice_def collision_def by blast
  qed
qed

text \<open>What it takes that a presentation bound to one election, nullifier and vote serves another.\<close>

definition rebinds ::
    "('p, 'r, 'f, 'sk, 'pk, 'sg, 'pok, 'pf) bbs_backend \<Rightarrow> SelectiveProof \<Rightarrow> bytes \<Rightarrow>
     bytes \<times> bytes \<times> bytes \<Rightarrow> bytes \<times> bytes \<times> bytes \<Rightarrow> bool" where
  "rebinds B p public x y = (case (x, y) of ((el, null, sg), (el', null', sg')) \<Rightarrow>
     collision (bk_sha256 B) (bind_preimage el null sg) (bind_preimage el' null' sg')
     \<or> opens_twice B p public (bind_nonce (bk_sha256 B) el null sg) (bind_nonce (bk_sha256 B) el' null' sg'))"

lemma bound_once:
  assumes "\<forall>x. length (bk_sha256 B x) = 32"
    and "selective_valid B p public (bind_nonce (bk_sha256 B) el null sg)"
    and "selective_valid B p public (bind_nonce (bk_sha256 B) el' null' sg')"
    and "fits64 el" "fits64 sg" "fits64 el'" "fits64 sg'"
  shows "(el, null, sg) = (el', null', sg') \<or> rebinds B p public (el, null, sg) (el', null', sg')"
proof -
  have f: "fits32 (bind_nonce (bk_sha256 B) e n g)" for e n g
    using assms(1) by (simp add: bind_nonce_def fits32_def)
  from presented_once [OF assms(2,3) f f]
  show ?thesis
    using bind_framing.binding [of "(el, null, sg)" "(el', null', sg')" "bk_sha256 B"] assms(4-7)
    by (auto simp: rebinds_def bind_nonce_def)
qed

end
