(* ===== verification/Phi_Pool.thy ===== *)
theory Phi_Pool
  imports Phi_Params
begin

section \<open>Concurrent calls of params_for (bbs.rs)\<close>

text \<open>
  Any number of threads, each running one call of \<open>params_for\<close>, over one cache behind one mutex.
  \<open>lock\<close> waits while another thread holds the mutex, so taking it is a step that needs it free, and
  a thread that asks for it earlier does not move. The guard lives as long as the \<open>if let\<close> it is
  bound in: it is given up when the first \<open>if let\<close> returns the cached value or falls through,
  the derivation runs without it, and the second \<open>if let\<close> takes it again. A poisoned mutex is
  taken and given up in the same way; the entries behind it are not looked at (\<open>cache_get\<close>,
  \<open>cache_insert\<close>). Shown are an invariant over all interleavings, that memoization is invisible in
  them, and that no interleaving blocks: whoever holds the mutex can go on and gives it up
  with its next step.
\<close>

datatype 'p thread = Start | Looking | Missed | Derived 'p | Storing 'p | Done 'p | Died

record 'p pool =
  po_cache :: "'p params_cache"
  po_owner :: "nat option"
  po_threads :: "nat \<Rightarrow> 'p thread"

text \<open>
  \<open>want\<close> gives each thread's claim count. A panicking derivation kills its thread. Poisoning is a
  step of the environment: some other holder of the mutex panicked.
\<close>

inductive pool_step :: "'p params_new \<Rightarrow> (nat \<Rightarrow> u32) \<Rightarrow> 'p pool \<Rightarrow> 'p pool \<Rightarrow> bool"
  for new :: "'p params_new" and want :: "nat \<Rightarrow> u32" where
  bypass: "po_threads s i = Start \<Longrightarrow> want i > MAX_BBS_MESSAGES \<Longrightarrow>
     derive_params new (want i) = Ok p \<Longrightarrow>
     pool_step new want s (s\<lparr>po_threads := (po_threads s)(i := Done p)\<rparr>)"
| lock_look: "po_threads s i = Start \<Longrightarrow> want i \<le> MAX_BBS_MESSAGES \<Longrightarrow> po_owner s = None \<Longrightarrow>
     pool_step new want s (s\<lparr>po_owner := Some i, po_threads := (po_threads s)(i := Looking)\<rparr>)"
| hit: "po_threads s i = Looking \<Longrightarrow> cache_get (po_cache s) (want i) = Some p \<Longrightarrow>
     pool_step new want s (s\<lparr>po_owner := None, po_threads := (po_threads s)(i := Done p)\<rparr>)"
| miss: "po_threads s i = Looking \<Longrightarrow> cache_get (po_cache s) (want i) = None \<Longrightarrow>
     pool_step new want s (s\<lparr>po_owner := None, po_threads := (po_threads s)(i := Missed)\<rparr>)"
| derive: "po_threads s i = Missed \<Longrightarrow> derive_params new (want i) = Ok p \<Longrightarrow>
     pool_step new want s (s\<lparr>po_threads := (po_threads s)(i := Derived p)\<rparr>)"
| die: "po_threads s i = Missed \<or> po_threads s i = Start \<and> want i > MAX_BBS_MESSAGES \<Longrightarrow>
     derive_params new (want i) = Panic \<Longrightarrow>
     pool_step new want s (s\<lparr>po_threads := (po_threads s)(i := Died)\<rparr>)"
| lock_store: "po_threads s i = Derived p \<Longrightarrow> po_owner s = None \<Longrightarrow>
     pool_step new want s (s\<lparr>po_owner := Some i, po_threads := (po_threads s)(i := Storing p)\<rparr>)"
| store: "po_threads s i = Storing p \<Longrightarrow>
     pool_step new want s
       (s\<lparr>po_cache := cache_insert (want i) p (po_cache s), po_owner := None,
          po_threads := (po_threads s)(i := Done p)\<rparr>)"
| poison: "po_owner s = None \<Longrightarrow>
     pool_step new want s (s\<lparr>po_cache := (po_cache s)\<lparr>pc_poisoned := True\<rparr>\<rparr>)"

definition pool_init :: "'p pool" where
  "pool_init = \<lparr>po_cache = params_cache, po_owner = None, po_threads = (\<lambda>_. Start)\<rparr>"

inductive pool_reachable :: "'p params_new \<Rightarrow> (nat \<Rightarrow> u32) \<Rightarrow> 'p pool \<Rightarrow> bool"
  for new :: "'p params_new" and want :: "nat \<Rightarrow> u32" where
  init: "pool_reachable new want pool_init"
| step: "pool_reachable new want s \<Longrightarrow> pool_step new want s t \<Longrightarrow> pool_reachable new want t"

inductive_cases pool_stepE: "pool_step new want s t"

lemma reachable_steps: "(pool_step new want)\<^sup>*\<^sup>* s t \<Longrightarrow> pool_reachable new want s \<Longrightarrow> pool_reachable new want t"
  by (induction rule: rtranclp_induct) (auto intro: pool_reachable.step)

subsection \<open>The invariant\<close>

text \<open>
  What a thread knows of its count, who holds the mutex, and that only calls within the cached
  range get past the first test.
\<close>

fun thread_ok :: "'p params_new \<Rightarrow> u32 \<Rightarrow> 'p thread \<Rightarrow> bool" where
  "thread_ok new cnt Start \<longleftrightarrow> True"
| "thread_ok new cnt Looking \<longleftrightarrow> cnt \<le> MAX_BBS_MESSAGES"
| "thread_ok new cnt Missed \<longleftrightarrow> cnt \<le> MAX_BBS_MESSAGES"
| "thread_ok new cnt (Derived p) \<longleftrightarrow> cnt \<le> MAX_BBS_MESSAGES \<and> derive_params new cnt = Ok p"
| "thread_ok new cnt (Storing p) \<longleftrightarrow> cnt \<le> MAX_BBS_MESSAGES \<and> derive_params new cnt = Ok p"
| "thread_ok new cnt (Done p) \<longleftrightarrow> derive_params new cnt = Ok p"
| "thread_ok new cnt Died \<longleftrightarrow> derive_params new cnt = Panic"

fun holds_lock :: "'p thread \<Rightarrow> bool" where
  "holds_lock Looking \<longleftrightarrow> True"
| "holds_lock (Storing p) \<longleftrightarrow> True"
| "holds_lock th \<longleftrightarrow> False"

definition pool_ok :: "'p params_new \<Rightarrow> (nat \<Rightarrow> u32) \<Rightarrow> 'p pool \<Rightarrow> bool" where
  "pool_ok new want s \<longleftrightarrow>
     cache_ok new (po_cache s) \<and> (\<forall>i. thread_ok new (want i) (po_threads s i))
     \<and> (\<forall>i. holds_lock (po_threads s i) \<longleftrightarrow> po_owner s = Some i)"

lemma cache_ok_poison [simp]: "cache_ok new (c\<lparr>pc_poisoned := b\<rparr>) = cache_ok new c"
  by (simp add: cache_ok_def)

lemma pool_okD:
  assumes "pool_ok new want s" "po_threads s i = th"
  shows "thread_ok new (want i) th" "holds_lock th \<longleftrightarrow> po_owner s = Some i" "cache_ok new (po_cache s)"
  using assms by (auto simp: pool_ok_def)

text \<open>A step of thread \<open>i\<close> that takes, keeps away from or gives up the mutex keeps the invariant.\<close>

lemma pool_ok_update:
  assumes "pool_ok new want s" "thread_ok new (want i) th" "cache_ok new c"
    and "(holds_lock th \<longleftrightarrow> ow = Some i)" "ow = po_owner s \<or> (ow = Some i \<and> po_owner s = None) \<or> (ow = None \<and> po_owner s = Some i)"
  shows "pool_ok new want (s\<lparr>po_cache := c, po_owner := ow, po_threads := (po_threads s)(i := th)\<rparr>)"
  using assms by (auto simp: pool_ok_def)

lemma pool_step_ok:
  assumes "pool_step new want s t" "pool_ok new want s"
  shows "pool_ok new want t"
  using assms
proof (induction rule: pool_step.induct)
  case (bypass s i p)
  then show ?case using pool_okD [OF bypass(4,1)] pool_ok_update [of new want s i "Done p" "po_cache s" "po_owner s"] by simp
next
  case (lock_look s i)
  then show ?case using pool_okD [OF lock_look(4,1)] pool_ok_update [of new want s i Looking "po_cache s" "Some i"] by simp
next
  case (hit s i p)
  then show ?case
    using pool_okD [OF hit(3,1)] pool_ok_update [of new want s i "Done p" "po_cache s" None] by (simp add: cache_get_ok)
next
  case (miss s i)
  then show ?case using pool_okD [OF miss(3,1)] pool_ok_update [of new want s i Missed "po_cache s" None] by simp
next
  case (derive s i p)
  then show ?case using pool_okD [OF derive(3,1)] pool_ok_update [of new want s i "Derived p" "po_cache s" "po_owner s"] by simp
next
  case (die s i)
  then have "\<not> holds_lock (po_threads s i)" by auto
  then show ?case
    using die pool_okD(2) [OF die(3) refl, of i] pool_okD(3) [OF die(3) refl] pool_ok_update [of new want s i Died "po_cache s" "po_owner s"] by simp
next
  case (lock_store s i p)
  then show ?case using pool_okD [OF lock_store(3,1)] pool_ok_update [of new want s i "Storing p" "po_cache s" "Some i"] by simp
next
  case (store s i p)
  then show ?case
    using pool_okD [OF store(2,1)] pool_ok_update [of new want s i "Done p" "cache_insert (want i) p (po_cache s)" None]
    by (simp add: cache_insert_ok)
next
  case (poison s)
  then show ?case by (simp add: pool_ok_def)
qed

lemma pool_reachable_ok: "pool_reachable new want s \<Longrightarrow> pool_ok new want s"
proof (induction rule: pool_reachable.induct)
  case init
  show ?case by (simp add: pool_ok_def pool_init_def cache_ok_initial)
next
  case (step s t)
  then show ?case using pool_step_ok by blast
qed

subsection \<open>The sequential call is a run of the machine\<close>

lemma params_for_run:
  assumes "po_threads s i = Start" "po_owner s = None" "params_for new (want i) (po_cache s) = (Ok p, c')"
  shows "(pool_step new want)\<^sup>*\<^sup>* s (s\<lparr>po_cache := c', po_threads := (po_threads s)(i := Done p)\<rparr>)"
proof -
  let ?at = "\<lambda>ow th. s\<lparr>po_owner := ow, po_threads := (po_threads s)(i := th)\<rparr>"
  have none: "?at None th = s\<lparr>po_threads := (po_threads s)(i := th)\<rparr>" for th using assms(2) by simp
  have look: "pool_step new want s (?at (Some i) Looking)" if "want i \<le> MAX_BBS_MESSAGES"
    using pool_step.lock_look [of s i want new] assms(1,2) that by simp
  consider
      (bypass) "want i > MAX_BBS_MESSAGES" "derive_params new (want i) = Ok p" "c' = po_cache s"
    | (hit) "want i \<le> MAX_BBS_MESSAGES" "cache_get (po_cache s) (want i) = Some p" "c' = po_cache s"
    | (fresh) "want i \<le> MAX_BBS_MESSAGES" "cache_get (po_cache s) (want i) = None"
        "derive_params new (want i) = Ok p" "c' = cache_insert (want i) p (po_cache s)"
    using assms(3) by (auto simp: params_for_def not_less split: if_splits option.splits result.splits)
  then show ?thesis
  proof cases
    case bypass
    then show ?thesis using pool_step.bypass [OF assms(1), of want new p] by auto
  next
    case hit
    have "pool_step new want (?at (Some i) Looking) (?at None (Done p))"
      using pool_step.hit [of "?at (Some i) Looking" i want p new] hit(2) by simp
    with look [OF hit(1)] hit(3) show ?thesis unfolding none by (simp add: rtranclp.rtrancl_into_rtrancl)
  next
    case fresh
    have "pool_step new want (?at (Some i) Looking) (?at None Missed)"
      using pool_step.miss [of "?at (Some i) Looking" i want new] fresh(2) by simp
    moreover have "pool_step new want (?at None Missed) (?at None (Derived p))"
      using pool_step.derive [of "?at None Missed" i new want p] fresh(3) by simp
    moreover have "pool_step new want (?at None (Derived p)) (?at (Some i) (Storing p))"
      using pool_step.lock_store [of "?at None (Derived p)" i p new want] by simp
    moreover have "pool_step new want (?at (Some i) (Storing p))
        (s\<lparr>po_cache := c', po_threads := (po_threads s)(i := Done p)\<rparr>)"
      using pool_step.store [of "?at (Some i) (Storing p)" i p new want] fresh(4) assms(2) by (cases s) simp
    ultimately show ?thesis
      using look [OF fresh(1)] by (meson converse_rtranclp_into_rtranclp rtranclp.rtrancl_refl)
  qed
qed

subsection \<open>Every call ends\<close>

text \<open>
  A thread's rank is the number of steps it has left at most. The steps of one call, of the
  first \<open>n\<close> calls, and of everything else (other calls, the environment).
\<close>

primrec thread_rank :: "'p thread \<Rightarrow> nat" where
  "thread_rank Start = 5"
| "thread_rank Looking = 4"
| "thread_rank Missed = 3"
| "thread_rank (Derived p) = 2"
| "thread_rank (Storing p) = 1"
| "thread_rank (Done p) = 0"
| "thread_rank Died = 0"

definition step_of :: "'p params_new \<Rightarrow> (nat \<Rightarrow> u32) \<Rightarrow> nat \<Rightarrow> 'p pool \<Rightarrow> 'p pool \<Rightarrow> bool" where
  "step_of new want i s t \<longleftrightarrow> pool_step new want s t \<and> po_threads t i \<noteq> po_threads s i"

definition call_step :: "'p params_new \<Rightarrow> (nat \<Rightarrow> u32) \<Rightarrow> nat \<Rightarrow> 'p pool \<Rightarrow> 'p pool \<Rightarrow> bool" where
  "call_step new want n s t \<longleftrightarrow> (\<exists>i<n. step_of new want i s t)"

definition other_step :: "'p params_new \<Rightarrow> (nat \<Rightarrow> u32) \<Rightarrow> nat \<Rightarrow> 'p pool \<Rightarrow> 'p pool \<Rightarrow> bool" where
  "other_step new want n s t \<longleftrightarrow> pool_step new want s t \<and> (\<forall>i<n. po_threads t i = po_threads s i)"

definition pool_rank :: "nat \<Rightarrow> 'p pool \<Rightarrow> nat" where
  "pool_rank n s = (\<Sum>i<n. thread_rank (po_threads s i))"

definition waits :: "'p pool \<Rightarrow> nat \<Rightarrow> nat \<Rightarrow> bool" where
  "waits s i j \<longleftrightarrow> i \<noteq> j \<and> po_owner s = Some j \<and> (po_threads s i = Start \<or> (\<exists>p. po_threads s i = Derived p))"

text \<open>A step moves one thread, downwards, and only the thread that takes the mutex becomes its owner.\<close>

lemma pool_step_local:
  "pool_step new want s t \<Longrightarrow> po_threads t = po_threads s \<and> po_owner t = None
     \<or> (\<exists>i th. po_threads t = (po_threads s)(i := th) \<and> thread_rank th < thread_rank (po_threads s i)
          \<and> po_owner t \<in> {po_owner s, Some i, None} \<and> (holds_lock (po_threads s i) \<longrightarrow> po_owner t = None))"
proof (induction rule: pool_step.induct)
  case (bypass s i p)
  then show ?case by (intro disjI2 exI [of _ i] exI [of _ "Done p"]) auto
next
  case (lock_look s i)
  then show ?case by (intro disjI2 exI [of _ i] exI [of _ Looking]) auto
next
  case (hit s i p)
  then show ?case by (intro disjI2 exI [of _ i] exI [of _ "Done p"]) auto
next
  case (miss s i)
  then show ?case by (intro disjI2 exI [of _ i] exI [of _ Missed]) auto
next
  case (derive s i p)
  then show ?case by (intro disjI2 exI [of _ i] exI [of _ "Derived p"]) auto
next
  case (die s i)
  then show ?case by (intro disjI2 exI [of _ i] exI [of _ Died]) auto
next
  case (lock_store s i p)
  then show ?case by (intro disjI2 exI [of _ i] exI [of _ "Storing p"]) auto
next
  case (store s i p)
  then show ?case by (intro disjI2 exI [of _ i] exI [of _ "Done p"]) auto
qed simp

lemma step_ofD:
  assumes "step_of new want i s t"
  shows "\<exists>th. po_threads t = (po_threads s)(i := th) \<and> thread_rank th < thread_rank (po_threads s i)"
    and "po_owner t \<in> {po_owner s, Some i, None}" "holds_lock (po_threads s i) \<Longrightarrow> po_owner t = None"
  using assms pool_step_local [of new want s t] by (auto simp: step_of_def split: if_splits)

lemma call_step_rank:
  assumes "call_step new want n s t"
  shows "pool_rank n t < pool_rank n s"
proof -
  from assms obtain i where i: "i < n" "step_of new want i s t" by (auto simp: call_step_def)
  from step_ofD(1) [OF i(2)] obtain th where
    "po_threads t = (po_threads s)(i := th)" "thread_rank th < thread_rank (po_threads s i)" by blast
  with i(1) show ?thesis unfolding pool_rank_def by (intro sum_strict_mono_ex1) auto
qed

lemma other_steps_rank: "(other_step new want n)\<^sup>*\<^sup>* s t \<Longrightarrow> pool_rank n t = pool_rank n s"
  by (induction rule: rtranclp_induct) (simp_all add: other_step_def pool_rank_def)

lemma pool_rank_bound: "pool_rank n s \<le> 5 * n"
proof -
  have "thread_rank th \<le> 5" for th :: "'a thread" by (cases th) simp_all
  then have "pool_rank n s \<le> (\<Sum>i<n. 5)" unfolding pool_rank_def by (intro sum_mono)
  then show ?thesis by simp
qed

lemma runs_bounded:
  "(((other_step new want n)\<^sup>*\<^sup>* OO call_step new want n) ^^ k) s t \<Longrightarrow> pool_rank n t + k \<le> pool_rank n s"
proof (induction k arbitrary: t)
  case (Suc k)
  then obtain u v where "(((other_step new want n)\<^sup>*\<^sup>* OO call_step new want n) ^^ k) s u"
    "(other_step new want n)\<^sup>*\<^sup>* u v" "call_step new want n v t" by auto
  with Suc.IH [of u] other_steps_rank [of new want n u v] call_step_rank [of new want n v t] show ?case by simp
qed simp

subsection \<open>Nobody blocks\<close>

text \<open>Whoever holds the mutex has a next step, and gives the mutex up with it.\<close>

lemma holder_moves:
  assumes "pool_ok new want s" "po_owner s = Some j"
  shows "\<exists>t. step_of new want j s t"
    and "step_of new want j s t \<Longrightarrow> po_owner t = None"
proof -
  have h: "holds_lock (po_threads s j)" using pool_okD(2) [OF assms(1) refl] assms(2) by blast
  then consider "po_threads s j = Looking" | p where "po_threads s j = Storing p"
    by (cases "po_threads s j") auto
  then show "\<exists>t. step_of new want j s t"
  proof cases
    case 1
    show ?thesis
      using pool_step.hit [OF 1, of want _ new] pool_step.miss [OF 1, of want new] 1
      by (cases "cache_get (po_cache s) (want j)") (fastforce simp: step_of_def)+
  next
    case 2
    show ?thesis using pool_step.store [OF 2, of new want] 2 by (fastforce simp: step_of_def)
  qed
  show "po_owner t = None" if "step_of new want j s t" using step_ofD(3) [OF that h] .
qed

text \<open>An unfinished call moves, or waits for the mutex.\<close>

lemma moves_or_waits:
  assumes "pool_ok new want s" "\<And>c e. derive_params new c \<noteq> Err e" "thread_rank (po_threads s i) \<noteq> 0"
  shows "(\<exists>t. step_of new want i s t) \<or> (\<exists>j. waits s i j)"
proof -
  have move: "\<exists>t. step_of new want i s t" if "pool_step new want s t" "po_threads t i \<noteq> po_threads s i" for t
    using that by (auto simp: step_of_def)
  note ok = pool_okD [OF assms(1)]
  consider "po_threads s i = Start" | "po_threads s i = Missed" | p where "po_threads s i = Derived p"
    | "holds_lock (po_threads s i)"
    using assms(3) by (cases "po_threads s i") auto
  then show ?thesis
  proof cases
    case 1
    have n: "po_owner s \<noteq> Some i" using ok(2) [OF 1] by simp
    show ?thesis
    proof (cases "want i \<le> MAX_BBS_MESSAGES")
      case True
      then show ?thesis
        using move [OF pool_step.lock_look [of s i want new]] True 1 n by (cases "po_owner s") (auto simp: waits_def)
    next
      case False
      then show ?thesis
        using move [OF pool_step.bypass [OF 1]] move [OF pool_step.die [of s i]] 1 assms(2)
        by (cases "derive_params new (want i)") (auto simp: not_le)
    qed
  next
    case 2
    then show ?thesis
      using move [OF pool_step.derive [OF 2]] move [OF pool_step.die [of s i]] assms(2)
      by (cases "derive_params new (want i)") auto
  next
    case 3
    have n: "po_owner s \<noteq> Some i" using ok(2) [OF 3] by simp
    show ?thesis
      using move [OF pool_step.lock_store [OF 3]] 3 n by (cases "po_owner s") (auto simp: waits_def)
  next
    case 4
    then have "po_owner s = Some i" using ok(2) [OF refl] by blast
    then show ?thesis using holder_moves(1) [OF assms(1)] by blast
  qed
qed

text \<open>A call that waits can move as soon as the holder has made its step.\<close>

lemma wait_ends:
  assumes "pool_ok new want s" "\<And>c e. derive_params new c \<noteq> Err e" "waits s i j"
  shows "\<exists>t. step_of new want j s t" and "step_of new want j s t \<Longrightarrow> po_owner t = None \<and> (\<exists>u. step_of new want i t u)"
proof -
  have j: "po_owner s = Some j" "i \<noteq> j" using assms(3) by (auto simp: waits_def)
  show "\<exists>t. step_of new want j s t" by (rule holder_moves(1) [OF assms(1) j(1)])
  assume t: "step_of new want j s t"
  have o: "po_owner t = None" by (rule holder_moves(2) [OF assms(1) j(1) t])
  have same: "po_threads t i = po_threads s i" using step_ofD(1) [OF t] j(2) by auto
  have "pool_ok new want t" using t assms(1) pool_step_ok by (auto simp: step_of_def)
  moreover have "thread_rank (po_threads t i) \<noteq> 0" using assms(3) same by (auto simp: waits_def)
  ultimately have "(\<exists>u. step_of new want i t u) \<or> (\<exists>j. waits t i j)" using moves_or_waits assms(2) by blast
  with o show "po_owner t = None \<and> (\<exists>u. step_of new want i t u)" by (auto simp: waits_def)
qed

definition finished :: "'p params_new \<Rightarrow> u32 \<Rightarrow> 'p thread \<Rightarrow> bool" where
  "finished new cnt th \<longleftrightarrow> (\<exists>p. th = Done p \<and> derive_params new cnt = Ok p) \<or> th = Died \<and> derive_params new cnt = Panic"

lemma calls_finish:
  assumes "pool_ok new want s" "\<And>c e. derive_params new c \<noteq> Err e" "\<And>j. po_owner s = Some j \<Longrightarrow> j < n"
  shows "\<exists>t. (pool_step new want)\<^sup>*\<^sup>* s t \<and> (\<forall>i<n. finished new (want i) (po_threads t i))"
  using assms(1,3)
proof (induction "pool_rank n s" arbitrary: s rule: less_induct)
  case less
  show ?case
  proof (cases "\<forall>i<n. thread_rank (po_threads s i) = 0")
    case True
    have "finished new (want i) (po_threads s i)" if "i < n" for i
      using True that pool_okD(1) [OF less.prems(1) refl, of i] by (cases "po_threads s i") (auto simp: finished_def)
    then show ?thesis by blast
  next
    case False
    then obtain i where i: "i < n" "thread_rank (po_threads s i) \<noteq> 0" by blast
    have "\<exists>k t. k < n \<and> step_of new want k s t"
    proof (cases "\<exists>j. waits s i j")
      case True
      then obtain j where "po_owner s = Some j" by (auto simp: waits_def)
      then show ?thesis using less.prems(2) holder_moves(1) [OF less.prems(1)] by blast
    next
      case False
      then show ?thesis using moves_or_waits [OF less.prems(1) assms(2) i(2)] i(1) by blast
    qed
    then obtain k t where t: "k < n" "step_of new want k s t" by blast
    then have c: "call_step new want n s t" by (auto simp: call_step_def)
    have "pool_ok new want t" using t(2) less.prems(1) pool_step_ok by (auto simp: step_of_def)
    moreover have "j < n" if "po_owner t = Some j" for j
      using step_ofD(2) [OF t(2)] that t(1) less.prems(2) by auto
    ultimately obtain u where "(pool_step new want)\<^sup>*\<^sup>* t u" "\<forall>i<n. finished new (want i) (po_threads u i)"
      using less.hyps [OF call_step_rank [OF c]] by blast
    moreover have "pool_step new want s t" using t(2) by (simp add: step_of_def)
    ultimately show ?thesis by (meson converse_rtranclp_into_rtranclp)
  qed
qed

subsection \<open>Claims\<close>

text \<open>C18: memoization is invisible under every interleaving of concurrent calls, poisoning of the
  mutex included: whatever a finished call returned is what a fresh derivation of the same
  count gives, a call dies only where a fresh derivation panics, and the cache never holds
  more than 65 entries.\<close>

theorem params_cache_transparent:
  assumes "pool_reachable new want s"
  shows "(\<forall>i p. po_threads s i = Done p \<longrightarrow> derive_params new (want i) = Ok p)
     \<and> (\<forall>i. po_threads s i = Died \<longrightarrow> derive_params new (want i) = Panic)
     \<and> length (pc_entries (po_cache s)) \<le> 65"
proof -
  have "pool_ok new want s" using assms by (rule pool_reachable_ok)
  then show ?thesis
    using pool_okD(1) [of new want s] cache_ok_size by (fastforce simp: pool_ok_def)
qed

text \<open>The sequential function on a fresh cache reaches such a state; a second call is a hit.\<close>

definition sample_new :: "u32 params_new" where
  "sample_new label cnt = (if cnt = 0 then Panic else Ok (cnt + 1))"

theorem params_cache_transparent_witness:
  "\<exists>s. pool_reachable sample_new (\<lambda>_. 3) s \<and> po_threads s 0 = Done 4 \<and> po_threads s 1 = Start
     \<and> derive_params sample_new 3 = Ok 4 \<and> length (pc_entries (po_cache s)) \<le> 65"
proof -
  let ?c = "\<lparr>pc_entries = [(3, 4 :: u32)], pc_poisoned = False\<rparr>"
  let ?s = "pool_init\<lparr>po_cache := ?c, po_threads := (po_threads pool_init)(0 := Done (4 :: u32))\<rparr>"
  have "params_for sample_new 3 params_cache = (Ok 4, ?c)"
    by (simp add: params_for_def MAX_BBS_MESSAGES_def cache_get_def params_cache_def derive_params_def
        sample_new_def cache_insert_def)
  then have "(pool_step sample_new (\<lambda>_. 3))\<^sup>*\<^sup>* pool_init ?s"
    using params_for_run [of pool_init 0 sample_new "\<lambda>_. 3" 4 ?c] by (simp add: pool_init_def)
  then have reach: "pool_reachable sample_new (\<lambda>_. 3) ?s"
    using reachable_steps pool_reachable.init by blast
  have threads: "po_threads ?s 0 = Done 4" "po_threads ?s 1 = Start" by (simp_all add: pool_init_def)
  with params_cache_transparent [OF reach] have "derive_params sample_new 3 = Ok 4"
      "length (pc_entries (po_cache ?s)) \<le> 65" by blast+
  with reach threads show ?thesis by blast
qed

text \<open>C19: concurrent calls of \<open>params_for\<close> end, although they wait for one mutex. In every reachable
  state and under every schedule: of any \<open>n\<close> calls, whatever other calls and the environment do
  in between, at most \<open>5 n\<close> more steps are taken; at most one thread is inside a critical
  section; a call that has not returned or died can step, or waits for the mutex; where it
  waits, the holder of the mutex can step, every step of the holder gives the mutex up, and then the
  waiting call can step, so no set of calls blocks itself; and some continuation has all \<open>n\<close> calls
  returned, each with the freshly derived parameters of its count, or dead where that
  derivation panics. The derivation itself returns or panics.\<close>

theorem params_calls_terminate:
  assumes "pool_reachable new want s" "\<forall>c e. derive_params new c \<noteq> Err e"
  shows "(\<forall>k t. (((other_step new want n)\<^sup>*\<^sup>* OO call_step new want n) ^^ k) s t \<longrightarrow> k \<le> 5 * n)
     \<and> (\<forall>i j. holds_lock (po_threads s i) \<and> holds_lock (po_threads s j) \<longrightarrow> i = j)
     \<and> (\<forall>i. (\<exists>p. po_threads s i = Done p) \<or> po_threads s i = Died
            \<or> (\<exists>t. step_of new want i s t) \<or> (\<exists>j. waits s i j))
     \<and> (\<forall>i j. waits s i j \<longrightarrow> (\<exists>t. step_of new want j s t)
            \<and> (\<forall>t. step_of new want j s t \<longrightarrow> po_owner t = None \<and> (\<exists>u. step_of new want i t u)))
     \<and> (\<exists>t. (pool_step new want)\<^sup>*\<^sup>* s t \<and> (\<forall>i<n. finished new (want i) (po_threads t i)))"
proof (intro conjI)
  have ok: "pool_ok new want s" using assms(1) by (rule pool_reachable_ok)
  show "\<forall>k t. (((other_step new want n)\<^sup>*\<^sup>* OO call_step new want n) ^^ k) s t \<longrightarrow> k \<le> 5 * n"
    using runs_bounded [where s = s] pool_rank_bound [of n s] by (meson add_leD2 le_trans)
  show "\<forall>i j. holds_lock (po_threads s i) \<and> holds_lock (po_threads s j) \<longrightarrow> i = j"
    using pool_okD(2) [OF ok refl] by auto
  have "(\<exists>p. th = Done p) \<or> th = Died" if "thread_rank th = 0" for th :: "'a thread" using that by (cases th) auto
  then show "\<forall>i. (\<exists>p. po_threads s i = Done p) \<or> po_threads s i = Died
      \<or> (\<exists>t. step_of new want i s t) \<or> (\<exists>j. waits s i j)"
    using moves_or_waits [OF ok] assms(2) by blast
  show "\<forall>i j. waits s i j \<longrightarrow> (\<exists>t. step_of new want j s t)
      \<and> (\<forall>t. step_of new want j s t \<longrightarrow> po_owner t = None \<and> (\<exists>u. step_of new want i t u))"
    using wait_ends [OF ok] assms(2) by blast
  obtain m where m: "n \<le> m" "\<And>j. po_owner s = Some j \<Longrightarrow> j < m"
    using that [of "case po_owner s of None \<Rightarrow> n | Some j \<Rightarrow> max n (Suc j)"] by (cases "po_owner s") auto
  from calls_finish [OF ok _ m(2)] assms(2) m(1)
  show "\<exists>t. (pool_step new want)\<^sup>*\<^sup>* s t \<and> (\<forall>i<n. finished new (want i) (po_threads t i))"
    by (meson order_less_le_trans)
qed

text \<open>Three calls for two counts and an invalid one; thread 0 holds the mutex and thread 2 waits.\<close>

theorem params_calls_terminate_witness:
  "\<exists>s t. pool_reachable sample_new (\<lambda>i. [3, 70, 0] ! i) s \<and> waits s 2 0
     \<and> (\<exists>u. step_of sample_new (\<lambda>i. [3, 70, 0] ! i) 0 s u)
     \<and> (pool_step sample_new (\<lambda>i. [3, 70, 0] ! i))\<^sup>*\<^sup>* s t
     \<and> po_threads t 0 = Done 4 \<and> po_threads t 1 = Done 71 \<and> po_threads t 2 = Died"
proof -
  let ?w = "\<lambda>i. [3, 70, 0] ! i :: u32"
  let ?s = "pool_init\<lparr>po_owner := Some 0, po_threads := (po_threads pool_init)(0 := Looking)\<rparr> :: u32 pool"
  have d: "\<forall>c e. derive_params sample_new c \<noteq> Err e" by (simp add: derive_params_def sample_new_def)
  have s: "pool_reachable sample_new ?w ?s"
    by (rule pool_reachable.step [OF pool_reachable.init], rule pool_step.lock_look)
      (simp_all add: pool_init_def MAX_BBS_MESSAGES_def)
  have w: "waits ?s 2 0" by (simp add: waits_def pool_init_def)
  from params_calls_terminate [OF s d, of 3] w obtain t where
    t: "(pool_step sample_new ?w)\<^sup>*\<^sup>* ?s t" "\<forall>i<3. finished sample_new (?w i) (po_threads t i)"
      "\<exists>u. step_of sample_new ?w 0 ?s u" by blast
  have "po_threads t 0 = Done 4 \<and> po_threads t 1 = Done 71 \<and> po_threads t 2 = Died"
    using t(2) [rule_format, of 0] t(2) [rule_format, of 1] t(2) [rule_format, of 2]
    by (auto simp: finished_def derive_params_def sample_new_def)
  with s w t(1,3) show ?thesis by blast
qed

end
