(* ===== verification/Phi_Bbs2023.thy ===== *)
theory Phi_Bbs2023
  imports Phi_Bbs_Correct
begin

section \<open>The bbs-2023 suite (bbs_2023.rs)\<close>

text \<open>
  The IRTF ciphersuite behind the same suite interface. \<open>pairing_crypto\<close> is the record
  \<open>irtf_backend\<close>; an absent optional argument is \<open>None\<close>, as the request structs have it. The
  suite packs the issuer's public key in front of the signature, and its \<open>derive_proof\<close> is a
  second instance of the suite interface.
\<close>

definition SECRET_KEY_LEN :: nat where "SECRET_KEY_LEN = 32"
definition PUBLIC_KEY_LEN :: nat where "PUBLIC_KEY_LEN = 96"
definition SIGNATURE_LEN :: nat where "SIGNATURE_LEN = 80"

record ('r, 'sk, 'pk) irtf_backend =
  ib_fill_bytes :: "'r \<Rightarrow> bytes \<times> 'r"
  ib_keypair_new :: "bytes \<Rightarrow> bytes \<Rightarrow> ('sk \<times> 'pk) option"
  ib_sk_to_bytes :: "'sk \<Rightarrow> bytes"
  ib_sk_from_vec :: "bytes \<Rightarrow> 'sk option"
  ib_pk_from :: "'sk \<Rightarrow> 'pk"
  ib_pk_to_octets :: "'pk \<Rightarrow> bytes"
  ib_sign :: "bytes \<Rightarrow> bytes \<Rightarrow> bytes option \<Rightarrow> bytes list option \<Rightarrow> bytes option"
  ib_verify :: "bytes \<Rightarrow> bytes option \<Rightarrow> bytes list option \<Rightarrow> bytes \<Rightarrow> bool option"
  ib_proof_gen :: "'r \<Rightarrow> bytes \<Rightarrow> bytes option \<Rightarrow> (bool \<times> bytes) list option \<Rightarrow> bytes \<Rightarrow> bytes option \<Rightarrow>
     bool option \<Rightarrow> bytes option \<times> 'r"
  ib_proof_verify :: "bytes \<Rightarrow> bytes option \<Rightarrow> bytes option \<Rightarrow> bytes \<Rightarrow> (nat \<times> bytes) list option \<Rightarrow> bool option"

subsection \<open>Operations\<close>

definition opt :: "bytes \<Rightarrow> bytes option" where
  "opt b = (if b = [] then None else Some b)"

definition public_from_secret ::
    "('r, 'sk, 'pk) irtf_backend \<Rightarrow> bytes \<Rightarrow> (bytes, crypto_error) result" where
  "public_from_secret I secret_key =
     (let sk_bytes = \<lparr>held = secret_key\<rparr> in
      bind_r (ok_or InvalidKey (ib_sk_from_vec I (held sk_bytes))) (\<lambda>sk.
      Ok (ib_pk_to_octets I (ib_pk_from I sk))))"

definition b23_generate_keypair :: "('r, 'sk, 'pk) irtf_backend \<Rightarrow> ('r, BbsKeyPair) st" where
  "b23_generate_keypair I rng =
     (let (ikm, rng) = ib_fill_bytes I rng in
      (bind_r (ok_or (Backend ''bbs2023 keygen'') (ib_keypair_new I ikm [])) (\<lambda>(secret_key, public_key).
       let sk = ib_sk_to_bytes I secret_key;
           public = ib_pk_to_octets I public_key;
           secret = \<lparr>held = sk\<rparr> in
       Ok \<lparr>bkp_secret = secret, bkp_public = public\<rparr>), rng))"

definition b23_sign ::
    "('r, 'sk, 'pk) irtf_backend \<Rightarrow> bytes \<Rightarrow> bytes \<Rightarrow> bytes \<Rightarrow> bytes list \<Rightarrow> (bytes, crypto_error) result" where
  "b23_sign I secret_key public_key header messages =
     bind_r (ok_or InvalidKey (try_into_array SECRET_KEY_LEN secret_key)) (\<lambda>sk.
     bind_r (ok_or InvalidKey (try_into_array PUBLIC_KEY_LEN public_key)) (\<lambda>pk.
     ok_or (Backend ''bbs2023 sign'') (ib_sign I sk pk (opt header) (Some messages))))"

definition b23_verify ::
    "('r, 'sk, 'pk) irtf_backend \<Rightarrow> bytes \<Rightarrow> bytes \<Rightarrow> bytes list \<Rightarrow> bytes \<Rightarrow> bool" where
  "b23_verify I public_key header messages signature =
     (case (try_into_array PUBLIC_KEY_LEN public_key, try_into_array SIGNATURE_LEN signature) of
        (Some pk, Some sig) \<Rightarrow>
          (case ib_verify I pk (opt header) (Some messages) sig of Some b \<Rightarrow> b | None \<Rightarrow> False)
      | _ \<Rightarrow> False)"

definition b23_proof_gen ::
    "('r, 'sk, 'pk) irtf_backend \<Rightarrow> bytes \<Rightarrow> bytes \<Rightarrow> bytes \<Rightarrow> bytes \<Rightarrow> bytes list \<Rightarrow> nat list \<Rightarrow>
     ('r, bytes) st" where
  "b23_proof_gen I public_key signature header presentation_header messages reveal =
     bind_s (lift_s (ok_or InvalidKey (try_into_array PUBLIC_KEY_LEN public_key))) (\<lambda>pk.
     bind_s (lift_s (ok_or InvalidSignature (try_into_array SIGNATURE_LEN signature))) (\<lambda>sig.
     let reveal_set = btree_set reveal in
     if list_ex (\<lambda>i. i \<ge> length messages) reveal_set
     then lift_s (Err (InvalidInput ''reveal index out of range''))
     else
       let proof_messages = map (\<lambda>(i, m). (i \<in> set reveal_set, m)) (enumerate 0 messages) in
       (\<lambda>rng. case ib_proof_gen I rng pk (opt header) (Some proof_messages) sig
                     (opt presentation_header) (Some True) of
          (r, rng') \<Rightarrow> (ok_or (Backend ''bbs2023 proof_gen'') r, rng'))))"

definition b23_proof_verify ::
    "('r, 'sk, 'pk) irtf_backend \<Rightarrow> bytes \<Rightarrow> bytes \<Rightarrow> bytes \<Rightarrow> bytes \<Rightarrow> (nat \<times> bytes) list \<Rightarrow> bool" where
  "b23_proof_verify I public_key header presentation_header proof revealed =
     (case try_into_array PUBLIC_KEY_LEN public_key of
        None \<Rightarrow> False
      | Some pk \<Rightarrow>
          (case ib_proof_verify I pk (opt header) (opt presentation_header) proof
                  (if revealed = [] then None else Some revealed) of
             Some b \<Rightarrow> b | None \<Rightarrow> False))"

subsection \<open>The suite\<close>

definition b23_suite_generate_keypair :: "('r, 'sk, 'pk) irtf_backend \<Rightarrow> u32 \<Rightarrow> ('r, BbsKeyPair) st" where
  "b23_suite_generate_keypair I message_count = b23_generate_keypair I"

definition b23_sign_credential ::
    "('r, 'sk, 'pk) irtf_backend \<Rightarrow> bytes list \<Rightarrow> bytes \<Rightarrow> (bytes, crypto_error) result" where
  "b23_sign_credential I claims secret =
     (if claims = [] then Err (InvalidInput ''no claims'')
      else
        bind_r (public_from_secret I secret) (\<lambda>public.
        bind_r (b23_sign I secret public [] claims) (\<lambda>signature.
        let out = [] @ public;
            out = out @ signature in
        Ok out)))"

definition b23_derive_proof ::
    "('r, 'sk, 'pk) irtf_backend \<Rightarrow> bytes list \<Rightarrow> bytes \<Rightarrow> nat list \<Rightarrow> bytes \<Rightarrow> ('r, SelectiveProof) st" where
  "b23_derive_proof I claims signature reveal nonce =
     (if length signature \<noteq> PUBLIC_KEY_LEN + SIGNATURE_LEN then lift_s (Err InvalidSignature)
      else
        let public = take PUBLIC_KEY_LEN signature;
            sig = drop PUBLIC_KEY_LEN signature in
        bind_s (b23_proof_gen I public sig [] nonce claims reveal) (\<lambda>proof.
        let reveal_set = btree_set reveal in
        bind_s (lift_s (collect_claims claims reveal_set)) (\<lambda>revealed.
        lift_s (Ok \<lparr>sp_message_count = word_of_nat (length claims), sp_proof = proof,
                    sp_revealed = revealed\<rparr>))))"

definition b23_verify_proof ::
    "('r, 'sk, 'pk) irtf_backend \<Rightarrow> SelectiveProof \<Rightarrow> bytes \<Rightarrow> bytes \<Rightarrow> bool" where
  "b23_verify_proof I proof public nonce =
     (let revealed = map (\<lambda>(i, v). (unat i, v)) (sp_revealed proof) in
      b23_proof_verify I public [] nonce (sp_proof proof) revealed)"

subsection \<open>The suite interface\<close>

lemma b23_proof_gen_Ok:
  assumes "b23_proof_gen I pk sig h ph messages reveal rng = (Ok p, rng')"
  shows "\<forall>i \<in> set reveal. i < length messages"
  using assms by (auto simp: b23_proof_gen_def bind_s_Ok_iff Let_def list_ex_iff not_le split: if_splits)

lemma b23_derive_shape:
  assumes "b23_derive_proof I claims sig reveal nonce s = (Ok p, s')"
  shows "(\<forall>i \<in> set reveal. i < length claims) \<and> sp_revealed p = disclosed claims reveal
     \<and> sp_message_count p = word_of_nat (length claims)"
proof -
  have range: "\<forall>i \<in> set reveal. i < length claims"
    using assms b23_proof_gen_Ok
    by (fastforce simp: b23_derive_proof_def bind_s_Ok_iff Let_def split: if_splits)
  with assms show ?thesis
    by (auto simp: b23_derive_proof_def bind_s_Ok_iff Let_def collect_claims_disclosed split: if_splits)
qed

lemma b23_proof_gen_no_panic: "no_panic (fst (b23_proof_gen I pk sig h ph messages reveal s))"
  unfolding b23_proof_gen_def Let_def
  by (auto intro!: bind_s_no_panic split: prod.split)

lemma b23_derive_no_panic: "no_panic (fst (b23_derive_proof I claims sig reveal nonce s))"
  unfolding b23_derive_proof_def Let_def
  by (auto intro!: bind_s_no_panic b23_proof_gen_no_panic dest!: b23_proof_gen_Ok
      simp: collect_claims_disclosed)

interpretation irtf: crypto_suite "b23_derive_proof I" "\<lambda>_. True" for I
  by unfold_locales (rule b23_derive_shape, assumption, rule b23_derive_no_panic, rule TrueI)

subsection \<open>The documented behaviour of the ciphersuite\<close>

text \<open>
  Keys made from 32 bytes of key material are read back and have the documented lengths;
  signing with such a key succeeds with an 80-byte signature that verifies; proof generation
  from such a signature succeeds, and the proof verifies against the revealed messages at
  their indices.
\<close>

definition revealed_pairs :: "(bool \<times> bytes) list \<Rightarrow> (nat \<times> bytes) list" where
  "revealed_pairs ms = map (\<lambda>(i, r, v). (i, v)) (filter (\<lambda>(i, r, v). r) (enumerate 0 ms))"

definition opt_list :: "'a list \<Rightarrow> 'a list option" where
  "opt_list xs = (if xs = [] then None else Some xs)"

definition irtf_key :: "('r, 'sk, 'pk) irtf_backend \<Rightarrow> bytes \<Rightarrow> bytes \<Rightarrow> bool" where
  "irtf_key I sk pk \<longleftrightarrow> (\<exists>ikm secret public. length ikm = 32 \<and> ib_keypair_new I ikm [] = Some (secret, public)
     \<and> sk = ib_sk_to_bytes I secret \<and> pk = ib_pk_to_octets I public)"

definition irtf_law :: "('r, 'sk, 'pk) irtf_backend \<Rightarrow> bool" where
  "irtf_law I \<longleftrightarrow>
     (\<forall>r. length (fst (ib_fill_bytes I r)) = 32)
   \<and> (\<forall>ikm. length ikm = 32 \<longrightarrow> (\<exists>secret public. ib_keypair_new I ikm [] = Some (secret, public)
        \<and> length (ib_sk_to_bytes I secret) = 32 \<and> length (ib_pk_to_octets I public) = 96
        \<and> ib_sk_from_vec I (ib_sk_to_bytes I secret) = Some secret \<and> ib_pk_from I secret = public))
   \<and> (\<forall>sk pk header messages. irtf_key I sk pk \<longrightarrow> messages \<noteq> [] \<longrightarrow>
        (\<exists>sig. ib_sign I sk pk header (Some messages) = Some sig \<and> length sig = 80
           \<and> ib_verify I pk header (Some messages) sig = Some True))
   \<and> (\<forall>sk pk header messages sig rng ms ph. irtf_key I sk pk \<longrightarrow> messages \<noteq> [] \<longrightarrow>
        ib_sign I sk pk header (Some messages) = Some sig \<longrightarrow> map snd ms = messages \<longrightarrow>
        (\<exists>proof rng'. ib_proof_gen I rng pk header (Some ms) sig ph (Some True) = (Some proof, rng')
           \<and> ib_proof_verify I pk header ph proof (opt_list (revealed_pairs ms)) = Some True))"

lemma irtf_generate:
  assumes "irtf_law I"
  shows "\<exists>kp rng'. b23_generate_keypair I rng = (Ok kp, rng')
     \<and> irtf_key I (held (bkp_secret kp)) (bkp_public kp)
     \<and> length (held (bkp_secret kp)) = 32 \<and> length (bkp_public kp) = 96
     \<and> public_from_secret I (held (bkp_secret kp)) = Ok (bkp_public kp)"
proof -
  obtain ikm rng' where r: "ib_fill_bytes I rng = (ikm, rng')" by force
  have "\<forall>r. length (fst (ib_fill_bytes I r)) = 32" using assms unfolding irtf_law_def by blast
  then have ikm: "length ikm = 32" using r by (metis fst_conv)
  moreover have "\<forall>ikm. length ikm = 32 \<longrightarrow> (\<exists>secret public. ib_keypair_new I ikm [] = Some (secret, public)
        \<and> length (ib_sk_to_bytes I secret) = 32 \<and> length (ib_pk_to_octets I public) = 96
        \<and> ib_sk_from_vec I (ib_sk_to_bytes I secret) = Some secret \<and> ib_pk_from I secret = public)"
    using assms unfolding irtf_law_def by blast
  ultimately obtain secret public where k: "ib_keypair_new I ikm [] = Some (secret, public)"
      "length (ib_sk_to_bytes I secret) = 32" "length (ib_pk_to_octets I public) = 96"
      "ib_sk_from_vec I (ib_sk_to_bytes I secret) = Some secret" "ib_pk_from I secret = public" by blast
  moreover have "irtf_key I (ib_sk_to_bytes I secret) (ib_pk_to_octets I public)"
    unfolding irtf_key_def using ikm k(1) by blast
  ultimately show ?thesis
    using r by (simp add: b23_generate_keypair_def public_from_secret_def)
qed

lemma irtf_sign:
  assumes "irtf_law I" "irtf_key I sk pk" "length sk = 32" "length pk = 96" "claims \<noteq> []"
    and "public_from_secret I sk = Ok pk"
  shows "\<exists>sig. b23_sign_credential I claims sk = Ok (pk @ sig) \<and> length sig = 80
     \<and> ib_sign I sk pk None (Some claims) = Some sig"
proof -
  have "\<forall>sk pk header messages. irtf_key I sk pk \<longrightarrow> messages \<noteq> [] \<longrightarrow>
        (\<exists>sig. ib_sign I sk pk header (Some messages) = Some sig \<and> length sig = 80
           \<and> ib_verify I pk header (Some messages) sig = Some True)"
    using assms(1) unfolding irtf_law_def by blast
  then obtain sig where "ib_sign I sk pk None (Some claims) = Some sig" "length sig = 80"
    using assms(2,5) by blast
  then show ?thesis
    using assms(3-6) by (simp add: b23_sign_credential_def b23_sign_def opt_def try_into_array_def
        SECRET_KEY_LEN_def PUBLIC_KEY_LEN_def)
qed

lemma revealed_pairs_disclosed:
  assumes "\<forall>i \<in> set reveal. i < length claims" "length claims \<le> 2 ^ 32"
  shows "revealed_pairs (map (\<lambda>(i, m). (i \<in> set (btree_set reveal), m)) (enumerate 0 claims))
     = map (\<lambda>(i, v). (unat i, v)) (disclosed claims reveal)"
proof -
  let ?n = "length claims"
  let ?ms = "map (\<lambda>(i, m). (i \<in> set (btree_set reveal), m)) (enumerate 0 claims)"
  have "enumerate 0 ?ms = map (\<lambda>i. (i, i \<in> set reveal, claims ! i)) [0..<?n]"
    by (rule nth_equalityI) (simp_all add: nth_enumerate_eq)
  then have "revealed_pairs ?ms = map (\<lambda>i. (i, claims ! i)) (filter (\<lambda>i. i \<in> set reveal) [0..<?n])"
    by (simp add: revealed_pairs_def filter_map comp_def)
  also have "\<dots> = map (\<lambda>i. (i, claims ! i)) (btree_set reveal)"
    by (simp only: btree_set_filter [OF assms(1)])
  also have "\<dots> = map (\<lambda>(i, v). (unat i, v)) (disclosed claims reveal)"
    using disclosed_index [OF assms] by (simp add: disclosed_def)
  finally show ?thesis .
qed

lemma irtf_derive_verify:
  assumes "irtf_law I" "irtf_key I sk pk" "length pk = 96" "length sig = 80" "claims \<noteq> []"
    and "ib_sign I sk pk None (Some claims) = Some sig"
    and "\<forall>i \<in> set reveal. i < length claims" "length claims \<le> 2 ^ 32"
  shows "\<exists>p rng'. b23_derive_proof I claims (pk @ sig) reveal nonce rng = (Ok p, rng')
     \<and> b23_verify_proof I p pk nonce"
proof -
  let ?ms = "map (\<lambda>(i, m). (i \<in> set (btree_set reveal), m)) (enumerate 0 claims)"
  have snd: "map snd ?ms = claims" by (rule nth_equalityI) (simp_all add: nth_enumerate_eq)
  have "\<forall>sk pk header messages sig rng ms ph. irtf_key I sk pk \<longrightarrow> messages \<noteq> [] \<longrightarrow>
        ib_sign I sk pk header (Some messages) = Some sig \<longrightarrow> map snd ms = messages \<longrightarrow>
        (\<exists>proof rng'. ib_proof_gen I rng pk header (Some ms) sig ph (Some True) = (Some proof, rng')
           \<and> ib_proof_verify I pk header ph proof (opt_list (revealed_pairs ms)) = Some True)"
    using assms(1) unfolding irtf_law_def by blast
  then obtain pf rng' where pf: "ib_proof_gen I rng pk None (Some ?ms) sig (opt nonce) (Some True) = (Some pf, rng')"
      "ib_proof_verify I pk None (opt nonce) pf (opt_list (revealed_pairs ?ms)) = Some True"
    using assms(2,5,6) snd by blast
  let ?p = "\<lparr>sp_message_count = word_of_nat (length claims), sp_proof = pf, sp_revealed = disclosed claims reveal\<rparr>"
  have "b23_derive_proof I claims (pk @ sig) reveal nonce rng = (Ok ?p, rng')"
    using assms(3,4,7) pf(1)
    by (simp add: b23_derive_proof_def b23_proof_gen_def PUBLIC_KEY_LEN_def SIGNATURE_LEN_def bind_s_def
        Let_def list_ex_iff not_le opt_def try_into_array_def collect_claims_disclosed)
  moreover have "b23_verify_proof I ?p pk nonce"
    using assms(3) pf(2) [unfolded revealed_pairs_disclosed [OF assms(7,8)] opt_list_def]
    by (simp add: b23_verify_proof_def b23_proof_verify_def opt_def [of "[]"] PUBLIC_KEY_LEN_def
        try_into_array_def)
  ultimately show ?thesis by blast
qed

subsection \<open>A ciphersuite that evaluates\<close>

definition irtf_sum :: "bytes list \<Rightarrow> byte" where
  "irtf_sum ms = sum_list (map sum_list ms)"

definition sample_irtf :: "(byte, byte, byte) irtf_backend" where
  "sample_irtf =
    \<lparr>ib_fill_bytes = (\<lambda>r. (replicate 32 r, r + 1)),
     ib_keypair_new = (\<lambda>ikm info. Some (sum_list ikm, sum_list ikm)),
     ib_sk_to_bytes = (\<lambda>sk. sk # replicate 31 0),
     ib_sk_from_vec = (\<lambda>b. case b of x # r \<Rightarrow> (if r = replicate 31 0 then Some x else None) | [] \<Rightarrow> None),
     ib_pk_from = (\<lambda>sk. sk),
     ib_pk_to_octets = (\<lambda>pk. pk # replicate 95 0),
     ib_sign = (\<lambda>sk pk h ms. case ms of Some l \<Rightarrow> Some ((hd sk + irtf_sum l) # replicate 79 0) | None \<Rightarrow> None),
     ib_verify = (\<lambda>pk h ms sig. case ms of Some l \<Rightarrow> Some (hd sig = hd pk + irtf_sum l) | None \<Rightarrow> Some False),
     ib_proof_gen = (\<lambda>rng pk h ms sig ph vs. (case ms of
        Some l \<Rightarrow> Some [hd sig, irtf_sum (map snd (filter (\<lambda>m. \<not> fst m) l))] | None \<Rightarrow> None, rng + 1)),
     ib_proof_verify = (\<lambda>pk h ph proof revealed. case proof of
        [x, hidden] \<Rightarrow> Some (x = hd pk + hidden + irtf_sum (case revealed of Some l \<Rightarrow> map snd l | None \<Rightarrow> []))
      | _ \<Rightarrow> None)\<rparr>"

lemma sum_revealed_pairs:
  "irtf_sum (map snd (filter (\<lambda>m. \<not> fst m) ms))
     + irtf_sum (map (\<lambda>(i, r, v). v) (filter (\<lambda>(i, r, v). r) (enumerate n ms))) = irtf_sum (map snd ms)"
  by (induction ms arbitrary: n) (auto simp: irtf_sum_def algebra_simps)

lemma sample_irtf_law: "irtf_law sample_irtf"
proof -
  have s: "map snd (revealed_pairs ms) = map (\<lambda>(i, r, v). v) (filter (\<lambda>(i, r, v). r) (enumerate 0 ms))" for ms
    by (simp add: revealed_pairs_def comp_def case_prod_unfold)
  have t: "irtf_sum (case opt_list (revealed_pairs ms) of Some l \<Rightarrow> map snd l | None \<Rightarrow> [])
      = irtf_sum (map snd (revealed_pairs ms))" for ms
    by (simp add: opt_list_def irtf_sum_def)
  show ?thesis
    unfolding irtf_law_def
    by (auto simp: sample_irtf_def irtf_key_def t s add.assoc sum_revealed_pairs [of _ 0])
qed

subsection \<open>Claims\<close>

text \<open>C38: in the bbs-2023 suite, key generation, signing, proof derivation and verification compose for
  every non-empty list of claims and every request of valid indices, and the derived proof
  discloses exactly the requested claims.\<close>

theorem b23_roundtrip:
  assumes "irtf_law I" "claims \<noteq> []" "length claims \<le> 2 ^ 32" "\<forall>i \<in> set reveal. i < length claims"
  shows "\<exists>kp r1 sig p r3. b23_suite_generate_keypair I message_count r0 = (Ok kp, r1)
     \<and> b23_sign_credential I claims (held (bkp_secret kp)) = Ok sig
     \<and> b23_derive_proof I claims sig reveal nonce r2 = (Ok p, r3)
     \<and> b23_verify_proof I p (bkp_public kp) nonce
     \<and> (\<lambda>(i, v). (unat i, v)) ` set (sp_revealed p) = (\<lambda>i. (i, claims ! i)) ` set reveal"
proof -
  obtain kp r1 where k: "b23_generate_keypair I r0 = (Ok kp, r1)"
      "irtf_key I (held (bkp_secret kp)) (bkp_public kp)"
      "length (held (bkp_secret kp)) = 32" "length (bkp_public kp) = 96"
      "public_from_secret I (held (bkp_secret kp)) = Ok (bkp_public kp)"
    using irtf_generate [OF assms(1)] by blast
  obtain sig where s: "b23_sign_credential I claims (held (bkp_secret kp)) = Ok (bkp_public kp @ sig)"
      "length sig = 80" "ib_sign I (held (bkp_secret kp)) (bkp_public kp) None (Some claims) = Some sig"
    using irtf_sign [OF assms(1) k(2,3,4) assms(2) k(5)] by blast
  obtain p r3 where d: "b23_derive_proof I claims (bkp_public kp @ sig) reveal nonce r2 = (Ok p, r3)"
      "b23_verify_proof I p (bkp_public kp) nonce"
    using irtf_derive_verify [OF assms(1) k(2,4) s(2) assms(2) s(3) assms(4,3)] by blast
  from irtf.discloses_exactly [OF d(1) assms(3)] k(1) s(1) d show ?thesis
    by (auto simp: b23_suite_generate_keypair_def)
qed

theorem b23_roundtrip_witness:
  "\<exists>kp r1 sig p r3. b23_suite_generate_keypair sample_irtf 2 7 = (Ok kp, r1)
     \<and> b23_sign_credential sample_irtf [[1], [2, 3]] (held (bkp_secret kp)) = Ok sig
     \<and> b23_derive_proof sample_irtf [[1], [2, 3]] sig [1] [9] 5 = (Ok p, r3)
     \<and> b23_verify_proof sample_irtf p (bkp_public kp) [9]
     \<and> (\<lambda>(i, v). (unat i, v)) ` set (sp_revealed p) = (\<lambda>i. (i, [[1], [2, 3]] ! i)) ` set [1]"
  by (rule b23_roundtrip [OF sample_irtf_law]) simp_all

text \<open>C39: the bound of the wire format is not enforced by this suite: a proof it derives for more than
  64 claims is encoded by \<open>to_bytes\<close>, and \<open>from_bytes\<close> refuses those bytes, whereas within the
  bound a derived proof always survives the trip.\<close>

theorem b23_wire_bound:
  assumes "b23_derive_proof I claims sig reveal nonce r = (Ok p, r')" "length claims < 2 ^ 32"
    and "claims \<noteq> []" "fits32 (sp_proof p)" "\<forall>c \<in> set claims. fits32 c" "fits64 (sp_to_bytes p)"
  shows "sp_from_bytes (sp_to_bytes p) =
     (if length claims \<le> 64 then Ok p else Err (InvalidInput ''message_count out of range''))"
proof (cases "length claims \<le> 64")
  case True
  then show ?thesis using irtf.crosses_wire [OF assms(1,3) _ assms(4,5)] by simp
next
  case False
  let ?b = "sp_to_bytes p"
  have mc: "unat (sp_message_count p) = length claims"
    using b23_derive_shape [OF assms(1)] assms(2) by simp
  then have big: "sp_message_count p > MAX_BBS_MESSAGES" using False by (simp add: word_less_nat_alt)
  have on: "rd_on ?b \<lparr>rd_b = ?b, rd_pos = 0\<rparr>" using assms(6) by (rule rd_on_start)
  have "rd_rest \<lparr>rd_b = ?b, rd_pos = 0\<rparr> = u32_to_be_bytes (sp_message_count p) @ lp32 (sp_proof p)
      @ u32_to_be_bytes (word_of_nat (length (sp_revealed p))) @ entries_bytes (sp_revealed p)"
    by (simp add: sp_to_bytes_eq)
  from rd.ru_complete [OF on this] obtain r1 where
    "reader_u32 \<lparr>rd_b = ?b, rd_pos = 0\<rparr> = Ok (sp_message_count p, r1)" by blast
  then show ?thesis using big False by (simp add: sp_from_bytes_def)
qed

theorem b23_wire_bound_witness:
  "\<exists>p r'. b23_derive_proof sample_irtf (replicate 65 [1]) (replicate 176 0) [] [9] 5 = (Ok p, r')
     \<and> sp_from_bytes (sp_to_bytes p) = Err (InvalidInput ''message_count out of range'')"
proof -
  let ?c = "replicate 65 [1 :: byte]"
  have b: "btree_set [] = []" by (simp add: btree_set_def)
  obtain p r' where p: "b23_derive_proof sample_irtf ?c (replicate 176 0) [] [9] 5 = (Ok p, r')"
      "length (sp_proof p) = 2" "sp_revealed p = []"
    by (simp add: b23_derive_proof_def b23_proof_gen_def PUBLIC_KEY_LEN_def SIGNATURE_LEN_def bind_s_def
        Let_def b try_into_array_def sample_irtf_def)
  have f: "fits32 (sp_proof p)" "fits64 (sp_to_bytes p)"
    using p(2,3) by (simp_all add: fits32_def fits64_def sp_to_bytes_def)
  have "sp_from_bytes (sp_to_bytes p) =
      (if length ?c \<le> 64 then Ok p else Err (InvalidInput ''message_count out of range''))"
    by (rule b23_wire_bound [OF p(1)]) (use f in \<open>simp_all add: fits32_def\<close>)
  with p(1) show ?thesis by simp
qed

end
