(* ===== verification/Phi_Cryptosuite.thy ===== *)
theory Phi_Cryptosuite
  imports Phi_Bbs_Correct Phi_Bbs2023
begin

section \<open>The CryptoSuite trait and the default suite (bbs.rs, bbs\_2023.rs)\<close>

text \<open>
  The trait as the record of its operations over the state they thread, its two
  implementations, and the module-level functions of \<open>bbs.rs\<close>, which are the operations of the
  default implementation.
\<close>

record 's CryptoSuite =
  cs_generate_keypair :: "u32 \<Rightarrow> ('s, BbsKeyPair) st"
  cs_sign_credential :: "bytes list \<Rightarrow> bytes \<Rightarrow> ('s, bytes) st"
  cs_derive_proof :: "bytes list \<Rightarrow> bytes \<Rightarrow> nat list \<Rightarrow> bytes \<Rightarrow> ('s, SelectiveProof) st"
  cs_verify_proof :: "SelectiveProof \<Rightarrow> bytes \<Rightarrow> bytes \<Rightarrow> ('s, bool) st"

definition DocknetBbsPlus ::
    "('p, 'r, 'f, 'sk, 'pk, 'sg, 'pok, 'pf) bbs_backend \<Rightarrow> ('p, 'r) suite_state CryptoSuite" where
  "DocknetBbsPlus B =
     \<lparr>cs_generate_keypair = bbs_generate_keypair B, cs_sign_credential = bbs_sign_credential B,
      cs_derive_proof = bbs_derive_proof B, cs_verify_proof = bbs_verify_proof B\<rparr>"

definition Bbs2023Sha256 :: "('r, 'sk, 'pk) irtf_backend \<Rightarrow> 'r CryptoSuite" where
  "Bbs2023Sha256 I =
     \<lparr>cs_generate_keypair = b23_suite_generate_keypair I,
      cs_sign_credential = (\<lambda>claims secret. lift_s (b23_sign_credential I claims secret)),
      cs_derive_proof = b23_derive_proof I,
      cs_verify_proof = (\<lambda>proof public nonce. lift_s (Ok (b23_verify_proof I proof public nonce)))\<rparr>"

definition default_generate_keypair ::
    "('p, 'r, 'f, 'sk, 'pk, 'sg, 'pok, 'pf) bbs_backend \<Rightarrow> u32 \<Rightarrow> (('p, 'r) suite_state, BbsKeyPair) st" where
  "default_generate_keypair B message_count = cs_generate_keypair (DocknetBbsPlus B) message_count"

definition default_sign_credential ::
    "('p, 'r, 'f, 'sk, 'pk, 'sg, 'pok, 'pf) bbs_backend \<Rightarrow> bytes list \<Rightarrow> bytes \<Rightarrow>
     (('p, 'r) suite_state, bytes) st" where
  "default_sign_credential B claims secret = cs_sign_credential (DocknetBbsPlus B) claims secret"

definition default_derive_proof ::
    "('p, 'r, 'f, 'sk, 'pk, 'sg, 'pok, 'pf) bbs_backend \<Rightarrow> bytes list \<Rightarrow> bytes \<Rightarrow> nat list \<Rightarrow> bytes \<Rightarrow>
     (('p, 'r) suite_state, SelectiveProof) st" where
  "default_derive_proof B claims signature reveal nonce =
     cs_derive_proof (DocknetBbsPlus B) claims signature reveal nonce"

definition default_verify_proof ::
    "('p, 'r, 'f, 'sk, 'pk, 'sg, 'pok, 'pf) bbs_backend \<Rightarrow> SelectiveProof \<Rightarrow> bytes \<Rightarrow> bytes \<Rightarrow>
     (('p, 'r) suite_state, bool) st" where
  "default_verify_proof B proof public nonce = cs_verify_proof (DocknetBbsPlus B) proof public nonce"

lemma default_suite [simp]:
  "default_generate_keypair B = bbs_generate_keypair B"
  "default_sign_credential B = bbs_sign_credential B"
  "default_derive_proof B = bbs_derive_proof B"
  "default_verify_proof B = bbs_verify_proof B"
  by (simp_all add: fun_eq_iff default_generate_keypair_def default_sign_credential_def
      default_derive_proof_def default_verify_proof_def DocknetBbsPlus_def)

end
