(* ===== verification/Phi_Text.thy ===== *)
theory Phi_Text
  imports Phi_Framing
begin

section \<open>Hexadecimal text and constant-time comparison (vendored hex, subtle)\<close>

text \<open>
  Two small crates the modules call on byte strings: the lower-case hex iterator behind
  \<open>hex::encode\<close>, modelled with its pending half-byte, and \<open>subtle\<close>'s comparison of byte slices,
  modelled with its 8-bit arithmetic. The iterator is shown equal to the digit-by-digit text
  and injective; the comparison is shown to decide equality, returning 1 or 0.
  A Rust \<open>str\<close> is the list of its UTF-8 bytes, so \<open>as_bytes\<close> is the identity.
\<close>

subsection \<open>Words\<close>

lemma unat_shift: "unat (drop_bit n (w :: 'a::len word)) = unat w div 2 ^ n"
  by (simp add: unat_drop_bit_eq flip: drop_bit_eq_div)

lemma unat_low_bits: "unat (w AND mask n) = unat (w :: 'a::len word) mod 2 ^ n"
proof -
  have "unat (take_bit n w) = take_bit n (unat w)" by (rule unsigned_take_bit_eq)
  then show ?thesis by (simp only: take_bit_eq_mask [symmetric] take_bit_eq_mod [of n "unat w"])
qed

lemma byte_high_bit: "bit (w :: byte) 7 \<longleftrightarrow> 128 \<le> unat w"
proof -
  have "bit w 7 \<longleftrightarrow> bit (unat w) 7" by (simp add: bit_unsigned_iff)
  also have "\<dots> \<longleftrightarrow> odd (unat w div 2 ^ 7)" by (simp only: bit_iff_odd)
  also have "\<dots> \<longleftrightarrow> 128 \<le> unat w"
  proof (cases "128 \<le> unat w")
    case True
    then have "unat w div 128 = 1" using unat_byte_lt [of w] by (simp add: div_nat_eqI)
    with True show ?thesis by simp
  qed simp
  finally show ?thesis .
qed

lemma byte_neg_sum:
  assumes "x \<noteq> 0"
  shows "unat x + unat (- x :: byte) = 256"
proof -
  have "(word_of_nat (unat x + unat (- x)) :: byte) = 0" by simp
  then have "(unat x + unat (- x)) mod 256 = 0" by (metis unat_byte_of_nat unat_0)
  moreover have "0 < unat x" using assms by (simp add: unat_gt_0)
  ultimately show ?thesis
    using unat_byte_lt [of x] unat_byte_lt [of "- x"]
    by (auto simp: mod_eq_0_iff_dvd elim!: dvdE)
qed

subsection \<open>Hex\<close>

definition HEX_CHARS_LOWER :: bytes where
  "HEX_CHARS_LOWER = ascii ''0123456789abcdef''"

record hex_chars =
  hx_inner :: bytes
  hx_table :: bytes
  hx_next :: "byte option"

definition hex_new :: "bytes \<Rightarrow> bytes \<Rightarrow> hex_chars" where
  "hex_new inner table = \<lparr>hx_inner = inner, hx_table = table, hx_next = None\<rparr>"

definition hex_next :: "hex_chars \<Rightarrow> (byte \<times> hex_chars) option" where
  "hex_next it = (case hx_next it of
       Some current \<Rightarrow> Some (current, it\<lparr>hx_next := None\<rparr>)
     | None \<Rightarrow> (case hx_inner it of
         [] \<Rightarrow> None
       | b # rest \<Rightarrow>
           Some (hx_table it ! unat (drop_bit 4 b),
             it\<lparr>hx_inner := rest, hx_next := Some (hx_table it ! unat (b AND 0x0F))\<rparr>)))"

function encode_to_iter :: "hex_chars \<Rightarrow> bytes" where
  "encode_to_iter it = (case hex_next it of
       None \<Rightarrow> []
     | Some (c, it') \<Rightarrow> c # encode_to_iter it')"
  by pat_completeness auto
termination
  by (relation "measure (\<lambda>it. 2 * length (hx_inner it) + (if hx_next it = None then 0 else 1))")
    (auto simp: hex_next_def split: option.splits list.splits)

declare encode_to_iter.simps [simp del]

definition hex_encode :: "bytes \<Rightarrow> bytes" where
  "hex_encode source = encode_to_iter (hex_new source HEX_CHARS_LOWER)"

definition hex_digits :: "byte \<Rightarrow> bytes" where
  "hex_digits b = [HEX_CHARS_LOWER ! (unat b div 16), HEX_CHARS_LOWER ! (unat b mod 16)]"

lemma encode_to_iter_fresh:
  "encode_to_iter \<lparr>hx_inner = bs, hx_table = HEX_CHARS_LOWER, hx_next = None\<rparr> = concat (map hex_digits bs)"
proof (induction bs)
  case Nil
  show ?case by (subst encode_to_iter.simps) (simp add: hex_next_def)
next
  case (Cons b bs)
  have "unat (b AND 15) = unat b mod 16" using unat_low_bits [of b 4] by (simp add: mask_eq_exp_minus_1)
  then show ?case
    by (subst encode_to_iter.simps, simp add: hex_next_def unat_shift,
        subst encode_to_iter.simps, simp add: hex_next_def Cons hex_digits_def [abs_def])
qed

lemma hex_encode_eq: "hex_encode source = concat (map hex_digits source)"
  by (simp add: hex_encode_def hex_new_def encode_to_iter_fresh)

lemma length_hex_encode [simp]: "length (hex_encode source) = 2 * length source"
  by (induction source) (simp_all add: hex_encode_eq hex_digits_def)

lemma set_hex_encode: "set (hex_encode source) \<subseteq> set HEX_CHARS_LOWER"
proof -
  have "HEX_CHARS_LOWER ! i \<in> set HEX_CHARS_LOWER" if "i < 16" for i
    using that by (simp add: HEX_CHARS_LOWER_def)
  moreover have "unat b div 16 < 16" "unat b mod 16 < 16" for b :: byte
    using unat_byte_lt [of b] by simp_all
  ultimately show ?thesis by (auto simp: hex_encode_eq hex_digits_def)
qed

lemma hex_table_nth_inj:
  "i < 16 \<Longrightarrow> j < 16 \<Longrightarrow> HEX_CHARS_LOWER ! i = HEX_CHARS_LOWER ! j \<Longrightarrow> i = j"
proof -
  have "distinct HEX_CHARS_LOWER" "length HEX_CHARS_LOWER = 16"
    by (simp_all add: HEX_CHARS_LOWER_def ascii_def)
  then show "i < 16 \<Longrightarrow> j < 16 \<Longrightarrow> HEX_CHARS_LOWER ! i = HEX_CHARS_LOWER ! j \<Longrightarrow> i = j"
    by (simp add: nth_eq_iff_index_eq)
qed

lemma hex_digits_inj: "hex_digits a = hex_digits b \<Longrightarrow> a = b"
proof -
  assume "hex_digits a = hex_digits b"
  then have "unat a div 16 = unat b div 16" "unat a mod 16 = unat b mod 16"
    using unat_byte_lt [of a] unat_byte_lt [of b]
    by (auto simp: hex_digits_def intro!: hex_table_nth_inj)
  then have "unat a = unat b" by (metis div_mult_mod_eq)
  then show "a = b" by (simp add: word_unat_eq_iff)
qed

interpretation hex: framing hex_encode "\<lambda>_. True"
proof
  fix x y assume "hex_encode x = hex_encode y"
  then show "x = y"
  proof (induction x arbitrary: y)
    case Nil
    then show ?case by (cases y) (simp_all add: hex_encode_eq hex_digits_def)
  next
    case (Cons a x)
    from Cons.prems obtain b y' where y: "y = b # y'" by (cases y) (simp_all add: hex_encode_eq hex_digits_def)
    have "length (hex_digits a) = length (hex_digits b)" by (simp add: hex_digits_def)
    with Cons.prems y have "hex_digits a = hex_digits b" "hex_encode x = hex_encode y'"
      by (simp_all add: hex_encode_eq)
    with Cons.IH y hex_digits_inj show ?case by simp
  qed
qed

subsection \<open>Constant-time equality\<close>

definition ct_eq_u8 :: "byte \<Rightarrow> byte \<Rightarrow> byte" where
  "ct_eq_u8 a b =
     (let x = a XOR b;
          y = drop_bit 7 (x OR - x)
      in y XOR 1)"

fun ct_eq_loop :: "byte \<Rightarrow> (byte \<times> byte) list \<Rightarrow> byte" where
  "ct_eq_loop x [] = x"
| "ct_eq_loop x ((a, b) # ps) = ct_eq_loop (x AND ct_eq_u8 a b) ps"

definition ct_eq :: "bytes \<Rightarrow> bytes \<Rightarrow> byte" where
  "ct_eq xs ys = (if length xs \<noteq> length ys then 0 else ct_eq_loop 1 (zip xs ys))"

lemma drop_bit_7: "drop_bit 7 (w :: byte) = (if bit w 7 then 1 else 0)"
proof -
  have "unat (drop_bit 7 w) = unat w div 128" by (simp add: unat_shift)
  also have "\<dots> = (if bit w 7 then 1 else 0)"
    using unat_byte_lt [of w] by (auto simp: byte_high_bit div_nat_eqI)
  finally show ?thesis by (auto simp: word_unat_eq_iff split: if_splits)
qed

lemma sign_bit_or_neg: "drop_bit 7 (x OR - x :: byte) = (if x = 0 then 0 else 1)"
proof (cases "x = 0")
  case False
  then have "bit x 7 \<or> bit (- x) 7" using byte_neg_sum [OF False] unfolding byte_high_bit by arith
  then have "bit (x OR - x) 7" by (simp add: bit_or_iff)
  then show ?thesis using False drop_bit_7 [of "x OR - x"] by (simp only: if_True if_False)
qed simp

lemma ct_eq_u8_iff: "ct_eq_u8 a b = (if a = b then 1 else 0)"
proof -
  have "a XOR b = 0 \<longleftrightarrow> a = b" by (auto simp: bit_eq_iff bit_xor_iff)
  then show ?thesis by (simp only: ct_eq_u8_def Let_def sign_bit_or_neg) simp
qed

lemma ct_eq_iff [simp]: "ct_eq xs ys = (if xs = ys then 1 else 0)"
proof -
  have zero: "ct_eq_loop 0 ps = 0" for ps
    by (induction "0 :: byte" ps rule: ct_eq_loop.induct) simp_all
  have "length as = length bs \<Longrightarrow> ct_eq_loop 1 (zip as bs) = (if as = bs then 1 else 0)" for as bs
    by (induction as bs rule: list_induct2) (auto simp: ct_eq_u8_iff zero)
  then show ?thesis by (auto simp: ct_eq_def)
qed

end
