(* ===== verification/Phi_Schnorr.thy ===== *)
theory Phi_Schnorr
  imports Complex_Main Phi_Bbs_Correct Phi_Text
begin

section \<open>The Schnorr discrete-log proof (vendored schnorr_pok)\<close>

text \<open>
  The proof of knowledge of a discrete logarithm that the vote proof is built with, as the
  vendored crate computes it, over an additive group \<open>'g\<close> and a ring of scalars \<open>'f\<close>. \<open>mul\<close>
  stands for \<open>mul_bigint\<close> of \<open>into_bigint\<close>; \<open>group_law\<close> states that it is a scalar
  multiplication. Completeness and special soundness follow from that law alone.
\<close>

definition group_law :: "('g::ab_group_add \<Rightarrow> 'f::comm_ring_1 \<Rightarrow> 'g) \<Rightarrow> bool" where
  "group_law mul \<longleftrightarrow>
     (\<forall>g a b. mul g (a + b) = mul g a + mul g b) \<and> (\<forall>g a b. mul g (a * b) = mul (mul g a) b)"

lemma group_law_diff: "group_law mul \<Longrightarrow> mul g (a - b) = mul g a - mul g b"
  unfolding group_law_def by (metis add_diff_cancel_right' diff_add_cancel)

record ('f, 'g) PokDiscreteLogProtocol =
  pd_t :: 'g
  pd_blinding :: 'f
  pd_witness :: 'f

record ('f, 'g) PokDiscreteLog =
  dl_t :: 'g
  dl_response :: 'f

definition dl_init ::
    "('g::ab_group_add \<Rightarrow> 'f::comm_ring_1 \<Rightarrow> 'g) \<Rightarrow> 'f \<Rightarrow> 'f \<Rightarrow> 'g \<Rightarrow> ('f, 'g) PokDiscreteLogProtocol" where
  "dl_init mul witness blinding base =
     (let t = mul base blinding in \<lparr>pd_t = t, pd_blinding = blinding, pd_witness = witness\<rparr>)"

definition dl_compute_contribution :: "'g ark_codec \<Rightarrow> 'g \<Rightarrow> 'g \<Rightarrow> 'g \<Rightarrow> bytes option" where
  "dl_compute_contribution G base y t =
     (case serialize_compressed G base of None \<Rightarrow> None | Some b1 \<Rightarrow>
     (case serialize_compressed G y of None \<Rightarrow> None | Some b2 \<Rightarrow>
     (case serialize_compressed G t of None \<Rightarrow> None | Some b3 \<Rightarrow> Some (b1 @ b2 @ b3))))"

definition pd_contribution :: "'g ark_codec \<Rightarrow> ('f, 'g) PokDiscreteLogProtocol \<Rightarrow> 'g \<Rightarrow> 'g \<Rightarrow> bytes option" where
  "pd_contribution G pd base y = dl_compute_contribution G base y (pd_t pd)"

definition pd_gen_proof ::
    "('f::comm_ring_1, 'g) PokDiscreteLogProtocol \<Rightarrow> 'f \<Rightarrow> ('f, 'g) PokDiscreteLog" where
  "pd_gen_proof pd chal =
     (let response = pd_blinding pd + (pd_witness pd * chal)
      in \<lparr>dl_t = pd_t pd, dl_response = response\<rparr>)"

definition dl_contribution :: "'g ark_codec \<Rightarrow> ('f, 'g) PokDiscreteLog \<Rightarrow> 'g \<Rightarrow> 'g \<Rightarrow> bytes option" where
  "dl_contribution G dl base y = dl_compute_contribution G base y (dl_t dl)"

definition dl_verify ::
    "('g::ab_group_add \<Rightarrow> 'f::comm_ring_1 \<Rightarrow> 'g) \<Rightarrow> ('f, 'g) PokDiscreteLog \<Rightarrow> 'g \<Rightarrow> 'g \<Rightarrow> 'f \<Rightarrow> bool" where
  "dl_verify mul dl y base chal =
     (let expected = mul base (dl_response dl);
          expected = expected - mul y chal
      in expected = dl_t dl)"

lemma dl_complete:
  assumes "group_law mul" "y = mul base w"
  shows "dl_verify mul (pd_gen_proof (dl_init mul w r base) c) y base c"
  using assms by (simp add: dl_verify_def pd_gen_proof_def dl_init_def group_law_def)

lemma dl_same_contribution:
  "dl_contribution G (pd_gen_proof pd c) base y = pd_contribution G pd base y"
  by (simp add: dl_contribution_def pd_contribution_def pd_gen_proof_def Let_def)

lemma dl_response_init: "dl_response (pd_gen_proof (dl_init mul w r base) c) = r + w * c"
  by (simp add: pd_gen_proof_def dl_init_def)

text \<open>
  \<open>blinded_mul\<close> of \<open>voting_snark.rs\<close>: the scalar is split into a masked and a blinding part,
  whose multiples are subtracted.
\<close>

definition blinded_mul ::
    "('g::ab_group_add \<Rightarrow> 'f::comm_ring_1 \<Rightarrow> 'g) \<Rightarrow> ('r \<Rightarrow> 'f \<times> 'r) \<Rightarrow> 'g \<Rightarrow> 'f \<Rightarrow> 'r \<Rightarrow> 'g \<times> 'r" where
  "blinded_mul mul rand_fr base scalar rng =
     (let (blind, rng) = rand_fr rng;
          masked = scalar + blind
      in (mul base masked - mul base blind, rng))"

lemma blinded_mul_value: "group_law mul \<Longrightarrow> fst (blinded_mul mul rand_fr base scalar rng) = mul base scalar"
  by (simp add: blinded_mul_def group_law_def split: prod.split)

subsection \<open>Claims\<close>

text \<open>C31: the proof of a discrete logarithm is complete and extractable. An honest proof verifies; and
  from two accepting proofs with one commitment and two challenges the logarithm can be
  computed, so an accepting prover knows it. (Scalars form a field, as \<open>Fr\<close> does.)\<close>

theorem dl_complete_and_extractable:
  fixes mul :: "'g::ab_group_add \<Rightarrow> 'f::field \<Rightarrow> 'g"
  assumes "group_law mul" "\<forall>g. mul g 1 = g"
  shows "dl_verify mul (pd_gen_proof (dl_init mul w r base) c) (mul base w) base c
     \<and> (dl_t p = dl_t q \<longrightarrow> a \<noteq> b \<longrightarrow> dl_verify mul p y base a \<longrightarrow> dl_verify mul q y base b \<longrightarrow>
          y = mul base ((dl_response p - dl_response q) / (a - b)))"
proof (intro conjI impI)
  show "dl_verify mul (pd_gen_proof (dl_init mul w r base) c) (mul base w) base c"
    using dl_complete [OF assms(1) refl] .
next
  assume t: "dl_t p = dl_t q" and ne: "a \<noteq> b" and v: "dl_verify mul p y base a" "dl_verify mul q y base b"
  have "mul base (dl_response p) - mul y a = mul base (dl_response q) - mul y b"
    using t v by (simp add: dl_verify_def)
  then have e: "mul base (dl_response p - dl_response q) = mul y (a - b)"
    by (simp add: group_law_diff [OF assms(1)] algebra_simps)
  have "mul base ((dl_response p - dl_response q) / (a - b)) = mul (mul base (dl_response p - dl_response q)) (inverse (a - b))"
    using assms(1) by (simp add: group_law_def divide_inverse)
  also have "\<dots> = mul y ((a - b) * inverse (a - b))" using assms(1) e by (simp add: group_law_def)
  finally show "y = mul base ((dl_response p - dl_response q) / (a - b))" using ne assms(2) by simp
qed

theorem dl_complete_and_extractable_witness:
  "dl_verify (*) (pd_gen_proof (dl_init (*) 3 5 2) 7) (6 :: rat) 2 7
     \<and> 6 = 2 * ((26 - 20) / (7 - (5 :: rat)))"
proof -
  have law: "group_law ((*) :: rat \<Rightarrow> rat \<Rightarrow> rat)" "\<forall>g :: rat. g * 1 = g"
    by (simp_all add: group_law_def algebra_simps)
  note e = dl_complete_and_extractable [OF law]
  have v: "dl_verify (*) \<lparr>dl_t = 10, dl_response = 26\<rparr> (6 :: rat) 2 7"
    "dl_verify (*) \<lparr>dl_t = 10, dl_response = 20\<rparr> (6 :: rat) 2 5"
    by (simp_all add: dl_verify_def)
  show ?thesis
    using e [where w = 3 and r = 5 and base = 2 and c = 7 and y = 6 and a = 7 and b = 5
        and p = "\<lparr>dl_t = 10, dl_response = 26\<rparr>" and q = "\<lparr>dl_t = 10, dl_response = 20\<rparr>"] v by simp
qed

end
