(* ===== verification/Phi_Vote.thy ===== *)
theory Phi_Vote
  imports Phi_Schnorr Phi_Semaphore
begin

section \<open>The composed vote proof (voting_snark.rs)\<close>

text \<open>
  Eligibility (a BBS+ proof of knowledge with the voter secret hidden) and derivation (the
  nullifier is the election's generator times the same secret), tied together by one
  challenge and by the equality of the two responses for the secret. The BBS+ backend is the
  one of \<open>bbs.rs\<close>; group, hash-to-curve and codecs are further parameters, collected in
  \<open>vote_backend\<close>; the discrete-log proof is the model of the vendored code. The module's own
  \<open>Reader\<close> and \<open>put_bytes\<close> are written out again and shown equal to those of \<open>bbs.rs\<close>.
\<close>

definition VOTER_SECRET_MSG_INDEX :: usize where
  "VOTER_SECRET_MSG_INDEX = 0"

definition H2C_DST :: bytes where
  "H2C_DST = ascii ''PHI-VOTE-NULLIFIER-BLS12381G1-XMD:SHA-256_SSWU_RO_v1''"

definition CHALLENGE_DOMAIN :: bytes where
  "CHALLENGE_DOMAIN = ascii ''phi-vote-snark-v3''"

definition BIND_DOMAIN :: bytes where
  "BIND_DOMAIN = ascii ''phi-vote-snark-bind-v1''"

definition NULLIFIER_POINT_LEN :: nat where
  "NULLIFIER_POINT_LEN = 48"

record ('p, 'r, 'f, 'sk, 'pk, 'sg, 'pok, 'pf, 'g) vote_backend =
  vb_bbs :: "('p, 'r, 'f, 'sk, 'pk, 'sg, 'pok, 'pf) bbs_backend"
  vb_mul :: "'g \<Rightarrow> 'f \<Rightarrow> 'g"
  vb_rand_fr :: "'r \<Rightarrow> 'f \<times> 'r"
  vb_hasher_new :: "bytes \<Rightarrow> (bytes \<Rightarrow> 'g option) option"
  vb_g_codec :: "'g ark_codec"
  vb_fr_codec :: "'f ark_codec"
  vb_dl_codec :: "('f, 'g) PokDiscreteLog ark_codec"

record 'g vote_proof =
  vo_message_count :: u32
  vo_revealed :: "(u32 \<times> bytes) list"
  vo_bbs_proof :: bytes
  vo_dl_proof :: bytes
  vo_nullifier :: 'g

subsection \<open>Reader and framing\<close>

definition vs_put_bytes :: "bytes \<Rightarrow> bytes \<Rightarrow> bytes" where
  "vs_put_bytes out b = (let out = out @ len_be32 (length b) in out @ b)"

definition vs_reader_u32 :: "reader \<Rightarrow> (u32 \<times> reader, crypto_error) result" where
  "vs_reader_u32 r =
     bind_r (ok_or (InvalidInput ''truncated'') (checked_add (rd_pos r) 4)) (\<lambda>end.
     if end > length (rd_b r) then Err (InvalidInput ''truncated'')
     else bind_r (index_range (rd_b r) (rd_pos r) end) (\<lambda>slice.
     bind_r (ok_or (InvalidInput ''truncated'') (try_into_array 4 slice)) (\<lambda>chunk.
     let r = r\<lparr>rd_pos := end\<rparr> in
     Ok (u32_from_be_bytes chunk, r))))"

definition vs_reader_bytes :: "reader \<Rightarrow> (bytes \<times> reader, crypto_error) result" where
  "vs_reader_bytes r =
     bind_r (vs_reader_u32 r) (\<lambda>(len32, r).
     let len = unat len32 in
     bind_r (ok_or (InvalidInput ''truncated'') (checked_add (rd_pos r) len)) (\<lambda>end.
     if end > length (rd_b r) then Err (InvalidInput ''truncated'')
     else bind_r (index_range (rd_b r) (rd_pos r) end) (\<lambda>v.
     Ok (v, r\<lparr>rd_pos := end\<rparr>))))"

lemma vs_put_bytes_eq: "vs_put_bytes = put_bytes"
  by (simp add: fun_eq_iff vs_put_bytes_def put_bytes_def)

lemma vs_reader_eq: "vs_reader_u32 = reader_u32" "vs_reader_bytes = reader_bytes"
proof -
  show u: "vs_reader_u32 = reader_u32"
    unfolding fun_eq_iff vs_reader_u32_def reader_u32_def truncated_def Let_def by simp
  show "vs_reader_bytes = reader_bytes"
    unfolding fun_eq_iff vs_reader_bytes_def reader_bytes_def truncated_def u by simp
qed

subsection \<open>Hashing and binding\<close>

definition hash_to_g1 ::
    "('p, 'r, 'f, 'sk, 'pk, 'sg, 'pok, 'pf, 'g) vote_backend \<Rightarrow> bytes \<Rightarrow> ('g, crypto_error) result" where
  "hash_to_g1 V election_id =
     (let tag = external_nullifier (bk_sha256 (vb_bbs V)) election_id in
      bind_r (ok_or (Backend ''h2c setup'') (vb_hasher_new V H2C_DST)) (\<lambda>hasher.
      ok_or (Backend ''h2c hash'') (hasher tag)))"

definition bind_context_preimage :: "bytes \<Rightarrow> bytes \<Rightarrow> bytes \<Rightarrow> bytes \<Rightarrow> bytes" where
  "bind_context_preimage chain_id election_id nullifier signal =
     BIND_DOMAIN @ len_be64 (length chain_id) @ chain_id
       @ len_be64 (length election_id) @ election_id
       @ len_be64 (length signal) @ signal
       @ len_be64 (length nullifier) @ nullifier"

definition bind_context :: "(bytes \<Rightarrow> bytes) \<Rightarrow> bytes \<Rightarrow> bytes \<Rightarrow> bytes \<Rightarrow> bytes \<Rightarrow> bytes" where
  "bind_context sha256 chain_id election_id nullifier signal =
     sha256 (bind_context_preimage chain_id election_id nullifier signal)"

subsection \<open>Wire format\<close>

definition vo_nullifier_bytes ::
    "('p, 'r, 'f, 'sk, 'pk, 'sg, 'pok, 'pf, 'g) vote_backend \<Rightarrow> 'g vote_proof \<Rightarrow> (bytes, crypto_error) result" where
  "vo_nullifier_bytes V p =
     bind_r (ser (vb_g_codec V) (vo_nullifier p)) (\<lambda>v.
     ok_or (Backend ''nullifier length'') (try_into_array NULLIFIER_POINT_LEN v))"

fun vs_put_revealed :: "bytes \<Rightarrow> (u32 \<times> bytes) list \<Rightarrow> bytes" where
  "vs_put_revealed out [] = out"
| "vs_put_revealed out ((idx, claim) # es) = vs_put_revealed (vs_put_bytes (out @ u32_to_be_bytes idx) claim) es"

definition vs_to_bytes ::
    "('p, 'r, 'f, 'sk, 'pk, 'sg, 'pok, 'pf, 'g) vote_backend \<Rightarrow> 'g vote_proof \<Rightarrow> (bytes, crypto_error) result" where
  "vs_to_bytes V p =
     (let out = [] @ u32_to_be_bytes (vo_message_count p);
          out = vs_put_bytes out (vo_bbs_proof p);
          out = vs_put_bytes out (vo_dl_proof p) in
      bind_r (ser (vb_g_codec V) (vo_nullifier p)) (\<lambda>n.
      let out = vs_put_bytes out n;
          out = out @ len_be32 (length (vo_revealed p)) in
      Ok (vs_put_revealed out (vo_revealed p))))"

definition vs_index_check :: "u32 \<Rightarrow> u32 option \<Rightarrow> u32 \<Rightarrow> crypto_error option" where
  "vs_index_check message_count prev idx =
     (if unat idx = VOTER_SECRET_MSG_INDEX then Some (InvalidInput ''voter secret cannot be revealed'')
      else if idx \<ge> message_count then Some (InvalidInput ''revealed index out of range'')
      else case prev of
        Some p \<Rightarrow>
          (if idx \<le> p then Some (InvalidInput ''revealed indices must be strictly increasing'')
           else None)
      | None \<Rightarrow> None)"

definition vs_from_bytes ::
    "('p, 'r, 'f, 'sk, 'pk, 'sg, 'pok, 'pf, 'g::zero) vote_backend \<Rightarrow> bytes \<Rightarrow>
     ('g vote_proof, crypto_error) result" where
  "vs_from_bytes V b =
     bind_r (vs_reader_u32 \<lparr>rd_b = b, rd_pos = 0\<rparr>) (\<lambda>(message_count, r).
     if message_count = 0 \<or> message_count > MAX_BBS_MESSAGES
     then Err (InvalidInput ''message_count out of range'')
     else bind_r (vs_reader_bytes r) (\<lambda>(bbs_proof, r).
     bind_r (vs_reader_bytes r) (\<lambda>(dl_proof, r).
     bind_r (vs_reader_bytes r) (\<lambda>(nb, r).
     bind_r (deser (vb_g_codec V) nb) (\<lambda>nullifier.
     if nullifier = 0 then Err (InvalidInput ''nullifier is identity'')
     else bind_r (vs_reader_u32 r) (\<lambda>(n32, r).
     let n = unat n32 in
     if n > unat message_count then Err (InvalidInput ''revealed count exceeds message_count'')
     else bind_r (entries_loop vs_reader_u32 vs_reader_bytes (vs_index_check message_count) n None r [])
       (\<lambda>(revealed, r).
     if rd_pos r \<noteq> length b then Err (InvalidInput ''trailing bytes'')
     else Ok \<lparr>vo_message_count = message_count, vo_revealed = revealed, vo_bbs_proof = bbs_proof,
              vo_dl_proof = dl_proof, vo_nullifier = nullifier\<rparr>)))))))"

subsection \<open>The challenge\<close>

definition vote_transcript ::
    "(bytes \<Rightarrow> bytes) \<Rightarrow> (bytes, crypto_error) result \<Rightarrow> (bytes, crypto_error) result \<Rightarrow> u32 \<Rightarrow>
     bytes \<Rightarrow> bytes \<Rightarrow> bytes \<Rightarrow> bytes \<Rightarrow> bytes \<Rightarrow> (bytes, crypto_error) result" where
  "vote_transcript sha256 bbs_contrib dl_contrib message_count issuer_pk chain_id election_id
       nullifier_bytes signal =
     bind_r bbs_contrib (\<lambda>bbs_buf.
     bind_r dl_contrib (\<lambda>dl_buf.
     let transcript = [];
         transcript = vs_put_bytes transcript CHALLENGE_DOMAIN;
         transcript = transcript @ u32_to_be_bytes message_count;
         transcript = vs_put_bytes transcript issuer_pk;
         transcript = vs_put_bytes transcript bbs_buf;
         transcript = vs_put_bytes transcript dl_buf;
         transcript = vs_put_bytes transcript (bind_context sha256 chain_id election_id nullifier_bytes signal)
     in Ok transcript))"

definition compute_challenge ::
    "('p, 'r, 'f::zero, 'sk, 'pk, 'sg, 'pok, 'pf) bbs_backend \<Rightarrow> (bytes, crypto_error) result \<Rightarrow>
     (bytes, crypto_error) result \<Rightarrow> u32 \<Rightarrow> bytes \<Rightarrow> bytes \<Rightarrow> bytes \<Rightarrow> bytes \<Rightarrow> bytes \<Rightarrow>
     ('f, crypto_error) result" where
  "compute_challenge B bbs_contrib dl_contrib message_count issuer_pk chain_id election_id
       nullifier_bytes signal =
     bind_r (vote_transcript (bk_sha256 B) bbs_contrib dl_contrib message_count issuer_pk chain_id
               election_id nullifier_bytes signal) (\<lambda>transcript.
     let c = bk_oracle B transcript in
     if c = 0 then Err (Backend ''degenerate challenge'') else Ok c)"

subsection \<open>Proving\<close>

text \<open>The voter secret is blinded with the shared blinding, whatever is revealed.\<close>

definition vote_mbi :: "'f \<Rightarrow> nat list \<Rightarrow> 'f list \<Rightarrow> 'f message_or_blinding list" where
  "vote_mbi r0 reveal_set messages =
     map (\<lambda>(i, m). if i = VOTER_SECRET_MSG_INDEX then BlindMessageWithConcreteBlinding m r0
                   else if i \<in> set reveal_set then RevealMessage m
                   else BlindMessageRandomly m) (enumerate 0 messages)"

definition prove_vote ::
    "('p, 'r, 'f::comm_ring_1, 'sk, 'pk, 'sg, 'pok, 'pf, 'g::ab_group_add) vote_backend \<Rightarrow> bytes list \<Rightarrow>
     bytes \<Rightarrow> bytes \<Rightarrow> nat list \<Rightarrow> bytes \<Rightarrow> bytes \<Rightarrow> bytes \<Rightarrow> (('p, 'r) suite_state, 'g vote_proof) st" where
  "prove_vote V claims signature issuer_public_key reveal chain_id election_id signal =
     (let B = vb_bbs V in
      if claims = [] then lift_s (Err (InvalidInput ''no claims''))
      else if length claims > unat MAX_BBS_MESSAGES
      then lift_s (Err (InvalidInput ''message_count out of range''))
      else if \<not> VOTER_SECRET_MSG_INDEX < length claims
      then lift_s (Err (InvalidInput ''no voter-secret message''))
      else let count = length claims;
               reveal_set = btree_set reveal in
      if list_ex (\<lambda>i. i \<ge> count) reveal_set
      then lift_s (Err (InvalidInput ''reveal index out of range''))
      else if VOTER_SECRET_MSG_INDEX \<in> set reveal_set
      then lift_s (Err (InvalidInput ''voter secret cannot be revealed''))
      else
        bind_s (suite_params B (word_of_nat count)) (\<lambda>params.
        bind_s (lift_s (deser (bk_sg_codec B) signature)) (\<lambda>sig.
        bind_s (lift_s (deser (bk_pk_codec B) issuer_public_key)) (\<lambda>issuer_pk.
        bind_s (lift_s (ser (bk_pk_codec B) issuer_pk)) (\<lambda>issuer_pk_bytes.
        let messages = map (claim_to_fr B) claims in
        bind_s (lift_s (index messages VOTER_SECRET_MSG_INDEX)) (\<lambda>m0.
        bind_s (draw (vb_rand_fr V)) (\<lambda>r0.
        bind_s (lift_s (hash_to_g1 V election_id)) (\<lambda>h_e.
        bind_s (draw (blinded_mul (vb_mul V) (vb_rand_fr V) h_e m0)) (\<lambda>nullifier.
        if nullifier = 0 then lift_s (Err (InvalidInput ''nullifier is identity''))
        else
          let mbi = vote_mbi r0 reveal_set messages in
          bind_s (draw_or (Backend ''bbs pok init'') (\<lambda>rng. bk_pok_init B rng sig params mbi)) (\<lambda>pok.
          let dl = dl_init (vb_mul V) m0 r0 h_e in
          bind_s (lift_s (insert_messages messages [] reveal_set)) (\<lambda>revealed_msgs.
          bind_s (lift_s (ser (vb_g_codec V) nullifier)) (\<lambda>nullifier_bytes.
          bind_s (lift_s (compute_challenge B
              (ok_or (Backend ''bbs challenge'') (bk_pok_contribution B pok revealed_msgs params))
              (ok_or (Backend ''dl challenge'') (pd_contribution (vb_g_codec V) dl h_e nullifier))
              (word_of_nat count) issuer_pk_bytes chain_id election_id nullifier_bytes signal)) (\<lambda>c.
          bind_s (lift_s (ok_or (Backend ''bbs gen_proof'') (bk_gen_proof B pok c))) (\<lambda>bbs_proof.
          let dl_proof = pd_gen_proof dl c in
          bind_s (lift_s (collect_claims claims reveal_set)) (\<lambda>revealed.
          bind_s (lift_s (ser (bk_pf_codec B) bbs_proof)) (\<lambda>bbs_proof_bytes.
          bind_s (lift_s (ser (vb_dl_codec V) dl_proof)) (\<lambda>dl_proof_bytes.
          lift_s (Ok \<lparr>vo_message_count = word_of_nat count, vo_revealed = revealed,
                      vo_bbs_proof = bbs_proof_bytes, vo_dl_proof = dl_proof_bytes,
                      vo_nullifier = nullifier\<rparr>))))))))))))))))))"

definition prove_vote_bytes ::
    "('p, 'r, 'f::comm_ring_1, 'sk, 'pk, 'sg, 'pok, 'pf, 'g::ab_group_add) vote_backend \<Rightarrow> bytes list \<Rightarrow>
     bytes \<Rightarrow> bytes \<Rightarrow> nat list \<Rightarrow> bytes \<Rightarrow> bytes \<Rightarrow> bytes \<Rightarrow> (('p, 'r) suite_state, bytes) st" where
  "prove_vote_bytes V claims signature issuer_public_key reveal chain_id election_id signal =
     bind_s (prove_vote V claims signature issuer_public_key reveal chain_id election_id signal)
       (\<lambda>p. lift_s (vs_to_bytes V p))"

subsection \<open>Verifying\<close>

text \<open>
  The loop over the revealed claims, with the set of their indices (a \<open>BTreeSet\<close> in its
  iteration order) and the map of their messages.
\<close>

fun collect_votes ::
    "(bytes \<Rightarrow> 'f) \<Rightarrow> u32 \<Rightarrow> nat list \<Rightarrow> 'f btree_map \<Rightarrow> (u32 \<times> bytes) list \<Rightarrow>
     (nat list \<times> 'f btree_map, crypto_error) result" where
  "collect_votes to_fr mc ids m [] = Ok (ids, m)"
| "collect_votes to_fr mc ids m ((idx, b) # es) =
     (let i = unat idx in
      if i = VOTER_SECRET_MSG_INDEX \<or> i \<ge> unat mc then Err (InvalidInput ''revealed index invalid'')
      else if i \<in> set ids then Err (InvalidInput ''duplicate revealed index'')
      else collect_votes to_fr mc (insort i ids) (bt_insert i (to_fr b) m) es)"

definition vs_verify_inner ::
    "('p, 'r, 'f::comm_ring_1, 'sk, 'pk, 'sg, 'pok, 'pf, 'g::ab_group_add) vote_backend \<Rightarrow> 'g vote_proof \<Rightarrow>
     bytes \<Rightarrow> bytes \<Rightarrow> bytes \<Rightarrow> bytes \<Rightarrow> (('p, 'r) suite_state, unit) st" where
  "vs_verify_inner V proof issuer_public_key chain_id election_id signal =
     (let B = vb_bbs V in
      if vo_message_count proof = 0 \<or> vo_message_count proof > MAX_BBS_MESSAGES
      then lift_s (Err (InvalidInput ''message_count out of range''))
      else if vo_nullifier proof = 0 then lift_s (Err (InvalidInput ''nullifier is identity''))
      else
        bind_s (suite_params B (vo_message_count proof)) (\<lambda>params.
        bind_s (lift_s (deser (bk_pk_codec B) issuer_public_key)) (\<lambda>pk.
        bind_s (lift_s (deser (bk_pf_codec B) (vo_bbs_proof proof))) (\<lambda>bbs.
        bind_s (lift_s (deser (vb_dl_codec V) (vo_dl_proof proof))) (\<lambda>dl.
        bind_s (lift_s (collect_votes (claim_to_fr B) (vo_message_count proof) [] [] (vo_revealed proof)))
          (\<lambda>(reveal_ids, revealed_msgs).
        bind_s (lift_s (hash_to_g1 V election_id)) (\<lambda>h_e.
        bind_s (lift_s (ser (vb_g_codec V) (vo_nullifier proof))) (\<lambda>nullifier_bytes.
        bind_s (lift_s (ser (bk_pk_codec B) pk)) (\<lambda>pk_bytes.
        bind_s (lift_s (compute_challenge B
            (ok_or (Backend ''bbs challenge'') (bk_pf_contribution B bbs revealed_msgs params))
            (ok_or (Backend ''dl challenge'') (dl_contribution (vb_g_codec V) dl h_e (vo_nullifier proof)))
            (vo_message_count proof) pk_bytes chain_id election_id nullifier_bytes signal)) (\<lambda>c.
        if \<not> bk_pf_verify B bbs revealed_msgs c pk params then lift_s (Err VerificationFailed)
        else if \<not> dl_verify (vb_mul V) dl (vo_nullifier proof) h_e c then lift_s (Err VerificationFailed)
        else
          bind_s (lift_s (ok_or VerificationFailed (bk_pf_response B bbs VOTER_SECRET_MSG_INDEX reveal_ids)))
            (\<lambda>bbs_resp.
          bind_s (lift_s (ser (vb_fr_codec V) bbs_resp)) (\<lambda>a.
          bind_s (lift_s (ser (vb_fr_codec V) (dl_response dl))) (\<lambda>b.
          if ct_eq a b \<noteq> 1 then lift_s (Err VerificationFailed)
          else lift_s (Ok ()))))))))))))))"

definition verify_vote_proof ::
    "('p, 'r, 'f::comm_ring_1, 'sk, 'pk, 'sg, 'pok, 'pf, 'g::ab_group_add) vote_backend \<Rightarrow> 'g vote_proof \<Rightarrow>
     bytes \<Rightarrow> bytes \<Rightarrow> bytes \<Rightarrow> bytes \<Rightarrow> (('p, 'r) suite_state, bool) st" where
  "verify_vote_proof V proof issuer_public_key chain_id election_id signal s =
     (case vs_verify_inner V proof issuer_public_key chain_id election_id signal s of
        (r, s') \<Rightarrow> (is_ok r, s'))"

definition verify_vote ::
    "('p, 'r, 'f::comm_ring_1, 'sk, 'pk, 'sg, 'pok, 'pf, 'g::ab_group_add) vote_backend \<Rightarrow> bytes \<Rightarrow>
     bytes \<Rightarrow> bytes \<Rightarrow> bytes \<Rightarrow> bytes \<Rightarrow> (('p, 'r) suite_state, bool) st" where
  "verify_vote V proof_bytes issuer_public_key chain_id election_id signal =
     (case vs_from_bytes V proof_bytes of
        Ok p \<Rightarrow> verify_vote_proof V p issuer_public_key chain_id election_id signal
      | Err _ \<Rightarrow> lift_s (Ok False)
      | Panic \<Rightarrow> lift_s Panic)"

end
