(* ===== verification/Phi_Utf8.thy ===== *)
theory Phi_Utf8
  imports Phi_Prelude
begin

section \<open>UTF-8 strings of the standard library\<close>

text \<open>
  What the crate uses of Rust's \<open>str\<close>: the validity check of \<open>from_utf8\<close> (the well-formed byte
  sequences of the Unicode standard, which exclude overlong forms, surrogates and values
  above 10FFFF), \<open>as_bytes\<close> (the identity: a \<open>str\<close> is its bytes), and \<open>trim\<close>. Decoding and
  encoding are shown inverse, so a valid string is a list of scalar values.
\<close>

type_synonym str = bytes

definition is_cont :: "byte \<Rightarrow> bool" where
  "is_cont b \<longleftrightarrow> 128 \<le> unat b \<and> unat b < 192"

text \<open>The first scalar value of a byte string, and the rest.\<close>

fun utf8_next :: "bytes \<Rightarrow> (nat \<times> bytes) option" where
  "utf8_next [] = None"
| "utf8_next (b0 # r) =
     (let x = unat b0 in
      if x < 128 then Some (x, r)
      else if 194 \<le> x \<and> x \<le> 223 then
        (case r of b1 # r' \<Rightarrow>
           if is_cont b1 then Some ((x - 192) * 64 + (unat b1 - 128), r') else None
         | _ \<Rightarrow> None)
      else if 224 \<le> x \<and> x \<le> 239 then
        (case r of b1 # b2 # r' \<Rightarrow>
           if is_cont b1 \<and> is_cont b2 \<and> (x = 224 \<longrightarrow> 160 \<le> unat b1) \<and> (x = 237 \<longrightarrow> unat b1 < 160)
           then Some ((x - 224) * 4096 + (unat b1 - 128) * 64 + (unat b2 - 128), r') else None
         | _ \<Rightarrow> None)
      else if 240 \<le> x \<and> x \<le> 244 then
        (case r of b1 # b2 # b3 # r' \<Rightarrow>
           if is_cont b1 \<and> is_cont b2 \<and> is_cont b3 \<and> (x = 240 \<longrightarrow> 144 \<le> unat b1) \<and> (x = 244 \<longrightarrow> unat b1 < 144)
           then Some ((x - 240) * 262144 + (unat b1 - 128) * 4096 + (unat b2 - 128) * 64 + (unat b3 - 128), r')
           else None
         | _ \<Rightarrow> None)
      else None)"

lemma utf8_next_shorter: "utf8_next b = Some (c, r) \<Longrightarrow> length r < length b"
  by (cases b) (auto simp: Let_def split: if_splits list.splits)

function utf8_decode :: "bytes \<Rightarrow> nat list option" where
  "utf8_decode b =
     (if b = [] then Some []
      else case utf8_next b of
        None \<Rightarrow> None
      | Some (c, r) \<Rightarrow> map_option (\<lambda>cs. c # cs) (utf8_decode r))"
  by pat_completeness auto
termination
  by (relation "measure length") (auto dest: utf8_next_shorter)

declare utf8_decode.simps [simp del]

definition from_utf8 :: "bytes \<Rightarrow> str option" where
  "from_utf8 b = (if utf8_decode b = None then None else Some b)"

definition is_scalar :: "nat \<Rightarrow> bool" where
  "is_scalar c \<longleftrightarrow> c < 0xD800 \<or> 0xE000 \<le> c \<and> c < 0x110000"

definition byte_of :: "nat \<Rightarrow> byte" where
  "byte_of n = word_of_nat n"

lemma unat_byte_of [simp]: "n < 256 \<Longrightarrow> unat (byte_of n) = n"
  by (simp add: byte_of_def)

definition encode_utf8 :: "nat \<Rightarrow> bytes" where
  "encode_utf8 c =
     (if c < 0x80 then [byte_of c]
      else if c < 0x800 then [byte_of (192 + c div 64), byte_of (128 + c mod 64)]
      else if c < 0x10000 then
        [byte_of (224 + c div 4096), byte_of (128 + c div 64 mod 64), byte_of (128 + c mod 64)]
      else [byte_of (240 + c div 262144), byte_of (128 + c div 4096 mod 64),
            byte_of (128 + c div 64 mod 64), byte_of (128 + c mod 64)])"

definition utf8_encode :: "nat list \<Rightarrow> bytes" where
  "utf8_encode cs = concat (map encode_utf8 cs)"

lemma utf8_decode_Nil [simp]: "utf8_decode [] = Some []"
  by (simp add: utf8_decode.simps)

lemma encode_utf8_nonempty [simp]: "encode_utf8 c \<noteq> []"
  by (simp add: encode_utf8_def)

lemma cont_byte_of [simp]: "n < 64 \<Longrightarrow> is_cont (byte_of (128 + n))"
  by (simp add: is_cont_def)

lemma div_mod_parts:
  fixes c :: nat
  shows "c div 64 * 64 + c mod 64 = c"
    and "c div 4096 * 4096 + c div 64 mod 64 * 64 + c mod 64 = c"
    and "c div 262144 * 262144 + c div 4096 mod 64 * 4096 + c div 64 mod 64 * 64 + c mod 64 = c"
proof -
  have d: "c div 64 div 64 = c div 4096" "c div 4096 div 64 = c div 262144"
    using div_mult2_eq [of c 64 64] div_mult2_eq [of c 4096 64] by simp_all
  note m = div_mult_mod_eq [of c 64] div_mult_mod_eq [of "c div 64" 64] div_mult_mod_eq [of "c div 4096" 64]
  show "c div 64 * 64 + c mod 64 = c"
    and "c div 4096 * 4096 + c div 64 mod 64 * 64 + c mod 64 = c"
    and "c div 262144 * 262144 + c div 4096 mod 64 * 4096 + c div 64 mod 64 * 64 + c mod 64 = c"
    using m unfolding d by linarith+
qed

text \<open>The arithmetic of one lead byte followed by continuation bytes, in base 64.\<close>

lemma base64_digits:
  fixes h x y z :: nat
  assumes "x < 64" "y < 64" "z < 64"
  shows "(h * 64 + x) div 64 = h" "(h * 64 + x) mod 64 = x"
    and "(h * 4096 + x * 64 + y) div 4096 = h" "(h * 4096 + x * 64 + y) div 64 mod 64 = x"
      "(h * 4096 + x * 64 + y) mod 64 = y"
    and "(h * 262144 + x * 4096 + y * 64 + z) div 262144 = h"
      "(h * 262144 + x * 4096 + y * 64 + z) div 4096 mod 64 = x"
      "(h * 262144 + x * 4096 + y * 64 + z) div 64 mod 64 = y"
      "(h * 262144 + x * 4096 + y * 64 + z) mod 64 = z"
proof -
  have m: "(k * 64 + v) mod 64 = v" if "v < 64" for k v :: nat using that by simp
  show "(h * 64 + x) div 64 = h" "(h * 64 + x) mod 64 = x" using assms by simp_all
  have d: "(h * 4096 + x * 64 + y) div 64 = h * 64 + x" using assms by (intro div_nat_eqI) simp_all
  show "(h * 4096 + x * 64 + y) div 4096 = h" using assms by (intro div_nat_eqI) simp_all
  show "(h * 4096 + x * 64 + y) div 64 mod 64 = x" unfolding d using assms by simp
  have e: "(h * 262144 + x * 4096 + y * 64 + z) div 64 = (h * 64 + x) * 64 + y"
    using assms by (intro div_nat_eqI) simp_all
  have f: "(h * 262144 + x * 4096 + y * 64 + z) div 4096 = h * 64 + x"
    using assms by (intro div_nat_eqI) simp_all
  show "(h * 262144 + x * 4096 + y * 64 + z) div 262144 = h" using assms by (intro div_nat_eqI) simp_all
  show "(h * 262144 + x * 4096 + y * 64 + z) div 4096 mod 64 = x" unfolding f using assms by simp
  show "(h * 262144 + x * 4096 + y * 64 + z) div 64 mod 64 = y" unfolding e by (rule m [OF assms(2)])
  have e1: "h * 4096 + x * 64 + y = (h * 64 + x) * 64 + y" by simp
  have e2: "h * 262144 + x * 4096 + y * 64 + z = (h * 4096 + x * 64 + y) * 64 + z" by simp
  show "(h * 4096 + x * 64 + y) mod 64 = y" unfolding e1 by (rule m [OF assms(2)])
  show "(h * 262144 + x * 4096 + y * 64 + z) mod 64 = z" unfolding e2 by (rule m [OF assms(3)])
qed

lemma utf8_next_encode:
  assumes "is_scalar c"
  shows "utf8_next (encode_utf8 c @ s) = Some (c, s)"
proof -
  consider "c < 0x80" | "0x80 \<le> c" "c < 0x800" | "0x800 \<le> c" "c < 0x10000"
    | "0x10000 \<le> c" "c < 0x110000"
    using assms unfolding is_scalar_def by linarith
  then show ?thesis
  proof cases
    case 2
    define h x where "h = c div 64" and "x = c mod 64"
    have x: "x < 64" by (simp add: x_def)
    have c: "c = h * 64 + x" using div_mod_parts(1) [of c] by (simp add: h_def x_def)
    have "2 \<le> h" "h \<le> 31" using 2 c x by linarith+
    then show ?thesis unfolding c using 2 c x base64_digits(1,2) [OF x x x, of h]
      by (simp add: encode_utf8_def Let_def)
  next
    case 3
    have hi: "c div 4096 < 16" using 3 by (simp add: div_less_iff_less_mult)
    have lo: "c div 4096 = 0 \<longrightarrow> 32 \<le> c div 64 mod 64" using 3 div_mod_parts(2) [of c] mod_less_divisor [of 64 c] by linarith
    have sur: "c div 4096 = 13 \<longrightarrow> c div 64 mod 64 < 32"
      using assms hi 3 div_mod_parts(2) [of c] mod_less_divisor [of 64 c] unfolding is_scalar_def by linarith
    show ?thesis using 3 hi lo sur div_mod_parts(2) [of c] by (simp add: encode_utf8_def Let_def)
  next
    case 4
    have hi: "c div 262144 < 5" using 4 by (simp add: div_less_iff_less_mult)
    have lt: "c mod 64 < 64" "c div 64 mod 64 < 64" by simp_all
    have lo: "c div 262144 = 0 \<longrightarrow> 16 \<le> c div 4096 mod 64" using 4 div_mod_parts(3) [of c] lt by linarith
    have top: "c div 262144 = 4 \<longrightarrow> c div 4096 mod 64 < 16" using 4 div_mod_parts(3) [of c] by linarith
    show ?thesis using 4 hi lo top div_mod_parts(3) [of c] by (simp add: encode_utf8_def Let_def)
  qed (simp add: encode_utf8_def)
qed

lemma utf8_decode_encode: "list_all is_scalar cs \<Longrightarrow> utf8_decode (utf8_encode cs) = Some cs"
proof (induction cs)
  case (Cons c cs)
  then show ?case
    using utf8_next_encode [of c "utf8_encode cs"]
    by (subst utf8_decode.simps) (simp add: utf8_encode_def)
qed (simp add: utf8_encode_def)

lemma byte_of_unat [simp]: "byte_of (unat b) = b"
  by (simp add: byte_of_def)

lemma byte_of_eq: "unat b = n \<Longrightarrow> byte_of n = b"
  by auto

lemma cont_parts: "is_cont b \<Longrightarrow> \<exists>x < 64. unat b = 128 + x"
  by (auto simp: is_cont_def intro!: exI [of _ "unat b - 128"])

lemma utf8_next_sound:
  assumes "utf8_next b = Some (c, r)"
  shows "is_scalar c \<and> b = encode_utf8 c @ r"
proof -
  obtain b0 t where b: "b = b0 # t" using assms by (cases b) auto
  consider (one) "unat b0 < 128" | (two) "194 \<le> unat b0" "unat b0 \<le> 223"
    | (three) "224 \<le> unat b0" "unat b0 \<le> 239" | (four) "240 \<le> unat b0" "unat b0 \<le> 244"
  proof -
    have "unat b0 < 128 \<or> 194 \<le> unat b0 \<and> unat b0 \<le> 244"
      using assms b by (simp add: Let_def split: if_splits)
    then show thesis using that by linarith
  qed
  then show ?thesis
  proof cases
    case one
    then show ?thesis using assms b byte_of_unat [of b0] by (auto simp: is_scalar_def encode_utf8_def)
  next
    case two
    then obtain b1 where t: "t = b1 # r" "is_cont b1" "c = (unat b0 - 192) * 64 + (unat b1 - 128)"
      using assms b by (auto split: if_splits list.splits)
    then obtain x where x: "x < 64" "unat b1 = 128 + x" using cont_parts by blast
    define h where "h = unat b0 - 192"
    have h: "unat b0 = 192 + h" "2 \<le> h" "h \<le> 31" "c = h * 64 + x" using two t x by (auto simp: h_def)
    then show ?thesis
      using x t(1) b base64_digits(1,2) [OF x(1) x(1) x(1), of h]
      by (simp add: is_scalar_def encode_utf8_def byte_of_eq [OF h(1)] byte_of_eq [OF x(2)])
  next
    case three
    then obtain b1 b2 where t: "t = b1 # b2 # r" "is_cont b1" "is_cont b2"
        "unat b0 = 224 \<longrightarrow> 160 \<le> unat b1" "unat b0 = 237 \<longrightarrow> unat b1 < 160"
        "c = (unat b0 - 224) * 4096 + (unat b1 - 128) * 64 + (unat b2 - 128)"
      using assms b by (auto simp: Let_def split: if_splits list.splits)
    obtain x y where xy: "x < 64" "y < 64" "unat b1 = 128 + x" "unat b2 = 128 + y"
      using cont_parts [OF t(2)] cont_parts [OF t(3)] by blast
    define h where "h = unat b0 - 224"
    have h: "unat b0 = 224 + h" "h \<le> 15" "c = h * 4096 + x * 64 + y" "h = 0 \<longrightarrow> 32 \<le> x" "h = 13 \<longrightarrow> x < 32"
      using three t xy by (auto simp: h_def)
    have "0x800 \<le> c" "c < 0x10000" using h xy(1,2) by linarith+
    moreover have "is_scalar c"
      unfolding is_scalar_def using h xy(1,2) by (cases "h < 13"; cases "h = 13") linarith+
    ultimately show ?thesis
      using xy t(1) b base64_digits(3-5) [OF xy(1,2,2), of h] h(3)
      by (simp add: encode_utf8_def byte_of_eq [OF h(1)] byte_of_eq [OF xy(3)] byte_of_eq [OF xy(4)])
  next
    case four
    then obtain b1 b2 b3 where t: "t = b1 # b2 # b3 # r" "is_cont b1"
        "is_cont b2" "is_cont b3" "unat b0 = 240 \<longrightarrow> 144 \<le> unat b1" "unat b0 = 244 \<longrightarrow> unat b1 < 144"
        "c = (unat b0 - 240) * 262144 + (unat b1 - 128) * 4096 + (unat b2 - 128) * 64 + (unat b3 - 128)"
      using assms b by (auto simp: Let_def split: if_splits list.splits)
    obtain x y z where xy: "x < 64" "y < 64" "z < 64" "unat b1 = 128 + x" "unat b2 = 128 + y"
        "unat b3 = 128 + z"
      using cont_parts [OF t(2)] cont_parts [OF t(3)] cont_parts [OF t(4)] by blast
    define h where "h = unat b0 - 240"
    have h: "unat b0 = 240 + h" "h \<le> 4" "c = h * 262144 + x * 4096 + y * 64 + z" "h = 0 \<longrightarrow> 16 \<le> x"
        "h = 4 \<longrightarrow> x < 16"
      using four t xy by (auto simp: h_def)
    have "0x10000 \<le> c" "c < 0x110000" using h xy(1-3) by linarith+
    then show ?thesis
      using xy t(1) b base64_digits(6-9) [OF xy(1,2,3), of h] h(3)
      by (simp add: is_scalar_def encode_utf8_def byte_of_eq [OF h(1)] byte_of_eq [OF xy(4)]
          byte_of_eq [OF xy(5)] byte_of_eq [OF xy(6)])
  qed
qed

lemma utf8_decode_sound: "utf8_decode b = Some cs \<Longrightarrow> list_all is_scalar cs \<and> utf8_encode cs = b"
proof (induction b arbitrary: cs rule: utf8_decode.induct)
  case (1 b)
  show ?case
  proof (cases "b = []")
    case True
    with 1 show ?thesis by (simp add: utf8_encode_def)
  next
    case False
    with "1.prems" obtain c r cs' where n: "utf8_next b = Some (c, r)" and d: "utf8_decode r = Some cs'"
        and cs: "cs = c # cs'"
      by (subst (asm) utf8_decode.simps) (auto split: option.splits)
    from "1.IH" [OF False n refl d] utf8_next_sound [OF n] cs show ?thesis
      by (simp add: utf8_encode_def)
  qed
qed

lemma utf8_decode_ascii: "list_all (\<lambda>b. unat b < 128) xs \<Longrightarrow> utf8_decode xs = Some (map unat xs)"
proof (induction xs)
  case (Cons b xs)
  then show ?case by (subst utf8_decode.simps) simp
qed simp

lemma from_utf8_ascii: "list_all (\<lambda>b. unat b < 128) xs \<Longrightarrow> from_utf8 xs = Some xs"
  by (simp add: from_utf8_def utf8_decode_ascii)

subsection \<open>trim\<close>

text \<open>\<open>char::is_whitespace\<close>: the characters of the Unicode property \<open>White_Space\<close>.\<close>

definition is_whitespace :: "nat \<Rightarrow> bool" where
  "is_whitespace c \<longleftrightarrow> 0x09 \<le> c \<and> c \<le> 0x0D \<or> c = 0x20 \<or> c = 0x85 \<or> c = 0xA0 \<or> c = 0x1680
     \<or> 0x2000 \<le> c \<and> c \<le> 0x200A \<or> c = 0x2028 \<or> c = 0x2029 \<or> c = 0x202F \<or> c = 0x205F \<or> c = 0x3000"

definition strip :: "('a \<Rightarrow> bool) \<Rightarrow> 'a list \<Rightarrow> 'a list" where
  "strip P xs = rev (dropWhile P (rev (dropWhile P xs)))"

definition str_trim :: "str \<Rightarrow> str" where
  "str_trim s = (case utf8_decode s of
       Some cs \<Rightarrow> utf8_encode (strip is_whitespace cs)
     | None \<Rightarrow> s)"

lemma set_strip: "set (strip P xs) \<subseteq> set xs"
  by (auto simp: strip_def dest!: set_dropWhileD)

lemma strip_pad:
  assumes "list_all P pre" "list_all P post" "xs = [] \<or> \<not> P (hd xs) \<and> \<not> P (last xs)"
  shows "strip P (pre @ xs @ post) = xs"
proof (cases "xs = []")
  case True
  with assms have "list_all P (pre @ post)" by simp
  then have "dropWhile P (pre @ post) = []" unfolding dropWhile_eq_Nil_conv list_all_iff .
  with True show ?thesis by (simp only: strip_def append_Nil rev.simps dropWhile.simps)
next
  case False
  have "dropWhile P (pre @ xs @ post) = xs @ post"
    using assms False by (cases xs) (auto simp: list_all_iff dropWhile_append2)
  moreover have "dropWhile P (rev post @ rev xs) = rev xs"
    using assms False dropWhile_append2 [of "rev post" P "rev xs"]
    by (cases xs rule: rev_cases) (simp_all add: list_all_iff)
  ultimately show ?thesis by (simp add: strip_def)
qed

lemma str_trim_pad:
  assumes "list_all is_scalar (pre @ xs @ post)" "list_all is_whitespace pre" "list_all is_whitespace post"
    "xs = [] \<or> \<not> is_whitespace (hd xs) \<and> \<not> is_whitespace (last xs)"
  shows "str_trim (utf8_encode (pre @ xs @ post)) = utf8_encode xs"
  using utf8_decode_encode [OF assms(1)] strip_pad [OF assms(2-4)] by (simp add: str_trim_def)

end
