(* ===== verification/Phi_Base64.thy ===== *)
theory Phi_Base64
  imports Phi_Text Phi_Utf8 Phi_Error
begin

section \<open>URL-safe base64 without padding (vendored base64)\<close>

text \<open>
  The encoder behind \<open>URL_SAFE_NO_PAD.encode\<close>, as written: a fast loop that reads 26-byte
  windows as four 64-bit words and emits 32 symbols per turn, a loop over the remaining
  3-byte groups, and the tail of one or two bytes, all into a buffer of the precomputed
  length. It is shown equal to the group-by-group definition of RFC 4648 and free of panics
  for every slice Rust can hold, and that definition is shown injective.
\<close>

definition URL_SAFE :: bytes where
  "URL_SAFE = ascii ''ABCDEFGHIJKLMNOPQRSTUVWXYZabcdefghijklmnopqrstuvwxyz0123456789-_''"

definition encoded_len :: "usize \<Rightarrow> usize option" where
  "encoded_len bytes_len =
     (let rem = bytes_len mod 3;
          complete_input_chunks = bytes_len div 3 in
      if complete_input_chunks * 4 \<ge> 2 ^ 64 then None
      else let complete_chunk_output = complete_input_chunks * 4 in
        if rem > 0 then checked_add complete_chunk_output (if rem = 1 then 2 else 3)
        else Some complete_chunk_output)"

definition read_u64 :: "bytes \<Rightarrow> (u64, crypto_error) result" where
  "read_u64 s = bind_r (index_range s 0 8) (\<lambda>b. Ok (word_of_nat (be_val b)))"

text \<open>The eight symbols of the upper 48 bits of a word.\<close>

definition symbols8 :: "u64 \<Rightarrow> bytes" where
  "symbols8 w = map (\<lambda>s. URL_SAFE ! unat (drop_bit s w AND 0x3F)) [58, 52, 46, 40, 34, 28, 22, 16]"

definition fast_chunk :: "bytes \<Rightarrow> (bytes, crypto_error) result" where
  "fast_chunk chunk =
     bind_r (read_u64 (drop 0 chunk)) (\<lambda>w0.
     bind_r (read_u64 (drop 6 chunk)) (\<lambda>w1.
     bind_r (read_u64 (drop 12 chunk)) (\<lambda>w2.
     bind_r (read_u64 (drop 18 chunk)) (\<lambda>w3.
     Ok (symbols8 w0 @ symbols8 w1 @ symbols8 w2 @ symbols8 w3)))))"

text \<open>\<open>cap\<close> is the length of the output buffer; \<open>out\<close> is what has been written to it so far.\<close>

function fast_loop :: "bytes \<Rightarrow> nat \<Rightarrow> usize \<Rightarrow> usize \<Rightarrow> bytes \<Rightarrow> (usize \<times> bytes, crypto_error) result" where
  "fast_loop input cap last_fast_index input_index out =
     (if input_index \<le> last_fast_index then
        bind_r (index_range input input_index (input_index + 26)) (\<lambda>chunk.
        if length out + 32 > cap then Panic
        else bind_r (fast_chunk chunk) (\<lambda>o32.
          fast_loop input cap last_fast_index (input_index + 24) (out @ o32)))
      else Ok (input_index, out))"
  by pat_completeness auto
termination
  by (relation "measure (\<lambda>(input, cap, last, i, out). Suc last - i)") auto

definition symbols4 :: "byte \<Rightarrow> byte \<Rightarrow> byte \<Rightarrow> bytes" where
  "symbols4 a b c =
     [URL_SAFE ! unat (drop_bit 2 a),
      URL_SAFE ! unat ((push_bit 4 a OR drop_bit 4 b) AND 0x3F),
      URL_SAFE ! unat ((push_bit 2 b OR drop_bit 6 c) AND 0x3F),
      URL_SAFE ! unat (c AND 0x3F)]"

function slow_loop :: "bytes \<Rightarrow> nat \<Rightarrow> usize \<Rightarrow> usize \<Rightarrow> bytes \<Rightarrow> (bytes, crypto_error) result" where
  "slow_loop input cap start_of_rem input_index out =
     (if input_index < start_of_rem then
        bind_r (index_range input input_index (input_index + 3)) (\<lambda>chunk.
        if length out + 4 > cap then Panic
        else slow_loop input cap start_of_rem (input_index + 3)
               (out @ symbols4 (chunk ! 0) (chunk ! 1) (chunk ! 2)))
      else Ok out)"
  by pat_completeness auto
termination
  by (relation "measure (\<lambda>(input, cap, start, i, out). start - i)") auto

declare fast_loop.simps [simp del] slow_loop.simps [simp del]

definition encode_tail :: "bytes \<Rightarrow> nat \<Rightarrow> nat \<Rightarrow> usize \<Rightarrow> bytes \<Rightarrow> (bytes, crypto_error) result" where
  "encode_tail input cap rem start_of_rem out =
     (if rem = 2 then
        bind_r (index input start_of_rem) (\<lambda>a.
        bind_r (index input (start_of_rem + 1)) (\<lambda>b.
        if length out + 3 > cap then Panic
        else Ok (out @ [URL_SAFE ! unat (drop_bit 2 a),
                        URL_SAFE ! unat ((push_bit 4 a OR drop_bit 4 b) AND 0x3F),
                        URL_SAFE ! unat (push_bit 2 b AND 0x3F)])))
      else if rem = 1 then
        bind_r (index input start_of_rem) (\<lambda>a.
        if length out + 2 > cap then Panic
        else Ok (out @ [URL_SAFE ! unat (drop_bit 2 a), URL_SAFE ! unat (push_bit 4 a AND 0x3F)]))
      else Ok out)"

definition internal_encode :: "bytes \<Rightarrow> nat \<Rightarrow> (bytes, crypto_error) result" where
  "internal_encode input cap =
     (let last_fast_index = length input - 26;
          rem = length input mod 3;
          start_of_rem = length input - rem in
      bind_r (if last_fast_index > 0 then fast_loop input cap last_fast_index 0 [] else Ok (0, []))
        (\<lambda>(input_index, out).
      bind_r (slow_loop input cap start_of_rem input_index out) (\<lambda>out.
      encode_tail input cap rem start_of_rem out)))"

text \<open>
  \<open>Engine::encode\<close>: the buffer is zeroed, filled from the front, and must be full (the
  \<open>debug_assert\<close>s) and valid UTF-8.
\<close>

definition base64_encode :: "bytes \<Rightarrow> (str, crypto_error) result" where
  "base64_encode input =
     (case encoded_len (length input) of
        None \<Rightarrow> Panic
      | Some encoded_size \<Rightarrow>
          bind_r (internal_encode input encoded_size) (\<lambda>written.
          if length written \<noteq> encoded_size then Panic
          else case from_utf8 written of Some s \<Rightarrow> Ok s | None \<Rightarrow> Panic))"

subsection \<open>The reference definition\<close>

definition symbol :: "nat \<Rightarrow> byte" where
  "symbol i = URL_SAFE ! (i mod 64)"

fun b64 :: "bytes \<Rightarrow> bytes" where
  "b64 [] = []"
| "b64 [a] = [symbol (unat a div 4), symbol (unat a mod 4 * 16)]"
| "b64 [a, b] = [symbol (unat a div 4), symbol (unat a mod 4 * 16 + unat b div 16), symbol (unat b mod 16 * 4)]"
| "b64 (a # b # c # bs) =
     [symbol (unat a div 4), symbol (unat a mod 4 * 16 + unat b div 16),
      symbol (unat b mod 16 * 4 + unat c div 64), symbol (unat c mod 64)] @ b64 bs"

subsection \<open>Symbols\<close>

lemma unat_and_3f [simp]: "unat (w AND 0x3F :: 'a::len word) = unat w mod 64"
  using unat_low_bits [of w 6] by (simp add: mask_eq_exp_minus_1)

lemma unat_push_byte: "unat (push_bit n (a :: byte)) = unat a * 2 ^ n mod 256"
proof -
  have "push_bit n a = word_of_nat (unat a * 2 ^ n)" by (simp add: push_bit_eq_mult)
  then show ?thesis by (simp only: unat_byte_of_nat)
qed

lemma unat_plus_byte: "unat (a + b :: byte) = (unat a + unat b) mod 256"
  using unat_byte_of_nat [of "unat a + unat b"] by simp

lemma byte_or_shift:
  assumes "unat (b :: byte) < 2 ^ n"
  shows "push_bit n a OR b = push_bit n a + b"
proof -
  have "push_bit n a AND b = 0"
  proof (rule bit_word_eqI)
    fix i
    have "\<not> bit b i" if "n \<le> i"
    proof -
      have "(2 :: nat) ^ n \<le> 2 ^ i" using that by simp
      then have "unat b < 2 ^ i" using assms by linarith
      then have "\<not> bit (unat b) i" by (simp add: bit_iff_odd)
      then show ?thesis by (simp add: bit_unsigned_iff)
    qed
    then show "bit (push_bit n a AND b) i = bit 0 i"
      by (auto simp: bit_and_iff bit_push_bit_iff)
  qed
  then show ?thesis by (simp add: disjunctive_add_eq_or)
qed

lemma mod_256_64: "(x mod 256) mod 64 = x mod (64 :: nat)"
  by (simp add: mod_mod_cancel)

lemma mod_add_256_64: "(x mod 256 + y) mod 256 mod 64 = (x + y) mod (64 :: nat)"
  by (simp add: mod_mod_cancel mod_add_left_eq)

lemma scaled_mod:
  fixes a d k m :: nat
  assumes "d < k"
  shows "(a * k + d) mod (k * m) = a mod m * k + d"
  using assms mod_mult2_eq [of "a * k + d" k m] by (simp add: mult.commute)

lemma sextet2: "unat (push_bit 4 a OR drop_bit 4 b :: byte) mod 64 = unat a mod 4 * 16 + unat b div 16"
proof -
  have b: "unat (drop_bit 4 b) < 2 ^ 4" using unat_byte_lt [of b] by (simp add: unat_shift)
  have "unat (push_bit 4 a OR drop_bit 4 b) mod 64 = (unat a * 16 + unat b div 16) mod 64"
    by (simp add: byte_or_shift [OF b] unat_plus_byte unat_push_byte unat_shift mod_add_256_64)
  also have "\<dots> = unat a mod 4 * 16 + unat b div 16"
    using scaled_mod [of "unat b div 16" 16 "unat a" 4] unat_byte_lt [of b] by simp
  finally show ?thesis .
qed

lemma sextet3: "unat (push_bit 2 b OR drop_bit 6 c :: byte) mod 64 = unat b mod 16 * 4 + unat c div 64"
proof -
  have c: "unat (drop_bit 6 c) < 2 ^ 2" using unat_byte_lt [of c] by (simp add: unat_shift)
  have "unat (push_bit 2 b OR drop_bit 6 c) mod 64 = (unat b * 4 + unat c div 64) mod 64"
    by (simp add: byte_or_shift [OF c] unat_plus_byte unat_push_byte unat_shift mod_add_256_64)
  also have "\<dots> = unat b mod 16 * 4 + unat c div 64"
    using scaled_mod [of "unat c div 64" 4 "unat b" 16] unat_byte_lt [of c] by simp
  finally show ?thesis .
qed

lemma sextet_tail:
  "unat (push_bit 4 a :: byte) mod 64 = unat a mod 4 * 16"
  "unat (push_bit 2 b :: byte) mod 64 = unat b mod 16 * 4"
  using scaled_mod [of 0 16 "unat a" 4] scaled_mod [of 0 4 "unat b" 16]
  by (simp_all add: unat_push_byte mod_256_64)

lemma sextet_bounds:
  "unat (a :: byte) div 4 < 64"
  "unat (a :: byte) mod 4 * 16 + unat (b :: byte) div 16 < 64"
  "unat (b :: byte) mod 16 * 4 + unat (c :: byte) div 64 < 64"
proof -
  have "unat b div 16 < 16" "unat c div 64 < 4" "unat a mod 4 < 4" "unat b mod 16 < 16"
    using unat_byte_lt [of b] unat_byte_lt [of c] by simp_all
  then show "unat (a :: byte) mod 4 * 16 + unat (b :: byte) div 16 < 64"
    "unat (b :: byte) mod 16 * 4 + unat (c :: byte) div 64 < 64" by linarith+
  show "unat a div 4 < 64" using unat_byte_lt [of a] by simp
qed

lemma symbols4_eq: "symbols4 a b c = b64 [a, b, c]"
  using sextet_bounds(1) [of a] sextet_bounds(2) [of a b] sextet_bounds(3) [of b c]
  by (simp add: symbols4_def symbol_def sextet2 sextet3 unat_shift)

subsection \<open>The fast loop\<close>

lemma group_digits:
  fixes P a b c :: nat
  assumes "a < 256" "b < 256" "c < 256"
  shows "(P * 256 + a) div 4 mod 64 = a div 4"
    and "((P * 256 + a) * 256 + b) div 16 mod 64 = a mod 4 * 16 + b div 16"
    and "(((P * 256 + a) * 256 + b) * 256 + c) div 64 mod 64 = b mod 16 * 4 + c div 64"
    and "(((P * 256 + a) * 256 + b) * 256 + c) mod 64 = c mod 64"
proof -
  have "(P * 256 + a) div 4 = P * 64 + a div 4" by simp
  then show "(P * 256 + a) div 4 mod 64 = a div 4" using assms by simp
  have b: "b div 16 < 16" "c div 64 < 4" using assms by simp_all
  have "((P * 256 + a) * 256 + b) div 16 = (P * 256 + a) * 16 + b div 16" by simp
  then have "((P * 256 + a) * 256 + b) div 16 mod 64 = (P * 256 + a) mod 4 * 16 + b div 16"
    using scaled_mod [OF b(1), of "P * 256 + a" 4] by simp
  moreover have "(P * 256 + a) mod 4 = a mod 4" by (simp add: mod_add_left_eq mod_mult_right_eq flip: mod_add_eq)
  ultimately show "((P * 256 + a) * 256 + b) div 16 mod 64 = a mod 4 * 16 + b div 16" by simp
  have "(((P * 256 + a) * 256 + b) * 256 + c) div 64 = ((P * 256 + a) * 256 + b) * 4 + c div 64" by simp
  then have "(((P * 256 + a) * 256 + b) * 256 + c) div 64 mod 64
      = ((P * 256 + a) * 256 + b) mod 16 * 4 + c div 64"
    using scaled_mod [OF b(2), of "(P * 256 + a) * 256 + b" 16] by simp
  moreover have "((P * 256 + a) * 256 + b) mod 16 = b mod 16" by (simp flip: mod_add_eq)
  ultimately show "(((P * 256 + a) * 256 + b) * 256 + c) div 64 mod 64 = b mod 16 * 4 + c div 64" by simp
  show "(((P * 256 + a) * 256 + b) * 256 + c) mod 64 = c mod 64" by (simp flip: mod_add_eq)
qed

lemma be_val_append: "be_val (xs @ ys) = be_val xs * 256 ^ length ys + be_val ys"
proof (induction ys rule: rev_induct)
  case (snoc y ys)
  have "be_val ((xs @ ys) @ [y]) = be_val (xs @ ys) * 256 + unat y" by (rule be_val_snoc)
  then show ?case using snoc by (simp add: algebra_simps)
qed simp

lemma be_val_shift: "be_val (xs @ ys) div (256 ^ length ys * k) = be_val xs div k"
  using be_val_lt [of ys] by (simp add: be_val_append div_mult2_eq)

lemma group_at:
  "be_val (xs @ a # ys) div (256 ^ length ys * 4) mod 64 = unat a div 4"
  "be_val (xs @ a # b # ys) div (256 ^ length ys * 16) mod 64 = unat a mod 4 * 16 + unat b div 16"
  "be_val (xs @ a # b # c # ys) div (256 ^ length ys * 64) mod 64 = unat b mod 16 * 4 + unat c div 64"
  "be_val (xs @ a # b # c # ys) div 256 ^ length ys mod 64 = unat c mod 64"
proof -
  note lt = unat_byte_lt [of a] unat_byte_lt [of b] unat_byte_lt [of c]
  have v: "be_val (xs @ [a]) = be_val xs * 256 + unat a"
      "be_val (xs @ [a, b]) = (be_val xs * 256 + unat a) * 256 + unat b"
      "be_val (xs @ [a, b, c]) = ((be_val xs * 256 + unat a) * 256 + unat b) * 256 + unat c"
    using be_val_snoc [of "xs @ [a]" b] be_val_snoc [of "xs @ [a, b]" c] by simp_all
  note g = group_digits [OF lt, of "be_val xs", folded v]
  show "be_val (xs @ a # ys) div (256 ^ length ys * 4) mod 64 = unat a div 4"
    using g(1) be_val_shift [of "xs @ [a]" ys 4] by simp
  show "be_val (xs @ a # b # ys) div (256 ^ length ys * 16) mod 64 = unat a mod 4 * 16 + unat b div 16"
    using g(2) be_val_shift [of "xs @ [a, b]" ys 16] by simp
  show "be_val (xs @ a # b # c # ys) div (256 ^ length ys * 64) mod 64 = unat b mod 16 * 4 + unat c div 64"
    using g(3) be_val_shift [of "xs @ [a, b, c]" ys 64] by simp
  show "be_val (xs @ a # b # c # ys) div 256 ^ length ys mod 64 = unat c mod 64"
    using g(4) be_val_shift [of "xs @ [a, b, c]" ys 1] by simp
qed

lemma symbols8_eq:
  assumes "length s = 8"
  shows "symbols8 (word_of_nat (be_val s)) = b64 (take 6 s)"
proof -
  obtain a b c d e f g h where s: "s = [a, b, c, d, e, f, g, h]"
    using assms by (auto simp: numeral_eq_Suc length_Suc_conv)
  let ?w = "word_of_nat (be_val s) :: u64"
  have "be_val s < 2 ^ 64" using be_val_lt [of s] assms by simp
  then have u: "unat ?w = be_val s" by (simp add: unat_of_nat)
  have dig: "unat (drop_bit n ?w) mod 64 = be_val s div 2 ^ n mod 64" for n
    using u by (simp add: unat_shift)
  have t: "take 6 s = [a, b, c, d, e, f]" by (simp add: s)
  note first = group_at(1) [of "[]" a "[b, c, d, e, f, g, h]"] group_at(2) [of "[]" a b "[c, d, e, f, g, h]"]
      group_at(3) [of "[]" a b c "[d, e, f, g, h]"] group_at(4) [of "[]" a b c "[d, e, f, g, h]"]
  note second = group_at(1) [of "[a, b, c]" d "[e, f, g, h]"] group_at(2) [of "[a, b, c]" d e "[f, g, h]"]
      group_at(3) [of "[a, b, c]" d e f "[g, h]"] group_at(4) [of "[a, b, c]" d e f "[g, h]"]
  have pow: "(2 :: nat) ^ 58 = 256 ^ 7 * 4" "(2 :: nat) ^ 52 = 256 ^ 6 * 16" "(2 :: nat) ^ 46 = 256 ^ 5 * 64"
    "(2 :: nat) ^ 40 = 256 ^ 5" "(2 :: nat) ^ 34 = 256 ^ 4 * 4" "(2 :: nat) ^ 28 = 256 ^ 3 * 16"
    "(2 :: nat) ^ 22 = 256 ^ 2 * 64" "(2 :: nat) ^ 16 = 256 ^ 2" by simp_all
  have len: "length [x1, x2] = 2" "length [x1, x2, x3] = 3" "length [x1, x2, x3, x4] = 4"
    "length [x1, x2, x3, x4, x5] = 5" "length [x1, x2, x3, x4, x5, x6] = 6"
    "length [x1, x2, x3, x4, x5, x6, x7] = 7" for x1 x2 x3 x4 x5 x6 x7 :: byte by simp_all
  note all = first [unfolded len append_Nil, folded pow s] second [unfolded len append_Cons append_Nil, folded pow s]
  show ?thesis
    using sextet_bounds(1) [of a] sextet_bounds(2) [of a b] sextet_bounds(3) [of b c]
      sextet_bounds(1) [of d] sextet_bounds(2) [of d e] sextet_bounds(3) [of e f]
    unfolding symbols8_def t by (simp only: list.map dig unat_and_3f all) (simp add: symbol_def)
qed

subsection \<open>The loops\<close>

lemma b64_append: "length xs mod 3 = 0 \<Longrightarrow> b64 (xs @ ys) = b64 xs @ b64 ys"
proof (induction xs rule: b64.induct)
  case (4 a b c bs)
  have "length bs mod 3 = 0" using "4.prems" by simp
  with "4.IH" show ?case by simp
qed simp_all

definition len64 :: "nat \<Rightarrow> nat" where
  "len64 n = n div 3 * 4 + (if n mod 3 = 0 then 0 else n mod 3 + 1)"

lemma len64_step: "len64 (n + 3) = len64 n + 4" "len64 (n + 24) = len64 n + 32"
proof -
  have "(n + 3) div 3 = n div 3 + 1" "(n + 24) div 3 = n div 3 + 8" "(n + 3) mod 3 = n mod 3"
      "(n + 24) mod 3 = n mod 3" by presburger+
  then show "len64 (n + 3) = len64 n + 4" "len64 (n + 24) = len64 n + 32"
    by (simp_all only: len64_def) simp_all
qed

lemma length_b64 [simp]: "length (b64 xs) = len64 (length xs)"
proof (induction xs rule: b64.induct)
  case (4 a b c bs)
  then show ?case using len64_step(1) [of "length bs"] by (simp add: numeral_3_eq_3)
qed (simp_all add: len64_def)

lemma three_elements:
  assumes "length xs = 3"
  shows "\<exists>a b c. xs = [a, b, c]"
  using assms by (auto simp: numeral_3_eq_3 length_Suc_conv)

lemma encoded_len_eq:
  assumes "n < 2 ^ 63"
  shows "encoded_len n = Some (len64 n)"
proof -
  have "n div 3 * 4 + 3 < 2 ^ 64" using assms by simp
  moreover have "n mod 3 = 0 \<or> n mod 3 = 1 \<or> n mod 3 = 2" by presburger
  ultimately show ?thesis
    by (auto simp: encoded_len_def len64_def Let_def checked_add_def)
qed

lemma fast_chunk_eq:
  assumes "length chunk = 26"
  shows "fast_chunk chunk = Ok (b64 (take 24 chunk))"
proof -
  have rd: "read_u64 (drop n chunk) = Ok (word_of_nat (be_val (take 8 (drop n chunk))))"
    if "n \<le> 18" for n using assms that by (simp add: read_u64_def index_range_def)
  have sy: "symbols8 (word_of_nat (be_val (take 8 (drop n chunk)))) = b64 (take 6 (drop n chunk))"
    if "n \<le> 18" for n
    using assms that symbols8_eq [of "take 8 (drop n chunk)"] by simp
  have cut: "take (6 + m) (drop n chunk) = take 6 (drop n chunk) @ take m (drop (n + 6) chunk)" for n m
    using take_add [of 6 m "drop n chunk"] by (simp only: drop_drop add.commute [of n 6])
  have "take 24 chunk = take 6 (drop 0 chunk) @ take 6 (drop 6 chunk) @ take 6 (drop 12 chunk)
      @ take 6 (drop 18 chunk)"
    using cut [of 18 0] cut [of 12 6] cut [of 6 12] by simp
  then have "b64 (take 24 chunk) = b64 (take 6 (drop 0 chunk)) @ b64 (take 6 (drop 6 chunk))
      @ b64 (take 6 (drop 12 chunk)) @ b64 (take 6 (drop 18 chunk))"
    using assms by (simp add: b64_append)
  then show ?thesis
    using rd [of 0] rd [of 6] rd [of 12] rd [of 18] sy [of 0] sy [of 6] sy [of 12] sy [of 18]
    by (simp add: fast_chunk_def)
qed

lemma len64_mono: "i \<le> n \<Longrightarrow> i mod 3 = 0 \<Longrightarrow> len64 i \<le> len64 n"
  unfolding len64_def using div_le_mono [of i n 3] by auto

lemma take_grow: "take (i + n) xs = take i xs @ take n (drop i xs)"
  by (simp add: take_add)

lemma fast_loop_ok:
  assumes "i mod 3 = 0" "i \<le> length input" "26 < length input"
  shows "\<exists>j. fast_loop input (len64 (length input)) (length input - 26) i (b64 (take i input))
       = Ok (j, b64 (take j input)) \<and> j mod 3 = 0 \<and> j \<le> length input"
  using assms
proof (induction "length input - i" arbitrary: i rule: less_induct)
  case less
  show ?case
  proof (cases "i \<le> length input - 26")
    case False
    with less.prems show ?thesis by (subst fast_loop.simps) auto
  next
    case True
    let ?i = "i + 24"
    have le: "i + 26 \<le> length input" and m: "?i mod 3 = 0" using True less.prems by presburger+
    let ?chunk = "take 26 (drop i input)"
    have chunk: "fast_chunk ?chunk = Ok (b64 (take 24 (drop i input)))"
      using fast_chunk_eq [of ?chunk] le by simp
    have grow: "b64 (take i input) @ b64 (take 24 (drop i input)) = b64 (take ?i input)"
      using less.prems le by (simp add: take_grow b64_append)
    have "len64 ?i \<le> len64 (length input)" using len64_mono m le by simp
    then have room: "length (b64 (take i input)) + 32 \<le> len64 (length input)"
      using le len64_step(2) [of i] by simp
    have step: "fast_loop input (len64 (length input)) (length input - 26) i (b64 (take i input))
        = fast_loop input (len64 (length input)) (length input - 26) ?i (b64 (take ?i input))"
      using True le room chunk grow
      by (subst fast_loop.simps) (simp add: index_range_def)
    show ?thesis unfolding step
      using less.hyps [of ?i] m le less.prems(3) by simp
  qed
qed

lemma slow_loop_ok:
  assumes "i mod 3 = 0" "i \<le> length input - length input mod 3"
  shows "slow_loop input (len64 (length input)) (length input - length input mod 3) i (b64 (take i input))
       = Ok (b64 (take (length input - length input mod 3) input))"
  using assms
proof (induction "length input - i" arbitrary: i rule: less_induct)
  case less
  let ?start = "length input - length input mod 3"
  show ?case
  proof (cases "i < ?start")
    case False
    with less.prems show ?thesis by (subst slow_loop.simps) simp
  next
    case True
    let ?i = "i + 3"
    have m: "?i mod 3 = 0" and le: "?i \<le> ?start" using True less.prems by presburger+
    then have le': "?i \<le> length input" by simp
    obtain a b c where abc: "take 3 (drop i input) = [a, b, c]"
      using three_elements [of "take 3 (drop i input)"] le' by auto
    have grow: "b64 (take i input) @ b64 [a, b, c] = b64 (take ?i input)"
      using less.prems le' abc by (simp add: take_grow b64_append)
    have "len64 ?i \<le> len64 (length input)" using len64_mono m le' by simp
    then have room: "length (b64 (take i input)) + 4 \<le> len64 (length input)"
      using le' len64_step(1) [of i] by simp
    have step: "slow_loop input (len64 (length input)) ?start i (b64 (take i input))
        = slow_loop input (len64 (length input)) ?start ?i (b64 (take ?i input))"
      using True le' room abc grow symbols4_eq [of a b c]
      by (subst slow_loop.simps) (simp add: index_range_def)
    show ?thesis unfolding step using less.hyps [of ?i] m le True by simp
  qed
qed

lemma encode_tail_ok:
  fixes input :: bytes
  defines "start \<equiv> length input - length input mod 3"
  shows "encode_tail input (len64 (length input)) (length input mod 3) start (b64 (take start input))
     = Ok (b64 input)"
proof -
  have st: "start mod 3 = 0" "start \<le> length input" "length input = start + length input mod 3"
    unfolding start_def by presburger+
  have split: "b64 input = b64 (take start input) @ b64 (drop start input)"
    using b64_append [of "take start input" "drop start input"] st(1,2) by simp
  have total: "length (b64 (take start input)) + length (b64 (drop start input)) = len64 (length input)"
    using arg_cong [OF split, of length] by simp
  have len: "length (drop start input) = length input mod 3" "length input mod 3 < 3" using st by simp_all
  consider "length input mod 3 = 0" "drop start input = []"
    | a where "length input mod 3 = 1" "drop start input = [a]"
    | a b where "length input mod 3 = 2" "drop start input = [a, b]"
    | a b c ds where "drop start input = a # b # c # ds"
    using len(1) by (metis One_nat_def Suc_1 length_Cons list.exhaust list.size(3))
  then show ?thesis
  proof cases
    case 1
    then show ?thesis using split by (simp add: encode_tail_def)
  next
    case (2 a)
    then have "input ! start = a" "start < length input"
      using st(3) by (metis hd_drop_conv_nth list.sel(1) less_add_one, simp)
    then show ?thesis
      using 2 split total sextet_bounds(1) [of a] sextet_bounds(2) [of a 0]
      by (simp add: encode_tail_def index_def symbol_def unat_shift sextet_tail len64_def)
  next
    case (3 a b)
    have lt: "start + 1 < length input" using st(3) 3(1) by simp
    have "input ! start = a" "input ! (start + 1) = b"
      using nth_drop [of start input 0] nth_drop [of start input 1] 3(2) lt by auto
    then show ?thesis
      using 3 split total lt sextet_bounds(1) [of a] sextet_bounds(2) [of a b] sextet_bounds(3) [of b 0]
      by (simp add: encode_tail_def index_def symbol_def unat_shift sextet2 sextet_tail len64_def)
  next
    case 4
    then show ?thesis using len by simp
  qed
qed

lemma internal_encode_ok: "internal_encode input (len64 (length input)) = Ok (b64 input)"
proof -
  let ?start = "length input - length input mod 3"
  obtain j where j: "(if length input - 26 > 0
        then fast_loop input (len64 (length input)) (length input - 26) 0 [] else Ok (0, []))
      = Ok (j, b64 (take j input))" "j mod 3 = 0" "j \<le> length input"
    using fast_loop_ok [of 0 input] by (cases "26 < length input") auto
  have "j \<le> ?start" using j(2,3) by presburger
  then show ?thesis
    using j slow_loop_ok [of j input] encode_tail_ok [of input] by (simp add: internal_encode_def Let_def)
qed

lemma symbol_ascii: "unat (symbol i) < 128"
proof -
  have "list_all (\<lambda>b. unat b < 128) URL_SAFE" "length URL_SAFE = 64"
    by (simp_all add: URL_SAFE_def ascii_def)
  then show ?thesis by (simp add: symbol_def list_all_length)
qed

lemma b64_ascii: "list_all (\<lambda>b. unat b < 128) (b64 xs)"
  by (induction xs rule: b64.induct) (simp_all add: symbol_ascii)

lemma base64_encode_eq:
  assumes "length input < 2 ^ 63"
  shows "base64_encode input = Ok (b64 input)"
  using encoded_len_eq [OF assms]
  by (simp add: base64_encode_def internal_encode_ok from_utf8_ascii [OF b64_ascii])

subsection \<open>The text determines the bytes\<close>

lemma symbol_inj: "i < 64 \<Longrightarrow> j < 64 \<Longrightarrow> symbol i = symbol j \<Longrightarrow> i = j"
proof -
  have "distinct URL_SAFE" "length URL_SAFE = 64" by (simp_all add: URL_SAFE_def ascii_def)
  then show "i < 64 \<Longrightarrow> j < 64 \<Longrightarrow> symbol i = symbol j \<Longrightarrow> i = j"
    by (simp add: symbol_def nth_eq_iff_index_eq)
qed

lemma byte_split: "unat (a :: byte) div 4 = unat b div 4 \<Longrightarrow> unat a mod 4 = unat b mod 4 \<Longrightarrow> a = b"
  by (metis div_mult_mod_eq word_unat_eq_iff)

lemma pair_digits:
  assumes "x * k + y = x' * k + y'" "y < k" "y' < (k :: nat)"
  shows "x = x' \<and> y = y'"
proof -
  have "(x * k + y) div k = x" "(x' * k + y') div k = x'" using assms(2,3) by auto
  then have "x = x'" using assms(1) by simp
  with assms(1) show ?thesis by simp
qed

lemma len64_inj:
  assumes "len64 m = len64 n"
  shows "m = n"
proof -
  let ?t = "\<lambda>n :: nat. if n mod 3 = 0 then 0 else n mod 3 + 1"
  have "?t n < 4" for n by (simp add: less_Suc_eq_le mod_less_divisor [of 3 n, unfolded numeral_3_eq_3 less_Suc_eq_le])
  then have "m div 3 = n div 3 \<and> ?t m = ?t n"
    using assms pair_digits [of "m div 3" 4 "?t m" "n div 3" "?t n"] unfolding len64_def by blast
  then have "m div 3 = n div 3" "m mod 3 = n mod 3" by (auto split: if_splits)
  then show ?thesis by (metis div_mult_mod_eq)
qed

lemma group_inj:
  assumes "b64 [a, b, c] = b64 [a', b', c']"
  shows "a = a' \<and> b = b' \<and> c = c'"
proof -
  note bd = sextet_bounds(1) [of a] sextet_bounds(2) [of a b] sextet_bounds(3) [of b c]
    sextet_bounds(1) [of a'] sextet_bounds(2) [of a' b'] sextet_bounds(3) [of b' c']
  have e: "unat a div 4 = unat a' div 4"
      "unat a mod 4 * 16 + unat b div 16 = unat a' mod 4 * 16 + unat b' div 16"
      "unat b mod 16 * 4 + unat c div 64 = unat b' mod 16 * 4 + unat c' div 64"
      "unat c mod 64 = unat c' mod 64"
    using assms bd by (auto intro!: symbol_inj)
  have lt: "unat b div 16 < 16" "unat b' div 16 < 16" "unat c div 64 < 4" "unat c' div 64 < 4"
    using unat_byte_lt [of b] unat_byte_lt [of b'] unat_byte_lt [of c] unat_byte_lt [of c'] by simp_all
  have ab: "unat a mod 4 = unat a' mod 4" "unat b div 16 = unat b' div 16"
    using pair_digits [OF e(2) lt(1,2)] by auto
  have bc: "unat b mod 16 = unat b' mod 16" "unat c div 64 = unat c' div 64"
    using pair_digits [OF e(3) lt(3,4)] by auto
  have "unat a = unat a'" "unat b = unat b'" "unat c = unat c'"
    using e(1,4) ab bc by (metis div_mult_mod_eq)+
  then show ?thesis by (simp add: word_unat_eq_iff)
qed

lemma b64_pad: "b64 [a] @ [symbol 0, symbol 0] = b64 [a, 0, 0]" "b64 [a, b] @ [symbol 0] = b64 [a, b, 0]"
  by simp_all

lemma b64_inj: "b64 xs = b64 ys \<Longrightarrow> xs = ys"
proof (induction xs arbitrary: ys rule: b64.induct)
  case 1
  then have "length ys = 0" using len64_inj [of "length ys" 0] by (metis length_b64 list.size(3))
  then show ?case by simp
next
  case (2 a)
  then have "length ys = length [a]" using len64_inj by (metis length_b64)
  then obtain a' where ys: "ys = [a']" by (auto simp: length_Suc_conv)
  with 2 b64_pad(1) group_inj [of a 0 0 a' 0 0] show ?case by metis
next
  case (3 a b)
  then have "length ys = length [a, b]" using len64_inj by (metis length_b64)
  then obtain a' b' where ys: "ys = [a', b']" by (auto simp: length_Suc_conv)
  with 3 b64_pad(2) group_inj [of a b 0 a' b' 0] show ?case by metis
next
  case (4 a b c bs)
  then have "length ys = length (a # b # c # bs)" using len64_inj by (metis length_b64)
  then obtain a' b' c' bs' where ys: "ys = a' # b' # c' # bs'" by (auto simp: length_Suc_conv)
  with "4.prems" have "b64 [a, b, c] = b64 [a', b', c']" "b64 bs = b64 bs'" by simp_all
  with group_inj "4.IH" ys show ?case by blast
qed

interpretation base64: framing b64 "\<lambda>_. True"
  by unfold_locales (rule b64_inj)

subsection \<open>Claims\<close>

text \<open>C40: the encoder with its 64-bit fast path, its group loop and its tail never panics on a slice
  Rust can hold (fewer than \<open>2 ^ 63\<close> bytes) and returns the group-by-group text of RFC 4648;
  different inputs have different texts.\<close>

theorem base64_fast_path_correct:
  assumes "length input < 2 ^ 63" "length input' < 2 ^ 63"
  shows "base64_encode input = Ok (b64 input)
     \<and> (base64_encode input = base64_encode input' \<longrightarrow> input = input')"
  using base64_encode_eq [OF assms(1)] base64_encode_eq [OF assms(2)] b64_inj by simp

theorem base64_fast_path_correct_witness:
  "base64_encode (replicate 40 7) = Ok (b64 (replicate 40 7))"
  using base64_fast_path_correct [of "replicate 40 7" "[]"] by simp

end
