(* ===== verification/Phi_Did.thy ===== *)
theory Phi_Did
  imports Phi_Text Phi_Utf8 Phi_Error
begin

section \<open>DID operations and dual-curve signing (did.rs)\<close>

text \<open>
  Key generation, signing, verification and DID derivation on the two curves. The ECDSA
  implementations (\<open>k256\<close>, \<open>p256\<close>) are two records of the operations the module calls, over
  opaque keys and signatures; \<open>ecdsa_law\<close> states their documented behaviour and is named by
  the claims that need it. \<open>sign_with\<close>, \<open>verify_with\<close> and \<open>keypair_with\<close> are the bodies of the two
  match arms, which the source writes out once per curve.
\<close>

datatype Curve = Secp256k1 | Secp256r1

fun tag :: "Curve \<Rightarrow> byte" where
  "tag Secp256k1 = 0x01"
| "tag Secp256r1 = 0x02"

record KeyPair =
  kp_curve :: Curve
  kp_secret :: "bytes zeroizing"
  kp_public :: bytes

subsection \<open>The ECDSA implementations\<close>

record ('r, 'sk, 'vk, 'sg) ecdsa =
  ec_random :: "'r \<Rightarrow> 'sk \<times> 'r"
  ec_sk_from_slice :: "bytes \<Rightarrow> 'sk option"
  ec_sk_to_bytes :: "'sk \<Rightarrow> bytes"
  ec_verifying_key :: "'sk \<Rightarrow> 'vk"
  ec_from_sec1_bytes :: "bytes \<Rightarrow> 'vk option"
  ec_to_sec1_bytes :: "'vk \<Rightarrow> bytes"
  ec_to_encoded_point :: "'vk \<Rightarrow> bool \<Rightarrow> bytes"
  ec_sign :: "'sk \<Rightarrow> bytes \<Rightarrow> 'sg"
  ec_normalize_s :: "'sg \<Rightarrow> 'sg option"
  ec_sig_to_bytes :: "'sg \<Rightarrow> bytes"
  ec_sig_from_slice :: "bytes \<Rightarrow> 'sg option"
  ec_sig_from_der :: "bytes \<Rightarrow> 'sg option"
  ec_verify :: "'vk \<Rightarrow> bytes \<Rightarrow> 'sg \<Rightarrow> bool"

record ('r, 'ks, 'kv, 'kg, 'ps, 'pv, 'pg) curves =
  cv_k256 :: "('r, 'ks, 'kv, 'kg) ecdsa"
  cv_p256 :: "('r, 'ps, 'pv, 'pg) ecdsa"

subsection \<open>Operations\<close>

definition keypair_with :: "('r, 'sk, 'vk, 'sg) ecdsa \<Rightarrow> Curve \<Rightarrow> 'r \<Rightarrow> KeyPair \<times> 'r" where
  "keypair_with E curve rng =
     (let (sk, rng) = ec_random E rng;
          pk = ec_verifying_key E sk;
          sk_bytes = \<lparr>held = ec_sk_to_bytes E sk\<rparr>
      in (\<lparr>kp_curve = curve, kp_secret = \<lparr>held = held sk_bytes\<rparr>, kp_public = ec_to_sec1_bytes E pk\<rparr>, rng))"

definition generate_keypair ::
    "('r, 'ks, 'kv, 'kg, 'ps, 'pv, 'pg) curves \<Rightarrow> Curve \<Rightarrow> 'r \<Rightarrow> KeyPair \<times> 'r" where
  "generate_keypair C curve rng = (case curve of
       Secp256k1 \<Rightarrow> keypair_with (cv_k256 C) curve rng
     | Secp256r1 \<Rightarrow> keypair_with (cv_p256 C) curve rng)"

definition sign_with ::
    "('r, 'sk, 'vk, 'sg) ecdsa \<Rightarrow> bytes \<Rightarrow> bytes \<Rightarrow> (bytes, crypto_error) result" where
  "sign_with E secret msg =
     bind_r (ok_or InvalidKey (ec_sk_from_slice E secret)) (\<lambda>sk.
     let sig = ec_sign E sk msg;
         sig = (case ec_normalize_s E sig of Some s \<Rightarrow> s | None \<Rightarrow> sig)
     in Ok (ec_sig_to_bytes E sig))"

definition did_sign ::
    "('r, 'ks, 'kv, 'kg, 'ps, 'pv, 'pg) curves \<Rightarrow> Curve \<Rightarrow> bytes \<Rightarrow> bytes \<Rightarrow>
     (bytes, crypto_error) result" where
  "did_sign C curve secret msg = (case curve of
       Secp256k1 \<Rightarrow> sign_with (cv_k256 C) secret msg
     | Secp256r1 \<Rightarrow> sign_with (cv_p256 C) secret msg)"

definition verify_with :: "('r, 'sk, 'vk, 'sg) ecdsa \<Rightarrow> bytes \<Rightarrow> bytes \<Rightarrow> bytes \<Rightarrow> bool" where
  "verify_with E public msg sig =
     (case ec_from_sec1_bytes E public of
        None \<Rightarrow> False
      | Some vk \<Rightarrow> (case ec_sig_from_slice E sig of
          None \<Rightarrow> False
        | Some signature \<Rightarrow>
            if ec_normalize_s E signature \<noteq> None then False
            else ec_verify E vk msg signature))"

definition did_verify ::
    "('r, 'ks, 'kv, 'kg, 'ps, 'pv, 'pg) curves \<Rightarrow> Curve \<Rightarrow> bytes \<Rightarrow> bytes \<Rightarrow> bytes \<Rightarrow> bool" where
  "did_verify C curve public msg sig =
     (if length sig \<noteq> 64 then False
      else case curve of
        Secp256k1 \<Rightarrow> verify_with (cv_k256 C) public msg sig
      | Secp256r1 \<Rightarrow> verify_with (cv_p256 C) public msg sig)"

definition canonical_sec1 ::
    "('r, 'ks, 'kv, 'kg, 'ps, 'pv, 'pg) curves \<Rightarrow> Curve \<Rightarrow> bytes \<Rightarrow> bytes option" where
  "canonical_sec1 C curve public = (case curve of
       Secp256k1 \<Rightarrow> map_option (\<lambda>vk. ec_to_encoded_point (cv_k256 C) vk True)
                      (ec_from_sec1_bytes (cv_k256 C) public)
     | Secp256r1 \<Rightarrow> map_option (\<lambda>vk. ec_to_encoded_point (cv_p256 C) vk False)
                      (ec_from_sec1_bytes (cv_p256 C) public))"

text \<open>\<open>did_preimage\<close> is what the two \<open>update\<close> calls hash.\<close>

definition did_preimage :: "Curve \<Rightarrow> bytes \<Rightarrow> bytes" where
  "did_preimage curve canonical = [tag curve] @ canonical"

definition did_from_public ::
    "(bytes \<Rightarrow> bytes) \<Rightarrow> ('r, 'ks, 'kv, 'kg, 'ps, 'pv, 'pg) curves \<Rightarrow> Curve \<Rightarrow> bytes \<Rightarrow>
     (str, crypto_error) result" where
  "did_from_public sha256 C curve public =
     bind_r (ok_or InvalidKey (canonical_sec1 C curve public)) (\<lambda>canonical.
     let digest = sha256 (did_preimage curve canonical)
     in Ok (ascii ''did:phi:'' @ hex_encode digest))"

subsection \<open>The documented behaviour of the implementations\<close>

text \<open>
  Keys and signatures are read back from their encodings; a signature is 64 bytes; a
  normalized signature is already normal and verifies where the original did; a signature
  made with a key verifies under its verifying key.
\<close>

definition ecdsa_law :: "('r, 'sk, 'vk, 'sg) ecdsa \<Rightarrow> bool" where
  "ecdsa_law E \<longleftrightarrow>
     (\<forall>sk. ec_sk_from_slice E (ec_sk_to_bytes E sk) = Some sk)
   \<and> (\<forall>vk. ec_from_sec1_bytes E (ec_to_sec1_bytes E vk) = Some vk)
   \<and> (\<forall>vk compress. ec_from_sec1_bytes E (ec_to_encoded_point E vk compress) = Some vk)
   \<and> (\<forall>s. length (ec_sig_to_bytes E s) = 64 \<and> ec_sig_from_slice E (ec_sig_to_bytes E s) = Some s)
   \<and> (\<forall>s s'. ec_normalize_s E s = Some s' \<longrightarrow>
        ec_normalize_s E s' = None \<and> (\<forall>vk msg. ec_verify E vk msg s \<longrightarrow> ec_verify E vk msg s'))
   \<and> (\<forall>sk msg. ec_verify E (ec_verifying_key E sk) msg (ec_sign E sk msg))"

definition curves_law :: "('r, 'ks, 'kv, 'kg, 'ps, 'pv, 'pg) curves \<Rightarrow> bool" where
  "curves_law C \<longleftrightarrow> ecdsa_law (cv_k256 C) \<and> ecdsa_law (cv_p256 C)"

lemma sign_with_verifies:
  assumes "ecdsa_law E" "ec_sk_from_slice E secret = Some sk"
    and "ec_from_sec1_bytes E public = Some (ec_verifying_key E sk)"
  shows "\<exists>sig. sign_with E secret msg = Ok sig \<and> length sig = 64 \<and> verify_with E public msg sig"
proof -
  let ?s = "case ec_normalize_s E (ec_sign E sk msg) of Some s \<Rightarrow> s | None \<Rightarrow> ec_sign E sk msg"
  have norm: "ec_normalize_s E ?s = None"
    using assms(1) by (cases "ec_normalize_s E (ec_sign E sk msg)") (auto simp: ecdsa_law_def)
  have ver: "ec_verify E (ec_verifying_key E sk) msg ?s"
    using assms(1) by (cases "ec_normalize_s E (ec_sign E sk msg)") (auto simp: ecdsa_law_def)
  have "sign_with E secret msg = Ok (ec_sig_to_bytes E ?s)"
    using assms(2) by (simp add: sign_with_def Let_def)
  moreover have "length (ec_sig_to_bytes E ?s) = 64" "ec_sig_from_slice E (ec_sig_to_bytes E ?s) = Some ?s"
    using assms(1) by (simp_all add: ecdsa_law_def)
  ultimately show ?thesis
    using assms(3) norm ver by (simp add: verify_with_def)
qed

lemma keypair_with_reads:
  assumes "ecdsa_law E" "keypair_with E curve rng = (kp, rng')"
  shows "\<exists>sk. ec_sk_from_slice E (held (kp_secret kp)) = Some sk
     \<and> ec_from_sec1_bytes E (kp_public kp) = Some (ec_verifying_key E sk)"
  using assms by (auto simp: keypair_with_def ecdsa_law_def Let_def split: prod.splits)

lemma keypair_signs:
  assumes "curves_law C" "generate_keypair C curve rng = (kp, rng')"
  shows "kp_curve kp = curve
     \<and> (\<exists>sig. did_sign C curve (held (kp_secret kp)) msg = Ok sig \<and> length sig = 64
          \<and> did_verify C curve (kp_public kp) msg sig)"
proof (cases curve)
  case Secp256k1
  then have g: "keypair_with (cv_k256 C) curve rng = (kp, rng')" using assms(2) by (simp add: generate_keypair_def)
  have E: "ecdsa_law (cv_k256 C)" using assms(1) by (simp add: curves_law_def)
  from keypair_with_reads [OF E g] sign_with_verifies [OF E] g Secp256k1 show ?thesis
    by (fastforce simp: did_sign_def did_verify_def keypair_with_def Let_def split: prod.splits)
next
  case Secp256r1
  then have g: "keypair_with (cv_p256 C) curve rng = (kp, rng')" using assms(2) by (simp add: generate_keypair_def)
  have E: "ecdsa_law (cv_p256 C)" using assms(1) by (simp add: curves_law_def)
  from keypair_with_reads [OF E g] sign_with_verifies [OF E] g Secp256r1 show ?thesis
    by (fastforce simp: did_sign_def did_verify_def keypair_with_def Let_def split: prod.splits)
qed

lemma keypair_has_did:
  assumes "curves_law C" "generate_keypair C curve rng = (kp, rng')"
  shows "\<exists>id. did_from_public sha256 C curve (kp_public kp) = Ok id"
proof -
  have "canonical_sec1 C curve (kp_public kp) \<noteq> None"
    using assms
    by (cases curve) (auto simp: curves_law_def ecdsa_law_def generate_keypair_def keypair_with_def canonical_sec1_def
        Let_def split: prod.splits)
  then show ?thesis by (auto simp: did_from_public_def)
qed

lemma canonical_sec1_idem:
  assumes "curves_law C" "canonical_sec1 C curve public = Some c"
  shows "canonical_sec1 C curve c = Some c"
  using assms by (cases curve) (auto simp: canonical_sec1_def curves_law_def ecdsa_law_def)

text \<open>The bytes hashed for a DID determine the curve and the canonical key.\<close>

lemma tag_inj [simp]: "tag c = tag d \<longleftrightarrow> c = d"
  by (cases c; cases d) auto

interpretation did_framing: framing "\<lambda>(curve, canonical). did_preimage curve canonical" "\<lambda>_. True"
  by unfold_locales (auto simp: did_preimage_def)

subsection \<open>Implementations that evaluate\<close>

text \<open>
  For the examples: keys are bytes, a signature is the sum of key and message with a flag for
  the high form, which signing produces first; points are read from both encodings.
\<close>

fun sample_from_sec1 :: "bytes \<Rightarrow> byte option" where
  "sample_from_sec1 [t, x] = (if t = 2 then Some x else None)"
| "sample_from_sec1 [t, x, y] = (if t = 4 \<and> x = y then Some x else None)"
| "sample_from_sec1 _ = None"

definition sample_ecdsa :: "(byte, byte, byte, byte \<times> bool) ecdsa" where
  "sample_ecdsa =
    \<lparr>ec_random = (\<lambda>rng. (rng, rng + 1)),
     ec_sk_from_slice = (\<lambda>b. case b of [x] \<Rightarrow> Some x | _ \<Rightarrow> None),
     ec_sk_to_bytes = (\<lambda>sk. [sk]),
     ec_verifying_key = (\<lambda>sk. sk + 1),
     ec_from_sec1_bytes = sample_from_sec1,
     ec_to_sec1_bytes = (\<lambda>vk. [2, vk]),
     ec_to_encoded_point = (\<lambda>vk compress. if compress then [2, vk] else [4, vk, vk]),
     ec_sign = (\<lambda>sk msg. (sk + sum_list msg, True)),
     ec_normalize_s = (\<lambda>(x, high). if high then Some (x, False) else None),
     ec_sig_to_bytes = (\<lambda>(x, high). x # (if high then 1 else 0) # replicate 62 0),
     ec_sig_from_slice = (\<lambda>b. case b of x # h # rest \<Rightarrow>
        if rest = replicate 62 0 \<and> h = 0 then Some (x, False)
        else if rest = replicate 62 0 \<and> h = 1 then Some (x, True) else None | _ \<Rightarrow> None),
     ec_sig_from_der = (\<lambda>b. case b of [t, x] \<Rightarrow> if t = 48 then Some (x, False) else None | _ \<Rightarrow> None),
     ec_verify = (\<lambda>vk msg (x, high). x + 1 = vk + sum_list msg)\<rparr>"

definition sample_curves :: "(byte, byte, byte, byte \<times> bool, byte, byte, byte \<times> bool) curves" where
  "sample_curves = \<lparr>cv_k256 = sample_ecdsa, cv_p256 = sample_ecdsa\<rparr>"

lemma sample_curves_law: "curves_law sample_curves"
  by (auto simp: curves_law_def sample_curves_def ecdsa_law_def sample_ecdsa_def algebra_simps
      split: if_splits)

subsection \<open>Claims\<close>

text \<open>C29: on either curve, a freshly generated key signs every message, the signature is 64 bytes,
  and it verifies under the generated public key.\<close>

theorem did_sign_verify:
  assumes "curves_law C" "generate_keypair C curve rng = (kp, rng')"
  shows "kp_curve kp = curve
     \<and> (\<exists>sig. did_sign C curve (held (kp_secret kp)) msg = Ok sig \<and> length sig = 64
          \<and> did_verify C curve (kp_public kp) msg sig)"
  using keypair_signs [OF assms] .

theorem did_sign_verify_witness:
  "\<exists>kp rng'. generate_keypair sample_curves Secp256r1 7 = (kp, rng')
     \<and> (\<exists>sig. did_sign sample_curves Secp256r1 (held (kp_secret kp)) [1, 2] = Ok sig \<and> length sig = 64
          \<and> did_verify sample_curves Secp256r1 (kp_public kp) [1, 2] sig)"
proof -
  obtain kp rng' where g: "generate_keypair sample_curves Secp256r1 7 = (kp, rng')" by force
  from did_sign_verify [OF sample_curves_law g, of "[1, 2]"] g show ?thesis by blast
qed

text \<open>Signatures are not malleable at this boundary: on either curve every accepted signature is
  in low-S form, so the high-S twin of an accepted signature, which ECDSA itself would accept,
  is refused, as is anything that is not 64 bytes.\<close>

theorem did_verify_low_s_only:
  "did_verify C curve public msg sig \<Longrightarrow> length sig = 64
     \<and> (curve = Secp256k1 \<longrightarrow> (\<exists>s. ec_sig_from_slice (cv_k256 C) sig = Some s \<and> ec_normalize_s (cv_k256 C) s = None))
     \<and> (curve = Secp256r1 \<longrightarrow> (\<exists>s. ec_sig_from_slice (cv_p256 C) sig = Some s \<and> ec_normalize_s (cv_p256 C) s = None))"
  by (auto simp: did_verify_def verify_with_def split: if_splits option.splits Curve.splits)

lemma did_from_public_Ok:
  "did_from_public sha256 C curve public = Ok did \<longleftrightarrow>
     (\<exists>c. canonical_sec1 C curve public = Some c
        \<and> did = ascii ''did:phi:'' @ hex_encode (sha256 (did_preimage curve c)))"
  by (auto simp: did_from_public_def bind_r_Ok_iff Let_def)

text \<open>The key a byte string encodes: a point of one of the two curves.\<close>

definition sec1_key ::
    "('r, 'ks, 'kv, 'kg, 'ps, 'pv, 'pg) curves \<Rightarrow> Curve \<Rightarrow> bytes \<Rightarrow> ('kv + 'pv) option" where
  "sec1_key C curve public = (case curve of
       Secp256k1 \<Rightarrow> map_option Inl (ec_from_sec1_bytes (cv_k256 C) public)
     | Secp256r1 \<Rightarrow> map_option Inr (ec_from_sec1_bytes (cv_p256 C) public))"

text \<open>Canonical encodings are equal exactly for equal keys, whatever encodings the keys came in.\<close>

lemma canonical_sec1_iff:
  assumes "curves_law C" "canonical_sec1 C curve public = Some c" "canonical_sec1 C curve' public' = Some c'"
  shows "sec1_key C curve public = sec1_key C curve' public' \<longleftrightarrow> curve = curve' \<and> c = c'"
proof -
  have inj: "ec_to_encoded_point E vk b = ec_to_encoded_point E vk' b \<longleftrightarrow> vk = vk'" if "ecdsa_law E" for E vk vk' b
    using that unfolding ecdsa_law_def by (metis option.inject)
  show ?thesis
    using assms by (cases curve; cases curve')
      (auto simp: canonical_sec1_def sec1_key_def curves_law_def inj)
qed

lemma sec1_key_same:
  "sec1_key C curve public = sec1_key C curve public' \<Longrightarrow>
     did_from_public sha256 C curve public = did_from_public sha256 C curve public'"
  by (cases curve)
    (auto simp: sec1_key_def did_from_public_def canonical_sec1_def map_option_case split: option.splits)

text \<open>C35: a DID names one key, in whatever encoding the key is presented. On either curve, the
  compressed, the uncompressed and the default encoding of a key have the same DID, and so have
  any two byte strings that parse to the same key; conversely equal DIDs mean the same
  curve and the same key, unless the two hash inputs are a collision.\<close>

theorem did_binding:
  assumes "curves_law C"
    and "did_from_public sha256 C curve public = Ok did" "did_from_public sha256 C curve' public' = Ok did'"
  shows "(\<forall>vk b. did_from_public sha256 C Secp256k1 (ec_to_encoded_point (cv_k256 C) vk b)
          = did_from_public sha256 C Secp256k1 (ec_to_sec1_bytes (cv_k256 C) vk))
     \<and> (\<forall>vk b. did_from_public sha256 C Secp256r1 (ec_to_encoded_point (cv_p256 C) vk b)
          = did_from_public sha256 C Secp256r1 (ec_to_sec1_bytes (cv_p256 C) vk))
     \<and> (sec1_key C curve public = sec1_key C curve' public' \<longrightarrow> did = did')
     \<and> (did = did' \<longrightarrow>
          curve = curve' \<and> sec1_key C curve public = sec1_key C curve' public'
          \<or> collision sha256 (did_preimage curve (the (canonical_sec1 C curve public)))
              (did_preimage curve' (the (canonical_sec1 C curve' public'))))"
proof -
  obtain c c' where c: "canonical_sec1 C curve public = Some c" "canonical_sec1 C curve' public' = Some c'"
      "did = ascii ''did:phi:'' @ hex_encode (sha256 (did_preimage curve c))"
      "did' = ascii ''did:phi:'' @ hex_encode (sha256 (did_preimage curve' c'))"
    using assms(2,3) by (auto simp: did_from_public_Ok)
  have parse: "ec_from_sec1_bytes E (ec_to_encoded_point E vk b) = ec_from_sec1_bytes E (ec_to_sec1_bytes E vk)"
    if "ecdsa_law E" for E vk b using that by (simp add: ecdsa_law_def)
  have "\<forall>vk b. did_from_public sha256 C Secp256k1 (ec_to_encoded_point (cv_k256 C) vk b)
          = did_from_public sha256 C Secp256k1 (ec_to_sec1_bytes (cv_k256 C) vk)"
      "\<forall>vk b. did_from_public sha256 C Secp256r1 (ec_to_encoded_point (cv_p256 C) vk b)
          = did_from_public sha256 C Secp256r1 (ec_to_sec1_bytes (cv_p256 C) vk)"
    using assms(1) by (auto intro!: sec1_key_same simp: sec1_key_def curves_law_def parse)
  moreover have "did = did' \<longleftrightarrow> sha256 (did_preimage curve c) = sha256 (did_preimage curve' c')"
    using c(3,4) hex.enc_inj by auto
  ultimately show ?thesis
    using did_framing.binding [where x = "(curve, c)" and y = "(curve', c')" and H = sha256] c(1,2)
      canonical_sec1_iff [OF assms(1) c(1,2)] by auto
qed

theorem did_binding_witness:
  "sec1_key sample_curves Secp256k1 [2, 9] = sec1_key sample_curves Secp256k1 [4, 9, 9]
   \<and> did_from_public sample_hash sample_curves Secp256k1 [2, 9] = did_from_public sample_hash sample_curves Secp256k1 [4, 9, 9]"
proof -
  have k: "sec1_key sample_curves Secp256k1 [2, 9] = sec1_key sample_curves Secp256k1 [4, 9, 9]"
    by (simp add: sec1_key_def sample_curves_def sample_ecdsa_def)
  have c: "canonical_sec1 sample_curves Secp256k1 [2, 9] = Some [2, 9]"
      "canonical_sec1 sample_curves Secp256k1 [4, 9, 9] = Some [2, 9]"
    by (simp_all add: canonical_sec1_def sample_curves_def sample_ecdsa_def)
  then obtain d d' where d: "did_from_public sample_hash sample_curves Secp256k1 [2, 9] = Ok d"
      "did_from_public sample_hash sample_curves Secp256k1 [4, 9, 9] = Ok d'"
    by (simp add: did_from_public_def)
  from did_binding [OF sample_curves_law d] k d show ?thesis by simp
qed

text \<open>C36: a DID is \<open>did:phi:\<close> followed by the 64 lower-case hexadecimal digits of a 32-byte digest, a
  valid string; for a key that does not parse the result is \<open>InvalidKey\<close>, and there is no other
  outcome.\<close>

theorem did_format:
  assumes "\<forall>x. length (sha256 x) = 32"
  shows "case did_from_public sha256 C curve public of
       Ok did \<Rightarrow> length did = 72 \<and> take 8 did = ascii ''did:phi:''
          \<and> set (drop 8 did) \<subseteq> set (ascii ''0123456789abcdef'') \<and> from_utf8 did = Some did
          \<and> canonical_sec1 C curve public \<noteq> None
     | Err e \<Rightarrow> e = InvalidKey \<and> canonical_sec1 C curve public = None
     | Panic \<Rightarrow> False"
proof (cases "canonical_sec1 C curve public")
  case None
  then show ?thesis by (simp add: did_from_public_def)
next
  case (Some c)
  let ?d = "sha256 (did_preimage curve c)"
  have hex: "set (hex_encode ?d) \<subseteq> set (ascii ''0123456789abcdef'')"
    using set_hex_encode [of ?d] by (simp only: HEX_CHARS_LOWER_def)
  have "\<forall>b \<in> set (ascii ''did:phi:'') \<union> set (ascii ''0123456789abcdef''). unat b < 128"
    by (simp add: ascii_def)
  with hex have "list_all (\<lambda>b. unat b < 128) (ascii ''did:phi:'' @ hex_encode ?d)"
    unfolding list_all_iff by (auto simp only: set_append)
  from from_utf8_ascii [OF this] hex Some show ?thesis
    using assms by (simp add: did_from_public_def)
qed

theorem did_format_witness:
  "\<exists>did. did_from_public sample_hash sample_curves Secp256r1 [2, 9] = Ok did \<and> length did = 72"
proof -
  have "canonical_sec1 sample_curves Secp256r1 [2, 9] = Some [4, 9, 9]"
    by (simp add: canonical_sec1_def sample_curves_def sample_ecdsa_def)
  with did_format [of sample_hash sample_curves Secp256r1 "[2, 9]"] show ?thesis
    by (cases "did_from_public sample_hash sample_curves Secp256r1 [2, 9]") simp_all
qed

end
