(* ===== verification/Phi_Webauthn.thy ===== *)
theory Phi_Webauthn
  imports Phi_Base64 Phi_Did
begin

section \<open>The WebAuthn verifier (webauthn.rs)\<close>

text \<open>
  Verification of an assertion against the relying party's expectations. The JSON parser
  (\<open>serde_json\<close> with the derived \<open>Deserialize\<close>), SHA-256 and the P-256 implementation are
  parameters; the base64 text of the challenge and the constant-time comparisons are the
  models of the vendored crates. Every index into the authenticator data is one that panics
  out of range, and the claims show that no input reaches such a panic.
\<close>

record WebAuthnAssertion =
  wa_authenticator_data :: bytes
  wa_client_data_json :: bytes
  wa_signature :: bytes

record ClientData =
  cd_typ :: str
  cd_challenge :: str
  cd_origin :: str
  cd_cross_origin :: "bool option"
  cd_top_origin :: "str option"

definition FLAG_USER_PRESENT :: byte where "FLAG_USER_PRESENT = 0x01"
definition FLAG_USER_VERIFIED :: byte where "FLAG_USER_VERIFIED = 0x04"
definition FLAG_BACKUP_ELIGIBLE :: byte where "FLAG_BACKUP_ELIGIBLE = 0x08"
definition FLAG_BACKUP_STATE :: byte where "FLAG_BACKUP_STATE = 0x10"

record AssertionDetails =
  ad_sign_count :: u32
  ad_user_present :: bool
  ad_user_verified :: bool
  ad_backup_eligible :: bool
  ad_backup_state :: bool

record ('r, 'ps, 'pv, 'pg) webauthn_backend =
  wb_parse :: "bytes \<Rightarrow> ClientData option"
  wb_sha256 :: "bytes \<Rightarrow> bytes"
  wb_p256 :: "('r, 'ps, 'pv, 'pg) ecdsa"

subsection \<open>Operations\<close>

definition verify_p256_low_s ::
    "('r, 'ps, 'pv, 'pg) ecdsa \<Rightarrow> bytes \<Rightarrow> bytes \<Rightarrow> bytes \<Rightarrow> bool" where
  "verify_p256_low_s P public_key signed_data sig_bytes =
     (case ec_from_sec1_bytes P public_key of
        None \<Rightarrow> False
      | Some vk \<Rightarrow>
          (case (case ec_sig_from_der P sig_bytes of
                   Some s \<Rightarrow> Some s
                 | None \<Rightarrow> ec_sig_from_slice P sig_bytes) of
             None \<Rightarrow> False
           | Some signature \<Rightarrow>
               if ec_normalize_s P signature \<noteq> None then False
               else ec_verify P vk signed_data signature))"

definition verify_inner ::
    "('r, 'ps, 'pv, 'pg) webauthn_backend \<Rightarrow> WebAuthnAssertion \<Rightarrow> bytes \<Rightarrow> bytes \<Rightarrow> str \<Rightarrow> str \<Rightarrow> bool \<Rightarrow>
     (bool, crypto_error) result" where
  "verify_inner W assertion expected_challenge public_key expected_origin expected_rp_id require_uv =
     (case wb_parse W (wa_client_data_json assertion) of
        None \<Rightarrow> Ok False
      | Some cd \<Rightarrow>
        if ct_eq (cd_typ cd) (ascii ''webauthn.get'') \<noteq> 1 then Ok False
        else if ct_eq (cd_origin cd) expected_origin \<noteq> 1 then Ok False
        else if cd_cross_origin cd = Some True \<or> cd_top_origin cd \<noteq> None then Ok False
        else
          bind_r (base64_encode expected_challenge) (\<lambda>want_challenge.
          if ct_eq (cd_challenge cd) want_challenge \<noteq> 1 then Ok False
          else if length (wa_authenticator_data assertion) < 37 then Ok False
          else
            bind_r (index_range (wa_authenticator_data assertion) 0 32) (\<lambda>rp_id_hash.
            let want_rp_hash = wb_sha256 W expected_rp_id in
            if ct_eq rp_id_hash want_rp_hash \<noteq> 1 then Ok False
            else
              bind_r (index (wa_authenticator_data assertion) 32) (\<lambda>flags.
              if flags AND FLAG_USER_PRESENT = 0 then Ok False
              else if require_uv \<and> flags AND FLAG_USER_VERIFIED = 0 then Ok False
              else
                let client_data_hash = wb_sha256 W (wa_client_data_json assertion);
                    signed_data = [] @ wa_authenticator_data assertion @ client_data_hash in
                Ok (verify_p256_low_s (wb_p256 W) public_key signed_data (wa_signature assertion))))))"

definition verify_webauthn_details ::
    "('r, 'ps, 'pv, 'pg) webauthn_backend \<Rightarrow> WebAuthnAssertion \<Rightarrow> bytes \<Rightarrow> bytes \<Rightarrow> str \<Rightarrow> str \<Rightarrow> bool \<Rightarrow>
     (AssertionDetails option, crypto_error) result" where
  "verify_webauthn_details W assertion expected_challenge public_key expected_origin expected_rp_id require_uv =
     bind_r (verify_inner W assertion expected_challenge public_key expected_origin expected_rp_id require_uv)
       (\<lambda>accepted.
        if accepted then
          bind_r (index (wa_authenticator_data assertion) 32) (\<lambda>flags.
          bind_r (index_range (wa_authenticator_data assertion) 33 37) (\<lambda>slice.
          case try_into_array 4 slice of
            None \<Rightarrow> Panic
          | Some chunk \<Rightarrow>
              Ok (Some \<lparr>ad_sign_count = u32_from_be_bytes chunk,
                        ad_user_present = (flags AND FLAG_USER_PRESENT \<noteq> 0),
                        ad_user_verified = (flags AND FLAG_USER_VERIFIED \<noteq> 0),
                        ad_backup_eligible = (flags AND FLAG_BACKUP_ELIGIBLE \<noteq> 0),
                        ad_backup_state = (flags AND FLAG_BACKUP_STATE \<noteq> 0)\<rparr>)))
        else Ok None)"

definition verify_webauthn ::
    "('r, 'ps, 'pv, 'pg) webauthn_backend \<Rightarrow> WebAuthnAssertion \<Rightarrow> bytes \<Rightarrow> bytes \<Rightarrow> str \<Rightarrow> str \<Rightarrow> bool \<Rightarrow>
     (bool, crypto_error) result" where
  "verify_webauthn W assertion expected_challenge public_key expected_origin expected_rp_id require_uv =
     bind_r (verify_webauthn_details W assertion expected_challenge public_key expected_origin
               expected_rp_id require_uv) (\<lambda>d. Ok (d \<noteq> None))"

subsection \<open>What an accepted assertion is\<close>

text \<open>The signed part: the client data names this ceremony, this origin and this challenge.\<close>

definition client_data_ok :: "ClientData \<Rightarrow> bytes \<Rightarrow> str \<Rightarrow> bool" where
  "client_data_ok cd expected_challenge expected_origin \<longleftrightarrow>
     cd_typ cd = ascii ''webauthn.get'' \<and> cd_origin cd = expected_origin
     \<and> cd_cross_origin cd \<noteq> Some True \<and> cd_top_origin cd = None
     \<and> cd_challenge cd = b64 expected_challenge"

definition assertion_ok ::
    "('r, 'ps, 'pv, 'pg) webauthn_backend \<Rightarrow> WebAuthnAssertion \<Rightarrow> bytes \<Rightarrow> bytes \<Rightarrow> str \<Rightarrow> str \<Rightarrow> bool \<Rightarrow> bool" where
  "assertion_ok W a expected_challenge public_key expected_origin expected_rp_id require_uv \<longleftrightarrow>
     (\<exists>cd. wb_parse W (wa_client_data_json a) = Some cd \<and> client_data_ok cd expected_challenge expected_origin)
     \<and> 37 \<le> length (wa_authenticator_data a)
     \<and> take 32 (wa_authenticator_data a) = wb_sha256 W expected_rp_id
     \<and> wa_authenticator_data a ! 32 AND FLAG_USER_PRESENT \<noteq> 0
     \<and> (require_uv \<longrightarrow> wa_authenticator_data a ! 32 AND FLAG_USER_VERIFIED \<noteq> 0)
     \<and> verify_p256_low_s (wb_p256 W) public_key
         (wa_authenticator_data a @ wb_sha256 W (wa_client_data_json a)) (wa_signature a)"

definition details_of :: "bytes \<Rightarrow> AssertionDetails" where
  "details_of ad =
     \<lparr>ad_sign_count = u32_from_be_bytes (take 4 (drop 33 ad)),
      ad_user_present = (ad ! 32 AND FLAG_USER_PRESENT \<noteq> 0),
      ad_user_verified = (ad ! 32 AND FLAG_USER_VERIFIED \<noteq> 0),
      ad_backup_eligible = (ad ! 32 AND FLAG_BACKUP_ELIGIBLE \<noteq> 0),
      ad_backup_state = (ad ! 32 AND FLAG_BACKUP_STATE \<noteq> 0)\<rparr>"

lemma verify_inner_eq:
  assumes "length ch < 2 ^ 63"
  shows "verify_inner W a ch pk origin rp uv = Ok (assertion_ok W a ch pk origin rp uv)"
  using base64_encode_eq [OF assms]
  by (auto simp: verify_inner_def assertion_ok_def client_data_ok_def Let_def index_range_def index_def
      not_less split: option.split)

lemma details_eq:
  assumes "length ch < 2 ^ 63"
  shows "verify_webauthn_details W a ch pk origin rp uv =
     Ok (if assertion_ok W a ch pk origin rp uv then Some (details_of (wa_authenticator_data a)) else None)"
proof (cases "assertion_ok W a ch pk origin rp uv")
  case True
  then have "37 \<le> length (wa_authenticator_data a)" by (simp add: assertion_ok_def)
  then show ?thesis
    using True by (simp add: verify_webauthn_details_def verify_inner_eq [OF assms] index_def
        index_range_def try_into_array_def details_of_def)
qed (simp add: verify_webauthn_details_def verify_inner_eq [OF assms])

lemma verify_webauthn_eq:
  assumes "length ch < 2 ^ 63"
  shows "verify_webauthn W a ch pk origin rp uv = Ok (assertion_ok W a ch pk origin rp uv)"
  by (simp add: verify_webauthn_def details_eq [OF assms])

subsection \<open>Claims\<close>

definition sample_webauthn :: "(byte, byte, byte, byte \<times> bool) webauthn_backend" where
  "sample_webauthn =
    \<lparr>wb_parse = (\<lambda>json. if json = [1] then
        Some \<lparr>cd_typ = ascii ''webauthn.get'', cd_challenge = b64 [1, 2, 3], cd_origin = ascii ''https://phi'',
              cd_cross_origin = None, cd_top_origin = None\<rparr> else None),
     wb_sha256 = sample_hash, wb_p256 = sample_ecdsa\<rparr>"

definition sample_auth_data :: bytes where
  "sample_auth_data = sample_hash (ascii ''phi'') @ [0x05, 0, 0, 1, 2]"

definition sample_assertion :: WebAuthnAssertion where
  "sample_assertion =
    \<lparr>wa_authenticator_data = sample_auth_data, wa_client_data_json = [1],
     wa_signature = [48, sum_list (sample_auth_data @ sample_hash [1])]\<rparr>"

lemma sample_assertion_ok:
  "assertion_ok sample_webauthn sample_assertion [1, 2, 3] [2, 1] (ascii ''https://phi'') (ascii ''phi'') uv"
  by (simp add: assertion_ok_def sample_webauthn_def sample_assertion_def client_data_ok_def
      sample_auth_data_def FLAG_USER_PRESENT_def FLAG_USER_VERIFIED_def verify_p256_low_s_def
      sample_ecdsa_def nth_append)

text \<open>C12: the verifier is total and decides \<open>assertion_ok\<close>: no client data, authenticator data, key,
  signature or challenge makes it panic (the constant-time comparisons, the slice accesses and
  the \<open>expect\<close> included), it returns details exactly for acceptable assertions, and the details
  are the counter and flag bits of the authenticator data.\<close>

theorem webauthn_decides:
  assumes "length challenge < 2 ^ 63"
  shows "verify_webauthn_details W a challenge public_key origin rp_id require_uv =
       Ok (if assertion_ok W a challenge public_key origin rp_id require_uv
           then Some (details_of (wa_authenticator_data a)) else None)
     \<and> verify_webauthn W a challenge public_key origin rp_id require_uv =
       Ok (assertion_ok W a challenge public_key origin rp_id require_uv)"
  using details_eq [OF assms] verify_webauthn_eq [OF assms] by blast

theorem webauthn_decides_witness:
  "verify_webauthn_details sample_webauthn sample_assertion [1, 2, 3] [2, 1] (ascii ''https://phi'') (ascii ''phi'') True
     = Ok (Some \<lparr>ad_sign_count = 258, ad_user_present = True, ad_user_verified = True,
                 ad_backup_eligible = False, ad_backup_state = False\<rparr>)"
proof -
  have "details_of (wa_authenticator_data sample_assertion) =
      \<lparr>ad_sign_count = 258, ad_user_present = True, ad_user_verified = True,
       ad_backup_eligible = False, ad_backup_state = False\<rparr>"
    by (simp add: details_of_def sample_assertion_def sample_auth_data_def nth_append FLAG_USER_PRESENT_def
        FLAG_USER_VERIFIED_def FLAG_BACKUP_ELIGIBLE_def FLAG_BACKUP_STATE_def u32_from_be_bytes_def be_val_def)
  with webauthn_decides [of "[1, 2, 3]" sample_webauthn sample_assertion] sample_assertion_ok show ?thesis
    by simp
qed

text \<open>C30: an accepted assertion cannot be replayed: it is accepted for one challenge and one origin
  only, and for one relying party up to a collision of the hash.\<close>

theorem webauthn_no_replay:
  assumes "length challenge < 2 ^ 63" "length challenge' < 2 ^ 63"
    and "verify_webauthn W a challenge public_key origin rp_id require_uv = Ok True"
    and "verify_webauthn W a challenge' public_key' origin' rp_id' require_uv' = Ok True"
  shows "challenge = challenge' \<and> origin = origin' \<and> (rp_id = rp_id' \<or> collision (wb_sha256 W) rp_id rp_id')"
proof -
  have ok: "assertion_ok W a challenge public_key origin rp_id require_uv"
      "assertion_ok W a challenge' public_key' origin' rp_id' require_uv'"
    using assms(3,4) by (simp_all add: verify_webauthn_eq [OF assms(1)] verify_webauthn_eq [OF assms(2)])
  then have "b64 challenge = b64 challenge'" "origin = origin'" "wb_sha256 W rp_id = wb_sha256 W rp_id'"
    by (auto simp: assertion_ok_def client_data_ok_def)
  then show ?thesis using b64_inj by (auto simp: collision_def)
qed

text \<open>The sample assertion is accepted, and not for another challenge or origin.\<close>

theorem webauthn_no_replay_witness:
  "verify_webauthn sample_webauthn sample_assertion [1, 2, 3] [2, 1] (ascii ''https://phi'') (ascii ''phi'') True = Ok True
     \<and> verify_webauthn sample_webauthn sample_assertion [1, 2, 4] [2, 1] (ascii ''https://phi'') (ascii ''phi'') False \<noteq> Ok True
     \<and> verify_webauthn sample_webauthn sample_assertion [1, 2, 3] [2, 1] (ascii ''https://evil'') (ascii ''phi'') False \<noteq> Ok True"
proof -
  let ?accepts = "\<lambda>ch org uv. verify_webauthn sample_webauthn sample_assertion ch [2, 1] org (ascii ''phi'') uv = Ok True"
  have own: "?accepts [1, 2, 3] (ascii ''https://phi'') True"
    by (simp add: verify_webauthn_eq sample_assertion_ok)
  have "\<not> ?accepts [1, 2, 4] (ascii ''https://phi'') False"
    using webauthn_no_replay [OF _ _ own, of "[1, 2, 4]" "[2, 1]" "ascii ''https://phi''" "ascii ''phi''" False] by auto
  moreover have "\<not> ?accepts [1, 2, 3] (ascii ''https://evil'') False"
    using webauthn_no_replay [OF _ _ own, of "[1, 2, 3]" "[2, 1]" "ascii ''https://evil''" "ascii ''phi''" False]
    by (auto simp: ascii_def)
  ultimately show ?thesis using own by blast
qed

text \<open>Requiring user verification only ever narrows acceptance, and does so by the flag: the strict
  check accepts exactly the assertions the lax check accepts with \<open>user_verified\<close> reported.\<close>

theorem webauthn_user_verification:
  assumes "length challenge < 2 ^ 63"
  shows "verify_webauthn W a challenge public_key origin rp_id True = Ok True \<longleftrightarrow>
     (\<exists>d. verify_webauthn_details W a challenge public_key origin rp_id False = Ok (Some d) \<and> ad_user_verified d)"
  unfolding verify_webauthn_eq [OF assms] details_eq [OF assms]
  by (auto simp: assertion_ok_def details_of_def)

end
