(* ===== verification/Phi_Seed.thy ===== *)
theory Phi_Seed
  imports Phi_Did
begin

section \<open>Seed-phrase key derivation (seed.rs)\<close>

text \<open>
  The opt-in self-custody path: a BIP-39 phrase and passphrase to a secp256k1 key pair at a
  fixed BIP-44 path. The record \<open>seed_backend\<close> has the operations of \<open>bip32\<close> (phrase, seed and
  path handling) and \<open>unicode-normalization\<close> that the module calls; \<open>XPrv::private_key\<close> is a
  \<open>k256\<close> signing key, so the key pair is built with the same operations as in \<open>did.rs\<close>.
\<close>

definition K1_DERIVATION_PATH :: str where
  "K1_DERIVATION_PATH = ascii ''m/44'' @ [0x27] @ ascii ''/118'' @ [0x27] @ ascii ''/0'' @ [0x27] @ ascii ''/0/0''"

definition MNEMONIC_WORD_COUNT :: nat where
  "MNEMONIC_WORD_COUNT = 24"

record ('r, 'm, 'path, 'seed, 'sk) seed_backend =
  sb_mnemonic_new :: "str \<Rightarrow> 'm option"
  sb_mnemonic_random :: "'r \<Rightarrow> 'm \<times> 'r"
  sb_phrase :: "'m \<Rightarrow> str"
  sb_parse_path :: "str \<Rightarrow> 'path option"
  sb_nfkd :: "str \<Rightarrow> str"
  sb_to_seed :: "'m \<Rightarrow> str \<Rightarrow> 'seed"
  sb_derive_from_path :: "'seed \<Rightarrow> 'path \<Rightarrow> 'sk option"

definition generate_mnemonic :: "('r, 'm, 'path, 'seed, 'sk) seed_backend \<Rightarrow> 'r \<Rightarrow> str zeroizing \<times> 'r" where
  "generate_mnemonic S rng =
     (let (mnemonic, rng) = sb_mnemonic_random S rng in (\<lparr>held = sb_phrase S mnemonic\<rparr>, rng))"

definition derive_k1_keypair_at ::
    "('r, 'm, 'path, 'seed, 'sk) seed_backend \<Rightarrow> ('r, 'sk, 'vk, 'sg) ecdsa \<Rightarrow> str \<Rightarrow> str \<Rightarrow> str \<Rightarrow>
     (KeyPair, crypto_error) result" where
  "derive_k1_keypair_at S K mnemonic passphrase path =
     bind_r (ok_or (InvalidInput ''mnemonic is not a valid BIP-39 phrase'')
              (sb_mnemonic_new S (str_trim mnemonic))) (\<lambda>mnemonic.
     bind_r (ok_or (InvalidInput ''invalid BIP-32 derivation path'') (sb_parse_path S path)) (\<lambda>path.
     let passphrase = \<lparr>held = sb_nfkd S passphrase\<rparr>;
         seed = sb_to_seed S mnemonic (held passphrase) in
     bind_r (ok_or (Backend ''BIP-32 derivation failed'') (sb_derive_from_path S seed path)) (\<lambda>sk.
     let pk = ec_verifying_key K sk;
         sk_bytes = \<lparr>held = ec_sk_to_bytes K sk\<rparr> in
     Ok \<lparr>kp_curve = Secp256k1, kp_secret = \<lparr>held = held sk_bytes\<rparr>, kp_public = ec_to_sec1_bytes K pk\<rparr>)))"

definition derive_k1_keypair ::
    "('r, 'm, 'path, 'seed, 'sk) seed_backend \<Rightarrow> ('r, 'sk, 'vk, 'sg) ecdsa \<Rightarrow> str \<Rightarrow> str \<Rightarrow>
     (KeyPair, crypto_error) result" where
  "derive_k1_keypair S K mnemonic passphrase =
     derive_k1_keypair_at S K mnemonic passphrase K1_DERIVATION_PATH"

lemma derive_k1_keypair_cong:
  assumes "str_trim m = str_trim m'" "sb_nfkd S p = sb_nfkd S p'"
  shows "derive_k1_keypair S K m p = derive_k1_keypair S K m' p'"
  using assms by (simp add: derive_k1_keypair_def derive_k1_keypair_at_def)

lemma derive_k1_keypair_reads:
  assumes "ecdsa_law K" "derive_k1_keypair S K m p = Ok kp"
  shows "kp_curve kp = Secp256k1 \<and> (\<exists>sk. ec_sk_from_slice K (held (kp_secret kp)) = Some sk
     \<and> ec_from_sec1_bytes K (kp_public kp) = Some (ec_verifying_key K sk))"
  using assms by (auto simp: derive_k1_keypair_def derive_k1_keypair_at_def bind_r_Ok_iff Let_def ecdsa_law_def)

subsection \<open>Claims\<close>

definition sample_seed :: "(byte, bytes, bytes, byte, byte) seed_backend" where
  "sample_seed =
    \<lparr>sb_mnemonic_new = (\<lambda>s. if s = ascii ''abandon art'' then Some s else None),
     sb_mnemonic_random = (\<lambda>rng. (ascii ''abandon art'', rng + 1)),
     sb_phrase = (\<lambda>m. m),
     sb_parse_path = (\<lambda>p. if p = K1_DERIVATION_PATH then Some p else None),
     sb_nfkd = (\<lambda>s. s),
     sb_to_seed = (\<lambda>m p. sum_list m + sum_list p),
     sb_derive_from_path = (\<lambda>seed path. Some (seed + sum_list path))\<rparr>"

text \<open>Recovering a key is insensitive to how the words were typed: whitespace around the phrase
  (any Unicode white space) and the Unicode form of the passphrase do not change the result,
  key pair or error. The phrase is given by its characters.\<close>

theorem seed_recovery_invariant:
  assumes "list_all is_scalar (pre @ words @ post)" "list_all is_whitespace pre" "list_all is_whitespace post"
    and "words \<noteq> []" "\<not> is_whitespace (hd words)" "\<not> is_whitespace (last words)"
    and "sb_nfkd S passphrase = sb_nfkd S passphrase'"
  shows "derive_k1_keypair S K (utf8_encode (pre @ words @ post)) passphrase
     = derive_k1_keypair S K (utf8_encode words) passphrase'"
proof -
  have "str_trim (utf8_encode (pre @ words @ post)) = utf8_encode words"
    using assms by (intro str_trim_pad) simp_all
  moreover have "str_trim (utf8_encode ([] @ words @ [])) = utf8_encode words"
    using assms by (intro str_trim_pad) simp_all
  ultimately show ?thesis using assms(7) by (intro derive_k1_keypair_cong) simp_all
qed

text \<open>A recovered key is a working identity: whenever derivation succeeds, the key pair is on
  secp256k1, signs every message, and the signature verifies under its public key.\<close>

theorem seed_key_signs:
  assumes "curves_law C" "derive_k1_keypair S (cv_k256 C) mnemonic passphrase = Ok kp"
  shows "kp_curve kp = Secp256k1
     \<and> (\<exists>sig. did_sign C (kp_curve kp) (held (kp_secret kp)) msg = Ok sig
          \<and> did_verify C (kp_curve kp) (kp_public kp) msg sig)"
proof -
  have K: "ecdsa_law (cv_k256 C)" using assms(1) by (simp add: curves_law_def)
  from derive_k1_keypair_reads [OF K assms(2)] obtain sk where
    r: "kp_curve kp = Secp256k1" "ec_sk_from_slice (cv_k256 C) (held (kp_secret kp)) = Some sk"
      "ec_from_sec1_bytes (cv_k256 C) (kp_public kp) = Some (ec_verifying_key (cv_k256 C) sk)" by blast
  from sign_with_verifies [OF K r(2,3), of msg] r(1) show ?thesis
    by (auto simp: did_sign_def did_verify_def)
qed

end
