(* ===== verification/Phi_Bindings.thy ===== *)
theory Phi_Bindings
  imports Phi_Cryptosuite Phi_Vote Phi_Webauthn Phi_Seed
begin

section \<open>The browser and mobile boundaries (wasm.rs, bindings/flutter/rust/src/api.rs)\<close>

text \<open>
  The two surfaces wrap the same core operations: they map curve codes, convert argument
  containers, move secrets out of their zeroizing wrappers and turn errors into text. A
  JavaScript value is a string, a byte array, or something else; a Dart error is a string.
\<close>

datatype js_value = JsString string | JsUint8Array bytes | JsOther

primrec err_with :: "('e \<Rightarrow> 'f) \<Rightarrow> ('a, 'e) result \<Rightarrow> ('a, 'f) result" where
  "err_with f (Ok x) = Ok x"
| "err_with f (Err e) = Err (f e)"
| "err_with f Panic = Panic"

definition with_err :: "('e \<Rightarrow> 'f) \<Rightarrow> ('s \<Rightarrow> ('a, 'e) result \<times> 's) \<Rightarrow> 's \<Rightarrow> ('a, 'f) result \<times> 's" where
  "with_err f m s = (case m s of (r, s') \<Rightarrow> (err_with f r, s'))"

definition and_then ::
    "('s \<Rightarrow> ('a, 'e) result \<times> 's) \<Rightarrow> ('a \<Rightarrow> ('b, 'e) result) \<Rightarrow> 's \<Rightarrow> ('b, 'e) result \<times> 's" where
  "and_then m f s = (case m s of (r, s') \<Rightarrow> (bind_r r f, s'))"

definition js_error :: "crypto_error \<Rightarrow> js_value" where
  "js_error e = JsString (display e)"

abbreviation boundary_str :: "str zeroizing \<Rightarrow> str" where
  "boundary_str z \<equiv> fst (into_boundary_owned [] zeroize_vec z)"

subsection \<open>wasm.rs\<close>

definition wasm_curve_from_code :: "byte \<Rightarrow> (Curve, js_value) result" where
  "wasm_curve_from_code c =
     (if c = 0 then Ok Secp256k1
      else if c = 1 then Ok Secp256r1
      else Err (JsString ''curve code must be 0 (secp256k1) or 1 (secp256r1)''))"

text \<open>The loop of \<open>claims_from_array\<close>, pushing onto \<open>out\<close>.\<close>

fun claims_loop :: "bytes list \<Rightarrow> js_value list \<Rightarrow> (bytes list, js_value) result" where
  "claims_loop out [] = Ok out"
| "claims_loop out (v # vs) =
     (case v of
        JsUint8Array arr \<Rightarrow> claims_loop (out @ [arr]) vs
      | _ \<Rightarrow> Err (JsString ''each claim must be a Uint8Array''))"

definition claims_from_array :: "js_value list \<Rightarrow> (bytes list, js_value) result" where
  "claims_from_array claims = claims_loop [] claims"

record WasmKeyPair =
  wk_secret :: bytes
  wk_public :: bytes

text \<open>The getters return copies.\<close>

definition WasmKeyPair_secret :: "WasmKeyPair \<Rightarrow> bytes" where
  "WasmKeyPair_secret kp = wk_secret kp"

definition WasmKeyPair_public :: "WasmKeyPair \<Rightarrow> bytes" where
  "WasmKeyPair_public kp = wk_public kp"

definition wasm_generate_keypair ::
    "('r, 'ks, 'kv, 'kg, 'ps, 'pv, 'pg) curves \<Rightarrow> byte \<Rightarrow> 'r \<Rightarrow> (WasmKeyPair, js_value) result \<times> 'r" where
  "wasm_generate_keypair C curve_code rng =
     (case wasm_curve_from_code curve_code of
        Ok curve \<Rightarrow>
          (let (kp, rng) = generate_keypair C curve rng in
           (Ok \<lparr>wk_secret = boundary_bytes (kp_secret kp), wk_public = kp_public kp\<rparr>, rng))
      | Err e \<Rightarrow> (Err e, rng)
      | Panic \<Rightarrow> (Panic, rng))"

definition wasm_sign ::
    "('r, 'ks, 'kv, 'kg, 'ps, 'pv, 'pg) curves \<Rightarrow> byte \<Rightarrow> bytes \<Rightarrow> bytes \<Rightarrow> (bytes, js_value) result" where
  "wasm_sign C curve_code secret msg =
     bind_r (wasm_curve_from_code curve_code) (\<lambda>curve. err_with js_error (did_sign C curve secret msg))"

definition wasm_verify_signature ::
    "('r, 'ks, 'kv, 'kg, 'ps, 'pv, 'pg) curves \<Rightarrow> byte \<Rightarrow> bytes \<Rightarrow> bytes \<Rightarrow> bytes \<Rightarrow> bool" where
  "wasm_verify_signature C curve_code public_key msg sig =
     (case wasm_curve_from_code curve_code of
        Ok curve \<Rightarrow> did_verify C curve public_key msg sig
      | _ \<Rightarrow> False)"

definition wasm_did_from_public ::
    "(bytes \<Rightarrow> bytes) \<Rightarrow> ('r, 'ks, 'kv, 'kg, 'ps, 'pv, 'pg) curves \<Rightarrow> byte \<Rightarrow> bytes \<Rightarrow>
     (str, js_value) result" where
  "wasm_did_from_public sha256 C curve_code public_key =
     bind_r (wasm_curve_from_code curve_code)
       (\<lambda>curve. err_with js_error (did_from_public sha256 C curve public_key))"

definition wasm_seed_generate_mnemonic :: "('r, 'm, 'path, 'seed, 'sk) seed_backend \<Rightarrow> 'r \<Rightarrow> str \<times> 'r" where
  "wasm_seed_generate_mnemonic S rng =
     (let (phrase, rng) = generate_mnemonic S rng in (boundary_str phrase, rng))"

definition wasm_seed_derive_k1 ::
    "('r, 'm, 'path, 'seed, 'sk) seed_backend \<Rightarrow> ('r, 'sk, 'vk, 'sg) ecdsa \<Rightarrow> str \<Rightarrow> str \<Rightarrow>
     (WasmKeyPair, js_value) result" where
  "wasm_seed_derive_k1 S K mnemonic passphrase =
     bind_r (err_with js_error (derive_k1_keypair S K mnemonic passphrase)) (\<lambda>kp.
     Ok \<lparr>wk_secret = boundary_bytes (kp_secret kp), wk_public = kp_public kp\<rparr>)"

definition wasm_webauthn_verify ::
    "('r, 'ps, 'pv, 'pg) webauthn_backend \<Rightarrow> bytes \<Rightarrow> bytes \<Rightarrow> bytes \<Rightarrow> bytes \<Rightarrow> bytes \<Rightarrow> str \<Rightarrow> str \<Rightarrow> bool \<Rightarrow>
     (bool, crypto_error) result" where
  "wasm_webauthn_verify W auth_data client_data_json signature chal public_key origin rp_id require_uv =
     (let assertion = \<lparr>wa_authenticator_data = auth_data, wa_client_data_json = client_data_json,
                       wa_signature = signature\<rparr> in
      verify_webauthn W assertion chal public_key origin rp_id require_uv)"

definition wasm_compute_nullifier :: "(bytes \<Rightarrow> bytes) \<Rightarrow> bytes \<Rightarrow> bytes \<Rightarrow> bytes" where
  "wasm_compute_nullifier sha256 secret topic = compute_nullifier sha256 secret topic"

definition wasm_semaphore_nullifier :: "(bytes \<Rightarrow> bytes) \<Rightarrow> bytes \<Rightarrow> bytes \<Rightarrow> bytes" where
  "wasm_semaphore_nullifier sha256 secret election_id = sem_nullifier sha256 secret election_id"

definition wasm_semaphore_bind_nonce :: "(bytes \<Rightarrow> bytes) \<Rightarrow> bytes \<Rightarrow> bytes \<Rightarrow> bytes \<Rightarrow> bytes" where
  "wasm_semaphore_bind_nonce sha256 election_id nullifier signal =
     (case try_into_array NULLIFIER_LEN nullifier of
        Some n \<Rightarrow> bind_nonce sha256 election_id n signal
      | None \<Rightarrow> [])"

definition wasm_vote_prove ::
    "('p, 'r, 'f::comm_ring_1, 'sk, 'pk, 'sg, 'pok, 'pf, 'g::ab_group_add) vote_backend \<Rightarrow> js_value list \<Rightarrow>
     bytes \<Rightarrow> bytes \<Rightarrow> u32 list \<Rightarrow> bytes \<Rightarrow> bytes \<Rightarrow> bytes \<Rightarrow> ('p, 'r) suite_state \<Rightarrow>
     (bytes, js_value) result \<times> ('p, 'r) suite_state" where
  "wasm_vote_prove V claims signature issuer_public_key reveal chain_id election_id signal s =
     (case claims_from_array claims of
        Ok claims \<Rightarrow>
          let claims = \<lparr>held = claims\<rparr>;
              reveal = map unat reveal in
          with_err js_error
            (prove_vote_bytes V (held claims) signature issuer_public_key reveal chain_id election_id signal) s
      | Err e \<Rightarrow> (Err e, s)
      | Panic \<Rightarrow> (Panic, s))"

record WasmBbsKeyPair =
  wbk_secret :: bytes
  wbk_public :: bytes

definition WasmBbsKeyPair_secret :: "WasmBbsKeyPair \<Rightarrow> bytes" where
  "WasmBbsKeyPair_secret kp = wbk_secret kp"

definition WasmBbsKeyPair_public :: "WasmBbsKeyPair \<Rightarrow> bytes" where
  "WasmBbsKeyPair_public kp = wbk_public kp"

definition wasm_bbs_generate_keypair ::
    "('p, 'r, 'f, 'sk, 'pk, 'sg, 'pok, 'pf) bbs_backend \<Rightarrow> u32 \<Rightarrow> ('p, 'r) suite_state \<Rightarrow>
     (WasmBbsKeyPair, js_value) result \<times> ('p, 'r) suite_state" where
  "wasm_bbs_generate_keypair B message_count =
     and_then (with_err js_error (default_generate_keypair B message_count)) (\<lambda>kp.
       Ok \<lparr>wbk_secret = boundary_bytes (bkp_secret kp), wbk_public = bkp_public kp\<rparr>)"

definition wasm_bbs_sign_credential ::
    "('p, 'r, 'f, 'sk, 'pk, 'sg, 'pok, 'pf) bbs_backend \<Rightarrow> js_value list \<Rightarrow> bytes \<Rightarrow> ('p, 'r) suite_state \<Rightarrow>
     (bytes, js_value) result \<times> ('p, 'r) suite_state" where
  "wasm_bbs_sign_credential B claims secret s =
     (case claims_from_array claims of
        Ok claims \<Rightarrow>
          let claims = \<lparr>held = claims\<rparr> in
          with_err js_error (default_sign_credential B (held claims) secret) s
      | Err e \<Rightarrow> (Err e, s)
      | Panic \<Rightarrow> (Panic, s))"

definition wasm_bbs_derive_proof ::
    "('p, 'r, 'f, 'sk, 'pk, 'sg, 'pok, 'pf) bbs_backend \<Rightarrow> js_value list \<Rightarrow> bytes \<Rightarrow> u32 list \<Rightarrow> bytes \<Rightarrow>
     ('p, 'r) suite_state \<Rightarrow> (bytes, js_value) result \<times> ('p, 'r) suite_state" where
  "wasm_bbs_derive_proof B claims signature reveal nonce s =
     (case claims_from_array claims of
        Ok claims \<Rightarrow>
          let claims = \<lparr>held = claims\<rparr>;
              reveal = map unat reveal in
          and_then (with_err js_error (default_derive_proof B (held claims) signature reveal nonce))
            (\<lambda>proof. Ok (sp_to_bytes proof)) s
      | Err e \<Rightarrow> (Err e, s)
      | Panic \<Rightarrow> (Panic, s))"

definition wasm_bbs_verify_proof ::
    "('p, 'r, 'f, 'sk, 'pk, 'sg, 'pok, 'pf) bbs_backend \<Rightarrow> bytes \<Rightarrow> bytes \<Rightarrow> bytes \<Rightarrow>
     (('p, 'r) suite_state, bool) st" where
  "wasm_bbs_verify_proof B proof public_key nonce = bbs_verify_proof_bytes B proof public_key nonce"

subsection \<open>api.rs\<close>

definition fl_curve_from_code :: "byte \<Rightarrow> (Curve, string) result" where
  "fl_curve_from_code c =
     (if c = 0 then Ok Secp256k1
      else if c = 1 then Ok Secp256r1
      else Err ''curve code must be 0 (secp256k1) or 1 (secp256r1)'')"

record PhiKeyPair =
  pk_secret :: bytes
  pk_public :: bytes

definition fl_generate_keypair ::
    "('r, 'ks, 'kv, 'kg, 'ps, 'pv, 'pg) curves \<Rightarrow> byte \<Rightarrow> 'r \<Rightarrow> (PhiKeyPair, string) result \<times> 'r" where
  "fl_generate_keypair C curve rng =
     (case fl_curve_from_code curve of
        Ok curve \<Rightarrow>
          (let (kp, rng) = generate_keypair C curve rng in
           (Ok \<lparr>pk_secret = boundary_bytes (kp_secret kp), pk_public = kp_public kp\<rparr>, rng))
      | Err e \<Rightarrow> (Err e, rng)
      | Panic \<Rightarrow> (Panic, rng))"

definition fl_sign ::
    "('r, 'ks, 'kv, 'kg, 'ps, 'pv, 'pg) curves \<Rightarrow> byte \<Rightarrow> bytes \<Rightarrow> bytes \<Rightarrow> (bytes, string) result" where
  "fl_sign C curve secret msg =
     (let secret = \<lparr>held = secret\<rparr> in
      bind_r (fl_curve_from_code curve) (\<lambda>curve. err_with display (did_sign C curve (held secret) msg)))"

definition fl_verify_signature ::
    "('r, 'ks, 'kv, 'kg, 'ps, 'pv, 'pg) curves \<Rightarrow> byte \<Rightarrow> bytes \<Rightarrow> bytes \<Rightarrow> bytes \<Rightarrow> bool" where
  "fl_verify_signature C curve public_key msg sig =
     (case fl_curve_from_code curve of
        Ok curve \<Rightarrow> did_verify C curve public_key msg sig
      | _ \<Rightarrow> False)"

definition fl_did_from_public ::
    "(bytes \<Rightarrow> bytes) \<Rightarrow> ('r, 'ks, 'kv, 'kg, 'ps, 'pv, 'pg) curves \<Rightarrow> byte \<Rightarrow> bytes \<Rightarrow>
     (str, string) result" where
  "fl_did_from_public sha256 C curve public_key =
     bind_r (fl_curve_from_code curve)
       (\<lambda>curve. err_with display (did_from_public sha256 C curve public_key))"

definition fl_seed_generate_mnemonic :: "('r, 'm, 'path, 'seed, 'sk) seed_backend \<Rightarrow> 'r \<Rightarrow> str \<times> 'r" where
  "fl_seed_generate_mnemonic S rng =
     (let (phrase, rng) = generate_mnemonic S rng in (boundary_str phrase, rng))"

definition fl_seed_derive_k1 ::
    "('r, 'm, 'path, 'seed, 'sk) seed_backend \<Rightarrow> ('r, 'sk, 'vk, 'sg) ecdsa \<Rightarrow> str \<Rightarrow> str \<Rightarrow>
     (PhiKeyPair, string) result" where
  "fl_seed_derive_k1 S K mnemonic passphrase =
     (let mnemonic = \<lparr>held = mnemonic\<rparr>;
          passphrase = \<lparr>held = passphrase\<rparr> in
      bind_r (err_with display (derive_k1_keypair S K (held mnemonic) (held passphrase))) (\<lambda>kp.
      Ok \<lparr>pk_secret = boundary_bytes (kp_secret kp), pk_public = kp_public kp\<rparr>))"

definition fl_webauthn_verify ::
    "('r, 'ps, 'pv, 'pg) webauthn_backend \<Rightarrow> bytes \<Rightarrow> bytes \<Rightarrow> bytes \<Rightarrow> bytes \<Rightarrow> bytes \<Rightarrow> str \<Rightarrow> str \<Rightarrow> bool \<Rightarrow>
     (bool, crypto_error) result" where
  "fl_webauthn_verify W auth_data client_data_json signature chal public_key origin rp_id require_uv =
     (let assertion = \<lparr>wa_authenticator_data = auth_data, wa_client_data_json = client_data_json,
                       wa_signature = signature\<rparr> in
      verify_webauthn W assertion chal public_key origin rp_id require_uv)"

definition fl_compute_nullifier :: "(bytes \<Rightarrow> bytes) \<Rightarrow> bytes \<Rightarrow> bytes \<Rightarrow> bytes" where
  "fl_compute_nullifier sha256 secret topic =
     (let secret = \<lparr>held = secret\<rparr> in compute_nullifier sha256 (held secret) topic)"

definition fl_semaphore_nullifier :: "(bytes \<Rightarrow> bytes) \<Rightarrow> bytes \<Rightarrow> bytes \<Rightarrow> bytes" where
  "fl_semaphore_nullifier sha256 secret election_id =
     (let secret = \<lparr>held = secret\<rparr> in sem_nullifier sha256 (held secret) election_id)"

definition fl_semaphore_bind_nonce :: "(bytes \<Rightarrow> bytes) \<Rightarrow> bytes \<Rightarrow> bytes \<Rightarrow> bytes \<Rightarrow> bytes" where
  "fl_semaphore_bind_nonce sha256 election_id nullifier signal =
     (case try_into_array NULLIFIER_LEN nullifier of
        Some n \<Rightarrow> bind_nonce sha256 election_id n signal
      | None \<Rightarrow> [])"

record PhiBbsKeyPair =
  pbk_secret :: bytes
  pbk_public :: bytes

definition fl_bbs_generate_keypair ::
    "('p, 'r, 'f, 'sk, 'pk, 'sg, 'pok, 'pf) bbs_backend \<Rightarrow> u32 \<Rightarrow> ('p, 'r) suite_state \<Rightarrow>
     (PhiBbsKeyPair, string) result \<times> ('p, 'r) suite_state" where
  "fl_bbs_generate_keypair B message_count =
     and_then (with_err display (default_generate_keypair B message_count)) (\<lambda>kp.
       Ok \<lparr>pbk_secret = boundary_bytes (bkp_secret kp), pbk_public = bkp_public kp\<rparr>)"

definition fl_bbs_sign_credential ::
    "('p, 'r, 'f, 'sk, 'pk, 'sg, 'pok, 'pf) bbs_backend \<Rightarrow> bytes list \<Rightarrow> bytes \<Rightarrow> ('p, 'r) suite_state \<Rightarrow>
     (bytes, string) result \<times> ('p, 'r) suite_state" where
  "fl_bbs_sign_credential B claims secret =
     (let claims = \<lparr>held = claims\<rparr>;
          secret = \<lparr>held = secret\<rparr> in
      with_err display (default_sign_credential B (held claims) (held secret)))"

definition fl_bbs_derive_proof ::
    "('p, 'r, 'f, 'sk, 'pk, 'sg, 'pok, 'pf) bbs_backend \<Rightarrow> bytes list \<Rightarrow> bytes \<Rightarrow> u32 list \<Rightarrow> bytes \<Rightarrow>
     ('p, 'r) suite_state \<Rightarrow> (bytes, string) result \<times> ('p, 'r) suite_state" where
  "fl_bbs_derive_proof B claims signature reveal nonce =
     (let claims = \<lparr>held = claims\<rparr>;
          signature = \<lparr>held = signature\<rparr>;
          reveal = map unat reveal in
      and_then (with_err display (default_derive_proof B (held claims) (held signature) reveal nonce))
        (\<lambda>proof. Ok (sp_to_bytes proof)))"

definition fl_bbs_verify_proof ::
    "('p, 'r, 'f, 'sk, 'pk, 'sg, 'pok, 'pf) bbs_backend \<Rightarrow> bytes \<Rightarrow> bytes \<Rightarrow> bytes \<Rightarrow>
     (('p, 'r) suite_state, bool) st" where
  "fl_bbs_verify_proof B proof public_key nonce = bbs_verify_proof_bytes B proof public_key nonce"

definition fl_vote_prove ::
    "('p, 'r, 'f::comm_ring_1, 'sk, 'pk, 'sg, 'pok, 'pf, 'g::ab_group_add) vote_backend \<Rightarrow> bytes list \<Rightarrow>
     bytes \<Rightarrow> bytes \<Rightarrow> u32 list \<Rightarrow> bytes \<Rightarrow> bytes \<Rightarrow> bytes \<Rightarrow> ('p, 'r) suite_state \<Rightarrow>
     (bytes, string) result \<times> ('p, 'r) suite_state" where
  "fl_vote_prove V claims signature issuer_public_key reveal chain_id election_id signal =
     (let claims = \<lparr>held = claims\<rparr>;
          reveal = map unat reveal in
      with_err display
        (prove_vote_bytes V (held claims) signature issuer_public_key reveal chain_id election_id signal))"

subsection \<open>The two surfaces\<close>

lemma claims_loop_Ok: "claims_loop out vs = Ok cs \<longleftrightarrow> (\<exists>ds. cs = out @ ds \<and> vs = map JsUint8Array ds)"
proof (induction vs arbitrary: out)
  case (Cons v vs)
  show ?case
  proof (cases v)
    case (JsUint8Array arr)
    have "claims_loop out (v # vs) = Ok cs \<longleftrightarrow> (\<exists>ds. cs = (out @ [arr]) @ ds \<and> vs = map JsUint8Array ds)"
      using Cons JsUint8Array by simp
    also have "\<dots> \<longleftrightarrow> (\<exists>ds. cs = out @ ds \<and> v # vs = map JsUint8Array ds)"
      using JsUint8Array by (auto simp: Cons_eq_map_conv)
    finally show ?thesis .
  qed (auto simp: Cons_eq_map_conv)
qed auto

lemma claims_from_array_Ok: "claims_from_array vs = Ok cs \<longleftrightarrow> vs = map JsUint8Array cs"
  by (simp add: claims_from_array_def claims_loop_Ok)

lemma claims_from_array_bytes [simp]: "claims_from_array (map JsUint8Array cs) = Ok cs"
  by (simp add: claims_from_array_Ok)

lemma claims_from_array_no_panic: "no_panic (claims_from_array vs)"
proof -
  have "no_panic (claims_loop out vs)" for out
    by (induction out vs rule: claims_loop.induct) (simp_all split: js_value.split)
  then show ?thesis by (simp add: claims_from_array_def)
qed

lemma err_with_comp: "err_with f (err_with g r) = err_with (\<lambda>x. f (g x)) r"
  by (cases r) simp_all

lemma err_with_bind: "err_with f (bind_r r k) = bind_r (err_with f r) (\<lambda>x. err_with f (k x))"
  by (cases r) simp_all

lemma err_with_Ok_iff [simp]: "err_with f r = Ok x \<longleftrightarrow> r = Ok x"
  by (cases r) simp_all

lemma wasm_curve: "wasm_curve_from_code c = err_with JsString (fl_curve_from_code c)"
  by (simp add: wasm_curve_from_code_def fl_curve_from_code_def)

lemma with_err_run: "m s = (r, s') \<Longrightarrow> with_err f m s = (err_with f r, s')"
  by (simp add: with_err_def)

lemma and_then_run: "m s = (r, s') \<Longrightarrow> and_then m f s = (bind_r r f, s')"
  by (simp add: and_then_def)

lemma js_error_display: "js_error = (\<lambda>e. JsString (display e))"
  by (simp add: js_error_def fun_eq_iff)

end
