(* ===== verification/Phi_Boundary.thy ===== *)
theory Phi_Boundary
  imports Phi_Utf8 Phi_State Phi_Framing
begin

section \<open>The C boundary: memory, slices, panics (ffi.rs)\<close>

text \<open>
  The exports of \<open>ffi.rs\<close> take pointer and length pairs. Memory maps the allocated addresses
  to bytes; an access outside of it is undefined behaviour, the value \<open>Err Undefined\<close> of an
  export, which no theorem may assume away silently: it is excluded only by the safety
  contract written in the source (\<open>valid_arg\<close>). \<open>guard\<close> turns a panic into the fail-closed
  value where the build unwinds. What all verifying exports promise is stated once, as the interface
  \<open>verifier_export\<close>.
\<close>

datatype ub = Undefined

type_synonym memory = "u64 \<Rightarrow> byte option"
type_synonym i32 = "32 word"
type_synonym c_arg = "u64 \<times> usize"

type_synonym ('s, 'a) ex = "'s \<Rightarrow> ('a, ub) result \<times> 's"

text \<open>
  How a build treats a panic. Test builds unwind, and \<open>catch_unwind\<close> returns. The release profile,
  which ships the static library, sets \<open>panic = "abort"\<close>, and under the fuzzer a panic is a crash: there
  the process ends at the panic and \<open>guard\<close> converts nothing. A theorem about the exports for
  every strategy therefore says that their bodies do not panic.
\<close>

datatype panic_strategy = Unwind | Abort

definition guard :: "panic_strategy \<Rightarrow> 'a \<Rightarrow> ('s, 'a) ex \<Rightarrow> ('s, 'a) ex" where
  "guard ps fail_closed body s = (case body s of
       (Panic, s') \<Rightarrow> (case ps of Unwind \<Rightarrow> (Ok fail_closed, s') | Abort \<Rightarrow> (Panic, s'))
     | (r, s') \<Rightarrow> (r, s'))"

subsection \<open>Slices\<close>

definition region :: "u64 \<Rightarrow> usize \<Rightarrow> u64 list" where
  "region ptr len = map (\<lambda>i. ptr + word_of_nat i) [0..<len]"

text \<open>
  What \<open>from_raw_parts\<close> requires of its arguments: every byte allocated, no wrap around the
  address space, at most \<open>isize::MAX\<close> bytes.
\<close>

definition readable :: "memory \<Rightarrow> u64 \<Rightarrow> usize \<Rightarrow> bool" where
  "readable mem ptr len \<longleftrightarrow>
     len < 2 ^ 63 \<and> unat ptr + len \<le> 2 ^ 64 \<and> list_all (\<lambda>a. mem a \<noteq> None) (region ptr len)"

definition contents :: "memory \<Rightarrow> u64 \<Rightarrow> usize \<Rightarrow> bytes" where
  "contents mem ptr len = map (\<lambda>a. the (mem a)) (region ptr len)"

definition from_raw_parts :: "memory \<Rightarrow> u64 \<Rightarrow> usize \<Rightarrow> (bytes, ub) result" where
  "from_raw_parts mem ptr len =
     (if readable mem ptr len then Ok (contents mem ptr len) else Err Undefined)"

definition as_slice :: "memory \<Rightarrow> u64 \<Rightarrow> usize \<Rightarrow> (bytes option, ub) result" where
  "as_slice mem ptr len =
     (if len = 0 then Ok (Some [])
      else if ptr = 0 then Ok None
      else bind_r (from_raw_parts mem ptr len) (\<lambda>b. Ok (Some b)))"

definition as_str :: "memory \<Rightarrow> u64 \<Rightarrow> usize \<Rightarrow> (str option, ub) result" where
  "as_str mem ptr len =
     bind_r (as_slice mem ptr len) (\<lambda>sl. case sl of
         None \<Rightarrow> Ok None
       | Some b \<Rightarrow> Ok (from_utf8 b))"

text \<open>\<open>slice::from_raw_parts_mut(out, n).copy_from_slice(v)\<close>, which panics on a length mismatch.\<close>

definition write_raw :: "memory \<Rightarrow> u64 \<Rightarrow> bytes \<Rightarrow> memory" where
  "write_raw mem ptr v = fold (\<lambda>(a, x) m. m(a \<mapsto> x)) (zip (region ptr (length v)) v) mem"

definition copy_from_slice :: "u64 \<Rightarrow> usize \<Rightarrow> bytes \<Rightarrow> (memory, unit) ex" where
  "copy_from_slice ptr n v mem =
     (if \<not> readable mem ptr n then (Err Undefined, mem)
      else if length v \<noteq> n then (Panic, mem)
      else (Ok (), write_raw mem ptr v))"

subsection \<open>Sequencing\<close>

definition ret :: "'a \<Rightarrow> ('s, 'a) ex" where
  "ret x s = (Ok x, s)"

definition reads :: "('a, ub) result \<Rightarrow> ('a \<Rightarrow> ('s, 'b) ex) \<Rightarrow> ('s, 'b) ex" where
  "reads r f s = (case r of Ok x \<Rightarrow> f x s | Err e \<Rightarrow> (Err e, s) | Panic \<Rightarrow> (Panic, s))"

lemma reads_Ok [simp]: "reads (Ok x) f = f x"
  by (simp add: reads_def fun_eq_iff)

definition of_bool_i32 :: "bool \<Rightarrow> i32" where
  "of_bool_i32 b = (if b then 1 else 0)"

text \<open>
  \<open>f(\<dots>) as i32\<close> for a core function returning \<open>bool\<close>: a value or a panic. A function of that
  type has no error outcome.
\<close>

definition as_i32 :: "('s, bool) st \<Rightarrow> ('s, i32) ex" where
  "as_i32 f s = (case f s of
       (Ok b, s') \<Rightarrow> (Ok (of_bool_i32 b), s')
     | (Err _, s') \<Rightarrow> (Panic, s')
     | (Panic, s') \<Rightarrow> (Panic, s'))"

lemma guard_fst: "fst (body s) = Ok x \<Longrightarrow> fst (guard ps v body s) = Ok x"
  by (cases "body s") (simp add: guard_def)

lemma as_i32_run: "fst (f s) = Ok b \<Longrightarrow> as_i32 f s = (Ok (of_bool_i32 b), snd (f s))"
  by (cases "f s") (simp add: as_i32_def)

text \<open>Where a panic aborts, a guarded body that returns has not panicked.\<close>

lemma guard_Abort: "no_panic (fst (guard Abort v body s)) \<longleftrightarrow> no_panic (fst (body s))"
  by (auto simp: guard_def split: result.split prod.split)

subsection \<open>What a slice argument denotes\<close>

text \<open>The safety contract of one argument, and the bytes it stands for; \<open>None\<close> is a null pointer.\<close>

definition valid_arg :: "memory \<Rightarrow> c_arg \<Rightarrow> bool" where
  "valid_arg mem a \<longleftrightarrow> snd a = 0 \<or> fst a = 0 \<or> readable mem (fst a) (snd a)"

definition view :: "memory \<Rightarrow> c_arg \<Rightarrow> bytes option" where
  "view mem a = (if snd a = 0 then Some [] else if fst a = 0 then None else Some (contents mem (fst a) (snd a)))"

lemma length_region [simp]: "length (region ptr len) = len"
  by (simp add: region_def)

lemma readable_take: "readable mem ptr len \<Longrightarrow> n \<le> len \<Longrightarrow> readable mem ptr n"
  by (auto simp: readable_def region_def list_all_iff)

lemma as_slice_view: "valid_arg mem (p, n) \<Longrightarrow> as_slice mem p n = Ok (view mem (p, n))"
  by (auto simp: valid_arg_def view_def as_slice_def from_raw_parts_def)

lemma as_str_view: "valid_arg mem (p, n) \<Longrightarrow> as_str mem p n = Ok (Option.bind (view mem (p, n)) from_utf8)"
  by (auto simp: as_str_def as_slice_view split: option.split)

lemma view_length: "valid_arg mem a \<Longrightarrow> view mem a = Some b \<Longrightarrow> length b < 2 ^ 63"
  by (auto simp: view_def valid_arg_def readable_def contents_def split: if_splits)

lemma view_fits64: "valid_arg mem a \<Longrightarrow> view mem a = Some b \<Longrightarrow> fits64 b"
  using view_length [of mem a b] by (simp add: fits64_def)

lemma view_null: "view mem a = None \<longleftrightarrow> fst a = 0 \<and> snd a \<noteq> 0"
  by (simp add: view_def)

lemmas view_simps = as_slice_view as_str_view reads_def ret_def

subsection \<open>Writing\<close>

lemma region_inj:
  assumes "unat ptr + len \<le> 2 ^ 64"
  shows "distinct (region ptr len)"
proof -
  have "inj_on (\<lambda>i. ptr + word_of_nat i) {0..<len}"
  proof (rule inj_onI)
    fix i j assume "i \<in> {0..<len}" "j \<in> {0..<len}" and eq: "ptr + word_of_nat i = ptr + word_of_nat j"
    then have "i < 2 ^ 64" "j < 2 ^ 64" using assms by simp_all
    moreover have "(word_of_nat i :: u64) = word_of_nat j" using eq by simp
    ultimately show "i = j" by (simp add: word_of_nat_eq_iff take_bit_nat_eq_self)
  qed
  then show ?thesis by (simp add: region_def distinct_map)
qed

lemma fold_upd_outside:
  "x \<notin> fst ` set ps \<Longrightarrow> fold (\<lambda>(a, v) m. m(a \<mapsto> v)) ps m x = m x"
  by (induction ps arbitrary: m) auto

lemma fold_upd_inside:
  "distinct (map fst ps) \<Longrightarrow> (a, v) \<in> set ps \<Longrightarrow> fold (\<lambda>(a, v) m. m(a \<mapsto> v)) ps m a = Some v"
proof (induction ps arbitrary: m)
  case (Cons q ps)
  show ?case
  proof (cases "q = (a, v)")
    case True
    with Cons.prems(1) have "a \<notin> fst ` set ps" by simp
    from fold_upd_outside [OF this, of "m(a \<mapsto> v)"] True
    show ?thesis by (simp del: fun_upd_apply) (simp only: fun_upd_same)
  next
    case False
    with Cons show ?thesis by (cases q) (auto simp del: fun_upd_apply)
  qed
qed simp

text \<open>A write changes exactly its region, which then holds the bytes written.\<close>

lemma write_raw_outside: "x \<notin> set (region ptr (length v)) \<Longrightarrow> write_raw mem ptr v x = mem x"
  unfolding write_raw_def by (rule fold_upd_outside) (auto dest: set_zip_leftD)

lemma write_raw_inside:
  assumes "unat ptr + length v \<le> 2 ^ 64"
  shows "contents (write_raw mem ptr v) ptr (length v) = v"
proof (rule nth_equalityI)
  fix i assume "i < length (contents (write_raw mem ptr v) ptr (length v))"
  then have i: "i < length v" by (simp add: contents_def)
  let ?r = "region ptr (length v)"
  have "(?r ! i, v ! i) \<in> set (zip ?r v)" using i by (auto simp: set_zip)
  moreover have "distinct (map fst (zip ?r v))" using region_inj [OF assms] by simp
  ultimately have "write_raw mem ptr v (?r ! i) = Some (v ! i)"
    unfolding write_raw_def by (rule fold_upd_inside [rotated])
  with i show "contents (write_raw mem ptr v) ptr (length v) ! i = v ! i" by (simp add: contents_def)
qed (simp add: contents_def)

subsection \<open>The interface of a verifying export\<close>

text \<open>
  An export over \<open>n\<close> slice arguments, in a state satisfying \<open>st_ok\<close>: under the safety contract
  its value is \<open>1\<close> when the core accepts what the arguments denote and \<open>0\<close> otherwise, and
  nothing is accepted with a null argument.
\<close>

locale verifier_export =
  fixes export :: "memory \<Rightarrow> c_arg list \<Rightarrow> ('s, i32) ex"
    and n :: nat
    and st_ok :: "'s \<Rightarrow> bool"
    and accepts :: "bytes option list \<Rightarrow> bool"
  assumes decides:
      "st_ok s \<Longrightarrow> length args = n \<Longrightarrow> list_all (valid_arg mem) args \<Longrightarrow>
         fst (export mem args s) = Ok (of_bool_i32 (accepts (map (view mem) args)))"
    and needs_all: "None \<in> set vs \<Longrightarrow> \<not> accepts vs"
begin

lemma returns_bit:
  assumes "st_ok s" "length args = n" "list_all (valid_arg mem) args"
  shows "fst (export mem args s) \<in> {Ok 0, Ok 1}"
  using decides [OF assms] by (simp add: of_bool_i32_def)

lemma accepts_iff:
  assumes "st_ok s" "length args = n" "list_all (valid_arg mem) args"
  shows "fst (export mem args s) = Ok 1 \<longleftrightarrow> accepts (map (view mem) args)"
  using decides [OF assms] by (simp add: of_bool_i32_def)

lemma null_rejected:
  assumes "st_ok s" "length args = n" "list_all (valid_arg mem) args"
    and "(0, len) \<in> set args" "len \<noteq> 0"
  shows "fst (export mem args s) = Ok 0"
proof -
  have "view mem (0, len) = None" using assms(5) by (simp add: view_def)
  then have "None \<in> set (map (view mem) args)" using assms(4) by (metis image_eqI list.set_map)
  then show ?thesis using decides [OF assms(1-3)] needs_all by (simp add: of_bool_i32_def)
qed

text \<open>The verdict depends on memory only through the bytes of the arguments.\<close>

lemma memory_local:
  assumes "st_ok s" "st_ok s'" "length args = n" "list_all (valid_arg mem) args"
    and "length args' = n" "list_all (valid_arg mem') args'" "map (view mem) args = map (view mem') args'"
  shows "fst (export mem args s) = fst (export mem' args' s')"
  using decides [OF assms(1,3,4)] decides [OF assms(2,5,6)] assms(7) by simp

end

end
