(* ===== verification/Phi_Vote_Codec.thy ===== *)
theory Phi_Vote_Codec
  imports Phi_Vote
begin

section \<open>The VoteProof wire format\<close>

text \<open>
  The decoder of vote proofs accepts exactly the encodings of well-formed proofs. The group
  elements are read by the backend's codec, whose documented behaviour is \<open>point_law\<close>: 48-byte
  encodings, read back from the front of a buffer, and unique except for the identity, which
  the decoder refuses. Under that law the codec is an instance of \<open>canonical_codec\<close>.
\<close>

definition point_law :: "'g::zero ark_codec \<Rightarrow> bool" where
  "point_law G \<longleftrightarrow>
     (\<forall>x. \<exists>e. serialize_compressed G x = Some e \<and> length e = 48
        \<and> (\<forall>s. deserialize_compressed G (e @ s) = Some (x, s)))
   \<and> (\<forall>b x r. deserialize_compressed G b = Some (x, r) \<longrightarrow> x \<noteq> 0 \<longrightarrow>
        (\<exists>e. serialize_compressed G x = Some e \<and> b = e @ r))"

lemma point_codec_law: "point_law G \<Longrightarrow> codec_law G"
  by (auto simp: point_law_def codec_law_def)

lemma point_ser:
  assumes "point_law G"
  shows "\<exists>e. ser G x = Ok e \<and> length e = 48 \<and> deser G e = Ok x"
proof -
  obtain e where e: "serialize_compressed G x = Some e" "length e = 48"
      "\<forall>s. deserialize_compressed G (e @ s) = Some (x, s)"
    using assms unfolding point_law_def by blast
  from spec [OF e(3), of "[]"] have "deserialize_compressed G e = Some (x, [])" by simp
  with e(1,2) show ?thesis by (simp add: ser_def deser_def)
qed

lemma point_deser:
  assumes "point_law G" "deser G b = Ok x" "x \<noteq> 0"
  shows "ser G x = Ok b"
proof -
  have "deserialize_compressed G b = Some (x, [])"
    using assms(2) by (auto simp: deser_def bind_r_Ok_iff split: if_splits)
  with assms(1,3) obtain e where "serialize_compressed G x = Some e" "b = e @ []"
    unfolding point_law_def by blast
  then show ?thesis by (simp add: ser_def)
qed

definition vo_wf :: "'g::zero vote_proof \<Rightarrow> bool" where
  "vo_wf p \<longleftrightarrow>
     message_count_in_range (vo_message_count p) (length (vo_revealed p))
     \<and> fits32 (vo_bbs_proof p) \<and> fits32 (vo_dl_proof p) \<and> vo_nullifier p \<noteq> 0
     \<and> sorted_wrt (<) (map fst (vo_revealed p))
     \<and> (\<forall>e \<in> set (vo_revealed p). fst e \<noteq> 0 \<and> fst e < vo_message_count p \<and> fits32 (snd e))"

text \<open>The bytes of a proof, where its encoding succeeds.\<close>

definition vo_enc :: "('p, 'r, 'f, 'sk, 'pk, 'sg, 'pok, 'pf, 'g) vote_backend \<Rightarrow> 'g vote_proof \<Rightarrow> bytes" where
  "vo_enc V p = (case vs_to_bytes V p of Ok b \<Rightarrow> b | _ \<Rightarrow> [])"

lemma vs_put_revealed_eq: "vs_put_revealed out es = out @ entries_bytes es"
  by (induction out es rule: vs_put_revealed.induct)
    (auto simp: entry_bytes_def vs_put_bytes_eq put_bytes_eq)

lemma vs_to_bytes_eq:
  assumes "ser (vb_g_codec V) (vo_nullifier p) = Ok e"
  shows "vs_to_bytes V p = Ok (u32_to_be_bytes (vo_message_count p) @ lp32 (vo_bbs_proof p)
     @ lp32 (vo_dl_proof p) @ lp32 e @ u32_to_be_bytes (word_of_nat (length (vo_revealed p)))
     @ entries_bytes (vo_revealed p))"
  using assms by (simp add: vs_to_bytes_def Let_def vs_put_revealed_eq vs_put_bytes_eq put_bytes_eq len_be32_def)

lemma vs_admitted:
  "admitted (vs_index_check mc) prev es \<longleftrightarrow>
     sorted_wrt (<) (map fst es)
     \<and> (\<forall>e \<in> set es. fst e \<noteq> 0 \<and> fst e < mc \<and> fits32 (snd e) \<and> (\<forall>p. prev = Some p \<longrightarrow> p < fst e))"
proof -
  have z: "unat (i :: u32) = VOTER_SECRET_MSG_INDEX \<longleftrightarrow> i = 0" for i
    by (simp add: VOTER_SECRET_MSG_INDEX_def unat_eq_0)
  show ?thesis
    by (induction es arbitrary: prev)
      (fastforce simp: vs_index_check_def z not_le split: option.splits if_splits)+
qed

lemma vo_enc_fits:
  assumes "point_law (vb_g_codec V)" "vo_wf p"
  shows "fits64 (vo_enc V p)"
proof -
  obtain e where e: "ser (vb_g_codec V) (vo_nullifier p) = Ok e" "length e = 48"
    using point_ser [OF assms(1)] by blast
  have len: "length (vo_revealed p) \<le> 64" and ents: "\<forall>e \<in> set (vo_revealed p). fits32 (snd e)"
    and f: "fits32 (vo_bbs_proof p)" "fits32 (vo_dl_proof p)"
    using assms(2) message_count_in_rangeD by (auto simp: vo_wf_def)
  have "length (entries_bytes (vo_revealed p)) \<le> 64 * (8 + 2 ^ 32)"
    using length_entries_bytes [OF ents] len by (meson le_trans mult_le_mono1)
  then show ?thesis
    using e f by (simp add: vo_enc_def vs_to_bytes_eq fits64_def fits32_def)
qed

lemma vs_from_bytes_sound:
  assumes "point_law (vb_g_codec V)" "fits64 b" "vs_from_bytes V b = Ok p"
  shows "vo_wf p \<and> vs_to_bytes V p = Ok b"
proof -
  let ?r0 = "\<lparr>rd_b = b, rd_pos = 0\<rparr>"
  from assms(3) obtain mc r1 bp r2 dp r3 nb r4 n32 r5 x ents r6 where
      r1: "reader_u32 ?r0 = Ok (mc, r1)" and r2: "reader_bytes r1 = Ok (bp, r2)"
      and r3: "reader_bytes r2 = Ok (dp, r3)" and r4: "reader_bytes r3 = Ok (nb, r4)"
      and x: "deser (vb_g_codec V) nb = Ok x" "x \<noteq> 0"
      and r5: "reader_u32 r4 = Ok (n32, r5)" and range: "message_count_in_range mc (unat n32)"
      and r6: "entries_loop reader_u32 reader_bytes (vs_index_check mc) (unat n32) None r5 [] = Ok (ents, r6)"
      and at_end: "rd_pos r6 = length b"
      and p: "p = \<lparr>vo_message_count = mc, vo_revealed = ents, vo_bbs_proof = bp, vo_dl_proof = dp, vo_nullifier = x\<rparr>"
    by (auto simp: vs_from_bytes_def vs_reader_eq bind_r_Ok_iff in_range_iff Let_def split: if_splits)
  have s1: "b = u32_to_be_bytes mc @ rd_rest r1" "rd_on b r1"
    using rd.ru_sound [OF rd_on_start [OF assms(2)] r1] by auto
  have s2: "rd_rest r1 = lp32 bp @ rd_rest r2" "fits32 bp" "rd_on b r2"
    using rd.rb_sound [OF s1(2) r2] by auto
  have s3: "rd_rest r2 = lp32 dp @ rd_rest r3" "fits32 dp" "rd_on b r3"
    using rd.rb_sound [OF s2(3) r3] by auto
  have s4: "rd_rest r3 = lp32 nb @ rd_rest r4" "rd_on b r4"
    using rd.rb_sound [OF s3(3) r4] by auto
  have s5: "rd_rest r4 = u32_to_be_bytes n32 @ rd_rest r5" "rd_on b r5"
    using rd.ru_sound [OF s4(2) r5] by auto
  have s6: "length ents = unat n32" "admitted (vs_index_check mc) None ents"
      "rd_rest r5 = entries_bytes ents @ rd_rest r6" "rd_on b r6"
    using rd.loop_sound [OF s5(2) r6] by auto
  have "rd_rest r6 = []" using rd_at_end [OF s6(4)] at_end by simp
  moreover have "(word_of_nat (length ents) :: u32) = n32" using s6(1) by simp
  moreover have "ser (vb_g_codec V) (vo_nullifier p) = Ok nb" using point_deser [OF assms(1) x] p by simp
  ultimately have "vs_to_bytes V p = Ok b"
    using s1 s2 s3 s4 s5 s6 p by (simp add: vs_to_bytes_eq)
  moreover have "vo_wf p"
    using range s2(2) s3(2) x(2) s6(1,2) p by (auto simp: vo_wf_def vs_admitted)
  ultimately show ?thesis by blast
qed

lemma vs_from_bytes_complete:
  assumes "point_law (vb_g_codec V)" "vo_wf p"
  shows "vs_from_bytes V (vo_enc V p) = Ok p"
proof -
  let ?b = "vo_enc V p"
  let ?mc = "vo_message_count p"
  let ?n = "word_of_nat (length (vo_revealed p)) :: u32"
  obtain e where e: "ser (vb_g_codec V) (vo_nullifier p) = Ok e" "length e = 48"
      "deser (vb_g_codec V) e = Ok (vo_nullifier p)"
    using point_ser [OF assms(1)] by blast
  have wf: "message_count_in_range ?mc (length (vo_revealed p))" "fits32 (vo_bbs_proof p)"
      "fits32 (vo_dl_proof p)" "vo_nullifier p \<noteq> 0" "admitted (vs_index_check ?mc) None (vo_revealed p)"
    using assms(2) by (auto simp: vo_wf_def vs_admitted)
  have fe: "fits32 e" using e(2) by (simp add: fits32_def)
  have on: "rd_on ?b \<lparr>rd_b = ?b, rd_pos = 0\<rparr>"
    using rd_on_start vo_enc_fits [OF assms] by blast
  have rest: "rd_rest \<lparr>rd_b = ?b, rd_pos = 0\<rparr> = u32_to_be_bytes ?mc @ lp32 (vo_bbs_proof p)
       @ lp32 (vo_dl_proof p) @ lp32 e @ u32_to_be_bytes ?n @ entries_bytes (vo_revealed p) @ []"
    by (simp add: vo_enc_def vs_to_bytes_eq [OF e(1)])
  from rd.ru_complete [OF on rest] obtain r1 where r1: "reader_u32 \<lparr>rd_b = ?b, rd_pos = 0\<rparr> = Ok (?mc, r1)"
    "rd_rest r1 = lp32 (vo_bbs_proof p) @ lp32 (vo_dl_proof p) @ lp32 e @ u32_to_be_bytes ?n
       @ entries_bytes (vo_revealed p) @ []" "rd_on ?b r1" by blast
  from rd.rb_complete [OF r1(3) wf(2) r1(2)] obtain r2 where r2: "reader_bytes r1 = Ok (vo_bbs_proof p, r2)"
    "rd_rest r2 = lp32 (vo_dl_proof p) @ lp32 e @ u32_to_be_bytes ?n @ entries_bytes (vo_revealed p) @ []"
    "rd_on ?b r2" by blast
  from rd.rb_complete [OF r2(3) wf(3) r2(2)] obtain r3 where r3: "reader_bytes r2 = Ok (vo_dl_proof p, r3)"
    "rd_rest r3 = lp32 e @ u32_to_be_bytes ?n @ entries_bytes (vo_revealed p) @ []" "rd_on ?b r3" by blast
  from rd.rb_complete [OF r3(3) fe r3(2)] obtain r4 where r4: "reader_bytes r3 = Ok (e, r4)"
    "rd_rest r4 = u32_to_be_bytes ?n @ entries_bytes (vo_revealed p) @ []" "rd_on ?b r4" by blast
  from rd.ru_complete [OF r4(3) r4(2)] obtain r5 where r5: "reader_u32 r4 = Ok (?n, r5)"
    "rd_rest r5 = entries_bytes (vo_revealed p) @ []" "rd_on ?b r5" by blast
  from rd.loop_complete [OF r5(3) wf(5) r5(2), of "[]"] obtain r6 where
    r6: "entries_loop reader_u32 reader_bytes (vs_index_check ?mc) (length (vo_revealed p)) None r5 []
           = Ok (vo_revealed p, r6)" "rd_rest r6 = []" "rd_on ?b r6" by auto
  have "rd_pos r6 = length ?b" using rd_at_end [OF r6(3)] r6(2) by simp
  then show ?thesis
    using r1(1) r2(1) r3(1) r4(1) r5(1) r6(1) e(3) wf(1,4) unat_revealed_count [OF wf(1)]
    by (auto simp: vs_from_bytes_def vs_reader_eq Let_def in_range_iff)
qed

lemma deser_then: "(\<And>x. no_panic (f x)) \<Longrightarrow> no_panic (bind_r (deser C b) f)"
  by (rule no_panic_bind) simp_all

lemma vs_from_bytes_no_panic:
  assumes "fits64 b"
  shows "no_panic (vs_from_bytes V b)"
  unfolding vs_from_bytes_def Let_def vs_reader_eq
  by (auto intro!: rd.ru_then [where b = b] rd.rb_then [where b = b] rd.loop_then [where b = b]
      deser_then rd_on_start assms)

lemma vo_enc_prefix:
  assumes "point_law (vb_g_codec V)" "vo_wf p" "vo_wf q" "vo_enc V p @ s = vo_enc V q"
  shows "s = []"
proof -
  obtain e f where e: "ser (vb_g_codec V) (vo_nullifier p) = Ok e" "length e = 48"
      and f: "ser (vb_g_codec V) (vo_nullifier q) = Ok f" "length f = 48"
    using point_ser [OF assms(1)] by metis
  have fit: "fits32 (vo_bbs_proof p)" "fits32 (vo_bbs_proof q)" "fits32 (vo_dl_proof p)"
      "fits32 (vo_dl_proof q)" "fits32 e" "fits32 f"
    and en: "\<forall>e \<in> set (vo_revealed p). fits32 (snd e)" "\<forall>e \<in> set (vo_revealed q). fits32 (snd e)"
    using assms(2,3) e(2) f(2) by (auto simp: vo_wf_def fits32_def)
  have n: "unat (word_of_nat (length (vo_revealed p)) :: u32) = length (vo_revealed p)"
       "unat (word_of_nat (length (vo_revealed q)) :: u32) = length (vo_revealed q)"
    using assms(2,3) unat_revealed_count unfolding vo_wf_def by blast+
  have "(word_of_nat (length (vo_revealed p)) :: u32) = word_of_nat (length (vo_revealed q))"
    and ents: "entries_bytes (vo_revealed p) @ s = entries_bytes (vo_revealed q) @ []"
    using assms(4) fit
    by (auto simp: vo_enc_def vs_to_bytes_eq [OF e(1)] vs_to_bytes_eq [OF f(1)] be32.append_eq_iff
        lp32.append_eq_iff)
  then have "length (vo_revealed p) = length (vo_revealed q)" using n by metis
  from entries_bytes_split [OF this en ents] show ?thesis by simp
qed

lemma vote_canonical:
  assumes "point_law (vb_g_codec V)"
  shows "canonical_codec (\<lambda>b. ok (vs_from_bytes V b)) (vo_enc V) vo_wf"
proof
  fix b x assume b: "fits64 b"
  have "vs_to_bytes V p = Ok (vo_enc V p)" for p
    using point_ser [OF assms, of "vo_nullifier p"] by (auto simp: vo_enc_def vs_to_bytes_eq)
  then show "ok (vs_from_bytes V b) = Some x \<longleftrightarrow> vo_wf x \<and> vo_enc V x = b"
    using vs_from_bytes_sound [OF assms b] vs_from_bytes_complete [OF assms] by auto
qed (use vo_enc_fits vo_enc_prefix assms in blast)+

end
