(* ===== verification/Phi_Vote_Correct.thy ===== *)
theory Phi_Vote_Correct
  imports Phi_Vote_Codec
begin

section \<open>Correctness of the vote proof\<close>

text \<open>
  The verifier decides a declarative predicate; an honest voter's proof is accepted, in every
  state of the caches; the nullifier is a function of the voter secret and the election
  alone; the challenge binds everything the ballot consists of.
\<close>

subsection \<open>The revealed claims of the verifier\<close>

lemma insort_bt_insert:
  "bt_ok m \<Longrightarrow> i \<notin> fst ` set m \<Longrightarrow> insort i (map fst m) = map fst (bt_insert i v m)"
proof (induction i v m rule: bt_insert.induct)
  case (2 k v k' v' m)
  then have "bt_ok m" "\<forall>x \<in> fst ` set m. k' < x" by (auto simp: bt_ok_def)
  with 2 show ?case by (cases "k < k'") (auto simp: insort_is_Cons order.strict_implies_order)
qed simp

lemma collect_votes_Ok:
  assumes "bt_ok m"
  shows "collect_votes f mc (map fst m) m es = Ok (ids, m') \<longleftrightarrow>
     collect_revealed f mc m es = Some m' \<and> ids = map fst m' \<and> (\<forall>e \<in> set es. fst e \<noteq> 0)"
  using assms
proof (induction es arbitrary: m)
  case (Cons e es)
  obtain idx b where e: "e = (idx, b)" by (cases e)
  have z: "unat idx = VOTER_SECRET_MSG_INDEX \<longleftrightarrow> idx = 0"
    by (simp add: VOTER_SECRET_MSG_INDEX_def unat_eq_0)
  have n: "bt_get m (unat idx) = None \<longleftrightarrow> unat idx \<notin> fst ` set m" by (rule bt_get_None_iff)
  show ?case
  proof (cases "idx = 0 \<or> unat idx \<ge> unat mc \<or> unat idx \<in> fst ` set m")
    case True
    then show ?thesis using n by (auto simp: e z Let_def)
  next
    case False
    with insort_bt_insert [OF Cons.prems, of "unat idx" "f b"]
      Cons.IH [OF bt_insert_ok [OF Cons.prems, of "unat idx" "f b"]] n
    show ?thesis by (simp add: e z Let_def)
  qed
qed auto

lemma collect_votes_no_panic [simp]: "no_panic (collect_votes f mc ids m es)"
  by (induction f mc ids m es rule: collect_votes.induct) (simp_all add: Let_def)

lemma collect_votes_start:
  "collect_votes f mc [] [] es = Ok (ids, m) \<longleftrightarrow>
     collect_revealed f mc [] es = Some m \<and> ids = map fst m \<and> (\<forall>e \<in> set es. fst e \<noteq> 0)"
  using collect_votes_Ok [of "[]" f mc es ids m] by (simp add: bt_ok_def)

subsection \<open>Verification\<close>

text \<open>A valid vote proof, without reference to the algorithm.\<close>

definition vote_valid ::
    "('p, 'r, 'f::comm_ring_1, 'sk, 'pk, 'sg, 'pok, 'pf, 'g::ab_group_add) vote_backend \<Rightarrow> 'g vote_proof \<Rightarrow>
     bytes \<Rightarrow> bytes \<Rightarrow> bytes \<Rightarrow> bytes \<Rightarrow> bool" where
  "vote_valid V p issuer chain_id election_id signal \<longleftrightarrow>
     1 \<le> unat (vo_message_count p) \<and> unat (vo_message_count p) \<le> 64 \<and> vo_nullifier p \<noteq> 0
     \<and> (\<forall>e \<in> set (vo_revealed p). fst e \<noteq> 0)
     \<and> (\<exists>params pk bbs dl msgs h_e nb pkb bc dc c resp a.
          bk_params_new (vb_bbs V) PARAMS_LABEL (vo_message_count p) = Ok params
          \<and> deser (bk_pk_codec (vb_bbs V)) issuer = Ok pk
          \<and> deser (bk_pf_codec (vb_bbs V)) (vo_bbs_proof p) = Ok bbs
          \<and> deser (vb_dl_codec V) (vo_dl_proof p) = Ok dl
          \<and> collect_revealed (claim_to_fr (vb_bbs V)) (vo_message_count p) [] (vo_revealed p) = Some msgs
          \<and> hash_to_g1 V election_id = Ok h_e
          \<and> ser (vb_g_codec V) (vo_nullifier p) = Ok nb
          \<and> ser (bk_pk_codec (vb_bbs V)) pk = Ok pkb
          \<and> bk_pf_contribution (vb_bbs V) bbs msgs params = Some bc
          \<and> dl_contribution (vb_g_codec V) dl h_e (vo_nullifier p) = Some dc
          \<and> compute_challenge (vb_bbs V) (Ok bc) (Ok dc) (vo_message_count p) pkb chain_id election_id nb signal = Ok c
          \<and> bk_pf_verify (vb_bbs V) bbs msgs c pk params
          \<and> dl_verify (vb_mul V) dl (vo_nullifier p) h_e c
          \<and> bk_pf_response (vb_bbs V) bbs VOTER_SECRET_MSG_INDEX (map fst msgs) = Some resp
          \<and> ser (vb_fr_codec V) resp = Ok a \<and> ser (vb_fr_codec V) (dl_response dl) = Ok a)"

lemma vote_transcript_Ok:
  "vote_transcript sha bc dc mc pk ch el nb sg = Ok t \<longleftrightarrow>
     (\<exists>b d. bc = Ok b \<and> dc = Ok d \<and> t = lp32 CHALLENGE_DOMAIN @ u32_to_be_bytes mc @ lp32 pk @ lp32 b @ lp32 d
        @ lp32 (bind_context sha ch el nb sg))"
  by (auto simp: vote_transcript_def bind_r_Ok_iff Let_def vs_put_bytes_eq put_bytes_eq)

lemma compute_challenge_Ok:
  "compute_challenge B bc dc mc pk ch el nb sg = Ok c \<longleftrightarrow>
     (\<exists>b d. bc = Ok b \<and> dc = Ok d \<and> compute_challenge B (Ok b) (Ok d) mc pk ch el nb sg = Ok c)"
  by (auto simp: compute_challenge_def bind_r_Ok_iff vote_transcript_Ok Let_def split: if_splits)

lemma challenge_cases:
  "compute_challenge B (Ok b) (Ok d) mc pk ch el nb sg = Err (Backend ''degenerate challenge'')
     \<or> (\<exists>k. compute_challenge B (Ok b) (Ok d) mc pk ch el nb sg = Ok k)"
  by (simp add: compute_challenge_def vote_transcript_def Let_def)

lemma degenerate_oracle:
  "compute_challenge B (Ok b) (Ok d) mc pk ch el nb sg = Err (Backend ''degenerate challenge'') \<Longrightarrow>
     \<exists>t. bk_oracle B t = 0"
  by (auto simp: compute_challenge_def vote_transcript_def Let_def split: if_splits)

lemma no_panic_challenge [simp]:
  "no_panic bc \<Longrightarrow> no_panic dc \<Longrightarrow> no_panic (compute_challenge B bc dc mc pk ch el nb sg)"
  by (auto simp: compute_challenge_def vote_transcript_def Let_def intro!: no_panic_bind)

lemma no_panic_hash_to_g1 [simp]: "no_panic (hash_to_g1 V e)"
  by (auto simp: hash_to_g1_def Let_def intro!: no_panic_bind)

lemma vs_verify_inner_Ok:
  assumes "suite_ok (vb_bbs V) s"
  shows "(\<exists>s'. vs_verify_inner V p issuer chain_id election_id signal s = (Ok (), s')) \<longleftrightarrow>
     vote_valid V p issuer chain_id election_id signal"
proof (cases "vo_message_count p = 0 \<or> vo_message_count p > MAX_BBS_MESSAGES \<or> vo_nullifier p = 0")
  case True
  then have "\<not> vote_valid V p issuer chain_id election_id signal"
    using message_count_in_rangeD by (auto simp: vote_valid_def word_less_nat_alt)
  moreover have "\<exists>e. vs_verify_inner V p issuer chain_id election_id signal s = (Err e, s)"
    using True by (auto simp: vs_verify_inner_def Let_def)
  ultimately show ?thesis by auto
next
  case False
  then have mc: "vo_message_count p \<noteq> 0" "1 \<le> unat (vo_message_count p)" "unat (vo_message_count p) \<le> 64"
    by (auto simp: word_less_nat_alt Suc_le_eq unat_gt_0)
  obtain params s1 where p: "suite_params (vb_bbs V) (vo_message_count p) s = (Ok params, s1)"
      "bk_params_new (vb_bbs V) PARAMS_LABEL (vo_message_count p) = Ok params"
    using suite_params_ok [OF assms mc(1)] by blast
  show ?thesis
    unfolding vs_verify_inner_def Let_def vote_valid_def
    using False mc p
    by (simp add: bind_s_Ok_iff collect_votes_start
        compute_challenge_Ok [where bc = "ok_or _ _"]) blast
qed

lemma vs_verify_inner_no_panic:
  assumes "suite_ok (vb_bbs V) s"
  shows "no_panic (fst (vs_verify_inner V p issuer chain_id election_id signal s))"
  unfolding vs_verify_inner_def Let_def
  using assms
  by (auto intro!: bind_s_no_panic suite_params_no_panic)

lemma verify_vote_proof_spec:
  assumes "suite_ok (vb_bbs V) s"
  shows "fst (verify_vote_proof V p issuer chain_id election_id signal s)
     = Ok (vote_valid V p issuer chain_id election_id signal)"
proof -
  obtain r s' where r: "vs_verify_inner V p issuer chain_id election_id signal s = (r, s')" by force
  have "r \<noteq> Panic"
    using vs_verify_inner_no_panic [OF assms, of p issuer chain_id election_id signal] r
    by (simp add: no_panic_iff)
  moreover have "(\<exists>u. r = Ok u) \<longleftrightarrow> vote_valid V p issuer chain_id election_id signal"
    using vs_verify_inner_Ok [OF assms, of p issuer chain_id election_id signal] r by simp
  ultimately show ?thesis
    using r by (cases r) (simp_all add: verify_vote_proof_def)
qed

lemma verify_vote_spec:
  assumes "suite_ok (vb_bbs V) s" "fits64 b" "point_law (vb_g_codec V)"
  shows "fst (verify_vote V b issuer chain_id election_id signal s) =
     Ok (\<exists>p. vo_wf p \<and> vs_to_bytes V p = Ok b \<and> vote_valid V p issuer chain_id election_id signal)"
proof -
  have enc: "vs_to_bytes V p = Ok (vo_enc V p)" for p
    using point_ser [OF assms(3), of "vo_nullifier p"] by (auto simp: vo_enc_def vs_to_bytes_eq)
  show ?thesis
  proof (cases "vs_from_bytes V b")
    case (Ok p)
    with vs_from_bytes_sound [OF assms(3,2)] have p: "vo_wf p" "vs_to_bytes V p = Ok b" by auto
    have "vo_wf q \<and> vs_to_bytes V q = Ok b \<longleftrightarrow> q = p" for q
      using vs_from_bytes_complete [OF assms(3), of q] enc [of q] p Ok by auto
    then have "(\<exists>q. vo_wf q \<and> vs_to_bytes V q = Ok b \<and> vote_valid V q issuer chain_id election_id signal)
        \<longleftrightarrow> vote_valid V p issuer chain_id election_id signal" by metis
    with Ok show ?thesis by (simp add: verify_vote_def verify_vote_proof_spec [OF assms(1)])
  next
    case (Err e)
    have "\<not> (vo_wf p \<and> vs_to_bytes V p = Ok b)" for p
      using vs_from_bytes_complete [OF assms(3), of p] enc [of p] Err by auto
    then have "\<not> (\<exists>q. vo_wf q \<and> vs_to_bytes V q = Ok b \<and> vote_valid V q issuer chain_id election_id signal)" by blast
    with Err show ?thesis by (simp add: verify_vote_def)
  next
    case Panic
    with vs_from_bytes_no_panic [OF assms(2), of V] show ?thesis by simp
  qed
qed

subsection \<open>Proving\<close>

lemma draw_Ok_iff: "draw f s = (Ok x, s') \<longleftrightarrow> x = fst (f (ss_rng s)) \<and> s' = s\<lparr>ss_rng := snd (f (ss_rng s))\<rparr>"
  by (auto simp: draw_def split: prod.split)

lemma voter_secret_index: "claims \<noteq> [] \<Longrightarrow> index (map f claims) VOTER_SECRET_MSG_INDEX = Ok (f (claims ! 0))"
  by (simp add: index_def VOTER_SECRET_MSG_INDEX_def)

lemma prove_vote_facts:
  assumes "prove_vote V claims sig issuer reveal chain_id election_id signal s = (Ok p, s')"
    and "group_law (vb_mul V)"
  shows "claims \<noteq> [] \<and> length claims \<le> 64 \<and> (\<forall>i \<in> set reveal. i < length claims) \<and> 0 \<notin> set reveal
     \<and> vo_revealed p = disclosed claims reveal \<and> vo_message_count p = word_of_nat (length claims)
     \<and> vo_nullifier p \<noteq> 0
     \<and> (\<exists>h_e. hash_to_g1 V election_id = Ok h_e
          \<and> vo_nullifier p = vb_mul V h_e (claim_to_fr (vb_bbs V) (claims ! 0)))"
proof -
  have guards: "claims \<noteq> []" "length claims \<le> 64" "\<forall>i \<in> set reveal. i < length claims" "0 \<notin> set reveal"
    using assms(1) by (auto simp: prove_vote_def Let_def list_ex_iff not_le VOTER_SECRET_MSG_INDEX_def
        split: if_splits)
  show ?thesis
    using assms(1) guards
    by (auto simp: prove_vote_def Let_def bind_s_Ok_iff voter_secret_index draw_Ok_iff blinded_mul_value [OF assms(2)]
        collect_claims_disclosed split: if_splits)
qed

lemma prove_vote_no_panic:
  assumes "suite_ok (vb_bbs V) s"
  shows "no_panic (fst (prove_vote V claims sig issuer reveal chain_id election_id signal s))"
  unfolding prove_vote_def Let_def
  using assms
  by (auto intro!: bind_s_no_panic suite_params_no_panic
      simp: list_ex_iff not_le insert_messages_btree collect_claims_eq claim_count_nonzero index_def)

subsection \<open>Completeness\<close>

text \<open>
  The response of the BBS+ proof for a message blinded with a known blinding is Schnorr's, as
  documented by the backend; hashing to the curve succeeds.
\<close>

definition response_law ::
    "('p, 'r, 'f::comm_ring_1, 'sk, 'pk, 'sg, 'pok, 'pf) bbs_backend \<Rightarrow> bool" where
  "response_law B \<longleftrightarrow> (\<forall>rng sg params m r rest pok rng' c pf.
      bk_pok_init B rng sg params (BlindMessageWithConcreteBlinding m r # rest) = (Some pok, rng') \<longrightarrow>
      bk_gen_proof B pok c = Some pf \<longrightarrow>
      bk_pf_response B pf 0 (map fst (revealed_of (BlindMessageWithConcreteBlinding m r # rest))) = Some (r + m * c))"

definition vote_law ::
    "('p, 'r, 'f::comm_ring_1, 'sk, 'pk, 'sg, 'pok, 'pf, 'g::ab_group_add) vote_backend \<Rightarrow> bool" where
  "vote_law V \<longleftrightarrow> backend_laws (vb_bbs V) \<and> response_law (vb_bbs V) \<and> group_law (vb_mul V)
     \<and> point_law (vb_g_codec V) \<and> codec_law (vb_fr_codec V) \<and> codec_law (vb_dl_codec V)
     \<and> (\<exists>hasher. vb_hasher_new V H2C_DST = Some hasher \<and> (\<forall>tag. hasher tag \<noteq> None))"

lemma vote_mbi_messages: "map mbi_message (vote_mbi r0 ids messages) = messages"
  by (rule nth_equalityI) (auto simp: vote_mbi_def nth_enumerate_eq)

lemma vote_mbi_Cons:
  "vote_mbi r0 ids (m # ms) = BlindMessageWithConcreteBlinding m r0 #
     map (\<lambda>(i, m). if i \<in> set ids then RevealMessage m else BlindMessageRandomly m) (enumerate 1 ms)"
  by (auto simp: vote_mbi_def VOTER_SECRET_MSG_INDEX_def in_set_enumerate_eq)

lemma vote_mbi_revealed:
  assumes "\<forall>i \<in> set reveal. i < length messages" "0 \<notin> set reveal"
  shows "revealed_of (vote_mbi r0 (btree_set reveal) messages) = map (\<lambda>i. (i, messages ! i)) (btree_set reveal)"
proof -
  let ?n = "length messages"
  have "vote_mbi r0 (btree_set reveal) messages = map (\<lambda>i. if i = 0 then BlindMessageWithConcreteBlinding (messages ! i) r0
      else if i \<in> set reveal then RevealMessage (messages ! i) else BlindMessageRandomly (messages ! i)) [0..<?n]"
    by (simp add: vote_mbi_def enumerate_nth VOTER_SECRET_MSG_INDEX_def)
  then have "revealed_of (vote_mbi r0 (btree_set reveal) messages)
      = concat (map (\<lambda>i. if i \<in> set reveal then [(i, messages ! i)] else []) [0..<?n])"
    using assms(2) by (auto simp: revealed_of_def enumerate_nth comp_def intro!: arg_cong [where f = concat])
  then show ?thesis
    by (simp add: concat_singleton_filter btree_set_filter [OF assms(1)])
qed

lemma vote_law_hash:
  assumes "vote_law V"
  shows "\<exists>h_e. hash_to_g1 V election_id = Ok h_e"
  using assms by (auto simp: vote_law_def hash_to_g1_def Let_def)

lemma vote_law_dl_contribution:
  assumes "vote_law V"
  shows "\<exists>b. pd_contribution (vb_g_codec V) pd base y = Some b"
proof -
  have "\<forall>x. \<exists>e. serialize_compressed (vb_g_codec V) x = Some e"
    using assms unfolding vote_law_def point_law_def by blast
  then show ?thesis
    unfolding pd_contribution_def dl_compute_contribution_def by (metis option.simps(5))
qed

lemma vote_pok:
  fixes V :: "('p, 'r, 'f::comm_ring_1, 'sk, 'pk, 'sg, 'pok, 'pf, 'g::ab_group_add) vote_backend"
  defines "B \<equiv> vb_bbs V"
  assumes "vote_law V" "messages \<noteq> []" "\<forall>i \<in> set reveal. i < length messages" "0 \<notin> set reveal"
    and "bk_params_new B PARAMS_LABEL (word_of_nat (length messages)) = Ok params"
    and "bk_keygen B rng0 params = ((sk, pk), rng0')"
    and "bk_sign B rng1 messages sk params = (Some sg, rng1')"
  defines "rvs \<equiv> map (\<lambda>i. (i, messages ! i)) (btree_set reveal)"
  shows "\<exists>pok rng' bc. bk_pok_init B rng sg params (vote_mbi r0 (btree_set reveal) messages) = (Some pok, rng')
     \<and> bk_pok_contribution B pok rvs params = Some bc
     \<and> (\<forall>c. \<exists>pf. bk_gen_proof B pok c = Some pf \<and> bk_pf_contribution B pf rvs params = Some bc
          \<and> bk_pf_verify B pf rvs c pk params
          \<and> bk_pf_response B pf 0 (map fst rvs) = Some (r0 + messages ! 0 * c))"
proof -
  let ?mbi = "vote_mbi r0 (btree_set reveal) messages"
  have rv: "revealed_of ?mbi = rvs" unfolding rvs_def by (rule vote_mbi_revealed [OF assms(4,5)])
  have pl: "pok_law B" and rl: "response_law B"
    using assms(2) by (simp_all add: vote_law_def backend_laws_def B_def)
  obtain pok rng' bc where
      init: "bk_pok_init B rng sg params ?mbi = (Some pok, rng')"
      and contr: "bk_pok_contribution B pok rvs params = Some bc"
      and gen: "\<forall>c. \<exists>pf. bk_gen_proof B pok c = Some pf \<and> bk_pf_contribution B pf rvs params = Some bc
              \<and> bk_pf_verify B pf rvs c pk params"
    using pl assms(3,6,7,8) vote_mbi_messages [of r0 "btree_set reveal" messages]
    unfolding pok_law_def rv [symmetric] by metis
  obtain m ms where messages: "messages = m # ms" using assms(3) by (cases messages) auto
  have resp: "bk_pf_response B pf 0 (map fst rvs) = Some (r0 + messages ! 0 * c)"
    if "bk_gen_proof B pok c = Some pf" for c pf
  proof -
    let ?rest = "map (\<lambda>(i, m). if i \<in> set (btree_set reveal) then RevealMessage m else BlindMessageRandomly m)
      (enumerate 1 ms)"
    have mbi: "?mbi = BlindMessageWithConcreteBlinding m r0 # ?rest" unfolding messages by (rule vote_mbi_Cons)
    have "bk_pf_response B pf 0 (map fst (revealed_of ?mbi)) = Some (r0 + m * c)"
      using rl init that unfolding response_law_def mbi by blast
    then show ?thesis unfolding rv by (simp add: messages)
  qed
  show ?thesis using init contr gen resp by blast
qed

lemma verifier_map_votes:
  assumes "\<forall>i \<in> set reveal. i < length claims" "length claims \<le> 64" "0 \<notin> set reveal"
  shows "collect_votes f (word_of_nat (length claims)) [] [] (disclosed claims reveal)
     = Ok (btree_set reveal, map (\<lambda>i. (i, map f claims ! i)) (btree_set reveal))"
proof -
  have "\<forall>e \<in> set (disclosed claims reveal). fst e \<noteq> 0"
  proof
    fix e assume "e \<in> set (disclosed claims reveal)"
    then obtain i where i: "i \<in> set reveal" "fst e = word_of_nat i" by (auto simp: disclosed_def)
    then have "unat (fst e) = i" using disclosed_index [of reveal claims i] assms(1,2) by simp
    with i(1) assms(3) show "fst e \<noteq> 0" by auto
  qed
  then show ?thesis
    using verifier_map [OF assms(1,2), of f] by (simp add: collect_votes_start comp_def)
qed

lemma vote_valid_derived:
  fixes V :: "('p, 'r, 'f::comm_ring_1, 'sk, 'pk, 'sg, 'pok, 'pf, 'g::ab_group_add) vote_backend"
  defines "B \<equiv> vb_bbs V" and "msgs \<equiv> \<lambda>claims. map (claim_to_fr (vb_bbs V)) claims"
  defines "rvs \<equiv> \<lambda>claims reveal. map (\<lambda>i. (i, msgs claims ! i)) (btree_set reveal)"
  assumes "group_law (vb_mul V)" "codec_law (vb_fr_codec V)" "claims \<noteq> []" "length claims \<le> 64"
    and "\<forall>i \<in> set reveal. i < length claims" "0 \<notin> set reveal"
    and "vo_message_count p = word_of_nat (length claims)" "vo_revealed p = disclosed claims reveal"
    and "vo_nullifier p = vb_mul V h_e (msgs claims ! 0)" "vo_nullifier p \<noteq> 0"
    and "bk_params_new B PARAMS_LABEL (word_of_nat (length claims)) = Ok params"
    and "deser (bk_pk_codec B) issuer = Ok pk" "deser (bk_pf_codec B) (vo_bbs_proof p) = Ok pf"
    and "deser (vb_dl_codec V) (vo_dl_proof p) = Ok (pd_gen_proof (dl_init (vb_mul V) (msgs claims ! 0) r0 h_e) k)"
    and "hash_to_g1 V election_id = Ok h_e" "ser (vb_g_codec V) (vo_nullifier p) = Ok nb"
    and "ser (bk_pk_codec B) pk = Ok pkb" "bk_pf_contribution B pf (rvs claims reveal) params = Some bc"
    and "pd_contribution (vb_g_codec V) (dl_init (vb_mul V) (msgs claims ! 0) r0 h_e) h_e (vo_nullifier p) = Some dc"
    and "compute_challenge B (Ok bc) (Ok dc) (word_of_nat (length claims)) pkb chain_id election_id nb signal = Ok k"
    and "bk_pf_verify B pf (rvs claims reveal) k pk params"
    and "bk_pf_response B pf 0 (map fst (rvs claims reveal)) = Some (r0 + msgs claims ! 0 * k)"
  shows "vote_valid V p issuer chain_id election_id signal"
proof -
  let ?dl = "dl_init (vb_mul V) (msgs claims ! 0) r0 h_e"
  have col: "collect_revealed (claim_to_fr B) (vo_message_count p) [] (vo_revealed p) = Some (rvs claims reveal)"
      "\<forall>e \<in> set (vo_revealed p). fst e \<noteq> 0"
    using verifier_map_votes [OF assms(8,7,9), of "claim_to_fr B"]
    by (simp_all add: collect_votes_start assms(10,11) rvs_def msgs_def B_def)
  have dcv: "dl_contribution (vb_g_codec V) (pd_gen_proof ?dl k) h_e (vo_nullifier p) = Some dc"
    using assms(22) by (simp add: dl_same_contribution)
  have dlv: "dl_verify (vb_mul V) (pd_gen_proof ?dl k) (vo_nullifier p) h_e k"
    using dl_complete [OF assms(4,12)] by simp
  obtain a where a: "ser (vb_fr_codec V) (r0 + msgs claims ! 0 * k) = Ok a"
    using codec_law_ser [OF assms(5)] by blast
  then have a': "ser (vb_fr_codec V) (dl_response (pd_gen_proof ?dl k)) = Ok a"
    by (simp add: dl_response_init)
  have mc: "1 \<le> unat (vo_message_count p)" "unat (vo_message_count p) \<le> 64"
    using assms(6,7) by (simp_all add: assms(10) Suc_le_eq unat_of_nat)
  show ?thesis
    unfolding vote_valid_def B_def [symmetric] VOTER_SECRET_MSG_INDEX_def
    by (intro conjI exI, rule mc(1), rule mc(2), rule assms(13), rule col(2), unfold assms(10), rule assms(14),
        rule assms(15), rule assms(16), rule assms(17), rule col(1) [unfolded assms(10)], rule assms(18), rule assms(19),
        rule assms(20), rule assms(21), rule dcv, rule assms(23), rule assms(24), rule dlv,
        rule assms(25), rule a, rule a')
qed

lemma vote_complete:
  fixes V :: "('p, 'r, 'f::comm_ring_1, 'sk, 'pk, 'sg, 'pok, 'pf, 'g::ab_group_add) vote_backend"
  assumes "vote_law V" "suite_ok (vb_bbs V) s" "claims \<noteq> []" "length claims \<le> 64"
    and "\<forall>i \<in> set reveal. i < length claims" "0 \<notin> set reveal"
    and "bk_params_new (vb_bbs V) PARAMS_LABEL (word_of_nat (length claims)) = Ok params"
    and "bk_keygen (vb_bbs V) rng0 params = ((sk, pk), rng0')"
    and "bk_sign (vb_bbs V) rng1 (map (claim_to_fr (vb_bbs V)) claims) sk params = (Some sg, rng1')"
    and "deser (bk_sg_codec (vb_bbs V)) sgb = Ok sg" "deser (bk_pk_codec (vb_bbs V)) issuer = Ok pk"
  shows "(\<exists>p s'. prove_vote V claims sgb issuer reveal chain_id election_id signal s = (Ok p, s')
        \<and> vote_valid V p issuer chain_id election_id signal)
     \<or> fst (prove_vote V claims sgb issuer reveal chain_id election_id signal s)
         = Err (InvalidInput ''nullifier is identity'')
       \<and> (\<exists>h_e. hash_to_g1 V election_id = Ok h_e
            \<and> vb_mul V h_e (claim_to_fr (vb_bbs V) (claims ! 0)) = 0)
     \<or> fst (prove_vote V claims sgb issuer reveal chain_id election_id signal s)
         = Err (Backend ''degenerate challenge'')
       \<and> (\<exists>t. bk_oracle (vb_bbs V) t = 0)"
proof -
  let ?B = "vb_bbs V"
  let ?ms = "map (claim_to_fr ?B) claims"
  let ?rev = "map (\<lambda>i. (i, ?ms ! i)) (btree_set reveal)"
  let ?n = "word_of_nat (length claims) :: u32"
  have nz: "?n \<noteq> 0" using assms(3,4) by (intro claim_count_nonzero) simp_all
  have un: "unat ?n = length claims" using assms(4) by (simp add: unat_of_nat)
  have laws: "backend_laws ?B" "group_law (vb_mul V)" "point_law (vb_g_codec V)" "codec_law (vb_fr_codec V)"
      "codec_law (vb_dl_codec V)" using assms(1) by (simp_all add: vote_law_def)
  obtain s1 where p: "suite_params ?B ?n s = (Ok params, s1)"
    using suite_params_ok [OF assms(2) nz] assms(7) by auto
  obtain pkb where pkb: "ser (bk_pk_codec ?B) pk = Ok pkb"
    using codec_law_ser laws(1) by (metis backend_laws_def)
  define m0 where "m0 = claim_to_fr ?B (claims ! 0)"
  obtain r0 rngR where r0: "vb_rand_fr V (ss_rng s1) = (r0, rngR)" by force
  obtain h_e where h: "hash_to_g1 V election_id = Ok h_e" using vote_law_hash [OF assms(1)] by blast
  obtain N rng2 where N: "blinded_mul (vb_mul V) (vb_rand_fr V) h_e m0 rngR = (N, rng2)" by force
  then have Nv: "N = vb_mul V h_e m0" using blinded_mul_value [OF laws(2), of "vb_rand_fr V" h_e m0 rngR] by simp
  have m1: "?ms \<noteq> []" and m2: "\<forall>i \<in> set reveal. i < length ?ms"
    and m3: "bk_params_new ?B PARAMS_LABEL (word_of_nat (length ?ms)) = Ok params"
    using assms(3,5,7) by simp_all
  obtain pok rng3 bc where
      init: "bk_pok_init ?B rng2 sg params (vote_mbi r0 (btree_set reveal) ?ms) = (Some pok, rng3)"
      and contr: "bk_pok_contribution ?B pok ?rev params = Some bc"
      and gen: "\<forall>c. \<exists>pf. bk_gen_proof ?B pok c = Some pf \<and> bk_pf_contribution ?B pf ?rev params = Some bc
          \<and> bk_pf_verify ?B pf ?rev c pk params
          \<and> bk_pf_response ?B pf 0 (map fst ?rev) = Some (r0 + ?ms ! 0 * c)"
    using vote_pok [OF assms(1) m1 m2 assms(6) m3 assms(8,9)] by blast
  define dl where "dl = dl_init (vb_mul V) m0 r0 h_e"
  obtain dc where dc: "pd_contribution (vb_g_codec V) dl h_e N = Some dc"
    using vote_law_dl_contribution [OF assms(1)] by blast
  obtain nb where nb: "ser (vb_g_codec V) N = Ok nb" using point_ser [OF laws(3)] by blast
  define c where "c = compute_challenge ?B (Ok bc) (Ok dc) ?n pkb chain_id election_id nb signal"
  have ins: "insert_messages ?ms [] (btree_set reveal) = Ok ?rev"
    using insert_messages_btree [of reveal ?ms] assms(5) by simp
  note idx = voter_secret_index [OF assms(3), of "claim_to_fr ?B", folded m0_def, unfolded VOTER_SECRET_MSG_INDEX_def]
  note ev = p assms(3-6,10,11) pkb r0 h N init contr dc [unfolded dl_def] nb ins un
  show ?thesis
  proof (cases "N = 0")
    case True
    then have "fst (prove_vote V claims sgb issuer reveal chain_id election_id signal s)
        = Err (InvalidInput ''nullifier is identity'')"
      using ev
      by (simp add: prove_vote_def idx Let_def bind_s_def draw_def list_ex_iff not_le VOTER_SECRET_MSG_INDEX_def)
    then show ?thesis using h Nv True m0_def by blast
  next
    case False
    note run = ev False
    consider "c = Err (Backend ''degenerate challenge'')" | k where "c = Ok k"
      using challenge_cases unfolding c_def by blast
    then show ?thesis
    proof cases
      case 1
      then have "fst (prove_vote V claims sgb issuer reveal chain_id election_id signal s)
          = Err (Backend ''degenerate challenge'')"
        using run unfolding c_def
        by (simp add: prove_vote_def idx Let_def bind_s_def draw_def draw_or_def list_ex_iff not_le
            VOTER_SECRET_MSG_INDEX_def)
      then show ?thesis using degenerate_oracle 1 unfolding c_def by blast
    next
      case (2 k)
      obtain pf where pf: "bk_gen_proof ?B pok k = Some pf" "bk_pf_contribution ?B pf ?rev params = Some bc"
          "bk_pf_verify ?B pf ?rev k pk params"
          "bk_pf_response ?B pf 0 (map fst ?rev) = Some (r0 + ?ms ! 0 * k)" using gen by blast
      obtain pfb where pfb: "ser (bk_pf_codec ?B) pf = Ok pfb" "deser (bk_pf_codec ?B) pfb = Ok pf"
        using codec_law_ser laws(1) by (metis backend_laws_def)
      obtain dlb where dlb: "ser (vb_dl_codec V) (pd_gen_proof dl k) = Ok dlb"
          "deser (vb_dl_codec V) dlb = Ok (pd_gen_proof dl k)" using codec_law_ser [OF laws(5)] by blast
      let ?p = "\<lparr>vo_message_count = ?n, vo_revealed = disclosed claims reveal, vo_bbs_proof = pfb,
                vo_dl_proof = dlb, vo_nullifier = N\<rparr>"
      have "\<exists>s'. prove_vote V claims sgb issuer reveal chain_id election_id signal s = (Ok ?p, s')"
        using run 2 pf(1) pfb(1) dlb(1) unfolding c_def dl_def
        by (simp add: prove_vote_def idx Let_def bind_s_def draw_def draw_or_def list_ex_iff not_le
            VOTER_SECRET_MSG_INDEX_def collect_claims_disclosed)
      moreover have "vote_valid V ?p issuer chain_id election_id signal"
      proof (rule vote_valid_derived [OF laws(2,4) assms(3,4,5,6)])
        show "vo_nullifier ?p = vb_mul V h_e (?ms ! 0)" using Nv assms(3) by (simp add: m0_def)
        show "deser (vb_dl_codec V) (vo_dl_proof ?p) = Ok (pd_gen_proof (dl_init (vb_mul V) (?ms ! 0) r0 h_e) k)"
          using dlb(2) assms(3) by (simp add: dl_def m0_def)
        show "pd_contribution (vb_g_codec V) (dl_init (vb_mul V) (?ms ! 0) r0 h_e) h_e (vo_nullifier ?p) = Some dc"
          using dc assms(3) by (simp add: dl_def m0_def)
        show "compute_challenge ?B (Ok bc) (Ok dc) ?n pkb chain_id election_id nb signal = Ok k"
          using 2 by (simp add: c_def)
      qed (use False assms(7,11) pfb(2) h nb pkb pf in simp_all)
      ultimately show ?thesis by blast
    qed
  qed
qed

end
