(* ===== verification/Phi_Ffi.thy ===== *)
theory Phi_Ffi
  imports Phi_Boundary Phi_Vote_Correct Phi_Bbs2023 Phi_Webauthn
begin

section \<open>The C-ABI exports (ffi.rs)\<close>

text \<open>
  The exports of \<open>ffi.rs\<close>, each over memory and the state its core function threads, the
  decoder of revealed messages for bbs-2023, and the proof that every verifying export keeps
  the interface \<open>verifier_export\<close>.
\<close>

definition curve_from_code :: "byte \<Rightarrow> Curve option" where
  "curve_from_code c =
     (if c = 0 then Some Secp256k1
      else if c = 1 then Some Secp256r1
      else None)"

subsection \<open>Decoding revealed messages\<close>

definition slice_get :: "bytes \<Rightarrow> usize \<Rightarrow> usize \<Rightarrow> bytes option" where
  "slice_get b i j = (if i \<le> j \<and> j \<le> length b then Some (take (j - i) (drop i b)) else None)"

definition u32_at :: "reader \<Rightarrow> (u32 \<times> reader, unit) result" where
  "u32_at r =
     bind_r (ok_or () (checked_add (rd_pos r) 4)) (\<lambda>end.
     bind_r (ok_or () (slice_get (rd_b r) (rd_pos r) end)) (\<lambda>bytes.
     let r = r\<lparr>rd_pos := end\<rparr> in
     bind_r (ok_or () (try_into_array 4 bytes)) (\<lambda>a.
     Ok (u32_from_be_bytes a, r))))"

text \<open>The second half of the loop body: the length, the value, and the new position.\<close>

definition value_at :: "reader \<Rightarrow> (bytes \<times> reader, unit) result" where
  "value_at r =
     bind_r (u32_at r) (\<lambda>(len32, r).
     let len = unat len32 in
     bind_r (ok_or () (checked_add (rd_pos r) len)) (\<lambda>end.
     bind_r (ok_or () (slice_get (rd_b r) (rd_pos r) end)) (\<lambda>value.
     Ok (value, r\<lparr>rd_pos := end\<rparr>))))"

definition revealed_order_check :: "u32 option \<Rightarrow> u32 \<Rightarrow> unit option" where
  "revealed_order_check prev idx =
     (case prev of
        Some p \<Rightarrow> (if unat idx \<le> unat p then Some () else None)
      | None \<Rightarrow> None)"

text \<open>\<open>Err ()\<close> is the source's \<open>None\<close>.\<close>

definition decode_revealed :: "bytes \<Rightarrow> ((nat \<times> bytes) list, unit) result" where
  "decode_revealed b =
     bind_r (u32_at \<lparr>rd_b = b, rd_pos = 0\<rparr>) (\<lambda>(count, r).
     if count > MAX_BBS_MESSAGES then Err ()
     else bind_r (entries_loop u32_at value_at revealed_order_check (unat count) None r []) (\<lambda>(out, r).
     if rd_pos r \<noteq> length b then Err ()
     else Ok (map (\<lambda>(i, value). (unat i, value)) out)))"

subsection \<open>Exports\<close>

definition phi_verify_signature ::
    "panic_strategy \<Rightarrow> ('r, 'ks, 'kv, 'kg, 'ps, 'pv, 'pg) curves \<Rightarrow> memory \<Rightarrow> byte \<Rightarrow> u64 \<Rightarrow> usize \<Rightarrow> u64 \<Rightarrow> usize \<Rightarrow> u64 \<Rightarrow>
     usize \<Rightarrow> ('s, i32) ex" where
  "phi_verify_signature ps C mem curve_code public_key public_key_len msg msg_len sig sig_len =
     guard ps 0 (
       reads (as_slice mem public_key public_key_len) (\<lambda>pk.
       reads (as_slice mem msg msg_len) (\<lambda>m.
       reads (as_slice mem sig sig_len) (\<lambda>sg.
       case (curve_from_code curve_code, pk, m, sg) of
         (Some curve, Some pk, Some m, Some sg) \<Rightarrow> ret (of_bool_i32 (did_verify C curve pk m sg))
       | _ \<Rightarrow> ret 0))))"

definition phi_webauthn_verify ::
    "panic_strategy \<Rightarrow> ('r, 'ps, 'pv, 'pg) webauthn_backend \<Rightarrow> memory \<Rightarrow> u64 \<Rightarrow> usize \<Rightarrow> u64 \<Rightarrow> usize \<Rightarrow> u64 \<Rightarrow> usize \<Rightarrow> u64 \<Rightarrow>
     usize \<Rightarrow> u64 \<Rightarrow> usize \<Rightarrow> u64 \<Rightarrow> usize \<Rightarrow> u64 \<Rightarrow> usize \<Rightarrow> i32 \<Rightarrow> ('s, i32) ex" where
  "phi_webauthn_verify ps W mem auth_data auth_data_len client_data_json client_data_json_len signature
       signature_len chal chal_len public_key public_key_len origin origin_len rp_id rp_id_len
       require_uv =
     guard ps 0 (
       reads (as_slice mem auth_data auth_data_len) (\<lambda>ad.
       reads (as_slice mem client_data_json client_data_json_len) (\<lambda>cdj.
       reads (as_slice mem signature signature_len) (\<lambda>sg.
       reads (as_slice mem chal chal_len) (\<lambda>ch.
       reads (as_slice mem public_key public_key_len) (\<lambda>pk.
       reads (as_str mem origin origin_len) (\<lambda>org.
       reads (as_str mem rp_id rp_id_len) (\<lambda>rp.
       case (ad, cdj, sg, ch, pk, org, rp) of
         (Some ad, Some cdj, Some sg, Some ch, Some pk, Some org, Some rp) \<Rightarrow>
           let assertion = \<lparr>wa_authenticator_data = ad, wa_client_data_json = cdj, wa_signature = sg\<rparr> in
           as_i32 (lift_s (verify_webauthn W assertion ch pk org rp (require_uv \<noteq> 0)))
       | _ \<Rightarrow> ret 0))))))))"

definition phi_bbs_verify_proof ::
    "panic_strategy \<Rightarrow> ('p, 'r, 'f, 'sk, 'pk, 'sg, 'pok, 'pf) bbs_backend \<Rightarrow> memory \<Rightarrow> u64 \<Rightarrow> usize \<Rightarrow> u64 \<Rightarrow> usize \<Rightarrow> u64 \<Rightarrow>
     usize \<Rightarrow> (('p, 'r) suite_state, i32) ex" where
  "phi_bbs_verify_proof ps B mem proof proof_len public_key public_key_len nonce nonce_len =
     guard ps 0 (
       reads (as_slice mem proof proof_len) (\<lambda>p.
       reads (as_slice mem public_key public_key_len) (\<lambda>pk.
       reads (as_slice mem nonce nonce_len) (\<lambda>n.
       case (p, pk, n) of
         (Some p, Some pk, Some n) \<Rightarrow> as_i32 (bbs_verify_proof_bytes B p pk n)
       | _ \<Rightarrow> ret 0))))"

definition phi_bbs2023_verify_proof ::
    "panic_strategy \<Rightarrow> ('r, 'sk, 'pk) irtf_backend \<Rightarrow> memory \<Rightarrow> u64 \<Rightarrow> usize \<Rightarrow> u64 \<Rightarrow> usize \<Rightarrow> u64 \<Rightarrow> usize \<Rightarrow> u64 \<Rightarrow> usize \<Rightarrow>
     u64 \<Rightarrow> usize \<Rightarrow> ('s, i32) ex" where
  "phi_bbs2023_verify_proof ps I mem proof proof_len public_key public_key_len header header_len
       presentation_header presentation_header_len revealed revealed_len =
     guard ps 0 (
       reads (as_slice mem proof proof_len) (\<lambda>p.
       reads (as_slice mem public_key public_key_len) (\<lambda>pk.
       reads (as_slice mem header header_len) (\<lambda>h.
       reads (as_slice mem presentation_header presentation_header_len) (\<lambda>ph.
       reads (as_slice mem revealed revealed_len) (\<lambda>rv.
       case (p, pk, h, ph, rv) of
         (Some p, Some pk, Some h, Some ph, Some rv) \<Rightarrow>
           (case decode_revealed rv of
              Ok revealed_msgs \<Rightarrow> ret (of_bool_i32 (b23_proof_verify I pk h ph p revealed_msgs))
            | Err _ \<Rightarrow> ret 0
            | Panic \<Rightarrow> (\<lambda>s. (Panic, s)))
       | _ \<Rightarrow> ret 0))))))"

definition phi_compute_nullifier ::
    "panic_strategy \<Rightarrow> (bytes \<Rightarrow> bytes) \<Rightarrow> u64 \<Rightarrow> usize \<Rightarrow> u64 \<Rightarrow> usize \<Rightarrow> u64 \<Rightarrow> usize \<Rightarrow> (memory, i32) ex" where
  "phi_compute_nullifier ps sha256 secret secret_len topic topic_len out out_len =
     guard ps 0 (\<lambda>mem.
       if out = 0 \<or> out_len < NULLIFIER_LEN then ret 0 mem
       else
         reads (as_slice mem secret secret_len) (\<lambda>sec.
         reads (as_slice mem topic topic_len) (\<lambda>tp.
         case (sec, tp) of
           (Some sec, Some tp) \<Rightarrow> (\<lambda>mem.
             let n = compute_nullifier sha256 sec tp in
             (case copy_from_slice out NULLIFIER_LEN n mem of
                (Ok _, mem') \<Rightarrow> (Ok 1, mem')
              | (Err e, mem') \<Rightarrow> (Err e, mem')
              | (Panic, mem') \<Rightarrow> (Panic, mem')))
         | _ \<Rightarrow> ret 0)) mem)"

definition phi_semaphore_verify_vote ::
    "panic_strategy \<Rightarrow> ('p, 'r, 'f, 'sk, 'pk, 'sg, 'pok, 'pf) bbs_backend \<Rightarrow> memory \<Rightarrow> u64 \<Rightarrow> usize \<Rightarrow> u64 \<Rightarrow> usize \<Rightarrow> u64 \<Rightarrow>
     usize \<Rightarrow> u64 \<Rightarrow> usize \<Rightarrow> u64 \<Rightarrow> usize \<Rightarrow> (('p, 'r) suite_state, i32) ex" where
  "phi_semaphore_verify_vote ps B mem bbs_proof bbs_proof_len public_key public_key_len election_id
       election_id_len nullifier nullifier_len signal signal_len =
     guard ps 0 (
       reads (as_slice mem bbs_proof bbs_proof_len) (\<lambda>proof.
       reads (as_slice mem public_key public_key_len) (\<lambda>pk.
       reads (as_slice mem election_id election_id_len) (\<lambda>election.
       reads (as_slice mem signal signal_len) (\<lambda>sg.
       case (proof, pk, election, sg) of
         (Some proof, Some pk, Some election, Some sg) \<Rightarrow>
           reads (as_slice mem nullifier nullifier_len) (\<lambda>null.
           case null of
             None \<Rightarrow> ret 0
           | Some null \<Rightarrow>
               (case try_into_array NULLIFIER_LEN null of
                  None \<Rightarrow> ret 0
                | Some null_arr \<Rightarrow> as_i32 (verify_bound_proof B proof pk election null_arr sg)))
       | _ \<Rightarrow> ret 0)))))"

definition phi_voting_verify_vote_v1 ::
    "panic_strategy \<Rightarrow> ('p, 'r, 'f::comm_ring_1, 'sk, 'pk, 'sg, 'pok, 'pf, 'g::ab_group_add) vote_backend \<Rightarrow> memory \<Rightarrow> u64 \<Rightarrow>
     usize \<Rightarrow> u64 \<Rightarrow> usize \<Rightarrow> u64 \<Rightarrow> usize \<Rightarrow> u64 \<Rightarrow> usize \<Rightarrow> u64 \<Rightarrow> usize \<Rightarrow> u64 \<Rightarrow> usize \<Rightarrow>
     (('p, 'r) suite_state, i32) ex" where
  "phi_voting_verify_vote_v1 ps V mem proof proof_len public_key public_key_len chain_id chain_id_len
       election_id election_id_len nullifier nullifier_len signal signal_len =
     guard ps 0 (
       reads (as_slice mem proof proof_len) (\<lambda>proof_bytes.
       reads (as_slice mem public_key public_key_len) (\<lambda>pk.
       reads (as_slice mem chain_id chain_id_len) (\<lambda>chain.
       reads (as_slice mem election_id election_id_len) (\<lambda>election.
       reads (as_slice mem signal signal_len) (\<lambda>sg.
       case (proof_bytes, pk, chain, election, sg) of
         (Some proof_bytes, Some pk, Some chain, Some election, Some sg) \<Rightarrow>
           reads (as_slice mem nullifier nullifier_len) (\<lambda>null.
           case null of
             None \<Rightarrow> ret 0
           | Some null \<Rightarrow>
               (case try_into_array NULLIFIER_POINT_LEN null of
                  None \<Rightarrow> ret 0
                | Some null_arr \<Rightarrow>
                    (case vs_from_bytes V proof_bytes of
                       Err _ \<Rightarrow> ret 0
                     | Panic \<Rightarrow> (\<lambda>s. (Panic, s))
                     | Ok vote_proof \<Rightarrow>
                         (case vo_nullifier_bytes V vote_proof of
                            Err _ \<Rightarrow> ret 0
                          | Panic \<Rightarrow> (\<lambda>s. (Panic, s))
                          | Ok embedded \<Rightarrow>
                              if null_arr \<noteq> embedded then ret 0
                              else as_i32 (verify_vote_proof V vote_proof pk chain election sg)))))
       | _ \<Rightarrow> ret 0))))))"

subsection \<open>The decoder of revealed messages\<close>

lemma slice_get_rest:
  assumes "rd_on b r"
  shows "slice_get (rd_b r) (rd_pos r) (rd_pos r + n) = (if n \<le> length (rd_rest r) then Some (take n (rd_rest r)) else None)"
  using assms by (auto simp: slice_get_def rd_on_def rd_rest_def)

lemma u32_at_eq:
  assumes "rd_on b r"
  shows "u32_at r =
    (if 4 \<le> length (rd_rest r)
     then Ok (u32_from_be_bytes (take 4 (rd_rest r)), r\<lparr>rd_pos := rd_pos r + 4\<rparr>) else Err ())"
proof -
  have "rd_pos r + 4 < 2 ^ 64" if "4 \<le> length (rd_rest r)"
    using assms that by (auto simp: rd_on_def rd_rest_def fits64_def)
  then show ?thesis
    by (auto simp: u32_at_def slice_get_rest [OF assms] checked_add_def try_into_array_def Let_def)
qed

lemma u32_at_Ok: "rd_on b r \<Longrightarrow> u32_at r = Ok p \<longleftrightarrow> reader_u32 r = Ok p"
  by (auto simp: u32_at_eq reader_u32_eq)

lemma value_at_eq:
  assumes "rd_on b r"
  shows "value_at r =
    bind_r (u32_at r) (\<lambda>(n, r').
      if unat n \<le> length (rd_rest r')
      then Ok (take (unat n) (rd_rest r'), r'\<lparr>rd_pos := rd_pos r' + unat n\<rparr>)
      else Err ())"
proof (cases "u32_at r")
  case (Ok p)
  obtain n r' where p: "p = (n, r')" by (cases p)
  have on: "rd_on b r'" using reader_u32_Ok_on [OF assms] Ok p u32_at_Ok [OF assms] by blast
  have "rd_pos r' + unat n < 2 ^ 64" if "unat n \<le> length (rd_rest r')"
    using on that by (auto simp: rd_on_def rd_rest_def fits64_def)
  then show ?thesis
    using Ok p by (auto simp: value_at_def slice_get_rest [OF on] checked_add_def Let_def)
qed (simp_all add: value_at_def)

lemma value_at_Ok: "rd_on b r \<Longrightarrow> value_at r = Ok p \<longleftrightarrow> reader_bytes r = Ok p"
  by (auto simp: value_at_eq reader_bytes_eq bind_r_Ok_iff u32_at_Ok split: if_splits)

interpretation rv: entry_reader u32_at value_at rd_rest rd_on
proof
  fix b c x c' assume on: "rd_on b c" and "ok (u32_at c) = Some (x, c')"
  then show "rd_rest c = u32_to_be_bytes x @ rd_rest c' \<and> True \<and> rd_on b c'"
    using rd.ru_sound [OF on] u32_at_Ok [OF on] by simp
next
  fix b c x s assume on: "rd_on b c" and "rd_rest c = u32_to_be_bytes x @ s"
  then show "\<exists>c'. ok (u32_at c) = Some (x, c') \<and> rd_rest c' = s \<and> rd_on b c'"
    using rd.ru_complete [OF on] u32_at_Ok [OF on] by simp
next
  fix b c x c' assume on: "rd_on b c" and "ok (value_at c) = Some (x, c')"
  then show "rd_rest c = lp32 x @ rd_rest c' \<and> fits32 x \<and> rd_on b c'"
    using rd.rb_sound [OF on] value_at_Ok [OF on] by simp
next
  fix b c x s assume on: "rd_on b c" and "fits32 x" "rd_rest c = lp32 x @ s"
  then show "\<exists>c'. ok (value_at c) = Some (x, c') \<and> rd_rest c' = s \<and> rd_on b c'"
    using rd.rb_complete [OF on] value_at_Ok [OF on] by simp
next
  fix b c assume on: "rd_on b c"
  show "u32_at c \<noteq> Panic" by (simp add: u32_at_eq [OF on])
  then show "value_at c \<noteq> Panic" by (auto simp: value_at_eq [OF on] bind_r_Panic_iff)
qed

text \<open>The encoding of a list of revealed messages, and the lists it carries.\<close>

definition revealed_wf :: "(nat \<times> bytes) list \<Rightarrow> bool" where
  "revealed_wf es \<longleftrightarrow> length es \<le> 64 \<and> sorted_wrt (<) (map fst es)
     \<and> (\<forall>e \<in> set es. fst e < 2 ^ 32 \<and> fits32 (snd e))"

definition encode_revealed :: "(nat \<times> bytes) list \<Rightarrow> bytes" where
  "encode_revealed es = len_be32 (length es) @ entries_bytes (map (\<lambda>(i, v). (word_of_nat i, v)) es)"

lemma order_admitted:
  "admitted revealed_order_check prev es \<longleftrightarrow>
     sorted_wrt (<) (map fst es) \<and> (\<forall>e \<in> set es. fits32 (snd e) \<and> (\<forall>p. prev = Some p \<longrightarrow> p < fst e))"
  by (induction es arbitrary: prev)
    (fastforce simp: revealed_order_check_def not_le word_less_nat_alt split: option.splits if_splits)+

lemma unwiden: "map (\<lambda>(i, v). (word_of_nat i :: u32, v)) (map (\<lambda>(i, v). (unat i, v)) es) = es"
  by (auto simp: comp_def intro!: map_idI)

lemma widen: "\<forall>e \<in> set es. fst e < 2 ^ 32 \<Longrightarrow>
    map (\<lambda>(i, v). (unat (i :: u32), v)) (map (\<lambda>(i, v). (word_of_nat i, v)) es) = es"
  by (auto simp: comp_def unat_of_nat intro!: map_idI)

lemma revealed_wf_widen:
  "length es \<le> 64 \<Longrightarrow> admitted revealed_order_check None es \<Longrightarrow> revealed_wf (map (\<lambda>(i, v). (unat i, v)) es)"
proof -
  assume "length es \<le> 64" and adm: "admitted revealed_order_check None es"
  moreover have "unat (i :: u32) < 2 ^ 32" for i by (rule order_less_le_trans [OF unsigned_less]) simp
  moreover have "map fst (map (\<lambda>(i, v). (unat i, v)) es) = map unat (map fst es)" by auto
  ultimately show ?thesis
    by (auto simp: revealed_wf_def order_admitted sorted_wrt_map word_less_nat_alt case_prod_unfold)
qed

lemma admitted_narrow:
  assumes "revealed_wf es"
  shows "admitted revealed_order_check None (map (\<lambda>(i, v). (word_of_nat i, v)) es)"
proof -
  have u: "unat (word_of_nat (fst e) :: u32) = fst e" if "e \<in> set es" for e
    using assms that by (auto simp: revealed_wf_def unat_of_nat)
  have "sorted_wrt (\<lambda>x y. fst x < fst y) es" using assms by (simp add: revealed_wf_def sorted_wrt_map)
  then have "sorted_wrt (\<lambda>x y. (word_of_nat (fst x) :: u32) < word_of_nat (fst y)) es"
    by (rule sorted_wrt_mono_rel [rotated]) (simp add: word_less_nat_alt u)
  then show ?thesis
    using assms by (auto simp: order_admitted revealed_wf_def sorted_wrt_map case_prod_unfold)
qed

lemma decode_revealed_sound:
  assumes "fits64 b" "decode_revealed b = Ok es"
  shows "revealed_wf es \<and> encode_revealed es = b"
proof -
  let ?r0 = "\<lparr>rd_b = b, rd_pos = 0\<rparr>"
  from assms(2) obtain n r1 out r2 where
      r1: "u32_at ?r0 = Ok (n, r1)" and n: "n \<le> MAX_BBS_MESSAGES"
      and r2: "entries_loop u32_at value_at revealed_order_check (unat n) None r1 [] = Ok (out, r2)"
      and at_end: "rd_pos r2 = length b" and es: "es = map (\<lambda>(i, v). (unat i, v)) out"
    by (auto simp: decode_revealed_def bind_r_Ok_iff split: if_splits)
  have s1: "b = u32_to_be_bytes n @ rd_rest r1" "rd_on b r1"
    using rv.ru_sound [OF rd_on_start [OF assms(1)] r1] by auto
  have s2: "length out = unat n" "admitted revealed_order_check None out"
      "rd_rest r1 = entries_bytes out @ rd_rest r2" "rd_on b r2"
    using rv.loop_sound [OF s1(2) r2] by auto
  have "rd_rest r2 = []" using rd_at_end [OF s2(4)] at_end by simp
  moreover have "length out \<le> 64" using n s2(1) by (simp add: word_le_nat_alt)
  ultimately show ?thesis
    using s1(1) s2(1,3) revealed_wf_widen [OF _ s2(2)]
    by (simp add: encode_revealed_def es unwiden [simplified] len_be32_def)
qed

lemma revealed_count:
  assumes "revealed_wf es"
  shows "unat (word_of_nat (length es) :: u32) = length es"
  using assms by (simp add: revealed_wf_def unat_of_nat)

lemma encode_revealed_fits:
  assumes "revealed_wf es"
  shows "fits64 (encode_revealed es)"
proof -
  let ?es = "map (\<lambda>(i, v). (word_of_nat i :: u32, v)) es"
  have "length (entries_bytes ?es) \<le> length ?es * (8 + 2 ^ 32)"
    using assms by (intro length_entries_bytes) (auto simp: revealed_wf_def)
  also have "\<dots> \<le> 64 * (8 + 2 ^ 32)" using assms by (simp add: revealed_wf_def)
  finally show ?thesis by (simp add: encode_revealed_def len_be32_def fits64_def)
qed

lemma decode_revealed_complete:
  assumes "revealed_wf es"
  shows "decode_revealed (encode_revealed es) = Ok es"
proof -
  let ?b = "encode_revealed es"
  let ?es = "map (\<lambda>(i, v). (word_of_nat i :: u32, v)) es"
  have on: "rd_on ?b \<lparr>rd_b = ?b, rd_pos = 0\<rparr>" by (rule rd_on_start [OF encode_revealed_fits [OF assms]])
  have "rd_rest \<lparr>rd_b = ?b, rd_pos = 0\<rparr> = u32_to_be_bytes (word_of_nat (length es)) @ entries_bytes ?es"
    by (simp add: encode_revealed_def len_be32_def)
  from rv.ru_complete [OF on this] obtain r1 where
      r1: "u32_at \<lparr>rd_b = ?b, rd_pos = 0\<rparr> = Ok (word_of_nat (length es), r1)" "rd_rest r1 = entries_bytes ?es @ []"
        "rd_on ?b r1" by auto
  from rv.loop_complete [OF r1(3) admitted_narrow [OF assms] r1(2), of "[]"] obtain r2 where
      r2: "entries_loop u32_at value_at revealed_order_check (length ?es) None r1 [] = Ok (?es, r2)"
        "rd_rest r2 = []" "rd_on ?b r2" by auto
  have "rd_pos r2 = length ?b" using rd_at_end [OF r2(3)] r2(2) by simp
  moreover have "\<not> MAX_BBS_MESSAGES < word_of_nat (length es)"
    using assms revealed_count [OF assms] by (simp add: word_less_nat_alt revealed_wf_def)
  moreover have "map (\<lambda>(i, v). (unat i, v)) ?es = es"
    using assms by (intro widen) (simp add: revealed_wf_def)
  ultimately show ?thesis
    using r1(1) r2(1) revealed_count [OF assms] by (simp add: decode_revealed_def del: map_map)
qed

lemma decode_revealed_no_panic:
  assumes "fits64 b"
  shows "no_panic (decode_revealed b)"
  unfolding decode_revealed_def
  by (auto intro!: rv.ru_then [where b = b] rv.loop_then [where b = b] rd_on_start assms)

interpretation rvc: canonical_codec "\<lambda>b. ok (decode_revealed b)" encode_revealed revealed_wf
proof
  fix b x assume "fits64 b"
  then show "ok (decode_revealed b) = Some x \<longleftrightarrow> revealed_wf x \<and> encode_revealed x = b"
    using decode_revealed_sound decode_revealed_complete by auto
next
  fix x y s assume wf: "revealed_wf x" "revealed_wf y" and eq: "encode_revealed x @ s = encode_revealed y"
  let ?n = "map (\<lambda>(i, v). (word_of_nat i :: u32, v))"
  have "(word_of_nat (length x) :: u32) = word_of_nat (length y)"
      and e: "entries_bytes (?n x) @ s = entries_bytes (?n y) @ []"
    using eq by (simp_all add: encode_revealed_def len_be32_def be32.append_eq_iff)
  then have "length (?n x) = length (?n y)" using revealed_count wf by (metis length_map)
  moreover have "\<forall>e \<in> set (?n x). fits32 (snd e)" "\<forall>e \<in> set (?n y). fits32 (snd e)"
    using wf by (auto simp: revealed_wf_def)
  ultimately show "s = []" using entries_bytes_split [OF _ _ _ e] by blast
qed (rule encode_revealed_fits)

subsection \<open>Every verifying export keeps the interface\<close>

text \<open>What each export accepts, over the byte strings its arguments denote.\<close>

fun signature_accepts :: "('r, 'ks, 'kv, 'kg, 'ps, 'pv, 'pg) curves \<Rightarrow> byte \<Rightarrow> bytes option list \<Rightarrow> bool" where
  "signature_accepts C c [Some pk, Some m, Some sg] \<longleftrightarrow>
     (\<exists>curve. curve_from_code c = Some curve \<and> did_verify C curve pk m sg)"
| "signature_accepts C c _ \<longleftrightarrow> False"

fun webauthn_accepts :: "('r, 'ps, 'pv, 'pg) webauthn_backend \<Rightarrow> i32 \<Rightarrow> bytes option list \<Rightarrow> bool" where
  "webauthn_accepts W uv [Some ad, Some cdj, Some sg, Some ch, Some pk, Some org, Some rp] \<longleftrightarrow>
     from_utf8 org \<noteq> None \<and> from_utf8 rp \<noteq> None
     \<and> assertion_ok W \<lparr>wa_authenticator_data = ad, wa_client_data_json = cdj, wa_signature = sg\<rparr> ch pk org rp (uv \<noteq> 0)"
| "webauthn_accepts W uv _ \<longleftrightarrow> False"

fun bbs_accepts :: "('p, 'r, 'f, 'sk, 'pk, 'sg, 'pok, 'pf) bbs_backend \<Rightarrow> bytes option list \<Rightarrow> bool" where
  "bbs_accepts B [Some pb, Some pk, Some nonce] \<longleftrightarrow>
     (\<exists>p. sp_wf p \<and> sp_to_bytes p = pb \<and> selective_valid B p pk nonce)"
| "bbs_accepts B _ \<longleftrightarrow> False"

fun b23_accepts :: "('r, 'sk, 'pk) irtf_backend \<Rightarrow> bytes option list \<Rightarrow> bool" where
  "b23_accepts I [Some p, Some pk, Some h, Some ph, Some rv] \<longleftrightarrow>
     (\<exists>es. revealed_wf es \<and> encode_revealed es = rv \<and> b23_proof_verify I pk h ph p es)"
| "b23_accepts I _ \<longleftrightarrow> False"

fun semaphore_accepts :: "('p, 'r, 'f, 'sk, 'pk, 'sg, 'pok, 'pf) bbs_backend \<Rightarrow> bytes option list \<Rightarrow> bool" where
  "semaphore_accepts B [Some pb, Some pk, Some el, Some null, Some sg] \<longleftrightarrow>
     length null = NULLIFIER_LEN
     \<and> (\<exists>p. sp_wf p \<and> sp_to_bytes p = pb
          \<and> selective_valid B p pk (bind_nonce (bk_sha256 B) el null sg))"
| "semaphore_accepts B _ \<longleftrightarrow> False"

fun vote_accepts ::
    "('p, 'r, 'f::comm_ring_1, 'sk, 'pk, 'sg, 'pok, 'pf, 'g::ab_group_add) vote_backend \<Rightarrow>
     bytes option list \<Rightarrow> bool" where
  "vote_accepts V [Some pb, Some pk, Some ch, Some el, Some null, Some sg] \<longleftrightarrow>
     (\<exists>p. vo_wf p \<and> vs_to_bytes V p = Ok pb \<and> ser (vb_g_codec V) (vo_nullifier p) = Ok null
        \<and> vote_valid V p pk ch el sg)"
| "vote_accepts V _ \<longleftrightarrow> False"

text \<open>The exports over the list of their slice arguments.\<close>

fun bbs_export ::
    "panic_strategy \<Rightarrow> ('p, 'r, 'f, 'sk, 'pk, 'sg, 'pok, 'pf) bbs_backend \<Rightarrow> memory \<Rightarrow> c_arg list \<Rightarrow> (('p, 'r) suite_state, i32) ex" where
  "bbs_export ps B mem [(p, pn), (pk, pkn), (n, nn)] = phi_bbs_verify_proof ps B mem p pn pk pkn n nn"
| "bbs_export ps B mem _ = ret 0"

lemma length_args:
  "length xs = 3 \<longleftrightarrow> (\<exists>a b c. xs = [a, b, c])"
  "length xs = 5 \<longleftrightarrow> (\<exists>a b c d e. xs = [a, b, c, d, e])"
  "length xs = 6 \<longleftrightarrow> (\<exists>a b c d e f. xs = [a, b, c, d, e, f])"
  "length xs = 7 \<longleftrightarrow> (\<exists>a b c d e f g. xs = [a, b, c, d, e, f, g])"
  by (auto simp: numeral_eq_Suc length_Suc_conv)

interpretation c_bbs: verifier_export "bbs_export ps B" 3 "suite_ok B" "bbs_accepts B" for ps B
proof
  fix s args mem
  assume s: "suite_ok B s" and len: "length args = 3" and ok: "list_all (valid_arg mem) args"
  obtain p pn pk pkn n nn where a: "args = [(p, pn), (pk, pkn), (n, nn)]" using len by (auto simp: length_args)
  show "fst (bbs_export ps B mem args s) = Ok (of_bool_i32 (bbs_accepts B (map (view mem) args)))"
    using ok verify_bytes_spec_aux [OF s view_fits64 [of mem "(p, pn)"]]
    by (auto simp: a phi_bbs_verify_proof_def guard_def view_simps as_i32_run of_bool_i32_def split: option.split)
next
  fix vs :: "bytes option list" assume "None \<in> set vs"
  then show "\<not> bbs_accepts B vs" by (cases "(B, vs)" rule: bbs_accepts.cases) auto
qed

fun signature_export ::
    "panic_strategy \<Rightarrow> ('r, 'ks, 'kv, 'kg, 'ps, 'pv, 'pg) curves \<Rightarrow> byte \<Rightarrow> memory \<Rightarrow> c_arg list \<Rightarrow> ('s, i32) ex" where
  "signature_export ps C c mem [(pk, pkn), (m, mn), (sg, sgl)] = phi_verify_signature ps C mem c pk pkn m mn sg sgl"
| "signature_export ps C c mem _ = ret 0"

interpretation c_signature: verifier_export "signature_export ps C c" 3 "\<lambda>_. True" "signature_accepts C c" for ps C c
proof
  fix s :: 's and args mem
  assume len: "length args = 3" and ok: "list_all (valid_arg mem) args"
  obtain p pn pk pkn n nn where a: "args = [(p, pn), (pk, pkn), (n, nn)]" using len by (auto simp: length_args)
  show "fst (signature_export ps C c mem args s) = Ok (of_bool_i32 (signature_accepts C c (map (view mem) args)))"
    using ok
    by (auto simp: a phi_verify_signature_def guard_def view_simps of_bool_i32_def
        split: option.split elim!: signature_accepts.elims(2))
next
  fix vs :: "bytes option list" assume "None \<in> set vs"
  then show "\<not> signature_accepts C c vs" by (cases "(C, c, vs)" rule: signature_accepts.cases) auto
qed

fun b23_export :: "panic_strategy \<Rightarrow> ('r, 'sk, 'pk) irtf_backend \<Rightarrow> memory \<Rightarrow> c_arg list \<Rightarrow> ('s, i32) ex" where
  "b23_export ps I mem [(p, pn), (pk, pkn), (h, hn), (ph, phn), (rv, rvn)] =
     phi_bbs2023_verify_proof ps I mem p pn pk pkn h hn ph phn rv rvn"
| "b23_export ps I mem _ = ret 0"

lemma decode_revealed_cases:
  assumes "fits64 b"
  shows "(\<exists>es. decode_revealed b = Ok es \<and> revealed_wf es \<and> encode_revealed es = b)
    \<or> decode_revealed b = Err () \<and> (\<nexists>es. revealed_wf es \<and> encode_revealed es = b)"
  using decode_revealed_sound [OF assms] decode_revealed_complete decode_revealed_no_panic [OF assms]
  by (cases "decode_revealed b") auto

lemma b23_decodes:
  assumes "fits64 rv"
  shows "(case decode_revealed rv of Ok es \<Rightarrow> ret (of_bool_i32 (P es)) | Err _ \<Rightarrow> ret 0 | Panic \<Rightarrow> (\<lambda>s. (Panic, s)))
     = ret (of_bool_i32 (\<exists>es. revealed_wf es \<and> encode_revealed es = rv \<and> P es))"
proof (cases "\<exists>es. revealed_wf es \<and> encode_revealed es = rv")
  case True
  then obtain es where es: "revealed_wf es" "encode_revealed es = rv" by blast
  have "(\<exists>es. revealed_wf es \<and> encode_revealed es = rv \<and> P es) \<longleftrightarrow> P es" using es rvc.encode_inj by blast
  then show ?thesis using decode_revealed_complete [OF es(1)] es(2) by simp
next
  case False
  then have "decode_revealed rv = Err ()" "\<not> (\<exists>es. revealed_wf es \<and> encode_revealed es = rv \<and> P es)"
    using decode_revealed_cases [OF assms] by auto
  then show ?thesis by (auto simp: of_bool_i32_def)
qed

interpretation c_b23: verifier_export "b23_export ps I" 5 "\<lambda>_. True" "b23_accepts I" for ps I
proof
  fix s :: 's and args mem
  assume len: "length args = 5" and ok: "list_all (valid_arg mem) args"
  obtain p pn pk pkn h hn ph phn rv rvn where a: "args = [(p, pn), (pk, pkn), (h, hn), (ph, phn), (rv, rvn)]"
    using len by (auto simp: length_args)
  show "fst (b23_export ps I mem args s) = Ok (of_bool_i32 (b23_accepts I (map (view mem) args)))"
    using ok view_fits64 [of mem "(rv, rvn)"]
    by (auto simp: a phi_bbs2023_verify_proof_def guard_def as_slice_view reads_def b23_decodes
        of_bool_i32_def [of False] split: option.split) (simp_all add: ret_def)
next
  fix vs :: "bytes option list" assume "None \<in> set vs"
  then show "\<not> b23_accepts I vs" by (cases "(I, vs)" rule: b23_accepts.cases) auto
qed

fun webauthn_export ::
    "panic_strategy \<Rightarrow> ('r, 'ps, 'pv, 'pg) webauthn_backend \<Rightarrow> i32 \<Rightarrow> memory \<Rightarrow> c_arg list \<Rightarrow> ('s, i32) ex" where
  "webauthn_export ps W uv mem [(ad, adn), (cd, cdn), (sg, sgl), (ch, chn), (pk, pkn), (org, orgn), (rp, rpn)] =
     phi_webauthn_verify ps W mem ad adn cd cdn sg sgl ch chn pk pkn org orgn rp rpn uv"
| "webauthn_export ps W uv mem _ = ret 0"

interpretation c_webauthn: verifier_export "webauthn_export ps W uv" 7 "\<lambda>_. True" "webauthn_accepts W uv" for ps W uv
proof
  fix s :: 's and args mem
  assume len: "length args = 7" and ok: "list_all (valid_arg mem) args"
  obtain ad adn cd cdn sg sgl ch chn pk pkn org orgn rp rpn where
      a: "args = [(ad, adn), (cd, cdn), (sg, sgl), (ch, chn), (pk, pkn), (org, orgn), (rp, rpn)]"
    using len by (auto simp: length_args)
  show "fst (webauthn_export ps W uv mem args s) = Ok (of_bool_i32 (webauthn_accepts W uv (map (view mem) args)))"
    using ok view_length [of mem "(ch, chn)"]
    by (cases "view mem (org, orgn)"; cases "view mem (rp, rpn)")
      (auto simp: a phi_webauthn_verify_def guard_def view_simps as_i32_run from_utf8_def Let_def
        verify_webauthn_eq of_bool_i32_def [of False] split: option.split)
next
  fix vs :: "bytes option list" assume "None \<in> set vs"
  then show "\<not> webauthn_accepts W uv vs" by (cases "(W, uv, vs)" rule: webauthn_accepts.cases) auto
qed

fun semaphore_export ::
    "panic_strategy \<Rightarrow> ('p, 'r, 'f, 'sk, 'pk, 'sg, 'pok, 'pf) bbs_backend \<Rightarrow> memory \<Rightarrow> c_arg list \<Rightarrow> (('p, 'r) suite_state, i32) ex" where
  "semaphore_export ps B mem [(p, pn), (pk, pkn), (el, eln), (null, nulln), (sg, sgl)] =
     phi_semaphore_verify_vote ps B mem p pn pk pkn el eln null nulln sg sgl"
| "semaphore_export ps B mem _ = ret 0"

interpretation c_semaphore: verifier_export "semaphore_export ps B" 5 "suite_ok B" "semaphore_accepts B" for ps B
proof
  fix s args mem
  assume s: "suite_ok B s" and len: "length args = 5" and ok: "list_all (valid_arg mem) args"
  obtain p pn pk pkn el eln null nulln sg sgl where
      a: "args = [(p, pn), (pk, pkn), (el, eln), (null, nulln), (sg, sgl)]" using len by (auto simp: length_args)
  show "fst (semaphore_export ps B mem args s) = Ok (of_bool_i32 (semaphore_accepts B (map (view mem) args)))"
    using ok verify_bytes_spec_aux [OF s view_fits64 [of mem "(p, pn)"]]
    by (auto simp: a phi_semaphore_verify_vote_def guard_def view_simps as_i32_run verify_bound_proof_def Let_def
        try_into_array_def of_bool_i32_def split: option.split)
next
  fix vs :: "bytes option list" assume "None \<in> set vs"
  then show "\<not> semaphore_accepts B vs" by (cases "(B, vs)" rule: semaphore_accepts.cases) auto
qed

fun vote_export ::
    "panic_strategy \<Rightarrow> ('p, 'r, 'f::comm_ring_1, 'sk, 'pk, 'sg, 'pok, 'pf, 'g::ab_group_add) vote_backend \<Rightarrow> memory \<Rightarrow>
     c_arg list \<Rightarrow> (('p, 'r) suite_state, i32) ex" where
  "vote_export ps V mem [(p, pn), (pk, pkn), (ch, chn), (el, eln), (null, nulln), (sg, sgl)] =
     phi_voting_verify_vote_v1 ps V mem p pn pk pkn ch chn el eln null nulln sg sgl"
| "vote_export ps V mem _ = ret 0"

text \<open>The nullifier a decoded proof embeds, which the supplied one must equal.\<close>

lemma embedded_nullifier:
  assumes "point_law (vb_g_codec V)"
  shows "\<exists>e. ser (vb_g_codec V) (vo_nullifier p) = Ok e \<and> vo_nullifier_bytes V p = Ok e \<and> length e = NULLIFIER_POINT_LEN"
proof -
  obtain e where e: "ser (vb_g_codec V) (vo_nullifier p) = Ok e" "length e = 48"
    using point_ser [OF assms] by blast
  then show ?thesis by (simp add: vo_nullifier_bytes_def NULLIFIER_POINT_LEN_def try_into_array_def)
qed

definition vote_tail where
  "vote_tail V null_arr proof_bytes pk ch el sg =
     (case vs_from_bytes V proof_bytes of
        Err _ \<Rightarrow> ret (0 :: i32)
      | Panic \<Rightarrow> (\<lambda>s. (Panic, s))
      | Ok vote_proof \<Rightarrow>
          (case vo_nullifier_bytes V vote_proof of
             Err _ \<Rightarrow> ret 0
           | Panic \<Rightarrow> (\<lambda>s. (Panic, s))
           | Ok embedded \<Rightarrow>
               if null_arr \<noteq> embedded then ret 0
               else as_i32 (verify_vote_proof V vote_proof pk ch el sg)))"

lemma vote_tail_run:
  assumes "point_law (vb_g_codec V)" "suite_ok (vb_bbs V) s" "fits64 pb" "length null = NULLIFIER_POINT_LEN"
  shows "fst (vote_tail V null pb pk ch el sg s)
     = Ok (of_bool_i32 (vote_accepts V [Some pb, Some pk, Some ch, Some el, Some null, Some sg]))"
proof (cases "vs_from_bytes V pb")
  case (Ok p)
  have p: "vo_wf p" "vs_to_bytes V p = Ok pb" using vs_from_bytes_sound [OF assms(1,3) Ok] by auto
  have uniq: "q = p" if "vo_wf q" "vs_to_bytes V q = Ok pb" for q
    using vs_from_bytes_complete [OF assms(1) that(1)] that(2) Ok by (simp add: vo_enc_def)
  obtain e where e: "ser (vb_g_codec V) (vo_nullifier p) = Ok e" "vo_nullifier_bytes V p = Ok e"
    using embedded_nullifier [OF assms(1)] by blast
  have acc: "vote_accepts V [Some pb, Some pk, Some ch, Some el, Some null, Some sg]
      \<longleftrightarrow> null = e \<and> vote_valid V p pk ch el sg"
  proof -
    have "(\<exists>q. vo_wf q \<and> vs_to_bytes V q = Ok pb \<and> ser (vb_g_codec V) (vo_nullifier q) = Ok null \<and> vote_valid V q pk ch el sg)
        \<longleftrightarrow> ser (vb_g_codec V) (vo_nullifier p) = Ok null \<and> vote_valid V p pk ch el sg"
      using p uniq by blast
    then show ?thesis using e(1) by (simp add: eq_commute [of e])
  qed
  show ?thesis
    unfolding acc vote_tail_def
    using Ok e as_i32_run [where f = "verify_vote_proof V p pk ch el sg" and s = s, OF verify_vote_proof_spec [OF assms(2)]]
    by (auto simp: ret_def of_bool_i32_def)
next
  case (Err x)
  have "\<not> (vo_wf q \<and> vs_to_bytes V q = Ok pb)" for q
    using vs_from_bytes_complete [OF assms(1), of q] Err by (auto simp: vo_enc_def)
  then have "\<not> vote_accepts V [Some pb, Some pk, Some ch, Some el, Some null, Some sg]" by auto
  with Err show ?thesis by (simp add: vote_tail_def ret_def of_bool_i32_def)
next
  case Panic
  with vs_from_bytes_no_panic [OF assms(3), of V] show ?thesis by simp
qed

lemma vote_accepts_length:
  assumes "point_law (vb_g_codec V)" "vote_accepts V [Some pb, Some pk, Some ch, Some el, Some null, Some sg]"
  shows "length null = NULLIFIER_POINT_LEN"
proof -
  obtain p where "vo_wf p" "ser (vb_g_codec V) (vo_nullifier p) = Ok null" using assms(2) by auto
  then show ?thesis using embedded_nullifier [OF assms(1), of p] by auto
qed

lemma vote_accepts_needs_all: "None \<in> set vs \<Longrightarrow> \<not> vote_accepts V vs"
  by (cases "(V, vs)" rule: vote_accepts.cases) auto

lemma vote_export_decides:
  assumes "point_law (vb_g_codec V)" "suite_ok (vb_bbs V) s" "length args = 6" "list_all (valid_arg mem) args"
  shows "fst (vote_export ps V mem args s) = Ok (of_bool_i32 (vote_accepts V (map (view mem) args)))"
proof -
  obtain p pn pk pkn ch chn el eln null nulln sg sgl where
      a: "args = [(p, pn), (pk, pkn), (ch, chn), (el, eln), (null, nulln), (sg, sgl)]"
    using assms(3) by (auto simp: length_args)
  note ev = a phi_voting_verify_vote_v1_def as_slice_view
  show ?thesis
  proof (cases "None \<in> set (map (view mem) args)")
    case True
    then have "fst (vote_export ps V mem args s) = Ok 0"
      using assms(4) by (auto simp: ev guard_def ret_def split: option.split)
    then show ?thesis using vote_accepts_needs_all [OF True, of V] by (simp add: of_bool_i32_def)
  next
    case False
    then obtain pb pkb chb elb nb sb where v: "view mem (p, pn) = Some pb" "view mem (pk, pkn) = Some pkb"
        "view mem (ch, chn) = Some chb" "view mem (el, eln) = Some elb" "view mem (null, nulln) = Some nb"
        "view mem (sg, sgl) = Some sb"
      by (auto simp: a eq_commute [of None])
    have f: "fits64 pb" using v(1) view_fits64 assms(4) by (auto simp: a)
    have e: "vote_export ps V mem args =
        guard ps 0 (if length nb = NULLIFIER_POINT_LEN then vote_tail V nb pb pkb chb elb sb else ret 0)"
      using assms(4) v by (simp add: ev vote_tail_def try_into_array_def)
    show ?thesis
    proof (cases "length nb = NULLIFIER_POINT_LEN")
      case True
      then show ?thesis
        unfolding e using vote_tail_run [OF assms(1,2) f True] by (simp add: guard_fst a v)
    next
      case False
      then have "\<not> vote_accepts V (map (view mem) args)" using vote_accepts_length [OF assms(1), of pb pkb chb elb nb sb] by (auto simp: a v)
      then show ?thesis unfolding e using False by (simp add: guard_def ret_def of_bool_i32_def)
    qed
  qed
qed

lemma vote_verifier:
  assumes "point_law (vb_g_codec V)"
  shows "verifier_export (vote_export ps V) 6 (suite_ok (vb_bbs V)) (vote_accepts V)"
  by unfold_locales (rule vote_export_decides [OF assms] vote_accepts_needs_all; assumption)+

end
