(* ===== verification/Phi_Bbs_Props.thy ===== *)
theory Phi_Bbs_Props
  imports Phi_Bbs_Correct "HOL-Library.Multiset"
begin

section \<open>Properties of the phi-bbs-v1 suite\<close>

text \<open>
  The claims about \<open>bbs.rs\<close>, each over the definitions of the model. The hypotheses on the
  backend are satisfiable: \<open>sum_backend\<close> is a small instance (every group element and scalar a
  byte, the signature the sum of key and messages) whose laws are proved here and whose
  operations evaluate, so that the claims are applied to a complete run of the suite.
\<close>

subsection \<open>A backend that evaluates\<close>

definition byte_codec :: "byte ark_codec" where
  "byte_codec = \<lparr>serialize_compressed = (\<lambda>x. Some [x]),
     deserialize_compressed = (\<lambda>b. case b of [] \<Rightarrow> None | x # s \<Rightarrow> Some (x, s))\<rparr>"

definition triple_codec :: "(byte \<times> byte \<times> byte) ark_codec" where
  "triple_codec = \<lparr>serialize_compressed = (\<lambda>(x, y, z). Some [x, y, z]),
     deserialize_compressed = (\<lambda>b. case b of x # y # z # s \<Rightarrow> Some ((x, y, z), s) | _ \<Rightarrow> None)\<rparr>"

fun hidden_sum :: "byte message_or_blinding list \<Rightarrow> byte" where
  "hidden_sum [] = 0"
| "hidden_sum (BlindMessageRandomly m # ms) = m + hidden_sum ms"
| "hidden_sum (BlindMessageWithConcreteBlinding m b # ms) = m + hidden_sum ms"
| "hidden_sum (RevealMessage m # ms) = hidden_sum ms"

definition map_sum :: "byte btree_map \<Rightarrow> byte" where
  "map_sum m = sum_list (map snd m)"

fun concrete_blinding :: "byte message_or_blinding list \<Rightarrow> byte \<times> byte" where
  "concrete_blinding (BlindMessageWithConcreteBlinding m r # ms) = (m, r)"
| "concrete_blinding _ = (0, 0)"

definition sum_backend ::
    "(u32, byte, byte, byte, byte, byte, byte \<times> byte \<times> byte \<times> byte, byte \<times> byte \<times> byte) bbs_backend" where
  "sum_backend =
    \<lparr>bk_params_new = (\<lambda>label count. if count = 0 then Panic else Ok count),
     bk_keygen = (\<lambda>rng p. ((rng, rng), rng + 1)),
     bk_sign = (\<lambda>rng ms sk p. (Some (sk + sum_list ms), rng)),
     bk_pok_init = (\<lambda>rng sg p mbi. (Some (sg, hidden_sum mbi, concrete_blinding mbi), rng + 1)),
     bk_pok_contribution = (\<lambda>pok m p. Some [map_sum m]),
     bk_gen_proof = (\<lambda>(sg, h, m, r) c. Some (sg + c, h, r + m * c)),
     bk_pf_contribution = (\<lambda>pf m p. Some [map_sum m]),
     bk_pf_verify = (\<lambda>(x, h, resp) m c pk p. x = pk + h + map_sum m + c),
     bk_pf_response = (\<lambda>(x, h, resp) i is. Some resp),
     bk_oracle = (\<lambda>b. sum_list b),
     bk_from_le_bytes_mod_order = (\<lambda>b. sum_list b),
     bk_sha256 = (\<lambda>b. b),
     bk_sk_codec = byte_codec, bk_pk_codec = byte_codec, bk_sg_codec = byte_codec,
     bk_pf_codec = triple_codec\<rparr>"

lemma codec_law_byte: "codec_law byte_codec"
  by (simp add: codec_law_def byte_codec_def)

lemma codec_law_triple: "codec_law triple_codec"
  by (simp add: codec_law_def triple_codec_def)

lemma revealed_sum:
  "map_sum (concat (map reveal_entry (enumerate n mbi))) + hidden_sum mbi
     = sum_list (map mbi_message mbi)"
proof (induction mbi arbitrary: n)
  case (Cons m ms)
  show ?case using Cons [of "Suc n"]
    by (cases m) (auto simp: map_sum_def algebra_simps)
qed (simp add: map_sum_def)

lemma pok_law_sum: "pok_law sum_backend"
  unfolding pok_law_def
  using revealed_sum [of 0, folded revealed_of_def]
  by (auto simp: sum_backend_def algebra_simps split: prod.split)

lemma sum_backend_laws: "backend_laws sum_backend"
proof -
  have "sign_law sum_backend" by (simp add: sign_law_def sum_backend_def)
  moreover have "codec_law (bk_sk_codec sum_backend)" "codec_law (bk_pk_codec sum_backend)"
      "codec_law (bk_sg_codec sum_backend)" "codec_law (bk_pf_codec sum_backend)"
    using codec_law_byte codec_law_triple by (simp_all add: sum_backend_def)
  ultimately show ?thesis using pok_law_sum by (simp add: backend_laws_def)
qed

definition fresh_state :: "byte \<Rightarrow> (u32, byte) suite_state" where
  "fresh_state seed = \<lparr>ss_cache = params_cache, ss_rng = seed\<rparr>"

lemma sum_backend_suite_ok: "suite_ok sum_backend (fresh_state seed)"
  by (simp add: suite_ok_def fresh_state_def params_law_def sum_backend_def cache_ok_initial)

lemmas sum_backend_ready = sum_backend_laws sum_backend_suite_ok

subsection \<open>Claims\<close>

lemma selective_valid_reorder:
  assumes "mset (sp_revealed p) = mset (sp_revealed q)" "sp_message_count p = sp_message_count q"
    "sp_proof p = sp_proof q"
  shows "selective_valid B p public nonce = selective_valid B q public nonce"
proof -
  let ?f = "\<lambda>(i, b). (unat (i :: u32), claim_to_fr B b)"
  have d: "distinct (map fst (sp_revealed p)) = distinct (map fst (sp_revealed q))"
    using assms(1) by (metis distinct_count_atmost_1 mset_map set_mset_mset)
  have s: "set (sp_revealed p) = set (sp_revealed q)" using assms(1) by (rule mset_eq_setD)
  have "distinct (map fst (map ?f es))" if "distinct (map fst es)" for es :: "(u32 \<times> bytes) list"
  proof -
    have "map fst (map ?f es) = map unat (map fst es)" by auto
    with that show ?thesis by (simp add: distinct_map inj_on_def word_unat_eq_iff)
  qed
  then have "map_of (map ?f (sp_revealed p)) = map_of (map ?f (sp_revealed q))"
    if "distinct (map fst (sp_revealed p))"
    using that d s by (subst map_of_inject_set) auto
  with d s assms(2,3) show ?thesis
    unfolding selective_valid_def by metis
qed


text \<open>C1: issuing, presenting and verifying compose. For a backend that keeps its laws, from any
  states of issuer, holder and verifier (any cached parameters, any generator), for 1 to 64
  claims and any request of valid indices: key generation and signing succeed, the holder
  derives a proof, the verifier accepts it under the same nonce, and, when every field fits a
  \<open>u32\<close> length, also accepts the bytes of the proof.\<close>

theorem bbs_roundtrip:
  assumes "backend_laws B" "suite_ok B si" "suite_ok B sh" "suite_ok B sv"
    and "claims \<noteq> []" "length claims \<le> 64" "\<forall>i \<in> set reveal. i < length claims"
  shows "\<exists>kp si1 sg si2 p sh1.
      bbs_generate_keypair B (word_of_nat (length claims)) si = (Ok kp, si1)
      \<and> bbs_sign_credential B claims (held (bkp_secret kp)) si1 = (Ok sg, si2)
      \<and> bbs_derive_proof B claims sg reveal nonce sh = (Ok p, sh1)
      \<and> fst (bbs_verify_proof B p (bkp_public kp) nonce sv) = Ok True
      \<and> (fits32 (sp_proof p) \<and> (\<forall>c \<in> set claims. fits32 c) \<longrightarrow>
           fst (bbs_verify_proof_bytes B (sp_to_bytes p) (bkp_public kp) nonce sv) = Ok True)"
  using assms by (rule roundtrip_aux)

theorem bbs_roundtrip_witness:
  "\<exists>kp si1 sg si2 p sh1.
      bbs_generate_keypair sum_backend 3 (fresh_state 7) = (Ok kp, si1)
      \<and> bbs_sign_credential sum_backend [[1], [2], [3]] (held (bkp_secret kp)) si1 = (Ok sg, si2)
      \<and> bbs_derive_proof sum_backend [[1], [2], [3]] sg [2, 0, 2] [9] (fresh_state 5) = (Ok p, sh1)
      \<and> fst (bbs_verify_proof sum_backend p (bkp_public kp) [9] (fresh_state 1)) = Ok True"
  using bbs_roundtrip [OF sum_backend_laws sum_backend_suite_ok [of 7] sum_backend_suite_ok [of 5]
      sum_backend_suite_ok [of 1], of "[[1], [2], [3]]" "[2, 0, 2]" "[9]"]
  by (simp add: numeral_eq_Suc) metis

text \<open>C4: the verifier decides validity. In every reachable state of the cache, \<open>verify_proof\<close>
  returns (it neither fails nor panics, its \<open>debug_assert\<close> included), and what it returns is the
  declarative predicate \<open>selective_valid\<close> on every proof, well-formed or not.\<close>

theorem bbs_verify_spec:
  assumes "suite_ok B s"
  shows "fst (bbs_verify_proof B proof public nonce s) = Ok (selective_valid B proof public nonce)"
  using assms by (rule verify_spec_aux)

theorem bbs_verify_spec_witness:
  "fst (bbs_verify_proof sum_backend \<lparr>sp_message_count = 3, sp_proof = [25, 2, 0], sp_revealed = [(2, [3]), (0, [1])]\<rparr>
      [7] [9] (fresh_state 1))
   = Ok (selective_valid sum_backend
       \<lparr>sp_message_count = 3, sp_proof = [25, 2, 0], sp_revealed = [(2, [3]), (0, [1])]\<rparr> [7] [9])"
  using bbs_verify_spec [OF sum_backend_suite_ok] by blast

text \<open>C8: over bytes, the verifier accepts exactly the canonical encodings of valid well-formed
  proofs: malformed bytes are a \<open>false\<close>, never an error and never a panic.\<close>

theorem bbs_verify_bytes_spec:
  assumes "suite_ok B s" "fits64 proof_bytes"
  shows "fst (bbs_verify_proof_bytes B proof_bytes public nonce s) =
     Ok (\<exists>p. sp_wf p \<and> sp_to_bytes p = proof_bytes \<and> selective_valid B p public nonce)"
  using assms by (rule verify_bytes_spec_aux)

theorem bbs_verify_bytes_spec_witness:
  "fst (bbs_verify_proof_bytes sum_backend [0, 0, 0, 1] [7] [9] (fresh_state 1)) =
     Ok (\<exists>p. sp_wf p \<and> sp_to_bytes p = [0, 0, 0, 1] \<and> selective_valid sum_backend p [7] [9])"
  by (rule bbs_verify_bytes_spec [OF sum_backend_suite_ok]) (simp add: fits64_def)

text \<open>The order in which the holder lists the revealed claims is irrelevant to
  \<open>verify_proof\<close>: any permutation of the list gives the same verdict.\<close>

theorem bbs_verify_reorder:
  assumes "suite_ok B s" "mset (sp_revealed p) = mset (sp_revealed q)"
    and "sp_message_count p = sp_message_count q" "sp_proof p = sp_proof q"
  shows "fst (bbs_verify_proof B p public nonce s) = fst (bbs_verify_proof B q public nonce s)"
  using verify_spec_aux [OF assms(1)] selective_valid_reorder [OF assms(2,3,4)] by simp

text \<open>C32: \<open>derive_proof\<close> never panics, whatever the claims, signature, indices and nonce, and when it
  succeeds it discloses exactly the requested claims: the disclosed pairs are the requested
  indices with their claims, in strictly increasing order and without repetition.\<close>

theorem bbs_derive_discloses:
  assumes "suite_ok B s"
  shows "no_panic (fst (bbs_derive_proof B claims sig reveal nonce s))
     \<and> (\<forall>p s'. bbs_derive_proof B claims sig reveal nonce s = (Ok p, s') \<longrightarrow>
          (\<lambda>(i, v). (unat i, v)) ` set (sp_revealed p) = (\<lambda>i. (i, claims ! i)) ` set reveal
          \<and> sorted_wrt (<) (map fst (sp_revealed p))
          \<and> unat (sp_message_count p) = length claims)"
proof -
  have "(\<lambda>(i, v). (unat i, v)) ` set (sp_revealed p) = (\<lambda>i. (i, claims ! i)) ` set reveal
      \<and> sorted_wrt (<) (map fst (sp_revealed p)) \<and> unat (sp_message_count p) = length claims"
    if p: "bbs_derive_proof B claims sig reveal nonce s = (Ok p, s')" for p s'
  proof -
    note f = derive_facts [OF p]
    have "sorted_wrt (<) (map fst (sp_revealed p))"
      using f disclosed_sorted [of reveal claims] by simp
    moreover have "unat (sp_message_count p) = length claims" using f by (simp add: unat_of_nat)
    ultimately show ?thesis using docknet.discloses_exactly [OF p] f by simp
  qed
  then show ?thesis using docknet.derive_no_panic [OF assms] by blast
qed

theorem bbs_derive_discloses_witness:
  "\<exists>p s'. bbs_derive_proof sum_backend [[1], [2], [3]] [13] [2, 0, 2] [9] (fresh_state 5) = (Ok p, s')
     \<and> (\<lambda>(i, v). (unat i, v)) ` set (sp_revealed p) = {(0, [1]), (2, [3])}
     \<and> unat (sp_message_count p) = 3"
proof -
  obtain p s' where p: "bbs_derive_proof sum_backend [[1], [2], [3]] [13] [2, 0, 2] [9] (fresh_state 5) = (Ok p, s')"
    by (simp add: bbs_derive_proof_def bind_s_def suite_params_def fresh_state_def params_for_def
        cache_get_def params_cache_def derive_params_def sum_backend_def deser_def byte_codec_def
        btree_set_def draw_or_def index_def ser_def triple_codec_def MAX_BBS_MESSAGES_def Let_def)
  with bbs_derive_discloses [OF sum_backend_suite_ok [of 5], of "[[1], [2], [3]]" "[13]" "[2, 0, 2]" "[9]"]
  have "(\<lambda>(i, v). (unat i, v)) ` set (sp_revealed p) = (\<lambda>i. (i, [[1], [2], [3]] ! i)) ` set [2, 0, 2]"
      "unat (sp_message_count p) = 3" by simp_all
  with p show ?thesis by (auto simp: insert_commute)
qed

text \<open>The challenge binds the contribution and the nonce: two presentations with the same
  challenge have the same contribution bytes and the same nonce, unless their framed
  preimages are a collision of the hash.\<close>

theorem challenge_binding:
  assumes "fits32 contribution" "fits32 nonce" "fits32 contribution'" "fits32 nonce'"
    and "challenge B contribution nonce = challenge B contribution' nonce'"
  shows "contribution = contribution' \<and> nonce = nonce'
     \<or> collision (bk_oracle B) (proof_transcript contribution nonce)
         (proof_transcript contribution' nonce')"
  using proof_transcript_framing.binding [of "(contribution, nonce)" "(contribution', nonce')"
      "bk_oracle B"] assms
  by (simp add: challenge_def)

end
