(* ===== verification/Phi_Vote_Props.thy ===== *)
theory Phi_Vote_Props
  imports Phi_Vote_Correct Phi_Bbs_Props
begin

section \<open>Properties of the vote proof\<close>

text \<open>
  The claims about \<open>voting_snark.rs\<close>. \<open>sample_vote\<close> extends the evaluating BBS+ backend by a
  group (bytes under addition, with 48-byte encodings) on which every law holds.
\<close>

subsection \<open>A vote backend that evaluates\<close>

definition point_codec :: "byte ark_codec" where
  "point_codec = \<lparr>serialize_compressed = (\<lambda>x. Some (x # replicate 47 0)),
     deserialize_compressed = (\<lambda>b. if 48 \<le> length b \<and> take 47 (tl b) = replicate 47 0
        then Some (hd b, drop 48 b) else None)\<rparr>"

definition dl_sample_codec :: "(byte, byte) PokDiscreteLog ark_codec" where
  "dl_sample_codec = \<lparr>serialize_compressed = (\<lambda>d. Some [dl_t d, dl_response d]),
     deserialize_compressed = (\<lambda>b. case b of x # y # s \<Rightarrow> Some (\<lparr>dl_t = x, dl_response = y\<rparr>, s) | _ \<Rightarrow> None)\<rparr>"

text \<open>The challenge of this backend is odd, hence never degenerate.\<close>

definition vote_bbs ::
    "(u32, byte, byte, byte, byte, byte, byte \<times> byte \<times> byte \<times> byte, byte \<times> byte \<times> byte) bbs_backend" where
  "vote_bbs = sum_backend\<lparr>bk_oracle := \<lambda>b. 2 * sum_list b + 1\<rparr>"

definition sample_vote ::
    "(u32, byte, byte, byte, byte, byte, byte \<times> byte \<times> byte \<times> byte, byte \<times> byte \<times> byte, byte) vote_backend" where
  "sample_vote =
    \<lparr>vb_bbs = vote_bbs, vb_mul = (*), vb_rand_fr = (\<lambda>r. (r, r + 1)),
     vb_hasher_new = (\<lambda>dst. Some (\<lambda>tag. Some (sum_list tag))),
     vb_g_codec = point_codec, vb_fr_codec = byte_codec, vb_dl_codec = dl_sample_codec\<rparr>"

lemma point_law_sample: "point_law point_codec"
proof -
  have "b = (hd b # replicate 47 0) @ drop 48 b" if "48 \<le> length b" "take 47 (tl b) = replicate 47 0" for b :: bytes
  proof -
    have "b = take 48 b @ drop 48 b" by simp
    moreover have "take 48 b = hd b # take 47 (tl b)" using that(1) by (cases b) simp_all
    ultimately show ?thesis using that(2) by simp
  qed
  then show ?thesis
    by (auto simp: point_law_def point_codec_def split: if_splits)
qed

lemma vote_bbs_laws: "backend_laws vote_bbs" "response_law vote_bbs"
proof -
  show "backend_laws vote_bbs"
    using sum_backend_laws
    by (simp add: vote_bbs_def backend_laws_def sign_law_def pok_law_def)
  show "response_law vote_bbs" by (auto simp: response_law_def vote_bbs_def sum_backend_def)
qed

lemma vote_bbs_oracle: "bk_oracle vote_bbs t \<noteq> 0"
proof
  assume "bk_oracle vote_bbs t = 0"
  moreover have "odd (bk_oracle vote_bbs t)" by (simp add: vote_bbs_def)
  ultimately show False by simp
qed

lemma sample_vote_law: "vote_law sample_vote"
proof -
  have "codec_law dl_sample_codec" by (simp add: codec_law_def dl_sample_codec_def)
  then show ?thesis
    using vote_bbs_laws point_law_sample codec_law_byte
    by (simp add: vote_law_def sample_vote_def group_law_def algebra_simps)
qed

lemma sample_vote_ok: "suite_ok (vb_bbs sample_vote) (fresh_state seed)"
  using sum_backend_suite_ok [of seed]
  by (simp add: sample_vote_def vote_bbs_def suite_ok_def params_law_def fresh_state_def)

subsection \<open>Binding\<close>

lemma bind_context_lp:
  "bind_context_preimage ch el n sg = BIND_DOMAIN @ lp64 ch @ lp64 el @ lp64 sg @ lp64 n"
  by (simp add: bind_context_preimage_def lp64_def)

interpretation ballot_framing: framing "\<lambda>(ch, el, n, sg). bind_context_preimage ch el n sg"
  "\<lambda>(ch, el, n, sg). fits64 ch \<and> fits64 el \<and> fits64 n \<and> fits64 sg"
proof
  fix x y :: "bytes \<times> bytes \<times> bytes \<times> bytes"
  assume "case x of (ch, el, n, sg) \<Rightarrow> fits64 ch \<and> fits64 el \<and> fits64 n \<and> fits64 sg"
    and "case y of (ch, el, n, sg) \<Rightarrow> fits64 ch \<and> fits64 el \<and> fits64 n \<and> fits64 sg"
    and "(case x of (ch, el, n, sg) \<Rightarrow> bind_context_preimage ch el n sg)
       = (case y of (ch, el, n, sg) \<Rightarrow> bind_context_preimage ch el n sg)"
  then show "x = y"
    by (cases x; cases y) (auto simp: bind_context_lp lp64.append_eq_iff dest: lp64.enc_inj)
qed

definition transcript_bytes :: "u32 \<Rightarrow> bytes \<Rightarrow> bytes \<Rightarrow> bytes \<Rightarrow> bytes \<Rightarrow> bytes" where
  "transcript_bytes mc pk b d ctx =
     lp32 CHALLENGE_DOMAIN @ u32_to_be_bytes mc @ lp32 pk @ lp32 b @ lp32 d @ lp32 ctx"

interpretation transcript_framing: framing "\<lambda>(mc, pk, b, d, ctx). transcript_bytes mc pk b d ctx"
  "\<lambda>(mc, pk, b, d, ctx). fits32 pk \<and> fits32 b \<and> fits32 d \<and> fits32 ctx"
proof
  fix x y :: "u32 \<times> bytes \<times> bytes \<times> bytes \<times> bytes"
  assume "case x of (mc, pk, b, d, ctx) \<Rightarrow> fits32 pk \<and> fits32 b \<and> fits32 d \<and> fits32 ctx"
    and "case y of (mc, pk, b, d, ctx) \<Rightarrow> fits32 pk \<and> fits32 b \<and> fits32 d \<and> fits32 ctx"
    and "(case x of (mc, pk, b, d, ctx) \<Rightarrow> transcript_bytes mc pk b d ctx)
       = (case y of (mc, pk, b, d, ctx) \<Rightarrow> transcript_bytes mc pk b d ctx)"
  then show "x = y"
    by (cases x; cases y)
      (auto simp: transcript_bytes_def be32.append_eq_iff lp32.append_eq_iff dest: lp32.enc_inj)
qed

lemma challenge_oracle:
  "compute_challenge B (Ok b) (Ok d) mc pk ch el nb sg = Ok c \<Longrightarrow>
     c = bk_oracle B (transcript_bytes mc pk b d (bind_context (bk_sha256 B) ch el nb sg)) \<and> c \<noteq> 0"
  by (auto simp: compute_challenge_def bind_r_Ok_iff vote_transcript_Ok transcript_bytes_def Let_def
      split: if_splits)

text \<open>A vote transcript starts with the length 17 of its domain, a presentation transcript with 16.\<close>

lemma transcripts_disjoint: "transcript_bytes mc pk b d ctx \<noteq> proof_transcript contribution nonce"
proof -
  have "fits32 CHALLENGE_DOMAIN" "fits32 PROOF_CHALLENGE_DOMAIN" "CHALLENGE_DOMAIN \<noteq> PROOF_CHALLENGE_DOMAIN"
    by (simp_all add: fits32_def CHALLENGE_DOMAIN_def PROOF_CHALLENGE_DOMAIN_def ascii_def)
  then show ?thesis
    by (simp add: transcript_bytes_def proof_transcript_def put_bytes_eq lp32.append_eq_iff)
qed

lemma prove_vote_disclosed:
  assumes "vo_message_count p = word_of_nat (length claims)" "vo_revealed p = disclosed claims reveal"
    and "claims \<noteq> []" "length claims \<le> 64" "\<forall>i \<in> set reveal. i < length claims" "0 \<notin> set reveal"
    and "vo_nullifier p \<noteq> 0" "fits32 (vo_bbs_proof p)" "fits32 (vo_dl_proof p)" "\<forall>c \<in> set claims. fits32 c"
  shows "vo_wf p"
proof -
  have u: "unat (word_of_nat i :: u32) = i" if "i \<in> set reveal" for i
    using disclosed_index [of reveal claims i] assms(4,5) that by simp
  have n: "unat (word_of_nat (length claims) :: u32) = length claims" using assms(4) by (simp add: unat_of_nat)
  have "fst e \<noteq> 0 \<and> fst e < vo_message_count p \<and> fits32 (snd e)" if e: "e \<in> set (vo_revealed p)" for e
  proof -
    obtain i where i: "i \<in> set reveal" "e = (word_of_nat i, claims ! i)"
      using e by (auto simp: assms(2) disclosed_def)
    have "i \<noteq> 0" using i(1) assms(6) by metis
    with i have "unat (fst e) = i" "i \<noteq> 0" "i < length claims" using u assms(5) by simp_all
    then show ?thesis using i(2) n assms(10) by (auto simp: assms(1) word_less_nat_alt)
  qed
  moreover have "length (vo_revealed p) \<le> length claims"
    using length_btree_set_bound [of reveal "length claims"] assms(5) by (simp add: assms(2) disclosed_def)
  moreover have "(word_of_nat (length claims) :: u32) \<noteq> 0" "(word_of_nat (length claims) :: u32) \<le> MAX_BBS_MESSAGES"
    using assms(3,4) n claim_count_nonzero [of claims] by (auto simp: word_le_nat_alt)
  ultimately show ?thesis
    using assms(4,7,8,9) n disclosed_sorted [of reveal claims] assms(5)
    by (simp add: vo_wf_def message_count_in_range_def assms(1,2))
qed

lemma issued_credential:
  assumes "backend_laws B" "suite_ok B si" "claims \<noteq> []" "length claims \<le> 64"
  shows "\<exists>kp si1 sg si2 params sk pk rng0 rng0' rng1 rng1' sig.
      bbs_generate_keypair B (word_of_nat (length claims)) si = (Ok kp, si1)
      \<and> bbs_sign_credential B claims (held (bkp_secret kp)) si1 = (Ok sg, si2)
      \<and> bk_params_new B PARAMS_LABEL (word_of_nat (length claims)) = Ok params
      \<and> bk_keygen B rng0 params = ((sk, pk), rng0')
      \<and> bk_sign B rng1 (map (claim_to_fr B) claims) sk params = (Some sig, rng1')
      \<and> deser (bk_sg_codec B) sg = Ok sig \<and> deser (bk_pk_codec B) (bkp_public kp) = Ok pk"
proof -
  let ?n = "word_of_nat (length claims) :: u32"
  have n: "?n \<noteq> 0" "?n \<le> MAX_BBS_MESSAGES"
    using assms(3,4) claim_count_nonzero [of claims] by (auto simp: word_le_nat_alt unat_of_nat)
  obtain kp si1 params sk pk rng' where g: "bbs_generate_keypair B ?n si = (Ok kp, si1)"
      "bk_params_new B PARAMS_LABEL ?n = Ok params" "bk_keygen B (ss_rng si) params = ((sk, pk), rng')"
      "deser (bk_sk_codec B) (held (bkp_secret kp)) = Ok sk" "deser (bk_pk_codec B) (bkp_public kp) = Ok pk"
    using generate_ok [OF assms(2,1) n] by blast
  have si1: "suite_ok B si1" using keepsD [OF generate_keeps assms(2), of ?n] g(1) by simp
  show ?thesis using sign_ok [OF si1 assms(1,3,4) g(2,3,4)] g by blast
qed

subsection \<open>Claims\<close>

text \<open>C2: casting a vote and counting it compose. For a credential issued over 1 to 64 claims, any
  request that leaves the voter secret hidden, and any states of issuer, voter and verifier,
  \<open>prove_vote\<close> returns a proof that \<open>verify_vote_proof\<close> accepts for the same chain, election and
  signal, and whose bytes \<open>verify_vote\<close> accepts when its fields fit a \<open>u32\<close> length. The only
  exceptions are the two degenerate values the code refuses: a nullifier that is the identity
  and a challenge that is zero.\<close>

theorem vote_roundtrip:
  assumes "vote_law V" "suite_ok (vb_bbs V) si" "suite_ok (vb_bbs V) sh" "suite_ok (vb_bbs V) sv"
    and "claims \<noteq> []" "length claims \<le> 64" "\<forall>i \<in> set reveal. i < length claims" "0 \<notin> set reveal"
  shows "\<exists>kp si1 sg si2 r sh1.
      bbs_generate_keypair (vb_bbs V) (word_of_nat (length claims)) si = (Ok kp, si1)
      \<and> bbs_sign_credential (vb_bbs V) claims (held (bkp_secret kp)) si1 = (Ok sg, si2)
      \<and> prove_vote V claims sg (bkp_public kp) reveal chain_id election_id signal sh = (r, sh1)
      \<and> ((\<exists>p. r = Ok p \<and> fst (verify_vote_proof V p (bkp_public kp) chain_id election_id signal sv) = Ok True
            \<and> (fits32 (vo_bbs_proof p) \<and> fits32 (vo_dl_proof p) \<and> (\<forall>c \<in> set claims. fits32 c) \<longrightarrow>
                 (\<exists>b. vs_to_bytes V p = Ok b
                    \<and> fst (verify_vote V b (bkp_public kp) chain_id election_id signal sv) = Ok True)))
         \<or> r = Err (InvalidInput ''nullifier is identity'')
             \<and> (\<exists>h_e. hash_to_g1 V election_id = Ok h_e
                  \<and> vb_mul V h_e (claim_to_fr (vb_bbs V) (claims ! 0)) = 0)
         \<or> r = Err (Backend ''degenerate challenge'') \<and> (\<exists>t. bk_oracle (vb_bbs V) t = 0))"
proof -
  have laws: "backend_laws (vb_bbs V)" "group_law (vb_mul V)" "point_law (vb_g_codec V)"
    using assms(1) by (simp_all add: vote_law_def)
  obtain kp si1 sg si2 params sk pk rng0 rng0' rng1 rng1' sig where c:
      "bbs_generate_keypair (vb_bbs V) (word_of_nat (length claims)) si = (Ok kp, si1)"
      "bbs_sign_credential (vb_bbs V) claims (held (bkp_secret kp)) si1 = (Ok sg, si2)"
      "bk_params_new (vb_bbs V) PARAMS_LABEL (word_of_nat (length claims)) = Ok params"
      "bk_keygen (vb_bbs V) rng0 params = ((sk, pk), rng0')"
      "bk_sign (vb_bbs V) rng1 (map (claim_to_fr (vb_bbs V)) claims) sk params = (Some sig, rng1')"
      "deser (bk_sg_codec (vb_bbs V)) sg = Ok sig" "deser (bk_pk_codec (vb_bbs V)) (bkp_public kp) = Ok pk"
    using issued_credential [OF laws(1) assms(2,5,6)] by blast
  obtain r sh1 where r: "prove_vote V claims sg (bkp_public kp) reveal chain_id election_id signal sh = (r, sh1)"
    by force
  have acc: "fst (verify_vote_proof V p (bkp_public kp) chain_id election_id signal sv) = Ok True
       \<and> (fits32 (vo_bbs_proof p) \<and> fits32 (vo_dl_proof p) \<and> (\<forall>c \<in> set claims. fits32 c) \<longrightarrow>
            (\<exists>b. vs_to_bytes V p = Ok b
               \<and> fst (verify_vote V b (bkp_public kp) chain_id election_id signal sv) = Ok True))"
    if p: "r = Ok p" and v: "vote_valid V p (bkp_public kp) chain_id election_id signal" for p
  proof (intro conjI impI)
    show "fst (verify_vote_proof V p (bkp_public kp) chain_id election_id signal sv) = Ok True"
      using verify_vote_proof_spec [OF assms(4)] v by simp
    assume "fits32 (vo_bbs_proof p) \<and> fits32 (vo_dl_proof p) \<and> (\<forall>c \<in> set claims. fits32 c)"
    then have wf: "vo_wf p"
      using prove_vote_facts [OF r [unfolded p] laws(2)] by (intro prove_vote_disclosed) auto
    have b: "vs_to_bytes V p = Ok (vo_enc V p)"
      using point_ser [OF laws(3), of "vo_nullifier p"] by (auto simp: vo_enc_def vs_to_bytes_eq)
    have "fst (verify_vote V (vo_enc V p) (bkp_public kp) chain_id election_id signal sv) = Ok True"
      using verify_vote_spec [OF assms(4) vo_enc_fits [OF laws(3) wf] laws(3)] wf b v by auto
    with b show "\<exists>b. vs_to_bytes V p = Ok b
        \<and> fst (verify_vote V b (bkp_public kp) chain_id election_id signal sv) = Ok True" by blast
  qed
  from vote_complete [OF assms(1,3,5,6,7,8) c(3,4,5,6,7), of chain_id election_id signal] r acc c(1,2)
  show ?thesis by auto
qed

lemma len_be64_one: "len_be64 (Suc 0) = [0, 0, 0, 0, 0, 0, 0, 1]"
  by code_simp

lemma sample_ballot_nonzero:
  "hash_to_g1 sample_vote [5] = Ok h_e \<Longrightarrow> vb_mul sample_vote h_e (claim_to_fr (vb_bbs sample_vote) [1]) \<noteq> 0"
  by (auto simp: hash_to_g1_def sample_vote_def vote_bbs_def sum_backend_def external_nullifier_def
      external_preimage_def claim_to_fr_def Let_def ascii_def len_be64_one)

text \<open>Every ballot of a voter with secret \<open>[1]\<close> in election \<open>[5]\<close> succeeds on the sample backend.\<close>

lemma sample_ballot:
  assumes "claims \<noteq> []" "length claims \<le> 64" "claims ! 0 = [1]"
    and "\<forall>i \<in> set reveal. i < length claims" "0 \<notin> set reveal"
  shows "\<exists>p s'. prove_vote sample_vote claims [k + sum_list (map (claim_to_fr vote_bbs) claims)] [k] reveal
     ch [5] sg (fresh_state seed) = (Ok p, s')"
proof -
  have n: "(word_of_nat (length claims) :: u32) \<noteq> 0" using assms(1,2) by (intro claim_count_nonzero) simp_all
  have ev: "bk_params_new (vb_bbs sample_vote) PARAMS_LABEL (word_of_nat (length claims)) = Ok (word_of_nat (length claims))"
    "bk_keygen (vb_bbs sample_vote) k (word_of_nat (length claims)) = ((k, k), k + 1)"
    "bk_sign (vb_bbs sample_vote) 0 (map (claim_to_fr (vb_bbs sample_vote)) claims) k (word_of_nat (length claims))
      = (Some (k + sum_list (map (claim_to_fr vote_bbs) claims)), 0)"
    "deser (bk_sg_codec (vb_bbs sample_vote)) [x] = Ok x" "deser (bk_pk_codec (vb_bbs sample_vote)) [x] = Ok x" for x
    using n by (simp_all add: sample_vote_def vote_bbs_def sum_backend_def deser_def byte_codec_def)
  have "\<And>t. bk_oracle (vb_bbs sample_vote) t \<noteq> 0" using vote_bbs_oracle by (simp add: sample_vote_def)
  then show ?thesis
    using vote_complete [OF sample_vote_law sample_vote_ok assms(1,2,4,5) ev(1,2,3) ev(4) ev(5),
        where chain_id = ch and election_id = "[5]" and signal = sg] sample_ballot_nonzero assms(3) by metis
qed

theorem vote_roundtrip_witness:
  "\<exists>kp si1 sg si2 p sh1.
      bbs_generate_keypair (vb_bbs sample_vote) 3 (fresh_state 7) = (Ok kp, si1)
      \<and> bbs_sign_credential (vb_bbs sample_vote) [[1], [2], [3]] (held (bkp_secret kp)) si1 = (Ok sg, si2)
      \<and> prove_vote sample_vote [[1], [2], [3]] sg (bkp_public kp) [2] [4] [5] [6] (fresh_state 5) = (Ok p, sh1)
      \<and> fst (verify_vote_proof sample_vote p (bkp_public kp) [4] [5] [6] (fresh_state 1)) = Ok True"
proof -
  have "\<And>t. bk_oracle (vb_bbs sample_vote) t \<noteq> 0" using vote_bbs_oracle by (simp add: sample_vote_def)
  then show ?thesis
    using vote_roundtrip [OF sample_vote_law sample_vote_ok [of 7] sample_vote_ok [of 5] sample_vote_ok [of 1],
        of "[[1], [2], [3]]" "[2]" "[4]" "[5]" "[6]"] sample_ballot_nonzero
    by (simp add: numeral_eq_Suc) metis
qed

text \<open>C3: the vote verifier is total and decides validity. In every state of the cache, on typed
  proofs and on bytes, it answers without an error or a panic; over bytes it accepts exactly
  the canonical encodings of valid well-formed proofs. \<open>vote_valid\<close> includes both proofs under
  the one recomputed challenge, the equality of their responses for the voter secret, a
  non-identity nullifier and a hidden voter secret.\<close>

theorem vote_verify_spec:
  assumes "suite_ok (vb_bbs V) s" "point_law (vb_g_codec V)" "fits64 b"
  shows "fst (verify_vote_proof V p issuer chain_id election_id signal s)
       = Ok (vote_valid V p issuer chain_id election_id signal)
     \<and> fst (verify_vote V b issuer chain_id election_id signal s)
       = Ok (\<exists>p. vo_wf p \<and> vs_to_bytes V p = Ok b \<and> vote_valid V p issuer chain_id election_id signal)"
  using verify_vote_proof_spec [OF assms(1)] verify_vote_spec [OF assms(1,3,2)] by simp

theorem vote_verify_spec_witness:
  "fst (verify_vote_proof sample_vote \<lparr>vo_message_count = 3, vo_revealed = [(0, [1])], vo_bbs_proof = [1, 2, 3],
       vo_dl_proof = [4, 5], vo_nullifier = 6\<rparr> [7] [4] [5] [6] (fresh_state 1)) = Ok False
   \<and> fst (verify_vote sample_vote [0, 0, 0, 1] [7] [4] [5] [6] (fresh_state 1)) = Ok False"
proof -
  have l: "point_law (vb_g_codec sample_vote)" using sample_vote_law by (simp add: vote_law_def)
  have "vs_to_bytes sample_vote p \<noteq> Ok [0, 0, 0, 1]" for p
  proof -
    obtain e where "ser (vb_g_codec sample_vote) (vo_nullifier p) = Ok e" using point_ser [OF l] by blast
    from vs_to_bytes_eq [OF this] show ?thesis by (auto dest!: arg_cong [where f = length])
  qed
  moreover have "\<not> vote_valid sample_vote \<lparr>vo_message_count = 3, vo_revealed = [(0, [1])], vo_bbs_proof = [1, 2, 3],
       vo_dl_proof = [4, 5], vo_nullifier = 6\<rparr> [7] [4] [5] [6]"
    by (simp add: vote_valid_def)
  ultimately show ?thesis
    using vote_verify_spec [OF sample_vote_ok l, of "[0, 0, 0, 1]"] by (simp add: fits64_def)
qed

text \<open>C9: one voter, one nullifier per election. Two successful \<open>prove_vote\<close> runs with the same voter
  secret (claim 0) and election carry the same nullifier, whatever the credential, issuer,
  other claims, disclosure, chain, vote and randomness; and neither reveals the voter secret.
  The prover itself never panics.\<close>

theorem vote_one_nullifier:
  assumes "group_law (vb_mul V)" "suite_ok (vb_bbs V) s" "claims ! 0 = claims' ! 0"
    and "prove_vote V claims sig issuer reveal chain_id election_id signal s = (Ok p, s1)"
    and "prove_vote V claims' sig' issuer' reveal' chain_id' election_id signal' s' = (Ok p', s1')"
  shows "vo_nullifier p = vo_nullifier p' \<and> vo_nullifier p \<noteq> 0
     \<and> 0 \<notin> fst ` set (vo_revealed p) \<and> 0 \<notin> fst ` set (vo_revealed p')
     \<and> no_panic (fst (prove_vote V claims sig issuer reveal chain_id election_id signal s))"
proof -
  have hidden: "0 \<notin> fst ` set (vo_revealed q)"
    if q: "prove_vote V cs sg iss rv ch el sgn t = (Ok q, t')" for cs sg iss rv ch el sgn t q t'
  proof -
    have "length cs \<le> 64" and r: "\<forall>i \<in> set rv. i < length cs" "0 \<notin> set rv" "vo_revealed q = disclosed cs rv"
      using prove_vote_facts [OF q assms(1)] by simp_all
    then have "unat (word_of_nat i :: u32) = i" if "i \<in> set rv" for i
      using disclosed_index [of rv cs i] that by simp
    with r(2,3) show ?thesis by (auto simp: disclosed_def) (metis unat_0)
  qed
  have "vo_nullifier p = vo_nullifier p' \<and> vo_nullifier p \<noteq> 0"
    using prove_vote_facts [OF assms(4,1)] prove_vote_facts [OF assms(5,1)] assms(3) by auto
  then show ?thesis
    using hidden [OF assms(4)] hidden [OF assms(5)] prove_vote_no_panic [OF assms(2)] by blast
qed

theorem vote_one_nullifier_witness:
  "\<exists>p s1 p' s1'.
      prove_vote sample_vote [[1], [2], [3]] [13] [7] [2] [4] [5] [6] (fresh_state 5) = (Ok p, s1)
      \<and> prove_vote sample_vote [[1], [9]] [18] [8] [] [0] [5] [1] (fresh_state 0) = (Ok p', s1')
      \<and> vo_nullifier p = vo_nullifier p' \<and> 0 \<notin> fst ` set (vo_revealed p)"
proof -
  have c: "claim_to_fr vote_bbs [x] = x" for x by (simp add: claim_to_fr_def vote_bbs_def sum_backend_def)
  obtain p s1 where p: "prove_vote sample_vote [[1], [2], [3]] [13] [7] [2] [4] [5] [6] (fresh_state 5) = (Ok p, s1)"
    using sample_ballot [of "[[1], [2], [3]]" "[2]" 7 "[4]" "[6]" 5] by (auto simp: c)
  obtain p' s1' where p': "prove_vote sample_vote [[1], [9]] [18] [8] [] [0] [5] [1] (fresh_state 0) = (Ok p', s1')"
    using sample_ballot [of "[[1], [9]]" "[]" 8 "[0]" "[1]" 0] by (auto simp: c)
  have g: "group_law (vb_mul sample_vote)" using sample_vote_law by (simp add: vote_law_def)
  have e: "[[1], [2], [3]] ! 0 = [[1], [9 :: byte]] ! 0" by simp
  from vote_one_nullifier [OF g sample_vote_ok e p p'] p p' show ?thesis by blast
qed

text \<open>C7: the vote proof's wire format is canonical. \<open>from_bytes\<close> never panics and accepts exactly the
  encodings \<open>to_bytes\<close> produces for well-formed proofs: decoding inverts encoding, an accepted
  buffer re-encodes to itself, and no proper prefix or extension of it is accepted.\<close>

theorem vote_decode_canonical:
  assumes "point_law (vb_g_codec V)" "fits64 b"
  shows "no_panic (vs_from_bytes V b)
     \<and> (vs_from_bytes V b = Ok p \<longleftrightarrow> vo_wf p \<and> vs_to_bytes V p = Ok b)
     \<and> (vs_from_bytes V b = Ok p \<longrightarrow> n < length b \<longrightarrow> ok (vs_from_bytes V (take n b)) = None)
     \<and> (vs_from_bytes V b = Ok p \<longrightarrow> s \<noteq> [] \<longrightarrow> fits64 (b @ s) \<longrightarrow> ok (vs_from_bytes V (b @ s)) = None)"
proof -
  note canon = vote_canonical [OF assms(1)]
  have "vs_to_bytes V p = Ok (vo_enc V p)"
    using point_ser [OF assms(1), of "vo_nullifier p"] by (auto simp: vo_enc_def vs_to_bytes_eq)
  then have "vs_from_bytes V b = Ok p \<longleftrightarrow> vo_wf p \<and> vs_to_bytes V p = Ok b"
    using vs_from_bytes_sound [OF assms] vs_from_bytes_complete [OF assms(1)] by auto
  then show ?thesis
    using vs_from_bytes_no_panic [OF assms(2)] canonical_codec.rejects_truncated [OF canon assms(2)]
      canonical_codec.rejects_trailing [OF canon] by auto
qed

theorem vote_decode_canonical_witness:
  "let p = \<lparr>vo_message_count = 3, vo_revealed = [(1, [7])], vo_bbs_proof = [1, 2, 3], vo_dl_proof = [4, 5],
              vo_nullifier = 6\<rparr>;
       b = vo_enc sample_vote p in
   vs_from_bytes sample_vote b = Ok p \<and> ok (vs_from_bytes sample_vote (take 10 b)) = None
   \<and> ok (vs_from_bytes sample_vote (b @ [0])) = None"
proof -
  define p where "p = \<lparr>vo_message_count = 3, vo_revealed = [(1 :: u32, [7])], vo_bbs_proof = [1, 2, 3 :: byte],
      vo_dl_proof = [4, 5], vo_nullifier = 6 :: byte\<rparr>"
  have l: "point_law (vb_g_codec sample_vote)" using sample_vote_law by (simp add: vote_law_def)
  have wf: "vo_wf p" by (simp add: p_def vo_wf_def message_count_in_range_def fits32_def MAX_BBS_MESSAGES_def)
  have b: "vs_to_bytes sample_vote p = Ok (vo_enc sample_vote p)" "length (vo_enc sample_vote p) = 82"
    by (simp_all add: vo_enc_def vs_to_bytes_def p_def ser_def sample_vote_def point_codec_def vs_put_bytes_eq put_bytes_eq)
  from vote_decode_canonical [OF l, of "vo_enc sample_vote p" p 10 "[0]"] wf b
  show ?thesis unfolding p_def [symmetric] by (simp add: Let_def fits64_def)
qed

text \<open>C10: the Fiat-Shamir challenge binds the whole ballot. Two votes with the same challenge agree on
  the credential size, the issuer key, both provers' commitments, the chain, the election, the
  nullifier and the signal, or they exhibit a collision, of the challenge's hash or of SHA-256
  on the ballot context. A vote challenge never shares its preimage with a selective-disclosure
  presentation, so a proof of one kind cannot be replayed as the other.\<close>

theorem vote_challenge_binding:
  assumes "\<forall>x. length (bk_sha256 B x) = 32" "fits32 pk" "fits32 b" "fits32 d" "fits32 pk'" "fits32 b'" "fits32 d'"
    and "fits64 ch" "fits64 el" "fits64 nb" "fits64 sg" "fits64 ch'" "fits64 el'" "fits64 nb'" "fits64 sg'"
    and "compute_challenge B (Ok b) (Ok d) mc pk ch el nb sg = Ok c"
    and "compute_challenge B (Ok b') (Ok d') mc' pk' ch' el' nb' sg' = Ok c"
  shows "((mc, pk, b, d) = (mc', pk', b', d')
            \<and> ((ch, el, nb, sg) = (ch', el', nb', sg')
               \<or> collision (bk_sha256 B) (bind_context_preimage ch el nb sg) (bind_context_preimage ch' el' nb' sg'))
          \<or> collision (bk_oracle B) (transcript_bytes mc pk b d (bind_context (bk_sha256 B) ch el nb sg))
              (transcript_bytes mc' pk' b' d' (bind_context (bk_sha256 B) ch' el' nb' sg')))
     \<and> c \<noteq> 0 \<and> (c = challenge B contribution nonce \<longrightarrow>
          collision (bk_oracle B) (transcript_bytes mc pk b d (bind_context (bk_sha256 B) ch el nb sg))
            (proof_transcript contribution nonce))
     \<and> vote_transcript (bk_sha256 B) (Ok b) (Ok d) mc pk ch el nb sg
         = Ok (transcript_bytes mc pk b d (bind_context (bk_sha256 B) ch el nb sg))"
proof -
  define t where "t = transcript_bytes mc pk b d (bind_context (bk_sha256 B) ch el nb sg)"
  define t' where "t' = transcript_bytes mc' pk' b' d' (bind_context (bk_sha256 B) ch' el' nb' sg')"
  have c: "c = bk_oracle B t" "c \<noteq> 0" "c = bk_oracle B t'"
    using challenge_oracle [OF assms(16)] challenge_oracle [OF assms(17)] unfolding t_def t'_def by blast+
  have f: "fits32 (bind_context (bk_sha256 B) x y z w)" for x y z w
    using assms(1) by (simp add: bind_context_def fits32_def)
  have "t = t' \<or> collision (bk_oracle B) t t'" using c by (auto simp: collision_def)
  moreover have "(mc, pk, b, d) = (mc', pk', b', d')
      \<and> bind_context (bk_sha256 B) ch el nb sg = bind_context (bk_sha256 B) ch' el' nb' sg'" if "t = t'"
    using transcript_framing.enc_inj
      [where x = "(mc, pk, b, d, bind_context (bk_sha256 B) ch el nb sg)"
         and y = "(mc', pk', b', d', bind_context (bk_sha256 B) ch' el' nb' sg')"]
      that assms(2-7) f by (simp add: t_def t'_def)
  moreover have "(ch, el, nb, sg) = (ch', el', nb', sg')
      \<or> collision (bk_sha256 B) (bind_context_preimage ch el nb sg) (bind_context_preimage ch' el' nb' sg')"
    if "bind_context (bk_sha256 B) ch el nb sg = bind_context (bk_sha256 B) ch' el' nb' sg'"
    using ballot_framing.binding [where x = "(ch, el, nb, sg)" and y = "(ch', el', nb', sg')" and H = "bk_sha256 B"]
      that assms(8-15) by (simp add: bind_context_def)
  moreover have "collision (bk_oracle B) t (proof_transcript contribution nonce)"
    if "c = challenge B contribution nonce"
    using that c(1) transcripts_disjoint unfolding t_def by (simp add: collision_def challenge_def)
  moreover have "vote_transcript (bk_sha256 B) (Ok b) (Ok d) mc pk ch el nb sg = Ok t"
    by (simp add: vote_transcript_Ok t_def transcript_bytes_def)
  ultimately show ?thesis using c(2) unfolding t_def [symmetric] t'_def [symmetric] by blast
qed

theorem vote_challenge_binding_witness:
  "collision (bk_oracle (vote_bbs\<lparr>bk_sha256 := sample_hash\<rparr>))
     (transcript_bytes 3 [7] [1] [2] (bind_context sample_hash [4] [5] [6] [8]))
     (transcript_bytes 3 [7] [2] [1] (bind_context sample_hash [4] [5] [6] [8]))"
proof -
  let ?B = "vote_bbs\<lparr>bk_sha256 := sample_hash\<rparr>"
  let ?c = "\<lambda>x y. compute_challenge ?B (Ok [x]) (Ok [y]) 3 [7] [4] [5] [6] [8]"
  have l: "\<forall>x. length (bk_sha256 ?B x) = 32" by simp
  have f: "fits32 [x]" "fits64 [x]" for x by (simp_all add: fits32_def fits64_def)
  have o: "bk_oracle ?B t = bk_oracle vote_bbs t" for t by simp
  have ok: "?c x y = Ok (bk_oracle ?B (transcript_bytes 3 [7] [x] [y] (bind_context sample_hash [4] [5] [6] [8])))" for x y
    using vote_bbs_oracle
    by (simp add: compute_challenge_def vote_transcript_def Let_def vs_put_bytes_eq put_bytes_eq transcript_bytes_def)
  have "?c 1 2 = ?c 2 1"
    unfolding ok by (simp add: vote_bbs_def transcript_bytes_def lp32_def)
  from vote_challenge_binding [OF l f(1) f(1) f(1) f(1) f(1) f(1) f(2) f(2) f(2) f(2) f(2) f(2) f(2) f(2)
      ok [of 1 2] this [symmetric, unfolded ok [of 1 2]]]
  show ?thesis by simp
qed

end
