(* ===== verification/Phi_Ffi_Props.thy ===== *)
theory Phi_Ffi_Props
  imports Phi_Ffi Phi_Vote_Props
begin

section \<open>Properties of the C boundary\<close>

text \<open>
  The claims about \<open>ffi.rs\<close>: each follows from the interface \<open>verifier_export\<close> or from the laws
  of memory, and holds for builds that unwind and for builds that abort. The examples run over a memory of 255 bytes, each holding its own address.
\<close>

definition scratch_memory :: memory where
  "scratch_memory a = (if 0 < unat a \<and> unat a < 256 then Some (word_of_nat (unat a)) else None)"

lemma scratch_readable: "0 < unat ptr \<Longrightarrow> unat ptr + len \<le> 256 \<Longrightarrow> readable scratch_memory ptr len"
proof -
  assume p: "0 < unat ptr" "unat ptr + len \<le> 256"
  have "unat (ptr + word_of_nat i) = unat ptr + i" if "i < len" for i
    using p(2) that by (subst unat_add_lem [THEN iffD1]) (simp_all add: unat_of_nat)
  then show ?thesis
    using p by (auto simp: readable_def list_all_iff region_def scratch_memory_def)
qed

lemma scratch_valid: "ptr = 0 \<or> unat ptr + len \<le> 256 \<Longrightarrow> valid_arg scratch_memory (ptr, len)"
  using scratch_readable [of ptr len] by (auto simp: valid_arg_def unat_gt_0)

subsection \<open>The run of the writing export\<close>

lemma compute_nullifier_run:
  assumes "\<forall>x. length (sha256 x) = 32" "valid_arg mem (sec, secn)" "valid_arg mem (tp, tpn)"
    and "out_len < 32 \<or> out = 0 \<or> readable mem out out_len"
  shows "phi_compute_nullifier ps sha256 sec secn tp tpn out out_len mem =
     (if out = 0 \<or> out_len < 32 then (Ok 0, mem)
      else case (view mem (sec, secn), view mem (tp, tpn)) of
        (Some sb, Some tb) \<Rightarrow> (Ok 1, write_raw mem out (compute_nullifier sha256 sb tb))
      | _ \<Rightarrow> (Ok 0, mem))"
proof (cases "out = 0 \<or> out_len < 32")
  case False
  then have "readable mem out 32" using assms(4) readable_take [of mem out out_len 32] by auto
  then show ?thesis
    using assms False
    by (auto simp: phi_compute_nullifier_def guard_def ret_def NULLIFIER_LEN_def as_slice_view copy_from_slice_def
        compute_nullifier_def Let_def split: option.split)
qed (simp add: phi_compute_nullifier_def guard_def ret_def NULLIFIER_LEN_def)

subsection \<open>Claims\<close>

text \<open>C5: the C boundary of the vote verifier. For readable arguments (null pointers included) and any
  cache state, whether a panic unwinds or aborts, \<open>phi_voting_verify_vote_v1\<close> has no undefined behaviour, does not panic, and returns
  1 exactly when every argument is present, the proof bytes are the canonical encoding of a
  valid vote proof for that chain, election and signal, and the supplied nullifier is the
  48-byte encoding of the one the proof is bound to; it returns 0 in every other case.\<close>

theorem ffi_vote_decides:
  assumes "point_law (vb_g_codec V)" "suite_ok (vb_bbs V) s"
    and "valid_arg mem (p, pn)" "valid_arg mem (pk, pkn)" "valid_arg mem (ch, chn)"
    and "valid_arg mem (el, eln)" "valid_arg mem (null, nulln)" "valid_arg mem (sg, sgl)"
  shows "fst (phi_voting_verify_vote_v1 ps V mem p pn pk pkn ch chn el eln null nulln sg sgl s)
     = Ok (if \<exists>pb pkb cb eb nb sb q.
              view mem (p, pn) = Some pb \<and> view mem (pk, pkn) = Some pkb \<and> view mem (ch, chn) = Some cb
              \<and> view mem (el, eln) = Some eb \<and> view mem (null, nulln) = Some nb \<and> view mem (sg, sgl) = Some sb
              \<and> vo_wf q \<and> vs_to_bytes V q = Ok pb \<and> ser (vb_g_codec V) (vo_nullifier q) = Ok nb
              \<and> vote_valid V q pkb cb eb sb
           then 1 else 0)"
proof -
  let ?args = "[(p, pn), (pk, pkn), (ch, chn), (el, eln), (null, nulln), (sg, sgl)]"
  have "vote_accepts V (map (view mem) ?args) \<longleftrightarrow> (\<exists>pb pkb cb eb nb sb q.
              view mem (p, pn) = Some pb \<and> view mem (pk, pkn) = Some pkb \<and> view mem (ch, chn) = Some cb
              \<and> view mem (el, eln) = Some eb \<and> view mem (null, nulln) = Some nb \<and> view mem (sg, sgl) = Some sb
              \<and> vo_wf q \<and> vs_to_bytes V q = Ok pb \<and> ser (vb_g_codec V) (vo_nullifier q) = Ok nb
              \<and> vote_valid V q pkb cb eb sb)"
    by (auto elim!: vote_accepts.elims(2))
  then show ?thesis
    using vote_export_decides [OF assms(1,2), of ?args mem] assms(3-8) by (simp add: of_bool_i32_def)
qed

theorem ffi_vote_decides_witness:
  "fst (phi_voting_verify_vote_v1 Abort sample_vote scratch_memory 16 4 32 1 48 2 64 1 0 48 80 1 (fresh_state 1)) = Ok 0"
proof -
  have l: "point_law (vb_g_codec sample_vote)" using sample_vote_law by (simp add: vote_law_def)
  have n: "view scratch_memory (0, 48) = None" by (simp add: view_def)
  show ?thesis
    by (subst ffi_vote_decides [OF l sample_vote_ok scratch_valid scratch_valid scratch_valid scratch_valid
          scratch_valid scratch_valid]) (simp_all add: n)
qed

text \<open>Writing a nullifier. \<open>phi_compute_nullifier\<close> refuses a null or short output buffer and a null
  input, leaving memory as it was; otherwise it returns 1, the 32 bytes at \<open>out\<close> are the
  nullifier of the inputs as they were before the call (also when the output overlaps an
  input), and no other address changes.\<close>

theorem ffi_nullifier_writes:
  assumes "\<forall>x. length (sha256 x) = 32" "valid_arg mem (sec, secn)" "valid_arg mem (tp, tpn)"
    and "out_len < 32 \<or> out = 0 \<or> readable mem out out_len"
    and "phi_compute_nullifier ps sha256 sec secn tp tpn out out_len mem = (r, mem')"
  shows "(r = Ok 0 \<and> mem' = mem \<and> (out = 0 \<or> out_len < 32 \<or> view mem (sec, secn) = None \<or> view mem (tp, tpn) = None))
     \<or> (r = Ok 1 \<and> out \<noteq> 0 \<and> 32 \<le> out_len
        \<and> (\<exists>sb tb. view mem (sec, secn) = Some sb \<and> view mem (tp, tpn) = Some tb
             \<and> contents mem' out 32 = compute_nullifier sha256 sb tb)
        \<and> (\<forall>a. a \<notin> set (region out 32) \<longrightarrow> mem' a = mem a))"
proof -
  have run: "(r, mem') = (if out = 0 \<or> out_len < 32 then (Ok 0, mem)
      else case (view mem (sec, secn), view mem (tp, tpn)) of
        (Some sb, Some tb) \<Rightarrow> (Ok 1, write_raw mem out (compute_nullifier sha256 sb tb))
      | _ \<Rightarrow> (Ok 0, mem))"
    using compute_nullifier_run [OF assms(1-4)] assms(5) by simp
  have n: "length (compute_nullifier sha256 sb tb) = 32" for sb tb
    using assms(1) by (simp add: compute_nullifier_def)
  have inside: "contents (write_raw mem out (compute_nullifier sha256 sb tb)) out 32 = compute_nullifier sha256 sb tb"
    if "out \<noteq> 0" "\<not> out_len < 32" for sb tb
    using write_raw_inside [of out "compute_nullifier sha256 sb tb" mem] n that assms(4) by (auto simp: readable_def)
  have outside: "\<forall>a. a \<notin> set (region out 32) \<longrightarrow> write_raw mem out (compute_nullifier sha256 sb tb) a = mem a" for sb tb
    using write_raw_outside [of _ out "compute_nullifier sha256 sb tb" mem] n by simp
  show ?thesis
    using run inside outside by (auto split: if_splits option.splits)
qed

text \<open>C17: every verifying export fails closed. Whatever the bytes, in any cache state, for readable
  arguments, and also in a build where a panic aborts, so that \<open>guard\<close> hides nothing: each of the six
  exports returns 0 or 1, never another value, a panic or undefined behaviour. A null pointer
  with a non-zero length in any position gives 0. A null pointer with length 0 is an empty slice:
  putting it for the pointer of every empty argument does not change the result.\<close>

theorem ffi_exports_fail_closed:
  assumes "point_law (vb_g_codec V)" "suite_ok (vb_bbs V) s"
    and "list_all (valid_arg mem) args" "(export, n) \<in> {(bbs_export ps (vb_bbs V), 3), (signature_export ps C c, 3),
          (webauthn_export ps W uv, 7), (b23_export ps I, 5), (semaphore_export ps (vb_bbs V), 5), (vote_export ps V, 6)}"
    and "length args = n"
  shows "fst (export mem args s) \<in> {Ok 0, Ok 1}
     \<and> ((0, len) \<in> set args \<and> len \<noteq> 0 \<longrightarrow> fst (export mem args s) = Ok 0)
     \<and> fst (export mem (map (\<lambda>(p, l). if l = 0 then (0, 0) else (p, l)) args) s) = fst (export mem args s)"
proof -
  obtain st_ok accepts where v: "verifier_export export n st_ok accepts" "st_ok s"
    using assms(4)
  proof (elim insertE emptyE)
    assume "(export, n) = (vote_export ps V, 6)"
    with vote_verifier [OF assms(1)] assms(2) show thesis
      using that [of "suite_ok (vb_bbs V)" "vote_accepts V"] by simp
  next
    assume "(export, n) = (semaphore_export ps (vb_bbs V), 5)"
    with c_semaphore.verifier_export_axioms [of ps "vb_bbs V"] assms(2) show thesis
      using that [of "suite_ok (vb_bbs V)" "semaphore_accepts (vb_bbs V)"] by simp
  next
    assume "(export, n) = (bbs_export ps (vb_bbs V), 3)"
    with c_bbs.verifier_export_axioms [of ps "vb_bbs V"] assms(2) show thesis
      using that [of "suite_ok (vb_bbs V)" "bbs_accepts (vb_bbs V)"] by simp
  next
    assume "(export, n) = (signature_export ps C c, 3)"
    with c_signature.verifier_export_axioms [of ps C c] show thesis
      using that [of "\<lambda>_. True" "signature_accepts C c"] by simp
  next
    assume "(export, n) = (webauthn_export ps W uv, 7)"
    with c_webauthn.verifier_export_axioms [of ps W uv] show thesis
      using that [of "\<lambda>_. True" "webauthn_accepts W uv"] by simp
  next
    assume "(export, n) = (b23_export ps I, 5)"
    with c_b23.verifier_export_axioms [of ps I] show thesis
      using that [of "\<lambda>_. True" "b23_accepts I"] by simp
  qed
  let ?null = "\<lambda>(p, l). if l = 0 then (0, 0) else (p, l)"
  have e: "list_all (valid_arg mem) (map ?null args)" "map (view mem) (map ?null args) = map (view mem) args"
    using assms(3) by (fastforce simp: list_all_iff valid_arg_def view_def split: if_splits)+
  have "fst (export mem (map ?null args) s) = fst (export mem args s)"
    by (rule verifier_export.memory_local [OF v v(2)]) (use assms(3,5) e in simp_all)
  then show ?thesis
    using verifier_export.returns_bit [OF v assms(5,3)] verifier_export.null_rejected [OF v assms(5,3)] by blast
qed

text \<open>A null key with a length is refused; an empty challenge may be null.\<close>

theorem ffi_exports_fail_closed_witness:
  "fst (webauthn_export Abort sample_webauthn 1 scratch_memory
      [(1, 37), (40, 2), (50, 64), (120, 3), (0, 33), (130, 4), (140, 4)] (fresh_state 1)) = Ok 0
   \<and> fst (webauthn_export Abort sample_webauthn 1 scratch_memory
      [(1, 37), (40, 2), (50, 64), (0, 0), (160, 33), (130, 4), (140, 4)] (fresh_state 1))
     = fst (webauthn_export Abort sample_webauthn 1 scratch_memory
      [(1, 37), (40, 2), (50, 64), (120, 0), (160, 33), (130, 4), (140, 4)] (fresh_state 1))"
proof -
  have l: "point_law (vb_g_codec sample_vote)" using sample_vote_law by (simp add: vote_law_def)
  have a: "list_all (valid_arg scratch_memory) [(1, 37), (40, 2), (50, 64), (120, 3), (0, 33), (130, 4), (140, 4)]"
    by (simp add: scratch_valid)
  have b: "list_all (valid_arg scratch_memory) [(1, 37), (40, 2), (50, 64), (120, 0), (160, 33), (130, 4), (140, 4)]"
    by (simp add: scratch_valid)
  show ?thesis
    using ffi_exports_fail_closed [OF l sample_vote_ok [of 1] b, where ps = Abort and export = "webauthn_export Abort sample_webauthn 1"
        and n = 7 and C = sample_curves and c = 0 and W = sample_webauthn and uv = 1 and I = sample_irtf and len = 33]
      ffi_exports_fail_closed [OF l sample_vote_ok [of 1] a, where ps = Abort and export = "webauthn_export Abort sample_webauthn 1"
        and n = 7 and C = sample_curves and c = 0 and W = sample_webauthn and uv = 1 and I = sample_irtf and len = 33]
    by simp
qed

text \<open>\<open>phi_webauthn_verify\<close> returns 1 exactly for an assertion the relying party must accept: origin
  and relying-party id valid UTF-8, the client data and authenticator data as \<open>assertion_ok\<close>
  demands for the challenge, origin and id, and user verification whenever \<open>require_uv\<close> is
  any non-zero value.\<close>

theorem ffi_webauthn_decides:
  assumes "list_all (valid_arg mem) [(ad, adn), (cd, cdn), (sg, sgl), (ch, chn), (pk, pkn), (org, orgn), (rp, rpn)]"
    and "map (view mem) [(ad, adn), (cd, cdn), (sg, sgl), (ch, chn), (pk, pkn), (org, orgn), (rp, rpn)]
       = map Some [adb, cdb, sgb, chb, pkb, orgb, rpb]"
  shows "fst (phi_webauthn_verify ps W mem ad adn cd cdn sg sgl ch chn pk pkn org orgn rp rpn uv s) = Ok 1 \<longleftrightarrow>
     from_utf8 orgb \<noteq> None \<and> from_utf8 rpb \<noteq> None
     \<and> assertion_ok W \<lparr>wa_authenticator_data = adb, wa_client_data_json = cdb, wa_signature = sgb\<rparr>
          chb pkb orgb rpb (uv \<noteq> 0)"
  using c_webauthn.accepts_iff [OF TrueI _ assms(1), of ps W uv s] assms(2) by simp

text \<open>The list of revealed messages of \<open>phi_bbs2023_verify_proof\<close> has one encoding: \<open>decode_revealed\<close>
  never panics and accepts exactly the encodings of at most 64 messages with strictly
  increasing indices, so no two byte strings stand for the same list, and bytes added or cut
  off are refused.\<close>

theorem decode_revealed_canonical:
  assumes "fits64 b"
  shows "no_panic (decode_revealed b)
     \<and> (decode_revealed b = Ok es \<longleftrightarrow> revealed_wf es \<and> encode_revealed es = b)
     \<and> (decode_revealed b = Ok es \<and> n < length b \<longrightarrow> decode_revealed (take n b) = Err ())
     \<and> (decode_revealed b = Ok es \<and> extra \<noteq> [] \<and> fits64 (b @ extra) \<longrightarrow> decode_revealed (b @ extra) = Err ())"
proof -
  have err: "ok (decode_revealed c) = None \<Longrightarrow> decode_revealed c = Err ()" if "fits64 c" for c
    using decode_revealed_no_panic [OF that] by (cases "decode_revealed c") auto
  have "fits64 (take n b)" using assms by (simp add: fits64_def)
  then show ?thesis
    using decode_revealed_no_panic [OF assms] rvc.decode_iff [OF assms, of es] rvc.rejects_truncated [OF assms, of es n]
      rvc.rejects_trailing [of b extra es] err by auto
qed

end
