(* ===== verification/Phi_Surfaces.thy ===== *)
theory Phi_Surfaces
  imports Phi_Bindings Phi_Ffi_Props
begin

section \<open>One core behind three boundaries\<close>

text \<open>
  The browser, the mobile app and the chain node reach the core through \<open>wasm.rs\<close>, \<open>api.rs\<close>
  and \<open>ffi.rs\<close>. The claims here say that the three boundaries agree: the same inputs give the
  same outcome, whichever boundary they cross.
\<close>

lemma err_with_js: "err_with js_error r = err_with JsString (err_with display r)"
  by (simp add: err_with_comp js_error_display)

lemma with_err_js: "with_err js_error m s = with_err JsString (with_err display m) s"
  by (cases "m s") (simp add: with_err_def err_with_js)

lemma and_then_js:
  "and_then (with_err js_error m) (\<lambda>x. Ok (g x)) s
     = with_err JsString (and_then (with_err display m) (\<lambda>x. Ok (g x))) s"
  by (cases "m s"; cases "fst (m s)") (auto simp: and_then_def with_err_def js_error_def)

lemma wasm_sign_fl: "wasm_sign C c secret msg = err_with JsString (fl_sign C c secret msg)"
  by (simp add: wasm_sign_def fl_sign_def wasm_curve err_with_bind err_with_js)

lemma wasm_did_fl: "wasm_did_from_public sha256 C c pk = err_with JsString (fl_did_from_public sha256 C c pk)"
  by (simp add: wasm_did_from_public_def fl_did_from_public_def wasm_curve err_with_bind err_with_js)

lemma curve_codes:
  "fl_curve_from_code c = (case curve_from_code c of Some curve \<Rightarrow> Ok curve
     | None \<Rightarrow> Err ''curve code must be 0 (secp256k1) or 1 (secp256r1)'')"
  by (simp add: fl_curve_from_code_def curve_from_code_def)

lemma verify_signature_curve:
  "fl_verify_signature C c pk m sg \<longleftrightarrow> (\<exists>curve. curve_from_code c = Some curve \<and> did_verify C curve pk m sg)"
  "wasm_verify_signature C c pk m sg \<longleftrightarrow> (\<exists>curve. curve_from_code c = Some curve \<and> did_verify C curve pk m sg)"
  by (auto simp: fl_verify_signature_def wasm_verify_signature_def wasm_curve curve_codes split: option.split)

subsection \<open>Claims\<close>

text \<open>The browser and the mobile surface are the same program. On the same inputs (claims as
  \<open>Uint8Array\<close>s, the same generator and cache), signing, DID derivation, credential signing,
  proof derivation and vote proving return the same value or the same error text, leave the
  same state, and hand out the same key bytes; and the browser's claim array is accepted exactly
  when every element is a \<open>Uint8Array\<close>, and then unchanged.\<close>

theorem surfaces_agree:
  "wasm_sign C c secret msg = err_with JsString (fl_sign C c secret msg)
   \<and> wasm_did_from_public sha256 C c pk = err_with JsString (fl_did_from_public sha256 C c pk)
   \<and> wasm_bbs_sign_credential B (map JsUint8Array claims) secret s
       = with_err JsString (fl_bbs_sign_credential B claims secret) s
   \<and> wasm_bbs_derive_proof B (map JsUint8Array claims) sig reveal nonce s
       = with_err JsString (fl_bbs_derive_proof B claims sig reveal nonce) s
   \<and> wasm_vote_prove V (map JsUint8Array claims) sig pk reveal ch el sg t
       = with_err JsString (fl_vote_prove V claims sig pk reveal ch el sg) t
   \<and> wasm_semaphore_bind_nonce sha256 el n sg = fl_semaphore_bind_nonce sha256 el n sg
   \<and> wasm_bbs_generate_keypair B mc s
       = map_prod (\<lambda>r. case r of Ok kp \<Rightarrow> Ok \<lparr>wbk_secret = pbk_secret kp, wbk_public = pbk_public kp\<rparr>
                              | Err e \<Rightarrow> Err (JsString e) | Panic \<Rightarrow> Panic) id (fl_bbs_generate_keypair B mc s)
   \<and> (claims_from_array vs = Ok cs \<longleftrightarrow> vs = map JsUint8Array cs)"
proof -
  have "wasm_bbs_generate_keypair B mc s
       = map_prod (\<lambda>r. case r of Ok kp \<Rightarrow> Ok \<lparr>wbk_secret = pbk_secret kp, wbk_public = pbk_public kp\<rparr>
                              | Err e \<Rightarrow> Err (JsString e) | Panic \<Rightarrow> Panic) id (fl_bbs_generate_keypair B mc s)"
    by (cases "bbs_generate_keypair B mc s"; cases "fst (bbs_generate_keypair B mc s)")
      (auto simp: wasm_bbs_generate_keypair_def fl_bbs_generate_keypair_def and_then_def with_err_def js_error_def)
  then show ?thesis
    by (simp add: claims_from_array_Ok wasm_sign_fl wasm_did_fl wasm_bbs_sign_credential_def fl_bbs_sign_credential_def
        wasm_bbs_derive_proof_def fl_bbs_derive_proof_def wasm_vote_prove_def fl_vote_prove_def
        wasm_semaphore_bind_nonce_def fl_semaphore_bind_nonce_def with_err_js and_then_js Let_def)
qed

text \<open>The three boundaries give one verdict. For arguments in memory, the C exports for ECDSA and
  BBS+ return 1 exactly when the browser and the mobile functions return \<open>true\<close> on the bytes
  those arguments denote, for every curve code, known or not, and in every cache state.\<close>

theorem verdicts_agree:
  assumes "suite_ok B s" "list_all (valid_arg mem) [(a1, n1), (a2, n2), (a3, n3)]"
    and "view mem (a1, n1) = Some b1" "view mem (a2, n2) = Some b2" "view mem (a3, n3) = Some b3"
  shows "(fst (phi_verify_signature ps C mem c a1 n1 a2 n2 a3 n3 u) = Ok 1 \<longleftrightarrow> fl_verify_signature C c b1 b2 b3)
     \<and> (wasm_verify_signature C c b1 b2 b3 \<longleftrightarrow> fl_verify_signature C c b1 b2 b3)
     \<and> (fst (phi_bbs_verify_proof ps B mem a1 n1 a2 n2 a3 n3 s) = Ok 1
          \<longleftrightarrow> fst (fl_bbs_verify_proof B b1 b2 b3 s) = Ok True)
     \<and> wasm_bbs_verify_proof B b1 b2 b3 s = fl_bbs_verify_proof B b1 b2 b3 s"
proof -
  have f: "fits64 b1" using view_fits64 assms(2,3) by auto
  have "fst (phi_bbs_verify_proof ps B mem a1 n1 a2 n2 a3 n3 s) = Ok 1 \<longleftrightarrow> bbs_accepts B [Some b1, Some b2, Some b3]"
    using c_bbs.accepts_iff [OF assms(1) _ assms(2)] assms(3-5) by simp
  then have "fst (phi_bbs_verify_proof ps B mem a1 n1 a2 n2 a3 n3 s) = Ok 1
      \<longleftrightarrow> fst (fl_bbs_verify_proof B b1 b2 b3 s) = Ok True"
    by (simp add: fl_bbs_verify_proof_def verify_bytes_spec_aux [OF assms(1) f])
  moreover have "fst (phi_verify_signature ps C mem c a1 n1 a2 n2 a3 n3 u) = Ok 1 \<longleftrightarrow> fl_verify_signature C c b1 b2 b3"
    using c_signature.accepts_iff [OF TrueI _ assms(2), of ps C c u] assms(3-5) by (simp add: verify_signature_curve)
  ultimately show ?thesis
    by (simp add: verify_signature_curve wasm_bbs_verify_proof_def fl_bbs_verify_proof_def)
qed

end
