(* ===== verification/Phi_Sse.thy ===== *)
theory Phi_Sse
  imports Phi_Bindings Phi_Boundary
begin

section \<open>The serialization of the mobile bridge (frb_generated.rs)\<close>

text \<open>
  The mobile app calls the Rust library by messages: arguments and results are written one
  after the other, numbers in the byte order of the target, sequences behind an \<open>i32\<close> length.
  Here are the \<open>SseDecode\<close> and \<open>SseEncode\<close> implementations of \<open>frb_generated.rs\<close>, over the cursor of
  the vendored \<open>flutter_rust_bridge\<close> and \<open>byteorder\<close>. Every decoder unwraps its reads, so a short
  message, a negative length and invalid UTF-8 are panics. \<open>sse_type\<close> is what each decoder
  promises: it returns a value exactly on the byte strings of that value's shape, and
  advances past them; \<open>sse_codec\<close> adds the encoder.
\<close>

datatype byte_order = LittleEndian | BigEndian

definition write_u32 :: "byte_order \<Rightarrow> u32 \<Rightarrow> bytes" where
  "write_u32 en n = (case en of LittleEndian \<Rightarrow> rev (u32_to_be_bytes n) | BigEndian \<Rightarrow> u32_to_be_bytes n)"

definition read_u32 :: "byte_order \<Rightarrow> bytes \<Rightarrow> u32" where
  "read_u32 en b = (case en of LittleEndian \<Rightarrow> u32_from_be_bytes (rev b) | BigEndian \<Rightarrow> u32_from_be_bytes b)"

record sse_deserializer =
  sd_vec :: bytes
  sd_position :: nat
  sd_data_len :: i32

definition sse_new :: "bytes \<Rightarrow> i32 \<Rightarrow> sse_deserializer" where
  "sse_new vec data_len = \<lparr>sd_vec = vec, sd_position = 0, sd_data_len = data_len\<rparr>"

text \<open>\<open>assert_eq!(self.data_len as u64, self.cursor.position())\<close>: the cast extends the sign.\<close>

definition sse_end :: "(sse_deserializer, unit) st" where
  "sse_end d = (if unat (scast (sd_data_len d) :: u64) = sd_position d then (Ok (), d) else (Panic, d))"

text \<open>\<open>read_exact\<close> of the cursor, unwrapped.\<close>

definition cursor_read :: "nat \<Rightarrow> (sse_deserializer, bytes) st" where
  "cursor_read n d =
     (if sd_position d + n \<le> length (sd_vec d)
      then (Ok (take n (drop (sd_position d) (sd_vec d))), d\<lparr>sd_position := sd_position d + n\<rparr>)
      else (Panic, d))"

text \<open>\<open>Vec::with_capacity(len_ as usize)\<close>: a capacity of more than \<open>isize::MAX\<close> bytes panics.\<close>

definition vec_with_capacity :: "nat \<Rightarrow> i32 \<Rightarrow> ('a list, crypto_error) result" where
  "vec_with_capacity elem_size len =
     (if unat (scast len :: u64) * elem_size > 2 ^ 63 - 1 then Panic else Ok [])"

text \<open>The loop \<open>for idx_ in 0..len_ { ans_.push(..) }\<close>.\<close>

primrec push_loop :: "(sse_deserializer, 'a) st \<Rightarrow> nat \<Rightarrow> 'a list \<Rightarrow> (sse_deserializer, 'a list) st" where
  "push_loop dec 0 ans = lift_s (Ok ans)"
| "push_loop dec (Suc n) ans = bind_s dec (\<lambda>x. push_loop dec n (ans @ [x]))"

subsection \<open>SseDecode\<close>

definition sse_decode_u8 :: "(sse_deserializer, byte) st" where
  "sse_decode_u8 = bind_s (cursor_read 1) (\<lambda>b. lift_s (index b 0))"

definition sse_decode_u32 :: "byte_order \<Rightarrow> (sse_deserializer, u32) st" where
  "sse_decode_u32 en = bind_s (cursor_read 4) (\<lambda>b. lift_s (Ok (read_u32 en b)))"

definition sse_decode_i32 :: "byte_order \<Rightarrow> (sse_deserializer, i32) st" where
  "sse_decode_i32 en = bind_s (cursor_read 4) (\<lambda>b. lift_s (Ok (read_u32 en b)))"

definition sse_decode_unit :: "(sse_deserializer, unit) st" where
  "sse_decode_unit = lift_s (Ok ())"

definition sse_decode_bool :: "(sse_deserializer, bool) st" where
  "sse_decode_bool = bind_s (cursor_read 1) (\<lambda>b. bind_s (lift_s (index b 0)) (\<lambda>v. lift_s (Ok (v \<noteq> 0))))"

definition sse_decode_vec_u8 :: "byte_order \<Rightarrow> (sse_deserializer, bytes) st" where
  "sse_decode_vec_u8 en =
     bind_s (sse_decode_i32 en) (\<lambda>len.
     bind_s (lift_s (vec_with_capacity 1 len)) (\<lambda>ans.
     push_loop sse_decode_u8 (nat (sint len)) ans))"

definition sse_decode_vec_u32 :: "byte_order \<Rightarrow> (sse_deserializer, u32 list) st" where
  "sse_decode_vec_u32 en =
     bind_s (sse_decode_i32 en) (\<lambda>len.
     bind_s (lift_s (vec_with_capacity 4 len)) (\<lambda>ans.
     push_loop (sse_decode_u32 en) (nat (sint len)) ans))"

definition sse_decode_vec_vec_u8 :: "byte_order \<Rightarrow> (sse_deserializer, bytes list) st" where
  "sse_decode_vec_vec_u8 en =
     bind_s (sse_decode_i32 en) (\<lambda>len.
     bind_s (lift_s (vec_with_capacity 24 len)) (\<lambda>ans.
     push_loop (sse_decode_vec_u8 en) (nat (sint len)) ans))"

definition sse_decode_String :: "byte_order \<Rightarrow> (sse_deserializer, str) st" where
  "sse_decode_String en =
     bind_s (sse_decode_vec_u8 en) (\<lambda>inner.
     case from_utf8 inner of Some s \<Rightarrow> lift_s (Ok s) | None \<Rightarrow> lift_s Panic)"

definition sse_decode_PhiBbsKeyPair :: "byte_order \<Rightarrow> (sse_deserializer, PhiBbsKeyPair) st" where
  "sse_decode_PhiBbsKeyPair en =
     bind_s (sse_decode_vec_u8 en) (\<lambda>var_secret.
     bind_s (sse_decode_vec_u8 en) (\<lambda>var_public.
     lift_s (Ok \<lparr>pbk_secret = var_secret, pbk_public = var_public\<rparr>)))"

definition sse_decode_PhiKeyPair :: "byte_order \<Rightarrow> (sse_deserializer, PhiKeyPair) st" where
  "sse_decode_PhiKeyPair en =
     bind_s (sse_decode_vec_u8 en) (\<lambda>var_secret.
     bind_s (sse_decode_vec_u8 en) (\<lambda>var_public.
     lift_s (Ok \<lparr>pk_secret = var_secret, pk_public = var_public\<rparr>)))"

subsection \<open>SseEncode\<close>

text \<open>
  The serializer is the vector under its cursor, which stands at the end: nothing is written
  but by these functions. A length is cast to \<open>i32\<close>.
\<close>

definition sse_encode_u8 :: "byte \<Rightarrow> bytes \<Rightarrow> bytes" where
  "sse_encode_u8 v serializer = serializer @ [v]"

definition sse_encode_u32 :: "byte_order \<Rightarrow> u32 \<Rightarrow> bytes \<Rightarrow> bytes" where
  "sse_encode_u32 en v serializer = serializer @ write_u32 en v"

definition sse_encode_i32 :: "byte_order \<Rightarrow> i32 \<Rightarrow> bytes \<Rightarrow> bytes" where
  "sse_encode_i32 en v serializer = serializer @ write_u32 en v"

definition sse_encode_unit :: "unit \<Rightarrow> bytes \<Rightarrow> bytes" where
  "sse_encode_unit v serializer = serializer"

definition sse_encode_bool :: "bool \<Rightarrow> bytes \<Rightarrow> bytes" where
  "sse_encode_bool v serializer = serializer @ [of_bool v]"

definition sse_encode_vec_u8 :: "byte_order \<Rightarrow> bytes \<Rightarrow> bytes \<Rightarrow> bytes" where
  "sse_encode_vec_u8 en v serializer =
     fold sse_encode_u8 v (sse_encode_i32 en (word_of_nat (length v)) serializer)"

definition sse_encode_vec_u32 :: "byte_order \<Rightarrow> u32 list \<Rightarrow> bytes \<Rightarrow> bytes" where
  "sse_encode_vec_u32 en v serializer =
     fold (sse_encode_u32 en) v (sse_encode_i32 en (word_of_nat (length v)) serializer)"

definition sse_encode_vec_vec_u8 :: "byte_order \<Rightarrow> bytes list \<Rightarrow> bytes \<Rightarrow> bytes" where
  "sse_encode_vec_vec_u8 en v serializer =
     fold (sse_encode_vec_u8 en) v (sse_encode_i32 en (word_of_nat (length v)) serializer)"

definition sse_encode_String :: "byte_order \<Rightarrow> str \<Rightarrow> bytes \<Rightarrow> bytes" where
  "sse_encode_String en v serializer = sse_encode_vec_u8 en v serializer"

definition sse_encode_PhiBbsKeyPair :: "byte_order \<Rightarrow> PhiBbsKeyPair \<Rightarrow> bytes \<Rightarrow> bytes" where
  "sse_encode_PhiBbsKeyPair en kp serializer =
     sse_encode_vec_u8 en (pbk_public kp) (sse_encode_vec_u8 en (pbk_secret kp) serializer)"

definition sse_encode_PhiKeyPair :: "byte_order \<Rightarrow> PhiKeyPair \<Rightarrow> bytes \<Rightarrow> bytes" where
  "sse_encode_PhiKeyPair en kp serializer =
     sse_encode_vec_u8 en (pk_public kp) (sse_encode_vec_u8 en (pk_secret kp) serializer)"

subsection \<open>Cursor steps\<close>

lemma length_write_u32 [simp, framing_simps]: "length (write_u32 en n) = 4"
  by (simp add: write_u32_def split: byte_order.split)

lemma read_write_u32 [simp]: "read_u32 en (write_u32 en n) = n"
  by (simp add: read_u32_def write_u32_def split: byte_order.split)

lemma write_read_u32: "length b = 4 \<Longrightarrow> write_u32 en (read_u32 en b) = b"
  by (simp add: read_u32_def write_u32_def split: byte_order.split)

definition advance :: "nat \<Rightarrow> sse_deserializer \<Rightarrow> sse_deserializer" where
  "advance k d = d\<lparr>sd_position := sd_position d + k\<rparr>"

definition sd_left :: "sse_deserializer \<Rightarrow> bytes" where
  "sd_left d = drop (sd_position d) (sd_vec d)"

text \<open>\<open>steps d b d'\<close>: the bytes \<open>b\<close> are next, and \<open>d'\<close> stands behind them.\<close>

definition steps :: "sse_deserializer \<Rightarrow> bytes \<Rightarrow> sse_deserializer \<Rightarrow> bool" where
  "steps d b d' \<longleftrightarrow> (\<exists>rest. sd_left d = b @ rest) \<and> d' = advance (length b) d"

lemma advance_simps [simp]:
  "advance 0 d = d" "advance j (advance k d) = advance (k + j) d"
  "sd_left (advance k d) = drop k (sd_left d)"
  by (simp_all add: advance_def sd_left_def add.commute add.left_commute)

lemma steps_Nil [simp]: "steps d [] d' \<longleftrightarrow> d' = d"
  by (simp add: steps_def)

lemma steps_append: "steps d (a @ b) d' \<longleftrightarrow> (\<exists>d1. steps d a d1 \<and> steps d1 b d')"
  by (auto simp: steps_def)

lemma steps_trans: "steps d a d1 \<Longrightarrow> steps d1 b d' \<Longrightarrow> steps d (a @ b) d'"
  by (auto simp: steps_append)

lemma cursor_read_Ok:
  assumes "0 < n"
  shows "cursor_read n d = (Ok b, d') \<longleftrightarrow> length b = n \<and> steps d b d'"
proof
  assume "cursor_read n d = (Ok b, d')"
  then show "length b = n \<and> steps d b d'"
    by (auto simp: cursor_read_def steps_def sd_left_def advance_def split: if_splits)
       (metis append_take_drop_id)
next
  assume *: "length b = n \<and> steps d b d'"
  then obtain rest where r: "sd_left d = b @ rest" by (auto simp: steps_def)
  then have "length (sd_vec d) - sd_position d = n + length rest"
    using * by (metis sd_left_def length_drop length_append)
  then show "cursor_read n d = (Ok b, d')"
    using * r assms by (simp add: cursor_read_def steps_def advance_def flip: sd_left_def)
qed

lemma cursor_read_not_Err: "fst (cursor_read n d) \<noteq> Err e"
  by (simp add: cursor_read_def)

lemma not_Err_bind:
  assumes "fst (m d) \<noteq> Err e" "\<And>x d'. fst (f x d') \<noteq> Err e"
  shows "fst (bind_s m f d) \<noteq> Err e"
  using assms by (cases "m d"; cases "fst (m d)") (auto simp: bind_s_def)


lemma sse_decode_i32_Ok: "sse_decode_i32 en d = (Ok x, d') \<longleftrightarrow> steps d (write_u32 en x) d'"
  by (auto simp: sse_decode_i32_def bind_s_Ok_iff cursor_read_Ok write_read_u32)
     (metis length_write_u32 read_write_u32)

lemma sse_decode_i32_not_Err: "fst (sse_decode_i32 en d) \<noteq> Err e"
  unfolding sse_decode_i32_def by (rule not_Err_bind) (simp_all add: cursor_read_not_Err)

subsection \<open>The interface of a wire type\<close>

locale sse_type =
  fixes dec :: "(sse_deserializer, 'a) st"
    and shape :: "'a \<Rightarrow> bytes \<Rightarrow> bool"
  assumes decides: "dec d = (Ok x, d') \<longleftrightarrow> (\<exists>b. shape x b \<and> steps d b d')"
    and not_Err: "fst (dec d) \<noteq> Err e"
begin

lemma bind_Ok: "bind_s dec k d = (Ok y, d') \<longleftrightarrow> (\<exists>x b d1. shape x b \<and> steps d b d1 \<and> k x d1 = (Ok y, d'))"
  by (auto simp: bind_s_Ok_iff decides)

lemma Ok_or_Panic: "(\<exists>x d'. dec d = (Ok x, d')) \<or> fst (dec d) = Panic"
  using not_Err [of d] by (cases "dec d"; cases "fst (dec d)") auto

lemma push_loop_Ok:
  "push_loop dec n acc d = (Ok xs, d') \<longleftrightarrow>
     (\<exists>ys bs. xs = acc @ ys \<and> length ys = n \<and> list_all2 shape ys bs \<and> steps d (concat bs) d')"
proof (induction n arbitrary: acc d)
  case 0
  show ?case by auto
next
  case (Suc n)
  show ?case (is "?L \<longleftrightarrow> ?R")
  proof
    assume ?L
    then obtain x b d1 ys bs where "shape x b" "steps d b d1" "xs = acc @ x # ys" "length ys = n"
        "list_all2 shape ys bs" "steps d1 (concat bs) d'"
      by (auto simp: bind_Ok Suc)
    then show ?R by (intro exI [of _ "x # ys"] exI [of _ "b # bs"]) (auto intro: steps_trans)
  next
    assume ?R
    then obtain x ys b bs where "xs = acc @ x # ys" "length ys = n" "shape x b"
        "list_all2 shape ys bs" "steps d (b @ concat bs) d'"
      by (auto simp: length_Suc_conv list_all2_Cons1)
    then show ?L unfolding push_loop.simps bind_Ok Suc steps_append by (metis append.assoc append_Cons append_Nil)
  qed
qed

lemma push_loop_not_Err: "fst (push_loop dec n acc d) \<noteq> Err e"
proof (induction n arbitrary: acc d)
  case (Suc n)
  then show ?case unfolding push_loop.simps by (intro not_Err_bind not_Err)
qed simp

end

text \<open>A sequence: its length as a non-negative \<open>i32\<close>, then its elements.\<close>

definition vec_shape :: "byte_order \<Rightarrow> ('a \<Rightarrow> bytes \<Rightarrow> bool) \<Rightarrow> 'a list \<Rightarrow> bytes \<Rightarrow> bool" where
  "vec_shape en shape xs b \<longleftrightarrow> length xs < 2 ^ 31 \<and>
     (\<exists>bs. list_all2 shape xs bs \<and> b = write_u32 en (word_of_nat (length xs)) @ concat bs)"

lemma uint_scast_64: "uint (scast (len :: i32) :: u64) = sint len mod 2 ^ 64"
  using uint_word_of_int [of "sint len", where 'a = 64] unfolding scast_eq by simp

lemma sint_nonneg_nat:
  fixes len :: i32
  assumes "0 \<le> sint len"
  shows "nat (sint len) < 2 ^ 31" "word_of_nat (nat (sint len)) = len" "unat (scast len :: u64) = nat (sint len)"
proof -
  have lt: "sint len < 2 ^ 31" using sint_lt [of len] by simp
  then show "nat (sint len) < 2 ^ 31" by (simp add: nat_less_iff assms)
  show "word_of_nat (nat (sint len)) = len" using assms by simp
  have "uint (scast len :: u64) = sint len mod 2 ^ 64" by (rule uint_scast_64)
  also have "\<dots> = sint len" using assms lt by (intro mod_pos_pos_trivial) auto
  finally show "unat (scast len :: u64) = nat (sint len)" by (simp flip: nat_uint_eq)
qed

lemma sint_neg_cast:
  fixes len :: i32
  assumes "sint len < 0"
  shows "unat (scast len :: u64) \<ge> 2 ^ 63"
proof -
  have ge: "- (2 ^ 31) \<le> sint len" using sint_ge [of len] by simp
  have "uint (scast len :: u64) = sint len mod 2 ^ 64" by (rule uint_scast_64)
  also have "\<dots> = (sint len + 2 ^ 64) mod 2 ^ 64" by simp
  also have "\<dots> = sint len + 2 ^ 64" using assms ge by (intro mod_pos_pos_trivial) auto
  finally have "2 ^ 63 \<le> uint (scast len :: u64)" using ge by simp
  then show ?thesis by (simp add: le_nat_iff flip: nat_uint_eq)
qed

lemma sint_len_i32: "n < 2 ^ 31 \<Longrightarrow> nat (sint (word_of_nat n :: i32)) = n \<and> 0 \<le> sint (word_of_nat n :: i32)"
  by (simp add: signed_of_nat signed_take_bit_int_eq_self)

lemma vec_with_capacity_Ok:
  assumes "0 < es" "es \<le> 24"
  shows "vec_with_capacity es len = Ok xs \<longleftrightarrow> xs = [] \<and> 0 \<le> sint len"
proof (cases "0 \<le> sint len")
  case True
  have "nat (sint len) * es \<le> 2 ^ 31 * 24" using sint_nonneg_nat(1) [OF True] assms(2) by (intro mult_le_mono) simp_all
  then show ?thesis using True sint_nonneg_nat(3) [OF True] by (auto simp: vec_with_capacity_def)
next
  case False
  have "2 ^ 63 * 1 \<le> unat (scast len :: u64) * es"
    using sint_neg_cast [of len] False assms(1) by (intro mult_le_mono) simp_all
  then show ?thesis using False by (simp add: vec_with_capacity_def)
qed

context sse_type begin

lemma vec_type:
  assumes "0 < es" "es \<le> 24"
  shows "sse_type (bind_s (sse_decode_i32 en) (\<lambda>len. bind_s (lift_s (vec_with_capacity es len))
            (\<lambda>ans. push_loop dec (nat (sint len)) ans))) (vec_shape en shape)"
proof
  fix d xs d'
  have "bind_s (sse_decode_i32 en) (\<lambda>len. bind_s (lift_s (vec_with_capacity es len))
            (\<lambda>ans. push_loop dec (nat (sint len)) ans)) d = (Ok xs, d') \<longleftrightarrow>
        (\<exists>len d1 bs. steps d (write_u32 en len) d1 \<and> 0 \<le> sint len \<and> length xs = nat (sint len)
            \<and> list_all2 shape xs bs \<and> steps d1 (concat bs) d')"
    by (auto simp: bind_s_Ok_iff sse_decode_i32_Ok vec_with_capacity_Ok [OF assms] push_loop_Ok)
  also have "\<dots> \<longleftrightarrow> (\<exists>b. vec_shape en shape xs b \<and> steps d b d')"
    (is "?L \<longleftrightarrow> ?R")
  proof
    assume ?L
    then obtain len d1 bs where *: "steps d (write_u32 en len) d1" "0 \<le> sint len" "length xs = nat (sint len)"
        "list_all2 shape xs bs" "steps d1 (concat bs) d'" by blast
    then have "vec_shape en shape xs (write_u32 en len @ concat bs)"
      using sint_nonneg_nat(1,2) [OF *(2)] by (auto simp: vec_shape_def)
    then show ?R using steps_trans [OF *(1,5)] by blast
  next
    assume ?R
    then obtain bs where *: "length xs < 2 ^ 31" "list_all2 shape xs bs"
        "steps d (write_u32 en (word_of_nat (length xs)) @ concat bs) d'" by (auto simp: vec_shape_def)
    then show ?L using sint_len_i32 [OF *(1)] unfolding steps_append by metis
  qed
  finally show "bind_s (sse_decode_i32 en) (\<lambda>len. bind_s (lift_s (vec_with_capacity es len))
            (\<lambda>ans. push_loop dec (nat (sint len)) ans)) d = (Ok xs, d') \<longleftrightarrow>
         (\<exists>b. vec_shape en shape xs b \<and> steps d b d')" .
next
  fix d e
  have "fst (lift_s (vec_with_capacity es len) d1) \<noteq> Err e" for len d1
    by (simp add: vec_with_capacity_def)
  then show "fst (bind_s (sse_decode_i32 en) (\<lambda>len. bind_s (lift_s (vec_with_capacity es len))
            (\<lambda>ans. push_loop dec (nat (sint len)) ans)) d) \<noteq> Err e"
    by (intro not_Err_bind) (simp_all add: sse_decode_i32_not_Err push_loop_not_Err vec_with_capacity_def)
qed

end


text \<open>A value with its encoder, for the values whose lengths fit an \<open>i32\<close>.\<close>

locale sse_codec = sse_type dec shape
  for dec :: "(sse_deserializer, 'a) st" and shape :: "'a \<Rightarrow> bytes \<Rightarrow> bool" +
  fixes enc :: "'a \<Rightarrow> bytes \<Rightarrow> bytes" and fits :: "'a \<Rightarrow> bool"
  assumes appends: "enc x out = out @ enc x []"
    and encodes: "fits x \<Longrightarrow> shape x (enc x [])"
begin

lemma decode_encode:
  assumes "fits x" "sd_left d = enc x [] @ rest"
  shows "dec d = (Ok x, advance (length (enc x [])) d)"
  using assms encodes by (auto simp: decides steps_def)

lemma fold_enc: "fold enc xs out = out @ concat (map (\<lambda>x. enc x []) xs)"
proof (induction xs arbitrary: out)
  case (Cons x xs)
  have "fold enc (x # xs) out = enc x out @ concat (map (\<lambda>x. enc x []) xs)" by (simp add: Cons)
  then show ?case by (subst (asm) appends) simp
qed simp

lemma vec_encodes:
  assumes "length xs < 2 ^ 31" "list_all fits xs"
  shows "vec_shape en shape xs (fold enc xs (sse_encode_i32 en (word_of_nat (length xs)) []))"
proof -
  have "list_all2 shape xs (map (\<lambda>x. enc x []) xs)"
    using assms(2) encodes by (simp add: list_all2_conv_all_nth list_all_length)
  then show ?thesis using assms(1) by (auto simp: vec_shape_def fold_enc sse_encode_i32_def)
qed

lemma vec_appends: "fold enc xs (sse_encode_i32 en n out) = out @ fold enc xs (sse_encode_i32 en n [])"
  by (simp add: fold_enc sse_encode_i32_def)

lemma vec_codec:
  assumes "0 < es" "es \<le> 24"
  shows "sse_codec (bind_s (sse_decode_i32 en) (\<lambda>len. bind_s (lift_s (vec_with_capacity es len))
            (\<lambda>ans. push_loop dec (nat (sint len)) ans))) (vec_shape en shape)
          (\<lambda>xs. fold enc xs \<circ> sse_encode_i32 en (word_of_nat (length xs)))
          (\<lambda>xs. length xs < 2 ^ 31 \<and> list_all fits xs)"
proof (intro sse_codec.intro sse_codec_axioms.intro vec_type assms)
  show "(fold enc xs \<circ> sse_encode_i32 en (word_of_nat (length xs))) out
      = out @ (fold enc xs \<circ> sse_encode_i32 en (word_of_nat (length xs))) []" for xs out
    unfolding comp_def by (rule vec_appends)
qed (simp add: vec_encodes)

end

subsection \<open>The wire types\<close>

definition u8_shape :: "byte \<Rightarrow> bytes \<Rightarrow> bool" where
  "u8_shape v b \<longleftrightarrow> b = [v]"

definition u32_shape :: "byte_order \<Rightarrow> u32 \<Rightarrow> bytes \<Rightarrow> bool" where
  "u32_shape en v b \<longleftrightarrow> b = write_u32 en v"

text \<open>Any non-zero byte reads as \<open>true\<close>.\<close>

definition bool_shape :: "bool \<Rightarrow> bytes \<Rightarrow> bool" where
  "bool_shape v b \<longleftrightarrow> (\<exists>w. b = [w] \<and> v = (w \<noteq> 0))"

definition fits_i32 :: "'a list \<Rightarrow> bool" where
  "fits_i32 xs \<longleftrightarrow> length xs < 2 ^ 31"

definition framed :: "byte_order \<Rightarrow> bytes \<Rightarrow> bytes" where
  "framed en v = write_u32 en (word_of_nat (length v)) @ v"

definition bytes_shape :: "byte_order \<Rightarrow> bytes \<Rightarrow> bytes \<Rightarrow> bool" where
  "bytes_shape en v b \<longleftrightarrow> fits_i32 v \<and> b = framed en v"

lemma list_all2_u8: "list_all2 u8_shape xs bs \<longleftrightarrow> bs = map (\<lambda>x. [x]) xs"
  by (auto simp: list_all2_conv_all_nth u8_shape_def intro: nth_equalityI)

lemma concat_singletons [simp]: "concat (map (\<lambda>x. [x]) xs) = xs"
  by (induction xs) simp_all

lemma bytes_shape_vec: "bytes_shape en = vec_shape en u8_shape"
  by (auto simp: fun_eq_iff bytes_shape_def vec_shape_def list_all2_u8 fits_i32_def framed_def)

interpretation u8: sse_codec sse_decode_u8 u8_shape sse_encode_u8 "\<lambda>_. True"
proof
  show "sse_decode_u8 d = (Ok x, d') \<longleftrightarrow> (\<exists>b. u8_shape x b \<and> steps d b d')" for d x d'
    by (auto simp: sse_decode_u8_def bind_s_Ok_iff cursor_read_Ok u8_shape_def index_def length_Suc_conv)
  show "fst (sse_decode_u8 d) \<noteq> Err e" for d e
    unfolding sse_decode_u8_def by (rule not_Err_bind) (simp_all add: cursor_read_not_Err index_def)
qed (simp_all add: sse_encode_u8_def u8_shape_def)

interpretation bool: sse_codec sse_decode_bool bool_shape sse_encode_bool "\<lambda>_. True"
proof
  show "sse_decode_bool d = (Ok x, d') \<longleftrightarrow> (\<exists>b. bool_shape x b \<and> steps d b d')" for d x d'
  proof -
    have "sse_decode_bool d = (Ok x, d') \<longleftrightarrow> (\<exists>v. sse_decode_u8 d = (Ok v, d') \<and> x = (v \<noteq> 0))"
      by (auto simp: sse_decode_bool_def sse_decode_u8_def bind_s_Ok_iff)
    then show ?thesis by (simp add: u8.decides u8_shape_def bool_shape_def) blast
  qed
  show "fst (sse_decode_bool d) \<noteq> Err e" for d e
    unfolding sse_decode_bool_def by (intro not_Err_bind) (simp_all add: cursor_read_not_Err index_def)
qed (auto simp add: sse_encode_bool_def bool_shape_def)

interpretation unit: sse_codec sse_decode_unit "\<lambda>_ b. b = []" sse_encode_unit "\<lambda>_. True"
  by unfold_locales (auto simp: sse_decode_unit_def sse_encode_unit_def)

interpretation u32: sse_codec "sse_decode_u32 en" "u32_shape en" "sse_encode_u32 en" "\<lambda>_. True" for en
proof
  have eq: "sse_decode_u32 en = sse_decode_i32 en" by (simp add: sse_decode_u32_def sse_decode_i32_def)
  show "sse_decode_u32 en d = (Ok x, d') \<longleftrightarrow> (\<exists>b. u32_shape en x b \<and> steps d b d')" for d x d'
    by (simp add: eq sse_decode_i32_Ok u32_shape_def)
  show "fst (sse_decode_u32 en d) \<noteq> Err e" for d e
    by (simp add: eq sse_decode_i32_not_Err)
qed (simp_all add: sse_encode_u32_def u32_shape_def)

interpretation vec_u8: sse_codec "sse_decode_vec_u8 en" "bytes_shape en" "sse_encode_vec_u8 en" fits_i32 for en
  using u8.vec_codec [of 1 en]
  by (simp add: bytes_shape_vec sse_decode_vec_u8_def [abs_def] sse_encode_vec_u8_def [abs_def] fits_i32_def
      [abs_def] comp_def list_all_iff)

interpretation vec_u32: sse_codec "sse_decode_vec_u32 en" "vec_shape en (u32_shape en)" "sse_encode_vec_u32 en"
    fits_i32 for en
  using u32.vec_codec [of 4 en en]
  by (simp add: sse_decode_vec_u32_def [abs_def] sse_encode_vec_u32_def [abs_def] fits_i32_def [abs_def]
      comp_def list_all_iff)

interpretation vec_vec_u8: sse_codec "sse_decode_vec_vec_u8 en" "vec_shape en (bytes_shape en)"
    "sse_encode_vec_vec_u8 en" "\<lambda>v. fits_i32 v \<and> list_all fits_i32 v" for en
  using vec_u8.vec_codec [of 24 en en]
  by (simp add: sse_decode_vec_vec_u8_def [abs_def] sse_encode_vec_vec_u8_def [abs_def] fits_i32_def [abs_def]
      comp_def)

definition str_shape :: "byte_order \<Rightarrow> str \<Rightarrow> bytes \<Rightarrow> bool" where
  "str_shape en v b \<longleftrightarrow> from_utf8 v = Some v \<and> bytes_shape en v b"

lemma from_utf8_Some: "from_utf8 b = Some s \<longleftrightarrow> s = b \<and> from_utf8 b = Some b"
  by (auto simp: from_utf8_def split: if_splits)

interpretation str: sse_codec "sse_decode_String en" "str_shape en" "sse_encode_String en"
    "\<lambda>v. fits_i32 v \<and> from_utf8 v = Some v" for en
proof
  show "sse_decode_String en d = (Ok x, d') \<longleftrightarrow> (\<exists>b. str_shape en x b \<and> steps d b d')" for d x d'
    by (auto simp: sse_decode_String_def vec_u8.bind_Ok str_shape_def from_utf8_def split: option.splits if_splits)
  show "fst (sse_decode_String en d) \<noteq> Err e" for d e
    unfolding sse_decode_String_def by (rule not_Err_bind) (simp_all add: vec_u8.not_Err split: option.split)
  show "sse_encode_String en x out = out @ sse_encode_String en x []" for x out
    unfolding sse_encode_String_def by (rule vec_u8.appends)
  show "str_shape en x (sse_encode_String en x [])" if "fits_i32 x \<and> from_utf8 x = Some x" for x
    using that vec_u8.encodes by (simp add: str_shape_def sse_encode_String_def)
qed


text \<open>A structure of two byte strings.\<close>

definition pair_shape :: "byte_order \<Rightarrow> bytes \<Rightarrow> bytes \<Rightarrow> bytes \<Rightarrow> bool" where
  "pair_shape en v w b \<longleftrightarrow> (\<exists>b1 b2. bytes_shape en v b1 \<and> bytes_shape en w b2 \<and> b = b1 @ b2)"

lemma pair_Ok:
  "bind_s (sse_decode_vec_u8 en) (\<lambda>v. bind_s (sse_decode_vec_u8 en) (\<lambda>w. lift_s (Ok (mk v w)))) d = (Ok x, d')
     \<longleftrightarrow> (\<exists>v w b. x = mk v w \<and> pair_shape en v w b \<and> steps d b d')"
  (is "?L \<longleftrightarrow> ?R")
proof
  assume ?L
  then obtain v b1 d1 w b2 where "x = mk v w" "bytes_shape en v b1" "bytes_shape en w b2"
      "steps d b1 d1" "steps d1 b2 d'" by (auto simp: vec_u8.bind_Ok)
  then show ?R unfolding pair_shape_def using steps_trans by blast
next
  assume ?R
  then obtain v b1 d1 w b2 where "x = mk v w" "bytes_shape en v b1" "bytes_shape en w b2"
      "steps d b1 d1" "steps d1 b2 d'" by (auto simp: pair_shape_def steps_append)
  then show ?L by (simp add: vec_u8.bind_Ok) blast
qed

lemma pair_not_Err:
  "fst (bind_s (sse_decode_vec_u8 en) (\<lambda>v. bind_s (sse_decode_vec_u8 en) (\<lambda>w. lift_s (Ok (mk v w)))) d) \<noteq> Err e"
  by (intro not_Err_bind) (simp_all add: vec_u8.not_Err)

lemma pair_appends:
  "sse_encode_vec_u8 en w (sse_encode_vec_u8 en v out) = out @ sse_encode_vec_u8 en w (sse_encode_vec_u8 en v [])"
  by (metis vec_u8.appends append.assoc)

lemma pair_encodes:
  "fits_i32 v \<Longrightarrow> fits_i32 w \<Longrightarrow> pair_shape en v w (sse_encode_vec_u8 en w (sse_encode_vec_u8 en v []))"
  unfolding pair_shape_def using vec_u8.appends [of en w "sse_encode_vec_u8 en v []"] vec_u8.encodes by blast

interpretation kp: sse_codec "sse_decode_PhiKeyPair en" "\<lambda>kp. pair_shape en (pk_secret kp) (pk_public kp)"
    "sse_encode_PhiKeyPair en" "\<lambda>kp. fits_i32 (pk_secret kp) \<and> fits_i32 (pk_public kp)" for en
proof
  show "sse_decode_PhiKeyPair en d = (Ok x, d')
      \<longleftrightarrow> (\<exists>b. pair_shape en (pk_secret x) (pk_public x) b \<and> steps d b d')" for d x d'
    unfolding sse_decode_PhiKeyPair_def pair_Ok by (cases x) auto
  show "sse_encode_PhiKeyPair en x out = out @ sse_encode_PhiKeyPair en x []" for x out
    unfolding sse_encode_PhiKeyPair_def by (rule pair_appends)
qed (simp_all add: sse_decode_PhiKeyPair_def sse_encode_PhiKeyPair_def pair_not_Err pair_encodes)

interpretation bbs_kp: sse_codec "sse_decode_PhiBbsKeyPair en" "\<lambda>kp. pair_shape en (pbk_secret kp) (pbk_public kp)"
    "sse_encode_PhiBbsKeyPair en" "\<lambda>kp. fits_i32 (pbk_secret kp) \<and> fits_i32 (pbk_public kp)" for en
proof
  show "sse_decode_PhiBbsKeyPair en d = (Ok x, d')
      \<longleftrightarrow> (\<exists>b. pair_shape en (pbk_secret x) (pbk_public x) b \<and> steps d b d')" for d x d'
    unfolding sse_decode_PhiBbsKeyPair_def pair_Ok by (cases x) auto
  show "sse_encode_PhiBbsKeyPair en x out = out @ sse_encode_PhiBbsKeyPair en x []" for x out
    unfolding sse_encode_PhiBbsKeyPair_def by (rule pair_appends)
qed (simp_all add: sse_decode_PhiBbsKeyPair_def sse_encode_PhiBbsKeyPair_def pair_not_Err pair_encodes)


subsection \<open>Encodings in closed form\<close>

definition framed_u32s :: "byte_order \<Rightarrow> u32 list \<Rightarrow> bytes" where
  "framed_u32s en v = write_u32 en (word_of_nat (length v)) @ concat (map (write_u32 en) v)"

definition framed_list :: "byte_order \<Rightarrow> bytes list \<Rightarrow> bytes" where
  "framed_list en v = write_u32 en (word_of_nat (length v)) @ concat (map (framed en) v)"

lemma encode_vec_u8: "sse_encode_vec_u8 en v out = out @ framed en v"
  unfolding sse_encode_vec_u8_def u8.fold_enc by (simp add: sse_encode_i32_def framed_def sse_encode_u8_def)

lemma encode_vec_u32: "sse_encode_vec_u32 en v out = out @ framed_u32s en v"
  unfolding sse_encode_vec_u32_def u32.fold_enc by (simp add: sse_encode_i32_def framed_u32s_def sse_encode_u32_def)

lemma encode_vec_vec_u8: "sse_encode_vec_vec_u8 en v out = out @ framed_list en v"
  unfolding sse_encode_vec_vec_u8_def vec_u8.fold_enc
  by (simp add: sse_encode_i32_def framed_list_def encode_vec_u8)

lemma encode_String: "sse_encode_String en v out = out @ framed en v"
  by (simp add: sse_encode_String_def encode_vec_u8)

lemmas encode_closed = encode_vec_u8 encode_vec_u32 encode_vec_vec_u8 encode_String sse_encode_u8_def
  sse_encode_u32_def sse_encode_i32_def sse_encode_bool_def sse_encode_unit_def

lemma list_all2_exact:
  assumes "\<And>x b. shape x b \<longleftrightarrow> fits x \<and> b = e x"
  shows "list_all2 shape xs bs \<longleftrightarrow> list_all fits xs \<and> bs = map e xs"
  by (auto simp: list_all2_conv_all_nth list_all_length assms intro: nth_equalityI)

lemma vec_u32_exact: "vec_shape en (u32_shape en) v b \<longleftrightarrow> fits_i32 v \<and> b = framed_u32s en v"
  using list_all2_exact [of "u32_shape en" "\<lambda>_. True" "write_u32 en"]
  by (auto simp: vec_shape_def u32_shape_def fits_i32_def framed_u32s_def list_all_iff)

lemma vec_vec_u8_exact:
  "vec_shape en (bytes_shape en) v b \<longleftrightarrow> (fits_i32 v \<and> list_all fits_i32 v) \<and> b = framed_list en v"
  using list_all2_exact [of "bytes_shape en" fits_i32 "framed en"]
  by (auto simp: vec_shape_def bytes_shape_def fits_i32_def framed_list_def)

lemmas shape_closed = vec_u32_exact vec_vec_u8_exact bytes_shape_def str_shape_def u8_shape_def u32_shape_def

end
