(* ===== verification/Phi_Bridge.thy ===== *)
theory Phi_Bridge
  imports Phi_Sse
begin

section \<open>The message handlers of the mobile bridge (frb_generated.rs)\<close>

text \<open>
  One handler per function of \<open>api.rs\<close>: it decodes its arguments, checks that the message ends
  there, runs the function and replies with its encoded result. The dispatcher selects the
  handler by number. The handler of the vendored \<open>flutter_rust_bridge\<close> (\<open>wrap_normal\<close>) catches
  panics, both of the decoding and of the task, and replies with a message of its own, whose
  text (message and backtrace of the panic) is a parameter. A handler returns the reply posted
  to the port and the new state of the library (parameter cache and random generator).
\<close>

subsection \<open>Replies\<close>

datatype Rust2DartAction = Act_Success | Act_Error | Act_CloseStream | Act_Panic

primrec action_code :: "Rust2DartAction \<Rightarrow> byte" where
  "action_code Act_Success = 0"
| "action_code Act_Error = 1"
| "action_code Act_CloseStream = 2"
| "action_code Act_Panic = 3"

definition SseCodec_encode :: "Rust2DartAction \<Rightarrow> (bytes \<Rightarrow> bytes) \<Rightarrow> bytes" where
  "SseCodec_encode result_code data_fn = data_fn ([] @ [action_code result_code])"

definition encode_panic :: "byte_order \<Rightarrow> bytes \<Rightarrow> bytes" where
  "encode_panic en msg = SseCodec_encode Act_Panic (\<lambda>serializer.
     fold (\<lambda>b out. out @ [b]) msg (serializer @ write_u32 en (word_of_nat (length msg))))"

definition transform_result_sse ::
    "('a \<Rightarrow> bytes \<Rightarrow> bytes) \<Rightarrow> ('e \<Rightarrow> bytes \<Rightarrow> bytes) \<Rightarrow> ('a, 'e) result \<Rightarrow> (bytes, bytes) result" where
  "transform_result_sse enc_ok enc_err raw = (case raw of
       Ok raw \<Rightarrow> Ok (SseCodec_encode Act_Success (enc_ok raw))
     | Err raw \<Rightarrow> Err (SseCodec_encode Act_Error (enc_err raw))
     | Panic \<Rightarrow> Panic)"

text \<open>The task on a thread of the pool: \<open>execute_normal\<close> and \<open>handle_result\<close>.\<close>

definition execute_normal ::
    "byte_order \<Rightarrow> bytes \<Rightarrow> ('s \<Rightarrow> (bytes, bytes) result \<times> 's) \<Rightarrow> 's \<Rightarrow> bytes \<times> 's" where
  "execute_normal en panic_text task s = (case task s of
       (Ok message, s') \<Rightarrow> (message, s')
     | (Err message, s') \<Rightarrow> (message, s')
     | (Panic, s') \<Rightarrow> (encode_panic en panic_text, s'))"

definition wrap_normal ::
    "byte_order \<Rightarrow> bytes \<Rightarrow> ('a, crypto_error) result \<Rightarrow> ('a \<Rightarrow> 's \<Rightarrow> (bytes, bytes) result \<times> 's) \<Rightarrow>
     's \<Rightarrow> bytes \<times> 's" where
  "wrap_normal en panic_text prepared task s = (case prepared of
       Ok args \<Rightarrow> execute_normal en panic_text (task args) s
     | _ \<Rightarrow> (encode_panic en panic_text, s))"

text \<open>A library function inside \<open>transform_result_sse\<close>, and one that only draws random bytes.\<close>

definition reply_with ::
    "('a \<Rightarrow> bytes \<Rightarrow> bytes) \<Rightarrow> ('e \<Rightarrow> bytes \<Rightarrow> bytes) \<Rightarrow> ('s \<Rightarrow> ('a, 'e) result \<times> 's) \<Rightarrow> 's \<Rightarrow>
     (bytes, bytes) result \<times> 's" where
  "reply_with enc_ok enc_err f s = (case f s of (r, s') \<Rightarrow> (transform_result_sse enc_ok enc_err r, s'))"

definition on_rng :: "('r \<Rightarrow> 'a \<times> 'r) \<Rightarrow> ('p, 'r) suite_state \<Rightarrow> 'a \<times> ('p, 'r) suite_state" where
  "on_rng f s = (case f (ss_rng s) of (x, rng) \<Rightarrow> (x, s\<lparr>ss_rng := rng\<rparr>))"

definition pure_r :: "('a, 'e) result \<Rightarrow> 's \<Rightarrow> ('a, 'e) result \<times> 's" where
  "pure_r r s = (r, s)"

definition sse_encode_error :: "byte_order \<Rightarrow> string \<Rightarrow> bytes \<Rightarrow> bytes" where
  "sse_encode_error en e = sse_encode_String en (ascii e)"

text \<open>The external parts the library is linked with.\<close>

record ('p, 'r, 'f, 'sk, 'pk, 'sg, 'pok, 'pf, 'ks, 'kv, 'kg, 'ps, 'pv, 'pg, 'm, 'path, 'seed) phi_app =
  pa_bbs :: "('p, 'r, 'f, 'sk, 'pk, 'sg, 'pok, 'pf) bbs_backend"
  pa_curves :: "('r, 'ks, 'kv, 'kg, 'ps, 'pv, 'pg) curves"
  pa_seed :: "('r, 'm, 'path, 'seed, 'ks) seed_backend"
  pa_webauthn :: "('r, 'ps, 'pv, 'pg) webauthn_backend"
  pa_sha256 :: "bytes \<Rightarrow> bytes"

type_synonym ('p, 'r) handler = "bytes \<Rightarrow> i32 \<Rightarrow> ('p, 'r) suite_state \<Rightarrow> bytes \<times> ('p, 'r) suite_state"

subsection \<open>Handlers\<close>

definition wire_bbs_derive_proof ::
    "byte_order \<Rightarrow> bytes \<Rightarrow>
     ('p, 'r, 'f, 'sk, 'pk, 'sg, 'pok, 'pf, 'ks, 'kv, 'kg, 'ps, 'pv, 'pg, 'm, 'path, 'seed) phi_app \<Rightarrow>
     ('p, 'r) handler" where
  "wire_bbs_derive_proof en panic_text A vec data_len =
     wrap_normal en panic_text
       (fst (bind_s (sse_decode_vec_vec_u8 en) (\<lambda>api_claims.
             bind_s (sse_decode_vec_u8 en) (\<lambda>api_signature.
             bind_s (sse_decode_vec_u32 en) (\<lambda>api_reveal.
             bind_s (sse_decode_vec_u8 en) (\<lambda>api_nonce.
             bind_s sse_end (\<lambda>_. lift_s (Ok (api_claims, api_signature, api_reveal, api_nonce)))))))
           (sse_new vec data_len)))
       (\<lambda>(api_claims, api_signature, api_reveal, api_nonce).
          reply_with (sse_encode_vec_u8 en) (sse_encode_error en)
            (fl_bbs_derive_proof (pa_bbs A) api_claims api_signature api_reveal api_nonce))"

definition wire_bbs_generate_keypair ::
    "byte_order \<Rightarrow> bytes \<Rightarrow>
     ('p, 'r, 'f, 'sk, 'pk, 'sg, 'pok, 'pf, 'ks, 'kv, 'kg, 'ps, 'pv, 'pg, 'm, 'path, 'seed) phi_app \<Rightarrow>
     ('p, 'r) handler" where
  "wire_bbs_generate_keypair en panic_text A vec data_len =
     wrap_normal en panic_text
       (fst (bind_s (sse_decode_u32 en) (\<lambda>api_message_count.
             bind_s sse_end (\<lambda>_. lift_s (Ok api_message_count))) (sse_new vec data_len)))
       (\<lambda>api_message_count.
          reply_with (sse_encode_PhiBbsKeyPair en) (sse_encode_error en)
            (fl_bbs_generate_keypair (pa_bbs A) api_message_count))"

definition wire_bbs_sign_credential ::
    "byte_order \<Rightarrow> bytes \<Rightarrow>
     ('p, 'r, 'f, 'sk, 'pk, 'sg, 'pok, 'pf, 'ks, 'kv, 'kg, 'ps, 'pv, 'pg, 'm, 'path, 'seed) phi_app \<Rightarrow>
     ('p, 'r) handler" where
  "wire_bbs_sign_credential en panic_text A vec data_len =
     wrap_normal en panic_text
       (fst (bind_s (sse_decode_vec_vec_u8 en) (\<lambda>api_claims.
             bind_s (sse_decode_vec_u8 en) (\<lambda>api_secret.
             bind_s sse_end (\<lambda>_. lift_s (Ok (api_claims, api_secret))))) (sse_new vec data_len)))
       (\<lambda>(api_claims, api_secret).
          reply_with (sse_encode_vec_u8 en) (sse_encode_error en)
            (fl_bbs_sign_credential (pa_bbs A) api_claims api_secret))"

definition wire_bbs_verify_proof ::
    "byte_order \<Rightarrow> bytes \<Rightarrow>
     ('p, 'r, 'f, 'sk, 'pk, 'sg, 'pok, 'pf, 'ks, 'kv, 'kg, 'ps, 'pv, 'pg, 'm, 'path, 'seed) phi_app \<Rightarrow>
     ('p, 'r) handler" where
  "wire_bbs_verify_proof en panic_text A vec data_len =
     wrap_normal en panic_text
       (fst (bind_s (sse_decode_vec_u8 en) (\<lambda>api_proof.
             bind_s (sse_decode_vec_u8 en) (\<lambda>api_public_key.
             bind_s (sse_decode_vec_u8 en) (\<lambda>api_nonce.
             bind_s sse_end (\<lambda>_. lift_s (Ok (api_proof, api_public_key, api_nonce)))))) (sse_new vec data_len)))
       (\<lambda>(api_proof, api_public_key, api_nonce).
          reply_with sse_encode_bool (\<lambda>_. sse_encode_unit ())
            (fl_bbs_verify_proof (pa_bbs A) api_proof api_public_key api_nonce))"

definition wire_compute_nullifier ::
    "byte_order \<Rightarrow> bytes \<Rightarrow>
     ('p, 'r, 'f, 'sk, 'pk, 'sg, 'pok, 'pf, 'ks, 'kv, 'kg, 'ps, 'pv, 'pg, 'm, 'path, 'seed) phi_app \<Rightarrow>
     ('p, 'r) handler" where
  "wire_compute_nullifier en panic_text A vec data_len =
     wrap_normal en panic_text
       (fst (bind_s (sse_decode_vec_u8 en) (\<lambda>api_secret.
             bind_s (sse_decode_vec_u8 en) (\<lambda>api_topic.
             bind_s sse_end (\<lambda>_. lift_s (Ok (api_secret, api_topic))))) (sse_new vec data_len)))
       (\<lambda>(api_secret, api_topic).
          reply_with (sse_encode_vec_u8 en) sse_encode_unit
            (pure_r (Ok (fl_compute_nullifier (pa_sha256 A) api_secret api_topic))))"

definition wire_did_from_public ::
    "byte_order \<Rightarrow> bytes \<Rightarrow>
     ('p, 'r, 'f, 'sk, 'pk, 'sg, 'pok, 'pf, 'ks, 'kv, 'kg, 'ps, 'pv, 'pg, 'm, 'path, 'seed) phi_app \<Rightarrow>
     ('p, 'r) handler" where
  "wire_did_from_public en panic_text A vec data_len =
     wrap_normal en panic_text
       (fst (bind_s sse_decode_u8 (\<lambda>api_curve.
             bind_s (sse_decode_vec_u8 en) (\<lambda>api_public_key.
             bind_s sse_end (\<lambda>_. lift_s (Ok (api_curve, api_public_key))))) (sse_new vec data_len)))
       (\<lambda>(api_curve, api_public_key).
          reply_with (sse_encode_String en) (sse_encode_error en)
            (pure_r (fl_did_from_public (pa_sha256 A) (pa_curves A) api_curve api_public_key)))"

definition wire_generate_keypair ::
    "byte_order \<Rightarrow> bytes \<Rightarrow>
     ('p, 'r, 'f, 'sk, 'pk, 'sg, 'pok, 'pf, 'ks, 'kv, 'kg, 'ps, 'pv, 'pg, 'm, 'path, 'seed) phi_app \<Rightarrow>
     ('p, 'r) handler" where
  "wire_generate_keypair en panic_text A vec data_len =
     wrap_normal en panic_text
       (fst (bind_s sse_decode_u8 (\<lambda>api_curve.
             bind_s sse_end (\<lambda>_. lift_s (Ok api_curve))) (sse_new vec data_len)))
       (\<lambda>api_curve.
          reply_with (sse_encode_PhiKeyPair en) (sse_encode_error en)
            (on_rng (fl_generate_keypair (pa_curves A) api_curve)))"

definition wire_seed_derive_k1 ::
    "byte_order \<Rightarrow> bytes \<Rightarrow>
     ('p, 'r, 'f, 'sk, 'pk, 'sg, 'pok, 'pf, 'ks, 'kv, 'kg, 'ps, 'pv, 'pg, 'm, 'path, 'seed) phi_app \<Rightarrow>
     ('p, 'r) handler" where
  "wire_seed_derive_k1 en panic_text A vec data_len =
     wrap_normal en panic_text
       (fst (bind_s (sse_decode_String en) (\<lambda>api_mnemonic.
             bind_s (sse_decode_String en) (\<lambda>api_passphrase.
             bind_s sse_end (\<lambda>_. lift_s (Ok (api_mnemonic, api_passphrase))))) (sse_new vec data_len)))
       (\<lambda>(api_mnemonic, api_passphrase).
          reply_with (sse_encode_PhiKeyPair en) (sse_encode_error en)
            (pure_r (fl_seed_derive_k1 (pa_seed A) (cv_k256 (pa_curves A)) api_mnemonic api_passphrase)))"

definition wire_seed_generate_mnemonic ::
    "byte_order \<Rightarrow> bytes \<Rightarrow>
     ('p, 'r, 'f, 'sk, 'pk, 'sg, 'pok, 'pf, 'ks, 'kv, 'kg, 'ps, 'pv, 'pg, 'm, 'path, 'seed) phi_app \<Rightarrow>
     ('p, 'r) handler" where
  "wire_seed_generate_mnemonic en panic_text A vec data_len =
     wrap_normal en panic_text
       (fst (bind_s sse_end (\<lambda>_. lift_s (Ok ())) (sse_new vec data_len)))
       (\<lambda>_. reply_with (sse_encode_String en) sse_encode_unit
          (on_rng (\<lambda>rng. case fl_seed_generate_mnemonic (pa_seed A) rng of (phrase, rng) \<Rightarrow> (Ok phrase, rng))))"

definition wire_semaphore_bind_nonce ::
    "byte_order \<Rightarrow> bytes \<Rightarrow>
     ('p, 'r, 'f, 'sk, 'pk, 'sg, 'pok, 'pf, 'ks, 'kv, 'kg, 'ps, 'pv, 'pg, 'm, 'path, 'seed) phi_app \<Rightarrow>
     ('p, 'r) handler" where
  "wire_semaphore_bind_nonce en panic_text A vec data_len =
     wrap_normal en panic_text
       (fst (bind_s (sse_decode_vec_u8 en) (\<lambda>api_election_id.
             bind_s (sse_decode_vec_u8 en) (\<lambda>api_nullifier.
             bind_s (sse_decode_vec_u8 en) (\<lambda>api_signal.
             bind_s sse_end (\<lambda>_. lift_s (Ok (api_election_id, api_nullifier, api_signal))))))
           (sse_new vec data_len)))
       (\<lambda>(api_election_id, api_nullifier, api_signal).
          reply_with (sse_encode_vec_u8 en) sse_encode_unit
            (pure_r (Ok (fl_semaphore_bind_nonce (pa_sha256 A) api_election_id api_nullifier api_signal))))"

definition wire_semaphore_nullifier ::
    "byte_order \<Rightarrow> bytes \<Rightarrow>
     ('p, 'r, 'f, 'sk, 'pk, 'sg, 'pok, 'pf, 'ks, 'kv, 'kg, 'ps, 'pv, 'pg, 'm, 'path, 'seed) phi_app \<Rightarrow>
     ('p, 'r) handler" where
  "wire_semaphore_nullifier en panic_text A vec data_len =
     wrap_normal en panic_text
       (fst (bind_s (sse_decode_vec_u8 en) (\<lambda>api_secret.
             bind_s (sse_decode_vec_u8 en) (\<lambda>api_election_id.
             bind_s sse_end (\<lambda>_. lift_s (Ok (api_secret, api_election_id))))) (sse_new vec data_len)))
       (\<lambda>(api_secret, api_election_id).
          reply_with (sse_encode_vec_u8 en) sse_encode_unit
            (pure_r (Ok (fl_semaphore_nullifier (pa_sha256 A) api_secret api_election_id))))"

definition wire_sign ::
    "byte_order \<Rightarrow> bytes \<Rightarrow>
     ('p, 'r, 'f, 'sk, 'pk, 'sg, 'pok, 'pf, 'ks, 'kv, 'kg, 'ps, 'pv, 'pg, 'm, 'path, 'seed) phi_app \<Rightarrow>
     ('p, 'r) handler" where
  "wire_sign en panic_text A vec data_len =
     wrap_normal en panic_text
       (fst (bind_s sse_decode_u8 (\<lambda>api_curve.
             bind_s (sse_decode_vec_u8 en) (\<lambda>api_secret.
             bind_s (sse_decode_vec_u8 en) (\<lambda>api_msg.
             bind_s sse_end (\<lambda>_. lift_s (Ok (api_curve, api_secret, api_msg)))))) (sse_new vec data_len)))
       (\<lambda>(api_curve, api_secret, api_msg).
          reply_with (sse_encode_vec_u8 en) (sse_encode_error en)
            (pure_r (fl_sign (pa_curves A) api_curve api_secret api_msg)))"

definition wire_verify_signature ::
    "byte_order \<Rightarrow> bytes \<Rightarrow>
     ('p, 'r, 'f, 'sk, 'pk, 'sg, 'pok, 'pf, 'ks, 'kv, 'kg, 'ps, 'pv, 'pg, 'm, 'path, 'seed) phi_app \<Rightarrow>
     ('p, 'r) handler" where
  "wire_verify_signature en panic_text A vec data_len =
     wrap_normal en panic_text
       (fst (bind_s sse_decode_u8 (\<lambda>api_curve.
             bind_s (sse_decode_vec_u8 en) (\<lambda>api_public_key.
             bind_s (sse_decode_vec_u8 en) (\<lambda>api_msg.
             bind_s (sse_decode_vec_u8 en) (\<lambda>api_sig.
             bind_s sse_end (\<lambda>_. lift_s (Ok (api_curve, api_public_key, api_msg, api_sig)))))))
           (sse_new vec data_len)))
       (\<lambda>(api_curve, api_public_key, api_msg, api_sig).
          reply_with sse_encode_bool sse_encode_unit
            (pure_r (Ok (fl_verify_signature (pa_curves A) api_curve api_public_key api_msg api_sig))))"

definition wire_webauthn_verify ::
    "byte_order \<Rightarrow> bytes \<Rightarrow>
     ('p, 'r, 'f, 'sk, 'pk, 'sg, 'pok, 'pf, 'ks, 'kv, 'kg, 'ps, 'pv, 'pg, 'm, 'path, 'seed) phi_app \<Rightarrow>
     ('p, 'r) handler" where
  "wire_webauthn_verify en panic_text A vec data_len =
     wrap_normal en panic_text
       (fst (bind_s (sse_decode_vec_u8 en) (\<lambda>api_auth_data.
             bind_s (sse_decode_vec_u8 en) (\<lambda>api_client_data_json.
             bind_s (sse_decode_vec_u8 en) (\<lambda>api_signature.
             bind_s (sse_decode_vec_u8 en) (\<lambda>api_challenge.
             bind_s (sse_decode_vec_u8 en) (\<lambda>api_public_key.
             bind_s (sse_decode_String en) (\<lambda>api_origin.
             bind_s (sse_decode_String en) (\<lambda>api_rp_id.
             bind_s sse_decode_bool (\<lambda>api_require_uv.
             bind_s sse_end (\<lambda>_. lift_s (Ok (api_auth_data, api_client_data_json, api_signature,
               api_challenge, api_public_key, api_origin, api_rp_id, api_require_uv)))))))))))
           (sse_new vec data_len)))
       (\<lambda>(api_auth_data, api_client_data_json, api_signature, api_challenge, api_public_key, api_origin,
          api_rp_id, api_require_uv).
          reply_with sse_encode_bool (\<lambda>_. sse_encode_unit ())
            (pure_r (fl_webauthn_verify (pa_webauthn A) api_auth_data api_client_data_json api_signature
               api_challenge api_public_key api_origin api_rp_id api_require_uv)))"

text \<open>The dispatcher; \<open>unreachable!()\<close> outside the numbers it knows.\<close>

definition pde_ffi_dispatcher_primary ::
    "byte_order \<Rightarrow> bytes \<Rightarrow>
     ('p, 'r, 'f, 'sk, 'pk, 'sg, 'pok, 'pf, 'ks, 'kv, 'kg, 'ps, 'pv, 'pg, 'm, 'path, 'seed) phi_app \<Rightarrow>
     i32 \<Rightarrow> bytes \<Rightarrow> i32 \<Rightarrow> ('p, 'r) suite_state \<Rightarrow> (bytes \<times> ('p, 'r) suite_state, crypto_error) result" where
  "pde_ffi_dispatcher_primary en panic_text A func_id vec data_len s =
     (if func_id = 1 then Ok (wire_bbs_derive_proof en panic_text A vec data_len s)
      else if func_id = 2 then Ok (wire_bbs_generate_keypair en panic_text A vec data_len s)
      else if func_id = 3 then Ok (wire_bbs_sign_credential en panic_text A vec data_len s)
      else if func_id = 4 then Ok (wire_bbs_verify_proof en panic_text A vec data_len s)
      else if func_id = 5 then Ok (wire_compute_nullifier en panic_text A vec data_len s)
      else if func_id = 6 then Ok (wire_did_from_public en panic_text A vec data_len s)
      else if func_id = 7 then Ok (wire_generate_keypair en panic_text A vec data_len s)
      else if func_id = 8 then Ok (wire_seed_derive_k1 en panic_text A vec data_len s)
      else if func_id = 9 then Ok (wire_seed_generate_mnemonic en panic_text A vec data_len s)
      else if func_id = 10 then Ok (wire_semaphore_bind_nonce en panic_text A vec data_len s)
      else if func_id = 11 then Ok (wire_semaphore_nullifier en panic_text A vec data_len s)
      else if func_id = 12 then Ok (wire_sign en panic_text A vec data_len s)
      else if func_id = 13 then Ok (wire_verify_signature en panic_text A vec data_len s)
      else if func_id = 14 then Ok (wire_webauthn_verify en panic_text A vec data_len s)
      else Panic)"


text \<open>No function is called synchronously: \<open>unreachable!()\<close> for every number.\<close>

definition pde_ffi_dispatcher_sync :: "i32 \<Rightarrow> (bytes, crypto_error) result" where
  "pde_ffi_dispatcher_sync func_id = Panic"

end
