(* ===== verification/Phi_Bridge_Props.thy ===== *)
theory Phi_Bridge_Props
  imports Phi_Bridge
begin

section \<open>What a call over the mobile bridge does\<close>

text \<open>
  The abstract view of the bridge: a call names a function of \<open>api.rs\<close> with its arguments, is
  written as a numbered message by the generated Dart caller (\<open>frb_generated.dart\<close>), and is
  answered with the encoded result of that function. The handlers refine this view, and no
  byte string other than the encoding of a call reaches the library.
\<close>

datatype api_call =
    BbsDeriveProof "bytes list" bytes "u32 list" bytes
  | BbsGenerateKeypair u32
  | BbsSignCredential "bytes list" bytes
  | BbsVerifyProof bytes bytes bytes
  | ComputeNullifier bytes bytes
  | DidFromPublic byte bytes
  | GenerateKeypair byte
  | SeedDeriveK1 str str
  | SeedGenerateMnemonic
  | SemaphoreBindNonce bytes bytes bytes
  | SemaphoreNullifier bytes bytes
  | Sign byte bytes bytes
  | VerifySignature byte bytes bytes bytes
  | WebauthnVerify bytes bytes bytes bytes bytes str str bool

primrec funcId :: "api_call \<Rightarrow> i32" where
  "funcId (BbsDeriveProof claims signature reveal nonce) = 1"
| "funcId (BbsGenerateKeypair message_count) = 2"
| "funcId (BbsSignCredential claims secret) = 3"
| "funcId (BbsVerifyProof pf public_key nonce) = 4"
| "funcId (ComputeNullifier secret topic) = 5"
| "funcId (DidFromPublic curve public_key) = 6"
| "funcId (GenerateKeypair curve) = 7"
| "funcId (SeedDeriveK1 mnemonic passphrase) = 8"
| "funcId SeedGenerateMnemonic = 9"
| "funcId (SemaphoreBindNonce election_id nullifier signal) = 10"
| "funcId (SemaphoreNullifier secret election_id) = 11"
| "funcId (Sign curve secret msg) = 12"
| "funcId (VerifySignature curve public_key msg sig) = 13"
| "funcId (WebauthnVerify auth_data client_data signature chal public_key origin rp_id require_uv) = 14"

text \<open>The arguments in the order the caller writes them.\<close>

primrec call_bytes :: "byte_order \<Rightarrow> api_call \<Rightarrow> bytes" where
  "call_bytes en (BbsDeriveProof claims signature reveal nonce) =
     sse_encode_vec_u8 en nonce (sse_encode_vec_u32 en reveal
       (sse_encode_vec_u8 en signature (sse_encode_vec_vec_u8 en claims [])))"
| "call_bytes en (BbsGenerateKeypair message_count) = sse_encode_u32 en message_count []"
| "call_bytes en (BbsSignCredential claims secret) =
     sse_encode_vec_u8 en secret (sse_encode_vec_vec_u8 en claims [])"
| "call_bytes en (BbsVerifyProof pf public_key nonce) =
     sse_encode_vec_u8 en nonce (sse_encode_vec_u8 en public_key (sse_encode_vec_u8 en pf []))"
| "call_bytes en (ComputeNullifier secret topic) = sse_encode_vec_u8 en topic (sse_encode_vec_u8 en secret [])"
| "call_bytes en (DidFromPublic curve public_key) = sse_encode_vec_u8 en public_key (sse_encode_u8 curve [])"
| "call_bytes en (GenerateKeypair curve) = sse_encode_u8 curve []"
| "call_bytes en (SeedDeriveK1 mnemonic passphrase) =
     sse_encode_String en passphrase (sse_encode_String en mnemonic [])"
| "call_bytes en SeedGenerateMnemonic = []"
| "call_bytes en (SemaphoreBindNonce election_id nullifier signal) =
     sse_encode_vec_u8 en signal (sse_encode_vec_u8 en nullifier (sse_encode_vec_u8 en election_id []))"
| "call_bytes en (SemaphoreNullifier secret election_id) =
     sse_encode_vec_u8 en election_id (sse_encode_vec_u8 en secret [])"
| "call_bytes en (Sign curve secret msg) =
     sse_encode_vec_u8 en msg (sse_encode_vec_u8 en secret (sse_encode_u8 curve []))"
| "call_bytes en (VerifySignature curve public_key msg sig) =
     sse_encode_vec_u8 en sig (sse_encode_vec_u8 en msg (sse_encode_vec_u8 en public_key (sse_encode_u8 curve [])))"
| "call_bytes en (WebauthnVerify auth_data client_data signature chal public_key origin rp_id require_uv) =
     sse_encode_bool require_uv (sse_encode_String en rp_id (sse_encode_String en origin
       (sse_encode_vec_u8 en public_key (sse_encode_vec_u8 en chal (sse_encode_vec_u8 en signature
         (sse_encode_vec_u8 en client_data (sse_encode_vec_u8 en auth_data [])))))))"

text \<open>A call that can be written: lengths within \<open>i32\<close>, strings valid.\<close>

definition str_fits :: "str \<Rightarrow> bool" where
  "str_fits v \<longleftrightarrow> fits_i32 v \<and> from_utf8 v = Some v"

primrec call_fits :: "api_call \<Rightarrow> bool" where
  "call_fits (BbsDeriveProof claims signature reveal nonce) \<longleftrightarrow>
     (fits_i32 claims \<and> list_all fits_i32 claims) \<and> fits_i32 signature \<and> fits_i32 reveal \<and> fits_i32 nonce"
| "call_fits (BbsGenerateKeypair message_count) \<longleftrightarrow> True"
| "call_fits (BbsSignCredential claims secret) \<longleftrightarrow> (fits_i32 claims \<and> list_all fits_i32 claims) \<and> fits_i32 secret"
| "call_fits (BbsVerifyProof pf public_key nonce) \<longleftrightarrow> fits_i32 pf \<and> fits_i32 public_key \<and> fits_i32 nonce"
| "call_fits (ComputeNullifier secret topic) \<longleftrightarrow> fits_i32 secret \<and> fits_i32 topic"
| "call_fits (DidFromPublic curve public_key) \<longleftrightarrow> fits_i32 public_key"
| "call_fits (GenerateKeypair curve) \<longleftrightarrow> True"
| "call_fits (SeedDeriveK1 mnemonic passphrase) \<longleftrightarrow> str_fits mnemonic \<and> str_fits passphrase"
| "call_fits SeedGenerateMnemonic \<longleftrightarrow> True"
| "call_fits (SemaphoreBindNonce election_id nullifier signal) \<longleftrightarrow>
     fits_i32 election_id \<and> fits_i32 nullifier \<and> fits_i32 signal"
| "call_fits (SemaphoreNullifier secret election_id) \<longleftrightarrow> fits_i32 secret \<and> fits_i32 election_id"
| "call_fits (Sign curve secret msg) \<longleftrightarrow> fits_i32 secret \<and> fits_i32 msg"
| "call_fits (VerifySignature curve public_key msg sig) \<longleftrightarrow> fits_i32 public_key \<and> fits_i32 msg \<and> fits_i32 sig"
| "call_fits (WebauthnVerify auth_data client_data signature chal public_key origin rp_id require_uv) \<longleftrightarrow>
     fits_i32 auth_data \<and> fits_i32 client_data \<and> fits_i32 signature \<and> fits_i32 chal \<and> fits_i32 public_key
     \<and> str_fits origin \<and> str_fits rp_id"

subsection \<open>Results\<close>

datatype api_value = V_bytes bytes | V_bool bool | V_str str | V_kp PhiKeyPair | V_bbs_kp PhiBbsKeyPair
datatype api_failure = F_text string | F_unit

primrec value_bytes :: "byte_order \<Rightarrow> api_value \<Rightarrow> bytes \<Rightarrow> bytes" where
  "value_bytes en (V_bytes b) = sse_encode_vec_u8 en b"
| "value_bytes en (V_bool b) = sse_encode_bool b"
| "value_bytes en (V_str t) = sse_encode_String en t"
| "value_bytes en (V_kp kp) = sse_encode_PhiKeyPair en kp"
| "value_bytes en (V_bbs_kp kp) = sse_encode_PhiBbsKeyPair en kp"

primrec failure_bytes :: "byte_order \<Rightarrow> api_failure \<Rightarrow> bytes \<Rightarrow> bytes" where
  "failure_bytes en (F_text e) = sse_encode_error en e"
| "failure_bytes en F_unit = sse_encode_unit ()"

definition as_value ::
    "('a \<Rightarrow> api_value) \<Rightarrow> ('e \<Rightarrow> api_failure) \<Rightarrow> ('s \<Rightarrow> ('a, 'e) result \<times> 's) \<Rightarrow> 's \<Rightarrow>
     (api_value, api_failure) result \<times> 's" where
  "as_value v f m s = (case m s of
       (Ok x, s') \<Rightarrow> (Ok (v x), s') | (Err e, s') \<Rightarrow> (Err (f e), s') | (Panic, s') \<Rightarrow> (Panic, s'))"

text \<open>The function of \<open>api.rs\<close> a call names, run in the state of the library.\<close>

primrec api_run ::
    "('p, 'r, 'f, 'sk, 'pk, 'sg, 'pok, 'pf, 'ks, 'kv, 'kg, 'ps, 'pv, 'pg, 'm, 'path, 'seed) phi_app \<Rightarrow>
     api_call \<Rightarrow> ('p, 'r) suite_state \<Rightarrow> (api_value, api_failure) result \<times> ('p, 'r) suite_state" where
  "api_run A (BbsDeriveProof claims signature reveal nonce) =
     as_value V_bytes F_text (fl_bbs_derive_proof (pa_bbs A) claims signature reveal nonce)"
| "api_run A (BbsGenerateKeypair message_count) =
     as_value V_bbs_kp F_text (fl_bbs_generate_keypair (pa_bbs A) message_count)"
| "api_run A (BbsSignCredential claims secret) =
     as_value V_bytes F_text (fl_bbs_sign_credential (pa_bbs A) claims secret)"
| "api_run A (BbsVerifyProof pf public_key nonce) =
     as_value V_bool (\<lambda>_. F_unit) (fl_bbs_verify_proof (pa_bbs A) pf public_key nonce)"
| "api_run A (ComputeNullifier secret topic) =
     (\<lambda>s. (Ok (V_bytes (fl_compute_nullifier (pa_sha256 A) secret topic)), s))"
| "api_run A (DidFromPublic curve public_key) =
     as_value V_str F_text (pure_r (fl_did_from_public (pa_sha256 A) (pa_curves A) curve public_key))"
| "api_run A (GenerateKeypair curve) = as_value V_kp F_text (on_rng (fl_generate_keypair (pa_curves A) curve))"
| "api_run A (SeedDeriveK1 mnemonic passphrase) =
     as_value V_kp F_text (pure_r (fl_seed_derive_k1 (pa_seed A) (cv_k256 (pa_curves A)) mnemonic passphrase))"
| "api_run A SeedGenerateMnemonic =
     (\<lambda>s. case on_rng (fl_seed_generate_mnemonic (pa_seed A)) s of (phrase, s') \<Rightarrow> (Ok (V_str phrase), s'))"
| "api_run A (SemaphoreBindNonce election_id nullifier signal) =
     (\<lambda>s. (Ok (V_bytes (fl_semaphore_bind_nonce (pa_sha256 A) election_id nullifier signal)), s))"
| "api_run A (SemaphoreNullifier secret election_id) =
     (\<lambda>s. (Ok (V_bytes (fl_semaphore_nullifier (pa_sha256 A) secret election_id)), s))"
| "api_run A (Sign curve secret msg) = as_value V_bytes F_text (pure_r (fl_sign (pa_curves A) curve secret msg))"
| "api_run A (VerifySignature curve public_key msg sig) =
     (\<lambda>s. (Ok (V_bool (fl_verify_signature (pa_curves A) curve public_key msg sig)), s))"
| "api_run A (WebauthnVerify auth_data client_data signature chal public_key origin rp_id require_uv) =
     as_value V_bool (\<lambda>_. F_unit) (pure_r (fl_webauthn_verify (pa_webauthn A) auth_data client_data signature chal
       public_key origin rp_id require_uv))"

definition answer :: "byte_order \<Rightarrow> bytes \<Rightarrow> (api_value, api_failure) result \<Rightarrow> bytes" where
  "answer en panic_text r = (case r of
       Ok v \<Rightarrow> SseCodec_encode Act_Success (value_bytes en v)
     | Err e \<Rightarrow> SseCodec_encode Act_Error (failure_bytes en e)
     | Panic \<Rightarrow> encode_panic en panic_text)"

definition serve ::
    "byte_order \<Rightarrow> bytes \<Rightarrow>
     ('p, 'r, 'f, 'sk, 'pk, 'sg, 'pok, 'pf, 'ks, 'kv, 'kg, 'ps, 'pv, 'pg, 'm, 'path, 'seed) phi_app \<Rightarrow>
     api_call \<Rightarrow> ('p, 'r) suite_state \<Rightarrow> bytes \<times> ('p, 'r) suite_state" where
  "serve en panic_text A call s = (case api_run A call s of (r, s') \<Rightarrow> (answer en panic_text r, s'))"

lemma execute_reply:
  assumes "\<And>x. eo x = value_bytes en (v x)" "\<And>e. ee e = failure_bytes en (f e)"
  shows "execute_normal en pt (reply_with eo ee m) s
       = (case as_value v f m s of (r, s') \<Rightarrow> (answer en pt r, s'))"
  using assms
  by (cases "m s"; cases "fst (m s)")
     (simp_all add: execute_normal_def reply_with_def transform_result_sse_def as_value_def answer_def)

subsection \<open>Messages\<close>

text \<open>Two fields in sequence.\<close>

definition seq :: "(sse_deserializer, 'a) st \<Rightarrow> (sse_deserializer, 'b) st \<Rightarrow> (sse_deserializer, 'a \<times> 'b) st" where
  "seq D E = bind_s D (\<lambda>x. bind_s E (\<lambda>y. lift_s (Ok (x, y))))"

definition seq_shape :: "('a \<Rightarrow> bytes \<Rightarrow> bool) \<Rightarrow> ('b \<Rightarrow> bytes \<Rightarrow> bool) \<Rightarrow> 'a \<times> 'b \<Rightarrow> bytes \<Rightarrow> bool" where
  "seq_shape S T xy b \<longleftrightarrow> (\<exists>b1 b2. S (fst xy) b1 \<and> T (snd xy) b2 \<and> b = b1 @ b2)"

lemma seq_type:
  assumes "sse_type D S" "sse_type E T"
  shows "sse_type (seq D E) (seq_shape S T)"
proof
  fix d xy d'
  show "seq D E d = (Ok xy, d') \<longleftrightarrow> (\<exists>b. seq_shape S T xy b \<and> steps d b d')" (is "?L \<longleftrightarrow> ?R")
  proof
    assume ?L
    then obtain b1 d1 b2 where "S (fst xy) b1" "T (snd xy) b2" "steps d b1 d1" "steps d1 b2 d'"
      by (auto simp: seq_def sse_type.bind_Ok [OF assms(1)] sse_type.bind_Ok [OF assms(2)])
    then show ?R unfolding seq_shape_def using steps_trans by blast
  next
    assume ?R
    then obtain b1 d1 b2 where "S (fst xy) b1" "T (snd xy) b2" "steps d b1 d1" "steps d1 b2 d'"
      by (auto simp: seq_shape_def steps_append)
    then show ?L
      by (simp add: seq_def sse_type.bind_Ok [OF assms(1)] sse_type.bind_Ok [OF assms(2)]) (metis prod.collapse)
  qed
next
  show "fst (seq D E d) \<noteq> Err e" for d e
    unfolding seq_def by (intro not_Err_bind) (simp_all add: sse_type.not_Err [OF assms(1)] sse_type.not_Err [OF assms(2)])
qed

lemma bind_s_assoc: "bind_s (bind_s m f) g = bind_s m (\<lambda>x. bind_s (f x) g)"
  by (simp add: fun_eq_iff bind_s_def split: prod.split result.split)

lemma bind_s_Ok: "bind_s (lift_s (Ok x)) f = f x"
  by (simp add: fun_eq_iff bind_s_def)

text \<open>A message is delivered to its handler when one value's bytes fill it exactly.\<close>

definition exactly :: "bytes \<Rightarrow> i32 \<Rightarrow> bytes \<Rightarrow> bool" where
  "exactly vec data_len b \<longleftrightarrow> (\<exists>rest. vec = b @ rest) \<and> unat (scast data_len :: u64) = length b"

definition deliver ::
    "byte_order \<Rightarrow> bytes \<Rightarrow> (sse_deserializer, 'a) st \<Rightarrow> ('a \<Rightarrow> 's \<Rightarrow> bytes \<times> 's) \<Rightarrow> bytes \<Rightarrow> i32 \<Rightarrow>
     's \<Rightarrow> bytes \<times> 's" where
  "deliver en pt D run vec data_len s =
     (case fst (bind_s D (\<lambda>x. bind_s sse_end (\<lambda>_. lift_s (Ok x))) (sse_new vec data_len)) of
        Ok x \<Rightarrow> run x s
      | _ \<Rightarrow> (encode_panic en pt, s))"

lemma prepared_Ok:
  assumes "sse_type D S"
  shows "fst (bind_s D (\<lambda>x. bind_s sse_end (\<lambda>_. lift_s (Ok x))) (sse_new vec data_len)) = Ok x
     \<longleftrightarrow> (\<exists>b. S x b \<and> exactly vec data_len b)" (is "fst ?m = Ok x \<longleftrightarrow> ?R")
proof -
  have e: "steps (sse_new vec data_len) b d1 \<and> bind_s sse_end (\<lambda>_. lift_s (Ok y)) d1 = (Ok x, d')
      \<longleftrightarrow> exactly vec data_len b \<and> y = x \<and> d1 = advance (length b) (sse_new vec data_len) \<and> d' = d1" for b y d1 d'
    by (auto simp: steps_def sse_new_def sd_left_def exactly_def bind_s_def sse_end_def advance_def)
  have "fst ?m = Ok x \<longleftrightarrow> (\<exists>d'. ?m = (Ok x, d'))" by (cases ?m) simp
  also have "\<dots> \<longleftrightarrow> ?R" unfolding sse_type.bind_Ok [OF assms] e by blast
  finally show ?thesis .
qed

lemma deliver_exact:
  assumes "sse_type D S" "S x b" "exactly vec data_len b"
  shows "deliver en pt D run vec data_len s = run x s"
  using prepared_Ok [OF assms(1), of vec data_len x] assms(2,3) by (auto simp: deliver_def)

lemma deliver_cases:
  assumes "sse_type D S"
  shows "deliver en pt D run vec data_len s = (encode_panic en pt, s)
     \<or> (\<exists>x b. S x b \<and> exactly vec data_len b \<and> deliver en pt D run vec data_len s = run x s)"
proof (cases "fst (bind_s D (\<lambda>x. bind_s sse_end (\<lambda>_. lift_s (Ok x))) (sse_new vec data_len))")
  case (Ok x)
  then show ?thesis using prepared_Ok [OF assms, of vec data_len x] by (auto simp: deliver_def)
qed (simp_all add: deliver_def)


text \<open>
  The byte strings that carry a call: its encoding, where a requirement of user verification
  may be any non-zero byte.
\<close>

fun wants_uv :: "api_call \<Rightarrow> bool" where
  "wants_uv (WebauthnVerify auth_data client_data signature chal public_key origin rp_id require_uv) = require_uv"
| "wants_uv call = False"

definition carries :: "byte_order \<Rightarrow> bytes \<Rightarrow> api_call \<Rightarrow> bool" where
  "carries en b call \<longleftrightarrow> call_fits call \<and> (b = call_bytes en call
     \<or> (\<exists>w. wants_uv call \<and> w \<noteq> 0 \<and> b = butlast (call_bytes en call) @ [w]))"

lemma carries_exact: "\<not> wants_uv call \<Longrightarrow> carries en b call \<longleftrightarrow> call_fits call \<and> b = call_bytes en call"
  by (simp add: carries_def)

lemma carries_own: "call_fits call \<Longrightarrow> carries en (call_bytes en call) call"
  by (simp add: carries_def)

text \<open>A handler that delivers messages of a shape to a call.\<close>

definition handles ::
    "byte_order \<Rightarrow> bytes \<Rightarrow>
     ('p, 'r, 'f, 'sk, 'pk, 'sg, 'pok, 'pf, 'ks, 'kv, 'kg, 'ps, 'pv, 'pg, 'm, 'path, 'seed) phi_app \<Rightarrow>
     i32 \<Rightarrow> ('p, 'r) handler \<Rightarrow> bool" where
  "handles en pt A n h \<longleftrightarrow>
     (\<forall>call b vec data_len s. funcId call = n \<and> carries en b call \<and> exactly vec data_len b \<longrightarrow>
        h vec data_len s = serve en pt A call s)
     \<and> (\<forall>vec data_len s. h vec data_len s = (encode_panic en pt, s)
        \<or> (\<exists>call b. funcId call = n \<and> carries en b call \<and> exactly vec data_len b
             \<and> h vec data_len s = serve en pt A call s))"

lemma bind_seq: "bind_s (seq D E) k = bind_s D (\<lambda>x. bind_s E (\<lambda>y. k (x, y)))"
  by (simp add: seq_def bind_s_assoc bind_s_Ok del: lift_s_app)

lemma bind_unit: "bind_s sse_decode_unit k = k ()"
  by (simp add: sse_decode_unit_def bind_s_Ok del: lift_s_app)

lemma handlesI:
  assumes D: "sse_type D S"
    and h: "\<And>vec data_len. h vec data_len = wrap_normal en pt
        (fst (bind_s D (\<lambda>x. bind_s sse_end (\<lambda>_. lift_s (Ok x))) (sse_new vec data_len))) task"
    and task: "\<And>x s. execute_normal en pt (task x) s = serve en pt A (mk x) s"
    and mk: "\<And>call. funcId call = n \<longleftrightarrow> (\<exists>x. call = mk x)"
    and S: "\<And>x b. S x b \<longleftrightarrow> carries en b (mk x)"
  shows "handles en pt A n h"
  unfolding handles_def
proof (intro conjI allI impI)
  have run: "h vec data_len s = deliver en pt D (\<lambda>x. serve en pt A (mk x)) vec data_len s" for vec data_len s
    by (simp add: h wrap_normal_def deliver_def task split: result.split)
  {
    fix call b vec data_len s
    assume *: "funcId call = n \<and> carries en b call \<and> exactly vec data_len b"
    then obtain x where x: "call = mk x" using mk by blast
    then have "S x b" using * S by simp
    then show "h vec data_len s = serve en pt A call s"
      unfolding run x using * deliver_exact [OF D, of x b vec data_len en pt "\<lambda>x. serve en pt A (mk x)" s] by simp
  next
    fix vec data_len s
    show "h vec data_len s = (encode_panic en pt, s)
          \<or> (\<exists>call b. funcId call = n \<and> carries en b call \<and> exactly vec data_len b
               \<and> h vec data_len s = serve en pt A call s)"
      using deliver_cases [OF D, of en pt "\<lambda>x. serve en pt A (mk x)" vec data_len s]
      unfolding run S by (metis mk)
  }
qed

lemma execute_pure:
  assumes "\<And>x. eo x = value_bytes en (v x)"
  shows "execute_normal en pt (reply_with eo ee (pure_r (Ok x))) s = (answer en pt (Ok (v x)), s)"
  using assms by (simp add: execute_normal_def reply_with_def transform_result_sse_def answer_def pure_r_def)

lemma execute_drawn:
  "execute_normal en pt (reply_with (sse_encode_String en) ee (on_rng (\<lambda>rng. case f rng of (x, rng) \<Rightarrow> (Ok x, rng)))) s
     = (case on_rng f s of (x, s') \<Rightarrow> (answer en pt (Ok (V_str x)), s'))"
  by (simp add: execute_normal_def reply_with_def transform_result_sse_def answer_def on_rng_def split: prod.split)

lemmas executes =
  execute_reply [of "sse_encode_vec_u8 en" en V_bytes "sse_encode_error en" F_text for en, simplified]
  execute_reply [of "sse_encode_PhiBbsKeyPair en" en V_bbs_kp "sse_encode_error en" F_text for en, simplified]
  execute_reply [of "sse_encode_PhiKeyPair en" en V_kp "sse_encode_error en" F_text for en, simplified]
  execute_reply [of "sse_encode_String en" en V_str "sse_encode_error en" F_text for en, simplified]
  execute_reply [of sse_encode_bool en V_bool "\<lambda>_. sse_encode_unit ()" "\<lambda>_. F_unit" for en, simplified]
  execute_pure [of "sse_encode_vec_u8 en" en V_bytes for en, simplified]
  execute_pure [of sse_encode_bool en V_bool for en, simplified]
  execute_drawn

lemma funcId_iff:
  "funcId call = 1 \<longleftrightarrow> (\<exists>claims sg reveal nonce. call = BbsDeriveProof claims sg reveal nonce)"
  "funcId call = 2 \<longleftrightarrow> (\<exists>n. call = BbsGenerateKeypair n)"
  "funcId call = 3 \<longleftrightarrow> (\<exists>claims secret. call = BbsSignCredential claims secret)"
  "funcId call = 4 \<longleftrightarrow> (\<exists>pf public_key nonce. call = BbsVerifyProof pf public_key nonce)"
  "funcId call = 5 \<longleftrightarrow> (\<exists>secret topic. call = ComputeNullifier secret topic)"
  "funcId call = 6 \<longleftrightarrow> (\<exists>curve public_key. call = DidFromPublic curve public_key)"
  "funcId call = 7 \<longleftrightarrow> (\<exists>curve. call = GenerateKeypair curve)"
  "funcId call = 8 \<longleftrightarrow> (\<exists>mnemonic passphrase. call = SeedDeriveK1 mnemonic passphrase)"
  "funcId call = 9 \<longleftrightarrow> call = SeedGenerateMnemonic"
  "funcId call = 10 \<longleftrightarrow> (\<exists>election_id nullifier signal. call = SemaphoreBindNonce election_id nullifier signal)"
  "funcId call = 11 \<longleftrightarrow> (\<exists>secret election_id. call = SemaphoreNullifier secret election_id)"
  "funcId call = 12 \<longleftrightarrow> (\<exists>curve secret msg. call = Sign curve secret msg)"
  "funcId call = 13 \<longleftrightarrow> (\<exists>curve public_key msg sg. call = VerifySignature curve public_key msg sg)"
  "funcId call = 14 \<longleftrightarrow> (\<exists>ad cd sg ch pk og rp uv. call = WebauthnVerify ad cd sg ch pk og rp uv)"
  by (cases call; simp)+

lemmas wire_types = seq_type vec_vec_u8.sse_type_axioms vec_u8.sse_type_axioms vec_u32.sse_type_axioms
  u8.sse_type_axioms u32.sse_type_axioms str.sse_type_axioms bool.sse_type_axioms unit.sse_type_axioms

lemmas handler_simps = carries_exact seq_shape_def shape_closed encode_closed str_fits_def serve_def executes funcId_iff

lemma handles_derive: "handles en pt A 1 (wire_bbs_derive_proof en pt A)"
  by (rule handlesI [where mk = "\<lambda>(claims, sg, reveal, nonce). BbsDeriveProof claims sg reveal nonce"
        and D = "seq (sse_decode_vec_vec_u8 en) (seq (sse_decode_vec_u8 en) (seq (sse_decode_vec_u32 en) (sse_decode_vec_u8 en)))"],
      (rule wire_types)+, unfold wire_bbs_derive_proof_def bind_seq, rule refl)
     (auto simp: handler_simps)

lemma handles_bbs_keypair: "handles en pt A 2 (wire_bbs_generate_keypair en pt A)"
  by (rule handlesI [where mk = "BbsGenerateKeypair"
        and D = "sse_decode_u32 en"],
      (rule wire_types)+, unfold wire_bbs_generate_keypair_def bind_seq, rule refl)
     (auto simp: handler_simps)

lemma handles_bbs_sign: "handles en pt A 3 (wire_bbs_sign_credential en pt A)"
  by (rule handlesI [where mk = "\<lambda>(claims, secret). BbsSignCredential claims secret"
        and D = "seq (sse_decode_vec_vec_u8 en) (sse_decode_vec_u8 en)"],
      (rule wire_types)+, unfold wire_bbs_sign_credential_def bind_seq, rule refl)
     (auto simp: handler_simps)

lemma handles_bbs_verify: "handles en pt A 4 (wire_bbs_verify_proof en pt A)"
  by (rule handlesI [where mk = "\<lambda>(pf, public_key, nonce). BbsVerifyProof pf public_key nonce"
        and D = "seq (sse_decode_vec_u8 en) (seq (sse_decode_vec_u8 en) (sse_decode_vec_u8 en))"],
      (rule wire_types)+, unfold wire_bbs_verify_proof_def bind_seq, rule refl)
     (auto simp: handler_simps)

lemma handles_compute_nullifier: "handles en pt A 5 (wire_compute_nullifier en pt A)"
  by (rule handlesI [where mk = "\<lambda>(secret, topic). ComputeNullifier secret topic"
        and D = "seq (sse_decode_vec_u8 en) (sse_decode_vec_u8 en)"],
      (rule wire_types)+, unfold wire_compute_nullifier_def bind_seq, rule refl)
     (auto simp: handler_simps)

lemma handles_did: "handles en pt A 6 (wire_did_from_public en pt A)"
  by (rule handlesI [where mk = "\<lambda>(curve, public_key). DidFromPublic curve public_key"
        and D = "seq sse_decode_u8 (sse_decode_vec_u8 en)"],
      (rule wire_types)+, unfold wire_did_from_public_def bind_seq, rule refl)
     (auto simp: handler_simps)

lemma handles_keypair: "handles en pt A 7 (wire_generate_keypair en pt A)"
  by (rule handlesI [where mk = "GenerateKeypair"
        and D = "sse_decode_u8"],
      (rule wire_types)+, unfold wire_generate_keypair_def bind_seq, rule refl)
     (auto simp: handler_simps)

lemma handles_seed_derive: "handles en pt A 8 (wire_seed_derive_k1 en pt A)"
  by (rule handlesI [where mk = "\<lambda>(mnemonic, passphrase). SeedDeriveK1 mnemonic passphrase"
        and D = "seq (sse_decode_String en) (sse_decode_String en)"],
      (rule wire_types)+, unfold wire_seed_derive_k1_def bind_seq, rule refl)
     (auto simp: handler_simps)

lemma handles_mnemonic: "handles en pt A 9 (wire_seed_generate_mnemonic en pt A)"
  by (rule handlesI [where mk = "\<lambda>_. SeedGenerateMnemonic"
        and D = "sse_decode_unit"],
      (rule wire_types)+, unfold wire_seed_generate_mnemonic_def bind_seq bind_unit, rule refl)
     (auto simp: handler_simps split: prod.split)

lemma handles_bind_nonce: "handles en pt A 10 (wire_semaphore_bind_nonce en pt A)"
  by (rule handlesI [where mk = "\<lambda>(election_id, nullifier, signal). SemaphoreBindNonce election_id nullifier signal"
        and D = "seq (sse_decode_vec_u8 en) (seq (sse_decode_vec_u8 en) (sse_decode_vec_u8 en))"],
      (rule wire_types)+, unfold wire_semaphore_bind_nonce_def bind_seq, rule refl)
     (auto simp: handler_simps)

lemma handles_nullifier: "handles en pt A 11 (wire_semaphore_nullifier en pt A)"
  by (rule handlesI [where mk = "\<lambda>(secret, election_id). SemaphoreNullifier secret election_id"
        and D = "seq (sse_decode_vec_u8 en) (sse_decode_vec_u8 en)"],
      (rule wire_types)+, unfold wire_semaphore_nullifier_def bind_seq, rule refl)
     (auto simp: handler_simps)

lemma handles_sign: "handles en pt A 12 (wire_sign en pt A)"
  by (rule handlesI [where mk = "\<lambda>(curve, secret, msg). Sign curve secret msg"
        and D = "seq sse_decode_u8 (seq (sse_decode_vec_u8 en) (sse_decode_vec_u8 en))"],
      (rule wire_types)+, unfold wire_sign_def bind_seq, rule refl)
     (auto simp: handler_simps)

lemma handles_verify: "handles en pt A 13 (wire_verify_signature en pt A)"
  by (rule handlesI [where mk = "\<lambda>(curve, public_key, msg, sg). VerifySignature curve public_key msg sg"
        and D = "seq sse_decode_u8 (seq (sse_decode_vec_u8 en) (seq (sse_decode_vec_u8 en) (sse_decode_vec_u8 en)))"],
      (rule wire_types)+, unfold wire_verify_signature_def bind_seq, rule refl)
     (auto simp: handler_simps)


lemma bool_written:
  "(\<exists>w. b = F @ [w] \<and> uv = (w \<noteq> 0)) \<longleftrightarrow> b = F @ [of_bool uv] \<or> (\<exists>w :: byte. uv \<and> w \<noteq> 0 \<and> b = F @ [w])"
  by (cases uv) auto

lemma handles_webauthn: "handles en pt A 14 (wire_webauthn_verify en pt A)"
proof -
  define F where "F ad cd sg ch pk og rp = framed en ad @ framed en cd @ framed en sg @ framed en ch @ framed en pk
      @ framed en og @ framed en rp" for ad cd sg ch pk og rp
  have c: "carries en b (WebauthnVerify ad cd sg ch pk og rp uv) \<longleftrightarrow>
      call_fits (WebauthnVerify ad cd sg ch pk og rp uv) \<and> (\<exists>w. b = F ad cd sg ch pk og rp @ [w] \<and> uv = (w \<noteq> 0))"
    for b ad cd sg ch pk og rp uv
    unfolding bool_written by (simp add: carries_def encode_closed F_def butlast_append)
  show ?thesis
    by (rule handlesI [where mk = "\<lambda>(ad, cd, sg, ch, pk, og, rp, uv). WebauthnVerify ad cd sg ch pk og rp uv"
          and D = "seq (sse_decode_vec_u8 en) (seq (sse_decode_vec_u8 en) (seq (sse_decode_vec_u8 en)
            (seq (sse_decode_vec_u8 en) (seq (sse_decode_vec_u8 en) (seq (sse_decode_String en)
            (seq (sse_decode_String en) sse_decode_bool))))))"],
        (rule wire_types)+, unfold wire_webauthn_verify_def bind_seq, rule refl)
       (auto simp: c F_def bool_shape_def seq_shape_def shape_closed str_fits_def serve_def executes funcId_iff)
qed

text \<open>The dispatcher selects the handler of the call's number.\<close>

lemma dispatch_handles:
  assumes "1 \<le> n" "n \<le> 14"
  shows "\<exists>h. handles en pt A n h \<and> (\<forall>vec data_len s.
            pde_ffi_dispatcher_primary en pt A n vec data_len s = Ok (h vec data_len s))"
proof -
  have "n \<in> {1, 2, 3, 4, 5, 6, 7, 8, 9, 10, 11, 12, 13, 14}"
  proof -
    have "unat n \<in> {1..14}" using assms by (simp add: word_le_nat_alt)
    then have "unat n \<in> {1, 2, 3, 4, 5, 6, 7, 8, 9, 10, 11, 12, 13, 14}" by simp arith
    then show ?thesis by (simp add: word_unat_eq_iff)
  qed
  then show ?thesis
    by (elim insertE emptyE; simp add: pde_ffi_dispatcher_primary_def;
        blast intro: handles_derive handles_bbs_keypair handles_bbs_sign handles_bbs_verify
          handles_compute_nullifier handles_did handles_keypair handles_seed_derive handles_mnemonic
          handles_bind_nonce handles_nullifier handles_sign handles_verify handles_webauthn)
qed


text \<open>C25: a call over the mobile bridge is a call of the function it names. For every call whose
  lengths fit an \<open>i32\<close> and whose strings are valid, in either byte order, with any bytes behind
  the message, the dispatcher under the call's number replies with the encoded result of that
  function of \<open>api.rs\<close> (value, error or panic) and leaves the library in the state that
  function leaves.\<close>

theorem bridge_transparent:
  assumes "call_fits call" "length (call_bytes en call) < 2 ^ 31"
  shows "pde_ffi_dispatcher_primary en panic_text A (funcId call) (call_bytes en call @ rest)
           (word_of_nat (length (call_bytes en call))) s
       = Ok (case api_run A call s of (r, s') \<Rightarrow> (answer en panic_text r, s'))"
proof -
  have "1 \<le> funcId call \<and> funcId call \<le> 14" by (cases call) simp_all
  then obtain h where h: "handles en panic_text A (funcId call) h"
    and run: "\<forall>vec data_len s. pde_ffi_dispatcher_primary en panic_text A (funcId call) vec data_len s
        = Ok (h vec data_len s)"
    using dispatch_handles by blast
  have "exactly (call_bytes en call @ rest) (word_of_nat (length (call_bytes en call))) (call_bytes en call)"
    using sint_len_i32 [OF assms(2)] sint_nonneg_nat(3) by (simp add: exactly_def)
  then show ?thesis
    using h run carries_own [OF assms(1), of en] unfolding handles_def serve_def [symmetric] by metis
qed

lemma write_u32_one: "write_u32 LittleEndian 1 = [1, 0, 0, 0]"
  by code_simp

lemma sample_call_bytes:
  "call_bytes LittleEndian (SemaphoreBindNonce [7] [8] [9]) = [1, 0, 0, 0, 7, 1, 0, 0, 0, 8, 1, 0, 0, 0, 9]"
  by (simp add: encode_closed framed_def write_u32_one)

theorem bridge_transparent_witness:
  "\<forall>(A :: ('p, 'r, 'f, 'sk, 'pk, 'sg, 'pok, 'pf, 'ks, 'kv, 'kg, 'ps, 'pv, 'pg, 'm, 'path, 'seed) phi_app) s.
     pde_ffi_dispatcher_primary LittleEndian [] A 10 ([1, 0, 0, 0, 7, 1, 0, 0, 0, 8, 1, 0, 0, 0, 9] @ [5, 5]) 15 s
     = Ok ([0] @ write_u32 LittleEndian 0, s)"
proof (intro allI)
  fix A :: "('p, 'r, 'f, 'sk, 'pk, 'sg, 'pok, 'pf, 'ks, 'kv, 'kg, 'ps, 'pv, 'pg, 'm, 'path, 'seed) phi_app"
    and s :: "('p, 'r) suite_state"
  have fits: "call_fits (SemaphoreBindNonce [7] [8] [9])" by (simp add: fits_i32_def)
  have len: "length (call_bytes LittleEndian (SemaphoreBindNonce [7] [8] [9])) < 2 ^ 31"
    unfolding sample_call_bytes by simp
  have reply: "api_run A (SemaphoreBindNonce [7] [8] [9]) s = (Ok (V_bytes []), s)"
    by (simp add: fl_semaphore_bind_nonce_def try_into_array_def NULLIFIER_LEN_def)
  have "answer LittleEndian [] (Ok (V_bytes [])) = [0] @ write_u32 LittleEndian 0"
    by (simp add: answer_def SseCodec_encode_def encode_closed framed_def)
  then show "pde_ffi_dispatcher_primary LittleEndian [] A 10 ([1, 0, 0, 0, 7, 1, 0, 0, 0, 8, 1, 0, 0, 0, 9] @ [5, 5]) 15 s
     = Ok ([0] @ write_u32 LittleEndian 0, s)"
    using bridge_transparent [OF fits len, of "[]" A "[5, 5]" s] unfolding sample_call_bytes reply by simp
qed



subsection \<open>Reading a reply\<close>

text \<open>A decoder reads a value off the reply behind its first byte, and nothing is left.\<close>

definition reads_whole :: "(sse_deserializer, 'a) st \<Rightarrow> bytes \<Rightarrow> 'a \<Rightarrow> bool" where
  "reads_whole dec reply x \<longleftrightarrow> (case dec (advance 1 (sse_new reply 0)) of (r, d) \<Rightarrow> r = Ok x \<and> sd_left d = [])"

primrec reads_back :: "byte_order \<Rightarrow> bytes \<Rightarrow> api_value \<Rightarrow> bool" where
  "reads_back en reply (V_bytes b) \<longleftrightarrow> reads_whole (sse_decode_vec_u8 en) reply b"
| "reads_back en reply (V_bool v) \<longleftrightarrow> reads_whole sse_decode_bool reply v"
| "reads_back en reply (V_str t) \<longleftrightarrow> reads_whole (sse_decode_String en) reply t"
| "reads_back en reply (V_kp kp) \<longleftrightarrow> reads_whole (sse_decode_PhiKeyPair en) reply kp"
| "reads_back en reply (V_bbs_kp kp) \<longleftrightarrow> reads_whole (sse_decode_PhiBbsKeyPair en) reply kp"

primrec value_fits :: "api_value \<Rightarrow> bool" where
  "value_fits (V_bytes b) \<longleftrightarrow> fits_i32 b"
| "value_fits (V_bool v) \<longleftrightarrow> True"
| "value_fits (V_str t) \<longleftrightarrow> str_fits t"
| "value_fits (V_kp kp) \<longleftrightarrow> fits_i32 (pk_secret kp) \<and> fits_i32 (pk_public kp)"
| "value_fits (V_bbs_kp kp) \<longleftrightarrow> fits_i32 (pbk_secret kp) \<and> fits_i32 (pbk_public kp)"

context sse_codec begin

lemma reads_reply:
  assumes "fits x"
  shows "reads_whole dec (enc x [c]) x"
proof -
  have "enc x [c] = [c] @ enc x []" by (rule appends)
  then have v: "sd_left (sse_new (enc x [c]) 0) = c # enc x []"
    by (simp add: sd_left_def sse_new_def)
  then have l: "sd_left (advance 1 (sse_new (enc x [c]) 0)) = enc x [] @ []" by simp
  show ?thesis using decode_encode [OF assms l] v by (simp add: reads_whole_def)
qed

end

lemma hd_answer: "hd (answer en pt r) = (case r of Ok _ \<Rightarrow> 0 | Err _ \<Rightarrow> 1 | Panic \<Rightarrow> 3)"
proof -
  have v: "value_bytes en v [c] = c # value_bytes en v []" for v c
    by (cases v) (simp_all add: encode_closed sse_encode_PhiKeyPair_def sse_encode_PhiBbsKeyPair_def)
  have f: "failure_bytes en e [c] = c # failure_bytes en e []" for e c
    by (cases e) (simp_all add: encode_closed sse_encode_error_def)
  have p: "fold (\<lambda>b out. out @ [b]) msg out = out @ msg" for msg and out :: bytes
    by (induction msg arbitrary: out) simp_all
  show ?thesis
    by (cases r) (simp_all add: answer_def SseCodec_encode_def encode_panic_def p, simp_all add: v f)
qed

text \<open>A reply is read back as it was meant. Its first byte tells a value (0), an error (1) and a
  panic (3) apart, and the decoders of the crate read the value off the rest of the reply, to
  its last byte, for every result type of the bridge whose lengths fit an \<open>i32\<close>.\<close>

theorem bridge_reply_roundtrip:
  assumes "value_fits v"
  shows "reads_back en (answer en panic_text (Ok v)) v
     \<and> hd (answer en panic_text r) = (case r of Ok _ \<Rightarrow> 0 | Err _ \<Rightarrow> 1 | Panic \<Rightarrow> 3)"
proof -
  have "reads_back en (value_bytes en v [0]) v"
    using assms
    by (cases v) (simp_all add: str_fits_def vec_u8.reads_reply bool.reads_reply str.reads_reply kp.reads_reply
        bbs_kp.reads_reply)
  then show ?thesis by (simp add: hd_answer) (simp add: answer_def SseCodec_encode_def)
qed

theorem bridge_reply_roundtrip_witness:
  "reads_back BigEndian (answer BigEndian [] (Ok (V_kp \<lparr>pk_secret = [1, 2], pk_public = [3]\<rparr>)))
     (V_kp \<lparr>pk_secret = [1, 2], pk_public = [3]\<rparr>)"
proof -
  have "value_fits (V_kp \<lparr>pk_secret = [1, 2], pk_public = [3]\<rparr>)" by (simp add: fits_i32_def)
  from bridge_reply_roundtrip [OF this, of BigEndian "[]" Panic] show ?thesis by blast
qed

end
