(* ===== verification/Phi_Fuzz.thy ===== *)
theory Phi_Fuzz
  imports Phi_Ffi_Props
begin

section \<open>The fuzz target of the C boundary (fuzz/fuzz_targets/ffi_decoders.rs)\<close>

text \<open>
  The harness cuts one input into argument slices at positions the input chooses, calls every
  export on them and asserts that each returns 0 or 1 and that the nullifier is written inside
  its buffer. Here the harness is a function of memory and input; a failed assertion is a
  panic. The property under test is that nothing panics (\<open>fuzz/README.md\<close>): the panic hook of the
  fuzzer ends the process before any \<open>catch_unwind\<close>, so the exports run with the strategy \<open>Abort\<close>, and a
  panic inside one is a panic of the harness. What a fuzzing run samples is proved for every input.
\<close>

definition bind_ex :: "('s, 'a) ex \<Rightarrow> ('a \<Rightarrow> ('s, 'b) ex) \<Rightarrow> ('s, 'b) ex" where
  "bind_ex m f s = (case m s of
       (Ok x, s') \<Rightarrow> f x s'
     | (Err e, s') \<Rightarrow> (Err e, s')
     | (Panic, s') \<Rightarrow> (Panic, s'))"

definition panics :: "('s, 'a) ex" where
  "panics s = (Panic, s)"

text \<open>
  The loop of \<open>split\<close> over the ratio bytes; a slice is its pointer and length. The product
  \<open>rest.len() * r\<close> is checked for overflow in the builds the fuzzer runs.
\<close>

fun split_loop :: "c_arg \<Rightarrow> bytes \<Rightarrow> c_arg list \<Rightarrow> (c_arg list, ub) result" where
  "split_loop rest [] out = Ok (out @ [rest])"
| "split_loop (p, len) (r # ratios) out =
     (if len * unat r \<ge> 2 ^ 64 then Panic
      else let n = min (len * unat r div 256) len in
        split_loop (p + word_of_nat n, len - n) ratios (out @ [(p, n)]))"

definition fuzz_split :: "memory \<Rightarrow> c_arg \<Rightarrow> nat \<Rightarrow> (c_arg list, ub) result" where
  "fuzz_split mem data n =
     (let (p, len) = data in
      if len < n then Ok (replicate n (p, 0))
      else split_loop (p + word_of_nat (n - 1), len - (n - 1)) (contents mem p (n - 1)) [])"

definition assert_boolean :: "i32 \<Rightarrow> ('s, unit) ex" where
  "assert_boolean rc = (if rc = 0 \<or> rc = 1 then ret () else panics)"

definition fuzz_b23 :: "('r, 'sk, 'pk) irtf_backend \<Rightarrow> memory \<Rightarrow> c_arg \<Rightarrow> ('s, unit) ex" where
  "fuzz_b23 I mem data =
     reads (fuzz_split mem data 5) (\<lambda>parts. case parts of
         a # b # c # d # e # _ \<Rightarrow>
           bind_ex (phi_bbs2023_verify_proof Abort I mem (fst a) (snd a) (fst b) (snd b) (fst c) (snd c)
             (fst d) (snd d) (fst e) (snd e)) assert_boolean
       | _ \<Rightarrow> panics)"

definition fuzz_b23_whole :: "('r, 'sk, 'pk) irtf_backend \<Rightarrow> memory \<Rightarrow> c_arg \<Rightarrow> ('s, unit) ex" where
  "fuzz_b23_whole I mem data =
     bind_ex (phi_bbs2023_verify_proof Abort I mem (fst data) (snd data) (fst data) (snd data) (fst data) 0
       (fst data) 0 (fst data) (snd data)) assert_boolean"

definition fuzz_bbs ::
    "('p, 'r, 'f, 'sk, 'pk, 'sg, 'pok, 'pf) bbs_backend \<Rightarrow> memory \<Rightarrow> c_arg \<Rightarrow> (('p, 'r) suite_state, unit) ex" where
  "fuzz_bbs B mem data =
     reads (fuzz_split mem data 3) (\<lambda>parts. case parts of
         a # b # c # _ \<Rightarrow>
           bind_ex (phi_bbs_verify_proof Abort B mem (fst a) (snd a) (fst b) (snd b) (fst c) (snd c)) assert_boolean
       | _ \<Rightarrow> panics)"

definition fuzz_semaphore ::
    "('p, 'r, 'f, 'sk, 'pk, 'sg, 'pok, 'pf) bbs_backend \<Rightarrow> memory \<Rightarrow> c_arg \<Rightarrow> (('p, 'r) suite_state, unit) ex" where
  "fuzz_semaphore B mem data =
     reads (fuzz_split mem data 5) (\<lambda>parts. case parts of
         a # b # c # d # e # _ \<Rightarrow>
           bind_ex (phi_semaphore_verify_vote Abort B mem (fst a) (snd a) (fst b) (snd b) (fst c) (snd c)
             (fst d) (snd d) (fst e) (snd e)) assert_boolean
       | _ \<Rightarrow> panics)"

text \<open>\<open>data.first().copied().unwrap_or(0)\<close>\<close>

definition fuzz_curve_code :: "memory \<Rightarrow> c_arg \<Rightarrow> byte" where
  "fuzz_curve_code mem data = (case contents mem (fst data) (snd data) of [] \<Rightarrow> 0 | b # _ \<Rightarrow> b)"

definition fuzz_signature ::
    "('r, 'ks, 'kv, 'kg, 'ps, 'pv, 'pg) curves \<Rightarrow> memory \<Rightarrow> c_arg \<Rightarrow> ('s, unit) ex" where
  "fuzz_signature C mem data =
     reads (fuzz_split mem data 3) (\<lambda>parts. case parts of
         a # b # c # _ \<Rightarrow>
           bind_ex (phi_verify_signature Abort C mem (fuzz_curve_code mem data) (fst a) (snd a) (fst b) (snd b)
             (fst c) (snd c)) assert_boolean
       | _ \<Rightarrow> panics)"

definition fuzz_webauthn ::
    "('r, 'ps, 'pv, 'pg) webauthn_backend \<Rightarrow> memory \<Rightarrow> c_arg \<Rightarrow> ('s, unit) ex" where
  "fuzz_webauthn W mem data =
     reads (fuzz_split mem data 7) (\<lambda>parts. case parts of
         a # b # c # d # e # f # g # _ \<Rightarrow>
           bind_ex (phi_webauthn_verify Abort W mem (fst a) (snd a) (fst b) (snd b) (fst c) (snd c) (fst d) (snd d)
             (fst e) (snd e) (fst f) (snd f) (fst g) (snd g) (ucast (fuzz_curve_code mem data AND 1))) assert_boolean
       | _ \<Rightarrow> panics)"

text \<open>
  The last call writes into the middle of a 48-byte array on the stack, at address \<open>out\<close>; the
  margins must stay zero.
\<close>

definition fuzz_nullifier :: "(bytes \<Rightarrow> bytes) \<Rightarrow> u64 \<Rightarrow> memory \<Rightarrow> c_arg \<Rightarrow> ('s, unit) ex" where
  "fuzz_nullifier sha256 out mem data =
     reads (fuzz_split mem data 2) (\<lambda>parts. case parts of
         a # b # _ \<Rightarrow>
           (case phi_compute_nullifier Abort sha256 (fst a) (snd a) (fst b) (snd b) (out + 8) (48 - 8)
                   (write_raw mem out (replicate 48 0)) of
              (rc, mem') \<Rightarrow>
                reads rc (\<lambda>rc. bind_ex (assert_boolean rc) (\<lambda>_.
                let arr = contents mem' out 48 in
                if list_all (\<lambda>b. b = 0) (take 8 arr) \<and> list_all (\<lambda>b. b = 0) (drop 40 arr)
                then ret () else panics)))
       | _ \<Rightarrow> panics)"

definition fuzz_target ::
    "('r, 'isk, 'ipk) irtf_backend \<Rightarrow> ('p, 'r, 'f, 'sk, 'pk, 'sg, 'pok, 'pf) bbs_backend \<Rightarrow>
     ('r, 'ks, 'kv, 'kg, 'ps, 'pv, 'pg) curves \<Rightarrow> ('r, 'ps, 'pv, 'pg) webauthn_backend \<Rightarrow> (bytes \<Rightarrow> bytes) \<Rightarrow>
     u64 \<Rightarrow> memory \<Rightarrow> c_arg \<Rightarrow> (('p, 'r) suite_state, unit) ex" where
  "fuzz_target I B C W sha256 out mem data =
     bind_ex (fuzz_b23 I mem data) (\<lambda>_.
     bind_ex (fuzz_b23_whole I mem data) (\<lambda>_.
     bind_ex (fuzz_bbs B mem data) (\<lambda>_.
     bind_ex (fuzz_semaphore B mem data) (\<lambda>_.
     bind_ex (fuzz_signature C mem data) (\<lambda>_.
     bind_ex (fuzz_webauthn W mem data) (\<lambda>_.
     fuzz_nullifier sha256 out mem data))))))"

subsection \<open>Slices of the input\<close>

lemma readable_sub:
  assumes "readable mem p len" "off + n \<le> len"
  shows "readable mem (p + word_of_nat off) n"
proof (cases "n = 0")
  case False
  have b: "len < 2 ^ 63" "unat p + len \<le> 2 ^ 64" using assms(1) by (simp_all add: readable_def)
  have "unat (word_of_nat off :: u64) = off" using assms(2) b by (simp add: unat_of_nat)
  then have u: "unat (p + word_of_nat off) = unat p + off"
    using assms(2) b False by (subst unat_add_lem [THEN iffD1]) simp_all
  have "mem (p + word_of_nat off + word_of_nat i) \<noteq> None" if "i < n" for i
  proof -
    have "off + i < len" using that assms(2) by simp
    then have "mem (p + word_of_nat (off + i)) \<noteq> None"
      using assms(1) by (auto simp: readable_def list_all_iff region_def simp del: of_nat_add)
    then show ?thesis by (simp add: add.assoc)
  qed
  then show ?thesis
    using assms(2) b u by (simp add: readable_def list_all_iff region_def)
next
  case True
  have "unat (p + word_of_nat off) \<le> 2 ^ 64" using unsigned_less [of "p + word_of_nat off", where 'a = nat] by simp
  then show ?thesis using True by (simp add: readable_def region_def)
qed

lemma split_loop_ok:
  assumes "readable mem p len" "len < 2 ^ 56" "list_all (valid_arg mem) out"
  shows "\<exists>parts. split_loop (p, len) ratios out = Ok parts \<and> length parts = length out + length ratios + 1
     \<and> list_all (valid_arg mem) parts"
  using assms
proof (induction ratios arbitrary: p len out)
  case Nil
  then show ?case by (simp add: valid_arg_def)
next
  case (Cons r ratios)
  let ?n = "min (len * unat r div 256) len"
  have "len * unat r \<le> len * 256" using unat_byte_lt [of r] by (intro mult_le_mono2) simp
  also have "\<dots> < 2 ^ 56 * 256" using Cons.prems(2) by simp
  finally have lt: "\<not> len * unat r \<ge> 2 ^ 64" by simp
  have "readable mem (p + word_of_nat ?n) (len - ?n)" by (rule readable_sub [OF Cons.prems(1)]) simp
  moreover have "list_all (valid_arg mem) (out @ [(p, ?n)])"
    using Cons.prems(1,3) readable_take [of mem p len ?n] by (simp add: valid_arg_def [of _ "(p, ?n)"])
  moreover have "len - ?n < 2 ^ 56" using Cons.prems(2) by simp
  ultimately obtain parts where "split_loop (p + word_of_nat ?n, len - ?n) ratios (out @ [(p, ?n)]) = Ok parts"
      "length parts = length (out @ [(p, ?n)]) + length ratios + 1" "list_all (valid_arg mem) parts"
    using Cons.IH by blast
  then show ?case using lt by (simp add: Let_def)
qed

lemma fuzz_split_ok:
  assumes "readable mem p len" "len < 2 ^ 56" "0 < n"
  obtains parts where "fuzz_split mem (p, len) n = Ok parts" "length parts = n" "list_all (valid_arg mem) parts"
proof (cases "len < n")
  case True
  then show ?thesis using that [of "replicate n (p, 0)"]
    by (simp add: fuzz_split_def valid_arg_def list_all_iff)
next
  case False
  have r: "readable mem (p + word_of_nat (n - 1)) (len - (n - 1))"
    by (rule readable_sub [OF assms(1)]) (use False in simp)
  have l: "len - (n - 1) < 2 ^ 56" using assms(2) by simp
  have c: "length (contents mem p (n - 1)) = n - 1" by (simp add: contents_def)
  show ?thesis
    using that split_loop_ok [OF r l, of "[]" "contents mem p (n - 1)"] False assms(3) c
    by (auto simp: fuzz_split_def)
qed


subsection \<open>One call of the harness\<close>

lemma assert_step:
  assumes "fst (m s) \<in> {Ok 0, Ok 1}"
  shows "bind_ex m assert_boolean s = (Ok (), snd (m s))"
  using assms by (cases "m s") (auto simp: bind_ex_def assert_boolean_def ret_def)

lemma guard_keeps: "P (snd (body s)) \<Longrightarrow> P (snd (guard ps v body s))"
  by (cases "body s"; cases "fst (body s)") (auto simp: guard_def split: panic_strategy.split)

lemma as_i32_keeps: "snd (as_i32 f s) = snd (f s)"
  by (cases "f s"; cases "fst (f s)") (auto simp: as_i32_def)

lemma reads_keeps: "(\<And>x. r = Ok x \<Longrightarrow> P (snd (f x s))) \<Longrightarrow> P s \<Longrightarrow> P (snd (reads r f s))"
  by (cases r) (auto simp: reads_def)

lemma b23_state: "snd (phi_bbs2023_verify_proof Abort I mem p pn pk pkn h hn ph phn rv rvn s) = s"
  unfolding phi_bbs2023_verify_proof_def
  by (rule guard_keeps, intro reads_keeps [where P = "\<lambda>t. t = s"])
     (simp_all add: ret_def as_i32_keeps split: option.split result.split)

lemma signature_state: "snd (phi_verify_signature Abort C mem c pk pkn m mn sg sgl s) = s"
  unfolding phi_verify_signature_def
  by (rule guard_keeps, intro reads_keeps [where P = "\<lambda>t. t = s"])
     (simp_all add: ret_def split: option.split)

lemma webauthn_state:
  "snd (phi_webauthn_verify Abort W mem ad adn cd cdn sg sgl ch chn pk pkn og ogn rp rpn uv s) = s"
  unfolding phi_webauthn_verify_def
  by (rule guard_keeps, intro reads_keeps [where P = "\<lambda>t. t = s"])
     (simp_all add: ret_def as_i32_keeps split: option.split result.split)

lemma bbs_state: "suite_ok B s \<Longrightarrow> suite_ok B (snd (phi_bbs_verify_proof Abort B mem p pn pk pkn n nn s))"
  unfolding phi_bbs_verify_proof_def
  by (rule guard_keeps, intro reads_keeps [where P = "suite_ok B"])
     (auto simp: ret_def as_i32_keeps split: option.split intro: keepsD [OF verify_bytes_keeps])

lemma semaphore_state:
  "suite_ok B s \<Longrightarrow> suite_ok B (snd (phi_semaphore_verify_vote Abort B mem p pn pk pkn el eln nl nln sg sgl s))"
  unfolding phi_semaphore_verify_vote_def
  by (rule guard_keeps, intro reads_keeps [where P = "suite_ok B"])
     (auto simp: ret_def as_i32_keeps verify_bound_proof_def split: option.split
       intro!: reads_keeps [where P = "suite_ok B"] intro: keepsD [OF verify_bytes_keeps])


lemma fuzz_calls_ok:
  assumes "readable mem p len" "len < 2 ^ 56" "suite_ok B s"
  shows "fuzz_b23 I mem (p, len) s = (Ok (), s)" "fuzz_b23_whole I mem (p, len) s = (Ok (), s)"
    and "\<exists>s'. fuzz_bbs B mem (p, len) s = (Ok (), s') \<and> suite_ok B s'"
    and "\<exists>s'. fuzz_semaphore B mem (p, len) s = (Ok (), s') \<and> suite_ok B s'"
    and "fuzz_signature C mem (p, len) s = (Ok (), s)" "fuzz_webauthn W mem (p, len) s = (Ok (), s)"
proof -
  note split = fuzz_split_ok [OF assms(1,2)]
  obtain a b c d e where five: "fuzz_split mem (p, len) 5 = Ok [a, b, c, d, e]"
      "list_all (valid_arg mem) [a, b, c, d, e]"
    by (rule split [of 5]) (auto simp: length_args)
  obtain x y z where three: "fuzz_split mem (p, len) 3 = Ok [x, y, z]" "list_all (valid_arg mem) [x, y, z]"
    by (rule split [of 3]) (auto simp: length_args)
  obtain t u v w f g h where seven: "fuzz_split mem (p, len) 7 = Ok [t, u, v, w, f, g, h]"
      "list_all (valid_arg mem) [t, u, v, w, f, g, h]"
    by (rule split [of 7]) (auto simp: length_args)
  have whole: "list_all (valid_arg mem) [(p, len), (p, len), (p, 0), (p, 0), (p, len)]"
    using assms(1) by (simp add: valid_arg_def)
  show "fuzz_b23 I mem (p, len) s = (Ok (), s)"
    using c_b23.returns_bit [OF TrueI _ five(2), of Abort I s]
    by (cases a; cases b; cases c; cases d; cases e) (simp add: fuzz_b23_def five(1) assert_step b23_state)
  show "fuzz_b23_whole I mem (p, len) s = (Ok (), s)"
    using c_b23.returns_bit [OF TrueI _ whole, of Abort I s] by (simp add: fuzz_b23_whole_def assert_step b23_state)
  show "\<exists>s'. fuzz_bbs B mem (p, len) s = (Ok (), s') \<and> suite_ok B s'"
    using c_bbs.returns_bit [OF assms(3) _ three(2), of Abort] bbs_state [OF assms(3)]
    by (cases x; cases y; cases z) (simp add: fuzz_bbs_def three(1) assert_step)
  show "\<exists>s'. fuzz_semaphore B mem (p, len) s = (Ok (), s') \<and> suite_ok B s'"
    using c_semaphore.returns_bit [OF assms(3) _ five(2), of Abort] semaphore_state [OF assms(3)]
    by (cases a; cases b; cases c; cases d; cases e) (simp add: fuzz_semaphore_def five(1) assert_step)
  show "fuzz_signature C mem (p, len) s = (Ok (), s)"
    using c_signature.returns_bit [OF TrueI _ three(2), of Abort C _ s]
    by (cases x; cases y; cases z) (simp add: fuzz_signature_def three(1) assert_step signature_state)
  show "fuzz_webauthn W mem (p, len) s = (Ok (), s)"
    using c_webauthn.returns_bit [OF TrueI _ seven(2), of Abort W _ s]
    by (cases t; cases u; cases v; cases w; cases f; cases g; cases h)
       (simp add: fuzz_webauthn_def seven(1) assert_step webauthn_state)
qed


lemma write_raw_allocated:
  assumes "mem a \<noteq> None"
  shows "write_raw mem ptr v a \<noteq> None"
proof -
  have "fold (\<lambda>(a, x) m. m(a \<mapsto> x)) ps m a \<noteq> None" if "m a \<noteq> None" for ps and m :: memory
    using that by (induction ps arbitrary: m) auto
  then show ?thesis using assms by (simp add: write_raw_def)
qed

lemma readable_write: "readable mem q n \<Longrightarrow> readable (write_raw mem ptr v) q n"
  using write_raw_allocated [of mem] by (auto simp: readable_def list_all_iff)

lemma valid_write: "valid_arg mem a \<Longrightarrow> valid_arg (write_raw mem ptr v) a"
  using readable_write by (auto simp: valid_arg_def)

text \<open>The bytes of the array before and after the 32 bytes written stay as they were.\<close>

lemma margins_kept:
  assumes "unat ptr + 48 \<le> 2 ^ 64" "length v = 32"
  shows "take 8 (contents (write_raw mem (ptr + 8) v) ptr 48) = take 8 (contents mem ptr 48)"
    and "drop 40 (contents (write_raw mem (ptr + 8) v) ptr 48) = drop 40 (contents mem ptr 48)"
proof -
  have out: "ptr + word_of_nat i \<notin> set (region (ptr + 8) (length v))" if "i < 48" "i < 8 \<or> 40 \<le> i" for i
  proof
    assume "ptr + word_of_nat i \<in> set (region (ptr + 8) (length v))"
    then obtain j where j: "j < 32" "ptr + word_of_nat i = ptr + word_of_nat (8 + j)"
      using assms(2) by (auto simp: region_def add.assoc)
    then have "(word_of_nat i :: u64) = word_of_nat (8 + j)" by simp
    then have "i = 8 + j" using that(1) j(1) by (simp add: word_of_nat_eq_iff take_bit_nat_eq_self del: of_nat_add)
    with that(2) j(1) show False by simp
  qed
  have same: "contents (write_raw mem (ptr + 8) v) ptr 48 ! i = contents mem ptr 48 ! i"
    if "i < 48" "i < 8 \<or> 40 \<le> i" for i
    using that write_raw_outside [OF out [OF that]] by (simp add: contents_def region_def)
  show "take 8 (contents (write_raw mem (ptr + 8) v) ptr 48) = take 8 (contents mem ptr 48)"
    by (rule nth_equalityI) (simp_all add: contents_def [THEN arg_cong [where f = length]] same)
  show "drop 40 (contents (write_raw mem (ptr + 8) v) ptr 48) = drop 40 (contents mem ptr 48)"
    by (rule nth_equalityI) (simp_all add: contents_def [THEN arg_cong [where f = length]] same)
qed

lemma fuzz_nullifier_ok:
  assumes "readable mem p len" "len < 2 ^ 56" "readable mem out 48" "\<forall>x. length (sha256 x) = 32"
  shows "fuzz_nullifier sha256 out mem (p, len) s = (Ok (), s)"
proof -
  obtain a b where two: "fuzz_split mem (p, len) 2 = Ok [a, b]" "valid_arg mem a" "valid_arg mem b"
    by (rule fuzz_split_ok [OF assms(1,2), of 2]) (auto simp: length_Suc_conv numeral_2_eq_2)
  let ?m = "write_raw mem out (replicate 48 0)"
  have wrap: "unat out + 48 \<le> 2 ^ 64" using assms(3) by (simp add: readable_def)
  have zero: "contents ?m out 48 = replicate 48 0" using write_raw_inside [of out "replicate 48 0" mem] wrap by simp
  have "readable ?m (out + 8) 40" using readable_sub [OF readable_write [OF assms(3)], of 8 40] by simp
  then have run: "phi_compute_nullifier Abort sha256 (fst a) (snd a) (fst b) (snd b) (out + 8) 40 ?m =
     (if out + 8 = 0 \<or> (40 :: nat) < 32 then (Ok 0, ?m)
      else case (view ?m (fst a, snd a), view ?m (fst b, snd b)) of
        (Some sb, Some tb) \<Rightarrow> (Ok 1, write_raw ?m (out + 8) (compute_nullifier sha256 sb tb))
      | _ \<Rightarrow> (Ok 0, ?m))"
    by (intro compute_nullifier_run assms(4) valid_write) (use two in simp_all)
  have len: "length (compute_nullifier sha256 sb tb) = 32" for sb tb
    using assms(4) by (simp add: compute_nullifier_def)
  have "phi_compute_nullifier Abort sha256 (fst a) (snd a) (fst b) (snd b) (out + 8) 40 ?m = (rc, m') \<Longrightarrow>
      (rc = Ok 0 \<or> rc = Ok 1) \<and> list_all (\<lambda>b. b = 0) (take 8 (contents m' out 48))
      \<and> list_all (\<lambda>b. b = 0) (drop 40 (contents m' out 48))" for rc m'
    unfolding run by (auto simp: margins_kept [OF wrap len] zero list_all_iff split: if_splits option.splits)
  then show ?thesis
    using two(1) by (cases "phi_compute_nullifier Abort sha256 (fst a) (snd a) (fst b) (snd b) (out + 8) 40 ?m")
      (auto simp: fuzz_nullifier_def reads_def bind_ex_def assert_boolean_def ret_def Let_def)
qed

subsection \<open>Claim\<close>

text \<open>C27: the fuzz target never fails. For every input below \<open>2 ^ 56\<close> bytes (where its own index
  arithmetic cannot overflow), at any address, in any cache state and with any stack address
  for its array, the harness runs to the end: every export returns 0 or 1 on every cut of the
  input, the nullifier is written inside its buffer, and nothing panics or is undefined. A
  panic inside an export is not caught: it would be the outcome of the harness.\<close>

theorem fuzz_target_passes:
  assumes "suite_ok B s" "\<forall>x. length (sha256 x) = 32"
    and "readable mem p len" "len < 2 ^ 56" "readable mem out 48"
  shows "fst (fuzz_target I B C W sha256 out mem (p, len) s) = Ok ()"
proof -
  obtain s1 where 1: "fuzz_bbs B mem (p, len) s = (Ok (), s1)" "suite_ok B s1"
    using fuzz_calls_ok(3) [OF assms(3,4,1)] by blast
  obtain s2 where 2: "fuzz_semaphore B mem (p, len) s1 = (Ok (), s2)" "suite_ok B s2"
    using fuzz_calls_ok(4) [OF assms(3,4) 1(2)] by blast
  show ?thesis
    by (simp add: fuzz_target_def bind_ex_def fuzz_calls_ok(1,2) [OF assms(3,4,1)] 1(1) 2(1)
        fuzz_calls_ok(5,6) [OF assms(3,4) 2(2)] fuzz_nullifier_ok [OF assms(3,4,5,2)])
qed

theorem fuzz_target_passes_witness:
  "fst (fuzz_target sample_irtf sum_backend sample_curves sample_webauthn sample_hash 100 scratch_memory (16, 40)
     (fresh_state 1)) = Ok ()"
  by (rule fuzz_target_passes)
     (simp_all add: sum_backend_suite_ok scratch_readable)

end
