(* ===== verification/Phi_Examples.thy ===== *)
theory Phi_Examples
  imports Phi_Bbs_Props Phi_Did Phi_Voting
begin

section \<open>The example programs (examples/*.rs)\<close>

text \<open>
  The two example programs of the crate, with every \<open>expect\<close> and \<open>assert\<close> a panic; what they print
  is left out. Their runs exercise the composition of the operations and are shown to end
  without a panic for every random generator.
\<close>

subsection \<open>selective_disclosure.rs\<close>

definition example_claims :: "bytes list" where
  "example_claims = [ascii ''did=did:phi:abc'', ascii ''birth_year=1990'', ascii ''city=metropolis'',
     ascii ''over_18=true'']"

text \<open>\<open>expect\<close> on the result of a stateful operation.\<close>

definition expect :: "('s, 'a) st \<Rightarrow> ('s, 'a) st" where
  "expect m s = (case m s of (Ok x, s') \<Rightarrow> (Ok x, s') | (_, s') \<Rightarrow> (Panic, s'))"

definition selective_disclosure_main ::
    "('p, 'r, 'f, 'sk, 'pk, 'sg, 'pok, 'pf) bbs_backend \<Rightarrow> (('p, 'r) suite_state, unit) st" where
  "selective_disclosure_main B =
     (let claims = example_claims in
      bind_s (expect (bbs_generate_keypair B (word_of_nat (length claims)))) (\<lambda>issuer.
      bind_s (expect (bbs_sign_credential B claims (held (bkp_secret issuer)))) (\<lambda>signature.
      let nonce = ascii ''verifier-nonce-001'' in
      bind_s (expect (bbs_derive_proof B claims signature [3] nonce)) (\<lambda>proof.
      bind_s (bbs_verify_proof B proof (bkp_public issuer) nonce) (\<lambda>valid.
      if valid then lift_s (Ok ()) else lift_s Panic)))))"

subsection \<open>did_and_voting.rs\<close>

fun did_demo ::
    "(bytes \<Rightarrow> bytes) \<Rightarrow> ('r, 'ks, 'kv, 'kg, 'ps, 'pv, 'pg) curves \<Rightarrow> Curve list \<Rightarrow> 'r \<Rightarrow>
     (unit, crypto_error) result \<times> 'r" where
  "did_demo sha256 C [] rng = (Ok (), rng)"
| "did_demo sha256 C (curve # curves) rng =
     (let (kp, rng) = generate_keypair C curve rng;
          msg = ascii ''phi sign-doc'' in
      case did_sign C curve (held (kp_secret kp)) msg of
        Ok sig \<Rightarrow>
          let valid = did_verify C curve (kp_public kp) msg sig in
          (case did_from_public sha256 C curve (kp_public kp) of
             Ok did \<Rightarrow> if valid then did_demo sha256 C curves rng else (Panic, rng)
           | _ \<Rightarrow> (Panic, rng))
      | _ \<Rightarrow> (Panic, rng))"

definition did_and_voting_main ::
    "(bytes \<Rightarrow> bytes) \<Rightarrow> ('r, 'ks, 'kv, 'kg, 'ps, 'pv, 'pg) curves \<Rightarrow> 'r \<Rightarrow>
     (unit, crypto_error) result \<times> 'r" where
  "did_and_voting_main sha256 C rng =
     (case did_demo sha256 C [Secp256k1, Secp256r1] rng of
        (Ok _, rng) \<Rightarrow>
          let topic = ascii ''proposal-42'';
              votes = [\<lparr>vp_nullifier = compute_nullifier sha256 (ascii ''alice'') topic\<rparr>,
                       \<lparr>vp_nullifier = compute_nullifier sha256 (ascii ''bob'') topic\<rparr>,
                       \<lparr>vp_nullifier = compute_nullifier sha256 (ascii ''alice'') topic\<rparr>];
              n = distinct_nullifiers votes in
          if n = 2 then (Ok (), rng) else (Panic, rng)
      | (_, rng) \<Rightarrow> (Panic, rng))"

subsection \<open>Their runs\<close>

lemma expect_step: "m s = (Ok x, s') \<Longrightarrow> bind_s (expect m) f s = f x s'"
  by (simp add: expect_def bind_s_def)

lemma selective_disclosure_runs:
  assumes "backend_laws B" "suite_ok B s"
  shows "fst (selective_disclosure_main B s) = Ok ()"
proof -
  have c: "example_claims \<noteq> []" "length example_claims \<le> 64" "\<forall>i \<in> set [3]. i < length example_claims"
    by (simp_all add: example_claims_def)
  let ?nonce = "ascii ''verifier-nonce-001''"
  note trip = roundtrip_aux [OF assms _ _ c, where nonce = ?nonce]
  obtain kp s1 sg s2 where run: "bbs_generate_keypair B (word_of_nat (length example_claims)) s = (Ok kp, s1)"
      "bbs_sign_credential B example_claims (held (bkp_secret kp)) s1 = (Ok sg, s2)"
    using trip [OF assms(2,2)] by blast
  have s1: "suite_ok B s1" using keepsD [OF generate_keeps assms(2)] run(1) by (metis snd_conv)
  have s2: "suite_ok B s2" using keepsD [OF sign_keeps s1] run(2) by (metis snd_conv)
  obtain p s3 where d: "bbs_derive_proof B example_claims sg [3] ?nonce s2 = (Ok p, s3)"
    using trip [OF s2 s2] run by auto
  have s3: "suite_ok B s3" using keepsD [OF bbs_derive_keeps s2] d by (metis snd_conv)
  have v: "fst (bbs_verify_proof B p (bkp_public kp) ?nonce s3) = Ok True"
    using trip [OF s2 s3] run d by auto
  obtain s4 where v4: "bbs_verify_proof B p (bkp_public kp) ?nonce s3 = (Ok True, s4)"
    using v by (cases "bbs_verify_proof B p (bkp_public kp) ?nonce s3") simp
  show ?thesis
    unfolding selective_disclosure_main_def Let_def
    using run d v4 by (simp add: expect_step bind_s_step)
qed

lemma did_demo_runs:
  assumes "curves_law C"
  shows "fst (did_demo sha256 C curves rng) = Ok ()"
proof (induction curves arbitrary: rng)
  case (Cons curve curves)
  obtain kp rng' where g: "generate_keypair C curve rng = (kp, rng')" by force
  show ?case
    using keypair_signs [OF assms g, of "ascii ''phi sign-doc''"] keypair_has_did [OF assms g, of sha256] g Cons
    by (auto simp: Let_def)
qed simp

text \<open>The example programs run to the end. With a backend that keeps its laws, from any cache and
  generator state, the selective-disclosure example issues, presents and verifies without a
  panic; with curves that keep theirs and no collision between the two nullifier inputs, the
  DID and voting example signs and verifies on both curves, derives both DIDs and counts two
  distinct voters among three votes.\<close>

theorem examples_run:
  assumes "backend_laws B" "suite_ok B s" "curves_law C"
    and "compute_nullifier sha256 (ascii ''alice'') (ascii ''proposal-42'')
       \<noteq> compute_nullifier sha256 (ascii ''bob'') (ascii ''proposal-42'')"
  shows "fst (selective_disclosure_main B s) = Ok () \<and> fst (did_and_voting_main sha256 C rng) = Ok ()"
proof -
  obtain rng' where "did_demo sha256 C [Secp256k1, Secp256r1] rng = (Ok (), rng')"
    using did_demo_runs [OF assms(3), of sha256 "[Secp256k1, Secp256r1]" rng]
    by (cases "did_demo sha256 C [Secp256k1, Secp256r1] rng") auto
  then have "fst (did_and_voting_main sha256 C rng) = Ok ()"
    using assms(4) by (simp add: did_and_voting_main_def distinct_nullifiers_eq Let_def insert_commute del: did_demo.simps)
  then show ?thesis using selective_disclosure_runs [OF assms(1,2)] by blast
qed

end
