(* ===== verification/Phi_Sha256.thy ===== *)
theory Phi_Sha256
  imports Phi_Prelude
begin

section \<open>The SHA-256 compression function (vendored sha2)\<close>

text \<open>
  The block function of the vendored \<open>sha2\<close> crate, in its two portable forms. \<open>soft.rs\<close> is the
  form the crate is built with where no hardware instruction is used: it keeps the working
  variables and the message schedule in vectors of four \<open>u32\<close>, two rounds and four schedule
  words at a time, in the shape of the processor instructions it imitates. \<open>soft_compact.rs\<close> is
  the textbook loop over a 64-word schedule. A \<open>[u32; 4]\<close> is a quadruple, the \<open>[u32; 8]\<close> state an
  8-tuple, longer arrays are lists; \<open>wrapping_add\<close> is \<open>+\<close> on words.
\<close>

type_synonym u32x4 = "u32 \<times> u32 \<times> u32 \<times> u32"
type_synonym State256 = "u32 \<times> u32 \<times> u32 \<times> u32 \<times> u32 \<times> u32 \<times> u32 \<times> u32"

subsection \<open>Constants (consts.rs)\<close>

definition K32 :: "u32 list" where
  "K32 = [0x428a2f98, 0x71374491, 0xb5c0fbcf, 0xe9b5dba5, 0x3956c25b, 0x59f111f1,
      0x923f82a4, 0xab1c5ed5, 0xd807aa98, 0x12835b01, 0x243185be, 0x550c7dc3,
      0x72be5d74, 0x80deb1fe, 0x9bdc06a7, 0xc19bf174, 0xe49b69c1, 0xefbe4786,
      0x0fc19dc6, 0x240ca1cc, 0x2de92c6f, 0x4a7484aa, 0x5cb0a9dc, 0x76f988da,
      0x983e5152, 0xa831c66d, 0xb00327c8, 0xbf597fc7, 0xc6e00bf3, 0xd5a79147,
      0x06ca6351, 0x14292967, 0x27b70a85, 0x2e1b2138, 0x4d2c6dfc, 0x53380d13,
      0x650a7354, 0x766a0abb, 0x81c2c92e, 0x92722c85, 0xa2bfe8a1, 0xa81a664b,
      0xc24b8b70, 0xc76c51a3, 0xd192e819, 0xd6990624, 0xf40e3585, 0x106aa070,
      0x19a4c116, 0x1e376c08, 0x2748774c, 0x34b0bcb5, 0x391c0cb3, 0x4ed8aa4a,
      0x5b9cca4f, 0x682e6ff3, 0x748f82ee, 0x78a5636f, 0x84c87814, 0x8cc70208,
      0x90befffa, 0xa4506ceb, 0xbef9a3f7, 0xc67178f2]"

definition K32X4 :: "u32x4 list" where
  "K32X4 =
    [(K32 ! 3, K32 ! 2, K32 ! 1, K32 ! 0),
     (K32 ! 7, K32 ! 6, K32 ! 5, K32 ! 4),
     (K32 ! 11, K32 ! 10, K32 ! 9, K32 ! 8),
     (K32 ! 15, K32 ! 14, K32 ! 13, K32 ! 12),
     (K32 ! 19, K32 ! 18, K32 ! 17, K32 ! 16),
     (K32 ! 23, K32 ! 22, K32 ! 21, K32 ! 20),
     (K32 ! 27, K32 ! 26, K32 ! 25, K32 ! 24),
     (K32 ! 31, K32 ! 30, K32 ! 29, K32 ! 28),
     (K32 ! 35, K32 ! 34, K32 ! 33, K32 ! 32),
     (K32 ! 39, K32 ! 38, K32 ! 37, K32 ! 36),
     (K32 ! 43, K32 ! 42, K32 ! 41, K32 ! 40),
     (K32 ! 47, K32 ! 46, K32 ! 45, K32 ! 44),
     (K32 ! 51, K32 ! 50, K32 ! 49, K32 ! 48),
     (K32 ! 55, K32 ! 54, K32 ! 53, K32 ! 52),
     (K32 ! 59, K32 ! 58, K32 ! 57, K32 ! 56),
     (K32 ! 63, K32 ! 62, K32 ! 61, K32 ! 60)]"

definition H256_224 :: State256 where
  "H256_224 = (0xc1059ed8, 0x367cd507, 0x3070dd17, 0xf70e5939,
      0xffc00b31, 0x68581511, 0x64f98fa7, 0xbefa4fa4)"

definition H256_256 :: State256 where
  "H256_256 = (0x6a09e667, 0xbb67ae85, 0x3c6ef372, 0xa54ff53a,
      0x510e527f, 0x9b05688c, 0x1f83d9ab, 0x5be0cd19)"

text \<open>\<open>u32::rotate_right\<close>.\<close>

abbreviation rotate_right :: "u32 \<Rightarrow> nat \<Rightarrow> u32" where
  "rotate_right x n \<equiv> word_rotr n x"

subsection \<open>The vectorised form (soft.rs)\<close>

fun shl_x4 :: "u32x4 \<Rightarrow> nat \<Rightarrow> u32x4" where
  "shl_x4 (v0, v1, v2, v3) n = (drop_bit n v0, drop_bit n v1, drop_bit n v2, drop_bit n v3)"

fun shr_x4 :: "u32x4 \<Rightarrow> nat \<Rightarrow> u32x4" where
  "shr_x4 (v0, v1, v2, v3) n = (push_bit n v0, push_bit n v1, push_bit n v2, push_bit n v3)"

fun or_x4 :: "u32x4 \<Rightarrow> u32x4 \<Rightarrow> u32x4" where
  "or_x4 (a0, a1, a2, a3) (b0, b1, b2, b3) = (a0 OR b0, a1 OR b1, a2 OR b2, a3 OR b3)"

fun xor_x4 :: "u32x4 \<Rightarrow> u32x4 \<Rightarrow> u32x4" where
  "xor_x4 (a0, a1, a2, a3) (b0, b1, b2, b3) = (a0 XOR b0, a1 XOR b1, a2 XOR b2, a3 XOR b3)"

fun add_x4 :: "u32x4 \<Rightarrow> u32x4 \<Rightarrow> u32x4" where
  "add_x4 (a0, a1, a2, a3) (b0, b1, b2, b3) = (a0 + b0, a1 + b1, a2 + b2, a3 + b3)"

fun sha256load :: "u32x4 \<Rightarrow> u32x4 \<Rightarrow> u32x4" where
  "sha256load (v20, v21, v22, v23) (v30, v31, v32, v33) = (v33, v20, v21, v22)"

fun sha256swap :: "u32x4 \<Rightarrow> u32x4" where
  "sha256swap (v0, v1, v2, v3) = (v2, v3, v0, v1)"

definition sigma0x4 :: "u32x4 \<Rightarrow> u32x4" where
  "sigma0x4 x =
     (let t1 = or_x4 (shl_x4 x 7) (shr_x4 x 25);
          t2 = or_x4 (shl_x4 x 18) (shr_x4 x 14);
          t3 = shl_x4 x 3
      in xor_x4 (xor_x4 t1 t2) t3)"

definition sha256msg1 :: "u32x4 \<Rightarrow> u32x4 \<Rightarrow> u32x4" where
  "sha256msg1 v0 v1 = add_x4 v0 (sigma0x4 (sha256load v0 v1))"

definition sigma1 :: "u32 \<Rightarrow> u32" where
  "sigma1 a = rotate_right a 17 XOR rotate_right a 19 XOR drop_bit 10 a"

fun sha256msg2 :: "u32x4 \<Rightarrow> u32x4 \<Rightarrow> u32x4" where
  "sha256msg2 (x3, x2, x1, x0) (w15, w14, _, _) =
     (let w16 = x0 + sigma1 w14;
          w17 = x1 + sigma1 w15;
          w18 = x2 + sigma1 w16;
          w19 = x3 + sigma1 w17
      in (w19, w18, w17, w16))"

definition big_sigma0 :: "u32 \<Rightarrow> u32" where
  "big_sigma0 a = rotate_right a 2 XOR rotate_right a 13 XOR rotate_right a 22"

definition big_sigma1 :: "u32 \<Rightarrow> u32" where
  "big_sigma1 a = rotate_right a 6 XOR rotate_right a 11 XOR rotate_right a 25"

definition bool3ary_202 :: "u32 \<Rightarrow> u32 \<Rightarrow> u32 \<Rightarrow> u32" where
  "bool3ary_202 a b c = c XOR (a AND (b XOR c))"

definition bool3ary_232 :: "u32 \<Rightarrow> u32 \<Rightarrow> u32 \<Rightarrow> u32" where
  "bool3ary_232 a b c = (a AND b) XOR (a AND c) XOR (b AND c)"

fun sha256_digest_round_x2 :: "u32x4 \<Rightarrow> u32x4 \<Rightarrow> u32x4 \<Rightarrow> u32x4" where
  "sha256_digest_round_x2 (c0, d0, g0, h0) (a0, b0, e0, f0) (_, _, wk1, wk0) =
     (let x0 = big_sigma1 e0 + bool3ary_202 e0 f0 g0 + wk0 + h0;
          y0 = big_sigma0 a0 + bool3ary_232 a0 b0 c0;
          (a1, b1, c1, d1, e1, f1, g1, h1) = (x0 + y0, a0, b0, c0, x0 + d0, e0, f0, g0);
          x1 = big_sigma1 e1 + bool3ary_202 e1 f1 g1 + wk1 + h1;
          y1 = big_sigma0 a1 + bool3ary_232 a1 b1 c1;
          (a2, b2, _, _, e2, f2, _, _) = (x1 + y1, a1, b1, c1, x1 + d1, e1, f1, g1)
      in (a2, b2, e2, f2))"

definition schedule :: "u32x4 \<Rightarrow> u32x4 \<Rightarrow> u32x4 \<Rightarrow> u32x4 \<Rightarrow> u32x4" where
  "schedule v0 v1 v2 v3 =
     (let t1 = sha256msg1 v0 v1;
          t2 = sha256load v2 v3;
          t3 = add_x4 t1 t2
      in sha256msg2 t3 v3)"

text \<open>The macro \<open>rounds4!\<close> assigns \<open>abef\<close> and \<open>cdgh\<close>; it yields their new values here.\<close>

definition rounds4 :: "u32x4 \<Rightarrow> u32x4 \<Rightarrow> u32x4 \<Rightarrow> nat \<Rightarrow> u32x4 \<times> u32x4" where
  "rounds4 abef cdgh rest i =
     (let t1 = add_x4 rest (K32X4 ! i);
          cdgh = sha256_digest_round_x2 cdgh abef t1;
          t2 = sha256swap t1;
          abef = sha256_digest_round_x2 abef cdgh t2
      in (abef, cdgh))"

text \<open>The macro \<open>schedule_rounds4!\<close> also assigns its fifth vector.\<close>

definition schedule_rounds4 ::
    "u32x4 \<Rightarrow> u32x4 \<Rightarrow> u32x4 \<Rightarrow> u32x4 \<Rightarrow> u32x4 \<Rightarrow> u32x4 \<Rightarrow> nat \<Rightarrow> u32x4 \<times> u32x4 \<times> u32x4" where
  "schedule_rounds4 abef cdgh w0 w1 w2 w3 i =
     (let w4 = schedule w0 w1 w2 w3;
          (abef, cdgh) = rounds4 abef cdgh w4 i
      in (w4, abef, cdgh))"

fun sha256_digest_block_u32 :: "State256 \<Rightarrow> u32 list \<Rightarrow> State256" where
  "sha256_digest_block_u32 (s0, s1, s2, s3, s4, s5, s6, s7) block =
     (let abef = (s0, s1, s4, s5);
         cdgh = (s2, s3, s6, s7);
         w0 = (block ! 3, block ! 2, block ! 1, block ! 0);
         w1 = (block ! 7, block ! 6, block ! 5, block ! 4);
         w2 = (block ! 11, block ! 10, block ! 9, block ! 8);
         w3 = (block ! 15, block ! 14, block ! 13, block ! 12);
         (abef, cdgh) = rounds4 abef cdgh w0 0;
         (abef, cdgh) = rounds4 abef cdgh w1 1;
         (abef, cdgh) = rounds4 abef cdgh w2 2;
         (abef, cdgh) = rounds4 abef cdgh w3 3;
         (w4, abef, cdgh) = schedule_rounds4 abef cdgh w0 w1 w2 w3 4;
         (w0, abef, cdgh) = schedule_rounds4 abef cdgh w1 w2 w3 w4 5;
         (w1, abef, cdgh) = schedule_rounds4 abef cdgh w2 w3 w4 w0 6;
         (w2, abef, cdgh) = schedule_rounds4 abef cdgh w3 w4 w0 w1 7;
         (w3, abef, cdgh) = schedule_rounds4 abef cdgh w4 w0 w1 w2 8;
         (w4, abef, cdgh) = schedule_rounds4 abef cdgh w0 w1 w2 w3 9;
         (w0, abef, cdgh) = schedule_rounds4 abef cdgh w1 w2 w3 w4 10;
         (w1, abef, cdgh) = schedule_rounds4 abef cdgh w2 w3 w4 w0 11;
         (w2, abef, cdgh) = schedule_rounds4 abef cdgh w3 w4 w0 w1 12;
         (w3, abef, cdgh) = schedule_rounds4 abef cdgh w4 w0 w1 w2 13;
         (w4, abef, cdgh) = schedule_rounds4 abef cdgh w0 w1 w2 w3 14;
         (w0, abef, cdgh) = schedule_rounds4 abef cdgh w1 w2 w3 w4 15;
         (a, b, e, f) = abef;
         (c, d, g, h) = cdgh
      in (s0 + a, s1 + b, s2 + c, s3 + d, s4 + e, s5 + f, s6 + g, s7 + h))"

text \<open>
  \<open>block.chunks_exact(4)\<close> zipped with the sixteen words: \<open>chunks_exact n\<close> drops a shorter last
  chunk, and a block has sixteen full ones.
\<close>

function chunks_exact :: "nat \<Rightarrow> 'a list \<Rightarrow> 'a list list" where
  "chunks_exact n xs = (if n = 0 \<or> length xs < n then [] else take n xs # chunks_exact n (drop n xs))"
  by pat_completeness auto
termination by (relation "measure (length \<circ> snd)") auto

declare chunks_exact.simps [simp del]

definition soft_compress :: "State256 \<Rightarrow> bytes list \<Rightarrow> State256" where
  "soft_compress state blocks =
     foldl (\<lambda>state_cpy block. sha256_digest_block_u32 state_cpy (map u32_from_be_bytes (chunks_exact 4 block)))
       state blocks"

subsection \<open>The compact form (soft\_compact.rs)\<close>

definition to_u32s :: "bytes \<Rightarrow> u32 list" where
  "to_u32s block = map (\<lambda>i. u32_from_be_bytes (take 4 (drop (4 * i) block))) [0..<16]"

text \<open>One step of the schedule loop, and the loop over \<open>w = [0; 64]\<close> with the block copied in.\<close>

definition schedule_step :: "u32 list \<Rightarrow> nat \<Rightarrow> u32 list" where
  "schedule_step w i =
     (let w15 = w ! (i - 15);
          s0 = rotate_right w15 7 XOR rotate_right w15 18 XOR drop_bit 3 w15;
          w2 = w ! (i - 2);
          s1 = rotate_right w2 17 XOR rotate_right w2 19 XOR drop_bit 10 w2
      in w[i := w ! (i - 16) + s0 + w ! (i - 7) + s1])"

definition message_schedule :: "u32 list \<Rightarrow> u32 list" where
  "message_schedule block = foldl schedule_step (block @ replicate 48 0) [16..<64]"

fun round_step :: "u32 list \<Rightarrow> State256 \<Rightarrow> nat \<Rightarrow> State256" where
  "round_step w (a, b, c, d, e, f, g, h) i =
     (let s1 = rotate_right e 6 XOR rotate_right e 11 XOR rotate_right e 25;
          ch = (e AND f) XOR (NOT e AND g);
          t1 = s1 + ch + K32 ! i + w ! i + h;
          s0 = rotate_right a 2 XOR rotate_right a 13 XOR rotate_right a 22;
          maj = (a AND b) XOR (a AND c) XOR (b AND c);
          t2 = s0 + maj
      in (t1 + t2, a, b, c, d + t1, e, f, g))"

fun add_state :: "State256 \<Rightarrow> State256 \<Rightarrow> State256" where
  "add_state (s0, s1, s2, s3, s4, s5, s6, s7) (a, b, c, d, e, f, g, h) =
     (s0 + a, s1 + b, s2 + c, s3 + d, s4 + e, s5 + f, s6 + g, s7 + h)"

definition compress_u32 :: "State256 \<Rightarrow> u32 list \<Rightarrow> State256" where
  "compress_u32 state block =
     (let w = message_schedule block in add_state state (foldl (round_step w) state [0..<64]))"

definition compact_compress :: "State256 \<Rightarrow> bytes list \<Rightarrow> State256" where
  "compact_compress state blocks = foldl (\<lambda>state block. compress_u32 state (to_u32s block)) state blocks"

subsection \<open>Reference: FIPS 180-4, section 6.2\<close>

text \<open>The schedule as the standard's recurrence, and one round with its constant and schedule word.\<close>

definition sigma0 :: "u32 \<Rightarrow> u32" where
  "sigma0 x = rotate_right x 7 XOR rotate_right x 18 XOR drop_bit 3 x"

function W :: "u32 list \<Rightarrow> nat \<Rightarrow> u32" where
  "W M t = (if t < 16 then M ! t
            else sigma1 (W M (t - 2)) + W M (t - 7) + sigma0 (W M (t - 15)) + W M (t - 16))"
  by pat_completeness auto
termination by (relation "measure snd") auto

declare W.simps [simp del]

lemma W_block: "t < 16 \<Longrightarrow> W M t = M ! t"
  by (simp add: W.simps)

lemma W_step: "16 \<le> t \<Longrightarrow> W M t = W M (t - 16) + sigma0 (W M (t - 15)) + W M (t - 7) + sigma1 (W M (t - 2))"
  by (subst W.simps) (simp add: ac_simps)

fun fips_round :: "u32 \<Rightarrow> u32 \<Rightarrow> State256 \<Rightarrow> State256" where
  "fips_round k w (a, b, c, d, e, f, g, h) =
     (let T1 = h + big_sigma1 e + ((e AND f) XOR (NOT e AND g)) + k + w;
          T2 = big_sigma0 a + bool3ary_232 a b c
      in (T1 + T2, a, b, c, d + T1, e, f, g))"

definition fips_rounds :: "u32 list \<Rightarrow> State256 \<Rightarrow> nat \<Rightarrow> nat \<Rightarrow> State256" where
  "fips_rounds M st i j = foldl (\<lambda>st t. fips_round (K32 ! t) (W M t) st) st [i..<j]"

definition fips_block :: "State256 \<Rightarrow> u32 list \<Rightarrow> State256" where
  "fips_block H M = add_state H (fips_rounds M H 0 64)"

lemma fips_rounds_split: "i \<le> j \<Longrightarrow> j \<le> k \<Longrightarrow> fips_rounds M (fips_rounds M st i j) j k = fips_rounds M st i k"
  using upt_add_eq_append [of i j "k - j"] by (simp add: fips_rounds_def)

text \<open>The two halves in which the vectorised form keeps a state.\<close>

fun abef_of :: "State256 \<Rightarrow> u32x4" where
  "abef_of (a, b, c, d, e, f, g, h) = (a, b, e, f)"

fun cdgh_of :: "State256 \<Rightarrow> u32x4" where
  "cdgh_of (a, b, c, d, e, f, g, h) = (c, d, g, h)"

subsection \<open>The compact form is the standard's\<close>

lemma compact_schedule:
  assumes "length M = 16" "16 \<le> n" "n \<le> 64"
  shows "length (foldl schedule_step (M @ replicate 48 0) [16..<n]) = 64
     \<and> (\<forall>t<n. foldl schedule_step (M @ replicate 48 0) [16..<n] ! t = W M t)"
  using assms(2,3)
proof (induction n rule: dec_induct)
  case base
  then show ?case using assms(1) by (simp add: nth_append W_block)
next
  case (step n)
  define w where "w = foldl schedule_step (M @ replicate 48 0) [16..<n]"
  have w: "length w = 64" "\<And>t. t < n \<Longrightarrow> w ! t = W M t" using step by (simp_all add: w_def)
  have "foldl schedule_step (M @ replicate 48 0) [16..<Suc n] = schedule_step w n"
    using step.hyps by (simp add: w_def)
  moreover have "schedule_step w n = w[n := W M n]"
    using step.hyps w by (simp add: schedule_step_def Let_def W_step sigma0_def sigma1_def)
  ultimately show ?case using w step.prems by (auto simp: nth_list_update less_Suc_eq)
qed

lemma message_schedule_W: "length M = 16 \<Longrightarrow> t < 64 \<Longrightarrow> message_schedule M ! t = W M t"
  using compact_schedule [of M 64] by (simp add: message_schedule_def)

lemma round_step_fips: "round_step w st i = fips_round (K32 ! i) (w ! i) st"
  by (cases st rule: abef_of.cases) (simp add: Let_def big_sigma0_def big_sigma1_def bool3ary_232_def ac_simps)

lemma compress_u32_fips: "length M = 16 \<Longrightarrow> compress_u32 st M = fips_block st M"
  by (auto simp: compress_u32_def fips_block_def fips_rounds_def Let_def round_step_fips message_schedule_W
      intro!: foldl_cong arg_cong [where f = "add_state st"])

subsection \<open>The vectorised form is the standard's\<close>

lemma rotate_right_shifts:
  assumes "0 < n" "n < 32"
  shows "drop_bit n x OR push_bit (32 - n) x = rotate_right x n"
proof (rule bit_word_eqI)
  fix m assume "m < LENGTH(32)"
  then show "bit (drop_bit n x OR push_bit (32 - n) x) m = bit (rotate_right x n) m"
    using assms bit_imp_le_length [of x "n + m"] le_mod_geq [of 32 "m + n"]
    by (cases "m + n < 32")
      (auto simp: bit_word_rotr_iff bit_or_iff bit_drop_bit_eq bit_push_bit_iff add.commute)
qed

lemma sigma0x4_lanes:
  "sigma0x4 (x0, x1, x2, x3) = (sigma0 x0, sigma0 x1, sigma0 x2, sigma0 x3)"
  using rotate_right_shifts [of 7] rotate_right_shifts [of 18]
  by (simp add: sigma0x4_def sigma0_def Let_def xor.assoc)

lemma bool3ary_202_choose: "bool3ary_202 a b c = (a AND b) XOR (NOT a AND c)"
  unfolding bool3ary_202_def by (rule bit_word_eqI) (auto simp: bit_simps)

text \<open>The vectors: schedule words \<open>4 i .. 4 i + 3\<close>, last first.\<close>

definition lanes :: "u32 list \<Rightarrow> nat \<Rightarrow> u32x4" where
  "lanes M i = (W M (4 * i + 3), W M (4 * i + 2), W M (4 * i + 1), W M (4 * i))"

lemma schedule_lanes:
  "schedule (lanes M i) (lanes M (i + 1)) (lanes M (i + 2)) (lanes M (i + 3)) = lanes M (i + 4)"
proof -
  have W: "s = t + 16 \<Longrightarrow> t1 = t + 1 \<Longrightarrow> t9 = t + 9 \<Longrightarrow> t14 = t + 14 \<Longrightarrow>
      W M s = W M t + sigma0 (W M t1) + W M t9 + sigma1 (W M t14)" for s t t1 t9 t14
    using W_step [of "t + 16" M] by (simp add: add.commute)
  have "W M (4 * i + 16) = W M (4 * i) + sigma0 (W M (4 * i + 1)) + W M (4 * i + 9) + sigma1 (W M (4 * i + 14))"
    "W M (4 * i + 17) = W M (4 * i + 1) + sigma0 (W M (4 * i + 2)) + W M (4 * i + 10) + sigma1 (W M (4 * i + 15))"
    "W M (4 * i + 18) = W M (4 * i + 2) + sigma0 (W M (4 * i + 3)) + W M (4 * i + 11) + sigma1 (W M (4 * i + 16))"
    "W M (4 * i + 19) = W M (4 * i + 3) + sigma0 (W M (4 * i + 4)) + W M (4 * i + 12) + sigma1 (W M (4 * i + 17))"
    by (rule W; simp)+
  moreover have "lanes M (i + j) = (W M (4 * i + (4 * j + 3)), W M (4 * i + (4 * j + 2)), W M (4 * i + (4 * j + 1)), W M (4 * i + 4 * j))"
    for j
    by (simp add: lanes_def add_mult_distrib2 add.assoc)
  from this [of 0] this [of 1] this [of 2] this [of 3] this [of 4] calculation show ?thesis
    by (simp add: schedule_def Let_def sha256msg1_def sigma0x4_lanes add.assoc)
qed

text \<open>
  One call of \<open>sha256\_digest\_round\_x2\<close> is two rounds: from \<open>cdgh\<close> and \<open>abef\<close> it makes the new
  \<open>abef\<close>, and the old \<open>abef\<close> is the new \<open>cdgh\<close>.
\<close>

lemma digest_round_x2:
  assumes "st' = fips_round k1 w1 (fips_round k0 w0 st)"
  shows "sha256_digest_round_x2 (cdgh_of st) (abef_of st) (u, v, w1 + k1, w0 + k0) = abef_of st'"
    and "cdgh_of st' = abef_of st"
  using assms by (cases st rule: abef_of.cases; simp add: Let_def bool3ary_202_choose ac_simps)+

lemma K32X4_lanes:
  assumes "i < 16"
  shows "K32X4 ! i = (K32 ! (4 * i + 3), K32 ! (4 * i + 2), K32 ! (4 * i + 1), K32 ! (4 * i))"
proof -
  have "list_all (\<lambda>i. K32X4 ! i = (K32 ! (4 * i + 3), K32 ! (4 * i + 2), K32 ! (4 * i + 1), K32 ! (4 * i))) [0..<16]"
    by (simp add: K32X4_def upt_rec numeral_2_eq_2)
  with assms show ?thesis by (auto simp: list_all_iff)
qed

lemma rounds4_fips:
  assumes "i < 16"
  shows "rounds4 (abef_of st) (cdgh_of st) (lanes M i) i
     = (abef_of (fips_rounds M st (4 * i) (4 * i + 4)), cdgh_of (fips_rounds M st (4 * i) (4 * i + 4)))"
proof -
  let ?r = "\<lambda>t st. fips_round (K32 ! t) (W M t) st"
  let ?st = "?r (4 * i + 1) (?r (4 * i) st)"
  have "fips_rounds M st (4 * i) (4 * i + 4) = ?r (4 * i + 3) (?r (4 * i + 2) ?st)"
    by (simp add: fips_rounds_def upt_rec numeral_eq_Suc)
  moreover have "rounds4 (abef_of st) (cdgh_of st) (lanes M i) i
     = (abef_of (?r (4 * i + 3) (?r (4 * i + 2) ?st)), abef_of ?st)"
    using digest_round_x2 [OF refl, where st = st] digest_round_x2 [OF refl, where st = ?st]
    by (simp add: rounds4_def lanes_def K32X4_lanes [OF assms] Let_def)
  ultimately show ?thesis by (simp add: digest_round_x2(2) [OF refl])
qed

lemma sha256_digest_block_fips:
  assumes "length M = 16"
  shows "sha256_digest_block_u32 st M = fips_block st M"
proof -
  define R where "R i = fips_rounds M st 0 (4 * i)" for i
  have w: "(M ! 3, M ! 2, M ! 1, M ! 0) = lanes M 0" "(M ! 7, M ! 6, M ! 5, M ! 4) = lanes M 1"
    "(M ! 11, M ! 10, M ! 9, M ! 8) = lanes M 2" "(M ! 15, M ! 14, M ! 13, M ! 12) = lanes M 3"
    by (simp_all add: lanes_def W_block numeral_2_eq_2)
  have r: "rounds4 (abef_of (R i)) (cdgh_of (R i)) (lanes M i) i = (abef_of (R (Suc i)), cdgh_of (R (Suc i)))"
    if "i < 16" for i
    using rounds4_fips [OF that, of "R i" M] fips_rounds_split [of 0 "4 * i" "4 * i + 4" M st]
    by (simp add: R_def add.commute)
  have s: "schedule_rounds4 (abef_of (R (i + 4))) (cdgh_of (R (i + 4)))
        (lanes M i) (lanes M (i + 1)) (lanes M (i + 2)) (lanes M (i + 3)) (i + 4)
      = (lanes M (i + 4), abef_of (R (i + 5)), cdgh_of (R (i + 5)))" if "i < 12" for i
    using that r [of "i + 4"] schedule_lanes [of M i] by (simp add: schedule_rounds4_def add.commute)
  obtain s0 s1 s2 s3 s4 s5 s6 s7 where st: "st = (s0, s1, s2, s3, s4, s5, s6, s7)"
    by (cases st rule: abef_of.cases)
  have i: "(s0, s1, s4, s5) = abef_of (R 0)" "(s2, s3, s6, s7) = cdgh_of (R 0)"
    by (simp_all add: R_def fips_rounds_def st)
  obtain a b c d e f g h where e: "R 16 = (a, b, c, d, e, f, g, h)" by (cases "R 16" rule: abef_of.cases)
  have "sha256_digest_block_u32 st M = add_state st (R 16)"
    unfolding st sha256_digest_block_u32.simps Let_def w i
    using r [of 0] r [of 1] r [of 2] r [of 3] s [of 0] s [of 1] s [of 2] s [of 3] s [of 4] s [of 5]
      s [of 6] s [of 7] s [of 8] s [of 9] s [of 10] s [of 11]
    by (simp add: e flip: One_nat_def)
  then show ?thesis by (simp add: fips_block_def R_def)
qed

subsection \<open>Bytes to words\<close>

definition blocks_of :: "nat \<Rightarrow> 'a list \<Rightarrow> 'a list list" where
  "blocks_of n xs = map (\<lambda>i. take n (drop (n * i) xs)) [0..<length xs div n]"

lemma chunks_exact_blocks_of: "0 < n \<Longrightarrow> chunks_exact n xs = blocks_of n xs"
proof (induction n xs rule: chunks_exact.induct)
  case (1 n xs)
  show ?case
  proof (cases "length xs < n")
    case True
    then show ?thesis by (simp add: chunks_exact.simps blocks_of_def)
  next
    case False
    have "length xs div n = Suc ((length xs - n) div n)"
      using False 1(2) by (simp add: le_div_geq)
    then have "blocks_of n xs = take n xs # blocks_of n (drop n xs)"
      by (simp add: blocks_of_def upt_conv_Cons map_Suc_upt [symmetric] comp_def add.commute del: upt_Suc)
    with 1 False show ?thesis by (simp add: chunks_exact.simps)
  qed
qed

lemma to_u32s_chunks: "length block = 64 \<Longrightarrow> map u32_from_be_bytes (chunks_exact 4 block) = to_u32s block"
  by (simp add: chunks_exact_blocks_of blocks_of_def to_u32s_def)

lemma length_to_u32s [simp]: "length (to_u32s block) = 16"
  by (simp add: to_u32s_def)

text \<open>The standard's hash computation over a list of 64-byte blocks.\<close>

definition fips_hash :: "State256 \<Rightarrow> bytes list \<Rightarrow> State256" where
  "fips_hash = foldl (\<lambda>H block. fips_block H (to_u32s block))"

lemma fips_hash_simps [simp]:
  "fips_hash st [] = st"
  "fips_hash st (xs @ ys) = fips_hash (fips_hash st xs) ys"
  by (simp_all add: fips_hash_def)

lemma soft_compress_fips: "list_all (\<lambda>b. length b = 64) blocks \<Longrightarrow> soft_compress st blocks = fips_hash st blocks"
  unfolding soft_compress_def fips_hash_def
  by (induction blocks arbitrary: st) (simp_all add: to_u32s_chunks sha256_digest_block_fips)

lemma compact_compress_fips: "compact_compress st blocks = fips_hash st blocks"
  by (simp add: compact_compress_def fips_hash_def compress_u32_fips)

subsection \<open>Claims\<close>

text \<open>C24: the vectorised compression function, which keeps the eight working variables in two
  vectors and computes two rounds and four schedule words at a time with the vector roles rotating
  through five registers, computes on every list of 64-byte blocks and from every state exactly what
  the compact loop computes, and both compute the block function of FIPS 180-4 (the recurrence
  of the message schedule and the 64 rounds).\<close>

theorem compress_equiv:
  assumes "\<forall>b \<in> set blocks. length b = 64"
  shows "soft_compress state blocks = compact_compress state blocks
     \<and> compact_compress state blocks = foldl (\<lambda>H block. fips_block H (to_u32s block)) state blocks"
  using assms by (simp add: soft_compress_fips compact_compress_fips fips_hash_def list_all_iff)

theorem compress_equiv_witness:
  "soft_compress H256_256 [replicate 64 7, map word_of_nat [1..<65]] = compact_compress H256_256 [replicate 64 7, map word_of_nat [1..<65]]"
  using compress_equiv [of "[replicate 64 7, map word_of_nat [1..<65]]" H256_256] by simp

end
