(* ===== verification/Phi_Block_Buffer.thy ===== *)
theory Phi_Block_Buffer
  imports Phi_Sha256
begin

section \<open>The block buffer (vendored block-buffer)\<close>

text \<open>
  The eager buffer that cuts a hasher's input into blocks, generic in the block size \<open>N\<close>
  (\<open>BlockSize::USIZE\<close>) and in the closure that consumes blocks, which is a function on the state it
  captures. The position is the \<open>u8\<close> of the source. \<open>get_pos\<close> declares a position outside the buffer
  unreachable (a debug build asserts it): the model has \<open>Panic\<close> there, as for every slice
  out of range, and the lemmas show that no such run exists.
\<close>

record BlockBuffer =
  bb_buffer :: bytes
  bb_pos :: byte

definition bb_default :: "nat \<Rightarrow> (BlockBuffer, 'e) result" where
  "bb_default N = (if N = 0 then Panic else Ok \<lparr>bb_buffer = replicate N 0, bb_pos = 0\<rparr>)"

subsection \<open>Slices written in place\<close>

text \<open>\<open>buf[i..][..n].copy_from_slice(src)\<close>, \<open>xs.split_at(k)\<close>, \<open>buf[i] = x\<close>, and the loop that clears
  \<open>buf[i..]\<close>.\<close>

definition copy_at :: "'a list \<Rightarrow> usize \<Rightarrow> usize \<Rightarrow> 'a list \<Rightarrow> ('a list, 'e) result" where
  "copy_at buf i n src =
     (if i \<le> length buf \<and> n \<le> length buf - i \<and> length src = n
      then Ok (take i buf @ src @ drop (i + n) buf) else Panic)"

definition split_at :: "'a list \<Rightarrow> usize \<Rightarrow> ('a list \<times> 'a list, 'e) result" where
  "split_at xs k = (if k \<le> length xs then Ok (take k xs, drop k xs) else Panic)"

definition set_at :: "'a list \<Rightarrow> usize \<Rightarrow> 'a \<Rightarrow> ('a list, 'e) result" where
  "set_at buf i x = (if i < length buf then Ok (buf[i := x]) else Panic)"

definition zero_from :: "bytes \<Rightarrow> usize \<Rightarrow> (bytes, 'e) result" where
  "zero_from buf i = (if i \<le> length buf then Ok (take i buf @ replicate (length buf - i) 0) else Panic)"

lemma split_at_Ok: "k \<le> length xs \<Longrightarrow> split_at xs k = Ok (take k xs, drop k xs)"
  by (simp add: split_at_def)

lemma copy_at_tail:
  "length src = n \<Longrightarrow> i + n = length buf \<Longrightarrow> copy_at buf i n src = Ok (take i buf @ src)"
  by (auto simp: copy_at_def)

subsection \<open>The eager kind (sealed.rs)\<close>

definition eager_invariant :: "usize \<Rightarrow> usize \<Rightarrow> bool" where
  "eager_invariant pos block_size \<longleftrightarrow> pos < block_size"

definition split_blocks :: "nat \<Rightarrow> bytes \<Rightarrow> bytes list \<times> bytes" where
  "split_blocks N data =
     (let nb = length data div N;
          blocks_len = nb * N;
          tail_len = length data - blocks_len
      in (map (\<lambda>i. take N (drop (N * i) data)) [0..<nb], take tail_len (drop blocks_len data)))"

subsection \<open>Operations (lib.rs)\<close>

definition get_pos :: "nat \<Rightarrow> BlockBuffer \<Rightarrow> (usize, 'e) result" where
  "get_pos N b = (let pos = unat (bb_pos b) in if eager_invariant pos N then Ok pos else Panic)"

definition set_pos_unchecked :: "nat \<Rightarrow> usize \<Rightarrow> BlockBuffer \<Rightarrow> (BlockBuffer, 'e) result" where
  "set_pos_unchecked N pos b =
     (if eager_invariant pos N then Ok (b\<lparr>bb_pos := word_of_nat pos\<rparr>) else Panic)"

definition bb_reset :: "nat \<Rightarrow> BlockBuffer \<Rightarrow> (BlockBuffer, 'e) result" where
  "bb_reset N b = set_pos_unchecked N 0 b"

definition digest_blocks ::
    "nat \<Rightarrow> ('s \<Rightarrow> bytes list \<Rightarrow> 's) \<Rightarrow> BlockBuffer \<Rightarrow> bytes \<Rightarrow> 's \<Rightarrow> (BlockBuffer \<times> 's, 'e) result" where
  "digest_blocks N compress b input s =
     bind_r (get_pos N b) (\<lambda>pos.
     let rem = N - pos;
         n = length input in
     if eager_invariant n rem then
       bind_r (copy_at (bb_buffer b) pos n input) (\<lambda>buf.
       bind_r (set_pos_unchecked N (pos + n) (b\<lparr>bb_buffer := buf\<rparr>)) (\<lambda>b. Ok (b, s)))
     else
       bind_r (if pos \<noteq> 0 then
                 bind_r (split_at input rem) (\<lambda>(left, right).
                 bind_r (copy_at (bb_buffer b) pos (length (bb_buffer b) - pos) left) (\<lambda>buf.
                 Ok (buf, right, compress s [buf])))
               else Ok (bb_buffer b, input, s)) (\<lambda>(buf, input, s).
       let (blocks, leftover) = split_blocks N input;
           s = (if blocks \<noteq> [] then compress s blocks else s);
           n = length leftover in
       bind_r (copy_at buf 0 n leftover) (\<lambda>buf.
       bind_r (set_pos_unchecked N n (b\<lparr>bb_buffer := buf\<rparr>)) (\<lambda>b. Ok (b, s)))))"

definition digest_pad ::
    "nat \<Rightarrow> ('s \<Rightarrow> bytes \<Rightarrow> 's) \<Rightarrow> byte \<Rightarrow> bytes \<Rightarrow> BlockBuffer \<Rightarrow> 's \<Rightarrow> (BlockBuffer \<times> 's, 'e) result" where
  "digest_pad N compress delim suffix b s =
     (if length suffix > N then Panic else
     bind_r (get_pos N b) (\<lambda>pos.
     bind_r (set_at (bb_buffer b) pos delim) (\<lambda>buf.
     bind_r (zero_from buf (pos + 1)) (\<lambda>buf.
     let n = N - length suffix in
     if N - pos - 1 < length suffix then
       let s = compress s buf in
       bind_r (copy_at (replicate N 0) n (N - n) suffix) (\<lambda>block.
       let s = compress s block in
       bind_r (set_pos_unchecked N 0 (b\<lparr>bb_buffer := buf\<rparr>)) (\<lambda>b. Ok (b, s)))
     else
       bind_r (copy_at buf n (length buf - n) suffix) (\<lambda>buf.
       let s = compress s buf in
       bind_r (set_pos_unchecked N 0 (b\<lparr>bb_buffer := buf\<rparr>)) (\<lambda>b. Ok (b, s)))))))"

definition len64_padding_be ::
    "nat \<Rightarrow> ('s \<Rightarrow> bytes \<Rightarrow> 's) \<Rightarrow> u64 \<Rightarrow> BlockBuffer \<Rightarrow> 's \<Rightarrow> (BlockBuffer \<times> 's, 'e) result" where
  "len64_padding_be N compress data_len b s = digest_pad N compress 0x80 (be_bytes 8 (unat data_len)) b s"

definition len128_padding_be ::
    "nat \<Rightarrow> ('s \<Rightarrow> bytes \<Rightarrow> 's) \<Rightarrow> 128 word \<Rightarrow> BlockBuffer \<Rightarrow> 's \<Rightarrow> (BlockBuffer \<times> 's, 'e) result" where
  "len128_padding_be N compress data_len b s = digest_pad N compress 0x80 (be_bytes 16 (unat data_len)) b s"

subsection \<open>Blocks of a message\<close>

lemma split_blocks_eq:
  "0 < N \<Longrightarrow> split_blocks N data = (blocks_of N data, drop (N * (length data div N)) data)"
  by (simp add: split_blocks_def blocks_of_def Let_def mult.commute)

lemma blocks_of_short [simp]: "length xs < n \<Longrightarrow> blocks_of n xs = []"
  by (simp add: blocks_of_def)

lemma blocks_of_single: "0 < n \<Longrightarrow> length xs = n \<Longrightarrow> blocks_of n xs = [xs]"
  by (simp add: blocks_of_def)

lemma length_blocks_of [simp]: "length (blocks_of n xs) = length xs div n"
  by (simp add: blocks_of_def)

lemma blocks_of_lengths: "0 < n \<Longrightarrow> b \<in> set (blocks_of n xs) \<Longrightarrow> length b = n"
proof -
  assume n: "0 < n" and "b \<in> set (blocks_of n xs)"
  then obtain i where i: "i < length xs div n" "b = take n (drop (n * i) xs)" by (auto simp: blocks_of_def)
  then have "n * Suc i \<le> n * (length xs div n)" by (intro mult_le_mono2) simp
  also have "\<dots> \<le> length xs" by simp
  finally show "length b = n" using i by simp
qed

lemma blocks_of_append:
  assumes "0 < n" "n dvd length xs"
  shows "blocks_of n (xs @ ys) = blocks_of n xs @ blocks_of n ys"
proof -
  obtain k where k: "length xs = n * k" using assms(2) by (auto simp: dvd_def)
  have "blocks_of n (xs @ ys) = map (\<lambda>i. take n (drop (n * i) (xs @ ys))) ([0..<k] @ [k..<k + length ys div n])"
    using k assms(1) upt_add_eq_append [of 0 k "length ys div n"] by (simp add: blocks_of_def)
  moreover have "take n (drop (n * i) (xs @ ys)) = take n (drop (n * i) xs)" if "i < k" for i
  proof -
    have "n * i + n \<le> n * k" using that by (metis Suc_leI add.commute mult_Suc_right mult_le_mono2)
    then show ?thesis using k by simp
  qed
  moreover have "map (\<lambda>i. take n (drop (n * i) (xs @ ys))) [k..<k + j] = map (\<lambda>i. take n (drop (n * i) ys)) [0..<j]" for j
    using k by (induction j) (auto simp: algebra_simps)
  ultimately show ?thesis using k assms(1) by (simp add: blocks_of_def)
qed

lemma blocks_of_prefix:
  assumes "0 < n"
  shows "blocks_of n xs = blocks_of n (take (n * (length xs div n)) xs)"
proof -
  have "blocks_of n xs = blocks_of n (take (n * (length xs div n)) xs) @ blocks_of n (drop (n * (length xs div n)) xs)"
    using blocks_of_append [of n "take (n * (length xs div n)) xs" "drop (n * (length xs div n)) xs"] assms by simp
  moreover have "length (drop (n * (length xs div n)) xs) < n"
    using assms by (simp add: minus_mult_div_eq_mod)
  ultimately show ?thesis by simp
qed

text \<open>The number of zeros of the padding, when the tail fits the last block and when it does not.\<close>

lemma pad_one: "0 < n \<Longrightarrow> n \<le> N \<Longrightarrow> (N - n mod N) mod N = N - (n :: nat)"
  by (cases "n = N") auto

lemma pad_two: "N < n \<Longrightarrow> n \<le> 2 * N \<Longrightarrow> (N - n mod N) mod N = 2 * N - (n :: nat)"
  using pad_one [of "n - N" N] by (simp add: le_mod_geq mult_2)

lemma pad_dvd: "0 < N \<Longrightarrow> N dvd n + (N - n mod N) mod (N :: nat)"
proof -
  assume "0 < N"
  then have "(n mod N + (N - n mod N)) mod N = 0" by simp
  then show ?thesis by (metis mod_add_left_eq mod_add_right_eq dvd_eq_mod_eq_0)
qed

subsection \<open>What a buffered hasher has absorbed\<close>

text \<open>
  The contract of a block consumer: it takes blocks in order, and a list of blocks at once is
  the same as its parts one after the other. Under this contract the buffer with its
  consumer is, after any sequence of calls, determined by the concatenation of the inputs:
  the consumer has taken the full blocks of it and the buffer holds the rest.
\<close>

locale block_consumer =
  fixes N :: nat and consume :: "'s \<Rightarrow> bytes list \<Rightarrow> 's"
  assumes size: "0 < N" "N < 256"
    and consume_Nil: "consume s [] = s"
    and consume_append: "consume s (xs @ ys) = consume (consume s xs) ys"
begin

lemma consume_two: "consume s [x, y] = consume (consume s [x]) [y]"
  using consume_append [of s "[x]" "[y]"] by simp

definition holds :: "BlockBuffer \<Rightarrow> bytes \<Rightarrow> bool" where
  "holds b r \<longleftrightarrow> length (bb_buffer b) = N \<and> length r < N \<and> unat (bb_pos b) = length r \<and> take (length r) (bb_buffer b) = r"

definition absorbed :: "'s \<Rightarrow> bytes \<Rightarrow> BlockBuffer \<Rightarrow> 's \<Rightarrow> bool" where
  "absorbed s0 m b s \<longleftrightarrow>
     (\<exists>F r. m = F @ r \<and> N dvd length F \<and> holds b r \<and> s = consume s0 (blocks_of N F))"

lemma absorbed_start: "bb_default N = Ok b \<Longrightarrow> absorbed s0 [] b s0"
  using size by (auto simp: absorbed_def holds_def bb_default_def consume_Nil)

lemma holds_pos: "holds b r \<Longrightarrow> get_pos N b = Ok (length r)"
  by (simp add: holds_def get_pos_def eager_invariant_def Let_def)

lemma set_pos: "p < N \<Longrightarrow> set_pos_unchecked N p b = Ok (b\<lparr>bb_pos := word_of_nat p\<rparr>)"
  by (simp add: set_pos_unchecked_def eager_invariant_def)

lemma holds_update: "length buf = N \<Longrightarrow> p < N \<Longrightarrow> holds (b\<lparr>bb_buffer := buf, bb_pos := word_of_nat p\<rparr>) (take p buf)"
  using size by (simp add: holds_def)

text \<open>The last part of \<open>digest_blocks\<close>: from a block boundary on.\<close>

lemma absorb_from_boundary:
  assumes "length buf = N" "N dvd length F" "s = consume s0 (blocks_of N F)"
  shows "\<exists>b'. bind_r (copy_at buf 0 (length (drop (N * (length inp div N)) inp)) (drop (N * (length inp div N)) inp)) (\<lambda>buf.
       bind_r (set_pos_unchecked N (length (drop (N * (length inp div N)) inp)) (b\<lparr>bb_buffer := buf\<rparr>))
         (\<lambda>b. Ok (b, consume s (blocks_of N inp)))) = Ok (b', consume s (blocks_of N inp))
     \<and> absorbed s0 (F @ inp) b' (consume s (blocks_of N inp))"
proof -
  let ?k = "N * (length inp div N)"
  define rest where "rest = drop ?k inp"
  have rest: "length rest < N" using size by (simp add: rest_def minus_mult_div_eq_mod)
  define b' where "b' = b\<lparr>bb_buffer := rest @ drop (length rest) buf, bb_pos := word_of_nat (length rest)\<rparr>"
  have b': "holds b' rest"
    using holds_update [of "rest @ drop (length rest) buf" "length rest" b] assms(1) rest by (simp add: b'_def)
  have "consume s (blocks_of N inp) = consume s0 (blocks_of N (F @ take ?k inp))"
    using assms(2,3) size(1) blocks_of_prefix [OF size(1), of inp] by (simp add: blocks_of_append consume_append)
  moreover have "N dvd length (F @ take ?k inp)" using assms(2) by simp
  ultimately have "absorbed s0 (F @ inp) b' (consume s (blocks_of N inp))"
    unfolding absorbed_def using b'
    by (intro exI [of _ "F @ take ?k inp"] exI [of _ rest]) (simp add: rest_def)
  then show ?thesis
    using rest assms(1) by (intro exI [of _ b']) (simp add: copy_at_def set_pos b'_def rest_def [symmetric])
qed

lemma digest_blocks_absorbed:
  assumes "absorbed s0 m b s"
  shows "\<exists>b' s'. digest_blocks N consume b input s = Ok (b', s') \<and> absorbed s0 (m @ input) b' s'"
proof -
  obtain F r where F: "m = F @ r" "N dvd length F" "holds b r" "s = consume s0 (blocks_of N F)"
    using assms by (auto simp: absorbed_def)
  have buf: "length (bb_buffer b) = N" "take (length r) (bb_buffer b) = r" "length r < N"
    using F(3) by (auto simp: holds_def)
  note pos = holds_pos [OF F(3)]
  consider (short) "length input < N - length r" | (boundary) "\<not> length input < N - length r" "r = []"
    | (across) "\<not> length input < N - length r" "r \<noteq> []" by blast
  then show ?thesis
  proof cases
    case short
    let ?buf = "r @ input @ drop (length r + length input) (bb_buffer b)"
    have len: "length r + length input < N" using short by simp
    then have "holds (b\<lparr>bb_buffer := ?buf, bb_pos := word_of_nat (length r + length input)\<rparr>) (r @ input)"
      using holds_update [of ?buf "length r + length input" b] buf(1) by simp
    then have "absorbed s0 (m @ input) (b\<lparr>bb_buffer := ?buf, bb_pos := word_of_nat (length r + length input)\<rparr>) s"
      unfolding absorbed_def using F(1,2,4) by (intro exI [of _ F] exI [of _ "r @ input"]) simp
    then show ?thesis
      using short len buf(1,2) by (simp add: digest_blocks_def pos eager_invariant_def copy_at_def set_pos Let_def)
  next
    case boundary
    then show ?thesis
      using absorb_from_boundary [OF buf(1) F(2,4), of input b] F(1)
      by (auto simp: digest_blocks_def pos eager_invariant_def split_blocks_eq [OF size(1)] Let_def consume_Nil)
  next
    case across
    define buf1 inp1 where "buf1 = r @ take (N - length r) input" and "inp1 = drop (N - length r) input"
    have len: "length buf1 = N" and len_left: "length (take (N - length r) input) = N - length r"
      using across buf(3) by (simp_all add: buf1_def)
    have "consume s [buf1] = consume s0 (blocks_of N (F @ buf1))"
      using F(2,4) size(1) len by (simp only: blocks_of_append blocks_of_single consume_append)
    moreover have "N dvd length (F @ buf1)" using F(2) len by simp
    ultimately have "\<exists>b'. digest_blocks N consume b input s = Ok (b', consume (consume s [buf1]) (blocks_of N inp1))
       \<and> absorbed s0 ((F @ buf1) @ inp1) b' (consume (consume s [buf1]) (blocks_of N inp1))"
      using absorb_from_boundary [OF len, of "F @ buf1" "consume s [buf1]" s0 inp1 b] across buf(1,2)
      by (auto simp: digest_blocks_def pos eager_invariant_def split_blocks_eq [OF size(1)] Let_def consume_Nil
          split_at_Ok copy_at_tail len_left buf(3) less_imp_le
          buf1_def [symmetric] inp1_def [symmetric])
    then show ?thesis using F(1) by (auto simp: buf1_def inp1_def)
  qed
qed

text \<open>
  \<open>digest_pad\<close> completes the message with the delimiter, the fewest zeros that make room for the
  suffix in the last block, and the suffix.
\<close>

lemma digest_pad_absorbed:
  assumes "absorbed s0 m b s" "length suffix \<le> N"
  defines "z \<equiv> (N - (length m + 1 + length suffix) mod N) mod N"
  shows "\<exists>b'. digest_pad N (\<lambda>s block. consume s [block]) delim suffix b s
     = Ok (b', consume s0 (blocks_of N (m @ [delim] @ replicate z 0 @ suffix))) \<and> holds b' []"
proof -
  obtain F r where F: "m = F @ r" "N dvd length F" "holds b r" "s = consume s0 (blocks_of N F)"
    using assms(1) by (auto simp: absorbed_def)
  have buf: "length (bb_buffer b) = N" "take (length r) (bb_buffer b) = r" "length r < N"
    using F(3) by (auto simp: holds_def)
  note pos = holds_pos [OF F(3)]
  obtain k where k: "length F = N * k" using F(2) by (auto simp: dvd_def)
  have cut: "take (Suc (length r)) ((bb_buffer b)[length r := delim]) = r @ [delim]"
    using buf by (simp add: take_Suc_conv_app_nth)
  have m: "blocks_of N (m @ xs) = blocks_of N F @ blocks_of N (r @ xs)" for xs
    using blocks_of_append [OF size(1) F(2), of "r @ xs"] F(1) by simp
  have zmod: "z = (N - (length r + 1 + length suffix) mod N) mod N"
    by (simp add: z_def F(1) k add.assoc)
  show ?thesis
  proof (cases "N - length r - 1 < length suffix")
    case True
    let ?b1 = "r @ [delim] @ replicate (N - length r - 1) 0"
    let ?b2 = "replicate (N - length suffix) 0 @ suffix"
    have z: "z = (N - length r - 1) + (N - length suffix)"
      using True zmod pad_two [of N "length r + 1 + length suffix"] buf(3) assms(2) by simp
    have "r @ [delim] @ replicate z 0 @ suffix = ?b1 @ ?b2" unfolding z replicate_add by simp
    then have "blocks_of N (r @ [delim] @ replicate z 0 @ suffix) = [?b1, ?b2]"
      using blocks_of_append [OF size(1), of ?b1 ?b2] blocks_of_single [OF size(1), of ?b1]
        blocks_of_single [OF size(1), of ?b2] buf(3) assms(2) by simp
    then show ?thesis
      using True assms(2) buf cut size F(4) m
      by (simp add: digest_pad_def pos set_at_def zero_from_def copy_at_def set_pos_unchecked_def
          eager_invariant_def Let_def consume_append consume_two holds_def)
  next
    case False
    let ?b1 = "r @ [delim] @ replicate (N - length r - 1 - length suffix) 0 @ suffix"
    have "z = N - length r - 1 - length suffix"
      using False zmod pad_one [of "length r + 1 + length suffix" N] buf(3) by simp
    then have "blocks_of N (r @ [delim] @ replicate z 0 @ suffix) = [?b1]"
      using blocks_of_single [OF size(1), of ?b1] False buf(3) by simp
    moreover have "N - (length suffix + length r) = Suc (N - Suc (length r + length suffix))"
      using False buf(3) by simp
    ultimately show ?thesis
      using False assms(2) buf cut size F(4) m
      by (simp add: digest_pad_def pos set_at_def zero_from_def copy_at_def set_pos_unchecked_def
          eager_invariant_def Let_def consume_append min_absorb1 diff_le_mono2 holds_def)
  qed
qed

end

end
