(* ===== verification/Phi_Core_Wrapper.thy ===== *)
theory Phi_Core_Wrapper
  imports Phi_Block_Buffer
begin

section \<open>Hashers over a block core (vendored digest)\<close>

text \<open>
  The wrapper of \<open>digest\<close> that turns a core working on whole blocks into a hasher fed with byte
  strings (\<open>wrapper.rs\<close>). The core's trait methods (\<open>core_api.rs\<close>: block and output size,
  \<open>update_blocks\<close>, \<open>finalize_fixed_core\<close>, \<open>reset\<close>) are a record, so that the same wrapper serves
  SHA-256, SHA-512 and HMAC. The interface \<open>hash_core\<close> is what such a core promises: started at
  \<open>c0\<close> and finalized with its buffer, it returns a hash of everything absorbed. The wrapper
  then returns that hash of the concatenation of its inputs.
\<close>

lemma bind_r_assoc: "bind_r (bind_r m f) g = bind_r m (\<lambda>x. bind_r (f x) g)"
  by (cases m) simp_all

lemma bind_r_Ok_right [simp]: "bind_r m Ok = m"
  by (cases m) simp_all

subsection \<open>The traits of a core (core\_api.rs)\<close>

record ('c, 'e) core_ops =
  co_size :: usize
  co_out :: usize
  co_update_blocks :: "'c \<Rightarrow> bytes list \<Rightarrow> 'c"
  co_finalize :: "'c \<Rightarrow> BlockBuffer \<Rightarrow> ('c \<times> BlockBuffer \<times> bytes, 'e) result"
  co_reset :: "'c \<Rightarrow> ('c, 'e) result"

datatype invalid_output_size = InvalidOutputSize

text \<open>A core with a \<open>Default\<close>, as that of an unkeyed hash.\<close>

record ('c, 'e) hash_ops = "('c, 'e) core_ops" +
  ho_default :: "('c, 'e) result"

subsection \<open>The wrapper (wrapper.rs)\<close>

record 'c CoreWrapper =
  cw_core :: 'c
  cw_buffer :: BlockBuffer

definition cw_from_core :: "('c, 'e, 'z) core_ops_scheme \<Rightarrow> 'c \<Rightarrow> ('c CoreWrapper, 'e) result" where
  "cw_from_core D core = bind_r (bb_default (co_size D)) (\<lambda>buffer. Ok \<lparr>cw_core = core, cw_buffer = buffer\<rparr>)"

definition cw_default :: "('c, 'e) hash_ops \<Rightarrow> ('c CoreWrapper, 'e) result" where
  "cw_default D = bind_r (ho_default D) (cw_from_core D)"

definition cw_update :: "('c, 'e, 'z) core_ops_scheme \<Rightarrow> bytes \<Rightarrow> 'c CoreWrapper \<Rightarrow> ('c CoreWrapper, 'e) result" where
  "cw_update D input w =
     bind_r (digest_blocks (co_size D) (co_update_blocks D) (cw_buffer w) input (cw_core w)) (\<lambda>(buffer, core).
     Ok \<lparr>cw_core = core, cw_buffer = buffer\<rparr>)"

definition cw_finalize :: "('c, 'e, 'z) core_ops_scheme \<Rightarrow> 'c CoreWrapper \<Rightarrow> (bytes, 'e) result" where
  "cw_finalize D w = bind_r (co_finalize D (cw_core w) (cw_buffer w)) (\<lambda>(core, buffer, out). Ok out)"

definition cw_finalize_reset :: "('c, 'e, 'z) core_ops_scheme \<Rightarrow> 'c CoreWrapper \<Rightarrow> (bytes \<times> 'c CoreWrapper, 'e) result" where
  "cw_finalize_reset D w =
     bind_r (co_finalize D (cw_core w) (cw_buffer w)) (\<lambda>(core, buffer, out).
     bind_r (co_reset D core) (\<lambda>core.
     bind_r (bb_reset (co_size D) buffer) (\<lambda>buffer.
     Ok (out, \<lparr>cw_core = core, cw_buffer = buffer\<rparr>))))"

text \<open>\<open>D::digest(data)\<close> (digest.rs), and \<open>update\<close> called on each of a list of inputs.\<close>

definition cw_digest :: "('c, 'e) hash_ops \<Rightarrow> bytes \<Rightarrow> (bytes, 'e) result" where
  "cw_digest D data = bind_r (cw_default D) (\<lambda>hasher. bind_r (cw_update D data hasher) (cw_finalize D))"

primrec cw_updates :: "('c, 'e, 'z) core_ops_scheme \<Rightarrow> bytes list \<Rightarrow> 'c CoreWrapper \<Rightarrow> ('c CoreWrapper, 'e) result" where
  "cw_updates D [] w = Ok w"
| "cw_updates D (x # xs) w = bind_r (cw_update D x w) (cw_updates D xs)"

subsection \<open>What a core promises, and what the wrapper makes of it\<close>

locale hash_core = block_consumer "co_size D" "co_update_blocks D"
  for D :: "('c, 'e, 'z) core_ops_scheme" +
  fixes c0 :: 'c and hash :: "bytes \<Rightarrow> bytes"
  assumes finalize_absorbed:
      "absorbed c0 m b c \<Longrightarrow> \<exists>c' b'. co_finalize D c b = Ok (c', b', hash m) \<and> holds b' [] \<and> co_reset D c' = Ok c0"
    and out_length: "length (hash m) = co_out D"
begin

definition absorbs :: "bytes \<Rightarrow> 'c CoreWrapper \<Rightarrow> bool" where
  "absorbs m w \<longleftrightarrow> absorbed c0 m (cw_buffer w) (cw_core w)"

lemma from_core_absorbs: "\<exists>w. cw_from_core D c0 = Ok w \<and> absorbs [] w"
proof -
  let ?b = "\<lparr>bb_buffer = replicate (co_size D) 0, bb_pos = 0\<rparr>"
  have "bb_default (co_size D) = Ok ?b" using size by (simp add: bb_default_def)
  with absorbed_start show ?thesis using size by (simp add: cw_from_core_def bb_default_def absorbs_def)
qed

lemma update_absorbs:
  assumes "absorbs m w"
  shows "\<exists>w'. cw_update D input w = Ok w' \<and> absorbs (m @ input) w'"
proof -
  from assms digest_blocks_absorbed obtain b c where
    "digest_blocks (co_size D) (co_update_blocks D) (cw_buffer w) input (cw_core w) = (Ok (b, c) :: (_, 'e) result)"
    "absorbed c0 (m @ input) b c"
    unfolding absorbs_def by blast
  then show ?thesis
    by (intro exI [of _ "\<lparr>cw_core = c, cw_buffer = b\<rparr>"]) (simp add: cw_update_def absorbs_def)
qed

lemma updates_absorbs: "absorbs m w \<Longrightarrow> \<exists>w'. cw_updates D xs w = Ok w' \<and> absorbs (m @ concat xs) w'"
proof (induction xs arbitrary: m w)
  case (Cons x xs)
  from update_absorbs [OF Cons.prems, of x] obtain w1 where w1: "cw_update D x w = Ok w1" "absorbs (m @ x) w1" by blast
  from Cons.IH [OF w1(2)] w1(1) show ?case by simp
qed simp

lemma finalize_absorbs: "absorbs m w \<Longrightarrow> cw_finalize D w = Ok (hash m)"
  using finalize_absorbed [of m "cw_buffer w" "cw_core w"] by (auto simp: absorbs_def cw_finalize_def)

lemma finalize_reset_absorbs:
  assumes "absorbs m w"
  shows "\<exists>w'. cw_finalize_reset D w = Ok (hash m, w') \<and> absorbs [] w'"
proof -
  from assms finalize_absorbed obtain c b where
    f: "co_finalize D (cw_core w) (cw_buffer w) = Ok (c, b, hash m)" "holds b []" "co_reset D c = Ok c0"
    unfolding absorbs_def by blast
  then have "absorbed c0 [] (b\<lparr>bb_pos := 0\<rparr>) c0"
    unfolding absorbed_def by (auto simp: holds_def consume_Nil)
  with f show ?thesis
    using size by (simp add: cw_finalize_reset_def bb_reset_def set_pos absorbs_def)
qed

lemma stream_from: "absorbs m w \<Longrightarrow> bind_r (cw_updates D xs w) (cw_finalize D) = Ok (hash (m @ concat xs))"
  using updates_absorbs [of m w xs] finalize_absorbs by auto

lemma stream: "bind_r (cw_from_core D c0) (\<lambda>w. bind_r (cw_updates D xs w) (cw_finalize D)) = Ok (hash (concat xs))"
  using from_core_absorbs stream_from [of "[]" _ xs] by auto

end

text \<open>The hasher of an unkeyed core starts from its default.\<close>

locale hasher = hash_core D c0 hash for D :: "('c, 'e) hash_ops" and c0 hash +
  assumes default_core: "ho_default D = Ok c0"
begin

lemma default_absorbs: "\<exists>w. cw_default D = Ok w \<and> absorbs [] w"
  using from_core_absorbs by (simp add: cw_default_def default_core)

lemma default_stream: "bind_r (cw_default D) (\<lambda>w. bind_r (cw_updates D xs w) (cw_finalize D)) = Ok (hash (concat xs))"
  using stream [of xs] by (simp add: cw_default_def default_core)

lemma digest_eq: "cw_digest D m = Ok (hash m)"
  using default_stream [of "[m]"] by (simp add: cw_digest_def bind_r_assoc)

lemma reset_stream:
  "bind_r (cw_default D) (\<lambda>w. bind_r (cw_updates D xs w) (\<lambda>w. bind_r (cw_finalize_reset D w) (\<lambda>(d, w).
     bind_r (cw_updates D ys w) (\<lambda>w. bind_r (cw_finalize D w) (\<lambda>d'. Ok (d, d'))))))
   = Ok (hash (concat xs), hash (concat ys))"
proof -
  obtain w0 where w0: "cw_default D = Ok w0" "absorbs [] w0" using default_absorbs by blast
  from updates_absorbs [OF w0(2), of xs] obtain w1 where w1: "cw_updates D xs w0 = Ok w1" "absorbs (concat xs) w1" by auto
  from finalize_reset_absorbs [OF w1(2)] obtain w2 where
    w2: "cw_finalize_reset D w1 = Ok (hash (concat xs), w2)" "absorbs [] w2" by blast
  from updates_absorbs [OF w2(2), of ys] obtain w3 where "cw_updates D ys w2 = Ok w3" "absorbs (concat ys) w3" by auto
  with w0(1) w1(1) w2(1) show ?thesis by (simp add: finalize_absorbs)
qed

end

subsection \<open>The length field of the padding\<close>

lemma be_bytes_mod: "be_bytes n (x mod 256 ^ n) = be_bytes n x"
  by (metis be_bytes_be_val be_val_be_bytes length_be_bytes)

text \<open>The bit length the cores compute from the position \<open>p\<close> and the count of \<open>N\<close>-byte blocks, in a
  word of \<open>8 n\<close> bits, has the big-endian form of the true bit length, both modulo \<open>2 ^ (8 n)\<close>.\<close>

lemma bit_length_field:
  assumes "N dvd k" "LENGTH('w) = 8 * n"
  shows "be_bytes n (unat (8 * (word_of_nat p + word_of_nat N * word_of_nat (k div N)) :: 'w::len word)) = be_bytes n (8 * (k + p))"
proof -
  have "(8 * (word_of_nat p + word_of_nat N * word_of_nat (k div N)) :: 'w word) = word_of_nat (8 * (k + p))"
    using assms(1) by (auto elim!: dvdE simp: algebra_simps)
  moreover have "(2 :: nat) ^ LENGTH('w) = 256 ^ n" by (simp add: assms(2) power_mult)
  ultimately show ?thesis using be_bytes_mod [of n "8 * (k + p)"] by (simp only: unat_of_nat)
qed

end
