(* ===== verification/Phi_Hasher.thy ===== *)
theory Phi_Hasher
  imports Phi_Core_Wrapper
begin

section \<open>The SHA-256 hasher (vendored sha2, digest)\<close>

text \<open>
  The hasher every module of the crate uses: the core of \<open>sha2\<close> (\<open>core_api.rs\<close>) with its chaining
  state and block count and the wrapper of \<open>digest\<close> that fixes the output size (\<open>ct_variable.rs\<close>),
  which together are a core in the sense of \<open>Phi_Core_Wrapper\<close>, and the \<open>Digest\<close> methods on top.
  \<open>compress256\<close> is the portable function of \<open>soft.rs\<close>, which the build uses on every target
  without the SHA instructions. The \<open>u64\<close> arithmetic on the block count and the bit length is on
  64-bit words; below \<open>2 ^ 61\<close> bytes of input nothing wraps.
\<close>

subsection \<open>The core (core\_api.rs)\<close>

record Sha256VarCore =
  vc_state :: State256
  vc_block_len :: u64

definition compress256 :: "State256 \<Rightarrow> bytes list \<Rightarrow> State256" where
  "compress256 state blocks = soft_compress state blocks"

definition vc_update_blocks :: "Sha256VarCore \<Rightarrow> bytes list \<Rightarrow> Sha256VarCore" where
  "vc_update_blocks core blocks =
     core\<lparr>vc_block_len := vc_block_len core + word_of_nat (length blocks),
          vc_state := compress256 (vc_state core) blocks\<rparr>"

definition vc_new :: "usize \<Rightarrow> (Sha256VarCore, invalid_output_size) result" where
  "vc_new output_size =
     bind_r (if output_size = 28 then Ok H256_224
             else if output_size = 32 then Ok H256_256
             else Err InvalidOutputSize) (\<lambda>state. Ok \<lparr>vc_state = state, vc_block_len = 0\<rparr>)"

fun state_words :: "State256 \<Rightarrow> u32 list" where
  "state_words (a, b, c, d, e, f, g, h) = [a, b, c, d, e, f, g, h]"

definition finalize_variable_core ::
    "Sha256VarCore \<Rightarrow> BlockBuffer \<Rightarrow> (Sha256VarCore \<times> BlockBuffer \<times> bytes, 'e) result" where
  "finalize_variable_core core buffer =
     bind_r (get_pos 64 buffer) (\<lambda>pos.
     let bs = 64;
         bit_len = 8 * (word_of_nat pos + bs * vc_block_len core) in
     bind_r (len64_padding_be 64 (\<lambda>state b. compress256 state [b]) bit_len buffer (vc_state core)) (\<lambda>(buffer, state).
     Ok (core\<lparr>vc_state := state\<rparr>, buffer, concat (map u32_to_be_bytes (state_words state)))))"

subsection \<open>The output size fixed at compile time (ct\_variable.rs)\<close>

definition ct_default :: "usize \<Rightarrow> (Sha256VarCore, 'e) result" where
  "ct_default out_size = (case vc_new out_size of Ok inner \<Rightarrow> Ok inner | _ \<Rightarrow> Panic)"

definition finalize_fixed_core ::
    "usize \<Rightarrow> Sha256VarCore \<Rightarrow> BlockBuffer \<Rightarrow> (Sha256VarCore \<times> BlockBuffer \<times> bytes, 'e) result" where
  "finalize_fixed_core n core buffer =
     bind_r (finalize_variable_core core buffer) (\<lambda>(core, buffer, full_res).
     bind_r (index_range full_res 0 n) (\<lambda>out. Ok (core, buffer, out)))"

text \<open>\<open>Reset\<close> of the wrapper assigns the default.\<close>

definition sha256_ops :: "(Sha256VarCore, 'e) hash_ops" where
  "sha256_ops =
    \<lparr>co_size = 64, co_out = 32, co_update_blocks = vc_update_blocks, co_finalize = finalize_fixed_core 32,
     co_reset = (\<lambda>_. ct_default 32), ho_default = ct_default 32\<rparr>"

subsection \<open>The digest methods (digest.rs)\<close>

type_synonym Sha256 = "Sha256VarCore CoreWrapper"

definition sha256_new :: "unit \<Rightarrow> (Sha256, 'e) result" where
  "sha256_new u = cw_default sha256_ops"

definition sha256_update :: "bytes \<Rightarrow> Sha256 \<Rightarrow> (Sha256, 'e) result" where
  "sha256_update = cw_update sha256_ops"

definition sha256_finalize :: "Sha256 \<Rightarrow> (bytes, 'e) result" where
  "sha256_finalize = cw_finalize sha256_ops"

definition sha256_finalize_reset :: "Sha256 \<Rightarrow> (bytes \<times> Sha256, 'e) result" where
  "sha256_finalize_reset = cw_finalize_reset sha256_ops"

definition sha256_digest :: "bytes \<Rightarrow> (bytes, 'e) result" where
  "sha256_digest = cw_digest sha256_ops"

text \<open>\<open>h.update(..)\<close> called on each of a list of inputs.\<close>

primrec sha256_updates :: "bytes list \<Rightarrow> Sha256 \<Rightarrow> (Sha256, 'e) result" where
  "sha256_updates [] h = Ok h"
| "sha256_updates (x # xs) h = bind_r (sha256_update x h) (sha256_updates xs)"

subsection \<open>Reference: the hash of FIPS 180-4\<close>

text \<open>The padded message (section 5.1.1): a one bit, zeros up to 64 bits below a block boundary, and
  the length in bits as a 64-bit number.\<close>

definition sha256_pad :: "bytes \<Rightarrow> bytes" where
  "sha256_pad m = m @ [0x80] @ replicate ((64 - (length m + 9) mod 64) mod 64) 0 @ be_bytes 8 (8 * length m)"

definition sha256 :: "bytes \<Rightarrow> bytes" where
  "sha256 m = concat (map u32_to_be_bytes (state_words (fips_hash H256_256 (blocks_of 64 (sha256_pad m)))))"

lemma length_sha256 [simp, framing_simps]: "length (sha256 m) = 32"
  by (cases "fips_hash H256_256 (blocks_of 64 (sha256_pad m))" rule: state_words.cases) (simp add: sha256_def)

text \<open>The padded message is whole blocks, and its length field is the bit length of the message.\<close>

lemma sha256_pad_blocks: "64 dvd length (sha256_pad m)"
  using pad_dvd [of 64 "length m + 9"] by (simp add: sha256_pad_def add.assoc)

subsection \<open>The hasher computes the hash\<close>

interpretation state: block_consumer 64 compress256
  by unfold_locales (simp_all add: compress256_def soft_compress_def)

interpretation core: block_consumer 64 vc_update_blocks
  by unfold_locales (simp_all add: vc_update_blocks_def state.consume_Nil state.consume_append)

abbreviation sha256_core :: Sha256VarCore where
  "sha256_core \<equiv> \<lparr>vc_state = H256_256, vc_block_len = 0\<rparr>"

text \<open>The core's state and block count, and the bit length computed from it.\<close>

lemma vc_update_blocks_sel:
  "vc_state (vc_update_blocks c bs) = compress256 (vc_state c) bs"
  "vc_block_len (vc_update_blocks c bs) = vc_block_len c + word_of_nat (length bs)"
  by (simp_all add: vc_update_blocks_def)

lemma finalize_fixed_core_absorbed:
  assumes "core.absorbed sha256_core m b0 c0"
  shows "\<exists>c b. finalize_fixed_core 32 c0 b0 = (Ok (c, b, sha256 m) :: (_, 'e) result) \<and> core.holds b []"
proof -
  obtain F r where F: "m = F @ r" "64 dvd length F" "core.holds b0 r" "c0 = vc_update_blocks sha256_core (blocks_of 64 F)"
    using assms by (auto simp: core.absorbed_def)
  then have s: "state.absorbed H256_256 m b0 (vc_state c0)"
    unfolding state.absorbed_def by (auto simp: vc_update_blocks_sel)
  have field: "be_bytes 8 (unat (8 * (word_of_nat (length r) + 64 * vc_block_len c0))) = be_bytes 8 (8 * length m)"
    using bit_length_field [OF F(2), where 'w = 64 and n = 8 and p = "length r"] F(1,4) by (simp add: vc_update_blocks_sel)
  have pad: "m @ [0x80] @ replicate ((64 - (length m + 1 + length (be_bytes 8 (8 * length m))) mod 64) mod 64) 0
      @ be_bytes 8 (8 * length m) = sha256_pad m" by (simp add: sha256_pad_def add.commute)
  have "list_all (\<lambda>b. length b = 64) (blocks_of 64 (sha256_pad m))"
    by (auto simp: list_all_iff blocks_of_lengths)
  then have "compress256 H256_256 (blocks_of 64 (sha256_pad m)) = fips_hash H256_256 (blocks_of 64 (sha256_pad m))"
    by (simp add: compress256_def soft_compress_fips)
  then obtain b where b: "digest_pad 64 (\<lambda>s b. compress256 s [b]) 0x80 (be_bytes 8 (8 * length m)) b0
      (vc_state c0) = (Ok (b, fips_hash H256_256 (blocks_of 64 (sha256_pad m))) :: (_, 'e) result)" "core.holds b []"
    using state.digest_pad_absorbed [OF s, where suffix = "be_bytes 8 (8 * length m)" and delim = "0x80"] pad by auto
  have "len64_padding_be 64 (\<lambda>s b. compress256 s [b]) (8 * (word_of_nat (length r) + 64 * vc_block_len c0))
      b0 (vc_state c0) = (Ok (b, fips_hash H256_256 (blocks_of 64 (sha256_pad m))) :: (_, 'e) result)"
    unfolding len64_padding_be_def field by (rule b(1))
  then show ?thesis
    using b(2) length_sha256 [of m]
    by (simp add: finalize_fixed_core_def finalize_variable_core_def core.holds_pos [OF F(3)] index_range_def
        sha256_def)
qed

interpretation sha256h: hasher sha256_ops sha256_core sha256
proof unfold_locales
  fix m b c
  assume "block_consumer.absorbed (co_size sha256_ops) (co_update_blocks sha256_ops) sha256_core m b c"
  then show "\<exists>c' b'. co_finalize sha256_ops c b = Ok (c', b', sha256 m)
      \<and> block_consumer.holds (co_size sha256_ops) b' [] \<and> co_reset sha256_ops c' = Ok sha256_core"
    using finalize_fixed_core_absorbed [of m b c] by (auto simp: sha256_ops_def ct_default_def vc_new_def)
qed (simp_all add: sha256_ops_def ct_default_def vc_new_def core.consume_Nil core.consume_append)

lemma sha256_updates_cw: "sha256_updates xs = cw_updates sha256_ops xs"
  by (induction xs; rule ext; simp add: sha256_update_def)

lemma sha256_stream:
  "bind_r (sha256_new ()) (\<lambda>h. bind_r (sha256_updates xs h) sha256_finalize) = (Ok (sha256 (concat xs)) :: (bytes, 'e) result)"
  using sha256h.default_stream [of xs] by (simp add: sha256_new_def sha256_finalize_def sha256_updates_cw)

lemma sha256_digest_eq: "sha256_digest m = Ok (sha256 m)"
  by (simp add: sha256_digest_def sha256h.digest_eq)

subsection \<open>Claims\<close>

text \<open>C13: the hasher is SHA-256 however its input is cut up. Any sequence of \<open>update\<close> calls
  followed by \<open>finalize\<close> returns, without a panic, the FIPS 180-4 hash of the concatenation of the
  inputs: pieces shorter than a block, pieces that end inside a block, empty pieces and pieces of
  many blocks alike, with the padding and the 64-bit length field of the standard.
  \<open>finalize_reset\<close> returns the same and leaves a hasher that behaves as a new one.\<close>

theorem hasher_computes_sha256:
  "bind_r (sha256_new ()) (\<lambda>h. bind_r (sha256_updates xs h) sha256_finalize) = Ok (sha256 (concat xs))
   \<and> bind_r (sha256_new ()) (\<lambda>h. bind_r (sha256_updates xs h) (\<lambda>h. bind_r (sha256_finalize_reset h) (\<lambda>(d, h).
       bind_r (sha256_updates ys h) (\<lambda>h. bind_r (sha256_finalize h) (\<lambda>d'. Ok (d, d'))))))
     = (Ok (sha256 (concat xs), sha256 (concat ys)) :: (bytes \<times> bytes, 'e) result)
   \<and> length (sha256 (concat xs)) = 32"
  using sha256_stream [of xs] sha256h.reset_stream [of xs ys]
  by (simp add: sha256_new_def sha256_finalize_def sha256_finalize_reset_def sha256_updates_cw)

end
