(* ===== verification/Phi_Hash_Sites.thy ===== *)
theory Phi_Hash_Sites
  imports Phi_Hasher Phi_Vote Phi_Webauthn
begin

section \<open>The crate's hashes, statement by statement\<close>

text \<open>
  Elsewhere in the library a module hashes with a function on byte strings, applied to the
  concatenation of what it feeds the hasher. Here the functions of \<open>voting.rs\<close>, \<open>semaphore.rs\<close>,
  \<open>voting_snark.rs\<close>, \<open>did.rs\<close>, \<open>bbs.rs\<close> and \<open>webauthn.rs\<close> that call \<open>Sha256\<close> are the calls they make on the
  hasher of \<open>Phi_Hasher\<close>: a new one, one \<open>update\<close> per statement, \<open>finalize\<close>, or \<open>digest\<close>. They never panic and
  compute the functions the other theories reason about, at the hash of FIPS 180-4. These are
  all the calls of \<open>Sha256\<close> in \<open>src/src\<close> outside the tests; the field hasher inside hash-to-curve, the
  ciphersuite of bbs-2023 and Blake2b are code of the backends and stay parameters.
\<close>

definition compute_nullifier_h :: "bytes \<Rightarrow> bytes \<Rightarrow> (bytes, 'e) result" where
  "compute_nullifier_h secret topic =
     bind_r (sha256_new ()) (\<lambda>h.
     bind_r (sha256_update (ascii ''phi-nullifier-v1'') h) (\<lambda>h.
     bind_r (sha256_update (len_be64 (length secret)) h) (\<lambda>h.
     bind_r (sha256_update secret h) (\<lambda>h.
     bind_r (sha256_update (len_be64 (length topic)) h) (\<lambda>h.
     bind_r (sha256_update topic h) (\<lambda>h.
     sha256_finalize h))))))"

definition external_nullifier_h :: "bytes \<Rightarrow> (bytes, 'e) result" where
  "external_nullifier_h election_id =
     bind_r (sha256_new ()) (\<lambda>h.
     bind_r (sha256_update (ascii ''phi-extnull-v1'') h) (\<lambda>h.
     bind_r (sha256_update (len_be64 (length election_id)) h) (\<lambda>h.
     bind_r (sha256_update election_id h) (\<lambda>h.
     sha256_finalize h))))"

definition sem_nullifier_h :: "bytes \<Rightarrow> bytes \<Rightarrow> (bytes, 'e) result" where
  "sem_nullifier_h secret election_id =
     bind_r (external_nullifier_h election_id) (\<lambda>ext. compute_nullifier_h secret ext)"

definition bind_nonce_h :: "bytes \<Rightarrow> bytes \<Rightarrow> bytes \<Rightarrow> (bytes, 'e) result" where
  "bind_nonce_h election_id nullifier signal =
     bind_r (sha256_new ()) (\<lambda>h.
     bind_r (sha256_update (ascii ''phi-vote-bind-v2'') h) (\<lambda>h.
     bind_r (sha256_update (len_be64 (length election_id)) h) (\<lambda>h.
     bind_r (sha256_update election_id h) (\<lambda>h.
     bind_r (sha256_update (len_be64 (length signal)) h) (\<lambda>h.
     bind_r (sha256_update signal h) (\<lambda>h.
     bind_r (sha256_update nullifier h) (\<lambda>h.
     sha256_finalize h)))))))"

definition bind_context_h :: "bytes \<Rightarrow> bytes \<Rightarrow> bytes \<Rightarrow> bytes \<Rightarrow> (bytes, 'e) result" where
  "bind_context_h chain_id election_id nullifier signal =
     bind_r (sha256_new ()) (\<lambda>h.
     bind_r (sha256_update BIND_DOMAIN h) (\<lambda>h.
     bind_r (sha256_update (len_be64 (length chain_id)) h) (\<lambda>h.
     bind_r (sha256_update chain_id h) (\<lambda>h.
     bind_r (sha256_update (len_be64 (length election_id)) h) (\<lambda>h.
     bind_r (sha256_update election_id h) (\<lambda>h.
     bind_r (sha256_update (len_be64 (length signal)) h) (\<lambda>h.
     bind_r (sha256_update signal h) (\<lambda>h.
     bind_r (sha256_update (len_be64 (length nullifier)) h) (\<lambda>h.
     bind_r (sha256_update nullifier h) (\<lambda>h.
     sha256_finalize h))))))))))"

definition did_from_public_h ::
    "('r, 'ks, 'kv, 'kg, 'ps, 'pv, 'pg) curves \<Rightarrow> Curve \<Rightarrow> bytes \<Rightarrow> (str, crypto_error) result" where
  "did_from_public_h C curve public =
     bind_r (ok_or InvalidKey (canonical_sec1 C curve public)) (\<lambda>canonical.
     bind_r (sha256_new ()) (\<lambda>h.
     bind_r (sha256_update [tag curve] h) (\<lambda>h.
     bind_r (sha256_update canonical h) (\<lambda>h.
     bind_r (sha256_finalize h) (\<lambda>digest.
     Ok (ascii ''did:phi:'' @ hex_encode digest))))))"

definition claim_to_fr_h :: "(bytes \<Rightarrow> 'f) \<Rightarrow> bytes \<Rightarrow> ('f, 'e) result" where
  "claim_to_fr_h from_le_bytes_mod_order claim =
     bind_r (sha256_digest claim) (\<lambda>d. Ok (from_le_bytes_mod_order d))"

text \<open>\<open>verify_inner\<close> of \<open>webauthn.rs\<close>, with its two digests computed in place.\<close>

definition verify_inner_h ::
    "('r, 'ps, 'pv, 'pg) webauthn_backend \<Rightarrow> WebAuthnAssertion \<Rightarrow> bytes \<Rightarrow> bytes \<Rightarrow> str \<Rightarrow> str \<Rightarrow> bool \<Rightarrow>
     (bool, crypto_error) result" where
  "verify_inner_h WB assertion expected_challenge public_key expected_origin expected_rp_id require_uv =
     (case wb_parse WB (wa_client_data_json assertion) of
        None \<Rightarrow> Ok False
      | Some cd \<Rightarrow>
        if ct_eq (cd_typ cd) (ascii ''webauthn.get'') \<noteq> 1 then Ok False
        else if ct_eq (cd_origin cd) expected_origin \<noteq> 1 then Ok False
        else if cd_cross_origin cd = Some True \<or> cd_top_origin cd \<noteq> None then Ok False
        else
          bind_r (base64_encode expected_challenge) (\<lambda>want_challenge.
          if ct_eq (cd_challenge cd) want_challenge \<noteq> 1 then Ok False
          else if length (wa_authenticator_data assertion) < 37 then Ok False
          else
            bind_r (index_range (wa_authenticator_data assertion) 0 32) (\<lambda>rp_id_hash.
            bind_r (sha256_digest expected_rp_id) (\<lambda>want_rp_hash.
            if ct_eq rp_id_hash want_rp_hash \<noteq> 1 then Ok False
            else
              bind_r (index (wa_authenticator_data assertion) 32) (\<lambda>flags.
              if flags AND FLAG_USER_PRESENT = 0 then Ok False
              else if require_uv \<and> flags AND FLAG_USER_VERIFIED = 0 then Ok False
              else
                bind_r (sha256_digest (wa_client_data_json assertion)) (\<lambda>client_data_hash.
                let signed_data = [] @ wa_authenticator_data assertion @ client_data_hash in
                Ok (verify_p256_low_s (wb_p256 WB) public_key signed_data (wa_signature assertion))))))))"

subsection \<open>A run of updates\<close>

text \<open>What follows \<open>finalize\<close> sees the hash of the inputs.\<close>

lemma site_stream:
  "bind_r (sha256_new ()) (\<lambda>h. bind_r (sha256_updates xs h) (\<lambda>h. bind_r (sha256_finalize h) f)) = f (sha256 (concat xs))"
proof -
  have "bind_r (sha256_new ()) (\<lambda>h. bind_r (sha256_updates xs h) (\<lambda>h. bind_r (sha256_finalize h) f))
      = bind_r (bind_r (sha256_new ()) (\<lambda>h. bind_r (sha256_updates xs h) sha256_finalize)) f"
    by (simp only: bind_r_assoc)
  then show ?thesis by (simp only: sha256_stream bind_r.simps)
qed

subsection \<open>Claims\<close>

text \<open>C23: every call of \<open>Sha256\<close> in the crate's own code, run statement by statement on the vendored
  hasher, returns without a panic exactly the value the module's model computes from the FIPS
  180-4 hash of its preimage: the nullifier, the external and the election nullifier, the
  presentation header, the ballot-binding context, the DID (its error for a key that does not
  parse included), the claim scalar, and the verdict on a WebAuthn assertion with its two digests,
  of the relying-party id and of the client data. Hashing inside the backends (hash-to-curve, the
  bbs-2023 ciphersuite, Blake2b) is not the subject.\<close>

theorem hash_sites_refine:
  "compute_nullifier_h secret topic = (Ok (compute_nullifier sha256 secret topic) :: (bytes, 'e) result)
   \<and> external_nullifier_h election = (Ok (external_nullifier sha256 election) :: (bytes, 'e) result)
   \<and> sem_nullifier_h secret election = (Ok (sem_nullifier sha256 secret election) :: (bytes, 'e) result)
   \<and> bind_nonce_h election null signal = (Ok (bind_nonce sha256 election null signal) :: (bytes, 'e) result)
   \<and> bind_context_h chain election null signal
       = (Ok (bind_context sha256 chain election null signal) :: (bytes, 'e) result)
   \<and> did_from_public_h C curve public = did_from_public sha256 C curve public
   \<and> claim_to_fr_h (bk_from_le_bytes_mod_order B) claim
       = (Ok (claim_to_fr (B\<lparr>bk_sha256 := sha256\<rparr>) claim) :: ('f, 'e) result)
   \<and> verify_inner_h WB assertion ch public_key origin rp_id require_uv
       = verify_inner (WB\<lparr>wb_sha256 := sha256\<rparr>) assertion ch public_key origin rp_id require_uv"
proof -
  have n: "compute_nullifier_h s t = (Ok (compute_nullifier sha256 s t) :: (bytes, 'e) result)" for s t
    using sha256_stream [of "[ascii ''phi-nullifier-v1'', len_be64 (length s), s, len_be64 (length t), t]"]
    by (simp add: compute_nullifier_h_def compute_nullifier_def nullifier_preimage_def bind_r_assoc)
  have e: "external_nullifier_h election = (Ok (external_nullifier sha256 election) :: (bytes, 'e) result)"
    using sha256_stream [of "[ascii ''phi-extnull-v1'', len_be64 (length election), election]"]
    by (simp add: external_nullifier_h_def external_nullifier_def external_preimage_def bind_r_assoc)
  have s: "bind_nonce_h election null signal = (Ok (bind_nonce sha256 election null signal) :: (bytes, 'e) result)"
    using sha256_stream [of "[ascii ''phi-vote-bind-v2'', len_be64 (length election), election,
      len_be64 (length signal), signal, null]"]
    by (simp add: bind_nonce_h_def bind_nonce_def bind_preimage_def bind_r_assoc)
  have c: "bind_context_h chain election null signal
       = (Ok (bind_context sha256 chain election null signal) :: (bytes, 'e) result)"
    using sha256_stream [of "[BIND_DOMAIN, len_be64 (length chain), chain, len_be64 (length election), election,
      len_be64 (length signal), signal, len_be64 (length null), null]"]
    by (simp add: bind_context_h_def bind_context_def bind_context_preimage_def bind_r_assoc)
  have d: "did_from_public_h C curve public = did_from_public sha256 C curve public"
    using site_stream [of "[[tag curve], the (canonical_sec1 C curve public)]"]
    by (cases "canonical_sec1 C curve public")
      (simp_all add: did_from_public_h_def did_from_public_def did_preimage_def bind_r_assoc)
  have f: "wb_parse (WB\<lparr>wb_sha256 := sha256\<rparr>) = wb_parse WB" "wb_sha256 (WB\<lparr>wb_sha256 := sha256\<rparr>) = sha256"
      "wb_p256 (WB\<lparr>wb_sha256 := sha256\<rparr>) = wb_p256 WB" by simp_all
  have w: "verify_inner_h WB assertion ch public_key origin rp_id require_uv
       = verify_inner (WB\<lparr>wb_sha256 := sha256\<rparr>) assertion ch public_key origin rp_id require_uv"
    by (simp only: verify_inner_h_def verify_inner_def sha256_digest_eq Let_def bind_r.simps f)
  show ?thesis
    by (simp add: n e s c d w sem_nullifier_h_def sem_nullifier_def claim_to_fr_h_def claim_to_fr_def sha256_digest_eq)
qed

end
