(* ===== verification/Phi_Bits.thy ===== *)
theory Phi_Bits
  imports Phi_Prelude
begin

section \<open>Bit packing (vendored bip32: mnemonic/bits.rs)\<close>

text \<open>
  The writer that packs 11-bit word numbers into bytes and the iterator that cuts bytes into
  11-bit numbers, with the shift registers of the source: a \<open>u32\<close> whose upper \<open>offset\<close> bits are
  pending, and a \<open>u64\<close> whose upper \<open>read\<close> bits are unread. Both are generic in the width of what is
  pushed (\<open>B::SIZE\<close>, \<open>In::SIZE\<close>, \<open>Out::SIZE\<close>). The lemmas say which bit string each has
  written or has left to read, most significant bit first.
\<close>

record BitWriter =
  bw_offset :: usize
  bw_remainder :: u32
  bw_inner :: bytes

definition bw_new :: BitWriter where
  "bw_new = \<lparr>bw_offset = 0, bw_remainder = 0, bw_inner = []\<rparr>"

text \<open>The loop that moves whole bytes out of the register.\<close>

function bw_drain :: "BitWriter \<Rightarrow> BitWriter" where
  "bw_drain w =
     (if bw_offset w \<ge> 8 then
        bw_drain \<lparr>bw_offset = bw_offset w - 8, bw_remainder = push_bit 8 (bw_remainder w),
                 bw_inner = bw_inner w @ [ucast (drop_bit 24 (bw_remainder w))]\<rparr>
      else w)"
  by pat_completeness auto
termination by (relation "measure bw_offset") auto

declare bw_drain.simps [simp del]

definition bw_push :: "nat \<Rightarrow> u32 \<Rightarrow> BitWriter \<Rightarrow> BitWriter" where
  "bw_push SIZE bits w =
     (let shift = 32 - SIZE in
      bw_drain (w\<lparr>bw_remainder := bw_remainder w OR drop_bit (bw_offset w) (push_bit shift bits),
                 bw_offset := bw_offset w + SIZE\<rparr>))"

definition bw_into_bytes :: "BitWriter \<Rightarrow> bytes" where
  "bw_into_bytes w =
     (if bw_offset w \<noteq> 0 then bw_inner w @ [ucast (drop_bit 24 (bw_remainder w))] else bw_inner w)"

record BitIter =
  bi_source :: bytes
  bi_read :: usize
  bi_buffer :: u64

definition bi_new :: "bytes \<Rightarrow> BitIter" where
  "bi_new source = \<lparr>bi_source = source, bi_read = 0, bi_buffer = 0\<rparr>"

text \<open>The loop of \<open>next\<close>, which fails where the source ends (\<open>?\<close>), and \<open>next\<close> itself.\<close>

function bi_fill :: "nat \<Rightarrow> BitIter \<Rightarrow> BitIter option" where
  "bi_fill OUT it =
     (if bi_read it < OUT then
        (case bi_source it of
           [] \<Rightarrow> None
         | b # source \<Rightarrow>
             let bits = ucast b; read = bi_read it + 8 in
             bi_fill OUT \<lparr>bi_source = source, bi_read = read, bi_buffer = bi_buffer it OR push_bit (64 - read) bits\<rparr>)
      else Some it)"
  by pat_completeness auto
termination by (relation "measure (length \<circ> bi_source \<circ> snd)") auto

declare bi_fill.simps [simp del]

definition bi_next :: "nat \<Rightarrow> BitIter \<Rightarrow> (16 word \<times> BitIter) option" where
  "bi_next OUT it =
     (case bi_fill OUT it of
        None \<Rightarrow> None
      | Some it \<Rightarrow>
          let result = ucast (drop_bit (64 - OUT) (bi_buffer it)) in
          Some (result, it\<lparr>bi_buffer := push_bit OUT (bi_buffer it), bi_read := bi_read it - OUT\<rparr>))"

subsection \<open>Bit strings\<close>

text \<open>The \<open>n\<close> low bits of a number, most significant first.\<close>

definition bitl :: "nat \<Rightarrow> 'a::semiring_bits \<Rightarrow> bool list" where
  "bitl n x = map (\<lambda>i. bit x (n - 1 - i)) [0..<n]"

lemma length_bitl [simp]: "length (bitl n x) = n"
  by (simp add: bitl_def)

lemma nth_bitl [simp]: "i < n \<Longrightarrow> bitl n x ! i = bit x (n - 1 - i)"
  by (simp add: bitl_def)

lemma bitl_eqI: "(\<And>j. j < n \<Longrightarrow> bit x j = bit y j) \<Longrightarrow> bitl n x = bitl n y"
  by (auto simp: bitl_def)

lemma bitl_eqD: "bitl n x = bitl n y \<Longrightarrow> j < n \<Longrightarrow> bit x j = bit y j"
proof -
  assume e: "bitl n x = bitl n y" and j: "j < n"
  then have "bitl n x ! (n - 1 - j) = bitl n y ! (n - 1 - j)" by simp
  with j show ?thesis by simp
qed

lemma bitl_byte_inj: "bitl 8 (a :: byte) = bitl 8 b \<longleftrightarrow> a = b"
  using bitl_eqD [of 8 a b] by (auto intro!: bit_word_eqI)

text \<open>\<open>w\<close> holds the bit string \<open>bs\<close> in its upper bits and zeros below.\<close>

definition aligned :: "'a::len word \<Rightarrow> bool list \<Rightarrow> bool" where
  "aligned w bs \<longleftrightarrow> length bs \<le> LENGTH('a)
     \<and> (\<forall>j<LENGTH('a). bit w j \<longleftrightarrow> LENGTH('a) - 1 - j < length bs \<and> bs ! (LENGTH('a) - 1 - j))"

lemma alignedD: "aligned (w :: 'a::len word) bs \<Longrightarrow> bit w j \<longleftrightarrow>
    j < LENGTH('a) \<and> LENGTH('a) - 1 - j < length bs \<and> bs ! (LENGTH('a) - 1 - j)"
  by (cases "j < LENGTH('a)") (auto simp: aligned_def dest: bit_imp_le_length)

lemma aligned_Nil [simp]: "aligned 0 []"
  by (simp add: aligned_def)

lemma aligned_append:
  fixes w s :: "'a::len word"
  assumes "aligned w bs" "length bs + n \<le> LENGTH('a)" "\<And>j. n \<le> j \<Longrightarrow> \<not> bit s j"
  shows "aligned (w OR push_bit (LENGTH('a) - (length bs + n)) s) (bs @ bitl n s)"
  unfolding aligned_def
proof (intro conjI allI impI)
  fix j assume j: "j < LENGTH('a)"
  let ?i = "LENGTH('a) - 1 - j"
  consider "?i < length bs" | "length bs \<le> ?i" "?i < length bs + n" | "length bs + n \<le> ?i" by linarith
  then show "bit (w OR push_bit (LENGTH('a) - (length bs + n)) s) j \<longleftrightarrow>
      ?i < length (bs @ bitl n s) \<and> (bs @ bitl n s) ! ?i"
  proof cases
    case 1
    then have "\<not> bit s (j - (LENGTH('a) - (length bs + n)))"
      using j assms(2) by (intro assms(3)) simp
    with 1 j show ?thesis by (simp add: bit_or_iff bit_push_bit_iff alignedD [OF assms(1)] nth_append)
  next
    case 2
    then have "n - 1 - (?i - length bs) = j - (LENGTH('a) - (length bs + n))"
      "LENGTH('a) - (length bs + n) \<le> j" using j assms(2) by simp_all
    with 2 j show ?thesis by (simp add: bit_or_iff bit_push_bit_iff alignedD [OF assms(1)] nth_append)
  next
    case 3
    then have "\<not> LENGTH('a) - (length bs + n) \<le> j" using j by linarith
    with 3 j show ?thesis by (simp add: bit_or_iff bit_push_bit_iff alignedD [OF assms(1)])
  qed
qed (use assms(2) in simp)

lemma aligned_drop:
  fixes w :: "'a::len word"
  assumes "aligned w bs" "n \<le> length bs"
  shows "aligned (push_bit n w) (drop n bs)"
  unfolding aligned_def
proof (intro conjI allI impI)
  show "length (drop n bs) \<le> LENGTH('a)" using assms(1) by (auto simp: aligned_def)
  fix j assume "j < LENGTH('a)"
  then show "bit (push_bit n w) j \<longleftrightarrow> LENGTH('a) - 1 - j < length (drop n bs) \<and> drop n bs ! (LENGTH('a) - 1 - j)"
    using assms(1) [unfolded aligned_def, THEN conjunct1] assms(2)
    by (cases "n \<le> j") (auto simp: bit_push_bit_iff alignedD [OF assms(1)] add.commute)
qed

lemma aligned_take:
  fixes w :: "'a::len word"
  assumes "aligned w bs" "n \<le> length bs"
  shows "bitl n (drop_bit (LENGTH('a) - n) w) = take n bs"
proof (rule nth_equalityI)
  show "length (bitl n (drop_bit (LENGTH('a) - n) w)) = length (take n bs)" using assms(2) by simp
  fix i assume "i < length (bitl n (drop_bit (LENGTH('a) - n) w))"
  then show "bitl n (drop_bit (LENGTH('a) - n) w) ! i = take n bs ! i"
    using assms by (simp add: bit_drop_bit_eq alignedD [OF assms(1)] aligned_def)
qed

lemma bitl_ucast: "n \<le> LENGTH('b::len) \<Longrightarrow> bitl n (ucast (w :: 'a::len word) :: 'b word) = bitl n w"
  by (rule bitl_eqI) (simp add: bit_ucast_iff)

subsection \<open>What the writer has written\<close>

text \<open>The bits written so far: whole bytes, then the pending ones in the register.\<close>

definition wrote :: "bool list \<Rightarrow> BitWriter \<Rightarrow> bool" where
  "wrote bs w \<longleftrightarrow> (\<exists>pend. bs = concat (map (bitl 8) (bw_inner w)) @ pend
     \<and> length pend = bw_offset w \<and> aligned (bw_remainder w) pend)"

lemma wrote_new: "wrote [] bw_new"
  by (simp add: wrote_def bw_new_def)

lemma wrote_drain: "wrote bs w \<Longrightarrow> wrote bs (bw_drain w) \<and> bw_offset (bw_drain w) = bw_offset w mod 8"
proof (induction w rule: bw_drain.induct)
  case (1 w)
  show ?case
  proof (cases "8 \<le> bw_offset w")
    case True
    let ?w = "\<lparr>bw_offset = bw_offset w - 8, bw_remainder = push_bit 8 (bw_remainder w),
      bw_inner = bw_inner w @ [ucast (drop_bit 24 (bw_remainder w))]\<rparr>"
    from 1(2) obtain pend where p: "bs = concat (map (bitl 8) (bw_inner w)) @ pend"
      "length pend = bw_offset w" "aligned (bw_remainder w) pend" by (auto simp: wrote_def)
    have "bitl 8 (ucast (drop_bit 24 (bw_remainder w)) :: byte) = take 8 pend"
      using aligned_take [OF p(3), of 8] True p(2) by (simp add: bitl_ucast)
    moreover have "aligned (push_bit 8 (bw_remainder w)) (drop 8 pend)"
      using aligned_drop [OF p(3), of 8] True p(2) by simp
    ultimately have "wrote bs ?w" using p(1,2) unfolding wrote_def by (intro exI [of _ "drop 8 pend"]) simp
    from 1(1) [OF True this] show ?thesis
      using True bw_drain.simps [of w] by (simp add: le_mod_geq)
  next
    case False
    then show ?thesis using 1(2) bw_drain.simps [of w] by simp
  qed
qed

lemma wrote_push:
  assumes "wrote bs w" "bw_offset w < 8" "n \<le> 24" "\<And>j. n \<le> j \<Longrightarrow> \<not> bit s j"
  shows "wrote (bs @ bitl n s) (bw_push n s w) \<and> bw_offset (bw_push n s w) < 8"
proof -
  from assms(1) obtain pend where p: "bs = concat (map (bitl 8) (bw_inner w)) @ pend"
    "length pend = bw_offset w" "aligned (bw_remainder w) pend" by (auto simp: wrote_def)
  have "drop_bit (bw_offset w) (push_bit (32 - n) s) = push_bit (32 - (length pend + n)) s"
  proof (rule bit_word_eqI)
    fix j assume j: "j < LENGTH(32)"
    let ?o = "bw_offset w"
    have i: "32 - (?o + n) \<le> j \<longleftrightarrow> 32 - n \<le> ?o + j" "32 - n \<le> ?o + j \<Longrightarrow> ?o + j - (32 - n) = j - (32 - (?o + n))"
      using assms(2,3) by linarith+
    have "\<not> bit s (?o + j - (32 - n))" if "32 \<le> ?o + j" using that assms(3) by (intro assms(4)) linarith
    with i j show "bit (drop_bit ?o (push_bit (32 - n) s)) j = bit (push_bit (32 - (length pend + n)) s) j"
      by (cases "32 \<le> ?o + j") (auto simp: bit_drop_bit_eq bit_push_bit_iff p(2))
  qed
  with aligned_append [OF p(3), of n s] assms(2-4) p(2)
  have "aligned (bw_remainder w OR drop_bit (bw_offset w) (push_bit (32 - n) s)) (pend @ bitl n s)" by simp
  then have "wrote (bs @ bitl n s) (w\<lparr>bw_remainder := bw_remainder w OR drop_bit (bw_offset w) (push_bit (32 - n) s),
      bw_offset := bw_offset w + n\<rparr>)"
    unfolding wrote_def using p(1,2) by (intro exI [of _ "pend @ bitl n s"]) simp
  from wrote_drain [OF this] show ?thesis by (simp add: bw_push_def Let_def)
qed

text \<open>Only whole bytes written: the result has exactly the written bits. Otherwise it is one byte longer.\<close>

lemma wrote_into_bytes:
  assumes "wrote bs w" "bw_offset w < 8"
  shows "length (bw_into_bytes w) = (length bs + 7) div 8"
    and "8 dvd length bs \<Longrightarrow> concat (map (bitl 8) (bw_into_bytes w)) = bs"
proof -
  from assms(1) obtain pend where p: "bs = concat (map (bitl 8) (bw_inner w)) @ pend"
    "length pend = bw_offset w" by (auto simp: wrote_def)
  have l: "length (concat (map (bitl 8) xs)) = 8 * length xs" for xs :: bytes
    by (induction xs) simp_all
  then have "length bs = 8 * length (bw_inner w) + bw_offset w" using p by simp
  moreover from this assms(2) have "bw_offset w = 0" if "8 dvd length bs" using that by presburger
  ultimately show "length (bw_into_bytes w) = (length bs + 7) div 8"
    "8 dvd length bs \<Longrightarrow> concat (map (bitl 8) (bw_into_bytes w)) = bs"
    using assms(2) p by (auto simp: bw_into_bytes_def)
qed

subsection \<open>What the iterator reads\<close>

definition unread :: "bool list \<Rightarrow> BitIter \<Rightarrow> bool" where
  "unread bs it \<longleftrightarrow> (\<exists>pend. bs = pend @ concat (map (bitl 8) (bi_source it))
     \<and> length pend = bi_read it \<and> aligned (bi_buffer it) pend)"

lemma unread_new: "unread (concat (map (bitl 8) source)) (bi_new source)"
  by (simp add: unread_def bi_new_def)

lemma unread_fill:
  assumes "unread bs it" "OUT \<le> 56"
  shows "case bi_fill OUT it of None \<Rightarrow> length bs < OUT
     | Some it' \<Rightarrow> unread bs it' \<and> OUT \<le> bi_read it'"
  using assms
proof (induction OUT it rule: bi_fill.induct)
  case (1 OUT it)
  show ?case
  proof (cases "bi_read it < OUT")
    case True
    from 1(2) obtain pend where p: "bs = pend @ concat (map (bitl 8) (bi_source it))"
      "length pend = bi_read it" "aligned (bi_buffer it) pend" by (auto simp: unread_def)
    show ?thesis
    proof (cases "bi_source it")
      case Nil
      then show ?thesis using True p bi_fill.simps [of OUT it] by simp
    next
      case (Cons b source)
      let ?it = "\<lparr>bi_source = source, bi_read = bi_read it + 8,
        bi_buffer = bi_buffer it OR push_bit (64 - (bi_read it + 8)) (ucast b)\<rparr>"
      have "\<not> bit (ucast b :: u64) j" if "8 \<le> j" for j
        using that by (auto simp: bit_ucast_iff dest: bit_imp_le_length)
      with aligned_append [OF p(3), of 8 "ucast b"] True 1(3) p(2)
      have "aligned (bi_buffer ?it) (pend @ bitl 8 (ucast b :: u64))" by simp
      then have "unread bs ?it"
        unfolding unread_def using p(1,2) Cons by (intro exI [of _ "pend @ bitl 8 b"]) (simp add: bitl_ucast)
      from 1(1) [OF True Cons refl refl this 1(3)] show ?thesis
        using True Cons bi_fill.simps [of OUT it] by (simp add: Let_def)
    qed
  next
    case False
    then show ?thesis using 1(2) bi_fill.simps [of OUT it] by simp
  qed
qed

lemma unread_next:
  assumes "unread bs it" "OUT \<le> 16"
  shows "case bi_next OUT it of None \<Rightarrow> length bs < OUT
     | Some (x, it') \<Rightarrow> OUT \<le> length bs \<and> bitl OUT x = take OUT bs \<and> (\<forall>j\<ge>OUT. \<not> bit x j) \<and> unread (drop OUT bs) it'"
proof (cases "bi_fill OUT it")
  case None
  then show ?thesis using unread_fill [OF assms(1), of OUT] assms(2) by (simp add: bi_next_def)
next
  case (Some it')
  then have "unread bs it'" "OUT \<le> bi_read it'" using unread_fill [OF assms(1), of OUT] assms(2) by simp_all
  then obtain pend where p: "bs = pend @ concat (map (bitl 8) (bi_source it'))"
    "length pend = bi_read it'" "aligned (bi_buffer it') pend" "OUT \<le> length pend" by (auto simp: unread_def)
  let ?x = "ucast (drop_bit (64 - OUT) (bi_buffer it')) :: 16 word"
  have "bitl OUT ?x = take OUT bs" using aligned_take [OF p(3,4)] assms(2) p(1,4) by (simp add: bitl_ucast)
  moreover have "\<forall>j\<ge>OUT. \<not> bit ?x j"
    using assms(2) by (auto simp: bit_ucast_iff bit_drop_bit_eq dest!: bit_imp_le_length)
  moreover have "unread (drop OUT bs) (it'\<lparr>bi_buffer := push_bit OUT (bi_buffer it'), bi_read := bi_read it' - OUT\<rparr>)"
    unfolding unread_def using aligned_drop [OF p(3,4)] p(1,2,4) by (intro exI [of _ "drop OUT pend"]) simp
  ultimately show ?thesis using Some p(1,4) by (simp add: bi_next_def Let_def)
qed

end
