(* ===== verification/Phi_Wordlist.thy ===== *)
theory Phi_Wordlist
  imports Phi_Prelude
begin

section \<open>The English word list (vendored bip32: mnemonic/langs/english.txt)\<close>

text \<open>
  The 2048 words of the file that \<open>language.rs\<close> includes, in its order, in sixteen parts.
\<close>

definition words_00 :: "string list" where
  "words_00 =
   [''abandon'', ''ability'', ''able'', ''about'', ''above'', ''absent'', ''absorb'', ''abstract'',
    ''absurd'', ''abuse'', ''access'', ''accident'', ''account'', ''accuse'', ''achieve'',
    ''acid'', ''acoustic'', ''acquire'', ''across'', ''act'', ''action'', ''actor'', ''actress'',
    ''actual'', ''adapt'', ''add'', ''addict'', ''address'', ''adjust'', ''admit'', ''adult'',
    ''advance'', ''advice'', ''aerobic'', ''affair'', ''afford'', ''afraid'', ''again'', ''age'',
    ''agent'', ''agree'', ''ahead'', ''aim'', ''air'', ''airport'', ''aisle'', ''alarm'',
    ''album'', ''alcohol'', ''alert'', ''alien'', ''all'', ''alley'', ''allow'', ''almost'',
    ''alone'', ''alpha'', ''already'', ''also'', ''alter'', ''always'', ''amateur'', ''amazing'',
    ''among'', ''amount'', ''amused'', ''analyst'', ''anchor'', ''ancient'', ''anger'', ''angle'',
    ''angry'', ''animal'', ''ankle'', ''announce'', ''annual'', ''another'', ''answer'',
    ''antenna'', ''antique'', ''anxiety'', ''any'', ''apart'', ''apology'', ''appear'', ''apple'',
    ''approve'', ''april'', ''arch'', ''arctic'', ''area'', ''arena'', ''argue'', ''arm'',
    ''armed'', ''armor'', ''army'', ''around'', ''arrange'', ''arrest'', ''arrive'', ''arrow'',
    ''art'', ''artefact'', ''artist'', ''artwork'', ''ask'', ''aspect'', ''assault'', ''asset'',
    ''assist'', ''assume'', ''asthma'', ''athlete'', ''atom'', ''attack'', ''attend'',
    ''attitude'', ''attract'', ''auction'', ''audit'', ''august'', ''aunt'', ''author'', ''auto'',
    ''autumn'', ''average'', ''avocado'']"

definition words_01 :: "string list" where
  "words_01 =
   [''avoid'', ''awake'', ''aware'', ''away'', ''awesome'', ''awful'', ''awkward'', ''axis'',
    ''baby'', ''bachelor'', ''bacon'', ''badge'', ''bag'', ''balance'', ''balcony'', ''ball'',
    ''bamboo'', ''banana'', ''banner'', ''bar'', ''barely'', ''bargain'', ''barrel'', ''base'',
    ''basic'', ''basket'', ''battle'', ''beach'', ''bean'', ''beauty'', ''because'', ''become'',
    ''beef'', ''before'', ''begin'', ''behave'', ''behind'', ''believe'', ''below'', ''belt'',
    ''bench'', ''benefit'', ''best'', ''betray'', ''better'', ''between'', ''beyond'', ''bicycle'',
    ''bid'', ''bike'', ''bind'', ''biology'', ''bird'', ''birth'', ''bitter'', ''black'',
    ''blade'', ''blame'', ''blanket'', ''blast'', ''bleak'', ''bless'', ''blind'', ''blood'',
    ''blossom'', ''blouse'', ''blue'', ''blur'', ''blush'', ''board'', ''boat'', ''body'',
    ''boil'', ''bomb'', ''bone'', ''bonus'', ''book'', ''boost'', ''border'', ''boring'',
    ''borrow'', ''boss'', ''bottom'', ''bounce'', ''box'', ''boy'', ''bracket'', ''brain'',
    ''brand'', ''brass'', ''brave'', ''bread'', ''breeze'', ''brick'', ''bridge'', ''brief'',
    ''bright'', ''bring'', ''brisk'', ''broccoli'', ''broken'', ''bronze'', ''broom'', ''brother'',
    ''brown'', ''brush'', ''bubble'', ''buddy'', ''budget'', ''buffalo'', ''build'', ''bulb'',
    ''bulk'', ''bullet'', ''bundle'', ''bunker'', ''burden'', ''burger'', ''burst'', ''bus'',
    ''business'', ''busy'', ''butter'', ''buyer'', ''buzz'', ''cabbage'', ''cabin'', ''cable'']"

definition words_02 :: "string list" where
  "words_02 =
   [''cactus'', ''cage'', ''cake'', ''call'', ''calm'', ''camera'', ''camp'', ''can'', ''canal'',
    ''cancel'', ''candy'', ''cannon'', ''canoe'', ''canvas'', ''canyon'', ''capable'', ''capital'',
    ''captain'', ''car'', ''carbon'', ''card'', ''cargo'', ''carpet'', ''carry'', ''cart'',
    ''case'', ''cash'', ''casino'', ''castle'', ''casual'', ''cat'', ''catalog'', ''catch'',
    ''category'', ''cattle'', ''caught'', ''cause'', ''caution'', ''cave'', ''ceiling'',
    ''celery'', ''cement'', ''census'', ''century'', ''cereal'', ''certain'', ''chair'', ''chalk'',
    ''champion'', ''change'', ''chaos'', ''chapter'', ''charge'', ''chase'', ''chat'', ''cheap'',
    ''check'', ''cheese'', ''chef'', ''cherry'', ''chest'', ''chicken'', ''chief'', ''child'',
    ''chimney'', ''choice'', ''choose'', ''chronic'', ''chuckle'', ''chunk'', ''churn'', ''cigar'',
    ''cinnamon'', ''circle'', ''citizen'', ''city'', ''civil'', ''claim'', ''clap'', ''clarify'',
    ''claw'', ''clay'', ''clean'', ''clerk'', ''clever'', ''click'', ''client'', ''cliff'',
    ''climb'', ''clinic'', ''clip'', ''clock'', ''clog'', ''close'', ''cloth'', ''cloud'',
    ''clown'', ''club'', ''clump'', ''cluster'', ''clutch'', ''coach'', ''coast'', ''coconut'',
    ''code'', ''coffee'', ''coil'', ''coin'', ''collect'', ''color'', ''column'', ''combine'',
    ''come'', ''comfort'', ''comic'', ''common'', ''company'', ''concert'', ''conduct'',
    ''confirm'', ''congress'', ''connect'', ''consider'', ''control'', ''convince'', ''cook'',
    ''cool'', ''copper'']"

definition words_03 :: "string list" where
  "words_03 =
   [''copy'', ''coral'', ''core'', ''corn'', ''correct'', ''cost'', ''cotton'', ''couch'',
    ''country'', ''couple'', ''course'', ''cousin'', ''cover'', ''coyote'', ''crack'', ''cradle'',
    ''craft'', ''cram'', ''crane'', ''crash'', ''crater'', ''crawl'', ''crazy'', ''cream'',
    ''credit'', ''creek'', ''crew'', ''cricket'', ''crime'', ''crisp'', ''critic'', ''crop'',
    ''cross'', ''crouch'', ''crowd'', ''crucial'', ''cruel'', ''cruise'', ''crumble'', ''crunch'',
    ''crush'', ''cry'', ''crystal'', ''cube'', ''culture'', ''cup'', ''cupboard'', ''curious'',
    ''current'', ''curtain'', ''curve'', ''cushion'', ''custom'', ''cute'', ''cycle'', ''dad'',
    ''damage'', ''damp'', ''dance'', ''danger'', ''daring'', ''dash'', ''daughter'', ''dawn'',
    ''day'', ''deal'', ''debate'', ''debris'', ''decade'', ''december'', ''decide'', ''decline'',
    ''decorate'', ''decrease'', ''deer'', ''defense'', ''define'', ''defy'', ''degree'', ''delay'',
    ''deliver'', ''demand'', ''demise'', ''denial'', ''dentist'', ''deny'', ''depart'', ''depend'',
    ''deposit'', ''depth'', ''deputy'', ''derive'', ''describe'', ''desert'', ''design'', ''desk'',
    ''despair'', ''destroy'', ''detail'', ''detect'', ''develop'', ''device'', ''devote'',
    ''diagram'', ''dial'', ''diamond'', ''diary'', ''dice'', ''diesel'', ''diet'', ''differ'',
    ''digital'', ''dignity'', ''dilemma'', ''dinner'', ''dinosaur'', ''direct'', ''dirt'',
    ''disagree'', ''discover'', ''disease'', ''dish'', ''dismiss'', ''disorder'', ''display'',
    ''distance'', ''divert'', ''divide'']"

definition words_04 :: "string list" where
  "words_04 =
   [''divorce'', ''dizzy'', ''doctor'', ''document'', ''dog'', ''doll'', ''dolphin'', ''domain'',
    ''donate'', ''donkey'', ''donor'', ''door'', ''dose'', ''double'', ''dove'', ''draft'',
    ''dragon'', ''drama'', ''drastic'', ''draw'', ''dream'', ''dress'', ''drift'', ''drill'',
    ''drink'', ''drip'', ''drive'', ''drop'', ''drum'', ''dry'', ''duck'', ''dumb'', ''dune'',
    ''during'', ''dust'', ''dutch'', ''duty'', ''dwarf'', ''dynamic'', ''eager'', ''eagle'',
    ''early'', ''earn'', ''earth'', ''easily'', ''east'', ''easy'', ''echo'', ''ecology'',
    ''economy'', ''edge'', ''edit'', ''educate'', ''effort'', ''egg'', ''eight'', ''either'',
    ''elbow'', ''elder'', ''electric'', ''elegant'', ''element'', ''elephant'', ''elevator'',
    ''elite'', ''else'', ''embark'', ''embody'', ''embrace'', ''emerge'', ''emotion'', ''employ'',
    ''empower'', ''empty'', ''enable'', ''enact'', ''end'', ''endless'', ''endorse'', ''enemy'',
    ''energy'', ''enforce'', ''engage'', ''engine'', ''enhance'', ''enjoy'', ''enlist'',
    ''enough'', ''enrich'', ''enroll'', ''ensure'', ''enter'', ''entire'', ''entry'', ''envelope'',
    ''episode'', ''equal'', ''equip'', ''era'', ''erase'', ''erode'', ''erosion'', ''error'',
    ''erupt'', ''escape'', ''essay'', ''essence'', ''estate'', ''eternal'', ''ethics'',
    ''evidence'', ''evil'', ''evoke'', ''evolve'', ''exact'', ''example'', ''excess'',
    ''exchange'', ''excite'', ''exclude'', ''excuse'', ''execute'', ''exercise'', ''exhaust'',
    ''exhibit'', ''exile'', ''exist'', ''exit'']"

definition words_05 :: "string list" where
  "words_05 =
   [''exotic'', ''expand'', ''expect'', ''expire'', ''explain'', ''expose'', ''express'',
    ''extend'', ''extra'', ''eye'', ''eyebrow'', ''fabric'', ''face'', ''faculty'', ''fade'',
    ''faint'', ''faith'', ''fall'', ''false'', ''fame'', ''family'', ''famous'', ''fan'',
    ''fancy'', ''fantasy'', ''farm'', ''fashion'', ''fat'', ''fatal'', ''father'', ''fatigue'',
    ''fault'', ''favorite'', ''feature'', ''february'', ''federal'', ''fee'', ''feed'', ''feel'',
    ''female'', ''fence'', ''festival'', ''fetch'', ''fever'', ''few'', ''fiber'', ''fiction'',
    ''field'', ''figure'', ''file'', ''film'', ''filter'', ''final'', ''find'', ''fine'',
    ''finger'', ''finish'', ''fire'', ''firm'', ''first'', ''fiscal'', ''fish'', ''fit'',
    ''fitness'', ''fix'', ''flag'', ''flame'', ''flash'', ''flat'', ''flavor'', ''flee'',
    ''flight'', ''flip'', ''float'', ''flock'', ''floor'', ''flower'', ''fluid'', ''flush'',
    ''fly'', ''foam'', ''focus'', ''fog'', ''foil'', ''fold'', ''follow'', ''food'', ''foot'',
    ''force'', ''forest'', ''forget'', ''fork'', ''fortune'', ''forum'', ''forward'', ''fossil'',
    ''foster'', ''found'', ''fox'', ''fragile'', ''frame'', ''frequent'', ''fresh'', ''friend'',
    ''fringe'', ''frog'', ''front'', ''frost'', ''frown'', ''frozen'', ''fruit'', ''fuel'',
    ''fun'', ''funny'', ''furnace'', ''fury'', ''future'', ''gadget'', ''gain'', ''galaxy'',
    ''gallery'', ''game'', ''gap'', ''garage'', ''garbage'', ''garden'', ''garlic'', ''garment'']"

definition words_06 :: "string list" where
  "words_06 =
   [''gas'', ''gasp'', ''gate'', ''gather'', ''gauge'', ''gaze'', ''general'', ''genius'',
    ''genre'', ''gentle'', ''genuine'', ''gesture'', ''ghost'', ''giant'', ''gift'', ''giggle'',
    ''ginger'', ''giraffe'', ''girl'', ''give'', ''glad'', ''glance'', ''glare'', ''glass'',
    ''glide'', ''glimpse'', ''globe'', ''gloom'', ''glory'', ''glove'', ''glow'', ''glue'',
    ''goat'', ''goddess'', ''gold'', ''good'', ''goose'', ''gorilla'', ''gospel'', ''gossip'',
    ''govern'', ''gown'', ''grab'', ''grace'', ''grain'', ''grant'', ''grape'', ''grass'',
    ''gravity'', ''great'', ''green'', ''grid'', ''grief'', ''grit'', ''grocery'', ''group'',
    ''grow'', ''grunt'', ''guard'', ''guess'', ''guide'', ''guilt'', ''guitar'', ''gun'', ''gym'',
    ''habit'', ''hair'', ''half'', ''hammer'', ''hamster'', ''hand'', ''happy'', ''harbor'',
    ''hard'', ''harsh'', ''harvest'', ''hat'', ''have'', ''hawk'', ''hazard'', ''head'',
    ''health'', ''heart'', ''heavy'', ''hedgehog'', ''height'', ''hello'', ''helmet'', ''help'',
    ''hen'', ''hero'', ''hidden'', ''high'', ''hill'', ''hint'', ''hip'', ''hire'', ''history'',
    ''hobby'', ''hockey'', ''hold'', ''hole'', ''holiday'', ''hollow'', ''home'', ''honey'',
    ''hood'', ''hope'', ''horn'', ''horror'', ''horse'', ''hospital'', ''host'', ''hotel'',
    ''hour'', ''hover'', ''hub'', ''huge'', ''human'', ''humble'', ''humor'', ''hundred'',
    ''hungry'', ''hunt'', ''hurdle'', ''hurry'', ''hurt'', ''husband'']"

definition words_07 :: "string list" where
  "words_07 =
   [''hybrid'', ''ice'', ''icon'', ''idea'', ''identify'', ''idle'', ''ignore'', ''ill'',
    ''illegal'', ''illness'', ''image'', ''imitate'', ''immense'', ''immune'', ''impact'',
    ''impose'', ''improve'', ''impulse'', ''inch'', ''include'', ''income'', ''increase'',
    ''index'', ''indicate'', ''indoor'', ''industry'', ''infant'', ''inflict'', ''inform'',
    ''inhale'', ''inherit'', ''initial'', ''inject'', ''injury'', ''inmate'', ''inner'',
    ''innocent'', ''input'', ''inquiry'', ''insane'', ''insect'', ''inside'', ''inspire'',
    ''install'', ''intact'', ''interest'', ''into'', ''invest'', ''invite'', ''involve'', ''iron'',
    ''island'', ''isolate'', ''issue'', ''item'', ''ivory'', ''jacket'', ''jaguar'', ''jar'',
    ''jazz'', ''jealous'', ''jeans'', ''jelly'', ''jewel'', ''job'', ''join'', ''joke'',
    ''journey'', ''joy'', ''judge'', ''juice'', ''jump'', ''jungle'', ''junior'', ''junk'',
    ''just'', ''kangaroo'', ''keen'', ''keep'', ''ketchup'', ''key'', ''kick'', ''kid'',
    ''kidney'', ''kind'', ''kingdom'', ''kiss'', ''kit'', ''kitchen'', ''kite'', ''kitten'',
    ''kiwi'', ''knee'', ''knife'', ''knock'', ''know'', ''lab'', ''label'', ''labor'', ''ladder'',
    ''lady'', ''lake'', ''lamp'', ''language'', ''laptop'', ''large'', ''later'', ''latin'',
    ''laugh'', ''laundry'', ''lava'', ''law'', ''lawn'', ''lawsuit'', ''layer'', ''lazy'',
    ''leader'', ''leaf'', ''learn'', ''leave'', ''lecture'', ''left'', ''leg'', ''legal'',
    ''legend'', ''leisure'', ''lemon'', ''lend'']"

definition words_08 :: "string list" where
  "words_08 =
   [''length'', ''lens'', ''leopard'', ''lesson'', ''letter'', ''level'', ''liar'', ''liberty'',
    ''library'', ''license'', ''life'', ''lift'', ''light'', ''like'', ''limb'', ''limit'',
    ''link'', ''lion'', ''liquid'', ''list'', ''little'', ''live'', ''lizard'', ''load'', ''loan'',
    ''lobster'', ''local'', ''lock'', ''logic'', ''lonely'', ''long'', ''loop'', ''lottery'',
    ''loud'', ''lounge'', ''love'', ''loyal'', ''lucky'', ''luggage'', ''lumber'', ''lunar'',
    ''lunch'', ''luxury'', ''lyrics'', ''machine'', ''mad'', ''magic'', ''magnet'', ''maid'',
    ''mail'', ''main'', ''major'', ''make'', ''mammal'', ''man'', ''manage'', ''mandate'',
    ''mango'', ''mansion'', ''manual'', ''maple'', ''marble'', ''march'', ''margin'', ''marine'',
    ''market'', ''marriage'', ''mask'', ''mass'', ''master'', ''match'', ''material'', ''math'',
    ''matrix'', ''matter'', ''maximum'', ''maze'', ''meadow'', ''mean'', ''measure'', ''meat'',
    ''mechanic'', ''medal'', ''media'', ''melody'', ''melt'', ''member'', ''memory'', ''mention'',
    ''menu'', ''mercy'', ''merge'', ''merit'', ''merry'', ''mesh'', ''message'', ''metal'',
    ''method'', ''middle'', ''midnight'', ''milk'', ''million'', ''mimic'', ''mind'', ''minimum'',
    ''minor'', ''minute'', ''miracle'', ''mirror'', ''misery'', ''miss'', ''mistake'', ''mix'',
    ''mixed'', ''mixture'', ''mobile'', ''model'', ''modify'', ''mom'', ''moment'', ''monitor'',
    ''monkey'', ''monster'', ''month'', ''moon'', ''moral'', ''more'', ''morning'']"

definition words_09 :: "string list" where
  "words_09 =
   [''mosquito'', ''mother'', ''motion'', ''motor'', ''mountain'', ''mouse'', ''move'', ''movie'',
    ''much'', ''muffin'', ''mule'', ''multiply'', ''muscle'', ''museum'', ''mushroom'', ''music'',
    ''must'', ''mutual'', ''myself'', ''mystery'', ''myth'', ''naive'', ''name'', ''napkin'',
    ''narrow'', ''nasty'', ''nation'', ''nature'', ''near'', ''neck'', ''need'', ''negative'',
    ''neglect'', ''neither'', ''nephew'', ''nerve'', ''nest'', ''net'', ''network'', ''neutral'',
    ''never'', ''news'', ''next'', ''nice'', ''night'', ''noble'', ''noise'', ''nominee'',
    ''noodle'', ''normal'', ''north'', ''nose'', ''notable'', ''note'', ''nothing'', ''notice'',
    ''novel'', ''now'', ''nuclear'', ''number'', ''nurse'', ''nut'', ''oak'', ''obey'', ''object'',
    ''oblige'', ''obscure'', ''observe'', ''obtain'', ''obvious'', ''occur'', ''ocean'',
    ''october'', ''odor'', ''off'', ''offer'', ''office'', ''often'', ''oil'', ''okay'', ''old'',
    ''olive'', ''olympic'', ''omit'', ''once'', ''one'', ''onion'', ''online'', ''only'', ''open'',
    ''opera'', ''opinion'', ''oppose'', ''option'', ''orange'', ''orbit'', ''orchard'', ''order'',
    ''ordinary'', ''organ'', ''orient'', ''original'', ''orphan'', ''ostrich'', ''other'',
    ''outdoor'', ''outer'', ''output'', ''outside'', ''oval'', ''oven'', ''over'', ''own'',
    ''owner'', ''oxygen'', ''oyster'', ''ozone'', ''pact'', ''paddle'', ''page'', ''pair'',
    ''palace'', ''palm'', ''panda'', ''panel'', ''panic'', ''panther'', ''paper'']"

definition words_10 :: "string list" where
  "words_10 =
   [''parade'', ''parent'', ''park'', ''parrot'', ''party'', ''pass'', ''patch'', ''path'',
    ''patient'', ''patrol'', ''pattern'', ''pause'', ''pave'', ''payment'', ''peace'', ''peanut'',
    ''pear'', ''peasant'', ''pelican'', ''pen'', ''penalty'', ''pencil'', ''people'', ''pepper'',
    ''perfect'', ''permit'', ''person'', ''pet'', ''phone'', ''photo'', ''phrase'', ''physical'',
    ''piano'', ''picnic'', ''picture'', ''piece'', ''pig'', ''pigeon'', ''pill'', ''pilot'',
    ''pink'', ''pioneer'', ''pipe'', ''pistol'', ''pitch'', ''pizza'', ''place'', ''planet'',
    ''plastic'', ''plate'', ''play'', ''please'', ''pledge'', ''pluck'', ''plug'', ''plunge'',
    ''poem'', ''poet'', ''point'', ''polar'', ''pole'', ''police'', ''pond'', ''pony'', ''pool'',
    ''popular'', ''portion'', ''position'', ''possible'', ''post'', ''potato'', ''pottery'',
    ''poverty'', ''powder'', ''power'', ''practice'', ''praise'', ''predict'', ''prefer'',
    ''prepare'', ''present'', ''pretty'', ''prevent'', ''price'', ''pride'', ''primary'',
    ''print'', ''priority'', ''prison'', ''private'', ''prize'', ''problem'', ''process'',
    ''produce'', ''profit'', ''program'', ''project'', ''promote'', ''proof'', ''property'',
    ''prosper'', ''protect'', ''proud'', ''provide'', ''public'', ''pudding'', ''pull'', ''pulp'',
    ''pulse'', ''pumpkin'', ''punch'', ''pupil'', ''puppy'', ''purchase'', ''purity'', ''purpose'',
    ''purse'', ''push'', ''put'', ''puzzle'', ''pyramid'', ''quality'', ''quantum'', ''quarter'',
    ''question'', ''quick'', ''quit'', ''quiz'']"

definition words_11 :: "string list" where
  "words_11 =
   [''quote'', ''rabbit'', ''raccoon'', ''race'', ''rack'', ''radar'', ''radio'', ''rail'',
    ''rain'', ''raise'', ''rally'', ''ramp'', ''ranch'', ''random'', ''range'', ''rapid'',
    ''rare'', ''rate'', ''rather'', ''raven'', ''raw'', ''razor'', ''ready'', ''real'', ''reason'',
    ''rebel'', ''rebuild'', ''recall'', ''receive'', ''recipe'', ''record'', ''recycle'',
    ''reduce'', ''reflect'', ''reform'', ''refuse'', ''region'', ''regret'', ''regular'',
    ''reject'', ''relax'', ''release'', ''relief'', ''rely'', ''remain'', ''remember'', ''remind'',
    ''remove'', ''render'', ''renew'', ''rent'', ''reopen'', ''repair'', ''repeat'', ''replace'',
    ''report'', ''require'', ''rescue'', ''resemble'', ''resist'', ''resource'', ''response'',
    ''result'', ''retire'', ''retreat'', ''return'', ''reunion'', ''reveal'', ''review'',
    ''reward'', ''rhythm'', ''rib'', ''ribbon'', ''rice'', ''rich'', ''ride'', ''ridge'',
    ''rifle'', ''right'', ''rigid'', ''ring'', ''riot'', ''ripple'', ''risk'', ''ritual'',
    ''rival'', ''river'', ''road'', ''roast'', ''robot'', ''robust'', ''rocket'', ''romance'',
    ''roof'', ''rookie'', ''room'', ''rose'', ''rotate'', ''rough'', ''round'', ''route'',
    ''royal'', ''rubber'', ''rude'', ''rug'', ''rule'', ''run'', ''runway'', ''rural'', ''sad'',
    ''saddle'', ''sadness'', ''safe'', ''sail'', ''salad'', ''salmon'', ''salon'', ''salt'',
    ''salute'', ''same'', ''sample'', ''sand'', ''satisfy'', ''satoshi'', ''sauce'', ''sausage'',
    ''save'', ''say'']"

definition words_12 :: "string list" where
  "words_12 =
   [''scale'', ''scan'', ''scare'', ''scatter'', ''scene'', ''scheme'', ''school'', ''science'',
    ''scissors'', ''scorpion'', ''scout'', ''scrap'', ''screen'', ''script'', ''scrub'', ''sea'',
    ''search'', ''season'', ''seat'', ''second'', ''secret'', ''section'', ''security'', ''seed'',
    ''seek'', ''segment'', ''select'', ''sell'', ''seminar'', ''senior'', ''sense'', ''sentence'',
    ''series'', ''service'', ''session'', ''settle'', ''setup'', ''seven'', ''shadow'', ''shaft'',
    ''shallow'', ''share'', ''shed'', ''shell'', ''sheriff'', ''shield'', ''shift'', ''shine'',
    ''ship'', ''shiver'', ''shock'', ''shoe'', ''shoot'', ''shop'', ''short'', ''shoulder'',
    ''shove'', ''shrimp'', ''shrug'', ''shuffle'', ''shy'', ''sibling'', ''sick'', ''side'',
    ''siege'', ''sight'', ''sign'', ''silent'', ''silk'', ''silly'', ''silver'', ''similar'',
    ''simple'', ''since'', ''sing'', ''siren'', ''sister'', ''situate'', ''six'', ''size'',
    ''skate'', ''sketch'', ''ski'', ''skill'', ''skin'', ''skirt'', ''skull'', ''slab'', ''slam'',
    ''sleep'', ''slender'', ''slice'', ''slide'', ''slight'', ''slim'', ''slogan'', ''slot'',
    ''slow'', ''slush'', ''small'', ''smart'', ''smile'', ''smoke'', ''smooth'', ''snack'',
    ''snake'', ''snap'', ''sniff'', ''snow'', ''soap'', ''soccer'', ''social'', ''sock'', ''soda'',
    ''soft'', ''solar'', ''soldier'', ''solid'', ''solution'', ''solve'', ''someone'', ''song'',
    ''soon'', ''sorry'', ''sort'', ''soul'', ''sound'', ''soup'']"

definition words_13 :: "string list" where
  "words_13 =
   [''source'', ''south'', ''space'', ''spare'', ''spatial'', ''spawn'', ''speak'', ''special'',
    ''speed'', ''spell'', ''spend'', ''sphere'', ''spice'', ''spider'', ''spike'', ''spin'',
    ''spirit'', ''split'', ''spoil'', ''sponsor'', ''spoon'', ''sport'', ''spot'', ''spray'',
    ''spread'', ''spring'', ''spy'', ''square'', ''squeeze'', ''squirrel'', ''stable'',
    ''stadium'', ''staff'', ''stage'', ''stairs'', ''stamp'', ''stand'', ''start'', ''state'',
    ''stay'', ''steak'', ''steel'', ''stem'', ''step'', ''stereo'', ''stick'', ''still'',
    ''sting'', ''stock'', ''stomach'', ''stone'', ''stool'', ''story'', ''stove'', ''strategy'',
    ''street'', ''strike'', ''strong'', ''struggle'', ''student'', ''stuff'', ''stumble'',
    ''style'', ''subject'', ''submit'', ''subway'', ''success'', ''such'', ''sudden'', ''suffer'',
    ''sugar'', ''suggest'', ''suit'', ''summer'', ''sun'', ''sunny'', ''sunset'', ''super'',
    ''supply'', ''supreme'', ''sure'', ''surface'', ''surge'', ''surprise'', ''surround'',
    ''survey'', ''suspect'', ''sustain'', ''swallow'', ''swamp'', ''swap'', ''swarm'', ''swear'',
    ''sweet'', ''swift'', ''swim'', ''swing'', ''switch'', ''sword'', ''symbol'', ''symptom'',
    ''syrup'', ''system'', ''table'', ''tackle'', ''tag'', ''tail'', ''talent'', ''talk'',
    ''tank'', ''tape'', ''target'', ''task'', ''taste'', ''tattoo'', ''taxi'', ''teach'', ''team'',
    ''tell'', ''ten'', ''tenant'', ''tennis'', ''tent'', ''term'', ''test'', ''text'', ''thank'',
    ''that'']"

definition words_14 :: "string list" where
  "words_14 =
   [''theme'', ''then'', ''theory'', ''there'', ''they'', ''thing'', ''this'', ''thought'',
    ''three'', ''thrive'', ''throw'', ''thumb'', ''thunder'', ''ticket'', ''tide'', ''tiger'',
    ''tilt'', ''timber'', ''time'', ''tiny'', ''tip'', ''tired'', ''tissue'', ''title'', ''toast'',
    ''tobacco'', ''today'', ''toddler'', ''toe'', ''together'', ''toilet'', ''token'', ''tomato'',
    ''tomorrow'', ''tone'', ''tongue'', ''tonight'', ''tool'', ''tooth'', ''top'', ''topic'',
    ''topple'', ''torch'', ''tornado'', ''tortoise'', ''toss'', ''total'', ''tourist'', ''toward'',
    ''tower'', ''town'', ''toy'', ''track'', ''trade'', ''traffic'', ''tragic'', ''train'',
    ''transfer'', ''trap'', ''trash'', ''travel'', ''tray'', ''treat'', ''tree'', ''trend'',
    ''trial'', ''tribe'', ''trick'', ''trigger'', ''trim'', ''trip'', ''trophy'', ''trouble'',
    ''truck'', ''true'', ''truly'', ''trumpet'', ''trust'', ''truth'', ''try'', ''tube'',
    ''tuition'', ''tumble'', ''tuna'', ''tunnel'', ''turkey'', ''turn'', ''turtle'', ''twelve'',
    ''twenty'', ''twice'', ''twin'', ''twist'', ''two'', ''type'', ''typical'', ''ugly'',
    ''umbrella'', ''unable'', ''unaware'', ''uncle'', ''uncover'', ''under'', ''undo'', ''unfair'',
    ''unfold'', ''unhappy'', ''uniform'', ''unique'', ''unit'', ''universe'', ''unknown'',
    ''unlock'', ''until'', ''unusual'', ''unveil'', ''update'', ''upgrade'', ''uphold'', ''upon'',
    ''upper'', ''upset'', ''urban'', ''urge'', ''usage'', ''use'', ''used'', ''useful'']"

definition words_15 :: "string list" where
  "words_15 =
   [''useless'', ''usual'', ''utility'', ''vacant'', ''vacuum'', ''vague'', ''valid'', ''valley'',
    ''valve'', ''van'', ''vanish'', ''vapor'', ''various'', ''vast'', ''vault'', ''vehicle'',
    ''velvet'', ''vendor'', ''venture'', ''venue'', ''verb'', ''verify'', ''version'', ''very'',
    ''vessel'', ''veteran'', ''viable'', ''vibrant'', ''vicious'', ''victory'', ''video'',
    ''view'', ''village'', ''vintage'', ''violin'', ''virtual'', ''virus'', ''visa'', ''visit'',
    ''visual'', ''vital'', ''vivid'', ''vocal'', ''voice'', ''void'', ''volcano'', ''volume'',
    ''vote'', ''voyage'', ''wage'', ''wagon'', ''wait'', ''walk'', ''wall'', ''walnut'', ''want'',
    ''warfare'', ''warm'', ''warrior'', ''wash'', ''wasp'', ''waste'', ''water'', ''wave'',
    ''way'', ''wealth'', ''weapon'', ''wear'', ''weasel'', ''weather'', ''web'', ''wedding'',
    ''weekend'', ''weird'', ''welcome'', ''west'', ''wet'', ''whale'', ''what'', ''wheat'',
    ''wheel'', ''when'', ''where'', ''whip'', ''whisper'', ''wide'', ''width'', ''wife'', ''wild'',
    ''will'', ''win'', ''window'', ''wine'', ''wing'', ''wink'', ''winner'', ''winter'', ''wire'',
    ''wisdom'', ''wise'', ''wish'', ''witness'', ''wolf'', ''woman'', ''wonder'', ''wood'',
    ''wool'', ''word'', ''work'', ''world'', ''worry'', ''worth'', ''wrap'', ''wreck'',
    ''wrestle'', ''wrist'', ''write'', ''wrong'', ''yard'', ''year'', ''yellow'', ''you'',
    ''young'', ''youth'', ''zebra'', ''zero'', ''zone'', ''zoo'']"

definition english :: "string list" where
  "english = words_00 @ words_01 @ words_02 @ words_03 @ words_04 @ words_05 @ words_06 @ words_07
     @ words_08 @ words_09 @ words_10 @ words_11 @ words_12 @ words_13 @ words_14 @ words_15"

lemmas words_defs = words_00_def words_01_def words_02_def words_03_def words_04_def words_05_def words_06_def words_07_def words_08_def words_09_def words_10_def words_11_def words_12_def words_13_def words_14_def words_15_def

subsection \<open>The words are distinct\<close>

text \<open>A word is a non-empty string of letters: ASCII codes from 64 on.\<close>

definition spelled :: "string \<Rightarrow> bool" where
  "spelled w \<longleftrightarrow> w \<noteq> [] \<and> list_all (\<lambda>c. digit6 c \<and> \<not> digit7 c) w"

text \<open>Lexicographic order of two words; each word comes before the next.\<close>

fun word_less :: "string \<Rightarrow> string \<Rightarrow> bool" where
  "word_less [] ys \<longleftrightarrow> ys \<noteq> []"
| "word_less (x # xs) [] \<longleftrightarrow> False"
| "word_less (x # xs) (y # ys) \<longleftrightarrow> (if x = y then word_less xs ys else (of_char x :: nat) < of_char y)"

text \<open>\<open>ascending p xs\<close> walks up the list from \<open>p\<close> and ends at its last word.\<close>

fun ascending :: "string \<Rightarrow> string list \<Rightarrow> string option" where
  "ascending p [] = Some p"
| "ascending p (x # xs) = (if word_less p x then ascending x xs else None)"

lemma word_less_Nil [simp]: "\<not> word_less xs []"
  by (cases xs) simp_all

lemma word_less_trans: "word_less x y \<Longrightarrow> word_less y z \<Longrightarrow> word_less x z"
  by (induction x y arbitrary: z rule: word_less.induct; case_tac z) (auto split: if_splits)

lemma word_less_irrefl: "\<not> word_less x x"
  by (induction x) simp_all

lemma ascending_append: "ascending p xs = Some q \<Longrightarrow> ascending p (xs @ ys) = ascending q ys"
  by (induction p xs rule: ascending.induct) (auto split: if_splits)

lemma ascending_less: "ascending p xs = Some q \<Longrightarrow> y \<in> set xs \<Longrightarrow> word_less p y"
  by (induction p xs rule: ascending.induct) (auto split: if_splits intro: word_less_trans)

lemma ascending_distinct: "ascending p xs = Some q \<Longrightarrow> distinct xs"
  by (induction p xs rule: ascending.induct) (auto split: if_splits dest: ascending_less simp: word_less_irrefl)

subsection \<open>The parts\<close>

lemma words_00_ascending: "ascending '''' words_00 = Some ''avocado''"
  by (simp add: words_00_def)

lemma words_01_ascending: "ascending ''avocado'' words_01 = Some ''cable''"
  by (simp add: words_01_def)

lemma words_02_ascending: "ascending ''cable'' words_02 = Some ''copper''"
  by (simp add: words_02_def)

lemma words_03_ascending: "ascending ''copper'' words_03 = Some ''divide''"
  by (simp add: words_03_def)

lemma words_04_ascending: "ascending ''divide'' words_04 = Some ''exit''"
  by (simp add: words_04_def)

lemma words_05_ascending: "ascending ''exit'' words_05 = Some ''garment''"
  by (simp add: words_05_def)

lemma words_06_ascending: "ascending ''garment'' words_06 = Some ''husband''"
  by (simp add: words_06_def)

lemma words_07_ascending: "ascending ''husband'' words_07 = Some ''lend''"
  by (simp add: words_07_def)

lemma words_08_ascending: "ascending ''lend'' words_08 = Some ''morning''"
  by (simp add: words_08_def)

lemma words_09_ascending: "ascending ''morning'' words_09 = Some ''paper''"
  by (simp add: words_09_def)

lemma words_10_ascending: "ascending ''paper'' words_10 = Some ''quiz''"
  by (simp add: words_10_def)

lemma words_11_ascending: "ascending ''quiz'' words_11 = Some ''say''"
  by (simp add: words_11_def)

lemma words_12_ascending: "ascending ''say'' words_12 = Some ''soup''"
  by (simp add: words_12_def)

lemma words_13_ascending: "ascending ''soup'' words_13 = Some ''that''"
  by (simp add: words_13_def)

lemma words_14_ascending: "ascending ''that'' words_14 = Some ''useful''"
  by (simp add: words_14_def)

lemma words_15_ascending: "ascending ''useful'' words_15 = Some ''zoo''"
  by (simp add: words_15_def)

lemma words_00_words: "length words_00 = 128" "list_all spelled words_00"
  by (simp_all add: words_00_def spelled_def)

lemma words_01_words: "length words_01 = 128" "list_all spelled words_01"
  by (simp_all add: words_01_def spelled_def)

lemma words_02_words: "length words_02 = 128" "list_all spelled words_02"
  by (simp_all add: words_02_def spelled_def)

lemma words_03_words: "length words_03 = 128" "list_all spelled words_03"
  by (simp_all add: words_03_def spelled_def)

lemma words_04_words: "length words_04 = 128" "list_all spelled words_04"
  by (simp_all add: words_04_def spelled_def)

lemma words_05_words: "length words_05 = 128" "list_all spelled words_05"
  by (simp_all add: words_05_def spelled_def)

lemma words_06_words: "length words_06 = 128" "list_all spelled words_06"
  by (simp_all add: words_06_def spelled_def)

lemma words_07_words: "length words_07 = 128" "list_all spelled words_07"
  by (simp_all add: words_07_def spelled_def)

lemma words_08_words: "length words_08 = 128" "list_all spelled words_08"
  by (simp_all add: words_08_def spelled_def)

lemma words_09_words: "length words_09 = 128" "list_all spelled words_09"
  by (simp_all add: words_09_def spelled_def)

lemma words_10_words: "length words_10 = 128" "list_all spelled words_10"
  by (simp_all add: words_10_def spelled_def)

lemma words_11_words: "length words_11 = 128" "list_all spelled words_11"
  by (simp_all add: words_11_def spelled_def)

lemma words_12_words: "length words_12 = 128" "list_all spelled words_12"
  by (simp_all add: words_12_def spelled_def)

lemma words_13_words: "length words_13 = 128" "list_all spelled words_13"
  by (simp_all add: words_13_def spelled_def)

lemma words_14_words: "length words_14 = 128" "list_all spelled words_14"
  by (simp_all add: words_14_def spelled_def)

lemma words_15_words: "length words_15 = 128" "list_all spelled words_15"
  by (simp_all add: words_15_def spelled_def)

lemmas parts_ascending = words_00_ascending words_01_ascending words_02_ascending words_03_ascending words_04_ascending words_05_ascending words_06_ascending words_07_ascending words_08_ascending words_09_ascending words_10_ascending words_11_ascending words_12_ascending words_13_ascending words_14_ascending words_15_ascending

lemmas parts_words = words_00_words words_01_words words_02_words words_03_words words_04_words words_05_words words_06_words words_07_words words_08_words words_09_words words_10_words words_11_words words_12_words words_13_words words_14_words words_15_words

lemma length_english: "length english = 2048"
  by (simp add: english_def parts_words)

lemma english_words: "list_all spelled english"
  by (simp add: english_def parts_words)

lemma distinct_english: "distinct english"
  by (rule ascending_distinct [of "[]" _ "''zoo''"])
    (simp only: english_def parts_ascending ascending_append [OF parts_ascending(1)]
      ascending_append [OF parts_ascending(2)]
      ascending_append [OF parts_ascending(3)]
      ascending_append [OF parts_ascending(4)]
      ascending_append [OF parts_ascending(5)]
      ascending_append [OF parts_ascending(6)]
      ascending_append [OF parts_ascending(7)]
      ascending_append [OF parts_ascending(8)]
      ascending_append [OF parts_ascending(9)]
      ascending_append [OF parts_ascending(10)]
      ascending_append [OF parts_ascending(11)]
      ascending_append [OF parts_ascending(12)]
      ascending_append [OF parts_ascending(13)]
      ascending_append [OF parts_ascending(14)]
      ascending_append [OF parts_ascending(15)])

end
