(* ===== verification/Phi_Bip39.thy ===== *)
theory Phi_Bip39
  imports Phi_Bits Phi_Wordlist Phi_Hasher Phi_Utf8
begin

section \<open>Recovery phrases (vendored bip32: mnemonic)\<close>

text \<open>
  The phrase type behind \<open>seed.rs\<close>: 32 bytes of entropy and the 24 words that spell them with a
  checksum byte of SHA-256 (\<open>phrase.rs\<close>), over the English word list and its inverse map
  (\<open>language.rs\<close>). Reading a phrase accepts exactly what writing one produces.
\<close>

datatype bip32_error = Base58 | Bip39 | BadChildNumber | Crypto | Decode | TooDeep | SeedLength

definition KEY_SIZE :: nat where
  "KEY_SIZE = 32"

subsection \<open>Words (language.rs)\<close>

datatype Language = English

definition gen_wordlist :: "string list \<Rightarrow> str list" where
  "gen_wordlist lang_words = map ascii lang_words"

definition wordlist :: "Language \<Rightarrow> str list" where
  "wordlist l = (case l of English \<Rightarrow> gen_wordlist english)"

text \<open>The map collected from the enumerated list; a later entry of the same word would win.\<close>

definition gen_wordmap :: "str list \<Rightarrow> (str \<times> 16 word) list" where
  "gen_wordmap wl = zip wl (map word_of_nat [0..<length wl])"

definition get_bits :: "(str \<times> 16 word) list \<Rightarrow> str \<Rightarrow> 16 word option" where
  "get_bits wordmap word = map_of (rev wordmap) word"

definition wordmap :: "Language \<Rightarrow> (str \<times> 16 word) list" where
  "wordmap l = gen_wordmap (wordlist l)"

definition get_word :: "str list \<Rightarrow> 16 word \<Rightarrow> (str, 'e) result" where
  "get_word wl bits = index wl (unat bits)"

subsection \<open>Strings\<close>

text \<open>\<open>s.split(c)\<close> for an ASCII character, and \<open>join\<close> of \<open>bits.rs\<close>.\<close>

fun split_on :: "byte \<Rightarrow> str \<Rightarrow> str list" where
  "split_on c [] = [[]]"
| "split_on c (x # xs) =
     (if x = c then [] # split_on c xs
      else case split_on c xs of [] \<Rightarrow> [[x]] | y # ys \<Rightarrow> (x # y) # ys)"

fun join_words :: "str list \<Rightarrow> str \<Rightarrow> str" where
  "join_words [] glue = []"
| "join_words (first # rest) glue = first @ concat (map (\<lambda>item. glue @ item) rest)"

subsection \<open>Phrases (phrase.rs)\<close>

record Phrase =
  ph_language :: Language
  ph_entropy :: bytes
  ph_phrase :: str

text \<open>All the items of the iterator with 11-bit items. Each takes eleven bits off what is left.\<close>

lemma bi_fill_bits: "bi_fill OUT it = Some it' \<Longrightarrow>
    8 * length (bi_source it') + bi_read it' = 8 * length (bi_source it) + bi_read it \<and> OUT \<le> bi_read it'"
proof (induction OUT it rule: bi_fill.induct)
  case (1 OUT it)
  show ?case
  proof (cases "bi_read it < OUT")
    case True
    then show ?thesis
      using 1 bi_fill.simps [of OUT it] by (cases "bi_source it") (auto simp: Let_def)
  next
    case False
    then show ?thesis using 1(2) bi_fill.simps [of OUT it] by simp
  qed
qed

lemma bi_next_bits: "0 < OUT \<Longrightarrow> bi_next OUT it = Some (x, it') \<Longrightarrow>
    8 * length (bi_source it') + bi_read it' < 8 * length (bi_source it) + bi_read it"
  by (auto simp: bi_next_def Let_def split: option.splits dest: bi_fill_bits)

function bi_collect :: "BitIter \<Rightarrow> 16 word list" where
  "bi_collect it = (case bi_next 11 it of None \<Rightarrow> [] | Some (x, it) \<Rightarrow> x # bi_collect it)"
  by pat_completeness auto
termination
  by (relation "measure (\<lambda>it. 8 * length (bi_source it) + bi_read it)") (auto intro!: bi_next_bits [of 11])

declare bi_collect.simps [simp del]

primrec get_words :: "str list \<Rightarrow> 16 word list \<Rightarrow> (str list, 'e) result" where
  "get_words wl [] = Ok []"
| "get_words wl (b # bs) = bind_r (get_word wl b) (\<lambda>w. bind_r (get_words wl bs) (\<lambda>ws. Ok (w # ws)))"

definition phrase_from_entropy :: "bytes \<Rightarrow> Language \<Rightarrow> (Phrase, 'e) result" where
  "phrase_from_entropy entropy language =
     (let wl = wordlist language in
      bind_r (sha256_digest entropy) (\<lambda>digest.
      bind_r (index digest 0) (\<lambda>checksum_byte.
      bind_r (get_words wl (bi_collect (bi_new (entropy @ [checksum_byte])))) (\<lambda>words.
      Ok \<lparr>ph_language = language, ph_entropy = entropy, ph_phrase = join_words words [0x20]\<rparr>))))"

definition phrase_random :: "('r \<Rightarrow> usize \<Rightarrow> bytes \<times> 'r) \<Rightarrow> 'r \<Rightarrow> Language \<Rightarrow> (Phrase, 'e) result \<times> 'r" where
  "phrase_random fill_bytes rng language =
     (let (entropy, rng) = fill_bytes rng KEY_SIZE in (phrase_from_entropy entropy language, rng))"

primrec push_words :: "(str \<times> 16 word) list \<Rightarrow> str list \<Rightarrow> BitWriter \<Rightarrow> (BitWriter, bip32_error) result" where
  "push_words wm [] bits = Ok bits"
| "push_words wm (word # words) bits =
     bind_r (ok_or Bip39 (get_bits wm word)) (\<lambda>b. push_words wm words (bw_push 11 (ucast b) bits))"

definition phrase_new :: "str \<Rightarrow> Language \<Rightarrow> (Phrase, bip32_error) result" where
  "phrase_new phrase language =
     bind_r (push_words (wordmap language) (split_on 0x20 phrase) bw_new) (\<lambda>bits.
     let entropy = bw_into_bytes bits in
     if length entropy \<noteq> KEY_SIZE + 1 then Err Bip39
     else
       bind_r (index entropy KEY_SIZE) (\<lambda>actual_checksum.
       let entropy = take KEY_SIZE entropy in
       bind_r (sha256_digest entropy) (\<lambda>digest.
       bind_r (index digest 0) (\<lambda>expected_checksum.
       if actual_checksum \<noteq> expected_checksum then Err Bip39
       else
         bind_r (ok_or Bip39 (try_into_array KEY_SIZE entropy)) (\<lambda>entropy.
         phrase_from_entropy entropy language)))))"

subsection \<open>The word list is a bijection with the 11-bit numbers\<close>

lemma ascii_inj: "ascii s = ascii t \<Longrightarrow> s = t"
proof -
  have "inj (\<lambda>c. word_of_nat (of_char c) :: byte)"
  proof (rule injI)
    fix c d :: char
    assume "(word_of_nat (of_char c) :: byte) = word_of_nat (of_char d)"
    then have "unat (word_of_nat (of_char c) :: byte) = unat (word_of_nat (of_char d) :: byte)" by simp
    then have "of_char c mod 256 = (of_char d mod 256 :: nat)" by simp
    then have "of_char c = (of_char d :: nat)" using nat_of_char_less_256 [of c] nat_of_char_less_256 [of d] by simp
    then show "c = d" by simp
  qed
  then show "ascii s = ascii t \<Longrightarrow> s = t" by (simp add: ascii_def inj_map_eq_map)
qed

lemma letter_code: "digit6 c \<Longrightarrow> \<not> digit7 c \<Longrightarrow> 64 \<le> unat (word_of_nat (of_char c) :: byte) \<and> unat (word_of_nat (of_char c) :: byte) < 128"
  by (cases c) (simp add: of_char_def)

lemma wordlist_law:
  "length (wordlist l) = 2048" "distinct (wordlist l)"
  "w \<in> set (wordlist l) \<Longrightarrow> w \<noteq> [] \<and> (\<forall>b \<in> set w. 64 \<le> unat b \<and> unat b < 128)"
proof -
  have e: "wordlist l = map ascii english" by (cases l) (simp add: wordlist_def gen_wordlist_def)
  show "length (wordlist l) = 2048" by (simp add: e length_english)
  show "distinct (wordlist l)"
    using distinct_english ascii_inj by (auto simp: e distinct_map inj_on_def)
  assume "w \<in> set (wordlist l)"
  then obtain s where s: "s \<in> set english" "w = ascii s" by (auto simp: e)
  then have "spelled s" using english_words by (simp add: list_all_iff)
  then show "w \<noteq> [] \<and> (\<forall>b \<in> set w. 64 \<le> unat b \<and> unat b < 128)"
    using s(2) letter_code by (auto simp: spelled_def list_all_iff ascii_def)
qed

lemma word_no_space: "w \<in> set (wordlist l) \<Longrightarrow> 0x20 \<notin> set w"
  using wordlist_law(3) [of w l] by fastforce

lemma get_word_Ok: "unat b < 2048 \<Longrightarrow> get_word (wordlist l) b = Ok (wordlist l ! unat b)"
  by (simp add: get_word_def index_def wordlist_law)

lemma get_bits_iff: "get_bits (wordmap l) w = Some b \<longleftrightarrow> unat b < 2048 \<and> wordlist l ! unat b = w"
proof -
  let ?wl = "wordlist l"
  have "distinct (map fst (rev (gen_wordmap ?wl)))"
    using wordlist_law(2) [of l] by (simp add: gen_wordmap_def rev_map [symmetric])
  then have "get_bits (wordmap l) w = Some b \<longleftrightarrow> (w, b) \<in> set (gen_wordmap ?wl)"
    by (simp add: get_bits_def wordmap_def)
  also have "\<dots> \<longleftrightarrow> (\<exists>i<2048. ?wl ! i = w \<and> word_of_nat i = b)"
    by (auto simp: gen_wordmap_def set_zip wordlist_law(1))
  also have "\<dots> \<longleftrightarrow> unat b < 2048 \<and> ?wl ! unat b = w"
    by (auto simp: unat_of_nat intro!: exI [of _ "unat b"])
  finally show ?thesis .
qed

lemma split_on_nonempty [simp]: "split_on c s \<noteq> []"
  by (cases s) (auto split: list.splits)

lemma split_on_word: "c \<notin> set w \<Longrightarrow> split_on c w = [w]"
  by (induction w) auto

lemma split_on_glue: "c \<notin> set w \<Longrightarrow> split_on c (w @ c # s) = w # split_on c s"
  by (induction w) (auto split: list.splits)

lemma join_words_Cons: "ws \<noteq> [] \<Longrightarrow> join_words (w # ws) glue = w @ glue @ join_words ws glue"
  by (cases ws) auto

lemma split_join:
  "ws \<noteq> [] \<Longrightarrow> \<forall>w \<in> set ws. c \<notin> set w \<Longrightarrow> split_on c (join_words ws [c]) = ws"
proof (induction ws)
  case (Cons w ws)
  then show ?case
    by (cases "ws = []") (simp_all add: split_on_word split_on_glue join_words_Cons del: join_words.simps(2), simp add: split_on_word)
qed simp

lemma join_split: "join_words (split_on c s) [c] = s"
proof (induction s)
  case (Cons x s)
  obtain y ys where s: "split_on c s = y # ys" by (cases "split_on c s") simp_all
  have "join_words ((x # y) # ys) [c] = x # join_words (y # ys) [c]" by simp
  then show ?case using Cons s by (auto simp: join_words_Cons simp del: join_words.simps(2))
qed simp

subsection \<open>The bits of a phrase\<close>

lemma below_2048:
  assumes "\<forall>j\<ge>11. \<not> bit (x :: 16 word) j"
  shows "unat x < 2048"
proof -
  have "take_bit 11 x = x" using assms by (intro bit_word_eqI) (auto simp: bit_take_bit_iff not_le)
  then have "unat x = unat x mod 2 ^ 11" by (metis unsigned_take_bit_eq take_bit_eq_mod)
  then show ?thesis using mod_less_divisor [of "2 ^ 11" "unat x"] by simp
qed

lemma above_2048: "unat (x :: 16 word) < 2048 \<Longrightarrow> 11 \<le> j \<Longrightarrow> \<not> bit x j"
proof -
  assume x: "unat x < 2048" and j: "11 \<le> j"
  then have "take_bit 11 (unat x) = unat x" by (simp add: take_bit_nat_eq_self_iff)
  then have "\<not> bit (unat x) j" using j by (metis bit_take_bit_iff not_le)
  then show "\<not> bit x j" by (simp add: bit_unsigned_iff)
qed

lemma length_concat_bitl [simp]: "length (concat (map (bitl n) xs)) = n * length xs"
  by (induction xs) simp_all

lemma bitl_eq_Nil [simp]: "bitl n x = [] \<longleftrightarrow> n = 0"
  by (simp add: bitl_def)

lemma concat_bitl_inj:
  assumes "\<And>x y. x \<in> S \<Longrightarrow> y \<in> S \<Longrightarrow> bitl n x = bitl n y \<Longrightarrow> x = y" "0 < n"
  shows "set xs \<subseteq> S \<Longrightarrow> set ys \<subseteq> S \<Longrightarrow> concat (map (bitl n) xs) = concat (map (bitl n) ys) \<Longrightarrow> xs = ys"
proof (induction xs arbitrary: ys)
  case Nil
  then show ?case using assms(2) arg_cong [OF Nil(3), of length] by simp
next
  case (Cons x xs)
  obtain y ys' where y: "ys = y # ys'" using Cons.prems(3) assms(2) by (cases ys) auto
  then have "bitl n x = bitl n y" "concat (map (bitl n) xs) = concat (map (bitl n) ys')"
    using Cons.prems(3) by simp_all
  then show ?case using Cons.IH [of ys'] Cons.prems(1,2) y assms(1) [of x y] by simp
qed

lemma bytes_bitl_inj: "concat (map (bitl 8) xs) = concat (map (bitl 8) (ys :: bytes)) \<Longrightarrow> xs = ys"
  using concat_bitl_inj [of UNIV 8 xs ys] bitl_byte_inj by auto

lemma numbers_bitl_inj:
  assumes "\<forall>x \<in> set xs \<union> set ys. unat (x :: 16 word) < 2048"
    and "concat (map (bitl 11) xs) = concat (map (bitl 11) ys)"
  shows "xs = ys"
proof (rule concat_bitl_inj [OF _ _ _ _ assms(2)])
  fix x y :: "16 word"
  assume "x \<in> {x. unat x < 2048}" "y \<in> {x. unat x < 2048}" "bitl 11 x = bitl 11 y"
  then show "x = y"
    using above_2048 [of x] above_2048 [of y] bitl_eqD [of 11 x y] by (intro bit_word_eqI) (metis mem_Collect_eq not_le)
qed (use assms(1) in auto)

lemma collect_bits:
  "unread bs it \<Longrightarrow> length (bi_collect it) = length bs div 11
     \<and> concat (map (bitl 11) (bi_collect it)) = take (11 * (length bs div 11)) bs
     \<and> (\<forall>x \<in> set (bi_collect it). unat x < 2048)"
proof (induction it arbitrary: bs rule: bi_collect.induct)
  case (1 it)
  show ?case
  proof (cases "bi_next 11 it")
    case None
    then show ?thesis using unread_next [OF 1(2), of 11] bi_collect.simps [of it] by simp
  next
    case (Some p)
    obtain x it' where p: "p = (x, it')" by (cases p)
    have n: "11 \<le> length bs" "bitl 11 x = take 11 bs" "\<forall>j\<ge>11. \<not> bit x j" "unread (drop 11 bs) it'"
      using unread_next [OF 1(2), of 11] Some p by simp_all
    from 1(1) [OF Some [unfolded p] refl n(4)] n bi_collect.simps [of it] Some p show ?thesis
      by (simp add: below_2048 le_div_geq take_add)
  qed
qed

lemma push_words_eq:
  "push_words wm ws w =
     (if list_all (\<lambda>word. get_bits wm word \<noteq> None) ws
      then Ok (foldl (\<lambda>w b. bw_push 11 (ucast b) w) w (map (\<lambda>word. the (get_bits wm word)) ws))
      else Err Bip39)"
proof (induction ws arbitrary: w)
  case (Cons a ws)
  then show ?case by (cases "get_bits wm a") simp_all
qed simp

lemma push_numbers:
  "wrote bs w \<Longrightarrow> bw_offset w < 8 \<Longrightarrow> \<forall>x \<in> set xs. unat (x :: 16 word) < 2048 \<Longrightarrow>
     wrote (bs @ concat (map (bitl 11) xs)) (foldl (\<lambda>w b. bw_push 11 (ucast b) w) w xs)
     \<and> bw_offset (foldl (\<lambda>w b. bw_push 11 (ucast b) w) w xs) < 8"
proof (induction xs arbitrary: bs w)
  case (Cons x xs)
  have "\<not> bit (ucast x :: u32) j" if "11 \<le> j" for j
    using above_2048 [of x j] Cons.prems(3) that by (simp add: bit_ucast_iff)
  from wrote_push [OF Cons.prems(1,2) _ this] have
    "wrote (bs @ bitl 11 (ucast x :: u32)) (bw_push 11 (ucast x) w)" "bw_offset (bw_push 11 (ucast x) w) < 8" by simp_all
  from Cons.IH [OF this] Cons.prems(3) show ?case by (simp add: bitl_ucast)
qed simp

subsection \<open>Writing and reading a phrase\<close>

abbreviation numbers :: "bytes \<Rightarrow> 16 word list" where
  "numbers bs \<equiv> bi_collect (bi_new bs)"

lemma numbers_bits:
  assumes "length bs = 33"
  shows "length (numbers bs) = 24 \<and> concat (map (bitl 11) (numbers bs)) = concat (map (bitl 8) bs)
     \<and> (\<forall>x \<in> set (numbers bs). unat x < 2048)"
  using collect_bits [OF unread_new, of bs] assms by simp

lemma get_words_Ok:
  "\<forall>x \<in> set xs. unat x < 2048 \<Longrightarrow> get_words (wordlist l) xs = Ok (map (\<lambda>x. wordlist l ! unat x) xs)"
  by (induction xs) (simp_all add: get_word_Ok)

lemma sha256_nonempty [simp]: "sha256 m \<noteq> []"
  using length_sha256 [of m] by (metis list.size(3) zero_neq_numeral)

definition checksum :: "bytes \<Rightarrow> byte" where
  "checksum e = sha256 e ! 0"

definition phrase_for :: "bytes \<Rightarrow> Language \<Rightarrow> Phrase" where
  "phrase_for e l = \<lparr>ph_language = l, ph_entropy = e,
     ph_phrase = join_words (map (\<lambda>x. wordlist l ! unat x) (numbers (e @ [checksum e]))) [0x20]\<rparr>"

lemma phrase_from_entropy_eq [simp]: "phrase_from_entropy e l = Ok (phrase_for e l)"
  using collect_bits [OF unread_new, of "e @ [checksum e]"]
  by (simp add: phrase_for_def phrase_from_entropy_def sha256_digest_eq index_def get_words_Ok checksum_def Let_def)

text \<open>Reading a list of words: their numbers, if all are in the list, written bit by bit.\<close>

lemma push_words_numbers:
  assumes "push_words (wordmap l) ws bw_new = Ok w"
  shows "\<exists>xs :: 16 word list. ws = map (\<lambda>x. wordlist l ! unat x) xs \<and> (\<forall>x \<in> set xs. unat x < 2048)
     \<and> wrote (concat (map (bitl 11) xs)) w \<and> bw_offset w < 8"
proof -
  let ?xs = "map (\<lambda>word. the (get_bits (wordmap l) word)) ws"
  have a: "\<And>word. word \<in> set ws \<Longrightarrow> \<exists>b. get_bits (wordmap l) word = Some b"
    and w: "w = foldl (\<lambda>w b. bw_push 11 (ucast b) w) bw_new ?xs"
    using assms by (auto simp: push_words_eq list_all_iff split: if_splits)
  have b: "unat (the (get_bits (wordmap l) word)) < 2048 \<and> wordlist l ! unat (the (get_bits (wordmap l) word)) = word"
    if "word \<in> set ws" for word
  proof -
    obtain b where "get_bits (wordmap l) word = Some b" using a [OF \<open>word \<in> set ws\<close>] by blast
    then show ?thesis using get_bits_iff [of l word b] by simp
  qed
  then have m: "map (\<lambda>x. wordlist l ! unat x) ?xs = ws" unfolding map_map by (intro map_idI) simp
  have lt: "\<forall>x \<in> set ?xs. unat x < 2048" using b by auto
  have "bw_offset bw_new < 8" by (simp add: bw_new_def)
  from push_numbers [OF wrote_new this lt] have "wrote (concat (map (bitl 11) ?xs)) w" "bw_offset w < 8"
    unfolding w append_Nil by (rule conjunct1, rule conjunct2)
  then show ?thesis by (intro exI [of _ ?xs] conjI m [symmetric] lt)
qed

lemma push_words_written:
  assumes "\<forall>x \<in> set xs. unat (x :: 16 word) < 2048"
  shows "\<exists>w. push_words (wordmap l) (map (\<lambda>x. wordlist l ! unat x) xs) bw_new = Ok w
     \<and> wrote (concat (map (bitl 11) xs)) w \<and> bw_offset w < 8"
proof -
  have "get_bits (wordmap l) (wordlist l ! unat x) = Some x" if "x \<in> set xs" for x
    using assms that by (simp add: get_bits_iff)
  then have "push_words (wordmap l) (map (\<lambda>x. wordlist l ! unat x) xs) bw_new
      = Ok (foldl (\<lambda>w b. bw_push 11 (ucast b) w) bw_new xs)"
    by (auto simp: push_words_eq list_all_iff comp_def map_idI)
  then show ?thesis using push_numbers [OF wrote_new _ assms] by (simp add: bw_new_def)
qed

lemma phrase_new_from_entropy:
  assumes "length e = 32"
  shows "phrase_new (ph_phrase (phrase_for e l)) l = Ok (phrase_for e l)"
    and "length (split_on 0x20 (ph_phrase (phrase_for e l))) = 24"
proof -
  let ?bs = "e @ [checksum e]"
  let ?ws = "map (\<lambda>x. wordlist l ! unat x) (numbers ?bs)"
  have n: "length (numbers ?bs) = 24" "concat (map (bitl 11) (numbers ?bs)) = concat (map (bitl 8) ?bs)"
    "\<forall>x \<in> set (numbers ?bs). unat x < 2048"
    using numbers_bits [of ?bs] assms by simp_all
  have "?ws \<noteq> []" using n(1) by auto
  moreover have "\<forall>w \<in> set ?ws. 0x20 \<notin> set w"
    using n(3) wordlist_law(1) [of l] by (auto intro!: word_no_space [of _ l])
  ultimately have s: "split_on 0x20 (ph_phrase (phrase_for e l)) = ?ws"
    using split_join [of ?ws "0x20"] by (simp add: phrase_for_def)
  obtain w where w: "push_words (wordmap l) ?ws bw_new = Ok w" "wrote (concat (map (bitl 8) ?bs)) w" "bw_offset w < 8"
    using push_words_written [OF n(3), of l] n(2) by auto
  have "bw_into_bytes w = ?bs"
    using wrote_into_bytes(2) [OF w(2,3)] assms by (intro bytes_bitl_inj) simp
  then show "phrase_new (ph_phrase (phrase_for e l)) l = Ok (phrase_for e l)"
    using s w(1) assms
    by (simp add: phrase_new_def KEY_SIZE_def index_def sha256_digest_eq checksum_def Let_def nth_append try_into_array_def)
  show "length (split_on 0x20 (ph_phrase (phrase_for e l))) = 24" using s n(1) by simp
qed

lemma phrase_new_canonical:
  assumes "phrase_new s l = Ok p"
  shows "length (ph_entropy p) = 32 \<and> p = phrase_for (ph_entropy p) l \<and> ph_phrase p = s"
proof -
  from assms obtain w where w: "push_words (wordmap l) (split_on 0x20 s) bw_new = Ok w"
    by (cases "push_words (wordmap l) (split_on 0x20 s) bw_new") (simp_all add: phrase_new_def)
  let ?E = "bw_into_bytes w"
  from assms w have E: "length ?E = 33" "?E ! 32 = checksum (take 32 ?E)"
    "p = phrase_for (take 32 ?E) l"
    by (auto simp: try_into_array_def phrase_new_def KEY_SIZE_def index_def sha256_digest_eq checksum_def Let_def split: if_splits)
  from push_words_numbers [OF w] obtain xs :: "16 word list" where
    xs: "split_on 0x20 s = map (\<lambda>x. wordlist l ! unat x) xs" "\<forall>x \<in> set xs. unat x < 2048"
      "wrote (concat (map (bitl 11) xs)) w" "bw_offset w < 8" by blast
  have "(11 * length xs + 7) div 8 = 33" using wrote_into_bytes(1) [OF xs(3,4)] E(1) by simp
  then have "length xs = 24" by presburger
  then have bits: "concat (map (bitl 8) ?E) = concat (map (bitl 11) xs)"
    using wrote_into_bytes(2) [OF xs(3,4)] by simp
  have split: "?E = take 32 ?E @ [checksum (take 32 ?E)]"
    using E(1,2) take_Suc_conv_app_nth [of 32 ?E] by simp
  have "numbers ?E = xs"
    using numbers_bits [OF E(1)] bits xs(2) by (intro numbers_bitl_inj) auto
  then have "ph_phrase p = join_words (split_on 0x20 s) [0x20]" "ph_entropy p = take 32 ?E"
    using E(3) split xs(1) by (auto simp: phrase_for_def)
  then show ?thesis using E by (simp add: join_split)
qed

lemma phrase_new_no_panic: "phrase_new s l \<noteq> Panic" "phrase_new s l = Err e \<Longrightarrow> e = Bip39"
  by (auto simp: phrase_new_def push_words_eq KEY_SIZE_def index_def sha256_digest_eq Let_def
      try_into_array_def split: if_splits)

lemma phrase_new_iff:
  "phrase_new s l = Ok p \<longleftrightarrow> length (ph_entropy p) = 32 \<and> p = phrase_for (ph_entropy p) l \<and> ph_phrase p = s"
  using phrase_new_canonical phrase_new_from_entropy by metis

subsection \<open>Claims\<close>

text \<open>C14: reading a recovery phrase accepts exactly the phrases that writing one produces, with the
  English word list of the crate: \<open>Phrase::new\<close> returns \<open>p\<close> on a string if and only if \<open>p\<close> has 32 bytes
  of entropy, \<open>p\<close> is what \<open>from_entropy\<close> makes of them, and the string is its phrase. So a written phrase
  reads back, no two strings stand for the same entropy, and a mistyped word, word count or
  checksum is refused. Whatever the string, reading returns the phrase of exactly 24 words or the
  error \<open>Bip39\<close> and never panics.\<close>

theorem phrase_accepts_exactly:
  "(phrase_new s l = Ok p \<longleftrightarrow>
      length (ph_entropy p) = 32 \<and> phrase_from_entropy (ph_entropy p) l = (Ok p :: (Phrase, bip32_error) result)
      \<and> ph_phrase p = s)
   \<and> (phrase_new s l = Err Bip39 \<or> (\<exists>p. phrase_new s l = Ok p \<and> length (split_on 0x20 s) = 24))"
proof
  show "phrase_new s l = Ok p \<longleftrightarrow> length (ph_entropy p) = 32
      \<and> phrase_from_entropy (ph_entropy p) l = (Ok p :: (Phrase, bip32_error) result) \<and> ph_phrase p = s"
    by (auto simp: phrase_new_iff)
  show "phrase_new s l = Err Bip39 \<or> (\<exists>p. phrase_new s l = Ok p \<and> length (split_on 0x20 s) = 24)"
  proof (cases "phrase_new s l")
    case (Ok p)
    then show ?thesis using phrase_new_canonical [OF Ok] phrase_new_from_entropy(2) [of "ph_entropy p" l] by simp
  qed (use phrase_new_no_panic in auto)
qed

end
