(* ===== verification/Phi_Hmac.thy ===== *)
theory Phi_Hmac
  imports Phi_Core_Wrapper
begin

section \<open>HMAC (vendored hmac)\<close>

text \<open>
  The block-level HMAC of \<open>optim.rs\<close> over the core of any hash: the key is brought to the block
  size (\<open>get_der_key\<close>), one core has absorbed the inner key block, another the outer one, and the
  same buffer serves both. \<open>Hmac<D>\<close> is the wrapper of \<open>Phi_Core_Wrapper\<close> around it. The crate is built
  with the feature \<open>reset\<close>, so the core also keeps the state after the inner key block.
  \<open>new_from_slice\<close> has no error: every key length is accepted. Over a core that keeps the interface
  \<open>hash_core\<close>, HMAC keeps it too, with RFC 2104's function of the hash as its hash.
\<close>

definition IPAD :: byte where
  "IPAD = 0x36"

definition OPAD :: byte where
  "OPAD = 0x5C"

definition get_der_key :: "('c, 'e) hash_ops \<Rightarrow> bytes \<Rightarrow> (bytes, 'e) result" where
  "get_der_key H key =
     (let der_key = replicate (co_size H) 0 in
      if length key \<le> length der_key then copy_at der_key 0 (length key) key
      else
        bind_r (cw_digest H key) (\<lambda>hash.
        if length hash \<le> length der_key then copy_at der_key 0 (length hash) hash
        else
          let n = length der_key in
          bind_r (index_range hash 0 n) (\<lambda>h. copy_at der_key 0 n h)))"

record 'c HmacCore =
  hm_digest :: 'c
  hm_opad_digest :: 'c
  hm_ipad_digest :: 'c

definition hmac_core_new :: "('c, 'e) hash_ops \<Rightarrow> bytes \<Rightarrow> ('c HmacCore, 'e) result" where
  "hmac_core_new H key =
     bind_r (get_der_key H key) (\<lambda>buf.
     let buf = map (\<lambda>b. b XOR IPAD) buf in
     bind_r (ho_default H) (\<lambda>digest.
     let digest = co_update_blocks H digest [buf];
         buf = map (\<lambda>b. b XOR (IPAD XOR OPAD)) buf in
     bind_r (ho_default H) (\<lambda>opad_digest.
     let opad_digest = co_update_blocks H opad_digest [buf] in
     Ok \<lparr>hm_digest = digest, hm_opad_digest = opad_digest, hm_ipad_digest = digest\<rparr>)))"

definition hmac_update_blocks :: "('c, 'e) hash_ops \<Rightarrow> 'c HmacCore \<Rightarrow> bytes list \<Rightarrow> 'c HmacCore" where
  "hmac_update_blocks H k blocks = k\<lparr>hm_digest := co_update_blocks H (hm_digest k) blocks\<rparr>"

definition hmac_finalize_fixed_core ::
    "('c, 'e) hash_ops \<Rightarrow> 'c HmacCore \<Rightarrow> BlockBuffer \<Rightarrow> ('c HmacCore \<times> BlockBuffer \<times> bytes, 'e) result" where
  "hmac_finalize_fixed_core H k buffer =
     bind_r (co_finalize H (hm_digest k) buffer) (\<lambda>(digest, buffer, hash).
     bind_r (bb_reset (co_size H) buffer) (\<lambda>buffer.
     let h = hm_opad_digest k in
     bind_r (digest_blocks (co_size H) (co_update_blocks H) buffer hash h) (\<lambda>(buffer, h).
     bind_r (co_finalize H h buffer) (\<lambda>(h, buffer, out).
     Ok (k\<lparr>hm_digest := digest\<rparr>, buffer, out)))))"

definition hmac_reset :: "'c HmacCore \<Rightarrow> ('c HmacCore, 'e) result" where
  "hmac_reset k = Ok (k\<lparr>hm_digest := hm_ipad_digest k\<rparr>)"

definition hmac_ops :: "('c, 'e) hash_ops \<Rightarrow> ('c HmacCore, 'e) core_ops" where
  "hmac_ops H =
    \<lparr>co_size = co_size H, co_out = co_out H, co_update_blocks = hmac_update_blocks H,
     co_finalize = hmac_finalize_fixed_core H, co_reset = hmac_reset\<rparr>"

text \<open>\<open>Hmac::<D>::new_from_slice(key)\<close>; \<open>update\<close> and \<open>finalize\<close> are those of the wrapper.\<close>

definition hmac_new_from_slice :: "('c, 'e) hash_ops \<Rightarrow> bytes \<Rightarrow> ('c HmacCore CoreWrapper, 'e) result" where
  "hmac_new_from_slice H key = bind_r (hmac_core_new H key) (cw_from_core (hmac_ops H))"

subsection \<open>Reference: RFC 2104\<close>

definition block_key :: "(bytes \<Rightarrow> bytes) \<Rightarrow> nat \<Rightarrow> bytes \<Rightarrow> bytes" where
  "block_key hash B key =
     (let K = (if length key \<le> B then key else hash key) in K @ replicate (B - length K) 0)"

definition hmac :: "(bytes \<Rightarrow> bytes) \<Rightarrow> nat \<Rightarrow> bytes \<Rightarrow> bytes \<Rightarrow> bytes" where
  "hmac hash B key text =
     (let K = block_key hash B key in
      hash (map (\<lambda>b. b XOR 0x5C) K @ hash (map (\<lambda>b. b XOR 0x36) K @ text)))"

subsection \<open>HMAC over a hash is a hash\<close>

text \<open>The core of a keyed hasher: a hash whose digest fits a block, and a key.\<close>

locale keyed_hash = hasher H c0 hash for H :: "('c, 'e) hash_ops" and c0 hash +
  fixes key :: bytes
  assumes out_size: "co_out H \<le> co_size H"
begin

definition inner_key :: bytes where
  "inner_key = map (\<lambda>b. b XOR 0x36) (block_key hash (co_size H) key)"

definition outer_key :: bytes where
  "outer_key = map (\<lambda>b. b XOR 0x5C) (block_key hash (co_size H) key)"

definition hmac_c0 :: "'c HmacCore" where
  "hmac_c0 =
    \<lparr>hm_digest = co_update_blocks H c0 [inner_key], hm_opad_digest = co_update_blocks H c0 [outer_key],
     hm_ipad_digest = co_update_blocks H c0 [inner_key]\<rparr>"

lemma length_block_key: "length (block_key hash (co_size H) key) = co_size H"
  using out_size by (simp add: block_key_def Let_def out_length)

lemma get_der_key_eq: "get_der_key H key = Ok (block_key hash (co_size H) key)"
  using out_size
  by (simp add: get_der_key_def block_key_def copy_at_def digest_eq out_length Let_def)

lemma hmac_core_new_eq: "hmac_core_new H key = Ok hmac_c0"
proof -
  have "(b XOR 0x36) XOR 0x6A = b XOR 0x5C" for b :: byte by (simp add: xor.assoc)
  then show ?thesis
    by (simp add: hmac_core_new_def get_der_key_eq default_core hmac_c0_def inner_key_def outer_key_def
        IPAD_def OPAD_def comp_def Let_def)
qed

text \<open>A core that has taken one block and a buffer with rest \<open>r\<close> has absorbed the block and what
  followed it.\<close>

lemma absorbed_after_block:
  assumes "length k = co_size H" "co_size H dvd length F" "holds b r"
  shows "absorbed c0 (k @ F @ r) b (co_update_blocks H (co_update_blocks H c0 [k]) (blocks_of (co_size H) F))"
proof -
  have "blocks_of (co_size H) (k @ F) = [k] @ blocks_of (co_size H) F"
    using blocks_of_append [OF size(1), of k F] blocks_of_single [OF size(1) assms(1)] assms(1) by simp
  then have "co_update_blocks H (co_update_blocks H c0 [k]) (blocks_of (co_size H) F)
      = co_update_blocks H c0 (blocks_of (co_size H) (k @ F))"
    by (simp only: consume_append)
  then show ?thesis
    unfolding absorbed_def using assms by (intro exI [of _ "k @ F"] exI [of _ r]) simp
qed

lemma hmac_finalize:
  assumes "co_size H dvd length F" "holds b r" "hm_opad_digest k = hm_opad_digest hmac_c0"
    and "hm_digest k = co_update_blocks H (hm_digest hmac_c0) (blocks_of (co_size H) F)"
  shows "\<exists>d b'. hmac_finalize_fixed_core H k b = Ok (k\<lparr>hm_digest := d\<rparr>, b', hmac hash (co_size H) key (F @ r)) \<and> holds b' []"
proof -
  have len: "length inner_key = co_size H" "length outer_key = co_size H"
    by (simp_all add: inner_key_def outer_key_def length_block_key)
  have "absorbed c0 (inner_key @ F @ r) b (hm_digest k)"
    using absorbed_after_block [OF len(1) assms(1,2)] assms(4) by (simp add: hmac_c0_def)
  from finalize_absorbed [OF this] obtain d b1 where
    f1: "co_finalize H (hm_digest k) b = Ok (d, b1, hash (inner_key @ F @ r))" "holds b1 []" by blast
  have r: "bb_reset (co_size H) b1 = (Ok (b1\<lparr>bb_pos := 0\<rparr>) :: (_, 'e) result)" "holds (b1\<lparr>bb_pos := 0\<rparr>) []"
    using f1(2) size by (simp_all add: bb_reset_def set_pos holds_def)
  have "absorbed c0 outer_key (b1\<lparr>bb_pos := 0\<rparr>) (hm_opad_digest k)"
    using absorbed_after_block [OF len(2) _ r(2), of "[]"] assms(3) size(1) by (simp add: hmac_c0_def consume_Nil)
  from digest_blocks_absorbed [OF this] obtain b2 h where
    f2: "digest_blocks (co_size H) (co_update_blocks H) (b1\<lparr>bb_pos := 0\<rparr>) (hash (inner_key @ F @ r)) (hm_opad_digest k)
      = (Ok (b2, h) :: (_, 'e) result)" "absorbed c0 (outer_key @ hash (inner_key @ F @ r)) b2 h" by blast
  from finalize_absorbed [OF f2(2)] obtain h' b' where
    "co_finalize H h b2 = Ok (h', b', hash (outer_key @ hash (inner_key @ F @ r)))" "holds b' []" by blast
  with f1(1) f2(1) r(1) show ?thesis
    by (intro exI [of _ d] exI [of _ b'])
      (simp add: hmac_finalize_fixed_core_def hmac_def inner_key_def outer_key_def Let_def)
qed

lemma hmac_consumer: "block_consumer (co_size (hmac_ops H)) (co_update_blocks (hmac_ops H))"
  using size by unfold_locales (simp_all add: hmac_ops_def hmac_update_blocks_def consume_Nil consume_append)

lemma hmac_finalize_absorbed:
  assumes "block_consumer.absorbed (co_size (hmac_ops H)) (co_update_blocks (hmac_ops H)) hmac_c0 m b k"
  shows "\<exists>k' b'. co_finalize (hmac_ops H) k b = Ok (k', b', hmac hash (co_size H) key m)
     \<and> block_consumer.holds (co_size (hmac_ops H)) b' [] \<and> co_reset (hmac_ops H) k' = Ok hmac_c0"
proof -
  have holds: "block_consumer.holds (co_size (hmac_ops H)) = holds"
    unfolding fun_eq_iff block_consumer.holds_def [OF hmac_consumer] holds_def by (simp add: hmac_ops_def)
  obtain F r where F: "m = F @ r" "co_size H dvd length F" "holds b r" "k = hmac_update_blocks H hmac_c0 (blocks_of (co_size H) F)"
    using assms unfolding block_consumer.absorbed_def [OF hmac_consumer] holds by (auto simp: hmac_ops_def)
  then have k: "hm_opad_digest k = hm_opad_digest hmac_c0" "hm_digest k = co_update_blocks H (hm_digest hmac_c0) (blocks_of (co_size H) F)"
    "k\<lparr>hm_digest := hm_ipad_digest k\<rparr> = hmac_c0"
    by (simp_all add: hmac_update_blocks_def hmac_c0_def)
  from hmac_finalize [OF F(2,3) k(1,2)] F(1) obtain d b' where
    "hmac_finalize_fixed_core H k b = Ok (k\<lparr>hm_digest := d\<rparr>, b', hmac hash (co_size H) key m)" "holds b' []" by blast
  with k(3) show ?thesis unfolding holds by (simp add: hmac_ops_def hmac_reset_def)
qed

lemma length_hmac: "length (hmac hash B k m) = co_out H"
  by (simp add: hmac_def Let_def out_length)

end

sublocale keyed_hash \<subseteq> mac: hash_core "hmac_ops H" hmac_c0 "hmac hash (co_size H) key"
  using hmac_finalize_absorbed
  by (intro hash_core.intro hash_core_axioms.intro hmac_consumer) (simp_all add: length_hmac hmac_ops_def)

context keyed_hash
begin

text \<open>Any sequence of \<open>update\<close> calls on a keyed hasher, and \<open>finalize\<close>.\<close>

lemma new_absorbs: "\<exists>w. hmac_new_from_slice H key = Ok w \<and> mac.absorbs [] w"
  using mac.from_core_absorbs by (simp add: hmac_new_from_slice_def hmac_core_new_eq)

lemma hmac_stream:
  "bind_r (hmac_new_from_slice H key) (\<lambda>w. bind_r (cw_updates (hmac_ops H) xs w) (cw_finalize (hmac_ops H)))
     = Ok (hmac hash (co_size H) key (concat xs))"
  using mac.stream [of xs] by (simp add: hmac_new_from_slice_def hmac_core_new_eq)

end

end
