(* ===== verification/Phi_Sha512.thy ===== *)
theory Phi_Sha512
  imports Phi_Sha256
begin

section \<open>The SHA-512 compression function (vendored sha2)\<close>

text \<open>
  The block function behind HMAC-SHA-512 and PBKDF2 in key recovery, again in the two portable
  forms. \<open>soft.rs\<close> keeps the working variables in four pairs \<open>[a, e]\<close>, \<open>[b, f]\<close>, \<open>[c, g]\<close>, \<open>[d, h]\<close>,
  whose roles rotate from round to round, and the message schedule in ten pairs that are
  overwritten in turn; \<open>soft_compact.rs\<close> is the textbook loop. A \<open>[u64; 2]\<close> is a pair.
\<close>

type_synonym u64x2 = "u64 \<times> u64"
type_synonym State512 = "u64 \<times> u64 \<times> u64 \<times> u64 \<times> u64 \<times> u64 \<times> u64 \<times> u64"

subsection \<open>Constants (consts.rs)\<close>

definition K64 :: "u64 list" where
  "K64 = [0x428a2f98d728ae22, 0x7137449123ef65cd, 0xb5c0fbcfec4d3b2f, 0xe9b5dba58189dbbc,
      0x3956c25bf348b538, 0x59f111f1b605d019, 0x923f82a4af194f9b, 0xab1c5ed5da6d8118,
      0xd807aa98a3030242, 0x12835b0145706fbe, 0x243185be4ee4b28c, 0x550c7dc3d5ffb4e2,
      0x72be5d74f27b896f, 0x80deb1fe3b1696b1, 0x9bdc06a725c71235, 0xc19bf174cf692694,
      0xe49b69c19ef14ad2, 0xefbe4786384f25e3, 0x0fc19dc68b8cd5b5, 0x240ca1cc77ac9c65,
      0x2de92c6f592b0275, 0x4a7484aa6ea6e483, 0x5cb0a9dcbd41fbd4, 0x76f988da831153b5,
      0x983e5152ee66dfab, 0xa831c66d2db43210, 0xb00327c898fb213f, 0xbf597fc7beef0ee4,
      0xc6e00bf33da88fc2, 0xd5a79147930aa725, 0x06ca6351e003826f, 0x142929670a0e6e70,
      0x27b70a8546d22ffc, 0x2e1b21385c26c926, 0x4d2c6dfc5ac42aed, 0x53380d139d95b3df,
      0x650a73548baf63de, 0x766a0abb3c77b2a8, 0x81c2c92e47edaee6, 0x92722c851482353b,
      0xa2bfe8a14cf10364, 0xa81a664bbc423001, 0xc24b8b70d0f89791, 0xc76c51a30654be30,
      0xd192e819d6ef5218, 0xd69906245565a910, 0xf40e35855771202a, 0x106aa07032bbd1b8,
      0x19a4c116b8d2d0c8, 0x1e376c085141ab53, 0x2748774cdf8eeb99, 0x34b0bcb5e19b48a8,
      0x391c0cb3c5c95a63, 0x4ed8aa4ae3418acb, 0x5b9cca4f7763e373, 0x682e6ff3d6b2b8a3,
      0x748f82ee5defb2fc, 0x78a5636f43172f60, 0x84c87814a1f0ab72, 0x8cc702081a6439ec,
      0x90befffa23631e28, 0xa4506cebde82bde9, 0xbef9a3f7b2c67915, 0xc67178f2e372532b,
      0xca273eceea26619c, 0xd186b8c721c0c207, 0xeada7dd6cde0eb1e, 0xf57d4f7fee6ed178,
      0x06f067aa72176fba, 0x0a637dc5a2c898a6, 0x113f9804bef90dae, 0x1b710b35131c471b,
      0x28db77f523047d84, 0x32caab7b40c72493, 0x3c9ebe0a15c9bebc, 0x431d67c49c100d4c,
      0x4cc5d4becb3e42b6, 0x597f299cfc657e2a, 0x5fcb6fab3ad6faec, 0x6c44198c4a475817]"

definition K64X2 :: "u64x2 list" where
  "K64X2 =
    [(K64 ! 1, K64 ! 0), (K64 ! 3, K64 ! 2), (K64 ! 5, K64 ! 4), (K64 ! 7, K64 ! 6),
     (K64 ! 9, K64 ! 8), (K64 ! 11, K64 ! 10), (K64 ! 13, K64 ! 12), (K64 ! 15, K64 ! 14),
     (K64 ! 17, K64 ! 16), (K64 ! 19, K64 ! 18), (K64 ! 21, K64 ! 20), (K64 ! 23, K64 ! 22),
     (K64 ! 25, K64 ! 24), (K64 ! 27, K64 ! 26), (K64 ! 29, K64 ! 28), (K64 ! 31, K64 ! 30),
     (K64 ! 33, K64 ! 32), (K64 ! 35, K64 ! 34), (K64 ! 37, K64 ! 36), (K64 ! 39, K64 ! 38),
     (K64 ! 41, K64 ! 40), (K64 ! 43, K64 ! 42), (K64 ! 45, K64 ! 44), (K64 ! 47, K64 ! 46),
     (K64 ! 49, K64 ! 48), (K64 ! 51, K64 ! 50), (K64 ! 53, K64 ! 52), (K64 ! 55, K64 ! 54),
     (K64 ! 57, K64 ! 56), (K64 ! 59, K64 ! 58), (K64 ! 61, K64 ! 60), (K64 ! 63, K64 ! 62),
     (K64 ! 65, K64 ! 64), (K64 ! 67, K64 ! 66), (K64 ! 69, K64 ! 68), (K64 ! 71, K64 ! 70),
     (K64 ! 73, K64 ! 72), (K64 ! 75, K64 ! 74), (K64 ! 77, K64 ! 76), (K64 ! 79, K64 ! 78)]"

definition H512_224 :: State512 where
  "H512_224 = (0x8c3d37c819544da2, 0x73e1996689dcd4d6, 0x1dfab7ae32ff9c82, 0x679dd514582f9fcf,
      0x0f6d2b697bd44da8, 0x77e36f7304c48942, 0x3f9d85a86a1d36c8, 0x1112e6ad91d692a1)"

definition H512_256 :: State512 where
  "H512_256 = (0x22312194fc2bf72c, 0x9f555fa3c84c64c2, 0x2393b86b6f53b151, 0x963877195940eabd,
      0x96283ee2a88effe3, 0xbe5e1e2553863992, 0x2b0199fc2c85b8aa, 0x0eb72ddc81c52ca2)"

definition H512_384 :: State512 where
  "H512_384 = (0xcbbb9d5dc1059ed8, 0x629a292a367cd507, 0x9159015a3070dd17, 0x152fecd8f70e5939,
      0x67332667ffc00b31, 0x8eb44a8768581511, 0xdb0c2e0d64f98fa7, 0x47b5481dbefa4fa4)"

definition H512_512 :: State512 where
  "H512_512 = (0x6a09e667f3bcc908, 0xbb67ae8584caa73b, 0x3c6ef372fe94f82b, 0xa54ff53a5f1d36f1,
      0x510e527fade682d1, 0x9b05688c2b3e6c1f, 0x1f83d9abfb41bd6b, 0x5be0cd19137e2179)"

text \<open>\<open>u64::rotate_right\<close>, and \<open>u64::from_be_bytes\<close>, \<open>to_be_bytes\<close>.\<close>

abbreviation rotate_right64 :: "u64 \<Rightarrow> nat \<Rightarrow> u64" where
  "rotate_right64 x n \<equiv> word_rotr n x"

definition u64_from_be_bytes :: "bytes \<Rightarrow> u64" where
  "u64_from_be_bytes bs = word_of_nat (be_val bs)"

definition u64_to_be_bytes :: "u64 \<Rightarrow> bytes" where
  "u64_to_be_bytes w = be_bytes 8 (unat w)"

lemma length_u64_to_be_bytes [simp, framing_simps]: "length (u64_to_be_bytes w) = 8"
  by (simp add: u64_to_be_bytes_def)

subsection \<open>The paired form (soft.rs)\<close>

fun add_x2 :: "u64x2 \<Rightarrow> u64x2 \<Rightarrow> u64x2" where
  "add_x2 (a0, a1) (b0, b1) = (a0 + b0, a1 + b1)"

fun sha512load :: "u64x2 \<Rightarrow> u64x2 \<Rightarrow> u64x2" where
  "sha512load (v00, v01) (v10, v11) = (v11, v00)"

definition soft_sigma0_512 :: "u64 \<Rightarrow> u64" where
  "soft_sigma0_512 x = (push_bit 63 x OR drop_bit 1 x) XOR (push_bit 56 x OR drop_bit 8 x) XOR drop_bit 7 x"

definition soft_sigma1_512 :: "u64 \<Rightarrow> u64" where
  "soft_sigma1_512 x = (push_bit 45 x OR drop_bit 19 x) XOR (push_bit 3 x OR drop_bit 61 x) XOR drop_bit 6 x"

fun sha512_schedule_x2 :: "u64x2 \<Rightarrow> u64x2 \<Rightarrow> u64x2 \<Rightarrow> u64x2 \<Rightarrow> u64x2" where
  "sha512_schedule_x2 (w1, w0) (_, w2) (w10, w9) (w15, w14) =
     (let w16 = soft_sigma1_512 w14 + w9 + soft_sigma0_512 w1 + w0;
          w17 = soft_sigma1_512 w15 + w10 + soft_sigma0_512 w2 + w1
      in (w17, w16))"

definition big_sigma0_512 :: "u64 \<Rightarrow> u64" where
  "big_sigma0_512 a = rotate_right64 a 28 XOR rotate_right64 a 34 XOR rotate_right64 a 39"

definition big_sigma1_512 :: "u64 \<Rightarrow> u64" where
  "big_sigma1_512 a = rotate_right64 a 14 XOR rotate_right64 a 18 XOR rotate_right64 a 41"

definition bool3ary_202_512 :: "u64 \<Rightarrow> u64 \<Rightarrow> u64 \<Rightarrow> u64" where
  "bool3ary_202_512 a b c = c XOR (a AND (b XOR c))"

definition bool3ary_232_512 :: "u64 \<Rightarrow> u64 \<Rightarrow> u64 \<Rightarrow> u64" where
  "bool3ary_232_512 a b c = (a AND b) XOR (a AND c) XOR (b AND c)"

fun sha512_digest_round :: "u64x2 \<Rightarrow> u64x2 \<Rightarrow> u64x2 \<Rightarrow> u64x2 \<Rightarrow> u64 \<Rightarrow> u64x2" where
  "sha512_digest_round (a0, e0) (b0, f0) (c0, g0) (d0, h0) wk0 =
     (let x0 = big_sigma1_512 e0 + bool3ary_202_512 e0 f0 g0 + wk0 + h0;
          y0 = big_sigma0_512 a0 + bool3ary_232_512 a0 b0 c0;
          (a1, _, _, _, e1, _, _, _) = (x0 + y0, a0, b0, c0, x0 + d0, e0, f0, g0)
      in (a1, e1))"

text \<open>The macro \<open>schedule!\<close>, and the macro \<open>rounds4!\<close>, which assigns the four pairs.\<close>

definition schedule512 :: "u64x2 \<Rightarrow> u64x2 \<Rightarrow> u64x2 \<Rightarrow> u64x2 \<Rightarrow> u64x2 \<Rightarrow> u64x2" where
  "schedule512 v0 v1 v4 v5 v7 = sha512_schedule_x2 v0 v1 (sha512load v4 v5) v7"

definition rounds4_512 ::
    "u64x2 \<Rightarrow> u64x2 \<Rightarrow> u64x2 \<Rightarrow> u64x2 \<Rightarrow> u64x2 \<Rightarrow> u64x2 \<Rightarrow> u64x2 \<times> u64x2 \<times> u64x2 \<times> u64x2" where
  "rounds4_512 ae bf cg dh wk0 wk1 =
     (let (u, t) = wk0;
          (w, v) = wk1;
          dh = sha512_digest_round ae bf cg dh t;
          cg = sha512_digest_round dh ae bf cg u;
          bf = sha512_digest_round cg dh ae bf v;
          ae = sha512_digest_round bf cg dh ae w
      in (ae, bf, cg, dh))"

definition sha512_digest_block_u64 :: "State512 \<Rightarrow> u64 list \<Rightarrow> State512" where
  "sha512_digest_block_u64 state block =
     (let (s0, s1, s2, s3, s4, s5, s6, s7) = state;
         ae = (s0, s4);
         bf = (s1, s5);
         cg = (s2, s6);
         dh = (s3, s7);
         (w1, w0) = ((block ! 3, block ! 2), (block ! 1, block ! 0));
         (ae, bf, cg, dh) = rounds4_512 ae bf cg dh (add_x2 (K64X2 ! 0) w0) (add_x2 (K64X2 ! 1) w1);
         (w3, w2) = ((block ! 7, block ! 6), (block ! 5, block ! 4));
         (ae, bf, cg, dh) = rounds4_512 ae bf cg dh (add_x2 (K64X2 ! 2) w2) (add_x2 (K64X2 ! 3) w3);
         (w5, w4) = ((block ! 11, block ! 10), (block ! 9, block ! 8));
         (ae, bf, cg, dh) = rounds4_512 ae bf cg dh (add_x2 (K64X2 ! 4) w4) (add_x2 (K64X2 ! 5) w5);
         (w7, w6) = ((block ! 15, block ! 14), (block ! 13, block ! 12));
         (ae, bf, cg, dh) = rounds4_512 ae bf cg dh (add_x2 (K64X2 ! 6) w6) (add_x2 (K64X2 ! 7) w7);
         w8 = schedule512 w0 w1 w4 w5 w7;
         w9 = schedule512 w1 w2 w5 w6 w8;
         (ae, bf, cg, dh) = rounds4_512 ae bf cg dh (add_x2 (K64X2 ! 8) w8) (add_x2 (K64X2 ! 9) w9);
         w0 = schedule512 w2 w3 w6 w7 w9;
         w1 = schedule512 w3 w4 w7 w8 w0;
         (ae, bf, cg, dh) = rounds4_512 ae bf cg dh (add_x2 (K64X2 ! 10) w0) (add_x2 (K64X2 ! 11) w1);
         w2 = schedule512 w4 w5 w8 w9 w1;
         w3 = schedule512 w5 w6 w9 w0 w2;
         (ae, bf, cg, dh) = rounds4_512 ae bf cg dh (add_x2 (K64X2 ! 12) w2) (add_x2 (K64X2 ! 13) w3);
         w4 = schedule512 w6 w7 w0 w1 w3;
         w5 = schedule512 w7 w8 w1 w2 w4;
         (ae, bf, cg, dh) = rounds4_512 ae bf cg dh (add_x2 (K64X2 ! 14) w4) (add_x2 (K64X2 ! 15) w5);
         w6 = schedule512 w8 w9 w2 w3 w5;
         w7 = schedule512 w9 w0 w3 w4 w6;
         (ae, bf, cg, dh) = rounds4_512 ae bf cg dh (add_x2 (K64X2 ! 16) w6) (add_x2 (K64X2 ! 17) w7);
         w8 = schedule512 w0 w1 w4 w5 w7;
         w9 = schedule512 w1 w2 w5 w6 w8;
         (ae, bf, cg, dh) = rounds4_512 ae bf cg dh (add_x2 (K64X2 ! 18) w8) (add_x2 (K64X2 ! 19) w9);
         w0 = schedule512 w2 w3 w6 w7 w9;
         w1 = schedule512 w3 w4 w7 w8 w0;
         (ae, bf, cg, dh) = rounds4_512 ae bf cg dh (add_x2 (K64X2 ! 20) w0) (add_x2 (K64X2 ! 21) w1);
         w2 = schedule512 w4 w5 w8 w9 w1;
         w3 = schedule512 w5 w6 w9 w0 w2;
         (ae, bf, cg, dh) = rounds4_512 ae bf cg dh (add_x2 (K64X2 ! 22) w2) (add_x2 (K64X2 ! 23) w3);
         w4 = schedule512 w6 w7 w0 w1 w3;
         w5 = schedule512 w7 w8 w1 w2 w4;
         (ae, bf, cg, dh) = rounds4_512 ae bf cg dh (add_x2 (K64X2 ! 24) w4) (add_x2 (K64X2 ! 25) w5);
         w6 = schedule512 w8 w9 w2 w3 w5;
         w7 = schedule512 w9 w0 w3 w4 w6;
         (ae, bf, cg, dh) = rounds4_512 ae bf cg dh (add_x2 (K64X2 ! 26) w6) (add_x2 (K64X2 ! 27) w7);
         w8 = schedule512 w0 w1 w4 w5 w7;
         w9 = schedule512 w1 w2 w5 w6 w8;
         (ae, bf, cg, dh) = rounds4_512 ae bf cg dh (add_x2 (K64X2 ! 28) w8) (add_x2 (K64X2 ! 29) w9);
         w0 = schedule512 w2 w3 w6 w7 w9;
         w1 = schedule512 w3 w4 w7 w8 w0;
         (ae, bf, cg, dh) = rounds4_512 ae bf cg dh (add_x2 (K64X2 ! 30) w0) (add_x2 (K64X2 ! 31) w1);
         w2 = schedule512 w4 w5 w8 w9 w1;
         w3 = schedule512 w5 w6 w9 w0 w2;
         (ae, bf, cg, dh) = rounds4_512 ae bf cg dh (add_x2 (K64X2 ! 32) w2) (add_x2 (K64X2 ! 33) w3);
         w4 = schedule512 w6 w7 w0 w1 w3;
         w5 = schedule512 w7 w8 w1 w2 w4;
         (ae, bf, cg, dh) = rounds4_512 ae bf cg dh (add_x2 (K64X2 ! 34) w4) (add_x2 (K64X2 ! 35) w5);
         w6 = schedule512 w8 w9 w2 w3 w5;
         w7 = schedule512 w9 w0 w3 w4 w6;
         (ae, bf, cg, dh) = rounds4_512 ae bf cg dh (add_x2 (K64X2 ! 36) w6) (add_x2 (K64X2 ! 37) w7);
         w8 = schedule512 w0 w1 w4 w5 w7;
         w9 = schedule512 w1 w2 w5 w6 w8;
         (ae, bf, cg, dh) = rounds4_512 ae bf cg dh (add_x2 (K64X2 ! 38) w8) (add_x2 (K64X2 ! 39) w9);
         (a, e) = ae;
         (b, f) = bf;
         (c, g) = cg;
         (d, h) = dh
      in (s0 + a, s1 + b, s2 + c, s3 + d, s4 + e, s5 + f, s6 + g, s7 + h))"

definition soft_compress512 :: "State512 \<Rightarrow> bytes list \<Rightarrow> State512" where
  "soft_compress512 state blocks =
     foldl (\<lambda>state_cpy block. sha512_digest_block_u64 state_cpy (map u64_from_be_bytes (chunks_exact 8 block)))
       state blocks"

subsection \<open>The compact form (soft\_compact.rs)\<close>

definition to_u64s :: "bytes \<Rightarrow> u64 list" where
  "to_u64s block = map (\<lambda>i. u64_from_be_bytes (take 8 (drop (8 * i) block))) [0..<16]"

definition schedule_step512 :: "u64 list \<Rightarrow> nat \<Rightarrow> u64 list" where
  "schedule_step512 w i =
     (let w15 = w ! (i - 15);
          s0 = rotate_right64 w15 1 XOR rotate_right64 w15 8 XOR drop_bit 7 w15;
          w2 = w ! (i - 2);
          s1 = rotate_right64 w2 19 XOR rotate_right64 w2 61 XOR drop_bit 6 w2
      in w[i := w ! (i - 16) + s0 + w ! (i - 7) + s1])"

definition message_schedule512 :: "u64 list \<Rightarrow> u64 list" where
  "message_schedule512 block = foldl schedule_step512 (block @ replicate 64 0) [16..<80]"

fun round_step512 :: "u64 list \<Rightarrow> State512 \<Rightarrow> nat \<Rightarrow> State512" where
  "round_step512 w (a, b, c, d, e, f, g, h) i =
     (let s1 = rotate_right64 e 14 XOR rotate_right64 e 18 XOR rotate_right64 e 41;
          ch = (e AND f) XOR (NOT e AND g);
          t1 = s1 + ch + K64 ! i + w ! i + h;
          s0 = rotate_right64 a 28 XOR rotate_right64 a 34 XOR rotate_right64 a 39;
          maj = (a AND b) XOR (a AND c) XOR (b AND c);
          t2 = s0 + maj
      in (t1 + t2, a, b, c, d + t1, e, f, g))"

fun add_state512 :: "State512 \<Rightarrow> State512 \<Rightarrow> State512" where
  "add_state512 (s0, s1, s2, s3, s4, s5, s6, s7) (a, b, c, d, e, f, g, h) =
     (s0 + a, s1 + b, s2 + c, s3 + d, s4 + e, s5 + f, s6 + g, s7 + h)"

definition compress_u64 :: "State512 \<Rightarrow> u64 list \<Rightarrow> State512" where
  "compress_u64 state block =
     (let w = message_schedule512 block in add_state512 state (foldl (round_step512 w) state [0..<80]))"

definition compact_compress512 :: "State512 \<Rightarrow> bytes list \<Rightarrow> State512" where
  "compact_compress512 state blocks = foldl (\<lambda>state block. compress_u64 state (to_u64s block)) state blocks"

subsection \<open>Reference: FIPS 180-4, section 6.4\<close>

definition sigma0_512 :: "u64 \<Rightarrow> u64" where
  "sigma0_512 x = rotate_right64 x 1 XOR rotate_right64 x 8 XOR drop_bit 7 x"

definition sigma1_512 :: "u64 \<Rightarrow> u64" where
  "sigma1_512 x = rotate_right64 x 19 XOR rotate_right64 x 61 XOR drop_bit 6 x"

function W512 :: "u64 list \<Rightarrow> nat \<Rightarrow> u64" where
  "W512 M t = (if t < 16 then M ! t
      else sigma1_512 (W512 M (t - 2)) + W512 M (t - 7) + sigma0_512 (W512 M (t - 15)) + W512 M (t - 16))"
  by pat_completeness auto
termination by (relation "measure snd") auto

declare W512.simps [simp del]

lemma W512_block: "t < 16 \<Longrightarrow> W512 M t = M ! t"
  by (simp add: W512.simps)

lemma W512_step:
  "16 \<le> t \<Longrightarrow> W512 M t = sigma1_512 (W512 M (t - 2)) + W512 M (t - 7) + sigma0_512 (W512 M (t - 15)) + W512 M (t - 16)"
  by (subst W512.simps) simp

fun fips512_round :: "u64 \<Rightarrow> u64 \<Rightarrow> State512 \<Rightarrow> State512" where
  "fips512_round k w (a, b, c, d, e, f, g, h) =
     (let T1 = h + big_sigma1_512 e + ((e AND f) XOR (NOT e AND g)) + k + w;
          T2 = big_sigma0_512 a + bool3ary_232_512 a b c
      in (T1 + T2, a, b, c, d + T1, e, f, g))"

definition fips512_rounds :: "u64 list \<Rightarrow> State512 \<Rightarrow> nat \<Rightarrow> nat \<Rightarrow> State512" where
  "fips512_rounds M st i j = foldl (\<lambda>st t. fips512_round (K64 ! t) (W512 M t) st) st [i..<j]"

definition fips512_block :: "State512 \<Rightarrow> u64 list \<Rightarrow> State512" where
  "fips512_block H M = add_state512 H (fips512_rounds M H 0 80)"

lemma fips512_rounds_split:
  "i \<le> j \<Longrightarrow> j \<le> k \<Longrightarrow> fips512_rounds M (fips512_rounds M st i j) j k = fips512_rounds M st i k"
  using upt_add_eq_append [of i j "k - j"] by (simp add: fips512_rounds_def)

text \<open>The four pairs in which the paired form keeps a state.\<close>

fun ae_of :: "State512 \<Rightarrow> u64x2" where
  "ae_of (a, b, c, d, e, f, g, h) = (a, e)"

fun bf_of :: "State512 \<Rightarrow> u64x2" where
  "bf_of (a, b, c, d, e, f, g, h) = (b, f)"

fun cg_of :: "State512 \<Rightarrow> u64x2" where
  "cg_of (a, b, c, d, e, f, g, h) = (c, g)"

fun dh_of :: "State512 \<Rightarrow> u64x2" where
  "dh_of (a, b, c, d, e, f, g, h) = (d, h)"

subsection \<open>The compact form is the standard's\<close>

lemma compact_schedule512:
  assumes "length M = 16" "16 \<le> n" "n \<le> 80"
  shows "length (foldl schedule_step512 (M @ replicate 64 0) [16..<n]) = 80
     \<and> (\<forall>t<n. foldl schedule_step512 (M @ replicate 64 0) [16..<n] ! t = W512 M t)"
  using assms(2,3)
proof (induction n rule: dec_induct)
  case base
  then show ?case using assms(1) by (simp add: nth_append W512_block)
next
  case (step n)
  define w where "w = foldl schedule_step512 (M @ replicate 64 0) [16..<n]"
  have w: "length w = 80" "\<And>t. t < n \<Longrightarrow> w ! t = W512 M t" using step by (simp_all add: w_def)
  have "foldl schedule_step512 (M @ replicate 64 0) [16..<Suc n] = schedule_step512 w n"
    using step.hyps by (simp add: w_def)
  moreover have "schedule_step512 w n = w[n := W512 M n]"
    using step.hyps w by (simp add: schedule_step512_def Let_def W512_step [of n] sigma0_512_def sigma1_512_def ac_simps)
  ultimately show ?case using w step.prems by (auto simp: nth_list_update less_Suc_eq)
qed

lemma message_schedule_W512: "length M = 16 \<Longrightarrow> t < 80 \<Longrightarrow> message_schedule512 M ! t = W512 M t"
  using compact_schedule512 [of M 80] by (simp add: message_schedule512_def)

lemma round_step512_fips: "round_step512 w st i = fips512_round (K64 ! i) (w ! i) st"
  by (cases st rule: ae_of.cases)
    (simp add: Let_def big_sigma0_512_def big_sigma1_512_def bool3ary_232_512_def ac_simps)

lemma compress_u64_fips: "length M = 16 \<Longrightarrow> compress_u64 st M = fips512_block st M"
  by (auto simp: compress_u64_def fips512_block_def fips512_rounds_def Let_def round_step512_fips message_schedule_W512
      intro!: foldl_cong arg_cong [where f = "add_state512 st"])

subsection \<open>The paired form is the standard's\<close>

lemma rotate_right64_shifts:
  assumes "0 < n" "n < 64"
  shows "push_bit (64 - n) x OR drop_bit n x = rotate_right64 x n"
proof (rule bit_word_eqI)
  fix m assume "m < LENGTH(64)"
  then show "bit (push_bit (64 - n) x OR drop_bit n x) m = bit (rotate_right64 x n) m"
    using assms bit_imp_le_length [of x "n + m"] le_mod_geq [of 64 "m + n"]
    by (cases "m + n < 64")
      (auto simp: bit_word_rotr_iff bit_or_iff bit_drop_bit_eq bit_push_bit_iff add.commute)
qed

lemma soft_sigmas: "soft_sigma0_512 x = sigma0_512 x" "soft_sigma1_512 x = sigma1_512 x"
  using rotate_right64_shifts [of 1 x] rotate_right64_shifts [of 8 x] rotate_right64_shifts [of 19 x] rotate_right64_shifts [of 61 x]
  by (simp_all add: soft_sigma0_512_def soft_sigma1_512_def sigma0_512_def sigma1_512_def)

lemma bool3ary_202_512_choose: "bool3ary_202_512 a b c = (a AND b) XOR (NOT a AND c)"
  unfolding bool3ary_202_512_def by (rule bit_word_eqI) (auto simp: bit_simps)

text \<open>The pairs: schedule words \<open>2 i\<close> and \<open>2 i + 1\<close>, last first.\<close>

definition pair_of :: "u64 list \<Rightarrow> nat \<Rightarrow> u64x2" where
  "pair_of M i = (W512 M (2 * i + 1), W512 M (2 * i))"

lemma schedule512_pairs:
  "schedule512 (pair_of M i) (pair_of M (i + 1)) (pair_of M (i + 4)) (pair_of M (i + 5)) (pair_of M (i + 7))
     = pair_of M (i + 8)"
proof -
  have W: "s = t + 16 \<Longrightarrow> t1 = t + 1 \<Longrightarrow> t9 = t + 9 \<Longrightarrow> t14 = t + 14 \<Longrightarrow>
      W512 M s = sigma1_512 (W512 M t14) + W512 M t9 + sigma0_512 (W512 M t1) + W512 M t" for s t t1 t9 t14
    using W512_step [of "t + 16" M] by (simp add: add.commute)
  have "W512 M (2 * i + 16) = sigma1_512 (W512 M (2 * i + 14)) + W512 M (2 * i + 9) + sigma0_512 (W512 M (2 * i + 1)) + W512 M (2 * i)"
    "W512 M (2 * i + 17) = sigma1_512 (W512 M (2 * i + 15)) + W512 M (2 * i + 10) + sigma0_512 (W512 M (2 * i + 2)) + W512 M (2 * i + 1)"
    by (rule W; simp)+
  moreover have "pair_of M (i + j) = (W512 M (2 * i + (2 * j + 1)), W512 M (2 * i + 2 * j))" for j
    by (simp add: pair_of_def add_mult_distrib2 add.assoc)
  from this [of 0] this [of 1] this [of 4] this [of 5] this [of 7] this [of 8] calculation show ?thesis
    by (simp add: schedule512_def soft_sigmas)
qed

lemma digest_round512:
  assumes "st' = fips512_round k w st"
  shows "sha512_digest_round (ae_of st) (bf_of st) (cg_of st) (dh_of st) (k + w) = ae_of st'"
    and "bf_of st' = ae_of st" "cg_of st' = bf_of st" "dh_of st' = cg_of st"
  using assms by (cases st rule: ae_of.cases; simp add: Let_def bool3ary_202_512_choose ac_simps)+

lemma K64X2_pairs:
  assumes "i < 40"
  shows "K64X2 ! i = (K64 ! (2 * i + 1), K64 ! (2 * i))"
proof -
  have "list_all (\<lambda>i. K64X2 ! i = (K64 ! (2 * i + 1), K64 ! (2 * i))) [0..<40]"
    by code_simp
  with assms show ?thesis by (auto simp: list_all_iff)
qed

text \<open>The registers after four rounds: each of the four pairs is back in its role.\<close>

definition quarters :: "State512 \<Rightarrow> u64x2 \<times> u64x2 \<times> u64x2 \<times> u64x2" where
  "quarters st = (ae_of st, bf_of st, cg_of st, dh_of st)"

lemma rounds4_512_fips:
  assumes "j < 20"
  shows "rounds4_512 (ae_of st) (bf_of st) (cg_of st) (dh_of st)
      (add_x2 (K64X2 ! (2 * j)) (pair_of M (2 * j))) (add_x2 (K64X2 ! (2 * j + 1)) (pair_of M (2 * j + 1)))
     = quarters (fips512_rounds M st (4 * j) (4 * j + 4))"
proof -
  let ?r = "\<lambda>t st. fips512_round (K64 ! t) (W512 M t) st"
  define s1 s2 s3 s4 where "s1 = ?r (4 * j) st" and "s2 = ?r (4 * j + 1) s1" and "s3 = ?r (4 * j + 2) s2" and "s4 = ?r (4 * j + 3) s3"
  have k: "K64X2 ! (2 * j) = (K64 ! (4 * j + 1), K64 ! (4 * j))" "K64X2 ! (2 * j + 1) = (K64 ! (4 * j + 3), K64 ! (4 * j + 2))"
    using K64X2_pairs [of "2 * j"] K64X2_pairs [of "2 * j + 1"] assms by (simp_all add: numeral_3_eq_3)
  have w: "pair_of M (2 * j) = (W512 M (4 * j + 1), W512 M (4 * j))" "pair_of M (2 * j + 1) = (W512 M (4 * j + 3), W512 M (4 * j + 2))"
    by (simp_all add: pair_of_def numeral_3_eq_3)
  note n1 = digest_round512 [OF s1_def] and n2 = digest_round512 [OF s2_def] and n3 = digest_round512 [OF s3_def]
    and n4 = digest_round512 [OF s4_def]
  note r = n1(1) n2(1) [unfolded n1] n3(1) [unfolded n2, unfolded n1] n4(1) [unfolded n3, unfolded n2, unfolded n1]
  have "fips512_rounds M st (4 * j) (4 * j + 4) = s4"
    by (simp add: fips512_rounds_def upt_rec numeral_eq_Suc s1_def s2_def s3_def s4_def)
  then show ?thesis
    unfolding rounds4_512_def k w add_x2.simps Let_def prod.case quarters_def r by (simp add: n4 n3 n2)
qed

lemma sha512_digest_block_fips:
  assumes "length M = 16"
  shows "sha512_digest_block_u64 st M = fips512_block st M"
proof -
  define R where "R j = fips512_rounds M st 0 (4 * j)" for j
  have w: "(M ! 3, M ! 2) = pair_of M 1" "(M ! 1, M ! 0) = pair_of M 0" "(M ! 7, M ! 6) = pair_of M 3" "(M ! 5, M ! 4) = pair_of M 2"
    "(M ! 11, M ! 10) = pair_of M 5" "(M ! 9, M ! 8) = pair_of M 4" "(M ! 15, M ! 14) = pair_of M 7" "(M ! 13, M ! 12) = pair_of M 6"
    by (simp_all add: pair_of_def W512_block)
  have r: "rounds4_512 (ae_of (R j)) (bf_of (R j)) (cg_of (R j)) (dh_of (R j))
      (add_x2 (K64X2 ! i) (pair_of M i)) (add_x2 (K64X2 ! i') (pair_of M i'))
     = (ae_of (R (j + 1)), bf_of (R (j + 1)), cg_of (R (j + 1)), dh_of (R (j + 1)))" if "j < 20" "i = 2 * j" "i' = i + 1" for j i i'
    using that rounds4_512_fips [OF that(1), of "R j" M] fips512_rounds_split [of 0 "4 * j" "4 * j + 4" M st]
    by (simp add: R_def quarters_def add.commute)
  have s: "schedule512 (pair_of M i) (pair_of M i1) (pair_of M i4) (pair_of M i5) (pair_of M i7) = pair_of M (i + 8)"
    if "i1 = i + 1" "i4 = i + 4" "i5 = i + 5" "i7 = i + 7" for i i1 i4 i5 i7
    using schedule512_pairs [of M i] that by simp
  obtain s0 s1 s2 s3 s4 s5 s6 s7 where st: "st = (s0, s1, s2, s3, s4, s5, s6, s7)"
    by (cases st rule: ae_of.cases)
  have i: "(s0, s4) = ae_of (R 0)" "(s1, s5) = bf_of (R 0)" "(s2, s6) = cg_of (R 0)" "(s3, s7) = dh_of (R 0)"
    by (simp_all add: R_def fips512_rounds_def st)
  obtain a b c d e f g h where e: "R 20 = (a, b, c, d, e, f, g, h)" by (cases "R 20" rule: ae_of.cases)
  have "sha512_digest_block_u64 st M = add_state512 st (R 20)"
    unfolding st sha512_digest_block_u64_def w
    by (simp only: r s e i Let_def prod.case add_state512.simps ae_of.simps bf_of.simps cg_of.simps dh_of.simps simp_thms
        arith_simps rel_simps arith_extra_simps mult_1_right mult_zero_right add_0 add_numeral_special numeral_plus_one
        one_plus_numeral one_add_one semiring_norm cong: let_weak_cong prod.case_cong_weak)
  then show ?thesis by (simp add: fips512_block_def R_def)
qed

lemma to_u64s_chunks: "length block = 128 \<Longrightarrow> map u64_from_be_bytes (chunks_exact 8 block) = to_u64s block"
  by (simp add: chunks_exact_blocks_of blocks_of_def to_u64s_def)

lemma length_to_u64s [simp]: "length (to_u64s block) = 16"
  by (simp add: to_u64s_def)

definition fips512_hash :: "State512 \<Rightarrow> bytes list \<Rightarrow> State512" where
  "fips512_hash = foldl (\<lambda>H block. fips512_block H (to_u64s block))"

lemma soft_compress512_fips: "list_all (\<lambda>b. length b = 128) blocks \<Longrightarrow> soft_compress512 st blocks = fips512_hash st blocks"
  unfolding soft_compress512_def fips512_hash_def
  by (induction blocks arbitrary: st) (simp_all add: to_u64s_chunks sha512_digest_block_fips)

lemma compact_compress512_fips: "compact_compress512 st blocks = fips512_hash st blocks"
  by (simp add: compact_compress512_def fips512_hash_def compress_u64_fips)

text \<open>The two portable forms agree on every list of 128-byte blocks.\<close>

theorem compress512_equiv:
  assumes "list_all (\<lambda>b. length b = 128) blocks"
  shows "soft_compress512 state blocks = compact_compress512 state blocks"
  using assms by (simp add: soft_compress512_fips compact_compress512_fips)

end
