(* ===== verification/Phi_Hasher512.thy ===== *)
theory Phi_Hasher512
  imports Phi_Core_Wrapper Phi_Sha512
begin

section \<open>The SHA-512 hasher (vendored sha2, digest)\<close>

text \<open>
  The hasher beneath HMAC-SHA-512: the 512-bit core of \<open>sha2\<close> (\<open>core_api.rs\<close>) with its \<open>u128\<close> block
  count, at the output size of 64 bytes, as a core in the sense of \<open>Phi_Core_Wrapper\<close>.
  \<open>compress512\<close> is the portable function of \<open>soft.rs\<close>.
\<close>

record Sha512VarCore =
  vd_state :: State512
  vd_block_len :: "128 word"

definition compress512 :: "State512 \<Rightarrow> bytes list \<Rightarrow> State512" where
  "compress512 state blocks = soft_compress512 state blocks"

definition vd_update_blocks :: "Sha512VarCore \<Rightarrow> bytes list \<Rightarrow> Sha512VarCore" where
  "vd_update_blocks core blocks =
     core\<lparr>vd_block_len := vd_block_len core + word_of_nat (length blocks),
          vd_state := compress512 (vd_state core) blocks\<rparr>"

definition vd_new :: "usize \<Rightarrow> (Sha512VarCore, invalid_output_size) result" where
  "vd_new output_size =
     bind_r (if output_size = 28 then Ok H512_224
             else if output_size = 32 then Ok H512_256
             else if output_size = 48 then Ok H512_384
             else if output_size = 64 then Ok H512_512
             else Err InvalidOutputSize) (\<lambda>state. Ok \<lparr>vd_state = state, vd_block_len = 0\<rparr>)"

fun state_words512 :: "State512 \<Rightarrow> u64 list" where
  "state_words512 (a, b, c, d, e, f, g, h) = [a, b, c, d, e, f, g, h]"

definition finalize_variable_core512 ::
    "Sha512VarCore \<Rightarrow> BlockBuffer \<Rightarrow> (Sha512VarCore \<times> BlockBuffer \<times> bytes, 'e) result" where
  "finalize_variable_core512 core buffer =
     bind_r (get_pos 128 buffer) (\<lambda>pos.
     let bs = 128;
         bit_len = 8 * (word_of_nat pos + bs * vd_block_len core) in
     bind_r (len128_padding_be 128 (\<lambda>state b. compress512 state [b]) bit_len buffer (vd_state core)) (\<lambda>(buffer, state).
     Ok (core\<lparr>vd_state := state\<rparr>, buffer, concat (map u64_to_be_bytes (state_words512 state)))))"

text \<open>\<open>CtVariableCoreWrapper<Sha512VarCore, U64>\<close>.\<close>

definition ct_default512 :: "usize \<Rightarrow> (Sha512VarCore, 'e) result" where
  "ct_default512 out_size = (case vd_new out_size of Ok inner \<Rightarrow> Ok inner | _ \<Rightarrow> Panic)"

definition finalize_fixed_core512 ::
    "usize \<Rightarrow> Sha512VarCore \<Rightarrow> BlockBuffer \<Rightarrow> (Sha512VarCore \<times> BlockBuffer \<times> bytes, 'e) result" where
  "finalize_fixed_core512 n core buffer =
     bind_r (finalize_variable_core512 core buffer) (\<lambda>(core, buffer, full_res).
     bind_r (index_range full_res 0 n) (\<lambda>out. Ok (core, buffer, out)))"

definition sha512_ops :: "(Sha512VarCore, 'e) hash_ops" where
  "sha512_ops =
    \<lparr>co_size = 128, co_out = 64, co_update_blocks = vd_update_blocks, co_finalize = finalize_fixed_core512 64,
     co_reset = (\<lambda>_. ct_default512 64), ho_default = ct_default512 64\<rparr>"

subsection \<open>Reference: the hash of FIPS 180-4\<close>

text \<open>The padded message (section 5.1.2): blocks of 128 bytes and a 128-bit length.\<close>

definition sha512_pad :: "bytes \<Rightarrow> bytes" where
  "sha512_pad m = m @ [0x80] @ replicate ((128 - (length m + 17) mod 128) mod 128) 0 @ be_bytes 16 (8 * length m)"

definition sha512 :: "bytes \<Rightarrow> bytes" where
  "sha512 m = concat (map u64_to_be_bytes (state_words512 (fips512_hash H512_512 (blocks_of 128 (sha512_pad m)))))"

lemma length_sha512 [simp, framing_simps]: "length (sha512 m) = 64"
  by (cases "fips512_hash H512_512 (blocks_of 128 (sha512_pad m))" rule: state_words512.cases) (simp add: sha512_def)

subsection \<open>The hasher computes the hash\<close>

interpretation state512: block_consumer 128 compress512
  by unfold_locales (simp_all add: compress512_def soft_compress512_def)

interpretation core512: block_consumer 128 vd_update_blocks
  by unfold_locales (simp_all add: vd_update_blocks_def state512.consume_Nil state512.consume_append)

abbreviation sha512_core :: Sha512VarCore where
  "sha512_core \<equiv> \<lparr>vd_state = H512_512, vd_block_len = 0\<rparr>"

lemma vd_update_blocks_sel:
  "vd_state (vd_update_blocks c bs) = compress512 (vd_state c) bs"
  "vd_block_len (vd_update_blocks c bs) = vd_block_len c + word_of_nat (length bs)"
  by (simp_all add: vd_update_blocks_def)

lemma finalize_fixed_core512_absorbed:
  assumes "core512.absorbed sha512_core m b0 c0"
  shows "\<exists>c b. finalize_fixed_core512 64 c0 b0 = (Ok (c, b, sha512 m) :: (_, 'e) result) \<and> core512.holds b []"
proof -
  let ?field = "be_bytes 16 (8 * length m)" and ?blocks = "blocks_of 128 (sha512_pad m)"
  obtain F r where F: "m = F @ r" "128 dvd length F" "core512.holds b0 r" "c0 = vd_update_blocks sha512_core (blocks_of 128 F)"
    using assms by (auto simp: core512.absorbed_def)
  then have s: "state512.absorbed H512_512 m b0 (vd_state c0)"
    unfolding state512.absorbed_def by (auto simp: vd_update_blocks_sel)
  have field: "be_bytes 16 (unat (8 * (word_of_nat (length r) + 128 * vd_block_len c0))) = ?field"
    using bit_length_field [OF F(2), where 'w = 128 and n = 16 and p = "length r"] F(1,4) by (simp add: vd_update_blocks_sel)
  have pad: "m @ [0x80] @ replicate ((128 - (length m + 1 + length ?field) mod 128) mod 128) 0 @ ?field = sha512_pad m"
    by (simp add: sha512_pad_def add.commute)
  have "compress512 H512_512 ?blocks = fips512_hash H512_512 ?blocks"
    unfolding compress512_def by (rule soft_compress512_fips) (auto simp: list_all_iff blocks_of_lengths)
  then obtain b where b: "digest_pad 128 (\<lambda>s b. compress512 s [b]) 0x80 ?field b0 (vd_state c0)
      = (Ok (b, fips512_hash H512_512 ?blocks) :: (_, 'e) result)" "core512.holds b []"
    using state512.digest_pad_absorbed [OF s, where suffix = ?field and delim = "0x80"] pad by auto
  have "len128_padding_be 128 (\<lambda>s b. compress512 s [b]) (8 * (word_of_nat (length r) + 128 * vd_block_len c0))
      b0 (vd_state c0) = (Ok (b, fips512_hash H512_512 ?blocks) :: (_, 'e) result)"
    unfolding len128_padding_be_def field by (rule b(1))
  then show ?thesis
    using b(2) length_sha512 [of m]
    by (simp add: finalize_fixed_core512_def finalize_variable_core512_def core512.holds_pos [OF F(3)] index_range_def
        sha512_def)
qed

interpretation sha512h: hasher sha512_ops sha512_core sha512
proof unfold_locales
  fix m b c
  assume "block_consumer.absorbed (co_size sha512_ops) (co_update_blocks sha512_ops) sha512_core m b c"
  then show "\<exists>c' b'. co_finalize sha512_ops c b = Ok (c', b', sha512 m)
      \<and> block_consumer.holds (co_size sha512_ops) b' [] \<and> co_reset sha512_ops c' = Ok sha512_core"
    using finalize_fixed_core512_absorbed [of m b c] by (auto simp: sha512_ops_def ct_default512_def vd_new_def)
qed (simp_all add: sha512_ops_def ct_default512_def vd_new_def core512.consume_Nil core512.consume_append)

text \<open>The hasher is SHA-512 however its input is cut up.\<close>

theorem hasher_computes_sha512:
  "bind_r (cw_default sha512_ops) (\<lambda>h. bind_r (cw_updates sha512_ops xs h) (cw_finalize sha512_ops)) = Ok (sha512 (concat xs))"
  by (rule sha512h.default_stream)

end
