(* ===== verification/Phi_Pbkdf2.thy ===== *)
theory Phi_Pbkdf2
  imports Phi_Hmac Phi_Hasher512
begin

section \<open>PBKDF2 (vendored pbkdf2)\<close>

text \<open>
  Key stretching for recovery phrases: \<open>pbkdf2\<close> over any pseudorandom function of a keyed hasher,
  given by its core \<open>D\<close> and its \<open>new_from_slice\<close>, and \<open>pbkdf2_hmac\<close> over HMAC. The output slice is
  cut into chunks of the output size; each chunk starts at zero and takes the exclusive or of the
  iterates. The mismatch of lengths a debug build asserts against in \<open>xor\<close> is a panic here; the
  chunk number is a \<open>u32\<close> and wraps. The theorems are against RFC 8018.
\<close>

definition xor_into :: "bytes \<Rightarrow> bytes \<Rightarrow> (bytes, 'e) result" where
  "xor_into res salt =
     (if length salt < length res then Panic else Ok (map (\<lambda>(a, b). a XOR b) (zip res salt)))"

text \<open>\<open>for _ in 1..rounds\<close>, with the number of turns that are left.\<close>

primrec pbkdf2_rounds :: "('c, 'e, 'z) core_ops_scheme \<Rightarrow> 'c CoreWrapper \<Rightarrow> nat \<Rightarrow> bytes \<Rightarrow> bytes \<Rightarrow> (bytes, 'e) result" where
  "pbkdf2_rounds D prf 0 salt chunk = Ok chunk"
| "pbkdf2_rounds D prf (Suc n) salt chunk =
     bind_r (cw_update D salt prf) (\<lambda>prfc.
     bind_r (cw_finalize D prfc) (\<lambda>salt.
     bind_r (xor_into chunk salt) (\<lambda>chunk. pbkdf2_rounds D prf n salt chunk)))"

definition pbkdf2_body ::
    "('c, 'e, 'z) core_ops_scheme \<Rightarrow> u32 \<Rightarrow> bytes \<Rightarrow> 'c CoreWrapper \<Rightarrow> bytes \<Rightarrow> u32 \<Rightarrow> (bytes, 'e) result" where
  "pbkdf2_body D i chunk prf salt rounds =
     (let chunk = map (\<lambda>v. 0) chunk in
      bind_r (cw_update D salt prf) (\<lambda>prfc.
      bind_r (cw_update D (u32_to_be_bytes (i + 1)) prfc) (\<lambda>prfc.
      bind_r (cw_finalize D prfc) (\<lambda>salt.
      bind_r (xor_into chunk salt) (\<lambda>chunk.
      pbkdf2_rounds D prf (unat rounds - 1) salt chunk)))))"

text \<open>\<open>res.chunks_mut(n)\<close> (a chunk size of zero panics), and the loop over its enumeration.\<close>

function chunks :: "nat \<Rightarrow> 'a list \<Rightarrow> 'a list list" where
  "chunks n xs = (if n = 0 \<or> xs = [] then [] else take n xs # chunks n (drop n xs))"
  by pat_completeness auto
termination by (relation "measure (length \<circ> snd)") (auto simp: neq_Nil_conv)

declare chunks.simps [simp del]

primrec pbkdf2_chunks ::
    "('c, 'e, 'z) core_ops_scheme \<Rightarrow> 'c CoreWrapper \<Rightarrow> bytes \<Rightarrow> u32 \<Rightarrow> nat \<Rightarrow> bytes list \<Rightarrow> (bytes, 'e) result" where
  "pbkdf2_chunks D prf salt rounds i [] = Ok []"
| "pbkdf2_chunks D prf salt rounds i (chunk # cs) =
     bind_r (pbkdf2_body D (word_of_nat i) chunk prf salt rounds) (\<lambda>out.
     bind_r (pbkdf2_chunks D prf salt rounds (Suc i) cs) (\<lambda>rest. Ok (out @ rest)))"

definition pbkdf2 ::
    "('c, 'e, 'z) core_ops_scheme \<Rightarrow> (bytes \<Rightarrow> ('c CoreWrapper, 'e) result) \<Rightarrow> bytes \<Rightarrow> bytes \<Rightarrow> u32 \<Rightarrow> bytes \<Rightarrow> (bytes, 'e) result" where
  "pbkdf2 D new_from_slice password salt rounds res =
     (let n = co_out D in
      bind_r (new_from_slice password) (\<lambda>prf.
      if n = 0 then Panic else pbkdf2_chunks D prf salt rounds 0 (chunks n res)))"

definition pbkdf2_hmac :: "('c, 'e) hash_ops \<Rightarrow> bytes \<Rightarrow> bytes \<Rightarrow> u32 \<Rightarrow> bytes \<Rightarrow> (bytes, 'e) result" where
  "pbkdf2_hmac H password salt rounds res =
     (case pbkdf2 (hmac_ops H) (hmac_new_from_slice H) password salt rounds res of Ok out \<Rightarrow> Ok out | _ \<Rightarrow> Panic)"

subsection \<open>Reference: RFC 8018, section 5.2\<close>

text \<open>\<open>U_1 = PRF (P, S || INT (i))\<close>, \<open>U_{j+1} = PRF (P, U_j)\<close> (\<open>kdf_U .. j\<close> is \<open>U_{j+1}\<close>); block \<open>i\<close> is the
  exclusive or of the first \<open>c\<close> of them; the key is the first \<open>len\<close> bytes of the blocks.\<close>

primrec kdf_U :: "(bytes \<Rightarrow> bytes) \<Rightarrow> bytes \<Rightarrow> nat \<Rightarrow> nat \<Rightarrow> bytes" where
  "kdf_U prf S i 0 = prf (S @ be_bytes 4 i)"
| "kdf_U prf S i (Suc j) = prf (kdf_U prf S i j)"

definition xor_bytes :: "bytes \<Rightarrow> bytes \<Rightarrow> bytes" where
  "xor_bytes xs ys = map (\<lambda>(a, b). a XOR b) (zip xs ys)"

definition kdf_block :: "(bytes \<Rightarrow> bytes) \<Rightarrow> bytes \<Rightarrow> nat \<Rightarrow> nat \<Rightarrow> bytes" where
  "kdf_block prf S c i = foldl (\<lambda>T j. xor_bytes T (kdf_U prf S i j)) (kdf_U prf S i 0) [1..<c]"

definition kdf :: "(bytes \<Rightarrow> bytes) \<Rightarrow> nat \<Rightarrow> bytes \<Rightarrow> nat \<Rightarrow> nat \<Rightarrow> bytes" where
  "kdf prf hLen S c len = take len (concat (map (kdf_block prf S c) [1..<Suc ((len + hLen - 1) div hLen)]))"

subsection \<open>One chunk\<close>

lemma xor_bytes_take: "xor_bytes (take n xs) ys = take n (xor_bytes xs ys)"
  by (rule nth_equalityI) (simp_all add: xor_bytes_def)

lemma length_xor_bytes [simp]: "length (xor_bytes xs ys) = min (length xs) (length ys)"
  by (simp add: xor_bytes_def)

lemma xor_into_Ok: "length xs \<le> length ys \<Longrightarrow> xor_into xs ys = Ok (xor_bytes xs ys)"
  by (simp add: xor_into_def xor_bytes_def)

lemma xor_bytes_zero: "length xs \<le> length ys \<Longrightarrow> xor_bytes (map (\<lambda>v. 0) xs) ys = take (length xs) ys"
  by (rule nth_equalityI) (simp_all add: xor_bytes_def)

lemma length_kdf_U: "(\<And>m. length (prf m) = h) \<Longrightarrow> length (kdf_U prf S i j) = h"
  by (cases j) simp_all

lemma length_kdf_block:
  assumes "\<And>m. length (prf m) = h"
  shows "length (kdf_block prf S c i) = h"
proof -
  have "length (foldl (\<lambda>T j. xor_bytes T (kdf_U prf S i j)) T js) = h" if "length T = h" for T js
    using that by (induction js arbitrary: T) (simp_all add: length_kdf_U [OF assms])
  then show ?thesis by (simp only: kdf_block_def length_kdf_U [OF assms])
qed

text \<open>The blocks are enough for the length asked for.\<close>

lemma length_kdf:
  assumes "\<And>m. length (prf m) = h" "0 < h"
  shows "length (kdf prf h S c len) = len"
proof -
  have "length (concat (map (kdf_block prf S c) is)) = h * length is" for "is"
    by (induction "is") (simp_all add: length_kdf_block [OF assms(1)])
  moreover have "len \<le> h * ((len + h - 1) div h)"
    using mod_less_divisor [OF assms(2), of "len + h - 1"] unfolding minus_mod_eq_mult_div [symmetric] by linarith
  ultimately show ?thesis by (simp add: kdf_def del: upt_Suc)
qed

context hash_core
begin

lemmas length_U = length_kdf_U [of hash, OF out_length] and length_block = length_kdf_block [of hash, OF out_length]

text \<open>The loop from iterate \<open>k\<close> on, at a prefix of the block.\<close>

lemma pbkdf2_rounds_eq:
  assumes "absorbs [] prf" "n \<le> co_out D" "length T = co_out D"
  shows "pbkdf2_rounds D prf r (kdf_U hash S i k) (take n T)
     = Ok (take n (foldl (\<lambda>T j. xor_bytes T (kdf_U hash S i j)) T [Suc k..<Suc (k + r)]))"
  using assms(3)
proof (induction r arbitrary: k T)
  case (Suc r)
  have step: "bind_r (cw_update D (kdf_U hash S i k) prf) (cw_finalize D) = Ok (kdf_U hash S i (Suc k))"
    using stream_from [OF assms(1), of "[kdf_U hash S i k]"] by (simp add: bind_r_assoc)
  then obtain prfc where prfc: "cw_update D (kdf_U hash S i k) prf = Ok prfc" "cw_finalize D prfc = Ok (kdf_U hash S i (Suc k))"
    by (auto simp: bind_r_Ok_iff)
  have "length (xor_bytes T (kdf_U hash S i (Suc k))) = co_out D" by (simp only: length_xor_bytes length_U Suc.prems min.idem)
  from Suc.IH [OF this, of "Suc k"] show ?case
    using prfc assms(2) Suc.prems length_U [of S i "Suc k"]
    by (simp add: xor_into_Ok xor_bytes_take upt_conv_Cons del: upt_Suc kdf_U.simps)
qed simp

lemma pbkdf2_body_eq:
  assumes "absorbs [] prf" "length chunk \<le> co_out D"
  shows "pbkdf2_body D (word_of_nat i) chunk prf S rounds = Ok (take (length chunk) (kdf_block hash S (unat rounds) (Suc i)))"
proof -
  have field: "u32_to_be_bytes (word_of_nat i + 1) = be_bytes 4 (Suc i)"
  proof -
    have "(word_of_nat i + 1 :: u32) = word_of_nat (Suc i)" by simp
    then show ?thesis using be_bytes_mod [of 4 "Suc i"] by (simp only: u32_to_be_bytes_def unat_of_nat) simp
  qed
  obtain prfc prfd where u: "cw_update D S prf = Ok prfc" "cw_update D (be_bytes 4 (Suc i)) prfc = Ok prfd"
    "cw_finalize D prfd = Ok (kdf_U hash S (Suc i) 0)"
    using stream_from [OF assms(1), of "[S, be_bytes 4 (Suc i)]"] by (auto simp: bind_r_Ok_iff bind_r_assoc)
  have len: "length chunk \<le> length (kdf_U hash S (Suc i) 0)" using assms(2) length_U [of S "Suc i" 0] by simp
  have "[Suc 0..<Suc (unat rounds - 1)] = [1..<unat rounds]" by (cases "unat rounds") simp_all
  with pbkdf2_rounds_eq [OF assms length_U, of "unat rounds - 1" S "Suc i" 0] u len show ?thesis
    by (simp add: pbkdf2_body_def Let_def field xor_into_Ok xor_bytes_zero kdf_block_def del: kdf_U.simps)
qed

lemma pbkdf2_chunks_eq:
  assumes "absorbs [] prf" "0 < co_out D"
  shows "pbkdf2_chunks D prf S rounds i (chunks (co_out D) res) =
     Ok (take (length res) (concat (map (kdf_block hash S (unat rounds)) [Suc i..<Suc (i + (length res + co_out D - 1) div co_out D)])))"
proof (induction "co_out D" res arbitrary: i rule: chunks.induct)
  case (1 xs)
  let ?n = "co_out D" and ?T = "kdf_block hash S (unat rounds)"
  show ?case
  proof (cases "xs = []")
    case True
    then show ?thesis using assms(2) by (simp add: chunks.simps)
  next
    case False
    have count: "(length xs + ?n - 1) div ?n = Suc ((length (drop ?n xs) + ?n - 1) div ?n)"
    proof (cases "length xs \<le> ?n")
      case True
      then have "(length xs + ?n - 1) div ?n = 1" using False assms(2) by (intro div_nat_eqI) (cases xs; simp)+
      moreover have "(?n - 1) div ?n = 0" using assms(2) by simp
      ultimately show ?thesis using True by simp
    next
      case F: False
      have "(length xs + ?n - 1) div ?n = Suc ((length xs - 1) div ?n)" using assms(2) F le_div_geq [of ?n "length xs + ?n - 1"] by simp
      then show ?thesis using F by simp
    qed
    have "pbkdf2_body D (word_of_nat i) (take ?n xs) prf S rounds = Ok (take (length xs) (?T (Suc i)))"
      using pbkdf2_body_eq [OF assms(1), of "take ?n xs" i S rounds] length_block [of S "unat rounds" "Suc i"]
      by (simp add: min_def)
    then show ?thesis
      using 1 [of "Suc i"] False assms(2) unfolding count
      by (simp add: chunks.simps [of _ xs] upt_conv_Cons length_block del: upt_Suc)
  qed
qed

lemma pbkdf2_eq:
  assumes "new password = Ok prf" "absorbs [] prf" "0 < co_out D"
  shows "pbkdf2 D new password S rounds res = Ok (kdf hash (co_out D) S (unat rounds) (length res))"
  using pbkdf2_chunks_eq [OF assms(2,3), of S rounds 0 res] assms(1,3) by (simp add: pbkdf2_def kdf_def Let_def del: upt_Suc)

end

context keyed_hash
begin

lemma pbkdf2_hmac_eq:
  assumes "0 < co_out H"
  shows "pbkdf2_hmac H key S rounds res = Ok (kdf (hmac hash (co_size H) key) (co_out H) S (unat rounds) (length res))"
proof -
  from new_absorbs obtain w where "hmac_new_from_slice H key = Ok w" "mac.absorbs [] w" by blast
  from mac.pbkdf2_eq [of "hmac_new_from_slice H" key, OF this] assms show ?thesis by (simp add: pbkdf2_hmac_def hmac_ops_def)
qed

end

subsection \<open>HMAC-SHA-512 and PBKDF2-HMAC-SHA-512\<close>

interpretation sha512_mac: keyed_hash sha512_ops sha512_core sha512 key for key
  by unfold_locales (simp add: sha512_ops_def)

lemma sha512_sizes [simp]: "co_size sha512_ops = 128" "co_out sha512_ops = 64"
  by (simp_all add: sha512_ops_def)

lemmas hmac_sha512_stream = sha512_mac.hmac_stream [unfolded sha512_sizes]

lemma length_hmac_sha512 [simp]: "length (hmac sha512 128 key m) = 64"
  by (simp add: hmac_def Let_def)

lemma pbkdf2_sha512_eq:
  "pbkdf2_hmac sha512_ops password S rounds res = Ok (kdf (hmac sha512 128 password) 64 S (unat rounds) (length res))"
  using sha512_mac.pbkdf2_hmac_eq [of password S rounds res] by simp

text \<open>C15: the key stretching of recovery phrases is PBKDF2-HMAC-SHA-512 of RFC 8018. For every password
  and salt, every number of rounds and every output length, \<open>pbkdf2_hmac\<close> returns, without a panic,
  the first bytes of the blocks of the standard over HMAC of RFC 2104 over SHA-512 of FIPS 180-4
  (no rounds count as one round); keys longer than a block are hashed first. And an HMAC object
  computes RFC 2104's function of the concatenation of its updates.\<close>

theorem recovery_kdf_standard:
  "pbkdf2_hmac sha512_ops password salt rounds res = Ok (kdf (hmac sha512 128 password) 64 salt (unat rounds) (length res))
   \<and> length (kdf (hmac sha512 128 password) 64 salt (unat rounds) (length res)) = length res
   \<and> bind_r (hmac_new_from_slice sha512_ops key) (\<lambda>w. bind_r (cw_updates (hmac_ops sha512_ops) xs w) (cw_finalize (hmac_ops sha512_ops)))
     = Ok (hmac sha512 128 key (concat xs))"
  by (simp add: pbkdf2_sha512_eq hmac_sha512_stream length_kdf)

end
