(* ===== verification/Phi_Bip32.thy ===== *)
theory Phi_Bip32
  imports Phi_Bip39 Phi_Text Phi_Pbkdf2
begin

section \<open>Derivation paths and extended keys (vendored bip32)\<close>

text \<open>
  Child numbers and derivation paths with their textual forms (\<open>child_number.rs\<close>,
  \<open>derivation_path.rs\<close>), and the chain of extended private keys along a path
  (\<open>extended_key/private_key.rs\<close>, \<open>private_key.rs\<close>), with the HMAC-SHA-512 objects of \<open>Phi_Hmac\<close>. The
  operations of \<open>k256\<close> on keys are the parameter \<open>xprv_backend\<close>.
\<close>

subsection \<open>Decimal numbers\<close>

text \<open>\<open>u32::from_str\<close>: an optional plus sign, then at least one digit; overflow is an error. And the
  decimal form \<open>write!\<close> prints.\<close>

definition digit_value :: "byte \<Rightarrow> nat option" where
  "digit_value c = (if 0x30 \<le> c \<and> c \<le> 0x39 then Some (unat c - 0x30) else None)"

fun parse_digits :: "nat \<Rightarrow> str \<Rightarrow> nat option" where
  "parse_digits acc [] = Some acc"
| "parse_digits acc (c # cs) =
     (case digit_value c of
        None \<Rightarrow> None
      | Some d \<Rightarrow> if acc * 10 + d < 2 ^ 32 then parse_digits (acc * 10 + d) cs else None)"

definition u32_from_str :: "str \<Rightarrow> u32 option" where
  "u32_from_str s =
     (if s = [] then None
      else
        let digits = (if hd s = 0x2B then tl s else s) in
        if digits = [] then None else map_option word_of_nat (parse_digits 0 digits))"

fun decimal :: "nat \<Rightarrow> str" where
  "decimal n = (if n < 10 then [word_of_nat (0x30 + n)]
                else decimal (n div 10) @ [word_of_nat (0x30 + n mod 10)])"

declare decimal.simps [simp del]

subsection \<open>Child numbers (child\_number.rs)\<close>

datatype ChildNumber = ChildNumber (cn_value: u32)

definition HARDENED_FLAG :: u32 where
  "HARDENED_FLAG = push_bit 31 1"

definition child_number_new :: "u32 \<Rightarrow> bool \<Rightarrow> (ChildNumber, bip32_error) result" where
  "child_number_new i hardened =
     (if i \<ge> HARDENED_FLAG then Err BadChildNumber
      else if hardened then Ok (ChildNumber (i OR HARDENED_FLAG))
      else Ok (ChildNumber i))"

definition child_number_from_bytes :: "bytes \<Rightarrow> ChildNumber" where
  "child_number_from_bytes bs = ChildNumber (u32_from_be_bytes bs)"

definition child_number_to_bytes :: "ChildNumber \<Rightarrow> bytes" where
  "child_number_to_bytes n = u32_to_be_bytes (cn_value n)"

definition cn_index :: "ChildNumber \<Rightarrow> u32" where
  "cn_index n = cn_value n AND NOT HARDENED_FLAG"

definition is_hardened :: "ChildNumber \<Rightarrow> bool" where
  "is_hardened n \<longleftrightarrow> cn_value n AND HARDENED_FLAG \<noteq> 0"

definition child_number_display :: "ChildNumber \<Rightarrow> str" where
  "child_number_display n = decimal (unat (cn_index n)) @ (if is_hardened n then [0x27] else [])"

definition strip_suffix :: "byte \<Rightarrow> str \<Rightarrow> str option" where
  "strip_suffix c s = (if s \<noteq> [] \<and> last s = c then Some (butlast s) else None)"

definition child_number_from_str :: "str \<Rightarrow> (ChildNumber, bip32_error) result" where
  "child_number_from_str child =
     (let (child, hardened) =
        (case strip_suffix 0x27 child of
           Some c \<Rightarrow> (c, True)
         | None \<Rightarrow> (case strip_suffix 0x68 child of
             Some c \<Rightarrow> (c, True)
           | None \<Rightarrow> (child, False)))
      in bind_r (ok_or BadChildNumber (u32_from_str child)) (\<lambda>i. child_number_new i hardened))"

subsection \<open>Paths (derivation\_path.rs)\<close>

type_synonym DerivationPath = "ChildNumber list"

definition PREFIX :: str where
  "PREFIX = ascii ''m''"

definition path_parent :: "DerivationPath \<Rightarrow> DerivationPath option" where
  "path_parent path = (if path = [] then None else Some (take (length path - 1) path))"

definition path_push :: "DerivationPath \<Rightarrow> ChildNumber \<Rightarrow> DerivationPath" where
  "path_push path child_number = path @ [child_number]"

definition path_display :: "DerivationPath \<Rightarrow> str" where
  "path_display path = PREFIX @ concat (map (\<lambda>child_number. [0x2F] @ child_number_display child_number) path)"

primrec parse_children :: "str list \<Rightarrow> (ChildNumber list, bip32_error) result" where
  "parse_children [] = Ok []"
| "parse_children (s # ss) =
     bind_r (child_number_from_str s) (\<lambda>n. bind_r (parse_children ss) (\<lambda>ns. Ok (n # ns)))"

definition path_from_str :: "str \<Rightarrow> (DerivationPath, bip32_error) result" where
  "path_from_str path =
     (case split_on 0x2F path of
        [] \<Rightarrow> Err Decode
      | first # rest \<Rightarrow> if first \<noteq> PREFIX then Err Decode else parse_children rest)"

subsection \<open>Extended private keys\<close>

text \<open>The key operations are those of \<open>k256\<close>, the fingerprint is that of the key's public key.\<close>

record 'sk xprv_backend =
  xb_from_bytes :: "bytes \<Rightarrow> 'sk option"
  xb_to_bytes :: "'sk \<Rightarrow> bytes"
  xb_derive_child :: "'sk \<Rightarrow> bytes \<Rightarrow> 'sk option"
  xb_public_bytes :: "'sk \<Rightarrow> bytes"
  xb_fingerprint :: "'sk \<Rightarrow> bytes"

record ExtendedKeyAttrs =
  ka_depth :: byte
  ka_parent_fingerprint :: bytes
  ka_child_number :: ChildNumber
  ka_chain_code :: bytes

record 'sk XPrv =
  xp_private_key :: 'sk
  xp_attrs :: ExtendedKeyAttrs

definition BIP39_DOMAIN_SEPARATOR :: bytes where
  "BIP39_DOMAIN_SEPARATOR =
     [0x42, 0x69, 0x74, 0x63, 0x6f, 0x69, 0x6e, 0x20, 0x73, 0x65, 0x65, 0x64]"

definition split_key :: "bytes \<Rightarrow> (bytes \<times> bytes, bip32_error) result" where
  "split_key out =
     (if KEY_SIZE \<le> length out then
        bind_r (ok_or Decode (try_into_array KEY_SIZE (take KEY_SIZE out))) (\<lambda>left.
        bind_r (ok_or Decode (try_into_array KEY_SIZE (drop KEY_SIZE out))) (\<lambda>right. Ok (left, right)))
      else Panic)"

text \<open>\<open>HmacSha512::new_from_slice\<close>, \<open>update\<close>, \<open>finalize\<close>.\<close>

abbreviation hmac512_new :: "bytes \<Rightarrow> (Sha512VarCore HmacCore CoreWrapper, bip32_error) result" where
  "hmac512_new \<equiv> hmac_new_from_slice sha512_ops"

abbreviation hmac512_update ::
    "bytes \<Rightarrow> Sha512VarCore HmacCore CoreWrapper \<Rightarrow> (Sha512VarCore HmacCore CoreWrapper, bip32_error) result" where
  "hmac512_update \<equiv> cw_update (hmac_ops sha512_ops)"

abbreviation hmac512_finalize :: "Sha512VarCore HmacCore CoreWrapper \<Rightarrow> (bytes, bip32_error) result" where
  "hmac512_finalize \<equiv> cw_finalize (hmac_ops sha512_ops)"

definition xprv_new :: "'sk xprv_backend \<Rightarrow> bytes \<Rightarrow> ('sk XPrv, bip32_error) result" where
  "xprv_new K seed =
     (if length seed \<notin> {16, 32, 64} then Err SeedLength
      else
        bind_r (hmac512_new BIP39_DOMAIN_SEPARATOR) (\<lambda>hmac.
        bind_r (hmac512_update seed hmac) (\<lambda>hmac.
        bind_r (hmac512_finalize hmac) (\<lambda>result.
        bind_r (split_key result) (\<lambda>(secret_key, chain_code).
        bind_r (ok_or Crypto (xb_from_bytes K secret_key)) (\<lambda>private_key.
        Ok \<lparr>xp_private_key = private_key,
            xp_attrs = \<lparr>ka_depth = 0, ka_parent_fingerprint = [0, 0, 0, 0], ka_child_number = ChildNumber 0,
                        ka_chain_code = chain_code\<rparr>\<rparr>))))))"

definition derive_tweak ::
    "'sk xprv_backend \<Rightarrow> 'sk \<Rightarrow> bytes \<Rightarrow> ChildNumber \<Rightarrow> (bytes \<times> bytes, bip32_error) result" where
  "derive_tweak K key chain_code child_number =
     bind_r (hmac512_new chain_code) (\<lambda>hmac.
     bind_r (if is_hardened child_number then
               bind_r (hmac512_update [0] hmac) (\<lambda>hmac. hmac512_update (xb_to_bytes K key) hmac)
             else hmac512_update (xb_public_bytes K key) hmac) (\<lambda>hmac.
     bind_r (hmac512_update (child_number_to_bytes child_number) hmac) (\<lambda>hmac.
     bind_r (hmac512_finalize hmac) (\<lambda>result. split_key result))))"

definition xprv_derive_child ::
    "'sk xprv_backend \<Rightarrow> 'sk XPrv \<Rightarrow> ChildNumber \<Rightarrow> ('sk XPrv, bip32_error) result" where
  "xprv_derive_child K key child_number =
     (if ka_depth (xp_attrs key) = 255 then Err TooDeep
      else
        let depth = ka_depth (xp_attrs key) + 1 in
        bind_r (derive_tweak K (xp_private_key key) (ka_chain_code (xp_attrs key)) child_number) (\<lambda>(tweak, chain_code).
        bind_r (ok_or Crypto (xb_derive_child K (xp_private_key key) tweak)) (\<lambda>private_key.
        Ok \<lparr>xp_private_key = private_key,
            xp_attrs = \<lparr>ka_depth = depth, ka_parent_fingerprint = xb_fingerprint K (xp_private_key key),
                        ka_child_number = child_number, ka_chain_code = chain_code\<rparr>\<rparr>)))"

definition derive_from_path :: "'sk xprv_backend \<Rightarrow> bytes \<Rightarrow> DerivationPath \<Rightarrow> ('sk XPrv, bip32_error) result" where
  "derive_from_path K seed path =
     foldl (\<lambda>maybe_key child_num. bind_r maybe_key (\<lambda>key. xprv_derive_child K key child_num)) (xprv_new K seed) path"

text \<open>\<open>ct_eq\<close> of two extended keys, which \<open>==\<close> calls.\<close>

definition xprv_ct_eq :: "'sk xprv_backend \<Rightarrow> 'sk XPrv \<Rightarrow> 'sk XPrv \<Rightarrow> byte" where
  "xprv_ct_eq K self other =
     (let key_a = xb_to_bytes K (xp_private_key self);
          key_b = xb_to_bytes K (xp_private_key self)
      in ct_eq key_a key_b
         AND ct_eq_u8 (ka_depth (xp_attrs self)) (ka_depth (xp_attrs other))
         AND ct_eq (ka_parent_fingerprint (xp_attrs self)) (ka_parent_fingerprint (xp_attrs other))
         AND (if cn_value (ka_child_number (xp_attrs self)) = cn_value (ka_child_number (xp_attrs other)) then 1 else 0)
         AND ct_eq (ka_chain_code (xp_attrs self)) (ka_chain_code (xp_attrs other)))"

subsection \<open>Numbers print and parse\<close>

lemma unat_digit [simp]: "d < 10 \<Longrightarrow> unat (0x30 + word_of_nat d :: byte) = 0x30 + d"
  using unat_byte_of_nat [of "0x30 + d"] by simp

lemma digit_value_digit: "d < 10 \<Longrightarrow> digit_value (word_of_nat (0x30 + d)) = Some d"
  by (simp add: digit_value_def word_le_nat_alt)

lemma parse_digits_append:
  "parse_digits acc (xs @ ys) = (case parse_digits acc xs of None \<Rightarrow> None | Some v \<Rightarrow> parse_digits v ys)"
  by (induction acc xs rule: parse_digits.induct) (auto split: option.splits)

lemma decimal_digits: "decimal n \<noteq> [] \<and> (\<forall>c \<in> set (decimal n). 0x30 \<le> c \<and> c \<le> 0x39)"
proof (induction n rule: decimal.induct)
  case (1 n)
  show ?case
  proof (cases "n < 10")
    case True
    then show ?thesis by (simp add: decimal.simps [of n] word_le_nat_alt)
  next
    case False
    then show ?thesis using 1 by (simp add: decimal.simps [of n] word_le_nat_alt)
  qed
qed

lemma parse_decimal: "n < 2 ^ 32 \<Longrightarrow> parse_digits 0 (decimal n) = Some n"
proof (induction n rule: decimal.induct)
  case (1 n)
  show ?case
  proof (cases "n < 10")
    case True
    then show ?thesis using digit_value_digit [of n] by (simp add: decimal.simps [of n])
  next
    case False
    then have "parse_digits 0 (decimal (n div 10)) = Some (n div 10)" using 1 by simp
    then show ?thesis
      using False 1(2) digit_value_digit [of "n mod 10"]
      by (simp add: decimal.simps [of n] parse_digits_append)
  qed
qed

lemma u32_from_str_decimal: "u32_from_str (decimal (unat x)) = Some x"
proof -
  have "hd (decimal (unat x)) \<noteq> 0x2B" using decimal_digits [of "unat x"] by (cases "decimal (unat x)") auto
  moreover have "parse_digits 0 (decimal (unat x)) = Some (unat x)"
    using unsigned_less [of x, where 'a = nat] by (intro parse_decimal) simp
  ultimately show ?thesis using decimal_digits [of "unat x"] by (simp add: u32_from_str_def)
qed

subsection \<open>Paths print and parse\<close>

lemma HARDENED_FLAG_bit: "bit HARDENED_FLAG j \<longleftrightarrow> j = 31"
  unfolding HARDENED_FLAG_def bit_push_bit_iff bit_1_iff by auto

lemma is_hardened_bit: "is_hardened n \<longleftrightarrow> bit (cn_value n) 31"
proof -
  have "cn_value n AND HARDENED_FLAG = (if bit (cn_value n) 31 then HARDENED_FLAG else 0)"
    by (rule bit_word_eqI) (auto simp: bit_and_iff HARDENED_FLAG_bit)
  moreover have "HARDENED_FLAG \<noteq> 0" using HARDENED_FLAG_bit [of 31] by auto
  ultimately show ?thesis by (simp add: is_hardened_def)
qed

lemma cn_index_small: "cn_index n < HARDENED_FLAG"
proof -
  have "take_bit 31 (cn_index n) = cn_index n"
    by (rule bit_word_eqI) (auto simp: cn_index_def bit_take_bit_iff bit_and_iff bit_not_iff HARDENED_FLAG_bit)
  then have "unat (cn_index n) = unat (cn_index n) mod 2 ^ 31" by (metis unsigned_take_bit_eq take_bit_eq_mod)
  then have "unat (cn_index n) < 2 ^ 31" using mod_less_divisor [of "2 ^ 31" "unat (cn_index n)"] by simp
  then show ?thesis by (simp add: word_less_nat_alt HARDENED_FLAG_def)
qed

lemma child_number_new_parts: "child_number_new (cn_index n) (is_hardened n) = Ok n"
proof -
  have "cn_index n OR HARDENED_FLAG = cn_value n" if "bit (cn_value n) 31"
    using that by (intro bit_word_eqI) (auto simp: cn_index_def bit_or_iff bit_and_iff bit_not_iff HARDENED_FLAG_bit)
  moreover have "cn_index n = cn_value n" if "\<not> bit (cn_value n) 31"
    using that by (intro bit_word_eqI) (auto simp: cn_index_def bit_and_iff bit_not_iff HARDENED_FLAG_bit)
  ultimately show ?thesis
    using cn_index_small [of n] by (cases n) (auto simp: child_number_new_def is_hardened_bit not_le)
qed

lemma child_number_roundtrip: "child_number_from_str (child_number_display n) = Ok n"
proof -
  let ?d = "decimal (unat (cn_index n))"
  have d: "?d \<noteq> []" "0x30 \<le> last ?d" "last ?d \<le> 0x39"
    using decimal_digits [of "unat (cn_index n)"] last_in_set [of ?d] by blast+
  then have "last ?d \<noteq> 0x27" "last ?d \<noteq> 0x68" by (auto simp: word_le_nat_alt)
  then show ?thesis
    using d(1) child_number_new_parts [of n]
    by (auto simp: child_number_from_str_def child_number_display_def strip_suffix_def u32_from_str_decimal)
qed

lemma no_slash: "0x2F \<notin> set (child_number_display n)"
  using decimal_digits [of "unat (cn_index n)"] by (auto simp: child_number_display_def word_le_nat_alt)

lemma parse_children_display: "parse_children (map child_number_display path) = Ok path"
  by (induction path) (simp_all add: child_number_roundtrip)

lemma path_display_join: "path_display path = join_words (PREFIX # map child_number_display path) [0x2F]"
  by (simp add: path_display_def comp_def)

lemma path_roundtrip: "path_from_str (path_display path) = Ok path"
proof -
  have "split_on 0x2F (path_display path) = PREFIX # map child_number_display path"
    unfolding path_display_join by (rule split_join) (auto simp: PREFIX_def ascii_def no_slash)
  then show ?thesis by (simp add: path_from_str_def parse_children_display)
qed

lemma child_number_from_str_no_panic: "child_number_from_str s \<noteq> Panic"
  by (auto simp: child_number_from_str_def child_number_new_def bind_r_Panic_iff split: if_splits option.splits prod.splits)

lemma parse_children_no_panic: "parse_children ss \<noteq> Panic"
  by (induction ss) (auto simp: bind_r_Panic_iff child_number_from_str_no_panic)

lemma path_from_str_no_panic: "path_from_str s \<noteq> Panic"
  by (simp add: path_from_str_def parse_children_no_panic split: list.splits)

subsection \<open>The HMAC objects\<close>

lemma hmac512_stream:
  "bind_r (hmac512_new key) (\<lambda>w. bind_r (cw_updates (hmac_ops sha512_ops) xs w) (\<lambda>w. bind_r (hmac512_finalize w) f))
     = f (hmac sha512 128 key (concat xs))"
proof -
  have "bind_r (hmac512_new key) (\<lambda>w. bind_r (cw_updates (hmac_ops sha512_ops) xs w) (\<lambda>w. bind_r (hmac512_finalize w) f))
      = bind_r (bind_r (hmac512_new key) (\<lambda>w. bind_r (cw_updates (hmac_ops sha512_ops) xs w) hmac512_finalize)) f"
    by (simp only: bind_r_assoc)
  then show ?thesis by (simp add: hmac_sha512_stream)
qed

lemma hmac512_one:
  "bind_r (hmac512_new key) (\<lambda>w. bind_r (hmac512_update x w) (\<lambda>w. bind_r (hmac512_finalize w) f)) = f (hmac sha512 128 key x)"
  using hmac512_stream [of key "[x]" f] by (simp add: bind_r_assoc)

lemma split_key_64: "length out = 64 \<Longrightarrow> split_key out = Ok (take 32 out, drop 32 out)"
  by (simp add: split_key_def KEY_SIZE_def try_into_array_def)

lemma xprv_new_eq:
  "length seed \<in> {16, 32, 64} \<Longrightarrow> xprv_new K seed =
     (let I = hmac sha512 128 BIP39_DOMAIN_SEPARATOR seed in
      case xb_from_bytes K (take 32 I) of
        None \<Rightarrow> Err Crypto
      | Some sk \<Rightarrow> Ok \<lparr>xp_private_key = sk, xp_attrs = \<lparr>ka_depth = 0, ka_parent_fingerprint = [0, 0, 0, 0],
                       ka_child_number = ChildNumber 0, ka_chain_code = drop 32 I\<rparr>\<rparr>)"
  by (simp add: xprv_new_def hmac512_one split_key_64 Let_def split: option.splits)

lemma derive_tweak_eq:
  "derive_tweak K key chain_code n =
     (let I = hmac sha512 128 chain_code
                ((if is_hardened n then [0] @ xb_to_bytes K key else xb_public_bytes K key) @ child_number_to_bytes n)
      in Ok (take 32 I, drop 32 I))"
  using hmac512_stream [of chain_code "[[0], xb_to_bytes K key, child_number_to_bytes n]" split_key]
    hmac512_stream [of chain_code "[xb_public_bytes K key, child_number_to_bytes n]" split_key]
  by (simp add: derive_tweak_def bind_r_assoc split_key_64 Let_def)

text \<open>BIP-32 derivation, one step.\<close>

lemma xprv_derive_child_eq:
  "xprv_derive_child K key n =
     (let I = hmac sha512 128 (ka_chain_code (xp_attrs key))
                ((if is_hardened n then [0] @ xb_to_bytes K (xp_private_key key) else xb_public_bytes K (xp_private_key key))
                 @ child_number_to_bytes n)
      in if ka_depth (xp_attrs key) = 255 then Err TooDeep
         else case xb_derive_child K (xp_private_key key) (take 32 I) of
           None \<Rightarrow> Err Crypto
         | Some sk \<Rightarrow> Ok \<lparr>xp_private_key = sk,
             xp_attrs = \<lparr>ka_depth = ka_depth (xp_attrs key) + 1, ka_parent_fingerprint = xb_fingerprint K (xp_private_key key),
                         ka_child_number = n, ka_chain_code = drop 32 I\<rparr>\<rparr>)"
  by (simp add: xprv_derive_child_def derive_tweak_eq Let_def split: option.splits)

subsection \<open>Keys along a path\<close>

lemma derive_from_path_snoc:
  "derive_from_path K seed (path @ [n]) = bind_r (derive_from_path K seed path) (\<lambda>key. xprv_derive_child K key n)"
  by (simp add: derive_from_path_def)

lemma derive_depth:
  "derive_from_path K seed path = Ok key \<Longrightarrow> length path \<le> 255 \<and> unat (ka_depth (xp_attrs key)) = length path
     \<and> (path \<noteq> [] \<longrightarrow> ka_child_number (xp_attrs key) = last path)"
proof (induction path arbitrary: key rule: rev_induct)
  case Nil
  then show ?case by (auto simp: derive_from_path_def xprv_new_def bind_r_Ok_iff split: if_splits prod.splits)
next
  case (snoc n path)
  from snoc.prems obtain key' where k: "derive_from_path K seed path = Ok key'" "xprv_derive_child K key' n = Ok key"
    by (auto simp: derive_from_path_snoc bind_r_Ok_iff)
  from snoc.IH [OF k(1)] have d: "unat (ka_depth (xp_attrs key')) = length path" by simp
  from k(2) have n: "ka_depth (xp_attrs key') \<noteq> 255" "ka_depth (xp_attrs key) = ka_depth (xp_attrs key') + 1"
    "ka_child_number (xp_attrs key) = n"
    by (auto simp: xprv_derive_child_def Let_def bind_r_Ok_iff split: if_splits prod.splits)
  have "unat (ka_depth (xp_attrs key')) \<noteq> 255" using n(1) by (auto simp: word_unat_eq_iff)
  then have "unat (ka_depth (xp_attrs key')) < 255" using unat_byte_lt [of "ka_depth (xp_attrs key')"] by simp
  then show ?case using n(2,3) d by (simp add: unat_word_ariths)
qed

lemma xprv_ct_eq_attrs:
  "xprv_ct_eq K a b = (if xp_attrs a = xp_attrs b then 1 else 0)"
proof -
  have "xp_attrs a = xp_attrs b \<longleftrightarrow> ka_depth (xp_attrs a) = ka_depth (xp_attrs b)
      \<and> ka_parent_fingerprint (xp_attrs a) = ka_parent_fingerprint (xp_attrs b)
      \<and> cn_value (ka_child_number (xp_attrs a)) = cn_value (ka_child_number (xp_attrs b))
      \<and> ka_chain_code (xp_attrs a) = ka_chain_code (xp_attrs b)"
    by (cases "xp_attrs a"; cases "xp_attrs b") (auto simp: ChildNumber.expand)
  then show ?thesis by (simp add: xprv_ct_eq_def ct_eq_u8_iff Let_def)
qed

text \<open>Equality of extended keys ignores the key: two keys with the same attributes are equal whatever
  their private keys are.\<close>

theorem xprv_eq_ignores_key: "xprv_ct_eq K (key\<lparr>xp_private_key := sk\<rparr>) (key\<lparr>xp_private_key := sk'\<rparr>) = 1"
  by (simp add: xprv_ct_eq_attrs)

subsection \<open>Claims\<close>

text \<open>C37: every derivation path reads back from its text, hardened and plain children of any of the
  \<open>2 ^ 32\<close> numbers alike, and so does the path without its last child; reading never panics; and a
  key derived along a path is at the depth of the path's length, which is at most 255, with the
  path's last child number.\<close>

theorem derivation_path_roundtrip:
  "path_from_str (path_display path) = Ok path
   \<and> path_from_str (path_display (path_push path n)) = Ok (path @ [n]) \<and> path_parent (path_push path n) = Some path
   \<and> path_from_str s \<noteq> Panic
   \<and> (case derive_from_path K seed (path_push path n) of
        Ok key \<Rightarrow> length path < 255 \<and> unat (ka_depth (xp_attrs key)) = length path + 1
                  \<and> ka_child_number (xp_attrs key) = n
      | _ \<Rightarrow> True)"
  using derive_depth [of K seed "path @ [n]"]
  by (auto simp: path_roundtrip path_push_def path_parent_def path_from_str_no_panic split: result.splits)

end
