(* ===== verification/Phi_Seed_Bip32.thy ===== *)
theory Phi_Seed_Bip32
  imports Phi_Seed Phi_Bip32
begin

section \<open>Key recovery over the phrase and path code\<close>

text \<open>
  \<open>Phi_Seed\<close> takes the operations of \<open>bip32\<close> as a record. Here the record is filled with the phrases
  and paths of \<open>Phi_Bip39\<close> and \<open>Phi_Bip32\<close>: what is left as a parameter is the Unicode
  normalisation, the generator and the key operations of \<open>k256\<close>. A result of
  \<open>bip32\<close> is passed on by \<open>ok\<close>, since the callers drop the error with \<open>map_err\<close>; none of the calls panics.
\<close>

definition PBKDF2_ROUNDS :: u32 where
  "PBKDF2_ROUNDS = 2048"

definition SEED_SIZE :: nat where
  "SEED_SIZE = 64"

definition phrase_to_seed :: "Phrase \<Rightarrow> str \<Rightarrow> (bytes, 'e) result" where
  "phrase_to_seed p password =
     (let salt = ascii ''mnemonic'' @ password;
          seed = replicate SEED_SIZE 0
      in pbkdf2_hmac sha512_ops (ph_phrase p) salt PBKDF2_ROUNDS seed)"

definition bip32_seed ::
    "('r \<Rightarrow> usize \<Rightarrow> bytes \<times> 'r) \<Rightarrow> (str \<Rightarrow> str) \<Rightarrow> 'sk xprv_backend \<Rightarrow>
     ('r, Phrase, DerivationPath, bytes, 'sk) seed_backend" where
  "bip32_seed fill_bytes nfkd K =
    \<lparr>sb_mnemonic_new = (\<lambda>s. ok (phrase_new s English)),
     sb_mnemonic_random = (\<lambda>rng. map_prod (\<lambda>r. the (ok (r :: (Phrase, bip32_error) result))) id (phrase_random fill_bytes rng English)),
     sb_phrase = ph_phrase,
     sb_parse_path = (\<lambda>s. ok (path_from_str s)),
     sb_nfkd = nfkd,
     sb_to_seed = (\<lambda>p password. the (ok (phrase_to_seed p password :: (bytes, bip32_error) result))),
     sb_derive_from_path = (\<lambda>seed path. map_option xp_private_key (ok (derive_from_path K seed path)))\<rparr>"

text \<open>The pinned path in its parsed form: 44', 118', 0', 0, 0.\<close>

definition k1_path :: DerivationPath where
  "k1_path = [ChildNumber 0x8000002C, ChildNumber 0x80000076, ChildNumber 0x80000000, ChildNumber 0, ChildNumber 0]"

lemma K1_path_display: "K1_DERIVATION_PATH = path_display k1_path"
  by (simp add: K1_DERIVATION_PATH_def path_display_def k1_path_def PREFIX_def child_number_display_def cn_index_def
      is_hardened_def HARDENED_FLAG_def decimal.simps ascii_def)

lemma K1_path_parses: "path_from_str K1_DERIVATION_PATH = Ok k1_path"
  by (simp add: K1_path_display path_roundtrip)

text \<open>The seed of a phrase, as BIP-39 has it: PBKDF2-HMAC-SHA-512, 2048 rounds, 64 bytes.\<close>

definition phrase_seed :: "Phrase \<Rightarrow> str \<Rightarrow> bytes" where
  "phrase_seed p password = kdf (hmac sha512 128 (ph_phrase p)) 64 (ascii ''mnemonic'' @ password) 2048 64"

lemma phrase_to_seed_eq: "phrase_to_seed p password = Ok (phrase_seed p password)"
  using pbkdf2_sha512_eq [of "ph_phrase p" "ascii ''mnemonic'' @ password" PBKDF2_ROUNDS "replicate SEED_SIZE 0"]
  by (simp add: phrase_to_seed_def phrase_seed_def PBKDF2_ROUNDS_def SEED_SIZE_def Let_def)

lemma length_phrase_seed [simp]: "length (phrase_seed p password) = 64"
  by (simp add: phrase_seed_def length_kdf)

subsection \<open>Generated phrases\<close>

lemma join_words_set: "set (join_words ws glue) \<subseteq> (\<Union>w \<in> set ws. set w) \<union> set glue"
  by (cases ws) auto

lemma join_words_hd: "w \<noteq> [] \<Longrightarrow> hd (join_words (w # ws) glue) = hd w"
  by simp

lemma join_words_last: "ws \<noteq> [] \<Longrightarrow> last ws \<noteq> [] \<Longrightarrow> last (join_words ws glue) = last (last ws) \<and> join_words ws glue \<noteq> []"
proof (induction ws)
  case (Cons w ws)
  then show ?case
    by (cases "ws = []") (simp_all add: join_words_Cons del: join_words.simps(2), simp)
qed simp

lemma phrase_for_ascii:
  assumes "length e = 32"
  shows "list_all (\<lambda>b. unat b < 128) (ph_phrase (phrase_for e l))"
    and "ph_phrase (phrase_for e l) \<noteq> []" "64 \<le> unat (hd (ph_phrase (phrase_for e l)))"
    "64 \<le> unat (last (ph_phrase (phrase_for e l)))"
proof -
  let ?xs = "numbers (e @ [checksum e])"
  let ?ws = "map (\<lambda>x. wordlist l ! unat x) ?xs"
  have n: "length ?xs = 24" "\<forall>x \<in> set ?xs. unat x < 2048" using numbers_bits [of "e @ [checksum e]"] assms by simp_all
  have w: "w \<noteq> []" "\<And>b. b \<in> set w \<Longrightarrow> 64 \<le> unat b \<and> unat b < 128" if "w \<in> set ?ws" for w
  proof -
    have "w \<in> set (wordlist l)" using that n(2) wordlist_law(1) [of l] by auto
    then show "w \<noteq> []" "\<And>b. b \<in> set w \<Longrightarrow> 64 \<le> unat b \<and> unat b < 128" using wordlist_law(3) by blast+
  qed
  have ne: "?ws \<noteq> []" using n(1) by auto
  note first = w [OF hd_in_set [OF ne]] and final = w [OF last_in_set [OF ne]]
  have p: "ph_phrase (phrase_for e l) = join_words ?ws [0x20]" by (simp add: phrase_for_def)
  show "list_all (\<lambda>b. unat b < 128) (ph_phrase (phrase_for e l))"
    unfolding p list_all_iff
  proof
    fix b assume "b \<in> set (join_words ?ws [0x20])"
    then have "b = 0x20 \<or> (\<exists>w \<in> set ?ws. b \<in> set w)" using join_words_set [of ?ws "[0x20]"] by auto
    then show "unat b < 128" using w(2) by auto
  qed
  show "ph_phrase (phrase_for e l) \<noteq> []" "64 \<le> unat (last (ph_phrase (phrase_for e l)))"
    using join_words_last [OF ne final(1), of "[0x20]"] final(2) [OF last_in_set [OF final(1)]] unfolding p by simp_all
  have "hd (join_words ?ws [0x20]) = hd (hd ?ws)"
    using join_words_hd [OF first(1), of "tl ?ws" "[0x20]"] hd_Cons_tl [OF ne] by simp
  then show "64 \<le> unat (hd (ph_phrase (phrase_for e l)))"
    using first(2) [OF hd_in_set [OF first(1)]] unfolding p by simp
qed

lemma trim_padded_phrase:
  assumes "length e = 32" "list_all is_scalar (pre @ post)" "list_all is_whitespace pre" "list_all is_whitespace post"
  shows "str_trim (utf8_encode pre @ ph_phrase (phrase_for e l) @ utf8_encode post) = ph_phrase (phrase_for e l)"
proof -
  let ?p = "ph_phrase (phrase_for e l)"
  note a = phrase_for_ascii [OF assms(1), of l]
  have cs: "list_all is_scalar (map unat ?p)" "utf8_encode (map unat ?p) = ?p"
    using utf8_decode_sound [OF utf8_decode_ascii [OF a(1)]] by simp_all
  have "\<not> is_whitespace c" if "64 \<le> c" "c < 128" for c using that by (auto simp: is_whitespace_def)
  moreover have "unat (hd ?p) < 128" "unat (last ?p) < 128" using a(1,2) by (auto simp: list_all_iff)
  ultimately have "\<not> is_whitespace (hd (map unat ?p)) \<and> \<not> is_whitespace (last (map unat ?p))"
    using a(2-4) by (simp add: hd_map last_map)
  then have "str_trim (utf8_encode (pre @ map unat ?p @ post)) = utf8_encode (map unat ?p)"
    using assms(2-4) cs(1) by (intro str_trim_pad) simp_all
  then show ?thesis using cs(2) by (simp add: utf8_encode_def)
qed

subsection \<open>Claims\<close>

text \<open>What derivation returns for every phrase: the phrase error, or the key at the end of the pinned
  path from the seed of the phrase and the normalised passphrase.\<close>

lemma derive_k1_keypair_exact:
  "derive_k1_keypair (bip32_seed fill_bytes nfkd K) E m pw =
     (case phrase_new (str_trim m) English of
        Ok p \<Rightarrow>
          (case derive_from_path K (phrase_seed p (nfkd pw)) k1_path of
             Ok key \<Rightarrow> Ok \<lparr>kp_curve = Secp256k1, kp_secret = \<lparr>held = ec_sk_to_bytes E (xp_private_key key)\<rparr>,
                          kp_public = ec_to_sec1_bytes E (ec_verifying_key E (xp_private_key key))\<rparr>
           | _ \<Rightarrow> Err (Backend ''BIP-32 derivation failed''))
      | _ \<Rightarrow> Err (InvalidInput ''mnemonic is not a valid BIP-39 phrase''))"
  by (simp add: derive_k1_keypair_def derive_k1_keypair_at_def bip32_seed_def K1_path_parses phrase_to_seed_eq Let_def
      split: result.splits)

text \<open>C16: a generated recovery phrase recovers. It has 24 words; it spells the 32 bytes the generator gave,
  so different entropy gives a different phrase; and deriving from it, typed with any white space
  around it, is never refused as a phrase or for its path: the result is the key at the end of
  \<open>m/44'/118'/0'/0/0\<close> from the BIP-39 seed (PBKDF2-HMAC-SHA-512, 2048 rounds) of the phrase and the
  normalised passphrase, or the error that key derivation itself failed.\<close>

theorem generated_phrase_recovers:
  assumes "fill_bytes rng 32 = (entropy, rng')" "length entropy = 32"
    and "list_all is_scalar (pre @ post)" "list_all is_whitespace pre" "list_all is_whitespace post"
    and "generate_mnemonic (bip32_seed fill_bytes nfkd K) rng = (words, rng'')"
  shows "length (split_on 0x20 (held words)) = 24 \<and> rng'' = rng'
     \<and> (\<exists>p. phrase_new (held words) English = Ok p \<and> ph_entropy p = entropy
          \<and> derive_k1_keypair (bip32_seed fill_bytes nfkd K) E (utf8_encode pre @ held words @ utf8_encode post) pw =
              (case derive_from_path K (phrase_seed p (nfkd pw)) k1_path of
                 Ok key \<Rightarrow> Ok \<lparr>kp_curve = Secp256k1, kp_secret = \<lparr>held = ec_sk_to_bytes E (xp_private_key key)\<rparr>,
                              kp_public = ec_to_sec1_bytes E (ec_verifying_key E (xp_private_key key))\<rparr>
               | _ \<Rightarrow> Err (Backend ''BIP-32 derivation failed'')))"
proof -
  have w: "held words = ph_phrase (phrase_for entropy English)" "rng'' = rng'"
    using assms(1,6) by (auto simp: generate_mnemonic_def bip32_seed_def phrase_random_def KEY_SIZE_def)
  have "ph_entropy (phrase_for entropy English) = entropy" by (simp add: phrase_for_def)
  then show ?thesis
    using w phrase_new_from_entropy [OF assms(2), of English] trim_padded_phrase [OF assms(2-5), of English]
    by (simp add: derive_k1_keypair_exact)
qed

definition sample_xprv :: "byte xprv_backend" where
  "sample_xprv =
    \<lparr>xb_from_bytes = (\<lambda>b. Some (hd b)),
     xb_to_bytes = (\<lambda>sk. replicate 32 sk),
     xb_derive_child = (\<lambda>sk tweak. Some (sk + hd tweak)),
     xb_public_bytes = (\<lambda>sk. replicate 33 sk),
     xb_fingerprint = (\<lambda>sk. replicate 4 sk)\<rparr>"

abbreviation sample_bip32 :: "(byte, Phrase, DerivationPath, bytes, byte) seed_backend" where
  "sample_bip32 \<equiv> bip32_seed (\<lambda>rng n. (replicate n rng, rng + 1)) (\<lambda>s. s) sample_xprv"

lemma sample_child:
  assumes "ka_depth (xp_attrs key) \<noteq> 255"
  shows "\<exists>key'. xprv_derive_child sample_xprv key n = Ok key' \<and> ka_depth (xp_attrs key') = ka_depth (xp_attrs key) + 1"
  using assms by (simp add: xprv_derive_child_eq sample_xprv_def Let_def)

lemma sample_key: "length seed = 64 \<Longrightarrow> \<exists>key. derive_from_path sample_xprv seed k1_path = Ok key"
proof -
  have chain: "\<exists>key. foldl (\<lambda>k n. bind_r k (\<lambda>key. xprv_derive_child sample_xprv key n)) (Ok key0) path = Ok key"
    if "unat (ka_depth (xp_attrs key0)) + length path \<le> 255" for key0 path
    using that
  proof (induction path arbitrary: key0)
    case (Cons n path)
    then have "ka_depth (xp_attrs key0) \<noteq> 255" by (auto simp: word_unat_eq_iff)
    with sample_child obtain key' where
      "xprv_derive_child sample_xprv key0 n = Ok key'" "ka_depth (xp_attrs key') = ka_depth (xp_attrs key0) + 1" by blast
    with Cons.IH [of key'] Cons.prems show ?case by (simp add: unat_word_ariths)
  qed simp
  assume "length seed = 64"
  then have "\<exists>key0. xprv_new sample_xprv seed = Ok key0 \<and> ka_depth (xp_attrs key0) = 0"
    by (simp add: xprv_new_eq sample_xprv_def Let_def)
  then obtain key0 where "xprv_new sample_xprv seed = Ok key0" "ka_depth (xp_attrs key0) = 0" by blast
  with chain [of key0 k1_path] show ?thesis by (simp only: derive_from_path_def) (simp add: k1_path_def)
qed

theorem generated_phrase_recovers_witness:
  "\<exists>words kp. generate_mnemonic sample_bip32 7 = (words, 8) \<and> length (split_on 0x20 (held words)) = 24
     \<and> derive_k1_keypair sample_bip32 sample_ecdsa (utf8_encode [0x20, 0x3000] @ held words @ utf8_encode [0x0A]) [1] = Ok kp"
proof -
  obtain words rng'' where g: "generate_mnemonic sample_bip32 7 = (words, rng'')" by (cases "generate_mnemonic sample_bip32 7")
  have w: "list_all is_whitespace [0x20, 0x3000]" "list_all is_whitespace [0x0A]" "list_all is_scalar ([0x20, 0x3000] @ [0x0A])"
    by (simp_all add: is_whitespace_def is_scalar_def)
  from generated_phrase_recovers [OF _ _ w(3,1,2) g, of "replicate 32 7" 8 sample_ecdsa "[1]"] obtain p where
    "length (split_on 0x20 (held words)) = 24" "rng'' = 8"
    "derive_k1_keypair sample_bip32 sample_ecdsa (utf8_encode [0x20, 0x3000] @ held words @ utf8_encode [0x0A]) [1] =
       (case derive_from_path sample_xprv (phrase_seed p [1]) k1_path of
          Ok key \<Rightarrow> Ok \<lparr>kp_curve = Secp256k1, kp_secret = \<lparr>held = ec_sk_to_bytes sample_ecdsa (xp_private_key key)\<rparr>,
                       kp_public = ec_to_sec1_bytes sample_ecdsa (ec_verifying_key sample_ecdsa (xp_private_key key))\<rparr>
        | _ \<Rightarrow> Err (Backend ''BIP-32 derivation failed''))"
    by auto
  with g sample_key [of "phrase_seed p [1]"] show ?thesis by auto
qed

end
