(* ===== verification/Phi_Test_Kit.thy ===== *)
theory Phi_Test_Kit
  imports Phi_Examples Phi_Bbs2023
begin

section \<open>Tests as programs\<close>

text \<open>
  The unit tests of the crate are programs over its operations: \<open>unwrap\<close> and \<open>assert!\<close> panic,
  and a test passes when it runs to its end. \<open>runs I m Q\<close> states that \<open>m\<close>, from every state
  with \<open>I\<close>, returns a value with \<open>Q\<close> in a state with \<open>I\<close>; it is a total statement, since a panic or
  an error is not a return. The rules take a test apart statement by statement. The
  \<open>presenting\<close> interface is the part most tests begin with (issue a credential, present it), so
  that a test's proof consists of its own assertions.
\<close>

subsection \<open>Assertions and loops\<close>

definition assert_t :: "bool \<Rightarrow> ('s, unit) st" where
  "assert_t b = lift_s (if b then Ok () else Panic)"

text \<open>\<open>is_err\<close> on the result of an operation; a panic of the operation is the test's panic.\<close>

definition is_err_s :: "('s, 'a) st \<Rightarrow> ('s, bool) st" where
  "is_err_s m s = (case m s of (Ok x, s') \<Rightarrow> (Ok False, s') | (Err e, s') \<Rightarrow> (Ok True, s') | (Panic, s') \<Rightarrow> (Panic, s'))"

primrec for_each :: "'a list \<Rightarrow> ('a \<Rightarrow> ('s, unit) st) \<Rightarrow> ('s, unit) st" where
  "for_each [] f = lift_s (Ok ())"
| "for_each (x # xs) f = bind_s (f x) (\<lambda>_. for_each xs f)"

subsection \<open>Total correctness\<close>

definition runs :: "('s \<Rightarrow> bool) \<Rightarrow> ('s, 'a) st \<Rightarrow> ('a \<Rightarrow> bool) \<Rightarrow> bool" where
  "runs I m Q \<longleftrightarrow> (\<forall>s. I s \<longrightarrow> (\<exists>x s'. m s = (Ok x, s') \<and> I s' \<and> Q x))"

abbreviation passes :: "('s \<Rightarrow> bool) \<Rightarrow> ('s, unit) st \<Rightarrow> bool" where
  "passes I m \<equiv> runs I m (\<lambda>_. True)"

lemma runsI: "(\<And>s. I s \<Longrightarrow> \<exists>x s'. m s = (Ok x, s') \<and> I s' \<and> Q x) \<Longrightarrow> runs I m Q"
  by (simp add: runs_def)

lemma runsD: "runs I m Q \<Longrightarrow> I s \<Longrightarrow> \<exists>x s'. m s = (Ok x, s') \<and> I s' \<and> Q x"
  by (simp add: runs_def)

lemma runs_keeps:
  assumes "keeps I m" "\<And>s. I s \<Longrightarrow> \<exists>x. fst (m s) = Ok x \<and> Q x"
  shows "runs I m Q"
proof (rule runsI)
  fix s assume s: "I s"
  then obtain x where "fst (m s) = Ok x" "Q x" using assms(2) by blast
  with keepsD [OF assms(1) s] show "\<exists>x s'. m s = (Ok x, s') \<and> I s' \<and> Q x" by (metis prod.collapse)
qed

lemma runs_bind:
  assumes "runs I m P" "\<And>x. P x \<Longrightarrow> runs I (f x) Q"
  shows "runs I (bind_s m f) Q"
proof (rule runsI)
  fix s assume "I s"
  with assms(1) obtain x s' where m: "m s = (Ok x, s')" "I s'" "P x" by (auto simp: runs_def)
  then show "\<exists>x s'. bind_s m f s = (Ok x, s') \<and> I s' \<and> Q x"
    using runsD [OF assms(2) [OF m(3)] m(2)] by (simp add: bind_s_def)
qed

lemma runs_mono: "runs I m P \<Longrightarrow> (\<And>x. P x \<Longrightarrow> Q x) \<Longrightarrow> runs I m Q"
  unfolding runs_def by blast

lemma runs_lift [intro]: "Q x \<Longrightarrow> runs I (lift_s (Ok x)) Q"
  by (simp add: runs_def)

lemma runs_lift_result: "r = Ok x \<Longrightarrow> Q x \<Longrightarrow> runs I (lift_s r) Q"
  by (simp add: runs_def)

lemma runs_assert [intro]: "b \<Longrightarrow> passes I (assert_t b)"
  by (simp add: runs_def assert_t_def)

lemma runs_expect: "runs I m Q \<Longrightarrow> runs I (expect m) Q"
  by (fastforce simp: runs_def expect_def)

lemma runs_expect_lift: "r = Ok x \<Longrightarrow> Q x \<Longrightarrow> runs I (expect (lift_s r)) Q"
  by (intro runs_expect runs_lift_result)

lemma runs_is_ok:
  assumes "runs I m (\<lambda>_. True)"
  shows "runs I (is_err_s m) (\<lambda>b. \<not> b)"
  using assms by (fastforce simp: runs_def is_err_s_def)

lemma runs_is_err:
  assumes "\<And>s. I s \<Longrightarrow> \<exists>e s'. m s = (Err e, s') \<and> I s'"
  shows "runs I (is_err_s m) (\<lambda>b. b)"
  using assms by (fastforce simp: runs_def is_err_s_def)

lemma runs_rejected: "(\<exists>e. r = Err e) \<Longrightarrow> runs I (is_err_s (lift_s r)) (\<lambda>b. b)"
  by (rule runs_is_err) auto

lemma runs_for_each:
  "(\<And>x. x \<in> set xs \<Longrightarrow> passes I (f x)) \<Longrightarrow> passes I (for_each xs f)"
  by (induction xs) (auto intro: runs_bind)

text \<open>An assertion, then the rest of the test; and an operation whose verdict is asserted.\<close>

lemma runs_assert_then: "b \<Longrightarrow> runs I m Q \<Longrightarrow> runs I (bind_s (assert_t b) (\<lambda>_. m)) Q"
  by (rule runs_bind [OF runs_assert])

lemma runs_verdict:
  assumes "runs I m (\<lambda>b. b = v)" "P v"
  shows "passes I (bind_s m (\<lambda>b. assert_t (P b)))"
  using assms by (auto intro: runs_bind)

lemma runs_checked:
  assumes "runs I m P" "\<And>b. P b \<Longrightarrow> Q b" "runs I k R"
  shows "runs I (bind_s m (\<lambda>b. bind_s (assert_t (Q b)) (\<lambda>_. k))) R"
  using assms by (auto intro: runs_bind runs_assert_then)

text \<open>Tests of one state run in every order and any number of times.\<close>

lemma all_orders:
  assumes "\<And>t. t \<in> set tests \<Longrightarrow> passes I t" "set order \<subseteq> set tests"
  shows "passes I (for_each order id)"
  using assms by (auto intro!: runs_for_each)

subsection \<open>Issuing and presenting\<close>

text \<open>
  What both suites promise a test: a key pair for a claim count, a signature under it, a
  presentation that discloses what was asked for and is valid, a verifier that decides validity.
\<close>

locale presenting =
  fixes inv :: "'s \<Rightarrow> bool"
    and gen :: "u32 \<Rightarrow> ('s, BbsKeyPair) st"
    and sgn :: "bytes list \<Rightarrow> bytes \<Rightarrow> ('s, bytes) st"
    and der :: "bytes list \<Rightarrow> bytes \<Rightarrow> nat list \<Rightarrow> bytes \<Rightarrow> ('s, SelectiveProof) st"
    and ver :: "SelectiveProof \<Rightarrow> bytes \<Rightarrow> bytes \<Rightarrow> ('s, bool) st"
    and key_ok :: "nat \<Rightarrow> BbsKeyPair \<Rightarrow> bool"
    and sig_ok :: "bytes list \<Rightarrow> BbsKeyPair \<Rightarrow> bytes \<Rightarrow> bool"
    and valid :: "SelectiveProof \<Rightarrow> bytes \<Rightarrow> bytes \<Rightarrow> bool"
  assumes gen_runs: "1 \<le> n \<Longrightarrow> n \<le> 64 \<Longrightarrow> runs inv (gen (word_of_nat n)) (key_ok n)"
    and sgn_runs: "claims \<noteq> [] \<Longrightarrow> length claims \<le> 64 \<Longrightarrow> key_ok (length claims) kp \<Longrightarrow>
        runs inv (sgn claims (held (bkp_secret kp))) (sig_ok claims kp)"
    and der_runs: "claims \<noteq> [] \<Longrightarrow> length claims \<le> 64 \<Longrightarrow> sig_ok claims kp sg \<Longrightarrow>
        \<forall>i \<in> set reveal. i < length claims \<Longrightarrow>
        runs inv (der claims sg reveal nonce) (\<lambda>p. valid p (bkp_public kp) nonce
          \<and> sp_revealed p = disclosed claims reveal \<and> sp_message_count p = word_of_nat (length claims))"
    and ver_runs: "runs inv (ver p public nonce) (\<lambda>b. b = valid p public nonce)"
begin

lemma issue:
  assumes "claims \<noteq> []" "length claims \<le> 64"
    and "\<And>kp sg. sig_ok claims kp sg \<Longrightarrow> runs inv (k kp sg) Q"
  shows "runs inv (bind_s (expect (gen (word_of_nat (length claims)))) (\<lambda>kp.
     bind_s (expect (sgn claims (held (bkp_secret kp)))) (\<lambda>sg. k kp sg))) Q"
proof -
  have "1 \<le> length claims" using assms(1) by (simp add: Suc_le_eq)
  then show ?thesis
    by (intro runs_bind [OF runs_expect, OF gen_runs] runs_bind [OF runs_expect, OF sgn_runs] assms)
qed

lemma present:
  assumes "claims \<noteq> []" "length claims \<le> 64" "sig_ok claims kp sg" "\<forall>i \<in> set reveal. i < length claims"
    and "\<And>p. valid p (bkp_public kp) nonce \<Longrightarrow> sp_revealed p = disclosed claims reveal \<Longrightarrow>
        sp_message_count p = word_of_nat (length claims) \<Longrightarrow> runs inv (k p) Q"
  shows "runs inv (bind_s (expect (der claims sg reveal nonce)) (\<lambda>p. k p)) Q"
  using assms(5) by (intro runs_bind [OF runs_expect, OF der_runs, OF assms(1-4)]) auto

lemma accepted: "valid p public nonce \<Longrightarrow> runs inv k Q \<Longrightarrow>
    runs inv (bind_s (ver p public nonce) (\<lambda>b. bind_s (assert_t b) (\<lambda>_. k))) Q"
  by (rule runs_bind [OF ver_runs]) (auto intro: runs_assert_then)

lemma accepted_last: "valid p public nonce \<Longrightarrow> passes inv (bind_s (ver p public nonce) assert_t)"
  by (rule runs_bind [OF ver_runs]) auto

lemma refused: "\<not> valid p public nonce \<Longrightarrow> runs inv k Q \<Longrightarrow>
    runs inv (bind_s (ver p public nonce) (\<lambda>b. bind_s (assert_t (\<not> b)) (\<lambda>_. k))) Q"
  by (rule runs_bind [OF ver_runs]) (auto intro: runs_assert_then)

lemma refused_last: "\<not> valid p public nonce \<Longrightarrow> passes inv (bind_s (ver p public nonce) (\<lambda>b. assert_t (\<not> b)))"
  by (rule runs_bind [OF ver_runs]) auto

end

text \<open>The state of a test of \<open>bbs.rs\<close>: the suite's, over a backend that keeps its laws.\<close>

definition bbs_ready ::
    "('p, 'r, 'f, 'sk, 'pk, 'sg, 'pok, 'pf) bbs_backend \<Rightarrow> ('p, 'r) suite_state \<Rightarrow> bool" where
  "bbs_ready B s \<longleftrightarrow> backend_laws B \<and> suite_ok B s"

definition bbs_key_ok ::
    "('p, 'r, 'f, 'sk, 'pk, 'sg, 'pok, 'pf) bbs_backend \<Rightarrow> nat \<Rightarrow> BbsKeyPair \<Rightarrow> bool" where
  "bbs_key_ok B n kp \<longleftrightarrow> (\<exists>params rng sk pk rng'.
     bk_params_new B PARAMS_LABEL (word_of_nat n) = Ok params \<and> bk_keygen B rng params = ((sk, pk), rng')
     \<and> deser (bk_sk_codec B) (held (bkp_secret kp)) = Ok sk \<and> deser (bk_pk_codec B) (bkp_public kp) = Ok pk)
     \<and> (\<exists>k. ser (bk_pk_codec B) k = Ok (bkp_public kp))"

definition bbs_sig_ok ::
    "('p, 'r, 'f, 'sk, 'pk, 'sg, 'pok, 'pf) bbs_backend \<Rightarrow> bytes list \<Rightarrow> BbsKeyPair \<Rightarrow> bytes \<Rightarrow> bool" where
  "bbs_sig_ok B claims kp sg \<longleftrightarrow> (\<exists>params rng sk pk rng' rng1 rng1' sig.
     bk_params_new B PARAMS_LABEL (word_of_nat (length claims)) = Ok params
     \<and> bk_keygen B rng params = ((sk, pk), rng') \<and> deser (bk_pk_codec B) (bkp_public kp) = Ok pk
     \<and> bk_sign B rng1 (map (claim_to_fr B) claims) sk params = (Some sig, rng1')
     \<and> deser (bk_sg_codec B) sg = Ok sig)
     \<and> (\<exists>k. ser (bk_pk_codec B) k = Ok (bkp_public kp))"

lemma generated_public:
  "bbs_generate_keypair B n s = (Ok kp, s') \<Longrightarrow> \<exists>k. ser (bk_pk_codec B) k = Ok (bkp_public kp)"
  by (auto simp: bbs_generate_keypair_def bind_s_Ok_iff split: if_splits)

lemma bbs_ready_keeps: "keeps (suite_ok B) m \<Longrightarrow> keeps (bbs_ready B) m"
  by (simp add: keeps_def bbs_ready_def)

interpretation docknet_tests: presenting "bbs_ready B" "bbs_generate_keypair B" "bbs_sign_credential B"
  "bbs_derive_proof B" "bbs_verify_proof B" "bbs_key_ok B" "bbs_sig_ok B" "selective_valid B" for B
proof
  fix n :: nat assume n: "1 \<le> n" "n \<le> 64"
  then have c: "(word_of_nat n :: u32) \<noteq> 0" "(word_of_nat n :: u32) \<le> MAX_BBS_MESSAGES"
    using claim_count_nonzero [of "replicate n undefined"] by (auto simp: word_le_nat_alt unat_of_nat)
  show "runs (bbs_ready B) (bbs_generate_keypair B (word_of_nat n)) (bbs_key_ok B n)"
  proof (rule runs_keeps [OF bbs_ready_keeps [OF generate_keeps]])
    fix s assume "bbs_ready B s"
    then show "\<exists>x. fst (bbs_generate_keypair B (word_of_nat n) s) = Ok x \<and> bbs_key_ok B n x"
      using generate_ok [OF _ _ c, of B s] generated_public unfolding bbs_ready_def bbs_key_ok_def by (metis fst_conv)
  qed
next
  fix claims :: "bytes list" and kp
  assume c: "claims \<noteq> []" "length claims \<le> 64" "bbs_key_ok B (length claims) kp"
  show "runs (bbs_ready B) (bbs_sign_credential B claims (held (bkp_secret kp))) (bbs_sig_ok B claims kp)"
  proof (rule runs_keeps [OF bbs_ready_keeps [OF sign_keeps]])
    fix s assume s: "bbs_ready B s"
    from c(3) obtain params rng sk pk rng' where k: "bk_params_new B PARAMS_LABEL (word_of_nat (length claims)) = Ok params"
        "bk_keygen B rng params = ((sk, pk), rng')" "deser (bk_sk_codec B) (held (bkp_secret kp)) = Ok sk"
        "deser (bk_pk_codec B) (bkp_public kp) = Ok pk" "\<exists>k. ser (bk_pk_codec B) k = Ok (bkp_public kp)"
      unfolding bbs_key_ok_def by blast
    from s have s': "suite_ok B s" "backend_laws B" by (simp_all add: bbs_ready_def)
    show "\<exists>x. fst (bbs_sign_credential B claims (held (bkp_secret kp)) s) = Ok x \<and> bbs_sig_ok B claims kp x"
      using sign_ok [OF s' c(1,2) k(1,2,3)] k unfolding bbs_sig_ok_def by fastforce
  qed
next
  fix claims :: "bytes list" and kp sg reveal nonce
  assume c: "claims \<noteq> []" "length claims \<le> 64" "bbs_sig_ok B claims kp sg" "\<forall>i \<in> set reveal. i < length claims"
  show "runs (bbs_ready B) (bbs_derive_proof B claims sg reveal nonce) (\<lambda>p. selective_valid B p (bkp_public kp) nonce
      \<and> sp_revealed p = disclosed claims reveal \<and> sp_message_count p = word_of_nat (length claims))"
  proof (rule runs_keeps [OF bbs_ready_keeps [OF bbs_derive_keeps]])
    fix s assume "bbs_ready B s"
    then have s': "suite_ok B s" "backend_laws B" by (simp_all add: bbs_ready_def)
    from c(3) obtain params rng sk pk rng' rng1 rng1' sig where k:
        "bk_params_new B PARAMS_LABEL (word_of_nat (length claims)) = Ok params"
        "bk_keygen B rng params = ((sk, pk), rng')" "deser (bk_pk_codec B) (bkp_public kp) = Ok pk"
        "bk_sign B rng1 (map (claim_to_fr B) claims) sk params = (Some sig, rng1')"
        "deser (bk_sg_codec B) sg = Ok sig" unfolding bbs_sig_ok_def by blast
    obtain p s1 pf contribution where d: "bbs_derive_proof B claims sg reveal nonce s = (Ok p, s1)"
        "deser (bk_pf_codec B) (sp_proof p) = Ok pf"
        "bk_pf_contribution B pf (map (\<lambda>i. (i, map (claim_to_fr B) claims ! i)) (btree_set reveal)) params
           = Some contribution"
        "bk_pf_verify B pf (map (\<lambda>i. (i, map (claim_to_fr B) claims ! i)) (btree_set reveal))
           (challenge B contribution nonce) pk params"
      using derive_ok [OF s' c(1,2,4) k(1,2,4,5)] by blast
    have shape: "sp_revealed p = disclosed claims reveal" "sp_message_count p = word_of_nat (length claims)"
      using derive_facts [OF d(1)] by simp_all
    with selective_valid_derived [OF c(1,2,4) _ _ k(1,3) d(2,3,4)] d(1)
    show "\<exists>x. fst (bbs_derive_proof B claims sg reveal nonce s) = Ok x \<and> selective_valid B x (bkp_public kp) nonce
        \<and> sp_revealed x = disclosed claims reveal \<and> sp_message_count x = word_of_nat (length claims)" by simp
  qed
next
  fix p public nonce
  show "runs (bbs_ready B) (bbs_verify_proof B p public nonce) (\<lambda>b. b = selective_valid B p public nonce)"
    using verify_spec_aux by (intro runs_keeps [OF bbs_ready_keeps [OF verify_keeps]]) (auto simp: bbs_ready_def)
qed

text \<open>The bbs-2023 suite keeps the same promises; its state is the generator alone.\<close>

definition irtf_sig_ok ::
    "('r, 'sk, 'pk) irtf_backend \<Rightarrow> bytes list \<Rightarrow> BbsKeyPair \<Rightarrow> bytes \<Rightarrow> bool" where
  "irtf_sig_ok I claims kp sg \<longleftrightarrow> (\<exists>sig. sg = bkp_public kp @ sig \<and> length sig = 80 \<and> length (bkp_public kp) = 96
     \<and> irtf_key I (held (bkp_secret kp)) (bkp_public kp)
     \<and> ib_sign I (held (bkp_secret kp)) (bkp_public kp) None (Some claims) = Some sig)"

definition irtf_key_ok :: "('r, 'sk, 'pk) irtf_backend \<Rightarrow> nat \<Rightarrow> BbsKeyPair \<Rightarrow> bool" where
  "irtf_key_ok I n kp \<longleftrightarrow> irtf_key I (held (bkp_secret kp)) (bkp_public kp)
     \<and> length (held (bkp_secret kp)) = 32 \<and> length (bkp_public kp) = 96
     \<and> public_from_secret I (held (bkp_secret kp)) = Ok (bkp_public kp)"

interpretation irtf_tests: presenting "\<lambda>_. irtf_law I" "b23_suite_generate_keypair I"
  "\<lambda>claims secret. lift_s (b23_sign_credential I claims secret)" "b23_derive_proof I"
  "\<lambda>p public nonce. lift_s (Ok (b23_verify_proof I p public nonce))" "irtf_key_ok I" "irtf_sig_ok I"
  "b23_verify_proof I" for I
proof
  fix n :: nat
  show "runs (\<lambda>_. irtf_law I) (b23_suite_generate_keypair I (word_of_nat n)) (irtf_key_ok I n)"
    using irtf_generate [of I] unfolding runs_def b23_suite_generate_keypair_def irtf_key_ok_def by metis
next
  fix claims :: "bytes list" and kp
  assume c: "claims \<noteq> []" "irtf_key_ok I (length claims) kp"
  show "runs (\<lambda>_. irtf_law I) (lift_s (b23_sign_credential I claims (held (bkp_secret kp)))) (irtf_sig_ok I claims kp)"
    using irtf_sign [OF _ _ _ _ c(1)] c(2) unfolding runs_def irtf_key_ok_def irtf_sig_ok_def by fastforce
next
  fix claims :: "bytes list" and kp sg reveal nonce
  assume c: "claims \<noteq> []" "length claims \<le> 64" "irtf_sig_ok I claims kp sg" "\<forall>i \<in> set reveal. i < length claims"
  from c(3) obtain sig where k: "sg = bkp_public kp @ sig" "length sig = 80" "length (bkp_public kp) = 96"
      "irtf_key I (held (bkp_secret kp)) (bkp_public kp)"
      "ib_sign I (held (bkp_secret kp)) (bkp_public kp) None (Some claims) = Some sig"
    unfolding irtf_sig_ok_def by blast
  have "\<exists>p r. b23_derive_proof I claims sg reveal nonce r0 = (Ok p, r) \<and> b23_verify_proof I p (bkp_public kp) nonce"
    if "irtf_law I" for r0
    using irtf_derive_verify [OF that k(4,3,2) c(1) k(5) c(4)] c(2) by (simp add: k(1))
  then show "runs (\<lambda>_. irtf_law I) (b23_derive_proof I claims sg reveal nonce) (\<lambda>p. b23_verify_proof I p (bkp_public kp) nonce
      \<and> sp_revealed p = disclosed claims reveal \<and> sp_message_count p = word_of_nat (length claims))"
    unfolding runs_def by (metis b23_derive_shape)
qed (auto simp: runs_def)

end
