(* ===== verification/Phi_Tests_Bbs.thy ===== *)
theory Phi_Tests_Bbs
  imports Phi_Test_Kit Phi_Bip32 "HOL-Library.Sublist"
begin

section \<open>The unit tests of the suites (bbs.rs, bbs_2023.rs)\<close>

text \<open>
  Tests of \<open>bbs.rs\<close> and \<open>bbs_2023.rs\<close>, each from its first statement to its last, and that they pass.
  Where an assertion rests on more than the documented behaviour of the backends (a value
  of Blake2b, the refusal of a signature under another header), the lemma names what the
  backend has to do. The other tests that a forged or replayed proof is rejected and that two
  presentations differ rest on the hardness assumptions of the schemes and on the generator;
  they are left out.
\<close>

subsection \<open>Memoization, with derivations counted\<close>

text \<open>
  Under \<open>cfg(test)\<close> the crate counts the derivations per claim count. The counters are a map
  with default 0; \<open>params_for\<close> is the function of \<open>bbs.rs\<close> with that derivation.
\<close>

record 'p counted_cache =
  tc_cache :: "'p params_cache"
  tc_derivations :: "u32 \<Rightarrow> nat"

definition CACHE_TEST_COUNT :: u32 where "CACHE_TEST_COUNT = 61"
definition CACHE_EQ_COUNT :: u32 where "CACHE_EQ_COUNT = 62"

definition derivations_for :: "u32 \<Rightarrow> ('p counted_cache, nat) st" where
  "derivations_for cnt s = (Ok (tc_derivations s cnt), s)"

definition counted_derive_params :: "'p params_new \<Rightarrow> u32 \<Rightarrow> ('p counted_cache, 'p) st" where
  "counted_derive_params new cnt s =
     (new PARAMS_LABEL cnt, s\<lparr>tc_derivations := (tc_derivations s)(cnt := tc_derivations s cnt + 1)\<rparr>)"

definition counted_params_for :: "'p params_new \<Rightarrow> u32 \<Rightarrow> ('p counted_cache, 'p) st" where
  "counted_params_for new cnt s =
     (if cnt > MAX_BBS_MESSAGES then counted_derive_params new cnt s
      else case cache_get (tc_cache s) cnt of
        Some cached \<Rightarrow> (Ok cached, s)
      | None \<Rightarrow>
          bind_s (counted_derive_params new cnt) (\<lambda>params s.
            (Ok params, s\<lparr>tc_cache := cache_insert cnt params (tc_cache s)\<rparr>)) s)"

text \<open>Counting is invisible: on the cache, the counted function is \<open>params_for\<close>.\<close>

lemma counted_params_for_sim:
  "case counted_params_for new cnt s of (r, s') \<Rightarrow> params_for new cnt (tc_cache s) = (r, tc_cache s')"
  by (auto simp: counted_params_for_def params_for_def counted_derive_params_def derive_params_def bind_s_def
      split: option.split result.split)

text \<open>
  While the mutex is not poisoned, a count in range was derived once if it is cached and
  never otherwise. \<open>CACHE_EQ_COUNT\<close> is excepted, because its test also derives directly.
\<close>

definition counted_ok :: "'p params_new \<Rightarrow> 'p counted_cache \<Rightarrow> bool" where
  "counted_ok new s \<longleftrightarrow> (\<forall>label cnt. cnt \<noteq> 0 \<longrightarrow> (\<exists>p. new label cnt = Ok p))
     \<and> cache_ok new (tc_cache s) \<and> \<not> pc_poisoned (tc_cache s)
     \<and> (\<forall>cnt. cnt \<noteq> 0 \<longrightarrow> cnt \<le> MAX_BBS_MESSAGES \<longrightarrow> cnt \<noteq> CACHE_EQ_COUNT \<longrightarrow>
          tc_derivations s cnt = (if cache_get (tc_cache s) cnt = None then 0 else 1))"

lemma map_of_filter_neq: "k \<noteq> c \<Longrightarrow> map_of (filter (\<lambda>e. fst e \<noteq> c) xs) k = map_of xs k"
  by (induction xs) auto

lemma counted_params_for_runs:
  assumes "counted_ok new s" "cnt \<noteq> 0" "cnt \<le> MAX_BBS_MESSAGES"
  shows "\<exists>p s'. counted_params_for new cnt s = (Ok p, s') \<and> counted_ok new s'
     \<and> new PARAMS_LABEL cnt = Ok p \<and> cache_get (tc_cache s') cnt = Some p"
proof (cases "cache_get (tc_cache s) cnt")
  case (Some p)
  with assms(1,3) show ?thesis
    using cache_get_ok [of new "tc_cache s" cnt p]
    by (auto simp: counted_params_for_def counted_ok_def derive_params_def not_less)
next
  case None
  obtain p where p: "new PARAMS_LABEL cnt = Ok p" using assms(1,2) unfolding counted_ok_def by blast
  let ?c = "cache_insert cnt p (tc_cache s)"
  have get: "cache_get ?c k = (if k = cnt then Some p else cache_get (tc_cache s) k)" for k
    using assms(1) by (auto simp: cache_get_def cache_insert_def counted_ok_def map_of_filter_neq)
  have "cache_ok new ?c" "\<not> pc_poisoned ?c"
    using assms(1,3) p cache_insert_ok [of new "tc_cache s" cnt p]
    by (simp_all add: counted_ok_def derive_params_def cache_insert_def)
  with assms p None get show ?thesis
    by (auto simp: counted_params_for_def counted_derive_params_def bind_s_def counted_ok_def not_less)
qed

definition memoized_params_equal_a_fresh_derivation ::
    "'p params_new \<Rightarrow> 'p ark_codec \<Rightarrow> ('p counted_cache, unit) st" where
  "memoized_params_equal_a_fresh_derivation new P =
     bind_s (counted_derive_params new CACHE_EQ_COUNT) (\<lambda>fresh.
     bind_s (counted_params_for new CACHE_EQ_COUNT) (\<lambda>memoized.
     bind_s (assert_t (memoized = fresh)) (\<lambda>_.
     bind_s (expect (lift_s (ser P memoized))) (\<lambda>a.
     bind_s (expect (lift_s (ser P fresh))) (\<lambda>b.
     assert_t (a = b))))))"

definition repeated_params_for_does_not_recompute :: "'p params_new \<Rightarrow> ('p counted_cache, unit) st" where
  "repeated_params_for_does_not_recompute new =
     bind_s (counted_params_for new CACHE_TEST_COUNT) (\<lambda>first.
     bind_s (derivations_for CACHE_TEST_COUNT) (\<lambda>after_first.
     bind_s (assert_t (after_first = 1)) (\<lambda>_.
     bind_s (for_each [0..<8] (\<lambda>_.
       bind_s (counted_params_for new CACHE_TEST_COUNT) (\<lambda>again. assert_t (again = first)))) (\<lambda>_.
     bind_s (derivations_for CACHE_TEST_COUNT) (\<lambda>n.
     assert_t (n = after_first))))))"

definition out_of_range_counts_are_not_cached :: "'p params_new \<Rightarrow> ('p counted_cache, unit) st" where
  "out_of_range_counts_are_not_cached new =
     (let over = MAX_BBS_MESSAGES + 1 in
      bind_s (counted_params_for new over) (\<lambda>_.
      bind_s (counted_params_for new over) (\<lambda>_.
      bind_s (derivations_for over) (\<lambda>n.
      bind_s (assert_t (n = 2)) (\<lambda>_ s.
      assert_t (\<not> pc_poisoned (tc_cache s) \<and> map_of (pc_entries (tc_cache s)) over = None) s)))))"

lemma counted_params_passes:
  "cnt \<noteq> 0 \<Longrightarrow> cnt \<le> MAX_BBS_MESSAGES \<Longrightarrow>
     runs (counted_ok new) (counted_params_for new cnt) (\<lambda>p. new PARAMS_LABEL cnt = Ok p)"
  using counted_params_for_runs unfolding runs_def by blast

lemma memoized_params_passes:
  assumes "codec_law P"
  shows "passes (counted_ok new) (memoized_params_equal_a_fresh_derivation new P)"
proof -
  have d: "runs (counted_ok new) (counted_derive_params new CACHE_EQ_COUNT) (\<lambda>p. new PARAMS_LABEL CACHE_EQ_COUNT = Ok p)"
  proof (rule runsI)
    fix s assume s: "counted_ok new s"
    have "CACHE_EQ_COUNT \<noteq> 0" by (simp add: CACHE_EQ_COUNT_def)
    with s obtain p where "new PARAMS_LABEL CACHE_EQ_COUNT = Ok p" unfolding counted_ok_def by blast
    with s show "\<exists>x s'. counted_derive_params new CACHE_EQ_COUNT s = (Ok x, s') \<and> counted_ok new s'
        \<and> new PARAMS_LABEL CACHE_EQ_COUNT = Ok x"
      by (simp add: counted_derive_params_def counted_ok_def)
  qed
  have m: "runs (counted_ok new) (counted_params_for new CACHE_EQ_COUNT) (\<lambda>p. new PARAMS_LABEL CACHE_EQ_COUNT = Ok p)"
    by (rule counted_params_passes) (simp_all add: CACHE_EQ_COUNT_def MAX_BBS_MESSAGES_def)
  have e: "runs (counted_ok new) (expect (lift_s (ser P x))) (\<lambda>b. ser P x = Ok b)" for x
    using codec_law_ser [OF assms, of x] by (auto intro: runs_expect_lift)
  show ?thesis
    unfolding memoized_params_equal_a_fresh_derivation_def
    by (intro runs_bind [OF d] runs_bind [OF m] runs_assert_then runs_bind [OF e] runs_assert) simp_all
qed

lemma repeated_params_passes: "passes (counted_ok new) (repeated_params_for_does_not_recompute new)"
proof (rule runsI)
  fix s assume s: "counted_ok new s"
  have c: "CACHE_TEST_COUNT \<noteq> 0" "CACHE_TEST_COUNT \<le> MAX_BBS_MESSAGES" "CACHE_TEST_COUNT \<noteq> CACHE_EQ_COUNT"
    by (simp_all add: CACHE_TEST_COUNT_def CACHE_EQ_COUNT_def MAX_BBS_MESSAGES_def)
  obtain p s1 where p: "counted_params_for new CACHE_TEST_COUNT s = (Ok p, s1)" "counted_ok new s1"
      "cache_get (tc_cache s1) CACHE_TEST_COUNT = Some p"
    using counted_params_for_runs [OF s c(1,2)] by blast
  then have d: "tc_derivations s1 CACHE_TEST_COUNT = 1" using c unfolding counted_ok_def by simp
  have hit: "counted_params_for new CACHE_TEST_COUNT s1 = (Ok p, s1)"
    using p(3) c(2) by (auto simp: counted_params_for_def not_less [symmetric])
  have "for_each xs (\<lambda>_. bind_s (counted_params_for new CACHE_TEST_COUNT) (\<lambda>again. assert_t (again = p))) s1 = (Ok (), s1)"
    for xs :: "nat list"
    by (induction xs) (simp_all add: bind_s_def hit assert_t_def)
  with p d show "\<exists>x s'. repeated_params_for_does_not_recompute new s = (Ok x, s') \<and> counted_ok new s' \<and> True"
    by (simp add: repeated_params_for_does_not_recompute_def bind_s_def derivations_for_def assert_t_def)
qed

text \<open>The third test counts from zero: it passes where the count over the bound was never derived.\<close>

lemma out_of_range_passes:
  assumes "counted_ok new s" "tc_derivations s (MAX_BBS_MESSAGES + 1) = 0"
  shows "fst (out_of_range_counts_are_not_cached new s) = Ok ()"
proof -
  have o: "MAX_BBS_MESSAGES + 1 > MAX_BBS_MESSAGES" "MAX_BBS_MESSAGES + 1 \<noteq> 0" by (simp_all add: MAX_BBS_MESSAGES_def)
  then obtain p where p: "new PARAMS_LABEL (MAX_BBS_MESSAGES + 1) = Ok p" using assms(1) unfolding counted_ok_def by blast
  have "map_of (pc_entries (tc_cache s)) (MAX_BBS_MESSAGES + 1) = None"
    using assms(1) o(1) by (fastforce simp: counted_ok_def cache_ok_def map_of_eq_None_iff)
  with o p assms show ?thesis
    by (simp add: out_of_range_counts_are_not_cached_def Let_def bind_s_def counted_params_for_def
        counted_derive_params_def derivations_for_def assert_t_def counted_ok_def)
qed

subsection \<open>The transcript\<close>

text \<open>
  The known-answer test pins the bytes of the transcript and the challenge scalar. The scalar is a
  value of Blake2b, so its assertion is one about the backend; \<open>R\<close> is the codec of scalars.
\<close>

definition proof_transcript_framing_kat ::
    "('p, 'r, 'f, 'sk, 'pk, 'sg, 'pok, 'pf) bbs_backend \<Rightarrow> 'f ark_codec \<Rightarrow> ('s, unit) st" where
  "proof_transcript_framing_kat B R =
     (let t = proof_transcript (ascii ''CONTRIBUTION'') (ascii ''NONCE'') in
      bind_s (assert_t (hex_encode t = ascii (''00000010'' @ ''7068692d6262732d70726f6f662d7631'' @ ''0000000c''
        @ ''434f4e545249425554494f4e'' @ ''00000005'' @ ''4e4f4e4345''))) (\<lambda>_.
      bind_s (expect (lift_s (ser R (challenge B (ascii ''CONTRIBUTION'') (ascii ''NONCE''))))) (\<lambda>c.
      assert_t (hex_encode c = ascii ''e4fac975a93ed8a075f814e320e4146c8284dde6a515c1fca2b5cc54b6a8681f''))))"

definition transcript_is_domain_separated :: "('s, unit) st" where
  "transcript_is_domain_separated =
     (let with_domain = proof_transcript (ascii ''CONTRIBUTION'') (ascii ''NONCE'');
          without_domain = [];
          without_domain = put_bytes without_domain (ascii ''CONTRIBUTION'');
          without_domain = put_bytes without_domain (ascii ''NONCE'') in
      bind_s (assert_t (with_domain \<noteq> without_domain)) (\<lambda>_.
      assert_t (suffix without_domain with_domain)))"

definition transcript_field_boundaries_are_unambiguous :: "('s, unit) st" where
  "transcript_field_boundaries_are_unambiguous =
     (let a = proof_transcript (ascii ''AB'') (ascii ''C'');
          b = proof_transcript (ascii ''A'') (ascii ''BC'') in
      bind_s (assert_t (a \<noteq> b)) (\<lambda>_.
      assert_t (concat [ascii ''AB'', ascii ''C''] = concat [ascii ''A'', ascii ''BC''])))"

lemma framing_kat_passes:
  assumes "ser R (challenge B (ascii ''CONTRIBUTION'') (ascii ''NONCE'')) = Ok c"
    and "hex_encode c = ascii ''e4fac975a93ed8a075f814e320e4146c8284dde6a515c1fca2b5cc54b6a8681f''"
  shows "passes I (proof_transcript_framing_kat B R)"
proof -
  have f: "hex_encode (proof_transcript (ascii ''CONTRIBUTION'') (ascii ''NONCE'')) = ascii (''00000010''
      @ ''7068692d6262732d70726f6f662d7631'' @ ''0000000c'' @ ''434f4e545249425554494f4e'' @ ''00000005'' @ ''4e4f4e4345'')"
    by code_simp
  show ?thesis
    unfolding proof_transcript_framing_kat_def Let_def
    by (intro runs_assert_then runs_bind [OF runs_expect_lift [OF assms(1), where Q = "\<lambda>x. x = c"]] runs_assert f)
      (simp_all add: assms(2))
qed

lemma transcript_tests_pass:
  "passes I transcript_is_domain_separated" "passes I transcript_field_boundaries_are_unambiguous"
proof -
  show "passes I transcript_is_domain_separated"
    unfolding transcript_is_domain_separated_def Let_def
    by (intro runs_assert_then runs_assert)
      (simp_all add: proof_transcript_def put_bytes_eq suffix_def PROOF_CHALLENGE_DOMAIN_def ascii_def lp32_def)
  have "proof_transcript (ascii ''AB'') (ascii ''C'') \<noteq> proof_transcript (ascii ''A'') (ascii ''BC'')"
    using proof_transcript_framing.enc_inj
      [of "(ascii ''AB'', ascii ''C'')" "(ascii ''A'', ascii ''BC'')"] by (auto simp: fits32_def ascii_def)
  then show "passes I transcript_field_boundaries_are_unambiguous"
    unfolding transcript_field_boundaries_are_unambiguous_def Let_def
    by (intro runs_assert_then runs_assert) (simp_all add: ascii_def)
qed

subsection \<open>Issuing, presenting, verifying\<close>

definition sample_claims :: "bytes list" where
  "sample_claims = [ascii ''name=alice'', ascii ''birth_year=1990'', ascii ''city=metropolis'', ascii ''over_18=true'']"

definition sign_derive_verify_roundtrip ::
    "('p, 'r, 'f, 'sk, 'pk, 'sg, 'pok, 'pf) bbs_backend \<Rightarrow> (('p, 'r) suite_state, unit) st" where
  "sign_derive_verify_roundtrip B =
     (let claims = sample_claims in
      bind_s (expect (bbs_generate_keypair B (word_of_nat (length claims)))) (\<lambda>kp.
      bind_s (expect (bbs_sign_credential B claims (held (bkp_secret kp)))) (\<lambda>sig.
      bind_s (expect (bbs_derive_proof B claims sig [3] (ascii ''nonce-1''))) (\<lambda>proof.
      bind_s (assert_t (length (sp_revealed proof) = 1)) (\<lambda>_.
      bind_s (lift_s (index (sp_revealed proof) 0)) (\<lambda>e.
      bind_s (assert_t (e = (3, ascii ''over_18=true''))) (\<lambda>_.
      bind_s (bbs_verify_proof B proof (bkp_public kp) (ascii ''nonce-1'')) assert_t)))))))"

definition rejects_duplicate_revealed_index ::
    "('p, 'r, 'f, 'sk, 'pk, 'sg, 'pok, 'pf) bbs_backend \<Rightarrow> (('p, 'r) suite_state, unit) st" where
  "rejects_duplicate_revealed_index B =
     (let claims = sample_claims in
      bind_s (expect (bbs_generate_keypair B (word_of_nat (length claims)))) (\<lambda>kp.
      bind_s (expect (bbs_sign_credential B claims (held (bkp_secret kp)))) (\<lambda>sig.
      bind_s (expect (bbs_derive_proof B claims sig [3] (ascii ''nonce-1''))) (\<lambda>proof.
      bind_s (bbs_verify_proof B proof (bkp_public kp) (ascii ''nonce-1'')) (\<lambda>b. bind_s (assert_t b) (\<lambda>_.
      let proof = proof\<lparr>sp_revealed := sp_revealed proof @ [(3, ascii ''over_18=false'')]\<rparr> in
      bind_s (bbs_verify_proof B proof (bkp_public kp) (ascii ''nonce-1'')) (\<lambda>b. bind_s (assert_t (\<not> b)) (\<lambda>_.
      bind_s (expect (bbs_derive_proof B claims sig [3] (ascii ''nonce-1''))) (\<lambda>same.
      let same = same\<lparr>sp_revealed := sp_revealed same @ [(3, ascii ''over_18=true'')]\<rparr> in
      bind_s (bbs_verify_proof B same (bkp_public kp) (ascii ''nonce-1'')) (\<lambda>b. assert_t (\<not> b)))))))))))"

definition rejects_out_of_range_revealed_index ::
    "('p, 'r, 'f, 'sk, 'pk, 'sg, 'pok, 'pf) bbs_backend \<Rightarrow> (('p, 'r) suite_state, unit) st" where
  "rejects_out_of_range_revealed_index B =
     (let claims = sample_claims in
      bind_s (expect (bbs_generate_keypair B (word_of_nat (length claims)))) (\<lambda>kp.
      bind_s (expect (bbs_sign_credential B claims (held (bkp_secret kp)))) (\<lambda>sig.
      for_each [word_of_nat (length claims), word_of_nat (length claims) + 1, - 1] (\<lambda>bad.
        bind_s (expect (bbs_derive_proof B claims sig [3] (ascii ''nonce-1''))) (\<lambda>proof.
        let proof = proof\<lparr>sp_revealed := sp_revealed proof @ [(bad, ascii ''injected'')]\<rparr> in
        bind_s (bbs_verify_proof B proof (bkp_public kp) (ascii ''nonce-1'')) (\<lambda>b. assert_t (\<not> b)))))))"

definition accepts_a_well_formed_fully_revealed_proof ::
    "('p, 'r, 'f, 'sk, 'pk, 'sg, 'pok, 'pf) bbs_backend \<Rightarrow> (('p, 'r) suite_state, unit) st" where
  "accepts_a_well_formed_fully_revealed_proof B =
     (let claims = sample_claims in
      bind_s (expect (bbs_generate_keypair B (word_of_nat (length claims)))) (\<lambda>kp.
      bind_s (expect (bbs_sign_credential B claims (held (bkp_secret kp)))) (\<lambda>sig.
      let all = [0..<length claims] in
      bind_s (expect (bbs_derive_proof B claims sig all (ascii ''nonce-1''))) (\<lambda>proof.
      bind_s (assert_t (length (sp_revealed proof) = length claims)) (\<lambda>_.
      bind_s (bbs_verify_proof B proof (bkp_public kp) (ascii ''nonce-1'')) assert_t)))))"

definition deser_rejects_trailing_bytes ::
    "('p, 'r, 'f, 'sk, 'pk, 'sg, 'pok, 'pf) bbs_backend \<Rightarrow> (('p, 'r) suite_state, unit) st" where
  "deser_rejects_trailing_bytes B =
     bind_s (expect (bbs_generate_keypair B 2)) (\<lambda>kp.
     bind_s (is_err_s (lift_s (deser (bk_pk_codec B) (bkp_public kp)))) (\<lambda>e.
     bind_s (assert_t (\<not> e)) (\<lambda>_.
     let padded = bkp_public kp @ [0] in
     bind_s (is_err_s (lift_s (deser (bk_pk_codec B) padded))) assert_t)))"

lemma sample_claims_ok: "sample_claims \<noteq> []" "length sample_claims \<le> 64" "length sample_claims = 4"
  by (simp_all add: sample_claims_def)

lemma disclosed_sample [simp]: "disclosed sample_claims [3] = [(3, ascii ''over_18=true'')]"
  by (simp add: disclosed_def btree_set_def sample_claims_def)

lemma invalid_appended:
  "\<not> e < sp_message_count p \<or> e \<in> fst ` set (sp_revealed p) \<Longrightarrow>
     \<not> selective_valid B (p\<lparr>sp_revealed := sp_revealed p @ [(e, v)]\<rparr>) public nonce"
  by (auto simp: selective_valid_def)

lemmas issue_sample = docknet_tests.issue [OF sample_claims_ok(1,2)]
lemmas present_sample = docknet_tests.present [OF sample_claims_ok(1,2)]

lemma roundtrip_passes: "passes (bbs_ready B) (sign_derive_verify_roundtrip B)"
  unfolding sign_derive_verify_roundtrip_def Let_def
  by (intro issue_sample present_sample runs_assert_then docknet_tests.accepted_last
      runs_bind [OF runs_lift_result [where Q = "\<lambda>e. e = (3, ascii ''over_18=true'')"]])
    (auto simp: index_def sample_claims_ok)

lemma duplicate_index_passes: "passes (bbs_ready B) (rejects_duplicate_revealed_index B)"
  unfolding rejects_duplicate_revealed_index_def Let_def
  by (intro issue_sample present_sample docknet_tests.accepted docknet_tests.refused docknet_tests.refused_last
      invalid_appended) (auto simp: sample_claims_ok)

lemma out_of_range_index_passes: "passes (bbs_ready B) (rejects_out_of_range_revealed_index B)"
  unfolding rejects_out_of_range_revealed_index_def Let_def
  by (intro issue_sample runs_for_each present_sample docknet_tests.refused_last invalid_appended)
    (auto simp: sample_claims_ok)

lemma fully_revealed_passes: "passes (bbs_ready B) (accepts_a_well_formed_fully_revealed_proof B)"
  unfolding accepts_a_well_formed_fully_revealed_proof_def Let_def
  by (intro issue_sample present_sample runs_assert_then docknet_tests.accepted_last)
    (auto simp: disclosed_def btree_set_def sample_claims_ok)

lemma generated_public_runs:
  "runs (bbs_ready B) (bbs_generate_keypair B 2)
     (\<lambda>kp. \<exists>pk. ser (bk_pk_codec B) pk = Ok (bkp_public kp) \<and> codec_law (bk_pk_codec B))"
proof (rule runsI)
  fix s assume s: "bbs_ready B s"
  then obtain kp s' where "bbs_generate_keypair B 2 s = (Ok kp, s')" "bbs_ready B s'" "bbs_key_ok B 2 kp"
    using runsD [OF docknet_tests.gen_runs [of 2 B] s] by auto
  with s show "\<exists>x s'. bbs_generate_keypair B 2 s = (Ok x, s') \<and> bbs_ready B s'
      \<and> (\<exists>pk. ser (bk_pk_codec B) pk = Ok (bkp_public x) \<and> codec_law (bk_pk_codec B))"
    by (auto simp: bbs_ready_def backend_laws_def bbs_key_ok_def)
qed

lemma trailing_passes: "passes (bbs_ready B) (deser_rejects_trailing_bytes B)"
  unfolding deser_rejects_trailing_bytes_def Let_def
proof (rule runs_bind [OF runs_expect [OF generated_public_runs]], elim exE conjE)
  fix kp pk assume pk: "ser (bk_pk_codec B) pk = Ok (bkp_public kp)" "codec_law (bk_pk_codec B)"
  then have "deser (bk_pk_codec B) (bkp_public kp) = Ok pk" using codec_law_ser [OF pk(2), of pk] by auto
  moreover have "\<exists>e. deser (bk_pk_codec B) (bkp_public kp @ [0]) = Err e"
    using deser_rejects_trailing [OF pk(2,1), of "[0]"] by simp
  ultimately show "passes (bbs_ready B) (bind_s (is_err_s (lift_s (deser (bk_pk_codec B) (bkp_public kp))))
      (\<lambda>e. bind_s (assert_t (\<not> e)) (\<lambda>_. bind_s (is_err_s (lift_s (deser (bk_pk_codec B) (bkp_public kp @ [0])))) assert_t)))"
    by (intro runs_checked [OF runs_is_ok [OF runs_lift_result]] runs_bind [OF runs_rejected]) auto
qed

subsection \<open>Degenerate counts\<close>

definition proof_bytes_with_count :: "u32 \<Rightarrow> bytes" where
  "proof_bytes_with_count message_count =
     (let out = [];
          out = out @ u32_to_be_bytes message_count;
          out = out @ u32_to_be_bytes 0;
          out = out @ u32_to_be_bytes 0 in out)"

definition rejects_degenerate_message_count_in_o1 ::
    "('p, 'r, 'f, 'sk, 'pk, 'sg, 'pok, 'pf) bbs_backend \<Rightarrow> (('p, 'r) suite_state, unit) st" where
  "rejects_degenerate_message_count_in_o1 B =
     bind_s (for_each [0, - 1 - 1] (\<lambda>mc.
       bind_s (is_err_s (lift_s (sp_from_bytes (proof_bytes_with_count mc)))) (\<lambda>e. bind_s (assert_t e) (\<lambda>_.
       bind_s (bbs_verify_proof_bytes B (proof_bytes_with_count mc) (ascii ''pk'') (ascii ''n'')) (\<lambda>b.
       assert_t (\<not> b)))))) (\<lambda>_.
     let oversized = \<lparr>sp_message_count = - 1 - 1, sp_proof = [], sp_revealed = []\<rparr> in
     bind_s (bbs_verify_proof B oversized (ascii ''pk'') (ascii ''n'')) (\<lambda>b. bind_s (assert_t (\<not> b)) (\<lambda>_.
     let zero = \<lparr>sp_message_count = 0, sp_proof = [], sp_revealed = []\<rparr> in
     bind_s (bbs_verify_proof B zero (ascii ''pk'') (ascii ''n'')) (\<lambda>b. assert_t (\<not> b)))))"

definition keygen_sign_proof_reject_degenerate_message_count ::
    "('p, 'r, 'f, 'sk, 'pk, 'sg, 'pok, 'pf) bbs_backend \<Rightarrow> (('p, 'r) suite_state, unit) st" where
  "keygen_sign_proof_reject_degenerate_message_count B =
     bind_s (is_err_s (bbs_generate_keypair B 0)) (\<lambda>e. bind_s (assert_t e) (\<lambda>_.
     bind_s (is_err_s (bbs_generate_keypair B (- 1 - 1))) (\<lambda>e. bind_s (assert_t e) (\<lambda>_.
     bind_s (is_err_s (bbs_generate_keypair B MAX_BBS_MESSAGES)) (\<lambda>e. bind_s (assert_t (\<not> e)) (\<lambda>_.
     bind_s (is_err_s (bbs_generate_keypair B (MAX_BBS_MESSAGES + 1))) (\<lambda>e. bind_s (assert_t e) (\<lambda>_.
     let too_many = map (\<lambda>i. ascii ''c'' @ decimal i) [0..<unat MAX_BBS_MESSAGES + 1] in
     bind_s (is_err_s (bbs_sign_credential B too_many (ascii ''sk''))) (\<lambda>e. bind_s (assert_t e) (\<lambda>_.
     bind_s (is_err_s (bbs_derive_proof B too_many (ascii ''sig'') [0] (ascii ''n''))) assert_t))))))))))"

definition rejects_more_revealed_than_message_count :: "('s, unit) st" where
  "rejects_more_revealed_than_message_count =
     (let out = [];
          out = out @ u32_to_be_bytes 1;
          out = out @ u32_to_be_bytes 0;
          out = out @ u32_to_be_bytes 2;
          out = fold (\<lambda>(idx, claim) out. out @ u32_to_be_bytes idx @ len_be32 (length claim) @ claim)
                  [(0, ascii ''a''), (1, ascii ''b'')] out in
      bind_s (is_err_s (lift_s (sp_from_bytes out))) assert_t)"

text \<open>A header whose counts are out of range is refused, whatever follows it.\<close>

lemma sp_from_bytes_range:
  assumes "fits64 (u32_to_be_bytes mc @ lp32 pf @ u32_to_be_bytes n @ rest)" "fits32 pf"
    and "mc = 0 \<or> mc > MAX_BBS_MESSAGES \<or> unat n > unat mc"
  shows "\<exists>e. sp_from_bytes (u32_to_be_bytes mc @ lp32 pf @ u32_to_be_bytes n @ rest) = Err e"
proof -
  let ?b = "u32_to_be_bytes mc @ lp32 pf @ u32_to_be_bytes n @ rest"
  have "\<not> sp_from_bytes ?b = Ok p" for p
  proof
    assume "sp_from_bytes ?b = Ok p"
    then have p: "sp_wf p" "?b = sp_to_bytes p" using sp_from_bytes_sound [OF assms(1)] by auto
    then have f: "fits32 (sp_proof p)" by (simp add: sp_wf_def)
    from p(2) have "sp_message_count p = mc" "n = word_of_nat (length (sp_revealed p))"
      using f assms(2) by (auto simp: sp_to_bytes_eq be32.append_eq_iff lp32.append_eq_iff)
    moreover have "unat (word_of_nat (length (sp_revealed p)) :: u32) = length (sp_revealed p)"
      using p(1) unat_revealed_count by (auto simp: sp_wf_def)
    ultimately show False
      using p(1) assms(3) by (auto simp: sp_wf_def message_count_in_range_def not_less [symmetric])
  qed
  then show ?thesis using sp_from_bytes_no_panic [OF assms(1)] by (cases "sp_from_bytes ?b") auto
qed

lemma degenerate_bytes_rejected:
  assumes "mc = 0 \<or> mc > MAX_BBS_MESSAGES"
  shows "\<exists>e. sp_from_bytes (proof_bytes_with_count mc) = Err e"
proof -
  have "proof_bytes_with_count mc = u32_to_be_bytes mc @ lp32 [] @ u32_to_be_bytes 0 @ []"
    by (simp add: proof_bytes_with_count_def lp32_def len_be32_def)
  then show ?thesis using sp_from_bytes_range [of mc "[]" 0 "[]"] assms by (simp add: fits64_def fits32_def)
qed

lemma huge_count: "(- 1 - 1 :: u32) > MAX_BBS_MESSAGES"
  by code_simp

lemma degenerate_count_passes: "passes (bbs_ready B) (rejects_degenerate_message_count_in_o1 B)"
proof -
  have d: "passes (bbs_ready B) (bind_s (is_err_s (lift_s (sp_from_bytes (proof_bytes_with_count mc)))) (\<lambda>e. bind_s (assert_t e) (\<lambda>_.
       bind_s (bbs_verify_proof_bytes B (proof_bytes_with_count mc) (ascii ''pk'') (ascii ''n'')) (\<lambda>b. assert_t (\<not> b)))))"
    if mc: "mc = 0 \<or> mc > MAX_BBS_MESSAGES" for mc
  proof (rule runs_checked [OF runs_rejected [OF degenerate_bytes_rejected [OF mc]]])
    show "passes (bbs_ready B) (bind_s (bbs_verify_proof_bytes B (proof_bytes_with_count mc) (ascii ''pk'') (ascii ''n''))
        (\<lambda>b. assert_t (\<not> b)))"
      using degenerate_bytes_rejected [OF mc] by (auto simp: runs_def bind_s_def bbs_verify_proof_bytes_def assert_t_def)
  qed
  have n: "\<not> selective_valid B \<lparr>sp_message_count = mc, sp_proof = [], sp_revealed = []\<rparr> pk n"
    if "mc = 0 \<or> mc > MAX_BBS_MESSAGES" for mc pk n
    using that by (auto simp: selective_valid_def word_less_nat_alt)
  show ?thesis
    unfolding rejects_degenerate_message_count_in_o1_def Let_def
    using huge_count by (intro runs_bind [OF runs_for_each] d docknet_tests.refused docknet_tests.refused_last n) auto
qed

lemma keygen_degenerate_passes: "passes (bbs_ready B) (keygen_sign_proof_reject_degenerate_message_count B)"
proof -
  have g: "runs (bbs_ready B) (is_err_s (bbs_generate_keypair B mc)) (\<lambda>b. b)" if "mc = 0 \<or> mc > MAX_BBS_MESSAGES" for mc
    using that by (intro runs_is_err) (auto simp: bbs_generate_keypair_def)
  have m: "(word_of_nat 64 :: u32) = MAX_BBS_MESSAGES" by (simp add: MAX_BBS_MESSAGES_def)
  have k: "runs (bbs_ready B) (is_err_s (bbs_generate_keypair B MAX_BBS_MESSAGES)) (\<lambda>b. \<not> b)"
    by (rule runs_is_ok, rule runs_mono [OF docknet_tests.gen_runs [of 64 B, unfolded m]]) simp_all
  have "(MAX_BBS_MESSAGES + 1) > MAX_BBS_MESSAGES" by (simp add: MAX_BBS_MESSAGES_def)
  then show ?thesis
    unfolding keygen_sign_proof_reject_degenerate_message_count_def Let_def
    using huge_count
    by (intro runs_checked [OF g] runs_checked [OF k] runs_checked [OF runs_is_err] runs_bind [OF runs_is_err] runs_assert)
      (auto simp: bbs_sign_credential_def bbs_derive_proof_def)
qed

lemma more_revealed_passes: "passes I rejects_more_revealed_than_message_count"
proof -
  let ?entries = "u32_to_be_bytes 0 @ lp32 (ascii ''a'') @ u32_to_be_bytes 1 @ lp32 (ascii ''b'')"
  have "\<exists>e. sp_from_bytes (u32_to_be_bytes 1 @ lp32 [] @ u32_to_be_bytes 2 @ ?entries) = Err e"
    by (rule sp_from_bytes_range) (simp_all add: fits64_def fits32_def ascii_def)
  then show ?thesis
    unfolding rejects_more_revealed_than_message_count_def Let_def
    by (intro runs_bind [OF runs_rejected] runs_assert) (auto simp: lp32_def len_be32_def)
qed

subsection \<open>The bbs-2023 suite\<close>

definition irtf_claims :: "bytes list" where
  "irtf_claims = [ascii ''did=did:phi:xyz'', ascii ''birth_year=1990'', ascii ''over_18=true'']"

definition suite_sign_derive_verify_roundtrip :: "('r, 'sk, 'pk) irtf_backend \<Rightarrow> ('r, unit) st" where
  "suite_sign_derive_verify_roundtrip I =
     bind_s (expect (b23_suite_generate_keypair I 3)) (\<lambda>kp.
     bind_s (expect (lift_s (b23_sign_credential I irtf_claims (held (bkp_secret kp))))) (\<lambda>cred.
     bind_s (expect (b23_derive_proof I irtf_claims cred [2] (ascii ''ph-1''))) (\<lambda>proof.
     bind_s (assert_t (sp_revealed proof = [(2, ascii ''over_18=true'')])) (\<lambda>_.
     bind_s (lift_s (Ok (b23_verify_proof I proof (bkp_public kp) (ascii ''ph-1'')))) assert_t))))"

definition raw_sign_verify_roundtrip_with_header :: "('r, 'sk, 'pk) irtf_backend \<Rightarrow> ('r, unit) st" where
  "raw_sign_verify_roundtrip_with_header I =
     bind_s (expect (b23_generate_keypair I)) (\<lambda>kp.
     let msgs = irtf_claims;
         header = ascii ''ctx-header'' in
     bind_s (expect (lift_s (b23_sign I (held (bkp_secret kp)) (bkp_public kp) header msgs))) (\<lambda>sig.
     bind_s (assert_t (length sig = SIGNATURE_LEN)) (\<lambda>_.
     bind_s (assert_t (b23_verify I (bkp_public kp) header msgs sig)) (\<lambda>_.
     assert_t (\<not> b23_verify I (bkp_public kp) (ascii ''other'') msgs sig)))))"

lemma suite_roundtrip_passes: "passes (\<lambda>_. irtf_law I) (suite_sign_derive_verify_roundtrip I)"
proof -
  have c: "irtf_claims \<noteq> []" "length irtf_claims \<le> 64" "word_of_nat (length irtf_claims) = (3 :: u32)"
    by (simp_all add: irtf_claims_def)
  have d: "disclosed irtf_claims [2] = [(2, ascii ''over_18=true'')]"
    by (simp add: disclosed_def btree_set_def irtf_claims_def)
  have r: "\<forall>i \<in> set [2]. i < length irtf_claims" by (simp add: irtf_claims_def)
  show ?thesis
    unfolding suite_sign_derive_verify_roundtrip_def
    by (rule irtf_tests.issue [OF c(1,2), unfolded c(3)], rule irtf_tests.present [OF c(1,2) _ r], assumption)
      (intro runs_assert_then irtf_tests.accepted_last, simp_all add: d)
qed

text \<open>The last assertion is the binding of the header, which the ciphersuite has to give.\<close>

lemma raw_roundtrip_passes:
  assumes bound: "\<And>pk sig. b23_verify I pk (ascii ''ctx-header'') irtf_claims sig \<Longrightarrow>
      \<not> b23_verify I pk (ascii ''other'') irtf_claims sig"
  shows "passes (\<lambda>_. irtf_law I) (raw_sign_verify_roundtrip_with_header I)"
proof (rule runsI)
  fix r0 assume law: "irtf_law I"
  obtain kp r1 where k: "b23_generate_keypair I r0 = (Ok kp, r1)" "irtf_key I (held (bkp_secret kp)) (bkp_public kp)"
      "length (held (bkp_secret kp)) = 32" "length (bkp_public kp) = 96"
    using irtf_generate [OF law] by blast
  have "\<forall>sk pk header messages. irtf_key I sk pk \<longrightarrow> messages \<noteq> [] \<longrightarrow>
        (\<exists>sig. ib_sign I sk pk header (Some messages) = Some sig \<and> length sig = 80
           \<and> ib_verify I pk header (Some messages) sig = Some True)"
    using law unfolding irtf_law_def by blast
  moreover have "irtf_claims \<noteq> []" by (simp add: irtf_claims_def)
  ultimately obtain sig where "ib_sign I (held (bkp_secret kp)) (bkp_public kp) (opt (ascii ''ctx-header'')) (Some irtf_claims) = Some sig"
      "length sig = 80" "ib_verify I (bkp_public kp) (opt (ascii ''ctx-header'')) (Some irtf_claims) sig = Some True"
    using k(2) by blast
  with k have s: "b23_sign I (held (bkp_secret kp)) (bkp_public kp) (ascii ''ctx-header'') irtf_claims = Ok sig"
      "length sig = SIGNATURE_LEN" "b23_verify I (bkp_public kp) (ascii ''ctx-header'') irtf_claims sig"
    by (simp_all add: b23_sign_def b23_verify_def try_into_array_def SECRET_KEY_LEN_def PUBLIC_KEY_LEN_def SIGNATURE_LEN_def)
  with k(1) law bound [OF s(3)]
  show "\<exists>x s'. raw_sign_verify_roundtrip_with_header I r0 = (Ok x, s') \<and> irtf_law I \<and> True"
    by (simp add: raw_sign_verify_roundtrip_with_header_def bind_s_def expect_def Let_def assert_t_def)
qed

end
