(* ===== verification/Phi_Vote_Binding.thy ===== *)
theory Phi_Vote_Binding
  imports Phi_Vote_Props
begin

section \<open>A ballot cannot be reused\<close>

text \<open>
  The challenge of an accepted ballot is determined by its discrete-log proof and its
  nullifier, because the scalars act on the group without torsion; and the challenge is the
  hash of everything the ballot is bound to. Hence an accepted discrete-log proof belongs to
  one issuer, one chain, one signal and one credential size only, unless a hash collides. The
  collision is exhibited: \<open>ballot_transcript\<close> computes the bytes the verifier hashes.
\<close>

subsection \<open>The transcript of a ballot\<close>

definition ballot_transcript ::
    "('p, 'r, 'f::comm_ring_1, 'sk, 'pk, 'sg, 'pok, 'pf, 'g::ab_group_add) vote_backend \<Rightarrow> 'g vote_proof \<Rightarrow>
     bytes \<Rightarrow> bytes \<Rightarrow> bytes \<Rightarrow> bytes \<Rightarrow> (bytes, crypto_error) result" where
  "ballot_transcript V p issuer chain_id election_id signal =
     (let B = vb_bbs V in
      bind_r (bk_params_new B PARAMS_LABEL (vo_message_count p)) (\<lambda>params.
      bind_r (deser (bk_pk_codec B) issuer) (\<lambda>pk.
      bind_r (deser (bk_pf_codec B) (vo_bbs_proof p)) (\<lambda>bbs.
      bind_r (deser (vb_dl_codec V) (vo_dl_proof p)) (\<lambda>dl.
      bind_r (ok_or VerificationFailed (collect_revealed (claim_to_fr B) (vo_message_count p) [] (vo_revealed p)))
        (\<lambda>msgs.
      bind_r (hash_to_g1 V election_id) (\<lambda>h_e.
      bind_r (ser (vb_g_codec V) (vo_nullifier p)) (\<lambda>nb.
      bind_r (ser (bk_pk_codec B) pk) (\<lambda>pkb.
      vote_transcript (bk_sha256 B)
        (ok_or VerificationFailed (bk_pf_contribution B bbs msgs params))
        (ok_or VerificationFailed (dl_contribution (vb_g_codec V) dl h_e (vo_nullifier p)))
        (vo_message_count p) pkb chain_id election_id nb signal)))))))))"

text \<open>The issuer key as the verifier hashes it, and the ballot context.\<close>

definition issuer_bytes ::
    "('p, 'r, 'f, 'sk, 'pk, 'sg, 'pok, 'pf, 'g) vote_backend \<Rightarrow> bytes \<Rightarrow> (bytes, crypto_error) result" where
  "issuer_bytes V issuer =
     bind_r (deser (bk_pk_codec (vb_bbs V)) issuer) (ser (bk_pk_codec (vb_bbs V)))"

definition ballot_context ::
    "('p, 'r, 'f, 'sk, 'pk, 'sg, 'pok, 'pf, 'g) vote_backend \<Rightarrow> 'g vote_proof \<Rightarrow> bytes \<Rightarrow> bytes \<Rightarrow> bytes \<Rightarrow>
     (bytes, crypto_error) result" where
  "ballot_context V p chain_id election_id signal =
     bind_r (ser (vb_g_codec V) (vo_nullifier p)) (\<lambda>nb. Ok (bind_context_preimage chain_id election_id nb signal))"

text \<open>
  What the code relies on: a multiple of a point is the identity only if the point or the
  scalar is zero (the group has prime order), a digest has 32 bytes, and the backend's
  encodings of keys and commitments have lengths that a \<open>u32\<close> can represent.
\<close>

definition order_law :: "('g::zero \<Rightarrow> 'f::zero \<Rightarrow> 'g) \<Rightarrow> bool" where
  "order_law mul \<longleftrightarrow> (\<forall>y a. mul y a = 0 \<longrightarrow> y = 0 \<or> a = 0)"

definition size_law :: "('p, 'r, 'f, 'sk, 'pk, 'sg, 'pok, 'pf) bbs_backend \<Rightarrow> bool" where
  "size_law B \<longleftrightarrow> (\<forall>x. length (bk_sha256 B x) = 32)
     \<and> (\<forall>k e. serialize_compressed (bk_pk_codec B) k = Some e \<longrightarrow> fits32 e)
     \<and> (\<forall>pf msgs params e. bk_pf_contribution B pf msgs params = Some e \<longrightarrow> fits32 e)"

text \<open>One commitment and one response determine the challenge.\<close>

lemma dl_challenge_unique:
  assumes "group_law mul" "order_law mul" "y \<noteq> 0" "dl_verify mul dl y base c" "dl_verify mul dl y base c'"
  shows "c = c'"
proof -
  have "mul y (c - c') = 0"
    using assms(4,5) by (simp add: dl_verify_def group_law_diff [OF assms(1)] algebra_simps)
  with assms(2,3) have "c - c' = 0" unfolding order_law_def by blast
  then show ?thesis by simp
qed

lemma dl_contribution_fits:
  assumes "point_law G" "dl_contribution G dl base y = Some d"
  shows "fits32 d"
proof -
  have "length e = 48" if "serialize_compressed G x = Some e" for x e
    using point_ser [OF assms(1), of x] that by (auto simp: ser_def)
  then have "length d = 144"
    using assms(2) by (fastforce simp: dl_contribution_def dl_compute_contribution_def split: option.splits)
  then show ?thesis by (simp add: fits32_def)
qed

text \<open>What acceptance fixes, in the terms the challenge is computed from.\<close>

lemma vote_valid_bound:
  assumes "vote_valid V p issuer ch el sg" "point_law (vb_g_codec V)" "size_law (vb_bbs V)"
  shows "\<exists>dl h_e pkb b d nb c.
      deser (vb_dl_codec V) (vo_dl_proof p) = Ok dl \<and> hash_to_g1 V el = Ok h_e
      \<and> dl_verify (vb_mul V) dl (vo_nullifier p) h_e c
      \<and> c = bk_oracle (vb_bbs V)
          (transcript_bytes (vo_message_count p) pkb b d (bind_context (bk_sha256 (vb_bbs V)) ch el nb sg))
      \<and> ballot_transcript V p issuer ch el sg
          = Ok (transcript_bytes (vo_message_count p) pkb b d (bind_context (bk_sha256 (vb_bbs V)) ch el nb sg))
      \<and> issuer_bytes V issuer = Ok pkb \<and> ser (vb_g_codec V) (vo_nullifier p) = Ok nb
      \<and> fits32 pkb \<and> fits32 b \<and> fits32 d \<and> fits64 nb"
proof -
  from assms(1) obtain params pk bbs dl msgs h_e nb pkb b d c where v:
      "bk_params_new (vb_bbs V) PARAMS_LABEL (vo_message_count p) = Ok params"
      "deser (bk_pk_codec (vb_bbs V)) issuer = Ok pk"
      "deser (bk_pf_codec (vb_bbs V)) (vo_bbs_proof p) = Ok bbs"
      "deser (vb_dl_codec V) (vo_dl_proof p) = Ok dl"
      "collect_revealed (claim_to_fr (vb_bbs V)) (vo_message_count p) [] (vo_revealed p) = Some msgs"
      "hash_to_g1 V el = Ok h_e" "ser (vb_g_codec V) (vo_nullifier p) = Ok nb"
      "ser (bk_pk_codec (vb_bbs V)) pk = Ok pkb" "bk_pf_contribution (vb_bbs V) bbs msgs params = Some b"
      "dl_contribution (vb_g_codec V) dl h_e (vo_nullifier p) = Some d"
      "compute_challenge (vb_bbs V) (Ok b) (Ok d) (vo_message_count p) pkb ch el nb sg = Ok c"
      "dl_verify (vb_mul V) dl (vo_nullifier p) h_e c"
    unfolding vote_valid_def by blast
  let ?t = "transcript_bytes (vo_message_count p) pkb b d (bind_context (bk_sha256 (vb_bbs V)) ch el nb sg)"
  have "ballot_transcript V p issuer ch el sg = Ok ?t"
    using v by (simp add: ballot_transcript_def Let_def vote_transcript_Ok transcript_bytes_def)
  moreover have "issuer_bytes V issuer = Ok pkb" using v(2,8) by (simp add: issuer_bytes_def)
  moreover have "fits32 pkb" "fits32 b"
    using assms(3) v(8,9) by (auto simp: size_law_def ser_def)
  moreover have "fits64 nb" using point_ser [OF assms(2), of "vo_nullifier p"] v(7) by (auto simp: fits64_def)
  ultimately show ?thesis
    using v(4,6,7,12) challenge_oracle [OF v(11)] dl_contribution_fits [OF assms(2) v(10)] by blast
qed

lemma vote_bound_once:
  assumes "group_law (vb_mul V)" "order_law (vb_mul V)" "point_law (vb_g_codec V)" "size_law (vb_bbs V)"
    and "vote_valid V p issuer ch el sg" "vote_valid V p' issuer' ch' el sg'"
    and "vo_dl_proof p = vo_dl_proof p'" "vo_nullifier p = vo_nullifier p'"
    and "fits64 ch" "fits64 ch'" "fits64 el" "fits64 sg" "fits64 sg'"
  shows "(\<exists>pkb. issuer_bytes V issuer = Ok pkb \<and> issuer_bytes V issuer' = Ok pkb)
       \<and> vo_message_count p = vo_message_count p' \<and> ch = ch' \<and> sg = sg'
     \<or> (\<exists>t t'. ballot_transcript V p issuer ch el sg = Ok t \<and> ballot_transcript V p' issuer' ch' el sg' = Ok t'
          \<and> collision (bk_oracle (vb_bbs V)) t t')
     \<or> (\<exists>x x'. ballot_context V p ch el sg = Ok x \<and> ballot_context V p' ch' el sg' = Ok x'
          \<and> collision (bk_sha256 (vb_bbs V)) x x')"
proof -
  let ?H = "bk_sha256 (vb_bbs V)"
  obtain dl h_e pkb b d nb c where v: "deser (vb_dl_codec V) (vo_dl_proof p) = Ok dl" "hash_to_g1 V el = Ok h_e"
      "dl_verify (vb_mul V) dl (vo_nullifier p) h_e c"
      "c = bk_oracle (vb_bbs V) (transcript_bytes (vo_message_count p) pkb b d (bind_context ?H ch el nb sg))"
      "ballot_transcript V p issuer ch el sg
         = Ok (transcript_bytes (vo_message_count p) pkb b d (bind_context ?H ch el nb sg))"
      "issuer_bytes V issuer = Ok pkb" "ser (vb_g_codec V) (vo_nullifier p) = Ok nb"
      "fits32 pkb" "fits32 b" "fits32 d" "fits64 nb"
    using vote_valid_bound [OF assms(5,3,4)] by blast
  obtain dl' h_e' pkb' b' d' nb' c' where v': "deser (vb_dl_codec V) (vo_dl_proof p') = Ok dl'" "hash_to_g1 V el = Ok h_e'"
      "dl_verify (vb_mul V) dl' (vo_nullifier p') h_e' c'"
      "c' = bk_oracle (vb_bbs V) (transcript_bytes (vo_message_count p') pkb' b' d' (bind_context ?H ch' el nb' sg'))"
      "ballot_transcript V p' issuer' ch' el sg'
         = Ok (transcript_bytes (vo_message_count p') pkb' b' d' (bind_context ?H ch' el nb' sg'))"
      "issuer_bytes V issuer' = Ok pkb'" "ser (vb_g_codec V) (vo_nullifier p') = Ok nb'"
      "fits32 pkb'" "fits32 b'" "fits32 d'" "fits64 nb'"
    using vote_valid_bound [OF assms(6,3,4)] by blast
  define t where "t = transcript_bytes (vo_message_count p) pkb b d (bind_context ?H ch el nb sg)"
  define t' where "t' = transcript_bytes (vo_message_count p') pkb' b' d' (bind_context ?H ch' el nb' sg')"
  have "dl' = dl" "h_e' = h_e" "nb' = nb" using v(1,2,7) v'(1,2,7) assms(7,8) by simp_all
  moreover have "vo_nullifier p \<noteq> 0" using assms(5) by (simp add: vote_valid_def)
  ultimately have "c = c'"
    using dl_challenge_unique [OF assms(1,2) _ v(3)] v'(3) assms(8) by simp
  then have "t = t' \<or> collision (bk_oracle (vb_bbs V)) t t'"
    using v(4) v'(4) by (auto simp: collision_def t_def t'_def)
  moreover have "(vo_message_count p, pkb) = (vo_message_count p', pkb') \<and> bind_context ?H ch el nb sg = bind_context ?H ch' el nb' sg'"
    if "t = t'"
  proof -
    have f: "fits32 (bind_context ?H x y z w)" for x y z w
      using assms(4) by (simp add: bind_context_def fits32_def size_law_def)
    show ?thesis
      using transcript_framing.enc_inj
        [where x = "(vo_message_count p, pkb, b, d, bind_context ?H ch el nb sg)"
           and y = "(vo_message_count p', pkb', b', d', bind_context ?H ch' el nb' sg')"]
        that f v(8-10) v'(8-10) by (simp add: t_def t'_def)
  qed
  moreover have "ch = ch' \<and> sg = sg'
      \<or> collision ?H (bind_context_preimage ch el nb sg) (bind_context_preimage ch' el nb' sg')"
    if "bind_context ?H ch el nb sg = bind_context ?H ch' el nb' sg'"
    using ballot_framing.binding [where x = "(ch, el, nb, sg)" and y = "(ch', el, nb', sg')" and H = ?H]
      that v(11) v'(11) assms(9-13) by (auto simp: bind_context_def)
  moreover have "ballot_context V p ch el sg = Ok (bind_context_preimage ch el nb sg)"
    "ballot_context V p' ch' el sg' = Ok (bind_context_preimage ch' el nb' sg')"
    using v(7) v'(7) by (simp_all add: ballot_context_def)
  ultimately show ?thesis
    using v(5,6) v'(5,6) unfolding t_def [symmetric] t'_def [symmetric] by auto
qed

subsection \<open>A backend over the field with two elements\<close>

text \<open>
  The smallest scalars without torsion, and a suite that accepts every presentation, so that
  only the binding by the challenge is left.
\<close>

definition bit_point_codec :: "1 word ark_codec" where
  "bit_point_codec = \<lparr>serialize_compressed = (\<lambda>x. Some (ucast x # replicate 47 0)),
     deserialize_compressed = (\<lambda>b. if 48 \<le> length b \<and> take 47 (tl b) = replicate 47 0 \<and> hd b \<le> 1
        then Some (ucast (hd b), drop 48 b) else None)\<rparr>"

definition bit_codec :: "1 word ark_codec" where
  "bit_codec = \<lparr>serialize_compressed = (\<lambda>x. Some [ucast x]),
     deserialize_compressed = (\<lambda>b. case b of [] \<Rightarrow> None | x # s \<Rightarrow> Some (ucast x, s))\<rparr>"

definition bit_dl_codec :: "(1 word, 1 word) PokDiscreteLog ark_codec" where
  "bit_dl_codec = \<lparr>serialize_compressed = (\<lambda>d. Some [ucast (dl_t d), ucast (dl_response d)]),
     deserialize_compressed = (\<lambda>b. case b of x # y # s \<Rightarrow> Some (\<lparr>dl_t = ucast x, dl_response = ucast y\<rparr>, s) | _ \<Rightarrow> None)\<rparr>"

definition bit_bbs :: "(u32, byte, 1 word, byte, byte, byte, byte, byte) bbs_backend" where
  "bit_bbs =
    \<lparr>bk_params_new = (\<lambda>label count. if count = 0 then Panic else Ok count),
     bk_keygen = (\<lambda>rng p. ((rng, rng), rng + 1)), bk_sign = (\<lambda>rng ms sk p. (Some sk, rng)),
     bk_pok_init = (\<lambda>rng sg p mbi. (Some sg, rng)), bk_pok_contribution = (\<lambda>pok m p. Some []),
     bk_gen_proof = (\<lambda>pok c. Some pok), bk_pf_contribution = (\<lambda>pf m p. Some []),
     bk_pf_verify = (\<lambda>pf m c pk p. True), bk_pf_response = (\<lambda>pf i is. Some 1),
     bk_oracle = (\<lambda>b. 1), bk_from_le_bytes_mod_order = (\<lambda>b. 1), bk_sha256 = sample_hash,
     bk_sk_codec = byte_codec, bk_pk_codec = byte_codec, bk_sg_codec = byte_codec, bk_pf_codec = byte_codec\<rparr>"

definition bit_vote :: "(u32, byte, 1 word, byte, byte, byte, byte, byte, 1 word) vote_backend" where
  "bit_vote =
    \<lparr>vb_bbs = bit_bbs, vb_mul = (*), vb_rand_fr = (\<lambda>r. (1, r)),
     vb_hasher_new = (\<lambda>dst. Some (\<lambda>tag. Some 1)),
     vb_g_codec = bit_point_codec, vb_fr_codec = bit_codec, vb_dl_codec = bit_dl_codec\<rparr>"

definition bit_ballot :: "1 word vote_proof" where
  "bit_ballot = \<lparr>vo_message_count = 1, vo_revealed = [], vo_bbs_proof = [0], vo_dl_proof = [0, 1], vo_nullifier = 1\<rparr>"

lemma bit_cases: "x = 0 \<or> x = (1 :: 1 word)"
proof -
  have "unat x < 2" using unsigned_less [of x, where 'a = nat] by simp
  then have "unat x = 0 \<or> unat x = 1" by auto
  then show ?thesis by (auto simp: word_unat_eq_iff)
qed

lemma bit_point_law: "point_law bit_point_codec"
proof -
  have "b = (1 # replicate 47 0) @ drop 48 b"
    if "48 \<le> length b" "take 47 (tl b) = replicate 47 0" "hd b \<le> 1" "ucast (hd b) \<noteq> (0 :: 1 word)" for b :: bytes
  proof -
    have "unat (hd b) \<le> 1" "hd b \<noteq> 0" using that(3,4) by (auto simp: word_le_nat_alt)
    then have "hd b = 1" by (auto simp: word_unat_eq_iff le_Suc_eq)
    moreover have "b = take 48 b @ drop 48 b" by simp
    moreover have "take 48 b = hd b # take 47 (tl b)" using that(1) by (cases b) simp_all
    ultimately show ?thesis using that(2) by metis
  qed
  moreover have "ucast (ucast x :: byte) = x \<and> (ucast x :: byte) \<le> 1 \<and> (x \<noteq> 0 \<longrightarrow> (ucast x :: byte) = 1)" for x :: "1 word"
    using bit_cases [of x] by auto
  ultimately show ?thesis by (auto simp: point_law_def bit_point_codec_def split: if_splits)
qed

lemma bit_vote_laws:
  "group_law (vb_mul bit_vote)" "order_law (vb_mul bit_vote)" "point_law (vb_g_codec bit_vote)"
  "size_law (vb_bbs bit_vote)" "suite_ok (vb_bbs bit_vote) (fresh_state seed)"
proof -
  show "group_law (vb_mul bit_vote)" by (simp add: bit_vote_def group_law_def algebra_simps)
  show "order_law (vb_mul bit_vote)"
    unfolding order_law_def using bit_cases by (auto simp: bit_vote_def) (metis mult_1)
  show "point_law (vb_g_codec bit_vote)" using bit_point_law by (simp add: bit_vote_def)
  show "size_law (vb_bbs bit_vote)"
    by (auto simp: size_law_def bit_vote_def bit_bbs_def byte_codec_def fits32_def)
  show "suite_ok (vb_bbs bit_vote) (fresh_state seed)"
    by (simp add: suite_ok_def fresh_state_def params_law_def bit_vote_def bit_bbs_def cache_ok_initial)
qed

subsection \<open>Claims\<close>

text \<open>C11: a cast ballot cannot be reused. Of two accepted ballots in one election that carry the same
  nullifier and the same discrete-log proof, in whatever other bytes, both are for the same
  issuer key, credential size, chain and signal; otherwise the bytes the two verifications
  hash, which \<open>ballot_transcript\<close> and \<open>ballot_context\<close> compute, are a collision of the
  challenge's hash or of SHA-256. So an observer of a ballot can redirect it neither to
  another chain nor to another vote.\<close>

theorem ballot_not_reusable:
  assumes "group_law (vb_mul V)" "order_law (vb_mul V)" "point_law (vb_g_codec V)" "size_law (vb_bbs V)"
    and "suite_ok (vb_bbs V) s" "suite_ok (vb_bbs V) s'"
    and "fst (verify_vote_proof V p issuer chain_id election_id signal s) = Ok True"
    and "fst (verify_vote_proof V p' issuer' chain_id' election_id signal' s') = Ok True"
    and "vo_dl_proof p = vo_dl_proof p'" "vo_nullifier p = vo_nullifier p'"
    and "fits64 chain_id" "fits64 chain_id'" "fits64 election_id" "fits64 signal" "fits64 signal'"
  shows "(\<exists>pkb. issuer_bytes V issuer = Ok pkb \<and> issuer_bytes V issuer' = Ok pkb)
       \<and> vo_message_count p = vo_message_count p' \<and> chain_id = chain_id' \<and> signal = signal'
     \<or> (\<exists>t t'. ballot_transcript V p issuer chain_id election_id signal = Ok t
          \<and> ballot_transcript V p' issuer' chain_id' election_id signal' = Ok t'
          \<and> collision (bk_oracle (vb_bbs V)) t t')
     \<or> (\<exists>x x'. ballot_context V p chain_id election_id signal = Ok x
          \<and> ballot_context V p' chain_id' election_id signal' = Ok x'
          \<and> collision (bk_sha256 (vb_bbs V)) x x')"
proof -
  have "vote_valid V p issuer chain_id election_id signal" "vote_valid V p' issuer' chain_id' election_id signal'"
    using assms(7,8) by (simp_all add: verify_vote_proof_spec [OF assms(5)] verify_vote_proof_spec [OF assms(6)])
  then show ?thesis using vote_bound_once [OF assms(1-4)] assms(9-15) by blast
qed

theorem ballot_not_reusable_witness:
  "\<exists>t t'. ballot_transcript bit_vote bit_ballot [7] [1] [5] [6] = Ok t
     \<and> ballot_transcript bit_vote bit_ballot [7] [2] [5] [6] = Ok t' \<and> collision (bk_oracle bit_bbs) t t'"
proof -
  have u: "(ucast (1 :: byte) :: 1 word) = 1" "(ucast (0 :: byte) :: 1 word) = 0" by simp_all
  have acc: "fst (verify_vote_proof bit_vote bit_ballot [7] ch [5] [6] (fresh_state 0)) = Ok True" for ch
    unfolding verify_vote_proof_spec [OF bit_vote_laws(5)]
    by (auto simp: vote_valid_def bit_ballot_def bit_vote_def bit_bbs_def deser_def ser_def byte_codec_def
        bit_dl_codec_def bit_codec_def bit_point_codec_def hash_to_g1_def Let_def dl_contribution_def
        dl_compute_contribution_def compute_challenge_def vote_transcript_def dl_verify_def u)
  have "\<not> collision sample_hash (bind_context_preimage [1] [5] nb [6]) (bind_context_preimage [2] [5] nb [6])" for nb
    by (simp add: collision_def sample_hash_def bind_context_preimage_def BIND_DOMAIN_def ascii_def)
  then have n: "\<not> (\<exists>x x'. ballot_context bit_vote bit_ballot [1] [5] [6] = Ok x
      \<and> ballot_context bit_vote bit_ballot [2] [5] [6] = Ok x' \<and> collision (bk_sha256 (vb_bbs bit_vote)) x x')"
    by (auto simp: ballot_context_def bind_r_Ok_iff bit_vote_def bit_bbs_def)
  have f: "fits64 [x]" for x by (simp add: fits64_def)
  from ballot_not_reusable [OF bit_vote_laws(1-4) bit_vote_laws(5) bit_vote_laws(5) acc [of "[1]"] acc [of "[2]"]
      refl refl f f f f f] n
  have "\<exists>t t'. ballot_transcript bit_vote bit_ballot [7] [1] [5] [6] = Ok t
      \<and> ballot_transcript bit_vote bit_ballot [7] [2] [5] [6] = Ok t' \<and> collision (bk_oracle (vb_bbs bit_vote)) t t'"
    by auto
  then show ?thesis by (simp add: bit_vote_def)
qed

end
