(* ===== verification/Phi_Tests_Vote.thy ===== *)
theory Phi_Tests_Vote
  imports Phi_Tests_Bbs Phi_Vote_Binding
begin

section \<open>The unit tests of the vote proof (voting_snark.rs)\<close>

text \<open>
  The tests of \<open>voting_snark.rs\<close> as programs. Those that cast no ballot pass over every backend
  with the laws of \<open>vote_law\<close> (\<open>vote_start\<close>). A test that casts one unwraps the two refusals of
  \<open>prove_vote\<close> away, so it passes where no challenge is zero and no nullifier in the elections of
  the tests is the identity; this is \<open>no_degenerate\<close>, an idealisation and not a law of a backend.
  The tests that a ballot is refused under another signal, chain, issuer or claim count
  follow from the binding of the ballot and are proved where no two ballots collide. Left
  out are the tests that rest on the hardness of the discrete logarithm, on the generator or on
  wall-clock time.
\<close>

definition TEST_CHAIN :: bytes where
  "TEST_CHAIN = ascii ''phi-testnet-1''"

subsection \<open>The fixtures\<close>

definition test_prove_vote ::
    "('p, 'r, 'f::comm_ring_1, 'sk, 'pk, 'sg, 'pok, 'pf, 'g::ab_group_add) vote_backend \<Rightarrow> bytes list \<Rightarrow> bytes \<Rightarrow>
     bytes \<Rightarrow> nat list \<Rightarrow> bytes \<Rightarrow> bytes \<Rightarrow> (('p, 'r) suite_state, 'g vote_proof) st" where
  "test_prove_vote V claims signature issuer_public_key reveal election_id signal =
     prove_vote V claims signature issuer_public_key reveal TEST_CHAIN election_id signal"

definition test_prove_vote_bytes ::
    "('p, 'r, 'f::comm_ring_1, 'sk, 'pk, 'sg, 'pok, 'pf, 'g::ab_group_add) vote_backend \<Rightarrow> bytes list \<Rightarrow> bytes \<Rightarrow>
     bytes \<Rightarrow> nat list \<Rightarrow> bytes \<Rightarrow> bytes \<Rightarrow> (('p, 'r) suite_state, bytes) st" where
  "test_prove_vote_bytes V claims signature issuer_public_key reveal election_id signal =
     prove_vote_bytes V claims signature issuer_public_key reveal TEST_CHAIN election_id signal"

definition test_verify_vote_proof ::
    "('p, 'r, 'f::comm_ring_1, 'sk, 'pk, 'sg, 'pok, 'pf, 'g::ab_group_add) vote_backend \<Rightarrow> 'g vote_proof \<Rightarrow> bytes \<Rightarrow>
     bytes \<Rightarrow> bytes \<Rightarrow> (('p, 'r) suite_state, bool) st" where
  "test_verify_vote_proof V proof issuer_public_key election_id signal =
     verify_vote_proof V proof issuer_public_key TEST_CHAIN election_id signal"

definition test_verify_vote ::
    "('p, 'r, 'f::comm_ring_1, 'sk, 'pk, 'sg, 'pok, 'pf, 'g::ab_group_add) vote_backend \<Rightarrow> bytes \<Rightarrow> bytes \<Rightarrow>
     bytes \<Rightarrow> bytes \<Rightarrow> (('p, 'r) suite_state, bool) st" where
  "test_verify_vote V proof_bytes issuer_public_key election_id signal =
     verify_vote V proof_bytes issuer_public_key TEST_CHAIN election_id signal"

definition test_vote_transcript ::
    "(bytes \<Rightarrow> bytes) \<Rightarrow> (bytes, crypto_error) result \<Rightarrow> (bytes, crypto_error) result \<Rightarrow> u32 \<Rightarrow>
     bytes \<Rightarrow> bytes \<Rightarrow> bytes \<Rightarrow> bytes \<Rightarrow> (bytes, crypto_error) result" where
  "test_vote_transcript H bbs_contrib dl_contrib message_count issuer_pk election_id nullifier_bytes signal =
     vote_transcript H bbs_contrib dl_contrib message_count issuer_pk TEST_CHAIN election_id
       nullifier_bytes signal"

definition credential_claims :: "bytes list" where
  "credential_claims = [ascii ''voter_secret=9f2c1a7b4e6d8003'', ascii ''region=north'', ascii ''cohort=2025'']"

definition credential ::
    "('p, 'r, 'f::comm_ring_1, 'sk, 'pk, 'sg, 'pok, 'pf, 'g::ab_group_add) vote_backend \<Rightarrow>
     (('p, 'r) suite_state, bytes list \<times> bytes \<times> bytes) st" where
  "credential V =
     (let claims = credential_claims in
      bind_s (expect (bbs_generate_keypair (vb_bbs V) (word_of_nat (length claims)))) (\<lambda>kp.
      bind_s (expect (bbs_sign_credential (vb_bbs V) claims (held (bkp_secret kp)))) (\<lambda>sig.
      lift_s (Ok (claims, sig, bkp_public kp)))))"

definition prove ::
    "('p, 'r, 'f::comm_ring_1, 'sk, 'pk, 'sg, 'pok, 'pf, 'g::ab_group_add) vote_backend \<Rightarrow> bytes list \<Rightarrow> bytes \<Rightarrow>
     bytes \<Rightarrow> bytes \<Rightarrow> bytes \<Rightarrow> (('p, 'r) suite_state, 'g vote_proof) st" where
  "prove V claims sig pk election signal = expect (test_prove_vote V claims sig pk [1] election signal)"

subsection \<open>What the tests assume of the backend\<close>

definition TEST_ELECTIONS :: "bytes list" where
  "TEST_ELECTIONS = map ascii [''election-1'', ''election-2'', ''election-7'', ''election-kat'']"

text \<open>The laws and a consistent state: all that a test without a ballot needs.\<close>

definition vote_start ::
    "('p, 'r, 'f::comm_ring_1, 'sk, 'pk, 'sg, 'pok, 'pf, 'g::ab_group_add) vote_backend \<Rightarrow> ('p, 'r) suite_state \<Rightarrow> bool" where
  "vote_start V s \<longleftrightarrow> vote_law V \<and> suite_ok (vb_bbs V) s"

text \<open>What a ballot of the tests meets beyond the laws: neither value \<open>prove_vote\<close> refuses.\<close>

definition no_degenerate ::
    "('p, 'r, 'f::comm_ring_1, 'sk, 'pk, 'sg, 'pok, 'pf, 'g::ab_group_add) vote_backend \<Rightarrow> bool" where
  "no_degenerate V \<longleftrightarrow> (\<forall>t. bk_oracle (vb_bbs V) t \<noteq> 0)
     \<and> (\<forall>el \<in> set TEST_ELECTIONS. \<forall>h_e. hash_to_g1 V el = Ok h_e \<longrightarrow>
          vb_mul V h_e (claim_to_fr (vb_bbs V) (credential_claims ! 0)) \<noteq> 0)"

definition vote_tests_ok ::
    "('p, 'r, 'f::comm_ring_1, 'sk, 'pk, 'sg, 'pok, 'pf, 'g::ab_group_add) vote_backend \<Rightarrow> bool" where
  "vote_tests_ok V \<longleftrightarrow> vote_law V \<and> no_degenerate V
     \<and> (\<forall>x e. serialize_compressed (bk_pf_codec (vb_bbs V)) x = Some e \<longrightarrow> fits32 e)
     \<and> (\<forall>x e. serialize_compressed (vb_dl_codec V) x = Some e \<longrightarrow> fits32 e)
     \<and> (\<forall>x e. serialize_compressed (bk_pk_codec (vb_bbs V)) x = Some e \<longrightarrow> fits32 e)"

definition vote_ready ::
    "('p, 'r, 'f::comm_ring_1, 'sk, 'pk, 'sg, 'pok, 'pf, 'g::ab_group_add) vote_backend \<Rightarrow> ('p, 'r) suite_state \<Rightarrow> bool" where
  "vote_ready V s \<longleftrightarrow> vote_tests_ok V \<and> suite_ok (vb_bbs V) s"

lemma vote_readyD:
  assumes "vote_ready V s"
  shows "vote_law V" "suite_ok (vb_bbs V) s" "point_law (vb_g_codec V)" "group_law (vb_mul V)" "backend_laws (vb_bbs V)"
  using assms by (simp_all add: vote_ready_def vote_tests_ok_def vote_law_def)

lemma vote_startD:
  assumes "vote_start V s"
  shows "vote_law V" "suite_ok (vb_bbs V) s" "point_law (vb_g_codec V)" "group_law (vb_mul V)" "backend_laws (vb_bbs V)"
  using assms by (simp_all add: vote_start_def vote_law_def)

lemma vote_start_keeps: "keeps (suite_ok (vb_bbs V)) m \<Longrightarrow> keeps (vote_start V) m"
  by (simp add: keeps_def vote_start_def)

lemma runs_ready:
  assumes "runs (vote_start V) m Q"
  shows "runs (vote_ready V) m Q"
proof (rule runsI)
  fix s assume s: "vote_ready V s"
  then have "vote_start V s" using vote_readyD [OF s] by (simp add: vote_start_def)
  from runsD [OF assms this] s show "\<exists>x s'. m s = (Ok x, s') \<and> vote_ready V s' \<and> Q x"
    by (auto simp: vote_start_def vote_ready_def)
qed

lemma vote_ready_keeps: "keeps (suite_ok (vb_bbs V)) m \<Longrightarrow> keeps (vote_ready V) m"
  by (simp add: keeps_def vote_ready_def)

lemma runs_vote_start: "runs (bbs_ready (vb_bbs V)) m Q \<Longrightarrow> runs (vote_start V) m Q"
proof (rule runsI)
  fix s assume m: "runs (bbs_ready (vb_bbs V)) m Q" and s: "vote_start V s"
  then have "bbs_ready (vb_bbs V) s" using vote_startD [OF s] by (simp add: bbs_ready_def)
  from runsD [OF m this] s show "\<exists>x s'. m s = (Ok x, s') \<and> vote_start V s' \<and> Q x"
    by (auto simp: bbs_ready_def vote_start_def)
qed

lemmas runs_vote_ready = runs_ready [OF runs_vote_start]

lemma prove_vote_keeps: "keeps (suite_ok (vb_bbs V)) (prove_vote V claims sig issuer reveal ch el sg)"
  unfolding prove_vote_def Let_def by auto

lemma verify_inner_keeps: "keeps (suite_ok (vb_bbs V)) (vs_verify_inner V p issuer ch el sg)"
  unfolding vs_verify_inner_def Let_def by (auto simp: keeps_lift split: prod.split)

lemma verify_vote_proof_keeps: "keeps (suite_ok (vb_bbs V)) (verify_vote_proof V p issuer ch el sg)"
  using verify_inner_keeps [of V p issuer ch el sg]
  by (auto simp: keeps_def verify_vote_proof_def split: prod.split)

lemma verify_vote_keeps: "keeps (suite_ok (vb_bbs V)) (verify_vote V b issuer ch el sg)"
  using verify_vote_proof_keeps by (auto simp: verify_vote_def split: result.split)

text \<open>What \<open>credential\<close> returns, and what a vote cast with it is.\<close>

definition credential_ok ::
    "('p, 'r, 'f::comm_ring_1, 'sk, 'pk, 'sg, 'pok, 'pf, 'g::ab_group_add) vote_backend \<Rightarrow>
     bytes list \<times> bytes \<times> bytes \<Rightarrow> bool" where
  "credential_ok V = (\<lambda>(claims, sig, pk). claims = credential_claims
     \<and> (\<exists>kp. pk = bkp_public kp \<and> bbs_sig_ok (vb_bbs V) claims kp sig))"

definition cast_ok ::
    "('p, 'r, 'f::comm_ring_1, 'sk, 'pk, 'sg, 'pok, 'pf, 'g::ab_group_add) vote_backend \<Rightarrow> bytes \<Rightarrow> nat list \<Rightarrow>
     bytes \<Rightarrow> bytes \<Rightarrow> bytes \<Rightarrow> 'g vote_proof \<Rightarrow> bool" where
  "cast_ok V pk reveal ch el sg p \<longleftrightarrow> vote_tests_ok V \<and> vote_valid V p pk ch el sg \<and> vo_wf p
     \<and> vo_revealed p = disclosed credential_claims reveal \<and> vo_message_count p = 3
     \<and> (\<exists>h_e. hash_to_g1 V el = Ok h_e \<and> vo_nullifier p = vb_mul V h_e (claim_to_fr (vb_bbs V) (credential_claims ! 0)))"

lemma credential_claims_ok:
  "credential_claims \<noteq> []" "length credential_claims \<le> 64" "length credential_claims = 3"
  "\<forall>c \<in> set credential_claims. fits32 c"
  by (simp_all add: credential_claims_def fits32_def ascii_def)

lemma credential_starts: "runs (vote_start V) (credential V) (credential_ok V)"
  unfolding credential_def Let_def
  by (rule runs_vote_start, rule docknet_tests.issue [OF credential_claims_ok(1,2)], rule runs_lift)
    (auto simp: credential_ok_def)

lemmas credential_runs = runs_ready [OF credential_starts]

lemma prove_vote_runs:
  assumes "credential_ok V (claims, sig, pk)" "set reveal \<subseteq> {1, 2}" "el \<in> set TEST_ELECTIONS"
  shows "runs (vote_ready V) (prove_vote V claims sig pk reveal ch el sg) (cast_ok V pk reveal ch el sg)"
proof (rule runs_keeps [OF vote_ready_keeps [OF prove_vote_keeps]])
  fix s assume s: "vote_ready V s"
  note r = vote_readyD [OF s]
  let ?B = "vb_bbs V"
  have ok: "vote_tests_ok V" using s by (simp add: vote_ready_def)
  obtain kp where c: "claims = credential_claims" "pk = bkp_public kp" "bbs_sig_ok ?B credential_claims kp sig"
    using assms(1) by (auto simp: credential_ok_def)
  from c(3) obtain params rng sk pkey rng' rng1 rng1' sg0 where k:
      "bk_params_new ?B PARAMS_LABEL (word_of_nat (length credential_claims)) = Ok params"
      "bk_keygen ?B rng params = ((sk, pkey), rng')" "deser (bk_pk_codec ?B) pk = Ok pkey"
      "bk_sign ?B rng1 (map (claim_to_fr ?B) credential_claims) sk params = (Some sg0, rng1')"
      "deser (bk_sg_codec ?B) sig = Ok sg0" unfolding bbs_sig_ok_def c(2) by blast
  have rev: "\<forall>i \<in> set reveal. i < length credential_claims" "0 \<notin> set reveal"
    using assms(2) credential_claims_ok(3) by auto
  obtain p s1 where p: "prove_vote V claims sig pk reveal ch el sg s = (Ok p, s1)" "vote_valid V p pk ch el sg"
    using vote_complete [OF r(1,2) credential_claims_ok(1,2) rev k(1,2,4,5,3), of ch el sg] ok assms(3)
    by (auto simp: vote_tests_ok_def no_degenerate_def c(1))
  note f = prove_vote_facts [OF p(1) r(4)]
  have "fits32 (vo_bbs_proof p)" "fits32 (vo_dl_proof p)"
    using p(1) ok by (auto simp: prove_vote_def Let_def bind_s_Ok_iff vote_tests_ok_def ser_def split: if_splits)
  then have "vo_wf p"
    using f credential_claims_ok(4) c(1) by (intro prove_vote_disclosed [of p claims reveal]) auto
  with f p ok credential_claims_ok(3) c(1) show "\<exists>x. fst (prove_vote V claims sig pk reveal ch el sg s) = Ok x \<and> cast_ok V pk reveal ch el sg x"
    by (auto simp: cast_ok_def)
qed

lemma verify_proof_runs:
  "runs (vote_ready V) (verify_vote_proof V p pk ch el sg) (\<lambda>b. b = vote_valid V p pk ch el sg)"
  using verify_vote_proof_spec vote_readyD(2)
  by (intro runs_keeps [OF vote_ready_keeps [OF verify_vote_proof_keeps]]) blast

lemma verify_bytes_runs:
  assumes "vo_wf p" "vs_to_bytes V p = Ok b" "point_law (vb_g_codec V)"
  shows "runs (vote_ready V) (verify_vote V b pk ch el sg) (\<lambda>x. x = vote_valid V p pk ch el sg)"
proof (rule runs_keeps [OF vote_ready_keeps [OF verify_vote_keeps]])
  fix s assume s: "vote_ready V s"
  have "b = vo_enc V p"
    using assms(2) point_ser [OF assms(3), of "vo_nullifier p"] by (auto simp: vo_enc_def vs_to_bytes_eq)
  then have "vs_from_bytes V b = Ok p" using vs_from_bytes_complete [OF assms(3,1)] by simp
  then show "\<exists>x. fst (verify_vote V b pk ch el sg s) = Ok x \<and> x = vote_valid V p pk ch el sg"
    using verify_vote_proof_spec [OF vote_readyD(2) [OF s]] by (simp add: verify_vote_def)
qed

subsection \<open>The blinded multiplication\<close>

definition check_blinded ::
    "('p, 'r, 'f::comm_ring_1, 'sk, 'pk, 'sg, 'pok, 'pf, 'g::ab_group_add) vote_backend \<Rightarrow> 'g \<Rightarrow> 'f \<Rightarrow>
     (('p, 'r) suite_state, unit) st" where
  "check_blinded V h s =
     (let reference = vb_mul V h s in
      bind_s (draw (blinded_mul (vb_mul V) (vb_rand_fr V) h s)) (\<lambda>blinded.
      bind_s (assert_t (blinded = reference)) (\<lambda>_.
      bind_s (expect (lift_s (ser (vb_g_codec V) blinded))) (\<lambda>a.
      bind_s (expect (lift_s (ser (vb_g_codec V) reference))) (\<lambda>b.
      assert_t (a = b))))))"

definition blinded_mul_equals_the_reference_multiply ::
    "('p, 'r, 'f::comm_ring_1, 'sk, 'pk, 'sg, 'pok, 'pf, 'g::ab_group_add) vote_backend \<Rightarrow>
     (('p, 'r) suite_state, unit) st" where
  "blinded_mul_equals_the_reference_multiply V =
     bind_s (expect (lift_s (hash_to_g1 V (ascii ''ct-equivalence-election'')))) (\<lambda>h.
     bind_s (check_blinded V h 0) (\<lambda>_.
     bind_s (check_blinded V h 1) (\<lambda>_.
     bind_s (check_blinded V h (- 1)) (\<lambda>_.
     bind_s (check_blinded V h (1 + of_nat (2 ^ 40))) (\<lambda>_.
     for_each [0..<32] (\<lambda>i. bind_s (draw (vb_rand_fr V)) (check_blinded V h)))))))"

definition blinded_mul_is_deterministic_in_its_result ::
    "('p, 'r, 'f::comm_ring_1, 'sk, 'pk, 'sg, 'pok, 'pf, 'g::ab_group_add) vote_backend \<Rightarrow>
     (('p, 'r) suite_state, unit) st" where
  "blinded_mul_is_deterministic_in_its_result V =
     bind_s (expect (lift_s (hash_to_g1 V (ascii ''ct-determinism-election'')))) (\<lambda>h.
     bind_s (draw (vb_rand_fr V)) (\<lambda>secret.
     bind_s (draw (blinded_mul (vb_mul V) (vb_rand_fr V) h secret)) (\<lambda>first.
     for_each [0..<16] (\<lambda>i. bind_s (draw (blinded_mul (vb_mul V) (vb_rand_fr V) h secret)) (\<lambda>x.
       assert_t (x = first))))))"

lemma blinded_runs:
  "runs (vote_start V) (draw (blinded_mul (vb_mul V) (vb_rand_fr V) h s)) (\<lambda>x. x = vb_mul V h s \<and> point_law (vb_g_codec V))"
proof (rule runs_keeps [OF vote_start_keeps [OF draw_keeps]])
  fix t assume t: "vote_start V t"
  show "\<exists>x. fst (draw (blinded_mul (vb_mul V) (vb_rand_fr V) h s) t) = Ok x \<and> x = vb_mul V h s \<and> point_law (vb_g_codec V)"
    using blinded_mul_value [OF vote_startD(4) [OF t], of "vb_rand_fr V" h s "ss_rng t"] vote_startD(3) [OF t]
    by (auto simp: draw_def split: prod.split)
qed

lemma random_runs: "runs (vote_start V) (draw f) (\<lambda>_. True)"
  by (rule runs_keeps [OF vote_start_keeps [OF draw_keeps]]) (simp add: draw_def split: prod.split)

lemma hash_runs: "runs (vote_start V) (expect (lift_s (hash_to_g1 V el))) (\<lambda>h. hash_to_g1 V el = Ok h)"
  using vote_law_hash [OF vote_startD(1)] by (intro runs_expect runsI) auto

lemma ser_runs: "codec_law C \<Longrightarrow> runs I (expect (lift_s (ser C x))) (\<lambda>b. ser C x = Ok b)"
  using codec_law_ser [of C x] by (auto intro: runs_expect_lift)

lemma check_blinded_passes: "passes (vote_start V) (check_blinded V h s)"
proof (unfold check_blinded_def Let_def, rule runs_bind [OF blinded_runs], elim conjE)
  fix x assume x: "x = vb_mul V h s" and p: "point_law (vb_g_codec V)"
  show "passes (vote_start V) (bind_s (assert_t (x = vb_mul V h s)) (\<lambda>_.
      bind_s (expect (lift_s (ser (vb_g_codec V) x))) (\<lambda>a.
      bind_s (expect (lift_s (ser (vb_g_codec V) (vb_mul V h s)))) (\<lambda>b. assert_t (a = b)))))"
    by (intro runs_assert_then runs_bind [OF ser_runs [OF point_codec_law [OF p]]] runs_assert) (simp_all add: x)
qed

lemma blinded_tests_pass:
  "passes (vote_start V) (blinded_mul_equals_the_reference_multiply V)"
  "passes (vote_start V) (blinded_mul_is_deterministic_in_its_result V)"
  unfolding blinded_mul_equals_the_reference_multiply_def blinded_mul_is_deterministic_in_its_result_def
  by (intro runs_bind [OF hash_runs] runs_bind [OF check_blinded_passes] runs_for_each runs_bind [OF random_runs]
      check_blinded_passes)
    (intro runs_bind [OF hash_runs] runs_bind [OF random_runs] runs_bind [OF blinded_runs] runs_for_each runs_assert, simp)

subsection \<open>The transcript\<close>

definition fixed_transcript :: "(bytes \<Rightarrow> bytes) \<Rightarrow> ('s, bytes) st" where
  "fixed_transcript H =
     expect (lift_s (test_vote_transcript H (Ok (ascii ''BBS-COMMITMENTS'')) (Ok (ascii ''DL-COMMITS'')) 3
       (ascii ''ISSUER-PUBLIC-KEY'') (ascii ''election-kat'') (ascii ''NULLIFIER-BYTES'') (ascii ''option-7'')))"

definition transcript_binds_the_issuer_key :: "(bytes \<Rightarrow> bytes) \<Rightarrow> ('s, unit) st" where
  "transcript_binds_the_issuer_key H =
     bind_s (fixed_transcript H) (\<lambda>base.
     bind_s (expect (lift_s (test_vote_transcript H (Ok (ascii ''BBS-COMMITMENTS'')) (Ok (ascii ''DL-COMMITS'')) 3
       (ascii ''ISSUER-PUBLIC-KEZ'') (ascii ''election-kat'') (ascii ''NULLIFIER-BYTES'') (ascii ''option-7'')))) (\<lambda>other.
     assert_t (base \<noteq> other)))"

definition transcript_binds_the_message_count :: "(bytes \<Rightarrow> bytes) \<Rightarrow> ('s, unit) st" where
  "transcript_binds_the_message_count H =
     bind_s (fixed_transcript H) (\<lambda>base.
     bind_s (expect (lift_s (test_vote_transcript H (Ok (ascii ''BBS-COMMITMENTS'')) (Ok (ascii ''DL-COMMITS'')) 4
       (ascii ''ISSUER-PUBLIC-KEY'') (ascii ''election-kat'') (ascii ''NULLIFIER-BYTES'') (ascii ''option-7'')))) (\<lambda>other.
     assert_t (base \<noteq> other)))"

definition vote_transcript_field_boundaries_are_unambiguous :: "(bytes \<Rightarrow> bytes) \<Rightarrow> ('s, unit) st" where
  "vote_transcript_field_boundaries_are_unambiguous H =
     bind_s (expect (lift_s (test_vote_transcript H (Ok (ascii ''BC'')) (Ok (ascii ''D'')) 1
       (ascii ''KEYA'') (ascii ''e'') (ascii ''n'') (ascii ''s'')))) (\<lambda>a.
     bind_s (expect (lift_s (test_vote_transcript H (Ok (ascii ''C'')) (Ok (ascii ''D'')) 1
       (ascii ''KEYAB'') (ascii ''e'') (ascii ''n'') (ascii ''s'')))) (\<lambda>b.
     assert_t (a \<noteq> b)))"

lemma transcript_runs:
  "runs I (expect (lift_s (test_vote_transcript H (Ok b) (Ok d) mc pk el nb sg)))
     (\<lambda>t. t = transcript_bytes mc pk b d (bind_context H TEST_CHAIN el nb sg))"
  by (rule runs_expect_lift) (auto simp: test_vote_transcript_def vote_transcript_Ok transcript_bytes_def)

lemma transcript_differs:
  assumes "fits32 pk" "fits32 b" "fits32 pk'" "fits32 b'" "(mc, pk, b) \<noteq> (mc', pk', b')"
  shows "transcript_bytes mc pk b d ctx \<noteq> transcript_bytes mc' pk' b' d' ctx'"
  using assms by (auto simp: transcript_bytes_def be32.append_eq_iff lp32.append_eq_iff)

lemma vote_transcript_tests_pass:
  "passes I (transcript_binds_the_issuer_key H)" "passes I (transcript_binds_the_message_count H)"
  "passes I (vote_transcript_field_boundaries_are_unambiguous H)"
proof -
  have two: "passes I (bind_s (expect (lift_s (test_vote_transcript H (Ok b) (Ok d) mc pk el nb sg))) (\<lambda>x.
      bind_s (expect (lift_s (test_vote_transcript H (Ok b') (Ok d') mc' pk' el' nb' sg'))) (\<lambda>y. assert_t (x \<noteq> y))))"
    if "fits32 pk" "fits32 b" "fits32 pk'" "fits32 b'" "(mc, pk, b) \<noteq> (mc', pk', b')"
    for b d mc pk el nb sg b' d' mc' pk' el' nb' sg'
    using transcript_differs [OF that] by (intro runs_bind [OF transcript_runs] runs_assert) simp
  show "passes I (transcript_binds_the_issuer_key H)"
    unfolding transcript_binds_the_issuer_key_def fixed_transcript_def
    by (rule two) (simp_all add: fits32_def ascii_def)
  show "passes I (transcript_binds_the_message_count H)"
    unfolding transcript_binds_the_message_count_def fixed_transcript_def
    by (rule two) (simp_all add: fits32_def ascii_def)
  show "passes I (vote_transcript_field_boundaries_are_unambiguous H)"
    unfolding vote_transcript_field_boundaries_are_unambiguous_def
    by (rule two) (simp_all add: fits32_def ascii_def)
qed

subsection \<open>Ballots\<close>

definition roundtrip_valid_proof_verifies ::
    "('p, 'r, 'f::comm_ring_1, 'sk, 'pk, 'sg, 'pok, 'pf, 'g::ab_group_add) vote_backend \<Rightarrow>
     (('p, 'r) suite_state, unit) st" where
  "roundtrip_valid_proof_verifies V =
     bind_s (credential V) (\<lambda>(claims, sig, pk).
     bind_s (prove V claims sig pk (ascii ''election-1'') (ascii ''option-2'')) (\<lambda>p.
     bind_s (test_verify_vote_proof V p pk (ascii ''election-1'') (ascii ''option-2'')) (\<lambda>b. bind_s (assert_t b) (\<lambda>_.
     bind_s (expect (lift_s (vs_to_bytes V p))) (\<lambda>bytes.
     bind_s (test_verify_vote V bytes pk (ascii ''election-1'') (ascii ''option-2'')) assert_t)))))"

definition prove_vote_bytes_roundtrip_verifies ::
    "('p, 'r, 'f::comm_ring_1, 'sk, 'pk, 'sg, 'pok, 'pf, 'g::ab_group_add) vote_backend \<Rightarrow>
     (('p, 'r) suite_state, unit) st" where
  "prove_vote_bytes_roundtrip_verifies V =
     bind_s (credential V) (\<lambda>(claims, sig, pk).
     bind_s (expect (test_prove_vote_bytes V claims sig pk [1] (ascii ''election-7'') (ascii ''option-3''))) (\<lambda>bytes.
     bind_s (test_verify_vote V bytes pk (ascii ''election-7'') (ascii ''option-3'')) (\<lambda>b. bind_s (assert_t b) (\<lambda>_.
     bind_s (test_verify_vote V bytes pk (ascii ''election-7'') (ascii ''option-X'')) (\<lambda>b. bind_s (assert_t (\<not> b)) (\<lambda>_.
     bind_s (test_verify_vote V bytes pk (ascii ''election-8'') (ascii ''option-3'')) (\<lambda>b. assert_t (\<not> b))))))))"

definition retagging_signal_is_non_malleable ::
    "('p, 'r, 'f::comm_ring_1, 'sk, 'pk, 'sg, 'pok, 'pf, 'g::ab_group_add) vote_backend \<Rightarrow>
     (('p, 'r) suite_state, unit) st" where
  "retagging_signal_is_non_malleable V =
     bind_s (credential V) (\<lambda>(claims, sig, pk).
     bind_s (prove V claims sig pk (ascii ''election-1'') (ascii ''yes'')) (\<lambda>p.
     bind_s (test_verify_vote_proof V p pk (ascii ''election-1'') (ascii ''yes'')) (\<lambda>b. bind_s (assert_t b) (\<lambda>_.
     bind_s (test_verify_vote_proof V p pk (ascii ''election-1'') (ascii ''no'')) (\<lambda>b. assert_t (\<not> b))))))"

definition tampered_message_count_is_rejected ::
    "('p, 'r, 'f::comm_ring_1, 'sk, 'pk, 'sg, 'pok, 'pf, 'g::ab_group_add) vote_backend \<Rightarrow>
     (('p, 'r) suite_state, unit) st" where
  "tampered_message_count_is_rejected V =
     bind_s (credential V) (\<lambda>(claims, sig, pk).
     bind_s (prove V claims sig pk (ascii ''election-1'') (ascii ''yes'')) (\<lambda>p.
     bind_s (test_verify_vote_proof V p pk (ascii ''election-1'') (ascii ''yes'')) (\<lambda>b. bind_s (assert_t b) (\<lambda>_.
     let p = p\<lparr>vo_message_count := vo_message_count p + 1\<rparr> in
     bind_s (test_verify_vote_proof V p pk (ascii ''election-1'') (ascii ''yes'')) (\<lambda>b. assert_t (\<not> b))))))"

definition proof_is_bound_to_chain_id ::
    "('p, 'r, 'f::comm_ring_1, 'sk, 'pk, 'sg, 'pok, 'pf, 'g::ab_group_add) vote_backend \<Rightarrow>
     (('p, 'r) suite_state, unit) st" where
  "proof_is_bound_to_chain_id V =
     bind_s (credential V) (\<lambda>(claims, sig, pk).
     let chain_a = ascii ''phi-chain-A'';
         chain_b = ascii ''phi-chain-B'' in
     bind_s (expect (prove_vote V claims sig pk [1] chain_a (ascii ''election-1'') (ascii ''yes''))) (\<lambda>p.
     bind_s (verify_vote_proof V p pk chain_a (ascii ''election-1'') (ascii ''yes'')) (\<lambda>b. bind_s (assert_t b) (\<lambda>_.
     bind_s (verify_vote_proof V p pk chain_b (ascii ''election-1'') (ascii ''yes'')) (\<lambda>b. bind_s (assert_t (\<not> b)) (\<lambda>_.
     bind_s (expect (lift_s (vs_to_bytes V p))) (\<lambda>bytes.
     bind_s (verify_vote V bytes pk chain_a (ascii ''election-1'') (ascii ''yes'')) (\<lambda>b. bind_s (assert_t b) (\<lambda>_.
     bind_s (verify_vote V bytes pk chain_b (ascii ''election-1'') (ascii ''yes'')) (\<lambda>b. bind_s (assert_t (\<not> b)) (\<lambda>_.
     bind_s (expect (prove_vote V claims sig pk [1] chain_b (ascii ''election-1'') (ascii ''yes''))) (\<lambda>p_b.
     bind_s (expect (lift_s (vo_nullifier_bytes V p))) (\<lambda>m.
     bind_s (expect (lift_s (vo_nullifier_bytes V p_b))) (\<lambda>n.
     assert_t (m = n)))))))))))))))"

definition tampered_dl_response_fails ::
    "('p, 'r, 'f::comm_ring_1, 'sk, 'pk, 'sg, 'pok, 'pf, 'g::ab_group_add) vote_backend \<Rightarrow>
     (('p, 'r) suite_state, unit) st" where
  "tampered_dl_response_fails V =
     bind_s (credential V) (\<lambda>(claims, sig, pk).
     bind_s (prove V claims sig pk (ascii ''election-1'') (ascii ''yes'')) (\<lambda>p.
     bind_s (expect (lift_s (deser (vb_dl_codec V) (vo_dl_proof p)))) (\<lambda>dl.
     let dl = dl\<lparr>dl_response := dl_response dl + 1\<rparr> in
     bind_s (expect (lift_s (ser (vb_dl_codec V) dl))) (\<lambda>b.
     let p = p\<lparr>vo_dl_proof := b\<rparr> in
     bind_s (test_verify_vote_proof V p pk (ascii ''election-1'') (ascii ''yes'')) (\<lambda>b. assert_t (\<not> b))))))"

definition witness_equality_response_binding_kat ::
    "('p, 'r, 'f::comm_ring_1, 'sk, 'pk, 'sg, 'pok, 'pf, 'g::ab_group_add) vote_backend \<Rightarrow>
     (('p, 'r) suite_state, unit) st" where
  "witness_equality_response_binding_kat V =
     bind_s (credential V) (\<lambda>(claims, sig, pk).
     bind_s (expect (prove_vote V claims sig pk [1] (ascii ''phi-chain-kat'') (ascii ''election-kat'') (ascii ''option-kat''))) (\<lambda>p.
     bind_s (verify_vote_proof V p pk (ascii ''phi-chain-kat'') (ascii ''election-kat'') (ascii ''option-kat'')) (\<lambda>b.
     bind_s (assert_t b) (\<lambda>_.
     bind_s (expect (lift_s (deser (bk_pf_codec (vb_bbs V)) (vo_bbs_proof p)))) (\<lambda>bbs.
     bind_s (expect (lift_s (deser (vb_dl_codec V) (vo_dl_proof p)))) (\<lambda>dl.
     let reveal_ids = btree_set (map (\<lambda>(i, _). unat i) (vo_revealed p)) in
     bind_s (expect (lift_s (ok_or VerificationFailed
         (bk_pf_response (vb_bbs V) bbs VOTER_SECRET_MSG_INDEX reveal_ids)))) (\<lambda>bbs_resp.
     bind_s (expect (lift_s (ser (vb_fr_codec V) bbs_resp))) (\<lambda>a.
     bind_s (expect (lift_s (ser (vb_fr_codec V) (dl_response dl)))) (\<lambda>b.
     assert_t (a = b))))))))))"

definition nullifier_is_deterministic_per_secret_and_election ::
    "('p, 'r, 'f::comm_ring_1, 'sk, 'pk, 'sg, 'pok, 'pf, 'g::ab_group_add) vote_backend \<Rightarrow>
     (('p, 'r) suite_state, unit) st" where
  "nullifier_is_deterministic_per_secret_and_election V =
     bind_s (credential V) (\<lambda>(claims, sig, pk).
     bind_s (prove V claims sig pk (ascii ''election-1'') (ascii ''a'')) (\<lambda>p.
     bind_s (expect (lift_s (vo_nullifier_bytes V p))) (\<lambda>a.
     bind_s (prove V claims sig pk (ascii ''election-1'') (ascii ''b'')) (\<lambda>q.
     bind_s (expect (lift_s (vo_nullifier_bytes V q))) (\<lambda>b.
     bind_s (assert_t (a = b)) (\<lambda>_.
     bind_s (prove V claims sig pk (ascii ''election-2'') (ascii ''a'')) (\<lambda>r.
     bind_s (expect (lift_s (vo_nullifier_bytes V r))) (\<lambda>c.
     assert_t (a \<noteq> c)))))))))"

definition revealing_the_voter_secret_is_refused ::
    "('p, 'r, 'f::comm_ring_1, 'sk, 'pk, 'sg, 'pok, 'pf, 'g::ab_group_add) vote_backend \<Rightarrow>
     (('p, 'r) suite_state, unit) st" where
  "revealing_the_voter_secret_is_refused V =
     bind_s (credential V) (\<lambda>(claims, sig, pk).
     bind_s (is_err_s (test_prove_vote V claims sig pk [0] (ascii ''election-1'') (ascii ''yes''))) (\<lambda>e.
     bind_s (assert_t e) (\<lambda>_.
     bind_s (is_err_s (test_prove_vote V claims sig pk [0, 1] (ascii ''election-1'') (ascii ''yes''))) assert_t)))"

definition malformed_inputs_fail_closed ::
    "('p, 'r, 'f::comm_ring_1, 'sk, 'pk, 'sg, 'pok, 'pf, 'g::ab_group_add) vote_backend \<Rightarrow>
     (('p, 'r) suite_state, unit) st" where
  "malformed_inputs_fail_closed V =
     bind_s (credential V) (\<lambda>(_, _, pk).
     bind_s (test_verify_vote V [] pk (ascii ''e'') (ascii ''s'')) (\<lambda>b. bind_s (assert_t (\<not> b)) (\<lambda>_.
     bind_s (test_verify_vote V [0, 1, 2] pk (ascii ''e'') (ascii ''s'')) (\<lambda>b. bind_s (assert_t (\<not> b)) (\<lambda>_.
     bind_s (is_err_s (lift_s (vs_from_bytes V []))) assert_t)))))"

subsection \<open>They pass\<close>

lemma credential_then:
  "(\<And>claims sig pk. credential_ok V (claims, sig, pk) \<Longrightarrow> runs (vote_ready V) (f claims sig pk) Q) \<Longrightarrow>
     runs (vote_ready V) (bind_s (credential V) (\<lambda>(claims, sig, pk). f claims sig pk)) Q"
  by (rule runs_bind [OF credential_runs]) auto

lemma credential_begins:
  "(\<And>claims sig pk. credential_ok V (claims, sig, pk) \<Longrightarrow> runs (vote_start V) (f claims sig pk) Q) \<Longrightarrow>
     runs (vote_start V) (bind_s (credential V) (\<lambda>(claims, sig, pk). f claims sig pk)) Q"
  by (rule runs_bind [OF credential_starts]) auto

lemma test_elections:
  "ascii ''election-1'' \<in> set TEST_ELECTIONS" "ascii ''election-2'' \<in> set TEST_ELECTIONS"
  "ascii ''election-7'' \<in> set TEST_ELECTIONS" "ascii ''election-kat'' \<in> set TEST_ELECTIONS"
  by (simp_all add: TEST_ELECTIONS_def)

lemma cast_then:
  assumes "credential_ok V (claims, sig, pk)" "el \<in> set TEST_ELECTIONS"
    and "\<And>p. cast_ok V pk [1] ch el sg p \<Longrightarrow> runs (vote_ready V) (f p) Q"
  shows "runs (vote_ready V) (bind_s (expect (prove_vote V claims sig pk [1] ch el sg)) f) Q"
  by (rule runs_bind [OF runs_expect [OF prove_vote_runs [OF assms(1) _ assms(2)]]]) (auto intro: assms(3))

lemma prove_then:
  assumes "credential_ok V (claims, sig, pk)" "el \<in> set TEST_ELECTIONS"
    and "\<And>p. cast_ok V pk [1] TEST_CHAIN el sg p \<Longrightarrow> runs (vote_ready V) (f p) Q"
  shows "runs (vote_ready V) (bind_s (prove V claims sig pk el sg) f) Q"
  unfolding prove_def test_prove_vote_def by (rule cast_then [OF assms])

lemma castD:
  assumes "cast_ok V pk reveal ch el sg p"
  shows "vote_valid V p pk ch el sg" "vo_wf p" "vote_tests_ok V" "point_law (vb_g_codec V)"
  using assms by (simp_all add: cast_ok_def vote_tests_ok_def vote_law_def)

lemma accepts_then:
  assumes "vote_valid V p pk ch el sg" "runs (vote_ready V) k Q"
  shows "runs (vote_ready V) (bind_s (verify_vote_proof V p pk ch el sg) (\<lambda>b. bind_s (assert_t b) (\<lambda>_. k))) Q"
  using assms by (intro runs_checked [OF verify_proof_runs]) simp_all

lemma refuses_then:
  assumes "\<not> vote_valid V p pk ch el sg" "runs (vote_ready V) k Q"
  shows "runs (vote_ready V) (bind_s (verify_vote_proof V p pk ch el sg) (\<lambda>b. bind_s (assert_t (\<not> b)) (\<lambda>_. k))) Q"
  using assms by (intro runs_checked [OF verify_proof_runs]) simp_all

lemma refuses_last:
  "\<not> vote_valid V p pk ch el sg \<Longrightarrow>
     passes (vote_ready V) (bind_s (verify_vote_proof V p pk ch el sg) (\<lambda>b. assert_t (\<not> b)))"
  by (rule runs_verdict [OF verify_proof_runs])

lemma bytes_then:
  assumes "cast_ok V pk reveal ch el sg p" "\<And>b. vs_to_bytes V p = Ok b \<Longrightarrow> runs (vote_ready V) (f b) Q"
  shows "runs (vote_ready V) (bind_s (expect (lift_s (vs_to_bytes V p))) f) Q"
  using point_ser [OF castD(4) [OF assms(1)], of "vo_nullifier p"] vs_to_bytes_eq [of V p]
  by (auto intro!: runs_bind [OF runs_expect_lift [where Q = "\<lambda>b. vs_to_bytes V p = Ok b"]] assms(2))

lemma roundtrip_ballot_passes: "passes (vote_ready V) (roundtrip_valid_proof_verifies V)"
  unfolding roundtrip_valid_proof_verifies_def test_verify_vote_proof_def test_verify_vote_def
  by (intro credential_then prove_then test_elections accepts_then bytes_then runs_bind [OF verify_bytes_runs])
    (auto dest: castD)

lemma nullifier_runs:
  "point_law (vb_g_codec V) \<Longrightarrow>
     runs I (expect (lift_s (vo_nullifier_bytes V p))) (\<lambda>b. ser (vb_g_codec V) (vo_nullifier p) = Ok b)"
  using point_ser [of "vb_g_codec V" "vo_nullifier p"]
  by (auto simp: vo_nullifier_bytes_def NULLIFIER_POINT_LEN_def intro!: runs_expect_lift)

lemma same_nullifier:
  "cast_ok V pk reveal ch el sg p \<Longrightarrow> cast_ok V pk' reveal' ch' el sg' q \<Longrightarrow> vo_nullifier p = vo_nullifier q"
  by (auto simp: cast_ok_def)

text \<open>The last assertion of the test: the voter's multiples of the two election points differ.\<close>

lemma nullifier_deterministic_passes:
  assumes points: "\<And>h h'. hash_to_g1 V (ascii ''election-1'') = Ok h \<Longrightarrow> hash_to_g1 V (ascii ''election-2'') = Ok h' \<Longrightarrow>
      vb_mul V h (claim_to_fr (vb_bbs V) (credential_claims ! 0)) \<noteq> vb_mul V h' (claim_to_fr (vb_bbs V) (credential_claims ! 0))"
  shows "passes (vote_ready V) (nullifier_is_deterministic_per_secret_and_election V)"
proof -
  have other: "a \<noteq> c"
    if "cast_ok V pk reveal ch (ascii ''election-1'') sg p" "cast_ok V pk reveal ch' (ascii ''election-2'') sg' r"
      "ser (vb_g_codec V) (vo_nullifier p) = Ok a" "ser (vb_g_codec V) (vo_nullifier r) = Ok c" for pk reveal ch sg p ch' sg' r a c
  proof -
    have "vo_nullifier p \<noteq> vo_nullifier r" using that(1,2) points unfolding cast_ok_def by metis
    then show ?thesis
      using codec_law_ser [OF point_codec_law [OF castD(4) [OF that(1)]]] that(3,4) by (metis result.inject(1))
  qed
  show ?thesis
    unfolding nullifier_is_deterministic_per_secret_and_election_def
    by (intro credential_then prove_then test_elections runs_bind [OF nullifier_runs] runs_assert_then runs_assert)
      (auto dest: castD same_nullifier other)
qed

lemma refuse_secret:
  "0 \<in> set reveal \<Longrightarrow> runs (vote_start V) (is_err_s (prove_vote V claims sig pk reveal ch el sg)) (\<lambda>b. b)"
  by (rule runs_is_err) (auto simp: prove_vote_def Let_def VOTER_SECRET_MSG_INDEX_def)

lemma revealing_refused_passes: "passes (vote_start V) (revealing_the_voter_secret_is_refused V)"
  unfolding revealing_the_voter_secret_is_refused_def test_prove_vote_def
  by (intro credential_begins runs_checked [OF refuse_secret] runs_bind [OF refuse_secret] runs_assert) simp_all

lemma short_ballot_rejected:
  assumes "length b < 8"
  shows "\<exists>e. vs_from_bytes V b = Err e"
proof -
  have "reader_u32 r = Err truncated" if "rd_b r = b" "rd_pos r + 4 > length b" for r
    using that assms by (auto simp: reader_u32_def checked_add_def truncated_def)
  moreover have "fits64 b" using assms by (simp add: fits64_def)
  moreover have "rd_pos r' = 4 \<and> rd_b r' = b" if "reader_u32 \<lparr>rd_b = b, rd_pos = 0\<rparr> = Ok (x, r')" for x r'
    using that by (auto simp: reader_u32_def bind_r_Ok_iff Let_def split: if_splits)
  ultimately have "\<not> (\<exists>p. vs_from_bytes V b = Ok p)"
    using assms by (auto simp: vs_from_bytes_def vs_reader_eq reader_bytes_def bind_r_Ok_iff Let_def split: if_splits)
  then show ?thesis using vs_from_bytes_no_panic [of b V] \<open>fits64 b\<close> by (cases "vs_from_bytes V b") auto
qed

lemma malformed_passes: "passes (vote_start V) (malformed_inputs_fail_closed V)"
proof -
  have v: "runs (vote_start V) (verify_vote V b pk ch el sg) (\<lambda>x. x = False)" if "length b < 8" for b pk ch el sg
    using short_ballot_rejected [OF that, of V] by (auto simp: verify_vote_def)
  show ?thesis
    unfolding malformed_inputs_fail_closed_def test_verify_vote_def
    by (intro credential_begins runs_checked [OF v] runs_bind [OF runs_rejected] runs_assert short_ballot_rejected) simp_all
qed

text \<open>The indices of the collected messages are those of the disclosed claims, in order.\<close>

lemma collect_revealed_keys:
  assumes "collect_revealed f mc [] es = Some m"
  shows "map fst m = btree_set (map (\<lambda>(i, _). unat i) es)"
proof -
  have m: "bt_ok m" "bt_get m = map_of (map (\<lambda>(i, b). (unat i, f b)) es)"
    using collect_revealed_Some [OF assms] by (simp_all add: bt_ok_def bt_get_def fun_eq_iff map_add_def split: option.splits)
  have "k \<in> fst ` set m \<longleftrightarrow> k \<in> fst ` set (map (\<lambda>(i, b). (unat i, f b)) es)" for k
    using bt_get_None_iff [of m k] map_of_eq_None_iff [of "map (\<lambda>(i, b). (unat i, f b)) es" k] m(2) by metis
  then have "fst ` set m = fst ` set (map (\<lambda>(i, b). (unat i, f b)) es)" by blast
  then have "set (map fst m) = set (btree_set (map (\<lambda>(i, _). unat i) es))"
    by (simp add: image_image case_prod_unfold)
  then show ?thesis
    using m(1) strict_sorted_btree_set by (intro strict_sorted_equal) (auto simp: bt_ok_def)
qed

lemma witness_equality_passes: "passes (vote_ready V) (witness_equality_response_binding_kat V)"
  unfolding witness_equality_response_binding_kat_def Let_def
proof (intro credential_then cast_then test_elections accepts_then)
  fix claims sig pk p
  assume p: "cast_ok V pk [1] (ascii ''phi-chain-kat'') (ascii ''election-kat'') (ascii ''option-kat'') p"
  from castD(1) [OF p] obtain bbs dl msgs resp a where v: "deser (bk_pf_codec (vb_bbs V)) (vo_bbs_proof p) = Ok bbs"
      "deser (vb_dl_codec V) (vo_dl_proof p) = Ok dl"
      "collect_revealed (claim_to_fr (vb_bbs V)) (vo_message_count p) [] (vo_revealed p) = Some msgs"
      "bk_pf_response (vb_bbs V) bbs VOTER_SECRET_MSG_INDEX (map fst msgs) = Some resp"
      "ser (vb_fr_codec V) resp = Ok a" "ser (vb_fr_codec V) (dl_response dl) = Ok a"
    unfolding vote_valid_def by blast
  have m: "bk_pf_response (vb_bbs V) bbs VOTER_SECRET_MSG_INDEX (btree_set (map (\<lambda>(i, _). unat i) (vo_revealed p))) = Some resp"
    using v(4) collect_revealed_keys [OF v(3)] by simp
  show "passes (vote_ready V) (bind_s (expect (lift_s (deser (bk_pf_codec (vb_bbs V)) (vo_bbs_proof p)))) (\<lambda>bbs.
     bind_s (expect (lift_s (deser (vb_dl_codec V) (vo_dl_proof p)))) (\<lambda>dl.
     bind_s (expect (lift_s (ok_or VerificationFailed
         (bk_pf_response (vb_bbs V) bbs VOTER_SECRET_MSG_INDEX (btree_set (map (\<lambda>(i, _). unat i) (vo_revealed p))))))) (\<lambda>bbs_resp.
     bind_s (expect (lift_s (ser (vb_fr_codec V) bbs_resp))) (\<lambda>a.
     bind_s (expect (lift_s (ser (vb_fr_codec V) (dl_response dl)))) (\<lambda>b. assert_t (a = b)))))))"
    by (rule runsI) (simp add: bind_s_def expect_def v m assert_t_def)
qed (auto dest: castD)

subsection \<open>Tests of the wire format\<close>

text \<open>The encoder the tests write out, over any list of entries and any bytes of the nullifier.\<close>

definition encode_ballot :: "'g vote_proof \<Rightarrow> bytes \<Rightarrow> (u32 \<times> bytes) list \<Rightarrow> bytes" where
  "encode_ballot p nb revealed =
     (let out = [];
          out = out @ u32_to_be_bytes (vo_message_count p);
          out = vs_put_bytes out (vo_bbs_proof p);
          out = vs_put_bytes out (vo_dl_proof p);
          out = vs_put_bytes out nb;
          out = out @ len_be32 (length revealed) in
      vs_put_revealed out revealed)"

definition non_canonical_padded_nullifier_is_rejected ::
    "('p, 'r, 'f::comm_ring_1, 'sk, 'pk, 'sg, 'pok, 'pf, 'g::ab_group_add) vote_backend \<Rightarrow>
     (('p, 'r) suite_state, unit) st" where
  "non_canonical_padded_nullifier_is_rejected V =
     bind_s (credential V) (\<lambda>(claims, sig, pk).
     bind_s (prove V claims sig pk (ascii ''election-1'') (ascii ''yes'')) (\<lambda>p.
     bind_s (expect (lift_s (vs_to_bytes V p))) (\<lambda>canonical.
     bind_s (is_err_s (lift_s (vs_from_bytes V canonical))) (\<lambda>e. bind_s (assert_t (\<not> e)) (\<lambda>_.
     bind_s (expect (lift_s (ser (vb_g_codec V) (vo_nullifier p)))) (\<lambda>nb.
     let null_padded = nb @ [0];
         out = encode_ballot p null_padded (vo_revealed p) in
     bind_s (expect (lift_s (vs_to_bytes V p))) (\<lambda>canonical.
     bind_s (assert_t (out \<noteq> canonical)) (\<lambda>_.
     bind_s (is_err_s (lift_s (vs_from_bytes V out))) assert_t))))))))"

definition vote_proof_rejects_unsorted_and_duplicate_revealed_indices ::
    "('p, 'r, 'f::comm_ring_1, 'sk, 'pk, 'sg, 'pok, 'pf, 'g::ab_group_add) vote_backend \<Rightarrow>
     (('p, 'r) suite_state, unit) st" where
  "vote_proof_rejects_unsorted_and_duplicate_revealed_indices V =
     bind_s (credential V) (\<lambda>(claims, sig, pk).
     bind_s (expect (test_prove_vote V claims sig pk [1, 2] (ascii ''election-1'') (ascii ''yes''))) (\<lambda>p.
     bind_s (expect (lift_s (vs_to_bytes V p))) (\<lambda>canonical.
     bind_s (is_err_s (lift_s (vs_from_bytes V canonical))) (\<lambda>e. bind_s (assert_t (\<not> e)) (\<lambda>_.
     bind_s (assert_t (length (vo_revealed p) = 2)) (\<lambda>_.
     bind_s (expect (lift_s (ser (vb_g_codec V) (vo_nullifier p)))) (\<lambda>nb.
     let encode = encode_ballot p nb;
         reordered = rev (vo_revealed p) in
     bind_s (is_err_s (lift_s (vs_from_bytes V (encode reordered)))) (\<lambda>e. bind_s (assert_t e) (\<lambda>_.
     bind_s (lift_s (index (vo_revealed p) 0)) (\<lambda>e0.
     let duplicated = [e0, e0] in
     bind_s (is_err_s (lift_s (vs_from_bytes V (encode duplicated)))) (\<lambda>e. bind_s (assert_t e) (\<lambda>_.
     bind_s (is_err_s (lift_s (vs_from_bytes V (encode (vo_revealed p))))) (\<lambda>e. assert_t (\<not> e))))))))))))))"

lemma encode_ballot_eq:
  "encode_ballot p nb es = u32_to_be_bytes (vo_message_count p) @ lp32 (vo_bbs_proof p) @ lp32 (vo_dl_proof p)
     @ lp32 nb @ u32_to_be_bytes (word_of_nat (length es)) @ entries_bytes es"
  by (simp add: encode_ballot_def Let_def vs_put_revealed_eq vs_put_bytes_eq put_bytes_eq len_be32_def)

lemma encode_ballot_fits:
  assumes "vo_wf p" "length nb \<le> 49" "length es \<le> 64" "\<forall>e \<in> set es. fits32 (snd e)"
  shows "fits64 (encode_ballot p nb es)"
proof -
  have "length (entries_bytes es) \<le> 64 * (8 + 2 ^ 32)"
    using length_entries_bytes [OF assms(4)] assms(3) by (meson le_trans mult_le_mono1)
  then show ?thesis using assms(1,2) by (simp add: encode_ballot_eq vo_wf_def fits64_def fits32_def)
qed

text \<open>What a decoded ballot of this shape is: the encoder's nullifier and entries, well-formed.\<close>

lemma encode_ballot_decoded:
  assumes "point_law (vb_g_codec V)" "vo_wf p" "length nb \<le> 49" "length es \<le> 64" "\<forall>e \<in> set es. fits32 (snd e)"
    and "vs_from_bytes V (encode_ballot p nb es) = Ok q"
  shows "length nb = 48 \<and> sorted_wrt (<) (map fst es)"
proof -
  have q: "vo_wf q" "vs_to_bytes V q = Ok (encode_ballot p nb es)"
    using vs_from_bytes_sound [OF assms(1) encode_ballot_fits [OF assms(2-5)] assms(6)] by simp_all
  obtain e where e: "ser (vb_g_codec V) (vo_nullifier q) = Ok e" "length e = 48" using point_ser [OF assms(1)] by blast
  have fit: "fits32 (vo_bbs_proof p)" "fits32 (vo_bbs_proof q)" "fits32 (vo_dl_proof p)" "fits32 (vo_dl_proof q)"
      "fits32 e" "fits32 nb" and en: "\<forall>e \<in> set (vo_revealed q). fits32 (snd e)"
    using assms(2,3) q(1) e(2) unfolding vo_wf_def by (simp_all add: fits32_def)
  have eq: "e = nb" "(word_of_nat (length (vo_revealed q)) :: u32) = word_of_nat (length es)"
      "entries_bytes (vo_revealed q) @ [] = entries_bytes es @ []"
    using q(2) fit by (auto simp: vs_to_bytes_eq [OF e(1)] encode_ballot_eq be32.append_eq_iff lp32.append_eq_iff)
  have "unat (word_of_nat (length (vo_revealed q)) :: u32) = length (vo_revealed q)"
    using q(1) unat_revealed_count unfolding vo_wf_def by blast
  moreover have "unat (word_of_nat (length es) :: u32) = length es" using assms(4) by (simp add: unat_of_nat)
  ultimately have "length (vo_revealed q) = length es" using eq(2) by metis
  with entries_bytes_split [OF _ en assms(5) eq(3)] q(1) e(2) eq(1) show ?thesis by (simp add: vo_wf_def)
qed

lemma encode_ballot_rejected:
  assumes "point_law (vb_g_codec V)" "vo_wf p" "length nb \<le> 49" "length es \<le> 64" "\<forall>e \<in> set es. fits32 (snd e)"
    and "length nb \<noteq> 48 \<or> \<not> sorted_wrt (<) (map fst es)"
  shows "\<exists>e. vs_from_bytes V (encode_ballot p nb es) = Err e"
  using encode_ballot_decoded [OF assms(1-5)] vs_from_bytes_no_panic [OF encode_ballot_fits [OF assms(2-5)], of V] assms(6)
  by (cases "vs_from_bytes V (encode_ballot p nb es)") auto

lemma decodes:
  assumes "cast_ok V pk reveal ch el sg p" "vs_to_bytes V p = Ok b"
  shows "vs_from_bytes V b = Ok p"
proof -
  note c = castD [OF assms(1)]
  have "b = vo_enc V p"
    using assms(2) point_ser [OF c(4), of "vo_nullifier p"] by (auto simp: vo_enc_def vs_to_bytes_eq)
  then show ?thesis using vs_from_bytes_complete [OF c(4,2)] by simp
qed

lemma padded_nullifier_passes: "passes (vote_ready V) (non_canonical_padded_nullifier_is_rejected V)"
  unfolding non_canonical_padded_nullifier_is_rejected_def Let_def
proof (intro credential_then prove_then test_elections bytes_then)
  fix claims sig pk p b
  assume p: "cast_ok V pk [1] TEST_CHAIN (ascii ''election-1'') (ascii ''yes'') p" and b: "vs_to_bytes V p = Ok b"
  note c = castD [OF p]
  obtain nb where nb: "ser (vb_g_codec V) (vo_nullifier p) = Ok nb" "length nb = 48" using point_ser [OF c(4)] by blast
  have d: "\<exists>e. vs_from_bytes V (encode_ballot p (nb @ [0]) (vo_revealed p)) = Err e"
    using c(2) nb(2) message_count_in_rangeD by (intro encode_ballot_rejected [OF c(4,2)]) (auto simp: vo_wf_def)
  then have ne: "encode_ballot p (nb @ [0]) (vo_revealed p) \<noteq> b" using decodes [OF p b] by auto
  from d obtain e where e: "vs_from_bytes V (encode_ballot p (nb @ [0]) (vo_revealed p)) = Err e" by blast
  show "passes (vote_ready V) (bind_s (is_err_s (lift_s (vs_from_bytes V b))) (\<lambda>e. bind_s (assert_t (\<not> e)) (\<lambda>_.
     bind_s (expect (lift_s (ser (vb_g_codec V) (vo_nullifier p)))) (\<lambda>nb.
     bind_s (expect (lift_s (vs_to_bytes V p))) (\<lambda>canonical.
     bind_s (assert_t (encode_ballot p (nb @ [0]) (vo_revealed p) \<noteq> canonical)) (\<lambda>_.
     bind_s (is_err_s (lift_s (vs_from_bytes V (encode_ballot p (nb @ [0]) (vo_revealed p))))) assert_t))))))"
    by (rule runsI) (simp add: bind_s_def expect_def is_err_s_def assert_t_def decodes [OF p b] nb b ne e)
qed auto

lemma unsorted_passes: "passes (vote_ready V) (vote_proof_rejects_unsorted_and_duplicate_revealed_indices V)"
  unfolding vote_proof_rejects_unsorted_and_duplicate_revealed_indices_def Let_def test_prove_vote_def
proof (intro credential_then runs_bind [OF runs_expect [OF prove_vote_runs]] test_elections)
  fix claims sig pk p
  assume p: "cast_ok V pk [1, 2] TEST_CHAIN (ascii ''election-1'') (ascii ''yes'') p"
  note c = castD [OF p]
  obtain nb where nb: "ser (vb_g_codec V) (vo_nullifier p) = Ok nb" "length nb = 48" using point_ser [OF c(4)] by blast
  obtain b where b: "vs_to_bytes V p = Ok b" "b = encode_ballot p nb (vo_revealed p)"
    using vs_to_bytes_eq [OF nb(1)] by (simp add: encode_ballot_eq)
  define x y where "x = (1 :: u32, ascii ''region=north'')" and "y = (2 :: u32, ascii ''cohort=2025'')"
  have r: "vo_revealed p = [x, y]"
    using p by (simp add: cast_ok_def disclosed_def btree_set_def credential_claims_def x_def y_def)
  have f: "fits32 (snd x)" "fits32 (snd y)" "fst x < fst y" "\<not> fst y < fst x"
    by (simp_all add: x_def y_def fits32_def ascii_def)
  obtain e1 where e1: "vs_from_bytes V (encode_ballot p nb [y, x]) = Err e1"
    using encode_ballot_rejected [OF c(4,2), of nb "[y, x]"] nb(2) f by auto
  obtain e2 where e2: "vs_from_bytes V (encode_ballot p nb [x, x]) = Err e2"
    using encode_ballot_rejected [OF c(4,2), of nb "[x, x]"] nb(2) f by auto
  have d: "vs_from_bytes V (encode_ballot p nb [x, y]) = Ok p" using decodes [OF p b(1)] b(2) r by simp
  show "passes (vote_ready V) (bind_s (expect (lift_s (vs_to_bytes V p))) (\<lambda>canonical.
     bind_s (is_err_s (lift_s (vs_from_bytes V canonical))) (\<lambda>e. bind_s (assert_t (\<not> e)) (\<lambda>_.
     bind_s (assert_t (length (vo_revealed p) = 2)) (\<lambda>_.
     bind_s (expect (lift_s (ser (vb_g_codec V) (vo_nullifier p)))) (\<lambda>nb.
     bind_s (is_err_s (lift_s (vs_from_bytes V (encode_ballot p nb (rev (vo_revealed p)))))) (\<lambda>e. bind_s (assert_t e) (\<lambda>_.
     bind_s (lift_s (index (vo_revealed p) 0)) (\<lambda>e0.
     bind_s (is_err_s (lift_s (vs_from_bytes V (encode_ballot p nb [e0, e0])))) (\<lambda>e. bind_s (assert_t e) (\<lambda>_.
     bind_s (is_err_s (lift_s (vs_from_bytes V (encode_ballot p nb (vo_revealed p))))) (\<lambda>e. assert_t (\<not> e))))))))))))) "
    by (rule runsI) (simp add: bind_s_def expect_def is_err_s_def assert_t_def index_def b r d e1 e2 nb(1))
qed auto

end
