(* ===== verification/Phi_Tests_Binding.thy ===== *)
theory Phi_Tests_Binding
  imports Phi_Tests_Vote
begin

section \<open>The tests that a ballot is bound (voting_snark.rs)\<close>

text \<open>
  The tests that an accepted ballot is refused under another signal, chain, claim count or
  issuer, or with a changed response. They pass unless the two ballots of the test collide
  under one of the two hashes, which is the only way the binding of \<open>Phi_Vote_Binding\<close> leaves.
\<close>

definition rebound ::
    "('p, 'r, 'f::comm_ring_1, 'sk, 'pk, 'sg, 'pok, 'pf, 'g::ab_group_add) vote_backend \<Rightarrow>
     'g vote_proof \<Rightarrow> bytes \<Rightarrow> bytes \<Rightarrow> bytes \<Rightarrow> bytes \<Rightarrow> 'g vote_proof \<Rightarrow> bytes \<Rightarrow> bytes \<Rightarrow> bytes \<Rightarrow> bool" where
  "rebound V p pk ch el sg p' pk' ch' sg' \<longleftrightarrow>
     (\<exists>t t'. ballot_transcript V p pk ch el sg = Ok t \<and> ballot_transcript V p' pk' ch' el sg' = Ok t'
        \<and> collision (bk_oracle (vb_bbs V)) t t')
     \<or> (\<exists>x x'. ballot_context V p ch el sg = Ok x \<and> ballot_context V p' ch' el sg' = Ok x'
        \<and> collision (bk_sha256 (vb_bbs V)) x x')"

definition binds :: "('p, 'r, 'f::comm_ring_1, 'sk, 'pk, 'sg, 'pok, 'pf, 'g::ab_group_add) vote_backend \<Rightarrow> bool" where
  "binds V \<longleftrightarrow> order_law (vb_mul V) \<and> size_law (vb_bbs V)"

lemma moved_ballot_invalid:
  assumes "cast_ok V pk [1] ch el sg p" "binds V" "\<not> rebound V p pk ch el sg p' pk' ch' sg'"
    and "vo_dl_proof p' = vo_dl_proof p" "vo_nullifier p' = vo_nullifier p"
    and "fits64 ch" "fits64 ch'" "fits64 el" "fits64 sg" "fits64 sg'"
    and "vo_message_count p \<noteq> vo_message_count p' \<or> ch \<noteq> ch' \<or> sg \<noteq> sg' \<or> issuer_bytes V pk \<noteq> issuer_bytes V pk'"
  shows "\<not> vote_valid V p' pk' ch' el sg'"
proof
  assume v: "vote_valid V p' pk' ch' el sg'"
  note c = castD [OF assms(1)]
  have laws: "group_law (vb_mul V)" "order_law (vb_mul V)" "size_law (vb_bbs V)"
    using c(3) assms(2) by (simp_all add: vote_tests_ok_def vote_law_def binds_def)
  from vote_bound_once [OF laws(1,2) c(4) laws(3) c(1) v] assms(3-11)
  show False by (auto simp: rebound_def)
qed

lemmas bound_simps = fits64_def ascii_def TEST_CHAIN_def

lemma retagging_passes:
  assumes "binds V"
    and "\<And>pk p. cast_ok V pk [1] TEST_CHAIN (ascii ''election-1'') (ascii ''yes'') p \<Longrightarrow>
      \<not> rebound V p pk TEST_CHAIN (ascii ''election-1'') (ascii ''yes'') p pk TEST_CHAIN (ascii ''no'')"
  shows "passes (vote_ready V) (retagging_signal_is_non_malleable V)"
proof -
  have n: "\<not> vote_valid V p pk TEST_CHAIN (ascii ''election-1'') (ascii ''no'')"
    if p: "cast_ok V pk [1] TEST_CHAIN (ascii ''election-1'') (ascii ''yes'') p" for p pk
    by (rule moved_ballot_invalid [OF p assms(1) assms(2) [OF p]]) (simp_all add: bound_simps)
  show ?thesis
    unfolding retagging_signal_is_non_malleable_def test_verify_vote_proof_def
    by (intro credential_then prove_then test_elections accepts_then refuses_last n castD(1))
qed

lemma tampered_count_passes:
  assumes "binds V"
    and "\<And>pk p. cast_ok V pk [1] TEST_CHAIN (ascii ''election-1'') (ascii ''yes'') p \<Longrightarrow>
      \<not> rebound V p pk TEST_CHAIN (ascii ''election-1'') (ascii ''yes'')
          (p\<lparr>vo_message_count := vo_message_count p + 1\<rparr>) pk TEST_CHAIN (ascii ''yes'')"
  shows "passes (vote_ready V) (tampered_message_count_is_rejected V)"
proof -
  have n: "\<not> vote_valid V (p\<lparr>vo_message_count := vo_message_count p + 1\<rparr>) pk TEST_CHAIN (ascii ''election-1'') (ascii ''yes'')"
    if p: "cast_ok V pk [1] TEST_CHAIN (ascii ''election-1'') (ascii ''yes'') p" for p pk
    by (rule moved_ballot_invalid [OF p assms(1) assms(2) [OF p]]) (simp_all add: bound_simps)
  show ?thesis
    unfolding tampered_message_count_is_rejected_def test_verify_vote_proof_def Let_def
    by (intro credential_then prove_then test_elections accepts_then refuses_last n castD(1))
qed

text \<open>
  In another election the discrete-log proof is checked against another point; that it fails
  there is the third hypothesis, which no binding of the transcript gives.
\<close>

lemma bytes_roundtrip_passes:
  assumes "binds V"
    and "\<And>pk p. cast_ok V pk [1] TEST_CHAIN (ascii ''election-7'') (ascii ''option-3'') p \<Longrightarrow>
      \<not> rebound V p pk TEST_CHAIN (ascii ''election-7'') (ascii ''option-3'') p pk TEST_CHAIN (ascii ''option-X'')"
    and "\<And>pk p. cast_ok V pk [1] TEST_CHAIN (ascii ''election-7'') (ascii ''option-3'') p \<Longrightarrow>
      \<not> vote_valid V p pk TEST_CHAIN (ascii ''election-8'') (ascii ''option-3'')"
  shows "passes (vote_ready V) (prove_vote_bytes_roundtrip_verifies V)"
proof -
  have b: "runs (vote_ready V) (test_prove_vote_bytes V claims sig pk [1] (ascii ''election-7'') (ascii ''option-3''))
      (\<lambda>b. \<exists>p. cast_ok V pk [1] TEST_CHAIN (ascii ''election-7'') (ascii ''option-3'') p \<and> vs_to_bytes V p = Ok b)"
    if "credential_ok V (claims, sig, pk)" for claims sig pk
  proof -
    have t: "\<exists>b. vs_to_bytes V p = Ok b" if "cast_ok V pk [1] TEST_CHAIN (ascii ''election-7'') (ascii ''option-3'') p" for p
      using point_ser [OF castD(4) [OF that], of "vo_nullifier p"] vs_to_bytes_eq [of V p] by auto
    show ?thesis
      unfolding test_prove_vote_bytes_def prove_vote_bytes_def
      by (rule runs_bind [OF prove_vote_runs [OF that _ test_elections(3)]]) (simp, use t in \<open>fastforce simp: runs_def\<close>)
  qed
  show ?thesis
    unfolding prove_vote_bytes_roundtrip_verifies_def test_verify_vote_def
  proof (intro credential_then runs_bind [OF runs_expect [OF b]], assumption, elim exE conjE)
    fix claims sig pk bytes p
    assume p: "cast_ok V pk [1] TEST_CHAIN (ascii ''election-7'') (ascii ''option-3'') p" "vs_to_bytes V p = Ok bytes"
    note c = castD [OF p(1)]
    have n: "\<not> vote_valid V p pk TEST_CHAIN (ascii ''election-7'') (ascii ''option-X'')"
      by (rule moved_ballot_invalid [OF p(1) assms(1) assms(2) [OF p(1)]]) (simp_all add: bound_simps)
    show "passes (vote_ready V)
        (bind_s (verify_vote V bytes pk TEST_CHAIN (ascii ''election-7'') (ascii ''option-3'')) (\<lambda>b. bind_s (assert_t b) (\<lambda>_.
         bind_s (verify_vote V bytes pk TEST_CHAIN (ascii ''election-7'') (ascii ''option-X'')) (\<lambda>b. bind_s (assert_t (\<not> b)) (\<lambda>_.
         bind_s (verify_vote V bytes pk TEST_CHAIN (ascii ''election-8'') (ascii ''option-3'')) (\<lambda>b. assert_t (\<not> b)))))))"
      using c n assms(3) [OF p(1)] by (intro runs_checked [OF verify_bytes_runs [OF c(2) p(2) c(4)]] runs_verdict [OF verify_bytes_runs [OF c(2) p(2) c(4)]])
        simp_all
  qed
qed

lemma chain_bound_passes:
  assumes "binds V"
    and "\<And>pk p. cast_ok V pk [1] (ascii ''phi-chain-A'') (ascii ''election-1'') (ascii ''yes'') p \<Longrightarrow>
      \<not> rebound V p pk (ascii ''phi-chain-A'') (ascii ''election-1'') (ascii ''yes'') p pk (ascii ''phi-chain-B'') (ascii ''yes'')"
  shows "passes (vote_ready V) (proof_is_bound_to_chain_id V)"
  unfolding proof_is_bound_to_chain_id_def Let_def
proof (intro credential_then cast_then test_elections)
  fix claims sig pk p
  assume cr: "credential_ok V (claims, sig, pk)"
    and p: "cast_ok V pk [1] (ascii ''phi-chain-A'') (ascii ''election-1'') (ascii ''yes'') p"
  note c = castD [OF p]
  have n: "\<not> vote_valid V p pk (ascii ''phi-chain-B'') (ascii ''election-1'') (ascii ''yes'')"
    by (rule moved_ballot_invalid [OF p assms(1) assms(2) [OF p]]) (simp_all add: bound_simps)
  have last: "passes (vote_ready V)
      (bind_s (expect (prove_vote V claims sig pk [1] (ascii ''phi-chain-B'') (ascii ''election-1'') (ascii ''yes''))) (\<lambda>p_b.
       bind_s (expect (lift_s (vo_nullifier_bytes V p))) (\<lambda>m.
       bind_s (expect (lift_s (vo_nullifier_bytes V p_b))) (\<lambda>n. assert_t (m = n)))))"
    by (intro cast_then [OF cr test_elections(1)] runs_bind [OF nullifier_runs [OF c(4)]] runs_assert)
      (auto dest: same_nullifier [OF p])
  show "passes (vote_ready V)
     (bind_s (verify_vote_proof V p pk (ascii ''phi-chain-A'') (ascii ''election-1'') (ascii ''yes'')) (\<lambda>b. bind_s (assert_t b) (\<lambda>_.
      bind_s (verify_vote_proof V p pk (ascii ''phi-chain-B'') (ascii ''election-1'') (ascii ''yes'')) (\<lambda>b. bind_s (assert_t (\<not> b)) (\<lambda>_.
      bind_s (expect (lift_s (vs_to_bytes V p))) (\<lambda>bytes.
      bind_s (verify_vote V bytes pk (ascii ''phi-chain-A'') (ascii ''election-1'') (ascii ''yes'')) (\<lambda>b. bind_s (assert_t b) (\<lambda>_.
      bind_s (verify_vote V bytes pk (ascii ''phi-chain-B'') (ascii ''election-1'') (ascii ''yes'')) (\<lambda>b. bind_s (assert_t (\<not> b)) (\<lambda>_.
      bind_s (expect (prove_vote V claims sig pk [1] (ascii ''phi-chain-B'') (ascii ''election-1'') (ascii ''yes''))) (\<lambda>p_b.
      bind_s (expect (lift_s (vo_nullifier_bytes V p))) (\<lambda>m.
      bind_s (expect (lift_s (vo_nullifier_bytes V p_b))) (\<lambda>n. assert_t (m = n))))))))))))))"
    by (intro accepts_then refuses_then bytes_then [OF p] runs_checked [OF verify_bytes_runs [OF c(2) _ c(4)]] last c(1) n)
      (auto simp: c(1) n)
qed

subsection \<open>Another issuer, another response\<close>

definition proof_does_not_verify_under_a_different_issuer ::
    "('p, 'r, 'f::comm_ring_1, 'sk, 'pk, 'sg, 'pok, 'pf, 'g::ab_group_add) vote_backend \<Rightarrow>
     (('p, 'r) suite_state, unit) st" where
  "proof_does_not_verify_under_a_different_issuer V =
     bind_s (credential V) (\<lambda>(claims, sig, pk).
     bind_s (expect (bbs_generate_keypair (vb_bbs V) (word_of_nat (length claims)))) (\<lambda>other.
     bind_s (prove V claims sig pk (ascii ''election-1'') (ascii ''yes'')) (\<lambda>p.
     bind_s (test_verify_vote_proof V p pk (ascii ''election-1'') (ascii ''yes'')) (\<lambda>b. bind_s (assert_t b) (\<lambda>_.
     bind_s (test_verify_vote_proof V p (bkp_public other) (ascii ''election-1'') (ascii ''yes'')) (\<lambda>b. assert_t (\<not> b)))))))"

definition wrong_issuer_key_is_rejected ::
    "('p, 'r, 'f::comm_ring_1, 'sk, 'pk, 'sg, 'pok, 'pf, 'g::ab_group_add) vote_backend \<Rightarrow>
     (('p, 'r) suite_state, unit) st" where
  "wrong_issuer_key_is_rejected V =
     bind_s (credential V) (\<lambda>(claims, sig, pk).
     bind_s (expect (bbs_generate_keypair (vb_bbs V) (word_of_nat (length claims)))) (\<lambda>other.
     bind_s (prove V claims sig pk (ascii ''election-1'') (ascii ''yes'')) (\<lambda>p.
     bind_s (test_verify_vote_proof V p (bkp_public other) (ascii ''election-1'') (ascii ''yes'')) (\<lambda>b. assert_t (\<not> b)))))"

text \<open>
  The second key pair is drawn from the generator and might be the first one, so the lemma
  follows a run: the test passes when the drawn key differs and the two ballots do not collide.
\<close>

lemma different_issuer_passes:
  assumes s: "vote_ready V s" and b: "binds V"
    and run: "credential V s = (Ok (claims, sig, pk), s1)"
      "bbs_generate_keypair (vb_bbs V) (word_of_nat (length claims)) s1 = (Ok other, s2)"
      "prove V claims sig pk (ascii ''election-1'') (ascii ''yes'') s2 = (Ok p, s3)"
    and i: "issuer_bytes V pk \<noteq> issuer_bytes V (bkp_public other)"
    and r: "\<not> rebound V p pk TEST_CHAIN (ascii ''election-1'') (ascii ''yes'') p (bkp_public other) TEST_CHAIN (ascii ''yes'')"
  shows "fst (proof_does_not_verify_under_a_different_issuer V s) = Ok ()" "fst (wrong_issuer_key_is_rejected V s) = Ok ()"
proof -
  have c: "credential_ok V (claims, sig, pk)" "vote_ready V s1"
    using runsD [OF credential_runs s] run(1) by auto
  have s2: "vote_ready V s2"
    using keepsD [OF vote_ready_keeps [OF generate_keeps] c(2), of "word_of_nat (length claims)"] run(2) by simp
  have p: "cast_ok V pk [1] TEST_CHAIN (ascii ''election-1'') (ascii ''yes'') p" and s3: "vote_ready V s3"
    using runsD [OF runs_expect [OF prove_vote_runs [OF c(1) _ test_elections(1)]] s2, of "[1]" TEST_CHAIN "ascii ''yes''"] run(3)
    by (simp_all add: prove_def test_prove_vote_def)
  have n: "\<not> vote_valid V p (bkp_public other) TEST_CHAIN (ascii ''election-1'') (ascii ''yes'')"
    by (rule moved_ballot_invalid [OF p b r]) (simp_all add: bound_simps i)
  note v = castD(1) [OF p]
  obtain u s4 where t1: "bind_s (test_verify_vote_proof V p pk (ascii ''election-1'') (ascii ''yes'')) (\<lambda>b. bind_s (assert_t b) (\<lambda>_.
     bind_s (test_verify_vote_proof V p (bkp_public other) (ascii ''election-1'') (ascii ''yes'')) (\<lambda>b. assert_t (\<not> b)))) s3 = (Ok u, s4)"
    using runsD [OF accepts_then [OF v refuses_last [OF n]] s3] unfolding test_verify_vote_proof_def by blast
  obtain u' s5 where t2: "bind_s (test_verify_vote_proof V p (bkp_public other) (ascii ''election-1'') (ascii ''yes''))
      (\<lambda>b. assert_t (\<not> b)) s3 = (Ok u', s5)"
    using runsD [OF refuses_last [OF n] s3] unfolding test_verify_vote_proof_def by blast
  show "fst (proof_does_not_verify_under_a_different_issuer V s) = Ok ()" "fst (wrong_issuer_key_is_rejected V s) = Ok ()"
    unfolding proof_does_not_verify_under_a_different_issuer_def wrong_issuer_key_is_rejected_def
    using run t1 t2 by (simp_all add: bind_s_step [where m = "credential V"] expect_step bind_s_step [where m = "prove V _ _ _ _ _"])
qed

text \<open>A response changed by one fails the equation of the discrete-log proof.\<close>

lemma mul_zero_point:
  assumes "group_law mul"
  shows "mul 0 a = 0"
proof -
  have z: "mul g 0 = 0" for g using group_law_diff [OF assms, of g 0 0] by simp
  have "mul 0 (0 * a) = mul (mul 0 0) a" using assms unfolding group_law_def by blast
  then show ?thesis by (simp add: z)
qed

lemma changed_response_invalid:
  assumes "cast_ok V pk reveal ch el sg p" "order_law (vb_mul V)" "deser (vb_dl_codec V) (vo_dl_proof p) = Ok dl"
    and "deser (vb_dl_codec V) b = Ok (dl\<lparr>dl_response := dl_response dl + 1\<rparr>)"
  shows "\<not> vote_valid V (p\<lparr>vo_dl_proof := b\<rparr>) pk ch el sg"
proof
  assume v: "vote_valid V (p\<lparr>vo_dl_proof := b\<rparr>) pk ch el sg"
  let ?dl = "dl\<lparr>dl_response := dl_response dl + 1\<rparr>"
  have g: "group_law (vb_mul V)" using castD(3) [OF assms(1)] by (simp add: vote_tests_ok_def vote_law_def)
  have dc: "dl_contribution (vb_g_codec V) ?dl h y = dl_contribution (vb_g_codec V) dl h y" for h y
    by (simp add: dl_contribution_def)
  obtain h_e c where a: "hash_to_g1 V el = Ok h_e" "dl_verify (vb_mul V) dl (vo_nullifier p) h_e c"
      "dl_verify (vb_mul V) ?dl (vo_nullifier p) h_e c"
    using castD(1) [OF assms(1)] v assms(3,4) dc unfolding vote_valid_def by fastforce
  have "vb_mul V h_e (dl_response dl + 1) = vb_mul V h_e (dl_response dl)"
    using a(2,3) by (simp add: dl_verify_def algebra_simps)
  then have "vb_mul V h_e 1 = 0" using g by (simp add: group_law_def)
  then have "h_e = 0" using assms(2) zero_neq_one unfolding order_law_def by metis
  then have "vo_nullifier p = 0" using assms(1) a(1) mul_zero_point [OF g] by (auto simp: cast_ok_def)
  then show False using castD(1) [OF assms(1)] by (simp add: vote_valid_def)
qed

lemma tampered_response_passes:
  assumes "order_law (vb_mul V)"
  shows "passes (vote_ready V) (tampered_dl_response_fails V)"
  unfolding tampered_dl_response_fails_def test_verify_vote_proof_def Let_def
proof (intro credential_then prove_then test_elections)
  fix claims sig pk p
  assume p: "cast_ok V pk [1] TEST_CHAIN (ascii ''election-1'') (ascii ''yes'') p"
  obtain dl where dl: "deser (vb_dl_codec V) (vo_dl_proof p) = Ok dl"
    using castD(1) [OF p] unfolding vote_valid_def by blast
  have cl: "codec_law (vb_dl_codec V)" using castD(3) [OF p] by (simp add: vote_tests_ok_def vote_law_def)
  have d: "runs (vote_ready V) (expect (lift_s (deser (vb_dl_codec V) (vo_dl_proof p)))) (\<lambda>x. x = dl)"
    by (rule runs_expect_lift [OF dl]) simp
  have inv: "\<not> vote_valid V (p\<lparr>vo_dl_proof := b\<rparr>) pk TEST_CHAIN (ascii ''election-1'') (ascii ''yes'')"
    if "ser (vb_dl_codec V) (dl\<lparr>dl_response := dl_response dl + 1\<rparr>) = Ok b" for b
    using codec_law_ser [OF cl, of "dl\<lparr>dl_response := dl_response dl + 1\<rparr>"] that
    by (intro changed_response_invalid [OF p assms dl]) auto
  show "passes (vote_ready V) (bind_s (expect (lift_s (deser (vb_dl_codec V) (vo_dl_proof p)))) (\<lambda>dl.
     bind_s (expect (lift_s (ser (vb_dl_codec V) (dl\<lparr>dl_response := dl_response dl + 1\<rparr>)))) (\<lambda>b.
     bind_s (verify_vote_proof V (p\<lparr>vo_dl_proof := b\<rparr>) pk TEST_CHAIN (ascii ''election-1'') (ascii ''yes'')) (\<lambda>b. assert_t (\<not> b)))))"
    by (intro runs_bind [OF d] runs_bind [OF ser_runs [OF cl]] refuses_last inv) simp_all
qed auto

end
