(* ===== verification/Phi_Tests_Ffi.thy ===== *)
theory Phi_Tests_Ffi
  imports Phi_Tests_Binding Phi_Ffi_Props
begin

section \<open>The unit tests of the revealed-message decoder (ffi.rs)\<close>

text \<open>
  The tests of the decoder of revealed messages. The tests' own encoder is the model's, so all
  of them follow from the canonicity of the decoder.
\<close>

subsection \<open>Revealed messages\<close>

definition test_encode_revealed :: "(u32 \<times> bytes) list \<Rightarrow> bytes" where
  "test_encode_revealed entries =
     (let out = [];
          out = out @ len_be32 (length entries) in
      fold (\<lambda>(i, v) out. out @ u32_to_be_bytes i @ len_be32 (length v) @ v) entries out)"

definition decode_revealed_accepts_the_canonical_encoding :: "('s, unit) st" where
  "decode_revealed_accepts_the_canonical_encoding =
     (let bytes = test_encode_revealed [(0, ascii ''a''), (2, ascii ''bb''), (7, [])] in
      bind_s (assert_t (decode_revealed bytes = Ok [(0, ascii ''a''), (2, ascii ''bb''), (7, [])])) (\<lambda>_.
      assert_t (decode_revealed (test_encode_revealed []) = Ok [])))"

definition decode_revealed_rejects_trailing_bytes :: "('s, unit) st" where
  "decode_revealed_rejects_trailing_bytes =
     (let base = test_encode_revealed [(0, ascii ''a''), (1, ascii ''b'')] in
      bind_s (assert_t (ok (decode_revealed base) \<noteq> None)) (\<lambda>_.
      for_each [[0], [0xFF], replicate 64 0] (\<lambda>suffix.
        let padded = base @ suffix in assert_t (decode_revealed padded = Err ()))))"

definition decode_revealed_rejects_an_over_large_count :: "('s, unit) st" where
  "decode_revealed_rejects_an_over_large_count =
     for_each [MAX_BBS_MESSAGES + 1, - 1] (\<lambda>cnt.
       let bytes = u32_to_be_bytes cnt;
           bytes = bytes @ u32_to_be_bytes 0;
           bytes = bytes @ u32_to_be_bytes 0 in
       assert_t (decode_revealed bytes = Err ()))"

definition decode_revealed_rejects_duplicate_and_unsorted_indices :: "('s, unit) st" where
  "decode_revealed_rejects_duplicate_and_unsorted_indices =
     bind_s (assert_t (decode_revealed (test_encode_revealed [(1, ascii ''a''), (1, ascii ''b'')]) = Err ())) (\<lambda>_.
     bind_s (assert_t (decode_revealed (test_encode_revealed [(1, ascii ''a''), (1, ascii ''a'')]) = Err ())) (\<lambda>_.
     bind_s (assert_t (decode_revealed (test_encode_revealed [(2, ascii ''b''), (0, ascii ''a'')]) = Err ())) (\<lambda>_.
     assert_t (ok (decode_revealed (test_encode_revealed [(0, ascii ''a''), (2, ascii ''b'')])) \<noteq> None))))"

definition decode_revealed_accepts_exactly_one_encoding_per_set :: "('s, unit) st" where
  "decode_revealed_accepts_exactly_one_encoding_per_set =
     (let canonical = test_encode_revealed [(0, ascii ''a''), (2, ascii ''b'')] in
      bind_s (lift_s (case decode_revealed canonical of Ok x \<Rightarrow> Ok x | _ \<Rightarrow> Panic)) (\<lambda>expected.
      let alternatives = [test_encode_revealed [(2, ascii ''b''), (0, ascii ''a'')]];
          alternatives = fold (\<lambda>suffix alts. alts @ [canonical @ suffix]) [[0], replicate 8 0xFF] alternatives;
          alternatives = alternatives @ [test_encode_revealed [(0, ascii ''a''), (0, ascii ''a''), (2, ascii ''b'')]] in
      bind_s (for_each alternatives (\<lambda>alt.
        bind_s (assert_t (alt \<noteq> canonical)) (\<lambda>_.
        assert_t (decode_revealed alt = Err ())))) (\<lambda>_.
      assert_t (decode_revealed canonical = Ok expected))))"

definition decode_revealed_rejects_truncation :: "('s, unit) st" where
  "decode_revealed_rejects_truncation =
     (let full = test_encode_revealed [(0, ascii ''abc''), (1, ascii ''de'')] in
      bind_s (for_each [1..<length full] (\<lambda>cut. assert_t (decode_revealed (take cut full) = Err ()))) (\<lambda>_.
      assert_t (ok (decode_revealed full) \<noteq> None)))"

lemma test_encode_eq: "test_encode_revealed es = len_be32 (length es) @ entries_bytes es"
proof -
  have "fold (\<lambda>(i, v) out. out @ u32_to_be_bytes i @ len_be32 (length v) @ v) es out = out @ entries_bytes es" for out
    by (induction es arbitrary: out) (auto simp: entry_bytes_def lp32_def)
  then show ?thesis by (simp add: test_encode_revealed_def)
qed

text \<open>The tests' encoder is the model's, so that canonicity of the decoder settles every test.\<close>

abbreviation widened :: "(u32 \<times> bytes) list \<Rightarrow> (nat \<times> bytes) list" where
  "widened es \<equiv> map (\<lambda>(i, v). (unat i, v)) es"

lemma test_encode_widened: "test_encode_revealed es = encode_revealed (widened es)"
  by (simp add: test_encode_eq encode_revealed_def unwiden [simplified])

lemma widened_wf:
  "revealed_wf (widened es) \<longleftrightarrow> length es \<le> 64 \<and> sorted_wrt (<) (map fst es) \<and> (\<forall>e \<in> set es. fits32 (snd e))"
proof -
  have "unat (i :: u32) < 2 ^ 32" for i by (rule order_less_le_trans [OF unsigned_less]) simp
  then show ?thesis by (auto simp: revealed_wf_def sorted_wrt_map word_less_nat_alt case_prod_unfold)
qed

lemma decodes_canonical:
  "revealed_wf (widened es) \<Longrightarrow> decode_revealed (test_encode_revealed es) = Ok (widened es)"
  using decode_revealed_complete by (simp add: test_encode_widened del: map_map)

lemma decode_refuses:
  assumes "fits64 b" "ok (decode_revealed b) = None"
  shows "decode_revealed b = Err ()"
  using decode_revealed_no_panic [OF assms(1)] assms(2) by (cases "decode_revealed b") auto

lemma decode_refuses_unsorted:
  assumes "length es \<le> 64" "\<forall>e \<in> set es. fits32 (snd e)" "\<not> sorted_wrt (<) (map fst es)"
  shows "decode_revealed (test_encode_revealed es) = Err ()"
proof (rule decode_refuses)
  have "length (entries_bytes es) \<le> 64 * (8 + 2 ^ 32)"
    using length_entries_bytes [OF assms(2)] assms(1) by (meson le_trans mult_le_mono1)
  then show f: "fits64 (test_encode_revealed es)" by (simp add: test_encode_eq fits64_def)
  show "ok (decode_revealed (test_encode_revealed es)) = None"
  proof (cases "decode_revealed (test_encode_revealed es)")
    case (Ok fs)
    let ?n = "map (\<lambda>(i, v). (word_of_nat i :: u32, v)) fs"
    from decode_revealed_sound [OF f Ok] have wf: "revealed_wf fs" and e: "encode_revealed fs = test_encode_revealed es" by auto
    have "unat (word_of_nat (length es) :: u32) = length es" using assms(1) by (simp add: unat_of_nat)
    moreover have w: "(word_of_nat (length fs) :: u32) = word_of_nat (length es)"
      and "entries_bytes ?n @ [] = entries_bytes es @ []"
      using e unfolding encode_revealed_def test_encode_eq len_be32_def be32.append_eq_iff [OF TrueI TrueI] by simp_all
    ultimately have "length fs = length es" using revealed_count [OF wf] by metis
    moreover note \<open>entries_bytes ?n @ [] = entries_bytes es @ []\<close>
    moreover have "\<forall>e \<in> set ?n. fits32 (snd e)" using wf by (auto simp: revealed_wf_def)
    ultimately have "?n = es" using entries_bytes_split [of ?n es] assms(2) by simp
    with admitted_narrow [OF wf] assms(3) show ?thesis by (simp add: order_admitted)
  qed simp_all
qed

lemma decode_refuses_count:
  assumes "cnt > MAX_BBS_MESSAGES" "fits64 (u32_to_be_bytes cnt @ rest)"
  shows "decode_revealed (u32_to_be_bytes cnt @ rest) = Err ()"
  using assms by (simp add: decode_revealed_def u32_at_eq [OF rd_on_start [OF assms(2)]])

lemma decode_tests_pass:
  "passes I decode_revealed_accepts_the_canonical_encoding"
  "passes I decode_revealed_rejects_trailing_bytes"
  "passes I decode_revealed_rejects_an_over_large_count"
  "passes I decode_revealed_rejects_duplicate_and_unsorted_indices"
  "passes I decode_revealed_accepts_exactly_one_encoding_per_set"
  "passes I decode_revealed_rejects_truncation"
proof -
  note s = fits32_def fits64_def ascii_def
  have two: "revealed_wf (widened [(i, ascii a), (j, ascii b)])" if "i < j" "length a < 9" "length b < 9" for i j a b
    using that unfolding widened_wf by (simp add: s)
  have trail: "decode_revealed (test_encode_revealed es @ t) = Err ()"
    if "revealed_wf (widened es)" "t \<noteq> []" "fits64 (test_encode_revealed es @ t)" for es t
    using rvc.rejects_trailing [OF that(3) _ that(2)] decodes_canonical [OF that(1)] by (intro decode_refuses that(3)) simp
  have fit: "fits64 (test_encode_revealed [(i, ascii a), (j, ascii b)] @ t)"
    if "length a < 9" "length b < 9" "length t < 99" for i j a b t
    using that by (simp add: test_encode_eq entry_bytes_def s)
  show "passes I decode_revealed_accepts_the_canonical_encoding"
    unfolding decode_revealed_accepts_the_canonical_encoding_def Let_def
    by (intro runs_assert_then runs_assert)
      (subst decodes_canonical, unfold widened_wf, simp_all add: s)+
  have w: "revealed_wf (widened [(0, ascii ''a''), (1, ascii ''b'')])" by (rule two) simp_all
  have t: "decode_revealed (test_encode_revealed [(0, ascii ''a''), (1, ascii ''b'')] @ t) = Err ()"
    if "t \<noteq> []" "length t < 99" for t
    using that by (intro trail [OF w] fit) simp_all
  show "passes I decode_revealed_rejects_trailing_bytes"
    unfolding decode_revealed_rejects_trailing_bytes_def Let_def
    by (intro runs_assert_then runs_for_each runs_assert) (auto simp: decodes_canonical [OF w] t)
  show "passes I decode_revealed_rejects_an_over_large_count"
    unfolding decode_revealed_rejects_an_over_large_count_def Let_def
    by (intro runs_for_each runs_assert)
      (auto simp: s MAX_BBS_MESSAGES_def intro!: decode_refuses_count)
  show "passes I decode_revealed_rejects_duplicate_and_unsorted_indices"
    unfolding decode_revealed_rejects_duplicate_and_unsorted_indices_def
    by (intro runs_assert_then runs_assert)
      (simp_all add: decodes_canonical [OF two] decode_refuses_unsorted fits32_def)
  have cut: "decode_revealed (take n (test_encode_revealed es)) = Err ()"
    if "revealed_wf (widened es)" "n < length (test_encode_revealed es)" for es n
  proof -
    have f: "fits64 (test_encode_revealed es)" using encode_revealed_fits [OF that(1)] by (simp add: test_encode_widened)
    then have "fits64 (take n (test_encode_revealed es))" by (simp add: fits64_def)
    then show ?thesis
      using rvc.rejects_truncated [OF f _ that(2)] decodes_canonical [OF that(1)] by (intro decode_refuses) simp_all
  qed
  show "passes I decode_revealed_rejects_truncation"
    unfolding decode_revealed_rejects_truncation_def Let_def
    by (intro runs_bind [OF runs_for_each] runs_assert cut two) (simp_all add: decodes_canonical [OF two])
  show "passes I decode_revealed_accepts_exactly_one_encoding_per_set"
  proof -
    let ?c = "test_encode_revealed [(0, ascii ''a''), (2, ascii ''b'')]"
    have d: "decode_revealed ?c = Ok (widened [(0, ascii ''a''), (2, ascii ''b'')])"
      by (rule decodes_canonical [OF two]) simp_all
    have alt: "passes I (bind_s (assert_t (x \<noteq> ?c)) (\<lambda>_. assert_t (decode_revealed x = Err ())))"
      if "decode_revealed x = Err ()" for x
      using that d by (intro runs_assert_then runs_assert) auto
    have refused: "decode_revealed (test_encode_revealed [(2, ascii ''b''), (0, ascii ''a'')]) = Err ()"
      "decode_revealed (test_encode_revealed [(0, ascii ''a''), (0, ascii ''a''), (2, ascii ''b'')]) = Err ()"
      "decode_revealed (?c @ [0]) = Err ()" "decode_revealed (?c @ replicate 8 0xFF) = Err ()"
      by (rule decode_refuses_unsorted; simp add: fits32_def ascii_def)+ (rule trail [OF two]; simp add: fit)+
    have l: "runs I (lift_s (case decode_revealed ?c of Ok x \<Rightarrow> Ok x | _ \<Rightarrow> Panic)) (\<lambda>x. decode_revealed ?c = Ok x)"
      unfolding d by (auto simp: runs_def)
    show ?thesis
      unfolding decode_revealed_accepts_exactly_one_encoding_per_set_def Let_def
      by (rule runs_bind [OF l])
        (intro runs_bind [OF runs_for_each] runs_assert alt, auto simp: refused simp del: append_assoc)
  qed
qed

end
