(* ===== verification/Phi_Tests_Boundary.thy ===== *)
theory Phi_Tests_Boundary
  imports Phi_Tests_Ffi
begin

section \<open>The unit tests of the exports (ffi.rs)\<close>

text \<open>
  The tests that call exports through pointers. \<open>layout\<close> places the byte strings of a call one
  after the other in a fresh memory, which is enough because a verdict depends on memory only
  through the bytes of the arguments. Undefined behaviour of an export is an error outcome, so
  a test with it does not pass.
\<close>

subsection \<open>Byte strings in memory\<close>

definition BASE :: nat where "BASE = 4096"

fun place :: "nat \<Rightarrow> bytes list \<Rightarrow> c_arg list" where
  "place a [] = []"
| "place a (b # bs) = (word_of_nat a, length b) # place (a + length b) bs"

definition memory_of :: "bytes \<Rightarrow> memory" where
  "memory_of b x = (if BASE \<le> unat x \<and> unat x < BASE + length b then Some (b ! (unat x - BASE)) else None)"

definition layout :: "bytes list \<Rightarrow> memory \<times> c_arg list" where
  "layout bs = (memory_of (concat bs), place BASE bs)"

definition unsafe_call :: "('s, 'a) ex \<Rightarrow> ('s, 'a) st" where
  "unsafe_call m s = (case m s of
       (Ok x, s') \<Rightarrow> (Ok x, s')
     | (Err Undefined, s') \<Rightarrow> (Err (Backend ''undefined behaviour''), s')
     | (Panic, s') \<Rightarrow> (Panic, s'))"

lemma unat_address: "n < 2 ^ 63 \<Longrightarrow> unat (word_of_nat n :: u64) = n"
  by (simp add: unat_of_nat)

lemma memory_at:
  assumes "BASE + length (pre @ b @ post) < 2 ^ 63" "i < length b"
  shows "memory_of (pre @ b @ post) (word_of_nat (BASE + length pre) + word_of_nat i) = Some (b ! i)"
proof -
  have "(word_of_nat (BASE + length pre) + word_of_nat i :: u64) = word_of_nat (BASE + length pre + i)" by simp
  moreover have "unat (word_of_nat (BASE + length pre + i) :: u64) = BASE + length pre + i"
    using assms by (intro unat_address) simp
  ultimately show ?thesis using assms by (simp add: memory_of_def nth_append)
qed

lemma memory_argument:
  assumes "BASE + length (pre @ b @ post) < 2 ^ 63"
  shows "readable (memory_of (pre @ b @ post)) (word_of_nat (BASE + length pre)) (length b)"
    and "contents (memory_of (pre @ b @ post)) (word_of_nat (BASE + length pre)) (length b) = b"
    and "(word_of_nat (BASE + length pre) :: u64) \<noteq> 0"
proof -
  have u: "unat (word_of_nat (BASE + length pre) :: u64) = BASE + length pre" using assms by (intro unat_address) simp
  show "readable (memory_of (pre @ b @ post)) (word_of_nat (BASE + length pre)) (length b)"
    using assms memory_at [OF assms] u by (auto simp: readable_def list_all_iff region_def)
  show "contents (memory_of (pre @ b @ post)) (word_of_nat (BASE + length pre)) (length b) = b"
    using memory_at [OF assms] by (intro nth_equalityI) (auto simp: contents_def region_def)
  show "(word_of_nat (BASE + length pre) :: u64) \<noteq> 0" using u by (auto simp: BASE_def)
qed

lemma place_views:
  assumes "BASE + length (pre @ concat bs) < 2 ^ 63"
  shows "list_all (valid_arg (memory_of (pre @ concat bs))) (place (BASE + length pre) bs)
     \<and> map (view (memory_of (pre @ concat bs))) (place (BASE + length pre) bs) = map Some bs"
  using assms
proof (induction bs arbitrary: pre)
  case (Cons b bs)
  have l: "BASE + length (pre @ b @ concat bs) < 2 ^ 63" using Cons.prems by simp
  from Cons.IH [of "pre @ b"] l memory_argument [OF l] show ?case
    by (auto simp: valid_arg_def view_def add.assoc)
qed simp

lemma layout_views:
  assumes "layout bs = (mem, args)" "BASE + length (concat bs) < 2 ^ 63"
  shows "list_all (valid_arg mem) args" "map (view mem) args = map Some bs" "length args = length bs"
proof -
  have "length (place a bs) = length bs" for a by (induction bs arbitrary: a) simp_all
  then show "list_all (valid_arg mem) args" "map (view mem) args = map Some bs" "length args = length bs"
    using assms place_views [of "[]" bs] by (auto simp: layout_def)
qed

text \<open>Exports that keep an invariant of the state.\<close>

definition ex_keeps :: "('s \<Rightarrow> bool) \<Rightarrow> ('s, 'a) ex \<Rightarrow> bool" where
  "ex_keeps I m \<longleftrightarrow> (\<forall>s. I s \<longrightarrow> I (snd (m s)))"

lemma ex_keeps_rules:
  "ex_keeps I (ret x)" "ex_keeps I (\<lambda>s. (r, s))" "ex_keeps I m \<Longrightarrow> ex_keeps I (guard ps v m)"
  "(\<And>x. ex_keeps I (f x)) \<Longrightarrow> ex_keeps I (reads r f)" "keeps I g \<Longrightarrow> ex_keeps I (as_i32 g)"
  by (auto simp: ex_keeps_def keeps_def guard_def reads_def ret_def as_i32_def
      split: result.split prod.split panic_strategy.split)

text \<open>A verifying export on a layout: the core's verdict, and the state's invariant kept.\<close>

lemma export_runs:
  assumes ve: "verifier_export export n good acc" and len: "length bs = n" and size: "BASE + length (concat bs) < 2 ^ 63"
    and keeps: "\<And>s. I s \<Longrightarrow> good s" "\<And>mem args. ex_keeps I (export mem args)"
  shows "runs I (case layout bs of (mem, args) \<Rightarrow> unsafe_call (export mem args)) (\<lambda>rc. rc = of_bool_i32 (acc (map Some bs)))"
proof (rule runsI)
  fix s assume s: "I s"
  obtain mem args where l: "layout bs = (mem, args)" by force
  note v = layout_views [OF l size]
  have "fst (export mem args s) = Ok (of_bool_i32 (acc (map Some bs)))"
    using verifier_export.decides [OF ve, of s args mem] keeps(1) [OF s] v len by simp
  then show "\<exists>x s'. (case layout bs of (mem, args) \<Rightarrow> unsafe_call (export mem args)) s = (Ok x, s') \<and> I s'
      \<and> x = of_bool_i32 (acc (map Some bs))"
    using keeps(2) [of mem args] s l by (cases "export mem args s") (auto simp: unsafe_call_def ex_keeps_def)
qed

subsection \<open>The guard\<close>

definition guard_converts_a_panic_into_the_fail_closed_value :: "('s, unit) st" where
  "guard_converts_a_panic_into_the_fail_closed_value =
     bind_s (unsafe_call (guard Unwind (0 :: i32) (\<lambda>s. (Panic, s)))) (\<lambda>rc. assert_t (rc = 0))"

definition guard_passes_a_successful_result_through :: "('s, unit) st" where
  "guard_passes_a_successful_result_through =
     bind_s (unsafe_call (guard Unwind (0 :: i32) (ret 1))) (\<lambda>rc. bind_s (assert_t (rc = 1)) (\<lambda>_.
     bind_s (unsafe_call (guard Unwind (0 :: i32) (ret 0))) (\<lambda>rc. assert_t (rc = 0))))"

lemma guard_tests_pass:
  "passes I guard_converts_a_panic_into_the_fail_closed_value" "passes I guard_passes_a_successful_result_through"
  by (simp_all add: runs_def guard_converts_a_panic_into_the_fail_closed_value_def
      guard_passes_a_successful_result_through_def bind_s_def unsafe_call_def guard_def ret_def assert_t_def)

subsection \<open>Nullifiers written through a pointer\<close>

definition ffi_nullifier_writes_32_bytes :: "(bytes \<Rightarrow> bytes) \<Rightarrow> ('s, unit) st" where
  "ffi_nullifier_writes_32_bytes H =
     (let secret = ascii ''voter-secret'';
          topic = ascii ''proposal-1'';
          out = replicate 32 0;
          (mem, args) = layout [secret, topic, out] in
      case args of
        [(sec, secn), (tp, tpn), (bf, bfn)] \<Rightarrow>
          (case phi_compute_nullifier Unwind H sec secn tp tpn bf bfn mem of
             (Ok rc, mem) \<Rightarrow>
               bind_s (assert_t (rc = 1)) (\<lambda>_.
               assert_t (contents mem bf bfn = compute_nullifier H secret topic))
           | _ \<Rightarrow> lift_s Panic)
      | _ \<Rightarrow> lift_s Panic)"

definition ffi_nullifier_rejects_an_undersized_output_buffer :: "(bytes \<Rightarrow> bytes) \<Rightarrow> ('s, unit) st" where
  "ffi_nullifier_rejects_an_undersized_output_buffer H =
     (let secret = ascii ''voter-secret'';
          topic = ascii ''proposal-1'';
          small = replicate (NULLIFIER_LEN - 1) 0xAA;
          buf = replicate 64 0xAA;
          (mem, args) = layout [secret, topic, small, buf] in
      case args of
        [(sec, secn), (tp, tpn), (sm, smn), (bf, bfn)] \<Rightarrow>
          (case phi_compute_nullifier Unwind H sec secn tp tpn sm smn mem of
             (Ok rc, mem) \<Rightarrow>
               bind_s (assert_t (rc = 0)) (\<lambda>_.
               bind_s (assert_t (contents mem sm smn = replicate (NULLIFIER_LEN - 1) 0xAA)) (\<lambda>_.
               (case phi_compute_nullifier Unwind H sec secn tp tpn bf 0 mem of
                  (Ok rc, mem) \<Rightarrow>
                    bind_s (assert_t (rc = 0)) (\<lambda>_.
                    bind_s (assert_t (contents mem bf bfn = replicate 64 0xAA)) (\<lambda>_.
                    (case phi_compute_nullifier Unwind H sec secn tp tpn bf bfn mem of
                       (Ok rc, mem) \<Rightarrow>
                         bind_s (assert_t (rc = 1)) (\<lambda>_.
                         bind_s (assert_t (take NULLIFIER_LEN (contents mem bf bfn) = compute_nullifier H secret topic)) (\<lambda>_.
                         assert_t (drop NULLIFIER_LEN (contents mem bf bfn) = replicate (64 - NULLIFIER_LEN) 0xAA)))
                     | _ \<Rightarrow> lift_s Panic)))
                | _ \<Rightarrow> lift_s Panic)))
           | _ \<Rightarrow> lift_s Panic)
      | _ \<Rightarrow> lift_s Panic)"

lemma contents_cong: "(\<And>x. x \<in> set (region a n) \<Longrightarrow> mem x = mem' x) \<Longrightarrow> contents mem a n = contents mem' a n"
  by (simp add: contents_def)

lemma nullifier_writes_passes:
  assumes "\<forall>x. length (H x) = 32"
  shows "passes I (ffi_nullifier_writes_32_bytes H)"
proof -
  let ?s = "ascii ''voter-secret''" and ?t = "ascii ''proposal-1''" and ?o = "replicate 32 0 :: bytes"
  obtain mem args where l: "layout [?s, ?t, ?o] = (mem, args)" by force
  then have a: "args = place BASE [?s, ?t, ?o]" by (simp add: layout_def)
  then obtain s t o' where args: "args = [(s, 12), (t, 10), (o', 32)]" by (simp add: ascii_def)
  have "BASE + length (concat [?s, ?t, ?o]) < 2 ^ 63" by (simp add: BASE_def ascii_def)
  note v = layout_views [OF l this]
  have w: "valid_arg mem (s, 12)" "valid_arg mem (t, 10)" "valid_arg mem (o', 32)"
      "view mem (s, 12) = Some ?s" "view mem (t, 10) = Some ?t" "view mem (o', 32) = Some ?o"
    using v(1,2) by (simp_all add: args)
  then have oo: "o' \<noteq> 0" "readable mem o' 32" by (auto simp: view_def valid_arg_def split: if_splits)
  have n: "length (compute_nullifier H ?s ?t) = 32" using assms by (simp add: compute_nullifier_def)
  have "phi_compute_nullifier Unwind H s 12 t 10 o' 32 mem = (Ok 1, write_raw mem o' (compute_nullifier H ?s ?t))"
    using compute_nullifier_run [OF assms w(1,2), of 32 o'] oo w(4,5) by simp
  moreover have "contents (write_raw mem o' (compute_nullifier H ?s ?t)) o' 32 = compute_nullifier H ?s ?t"
    using write_raw_inside [of o' "compute_nullifier H ?s ?t" mem] oo(2) n by (simp add: readable_def)
  ultimately show ?thesis
    by (simp add: ffi_nullifier_writes_32_bytes_def l args runs_def bind_s_def assert_t_def)
qed

lemma undersized_passes:
  assumes "\<forall>x. length (H x) = 32"
  shows "passes I (ffi_nullifier_rejects_an_undersized_output_buffer H)"
proof -
  let ?s = "ascii ''voter-secret''" and ?t = "ascii ''proposal-1''" and ?m = "replicate 31 0xAA :: bytes"
    and ?b = "replicate 64 0xAA :: bytes"
  obtain mem args where l: "layout [?s, ?t, ?m, ?b] = (mem, args)" by force
  then have "args = place BASE [?s, ?t, ?m, ?b]" by (simp add: layout_def)
  then obtain s t m b where args: "args = [(s, 12), (t, 10), (m, 31), (b, 64)]" by (simp add: ascii_def)
  have "BASE + length (concat [?s, ?t, ?m, ?b]) < 2 ^ 63" by (simp add: BASE_def ascii_def)
  note v = layout_views [OF l this]
  have w: "valid_arg mem (s, 12)" "valid_arg mem (t, 10)" "valid_arg mem (m, 31)" "valid_arg mem (b, 64)"
      "view mem (s, 12) = Some ?s" "view mem (t, 10) = Some ?t" "view mem (m, 31) = Some ?m" "view mem (b, 64) = Some ?b"
    using v(1,2) by (simp_all add: args)
  then have r: "b \<noteq> 0" "readable mem b 64" "contents mem m 31 = ?m" "contents mem b 64 = ?b"
    by (auto simp: view_def valid_arg_def split: if_splits)
  let ?n = "compute_nullifier H ?s ?t" and ?mem = "write_raw mem b (compute_nullifier H ?s ?t)"
  have n: "length ?n = 32" using assms by (simp add: compute_nullifier_def)
  have run: "phi_compute_nullifier Unwind H s 12 t 10 m 31 mem = (Ok 0, mem)"
      "phi_compute_nullifier Unwind H s 12 t 10 b 0 mem = (Ok 0, mem)"
      "phi_compute_nullifier Unwind H s 12 t 10 b 64 mem = (Ok 1, ?mem)"
    using compute_nullifier_run [OF assms w(1,2)] r(1,2) w(5,6) by simp_all
  have front: "contents ?mem b 32 = ?n"
    using write_raw_inside [of b ?n mem] r(2) n by (simp add: readable_def)
  have d: "distinct (region b 64)" using r(2) by (intro region_inj) (simp add: readable_def)
  have halves: "region b 64 = region b 32 @ region (b + 32) 32"
    by (simp add: region_def upt_add_eq_append [of 0 32 32, simplified] map_add_upt [symmetric, of 32 32, simplified] add.assoc add.commute)
  have "contents ?mem (b + 32) 32 = contents mem (b + 32) 32"
    using d n by (intro contents_cong write_raw_outside) (auto simp: halves)
  moreover have "contents mem b 64 = contents mem b 32 @ contents mem (b + 32) 32"
    "contents ?mem b 64 = contents ?mem b 32 @ contents ?mem (b + 32) 32"
    by (simp_all add: contents_def halves)
  moreover have "length (contents mem b 32) = 32" by (simp add: contents_def)
  ultimately have whole: "contents ?mem b 64 = ?n @ replicate 32 0xAA"
    using r(4) front by (metis append_eq_conv_conj drop_replicate numeral_Bit0 add_diff_cancel_right')
  show ?thesis
    by (simp add: ffi_nullifier_rejects_an_undersized_output_buffer_def NULLIFIER_LEN_def l args run r(3,4) whole n
        runs_def bind_s_def assert_t_def)
qed

subsection \<open>Signatures\<close>

text \<open>The generator is the state; the curves keep their laws and write keys a \<open>u32\<close> can measure.\<close>

definition did_ready :: "('r, 'ks, 'kv, 'kg, 'ps, 'pv, 'pg) curves \<Rightarrow> 'r \<Rightarrow> bool" where
  "did_ready C rng \<longleftrightarrow> curves_law C \<and> (\<forall>curve r. fits32 (kp_public (fst (generate_keypair C curve r))))"

definition gen_key :: "('r, 'ks, 'kv, 'kg, 'ps, 'pv, 'pg) curves \<Rightarrow> Curve \<Rightarrow> ('r, KeyPair) st" where
  "gen_key C curve rng = (case generate_keypair C curve rng of (kp, rng) \<Rightarrow> (Ok kp, rng))"

definition signature_call ::
    "('r, 'ks, 'kv, 'kg, 'ps, 'pv, 'pg) curves \<Rightarrow> bytes \<Rightarrow> bytes \<Rightarrow> bytes \<Rightarrow> ('s, i32) st" where
  "signature_call C public msg sig =
     (case layout [public, msg, sig] of (mem, args) \<Rightarrow> unsafe_call (signature_export Unwind C 1 mem args))"

definition ffi_signature_roundtrip :: "('r, 'ks, 'kv, 'kg, 'ps, 'pv, 'pg) curves \<Rightarrow> ('r, unit) st" where
  "ffi_signature_roundtrip C =
     bind_s (gen_key C Secp256r1) (\<lambda>kp.
     let msg = ascii ''ffi message'' in
     bind_s (expect (lift_s (did_sign C Secp256r1 (held (kp_secret kp)) msg))) (\<lambda>sig.
     bind_s (signature_call C (kp_public kp) msg sig) (\<lambda>ok. bind_s (assert_t (ok = 1)) (\<lambda>_.
     bind_s (signature_call C (kp_public kp) (ascii ''x'') sig) (\<lambda>bad. assert_t (bad = 0))))))"

definition wrapped_export_still_accepts_valid_input :: "('r, 'ks, 'kv, 'kg, 'ps, 'pv, 'pg) curves \<Rightarrow> ('r, unit) st" where
  "wrapped_export_still_accepts_valid_input C =
     bind_s (gen_key C Secp256r1) (\<lambda>kp.
     let msg = ascii ''phi ffi guard round trip'' in
     bind_s (expect (lift_s (did_sign C Secp256r1 (held (kp_secret kp)) msg))) (\<lambda>sig.
     bind_s (signature_call C (kp_public kp) msg sig) (\<lambda>rc. assert_t (rc = 1))))"

lemma gen_key_runs:
  "runs (did_ready C) (gen_key C curve) (\<lambda>kp. \<exists>rng rng'. generate_keypair C curve rng = (kp, rng')
     \<and> curves_law C \<and> fits32 (kp_public kp))"
proof (rule runsI)
  fix rng assume r: "did_ready C rng"
  obtain kp rng' where g: "generate_keypair C curve rng = (kp, rng')" by force
  moreover have "fits32 (kp_public (fst (generate_keypair C curve rng)))" using r unfolding did_ready_def by blast
  ultimately show "\<exists>x s'. gen_key C curve rng = (Ok x, s') \<and> did_ready C s'
      \<and> (\<exists>rng rng'. generate_keypair C curve rng = (x, rng') \<and> curves_law C \<and> fits32 (kp_public x))"
    using r by (auto simp: gen_key_def did_ready_def)
qed

lemma signature_export_state: "snd (signature_export Unwind C c mem args s) = s"
  by (cases "(Unwind, C, c, mem, args)" rule: signature_export.cases)
    (auto simp: phi_verify_signature_def guard_def reads_def ret_def split: option.split result.split)

lemma signature_call_runs:
  assumes "fits32 public" "length msg < 99" "length sig = 64"
  shows "runs I (signature_call C public msg sig) (\<lambda>rc. rc = of_bool_i32 (did_verify C Secp256r1 public msg sig))"
proof -
  have size: "BASE + length (concat [public, msg, sig]) < 2 ^ 63" using assms by (simp add: BASE_def fits32_def)
  have "runs I (signature_call C public msg sig) (\<lambda>rc. rc = of_bool_i32 (signature_accepts C 1 (map Some [public, msg, sig])))"
    unfolding signature_call_def
    by (rule export_runs [OF c_signature.verifier_export_axioms _ size]) (simp_all add: signature_export_state ex_keeps_def)
  then show ?thesis by (simp add: curve_from_code_def)
qed

lemma signed_then:
  assumes "\<And>kp rng rng' sig. generate_keypair C curve rng = (kp, rng') \<Longrightarrow> fits32 (kp_public kp) \<Longrightarrow>
      did_sign C curve (held (kp_secret kp)) msg = Ok sig \<Longrightarrow> length sig = 64 \<Longrightarrow>
      did_verify C curve (kp_public kp) msg sig \<Longrightarrow> runs (did_ready C) (k kp sig) Q"
  shows "runs (did_ready C) (bind_s (gen_key C curve) (\<lambda>kp.
     bind_s (expect (lift_s (did_sign C curve (held (kp_secret kp)) msg))) (k kp))) Q"
proof (rule runs_bind [OF gen_key_runs], elim exE conjE)
  fix kp rng rng' assume g: "generate_keypair C curve rng = (kp, rng')" "curves_law C" "fits32 (kp_public kp)"
  obtain sig where sig: "did_sign C curve (held (kp_secret kp)) msg = Ok sig" "length sig = 64"
      "did_verify C curve (kp_public kp) msg sig" using keypair_signs [OF g(2,1), of msg] by blast
  show "runs (did_ready C) (bind_s (expect (lift_s (did_sign C curve (held (kp_secret kp)) msg))) (k kp)) Q"
    using assms [OF g(1,3) sig] by (intro runs_bind [OF runs_expect_lift [OF sig(1), where Q = "\<lambda>x. x = sig"]]) simp_all
qed

text \<open>
  The first test asks that the signature is no signature of \<open>x\<close> under the same key. The laws of
  the curves do not give it (it is the unforgeability of ECDSA), so it is a hypothesis.
\<close>

lemma ffi_signature_passes:
  assumes "\<And>kp rng rng' sig. generate_keypair C Secp256r1 rng = (kp, rng') \<Longrightarrow>
      did_sign C Secp256r1 (held (kp_secret kp)) (ascii ''ffi message'') = Ok sig \<Longrightarrow>
      \<not> did_verify C Secp256r1 (kp_public kp) (ascii ''x'') sig"
  shows "passes (did_ready C) (ffi_signature_roundtrip C)"
  unfolding ffi_signature_roundtrip_def Let_def
proof (rule signed_then)
  fix kp rng rng' sig
  assume g: "generate_keypair C Secp256r1 rng = (kp, rng')" and f: "fits32 (kp_public kp)" "length sig = 64"
    and sig: "did_sign C Secp256r1 (held (kp_secret kp)) (ascii ''ffi message'') = Ok sig"
      "did_verify C Secp256r1 (kp_public kp) (ascii ''ffi message'') sig"
  note call = signature_call_runs [OF f(1) _ f(2)]
  show "passes (did_ready C) (bind_s (signature_call C (kp_public kp) (ascii ''ffi message'') sig) (\<lambda>ok. bind_s (assert_t (ok = 1)) (\<lambda>_.
     bind_s (signature_call C (kp_public kp) (ascii ''x'') sig) (\<lambda>bad. assert_t (bad = 0)))))"
    using sig(2) assms [OF g sig(1)]
    by (intro runs_checked [OF call] runs_verdict [OF call]) (simp_all add: ascii_def of_bool_i32_def)
qed

lemma wrapped_export_passes: "passes (did_ready C) (wrapped_export_still_accepts_valid_input C)"
  unfolding wrapped_export_still_accepts_valid_input_def Let_def
proof (rule signed_then)
  fix kp rng rng' sig
  assume f: "fits32 (kp_public kp)" "length sig = 64"
    and sig: "did_verify C Secp256r1 (kp_public kp) (ascii ''phi ffi guard round trip'') sig"
  show "passes (did_ready C) (bind_s (signature_call C (kp_public kp) (ascii ''phi ffi guard round trip'') sig) (\<lambda>rc. assert_t (rc = 1)))"
    using sig by (intro runs_verdict [OF signature_call_runs [OF f(1) _ f(2)]]) (simp_all add: ascii_def of_bool_i32_def)
qed

subsection \<open>Null pointers\<close>

text \<open>
  The test of a null key passes a one-byte buffer with the length 64: the export forms all its
  slices before it looks at any of them, so the test itself breaks the safety contract of
  \<open>as_slice\<close>, and its outcome is undefined where nothing follows that byte in memory.
\<close>

definition ffi_rejects_null_with_nonzero_len :: "('r, 'ks, 'kv, 'kg, 'ps, 'pv, 'pg) curves \<Rightarrow> ('s, unit) st" where
  "ffi_rejects_null_with_nonzero_len C =
     (let (mem, args) = layout [ascii ''x'', ascii ''y''] in
      case args of
        [(x, _), (y, _)] \<Rightarrow>
          bind_s (unsafe_call (phi_verify_signature Unwind C mem 1 0 33 x 1 y 64)) (\<lambda>rc. assert_t (rc = 0))
      | _ \<Rightarrow> lift_s Panic)"

lemma null_test_undefined:
  "fst (ffi_rejects_null_with_nonzero_len C s) = Err (Backend ''undefined behaviour'')"
proof -
  let ?mem = "memory_of (concat [ascii ''x'', ascii ''y''])"
  obtain x y where l: "layout [ascii ''x'', ascii ''y''] = (?mem, [(x, 1), (y, 1)])" "x = word_of_nat BASE" "y = word_of_nat (BASE + 1)"
    by (simp add: layout_def ascii_def)
  have "valid_arg ?mem (x, 1)" using layout_views [OF l(1)] by (simp add: BASE_def ascii_def)
  then have "as_slice ?mem x 1 = Ok (view ?mem (x, 1))" by (rule as_slice_view)
  moreover have "as_slice ?mem y 64 = Err Undefined"
  proof -
    have u: "unat (word_of_nat (BASE + 2) :: u64) = BASE + 2" "unat (word_of_nat (BASE + 1) :: u64) = BASE + 1"
      by (intro unat_address; simp add: BASE_def)+
    have "?mem (word_of_nat (BASE + 1) + word_of_nat 1) = None"
      using u(1) by (simp add: memory_of_def ascii_def add.assoc)
    moreover have "word_of_nat (BASE + 1) + word_of_nat 1 \<in> set (region y 64)"
      unfolding region_def l(3) by (auto intro!: image_eqI [where x = 1])
    ultimately have "\<not> readable ?mem y 64" by (auto simp: readable_def list_all_iff)
    moreover have "y \<noteq> 0" using u(2) l(3) by (auto simp: BASE_def)
    ultimately show ?thesis by (simp add: as_slice_def from_raw_parts_def)
  qed
  moreover have "as_slice ?mem 0 33 = Ok None" by (simp add: as_slice_def)
  ultimately show ?thesis
    by (simp add: ffi_rejects_null_with_nonzero_len_def l(1) phi_verify_signature_def guard_def reads_def bind_s_def unsafe_call_def)
qed

subsection \<open>The verifying exports\<close>

text \<open>An export changes the suite's state only through the verification it runs.\<close>

lemma export_state:
  "ex_keeps (suite_ok B) (bbs_export Unwind B mem args)" "ex_keeps (suite_ok B) (semaphore_export Unwind B mem args)"
  "ex_keeps (suite_ok (vb_bbs V)) (vote_export Unwind V mem args)"
proof -
  show "ex_keeps (suite_ok B) (bbs_export Unwind B mem args)"
    by (cases "(Unwind, B, mem, args)" rule: bbs_export.cases)
      (auto simp: phi_bbs_verify_proof_def split: option.split intro!: ex_keeps_rules verify_bytes_keeps)
  show "ex_keeps (suite_ok B) (semaphore_export Unwind B mem args)"
    by (cases "(Unwind, B, mem, args)" rule: semaphore_export.cases)
      (auto simp: phi_semaphore_verify_vote_def verify_bound_proof_def Let_def split: option.split
        intro!: ex_keeps_rules verify_bytes_keeps)
  show "ex_keeps (suite_ok (vb_bbs V)) (vote_export Unwind V mem args)"
    by (cases "(Unwind, V, mem, args)" rule: vote_export.cases)
      (auto simp: phi_voting_verify_vote_v1_def split: option.split result.split
        intro!: ex_keeps_rules verify_vote_proof_keeps)
qed

definition hostile_proof_bytes :: "u32 \<Rightarrow> bytes" where
  "hostile_proof_bytes message_count =
     (let out = [];
          out = out @ u32_to_be_bytes message_count;
          out = out @ u32_to_be_bytes 0;
          out = out @ u32_to_be_bytes 0 in out)"

definition ffi_bbs_verify_rejects_hostile_message_count ::
    "('p, 'r, 'f, 'sk, 'pk, 'sg, 'pok, 'pf) bbs_backend \<Rightarrow> (('p, 'r) suite_state, unit) st" where
  "ffi_bbs_verify_rejects_hostile_message_count B =
     for_each [0, - 1 - 1] (\<lambda>mc.
       let buf = hostile_proof_bytes mc in
       bind_s (case layout [buf, ascii ''pk'', ascii ''n''] of (mem, args) \<Rightarrow> unsafe_call (bbs_export Unwind B mem args)) (\<lambda>rc.
       bind_s (assert_t (rc = 0)) (\<lambda>_.
       let null = replicate NULLIFIER_LEN 0 in
       bind_s (case layout [buf, ascii ''pk'', ascii ''election'', null, ascii ''signal''] of
           (mem, args) \<Rightarrow> unsafe_call (semaphore_export Unwind B mem args)) (\<lambda>rc.
       assert_t (rc = 0)))))"

lemma hostile_count_passes: "passes (suite_ok B) (ffi_bbs_verify_rejects_hostile_message_count B)"
proof -
  have none: "\<not> (sp_wf p \<and> sp_to_bytes p = hostile_proof_bytes mc)" if "mc = 0 \<or> mc > MAX_BBS_MESSAGES" for mc p
    using degenerate_bytes_rejected [OF that] sp_from_bytes_complete [of p]
    by (auto simp: hostile_proof_bytes_def proof_bytes_with_count_def)
  have "passes (suite_ok B) (bind_s (case layout [hostile_proof_bytes mc, ascii ''pk'', ascii ''n''] of
      (mem, args) \<Rightarrow> unsafe_call (bbs_export Unwind B mem args)) (\<lambda>rc. bind_s (assert_t (rc = 0)) (\<lambda>_.
      bind_s (case layout [hostile_proof_bytes mc, ascii ''pk'', ascii ''election'', replicate NULLIFIER_LEN 0, ascii ''signal''] of
           (mem, args) \<Rightarrow> unsafe_call (semaphore_export Unwind B mem args)) (\<lambda>rc. assert_t (rc = 0)))))"
    if mc: "mc = 0 \<or> mc > MAX_BBS_MESSAGES" for mc
  proof (rule runs_checked)
    show "runs (suite_ok B) (case layout [hostile_proof_bytes mc, ascii ''pk'', ascii ''n''] of
        (mem, args) \<Rightarrow> unsafe_call (bbs_export Unwind B mem args))
        (\<lambda>rc. rc = of_bool_i32 (bbs_accepts B (map Some [hostile_proof_bytes mc, ascii ''pk'', ascii ''n''])))"
      by (rule export_runs [OF c_bbs.verifier_export_axioms])
        (simp_all add: hostile_proof_bytes_def BASE_def ascii_def export_state)
    have "runs (suite_ok B) (case layout [hostile_proof_bytes mc, ascii ''pk'', ascii ''election'', replicate NULLIFIER_LEN 0, ascii ''signal''] of
        (mem, args) \<Rightarrow> unsafe_call (semaphore_export Unwind B mem args)) (\<lambda>rc. rc = of_bool_i32 (semaphore_accepts B
          (map Some [hostile_proof_bytes mc, ascii ''pk'', ascii ''election'', replicate NULLIFIER_LEN 0, ascii ''signal''])))"
      by (rule export_runs [OF c_semaphore.verifier_export_axioms])
        (simp_all add: hostile_proof_bytes_def BASE_def ascii_def NULLIFIER_LEN_def export_state)
    then show "passes (suite_ok B) (bind_s (case layout [hostile_proof_bytes mc, ascii ''pk'', ascii ''election'', replicate NULLIFIER_LEN 0, ascii ''signal''] of
        (mem, args) \<Rightarrow> unsafe_call (semaphore_export Unwind B mem args)) (\<lambda>rc. assert_t (rc = 0)))"
      by (rule runs_verdict) (use none [OF mc] in \<open>auto simp: of_bool_i32_def\<close>)
  qed (use none [OF mc] in \<open>auto simp: of_bool_i32_def\<close>)
  then show ?thesis
    unfolding ffi_bbs_verify_rejects_hostile_message_count_def Let_def
    using huge_count by (intro runs_for_each) auto
qed

end
