(* ===== verification/Phi_Tests_Export.thy ===== *)
theory Phi_Tests_Export
  imports Phi_Tests_Boundary
begin

section \<open>The unit tests of the vote export (ffi.rs)\<close>

text \<open>
  The tests of \<open>phi_voting_verify_vote_v1\<close> over a fixture that casts a real vote, the rejection
  of null pointers by the exports, and the round trip of the bbs-2023 export. A
  null argument is a pair \<open>(0, len)\<close> put in the place of an argument of the layout.
\<close>

subsection \<open>Null arguments\<close>

lemma export_null_runs:
  assumes ve: "verifier_export export n good acc" and len: "length bs = n" and size: "BASE + length (concat bs) < 2 ^ 63"
    and keeps: "\<And>s. I s \<Longrightarrow> good s" "\<And>mem args. ex_keeps I (export mem args)"
    and null: "i < n" "m \<noteq> 0"
  shows "runs I (case layout bs of (mem, args) \<Rightarrow> unsafe_call (export mem (args[i := (0, m)]))) (\<lambda>rc. rc = 0)"
proof (rule runsI)
  fix s assume s: "I s"
  obtain mem args where l: "layout bs = (mem, args)" by force
  note v = layout_views [OF l size]
  let ?args = "args[i := (0, m)]"
  have "set ?args \<subseteq> insert (0, m) (set args)" by (rule set_update_subset_insert)
  moreover have "valid_arg mem (0, m)" by (simp add: valid_arg_def)
  ultimately have "list_all (valid_arg mem) ?args" using v(1) unfolding list_all_iff by blast
  moreover have "(0, m) \<in> set ?args" using null(1) v(3) len by (intro set_update_memI) simp
  ultimately have "fst (export mem ?args s) = Ok 0"
    using verifier_export.null_rejected [OF ve keeps(1) [OF s], of ?args mem m] v(3) len null(2) by simp
  then show "\<exists>x s'. (case layout bs of (mem, args) \<Rightarrow> unsafe_call (export mem (args[i := (0, m)]))) s = (Ok x, s') \<and> I s'
      \<and> x = 0"
    using keeps(2) [of mem ?args] s l by (cases "export mem ?args s") (auto simp: unsafe_call_def ex_keeps_def)
qed

subsection \<open>The bbs-2023 export\<close>

definition b23_call ::
    "('r, 'sk, 'pk) irtf_backend \<Rightarrow> SelectiveProof \<Rightarrow> bytes \<Rightarrow> bytes \<Rightarrow> bytes \<Rightarrow> bytes \<Rightarrow> ('s, i32) st" where
  "b23_call I proof public header ph revealed =
     (case layout [sp_proof proof, public, header, ph, revealed] of (mem, args) \<Rightarrow> unsafe_call (b23_export Unwind I mem args))"

definition ffi_bbs2023_verify_proof_roundtrip :: "('r, 'sk, 'pk) irtf_backend \<Rightarrow> ('r, unit) st" where
  "ffi_bbs2023_verify_proof_roundtrip I =
     (let claims = map ascii [''a=1'', ''b=2'', ''c=3''] in
      bind_s (expect (b23_suite_generate_keypair I 3)) (\<lambda>kp.
      bind_s (expect (lift_s (b23_sign_credential I claims (held (bkp_secret kp))))) (\<lambda>cred.
      bind_s (expect (b23_derive_proof I claims cred [1] (ascii ''ph''))) (\<lambda>proof.
      let revealed = [];
          revealed = revealed @ len_be32 (length (sp_revealed proof));
          revealed = fold (\<lambda>(index, value) revealed.
            revealed @ u32_to_be_bytes index @ len_be32 (length value) @ value) (sp_revealed proof) revealed;
          header = [] in
      bind_s (b23_call I proof (bkp_public kp) header (ascii ''ph'') revealed) (\<lambda>ok. bind_s (assert_t (ok = 1)) (\<lambda>_.
      bind_s (b23_call I proof (bkp_public kp) header (ascii ''other'') revealed) (\<lambda>bad. assert_t (bad = 0))))))))"

text \<open>Proofs of the ciphersuite are of a size that fits in memory.\<close>

definition irtf_sized :: "('r, 'sk, 'pk) irtf_backend \<Rightarrow> bool" where
  "irtf_sized I \<longleftrightarrow> irtf_law I
     \<and> (\<forall>claims sg reveal nonce r p r'. b23_derive_proof I claims sg reveal nonce r = (Ok p, r') \<longrightarrow> fits32 (sp_proof p))"

lemma b23_export_state: "snd (b23_export Unwind I mem args s) = s"
  by (cases "(Unwind, I, mem, args)" rule: b23_export.cases)
    (auto simp: phi_bbs2023_verify_proof_def guard_def reads_def ret_def split: option.split result.split)

lemma runs_irtf_sized: "runs (\<lambda>_. irtf_law I) m Q \<Longrightarrow> runs (\<lambda>_. irtf_sized I) m Q"
  unfolding runs_def irtf_sized_def by blast

lemma b23_call_runs:
  assumes "sp_revealed p = [(1, ascii ''b=2'')]" "fits32 (sp_proof p)" "length public = 96" "length ph < 99"
  shows "runs Inv (b23_call I p public [] ph (test_encode_revealed (sp_revealed p)))
    (\<lambda>rc. rc = of_bool_i32 (b23_verify_proof I p public ph))"
proof -
  have w: "revealed_wf (widened (sp_revealed p))" unfolding widened_wf using assms(1) by (simp add: fits32_def ascii_def)
  let ?args = "[sp_proof p, public, [], ph, test_encode_revealed (sp_revealed p)]"
  have size: "BASE + length (concat ?args) < 2 ^ 63"
    using assms by (simp add: BASE_def fits32_def ascii_def test_encode_eq entry_bytes_def)
  have "runs Inv (b23_call I p public [] ph (test_encode_revealed (sp_revealed p))) (\<lambda>rc. rc = of_bool_i32 (b23_accepts I (map Some ?args)))"
    unfolding b23_call_def
    by (rule export_runs [OF c_b23.verifier_export_axioms _ size]) (simp_all add: b23_export_state ex_keeps_def)
  moreover have "b23_accepts I (map Some ?args) = b23_verify_proof I p public ph"
  proof -
    have "es = widened (sp_revealed p)" if "revealed_wf es" "encode_revealed es = encode_revealed (widened (sp_revealed p))" for es
      using decode_revealed_complete [OF that(1)] decode_revealed_complete [OF w] unfolding that(2) by (metis result.inject(1))
    then show ?thesis using w by (auto simp: b23_verify_proof_def test_encode_widened simp del: map_map)
  qed
  ultimately show ?thesis by simp
qed

text \<open>
  That the proof is no proof for another presentation header is the hypothesis of the test's last
  assertion: the laws of the ciphersuite only speak of acceptance.
\<close>

lemma b23_roundtrip_passes:
  defines "claims \<equiv> map ascii [''a=1'', ''b=2'', ''c=3'']"
  assumes other: "\<And>kp sg r p r'. irtf_sig_ok I claims kp sg \<Longrightarrow> b23_derive_proof I claims sg [1] (ascii ''ph'') r = (Ok p, r') \<Longrightarrow>
      \<not> b23_verify_proof I p (bkp_public kp) (ascii ''other'')"
  shows "passes (\<lambda>_. irtf_sized I) (ffi_bbs2023_verify_proof_roundtrip I)"
proof -
  have c: "claims \<noteq> []" "length claims \<le> 64" "\<forall>i \<in> set [1 :: nat]. i < length claims" by (simp_all add: claims_def)
  have k: "runs (\<lambda>_. irtf_sized I) (b23_suite_generate_keypair I 3) (irtf_key_ok I (length claims))"
    using irtf_tests.gen_runs [of 3 I] by (intro runs_irtf_sized) (simp add: claims_def eval_nat_numeral)
  have d: "runs (\<lambda>_. irtf_sized I) (b23_derive_proof I claims sg [1] (ascii ''ph''))
      (\<lambda>p. b23_verify_proof I p (bkp_public kp) (ascii ''ph'') \<and> sp_revealed p = [(1, ascii ''b=2'')] \<and> fits32 (sp_proof p)
        \<and> \<not> b23_verify_proof I p (bkp_public kp) (ascii ''other''))"
    if "irtf_sig_ok I claims kp sg" for kp sg
  proof (rule runsI)
    fix s assume s: "irtf_sized I"
    then have "irtf_law I" by (simp add: irtf_sized_def)
    from runsD [OF irtf_tests.der_runs [OF c(1,2) that c(3)] this]
    obtain p s' where p: "b23_derive_proof I claims sg [1] (ascii ''ph'') s = (Ok p, s')"
        "b23_verify_proof I p (bkp_public kp) (ascii ''ph'')" "sp_revealed p = disclosed claims [1]" by blast
    moreover have "fits32 (sp_proof p)" using s p(1) unfolding irtf_sized_def by blast
    moreover have "sp_revealed p = [(1, ascii ''b=2'')]" using p(3) by (simp add: claims_def disclosed_def btree_set_def)
    ultimately show "\<exists>x s'. b23_derive_proof I claims sg [1] (ascii ''ph'') s = (Ok x, s') \<and> irtf_sized I
        \<and> b23_verify_proof I x (bkp_public kp) (ascii ''ph'') \<and> sp_revealed x = [(1, ascii ''b=2'')] \<and> fits32 (sp_proof x)
        \<and> \<not> b23_verify_proof I x (bkp_public kp) (ascii ''other'')"
      using s other [OF that] by blast
  qed
  have e: "passes (\<lambda>_. irtf_sized I)
      (bind_s (b23_call I p (bkp_public kp) [] (ascii ''ph'') (test_encode_revealed (sp_revealed p))) (\<lambda>ok. bind_s (assert_t (ok = 1)) (\<lambda>_.
       bind_s (b23_call I p (bkp_public kp) [] (ascii ''other'') (test_encode_revealed (sp_revealed p))) (\<lambda>bad. assert_t (bad = 0)))))"
    if p: "b23_verify_proof I p (bkp_public kp) (ascii ''ph'')" "\<not> b23_verify_proof I p (bkp_public kp) (ascii ''other'')"
      and f: "sp_revealed p = [(1, ascii ''b=2'')]" "fits32 (sp_proof p)" "length (bkp_public kp) = 96" for p kp
    using p by (intro runs_checked [OF b23_call_runs [OF f]] runs_verdict [OF b23_call_runs [OF f]])
      (simp_all add: ascii_def of_bool_i32_def)
  have key: "irtf_key_ok I n kp \<Longrightarrow> length (bkp_public kp) = 96" for n kp by (simp add: irtf_key_ok_def)
  show ?thesis
    unfolding ffi_bbs2023_verify_proof_roundtrip_def Let_def test_encode_revealed_def [unfolded Let_def, symmetric]
      claims_def [symmetric]
    by (intro runs_bind [OF runs_expect [OF k]] runs_bind [OF runs_expect [OF runs_irtf_sized [OF irtf_tests.sgn_runs [OF c(1,2)]]]]
        runs_bind [OF runs_expect [OF d]]) (auto intro!: e dest: key)
qed

subsection \<open>The fixture of the vote export\<close>

record fixture =
  fx_public_key :: bytes
  fx_election :: bytes
  fx_signal :: bytes
  fx_proof_bytes :: bytes
  fx_nullifier :: bytes

definition vote_fixture ::
    "('p, 'r, 'f::comm_ring_1, 'sk, 'pk, 'sg, 'pok, 'pf, 'g::ab_group_add) vote_backend \<Rightarrow>
     (('p, 'r) suite_state, fixture) st" where
  "vote_fixture V =
     (let claims = credential_claims in
      bind_s (expect (bbs_generate_keypair (vb_bbs V) (word_of_nat (length claims)))) (\<lambda>kp.
      bind_s (expect (bbs_sign_credential (vb_bbs V) claims (held (bkp_secret kp)))) (\<lambda>sig.
      let election = ascii ''election-1'';
          signal = ascii ''option-2'' in
      bind_s (expect (prove_vote V claims sig (bkp_public kp) [1] TEST_CHAIN election signal)) (\<lambda>proof.
      bind_s (expect (lift_s (vo_nullifier_bytes V proof))) (\<lambda>nullifier.
      bind_s (expect (lift_s (vs_to_bytes V proof))) (\<lambda>proof_bytes.
      lift_s (Ok \<lparr>fx_public_key = bkp_public kp, fx_election = election, fx_signal = signal,
        fx_proof_bytes = proof_bytes, fx_nullifier = nullifier\<rparr>)))))))"

definition fixture_ok ::
    "('p, 'r, 'f::comm_ring_1, 'sk, 'pk, 'sg, 'pok, 'pf, 'g::ab_group_add) vote_backend \<Rightarrow> 'g vote_proof \<Rightarrow> fixture \<Rightarrow> bool" where
  "fixture_ok V p f \<longleftrightarrow> cast_ok V (fx_public_key f) [1] TEST_CHAIN (ascii ''election-1'') (ascii ''option-2'') p
     \<and> fx_election f = ascii ''election-1'' \<and> fx_signal f = ascii ''option-2'' \<and> fits32 (fx_public_key f)
     \<and> vs_to_bytes V p = Ok (fx_proof_bytes f) \<and> ser (vb_g_codec V) (vo_nullifier p) = Ok (fx_nullifier f)"

definition vote_call ::
    "('p, 'r, 'f::comm_ring_1, 'sk, 'pk, 'sg, 'pok, 'pf, 'g::ab_group_add) vote_backend \<Rightarrow> bytes \<Rightarrow> bytes \<Rightarrow>
     bytes \<Rightarrow> bytes \<Rightarrow> bytes \<Rightarrow> (('p, 'r) suite_state, i32) st" where
  "vote_call V proof_bytes public_key election nullifier signal =
     (case layout [proof_bytes, public_key, TEST_CHAIN, election, nullifier, signal] of
        (mem, args) \<Rightarrow> unsafe_call (vote_export Unwind V mem args))"

lemma vote_issue:
  assumes "\<And>kp sg. bbs_sig_ok (vb_bbs V) credential_claims kp sg \<Longrightarrow> runs (vote_ready V) (k kp sg) Q"
  shows "runs (vote_ready V) (bind_s (expect (bbs_generate_keypair (vb_bbs V) (word_of_nat (length credential_claims)))) (\<lambda>kp.
      bind_s (expect (bbs_sign_credential (vb_bbs V) credential_claims (held (bkp_secret kp)))) (\<lambda>sg. k kp sg))) Q"
  by (rule runs_bind [OF runs_expect [OF runs_vote_ready [OF docknet_tests.gen_runs]]])
    (simp_all add: credential_claims_ok,
     intro runs_bind [OF runs_expect [OF runs_vote_ready [OF docknet_tests.sgn_runs]]] assms, simp_all add: credential_claims_ok)

lemma fixture_runs: "runs (vote_ready V) (vote_fixture V) (\<lambda>f. \<exists>p. fixture_ok V p f)"
  unfolding vote_fixture_def Let_def
proof (rule vote_issue)
  fix kp sg assume k: "bbs_sig_ok (vb_bbs V) credential_claims kp sg"
  then have cr: "credential_ok V (credential_claims, sg, bkp_public kp)" by (auto simp: credential_ok_def)
  have last: "runs (vote_ready V) (bind_s (expect (lift_s (vo_nullifier_bytes V p))) (\<lambda>nullifier.
      bind_s (expect (lift_s (vs_to_bytes V p))) (\<lambda>proof_bytes.
      lift_s (Ok \<lparr>fx_public_key = bkp_public kp, fx_election = ascii ''election-1'', fx_signal = ascii ''option-2'',
        fx_proof_bytes = proof_bytes, fx_nullifier = nullifier\<rparr>)))) (\<lambda>f. \<exists>p. fixture_ok V p f)"
    if p: "cast_ok V (bkp_public kp) [1] TEST_CHAIN (ascii ''election-1'') (ascii ''option-2'') p" for p
  proof -
    obtain key where "ser (bk_pk_codec (vb_bbs V)) key = Ok (bkp_public kp)" using k unfolding bbs_sig_ok_def by blast
    then have "serialize_compressed (bk_pk_codec (vb_bbs V)) key = Some (bkp_public kp)" by (simp add: ser_def split: option.splits)
    then have "fits32 (bkp_public kp)" using castD(3) [OF p] unfolding vote_tests_ok_def by blast
    with p show ?thesis
      by (intro runs_bind [OF nullifier_runs [OF castD(4) [OF p]]] bytes_then [OF p] runs_lift exI [where x = p])
        (simp add: fixture_ok_def)
  qed
  show "runs (vote_ready V) (bind_s (expect (prove_vote V credential_claims sg (bkp_public kp) [1] TEST_CHAIN
      (ascii ''election-1'') (ascii ''option-2''))) (\<lambda>proof.
      bind_s (expect (lift_s (vo_nullifier_bytes V proof))) (\<lambda>nullifier.
      bind_s (expect (lift_s (vs_to_bytes V proof))) (\<lambda>proof_bytes.
      lift_s (Ok \<lparr>fx_public_key = bkp_public kp, fx_election = ascii ''election-1'', fx_signal = ascii ''option-2'',
        fx_proof_bytes = proof_bytes, fx_nullifier = nullifier\<rparr>))))) (\<lambda>f. \<exists>p. fixture_ok V p f)"
    by (intro cast_then [OF cr test_elections(1)] last)
qed

lemma fixture_then:
  assumes "\<And>p f. fixture_ok V p f \<Longrightarrow> runs (vote_ready V) (k f) Q"
  shows "runs (vote_ready V) (bind_s (vote_fixture V) k) Q"
  using assms by (auto intro: runs_bind [OF fixture_runs])

lemma fixtureD:
  assumes "fixture_ok V p f"
  shows "cast_ok V (fx_public_key f) [1] TEST_CHAIN (ascii ''election-1'') (ascii ''option-2'') p"
    "vote_valid V p (fx_public_key f) TEST_CHAIN (fx_election f) (fx_signal f)" "vo_wf p" "point_law (vb_g_codec V)"
    "vs_to_bytes V p = Ok (fx_proof_bytes f)" "vs_from_bytes V (fx_proof_bytes f) = Ok p"
    "ser (vb_g_codec V) (vo_nullifier p) = Ok (fx_nullifier f)" "length (fx_nullifier f) = 48"
    "fits32 (fx_public_key f)" "length (fx_proof_bytes f) < 2 ^ 40"
    "fx_election f = ascii ''election-1''" "fx_signal f = ascii ''option-2''"
proof -
  note c = assms [unfolded fixture_ok_def]
  then show p: "cast_ok V (fx_public_key f) [1] TEST_CHAIN (ascii ''election-1'') (ascii ''option-2'') p"
    and e: "fx_election f = ascii ''election-1''" "fx_signal f = ascii ''option-2''" and b: "vs_to_bytes V p = Ok (fx_proof_bytes f)"
    and n: "ser (vb_g_codec V) (vo_nullifier p) = Ok (fx_nullifier f)" and "fits32 (fx_public_key f)" by simp_all
  show "vote_valid V p (fx_public_key f) TEST_CHAIN (fx_election f) (fx_signal f)" and wf: "vo_wf p"
    and l: "point_law (vb_g_codec V)" using castD [OF p] e by simp_all
  show "vs_from_bytes V (fx_proof_bytes f) = Ok p" by (rule decodes [OF p b])
  show l48: "length (fx_nullifier f) = 48" using point_ser [OF l, of "vo_nullifier p"] n by auto
  have r: "length (vo_revealed p) \<le> 64" "\<forall>x \<in> set (vo_revealed p). fits32 (snd x)"
    using wf message_count_in_rangeD by (auto simp: vo_wf_def)
  then have "length (entries_bytes (vo_revealed p)) \<le> 64 * (8 + 2 ^ 32)"
    using length_entries_bytes [OF r(2)] by (meson le_trans mult_le_mono1)
  then show "length (fx_proof_bytes f) < 2 ^ 40"
    using arg_cong [OF b [unfolded vs_to_bytes_eq [OF n] result.inject], of length] wf l48 by (simp add: vo_wf_def fits32_def)
qed

lemma vote_export_keeps: "ex_keeps (vote_ready V) (vote_export Unwind V mem args)"
  using export_state(3) [of V mem args] by (simp add: ex_keeps_def vote_ready_def)

lemma vote_layout_runs:
  assumes "point_law (vb_g_codec V)" "length bs = 6" "length (concat bs) < 2 ^ 50"
  shows "runs (vote_ready V) (case layout bs of (mem, args) \<Rightarrow> unsafe_call (vote_export Unwind V mem args))
      (\<lambda>rc. rc = of_bool_i32 (vote_accepts V (map Some bs)))"
    and "i < 6 \<Longrightarrow> m \<noteq> 0 \<Longrightarrow>
      runs (vote_ready V) (case layout bs of (mem, args) \<Rightarrow> unsafe_call (vote_export Unwind V mem (args[i := (0, m)]))) (\<lambda>rc. rc = 0)"
  using assms(2,3)
  by (intro export_runs [OF vote_verifier [OF assms(1)]] export_null_runs [OF vote_verifier [OF assms(1)]];
      simp add: BASE_def vote_readyD vote_export_keeps)+

subsection \<open>Tests of the vote export\<close>

definition valid_proof_accepts_roundtrip ::
    "('p, 'r, 'f::comm_ring_1, 'sk, 'pk, 'sg, 'pok, 'pf, 'g::ab_group_add) vote_backend \<Rightarrow>
     (('p, 'r) suite_state, unit) st" where
  "valid_proof_accepts_roundtrip V =
     bind_s (vote_fixture V) (\<lambda>f.
     bind_s (vote_call V (fx_proof_bytes f) (fx_public_key f) (fx_election f) (fx_nullifier f) (fx_signal f)) (\<lambda>rc.
     assert_t (rc = 1)))"

definition wrong_signal_rejected ::
    "('p, 'r, 'f::comm_ring_1, 'sk, 'pk, 'sg, 'pok, 'pf, 'g::ab_group_add) vote_backend \<Rightarrow>
     (('p, 'r) suite_state, unit) st" where
  "wrong_signal_rejected V =
     bind_s (vote_fixture V) (\<lambda>f.
     bind_s (vote_call V (fx_proof_bytes f) (fx_public_key f) (fx_election f) (fx_nullifier f) (ascii ''option-9'')) (\<lambda>rc.
     assert_t (rc = 0)))"

definition tampered_nullifier_rejected ::
    "('p, 'r, 'f::comm_ring_1, 'sk, 'pk, 'sg, 'pok, 'pf, 'g::ab_group_add) vote_backend \<Rightarrow>
     (('p, 'r) suite_state, unit) st" where
  "tampered_nullifier_rejected V =
     bind_s (vote_fixture V) (\<lambda>f.
     bind_s (lift_s (index (fx_nullifier f) 0)) (\<lambda>b.
     let bad_null = (fx_nullifier f)[0 := b XOR 1] in
     bind_s (vote_call V (fx_proof_bytes f) (fx_public_key f) (fx_election f) bad_null (fx_signal f)) (\<lambda>rc.
     assert_t (rc = 0))))"

definition wrong_length_nullifier_rejected ::
    "('p, 'r, 'f::comm_ring_1, 'sk, 'pk, 'sg, 'pok, 'pf, 'g::ab_group_add) vote_backend \<Rightarrow>
     (('p, 'r) suite_state, unit) st" where
  "wrong_length_nullifier_rejected V =
     bind_s (vote_fixture V) (\<lambda>f.
     let short = replicate 32 0 in
     bind_s (vote_call V (fx_proof_bytes f) (fx_public_key f) (fx_election f) short (fx_signal f)) (\<lambda>rc.
     assert_t (rc = 0)))"

definition malformed_and_truncated_proof_rejected ::
    "('p, 'r, 'f::comm_ring_1, 'sk, 'pk, 'sg, 'pok, 'pf, 'g::ab_group_add) vote_backend \<Rightarrow>
     (('p, 'r) suite_state, unit) st" where
  "malformed_and_truncated_proof_rejected V =
     bind_s (vote_fixture V) (\<lambda>f.
     bind_s (vote_call V [] (fx_public_key f) (fx_election f) (fx_nullifier f) (fx_signal f)) (\<lambda>rc.
     bind_s (assert_t (rc = 0)) (\<lambda>_.
     let truncated = take (min (length (fx_proof_bytes f)) 10) (fx_proof_bytes f) in
     bind_s (vote_call V truncated (fx_public_key f) (fx_election f) (fx_nullifier f) (fx_signal f)) (\<lambda>rc.
     bind_s (assert_t (rc = 0)) (\<lambda>_.
     let extended = fx_proof_bytes f @ [0xaa] in
     bind_s (vote_call V extended (fx_public_key f) (fx_election f) (fx_nullifier f) (fx_signal f)) (\<lambda>rc.
     assert_t (rc = 0)))))))"

definition null_pointers_rejected ::
    "('p, 'r, 'f::comm_ring_1, 'sk, 'pk, 'sg, 'pok, 'pf, 'g::ab_group_add) vote_backend \<Rightarrow>
     (('p, 'r) suite_state, unit) st" where
  "null_pointers_rejected V =
     bind_s (vote_fixture V) (\<lambda>f.
     let bs = [fx_proof_bytes f, fx_public_key f, TEST_CHAIN, fx_election f, fx_nullifier f, fx_signal f] in
     bind_s (case layout bs of (mem, args) \<Rightarrow> unsafe_call (vote_export Unwind V mem (args[0 := (0, 64)]))) (\<lambda>rc.
     bind_s (assert_t (rc = 0)) (\<lambda>_.
     bind_s (case layout bs of (mem, args) \<Rightarrow> unsafe_call (vote_export Unwind V mem (args[1 := (0, 96)]))) (\<lambda>rc.
     bind_s (assert_t (rc = 0)) (\<lambda>_.
     bind_s (case layout bs of (mem, args) \<Rightarrow> unsafe_call (vote_export Unwind V mem (args[4 := (0, 48)]))) (\<lambda>rc.
     assert_t (rc = 0)))))))"

definition wrong_chain_id_rejected ::
    "('p, 'r, 'f::comm_ring_1, 'sk, 'pk, 'sg, 'pok, 'pf, 'g::ab_group_add) vote_backend \<Rightarrow>
     (('p, 'r) suite_state, unit) st" where
  "wrong_chain_id_rejected V =
     bind_s (vote_fixture V) (\<lambda>f.
     let other_chain = ascii ''phi-mainnet-1'' in
     bind_s (case layout [fx_proof_bytes f, fx_public_key f, other_chain, fx_election f, fx_nullifier f, fx_signal f] of
         (mem, args) \<Rightarrow> unsafe_call (vote_export Unwind V mem args)) (\<lambda>rc.
     bind_s (assert_t (rc = 0)) (\<lambda>_.
     bind_s (vote_call V (fx_proof_bytes f) (fx_public_key f) (fx_election f) (fx_nullifier f) (fx_signal f)) (\<lambda>rc.
     assert_t (rc = 1)))))"

text \<open>
  The verdict of the export on a fixture: the decoded proof is the fixture's, so a call is
  accepted exactly with its nullifier and where the vote is valid.
\<close>

lemma fixture_call_runs:
  assumes f: "fixture_ok V p f" and len: "length ch + length null + length sg < 2 ^ 20"
  shows "runs (vote_ready V) (case layout [fx_proof_bytes f, fx_public_key f, ch, fx_election f, null, sg] of
        (mem, args) \<Rightarrow> unsafe_call (vote_export Unwind V mem args))
      (\<lambda>rc. rc = of_bool_i32 (null = fx_nullifier f \<and> vote_valid V p (fx_public_key f) ch (fx_election f) sg))"
proof -
  note d = fixtureD [OF f]
  have eq: "q = p" if q: "vo_wf q" "vs_to_bytes V q = Ok (fx_proof_bytes f)" for q
  proof -
    have "vo_enc V q = fx_proof_bytes f" using q(2) by (simp add: vo_enc_def)
    then show "q = p" using vs_from_bytes_complete [OF d(4), of q] q d(6) by simp
  qed
  have "vote_accepts V (map Some [fx_proof_bytes f, fx_public_key f, ch, fx_election f, null, sg])
      \<longleftrightarrow> null = fx_nullifier f \<and> vote_valid V p (fx_public_key f) ch (fx_election f) sg"
    (is "?a \<longleftrightarrow> ?n \<and> ?v")
  proof
    assume ?a
    then obtain q where q: "vo_wf q" "vs_to_bytes V q = Ok (fx_proof_bytes f)"
        "ser (vb_g_codec V) (vo_nullifier q) = Ok null" "vote_valid V q (fx_public_key f) ch (fx_election f) sg" by auto
    then show "?n \<and> ?v" using eq [OF q(1,2)] d(7) by simp
  qed (use d(3,5,7) in auto)
  moreover have "length (concat [fx_proof_bytes f, fx_public_key f, ch, fx_election f, null, sg]) < 2 ^ 50"
    using d(9,10) len by (simp add: fits32_def d(11) ascii_def)
  ultimately show ?thesis using vote_layout_runs(1) [OF d(4), of "[fx_proof_bytes f, fx_public_key f, ch, fx_election f, null, sg]"] by simp
qed

lemma undecodable_call_runs:
  assumes f: "fixture_ok V p f" and b: "length b < 2 ^ 41" "ok (vs_from_bytes V b) = None"
  shows "runs (vote_ready V) (vote_call V b (fx_public_key f) (fx_election f) (fx_nullifier f) (fx_signal f)) (\<lambda>rc. rc = 0)"
proof -
  note d = fixtureD [OF f]
  have "\<not> (vo_wf q \<and> vs_to_bytes V q = Ok b)" for q
    using vs_from_bytes_complete [OF d(4), of q] b(2) by (auto simp: vo_enc_def)
  then have "\<not> vote_accepts V (map Some [b, fx_public_key f, TEST_CHAIN, fx_election f, fx_nullifier f, fx_signal f])" by auto
  moreover have "length (concat [b, fx_public_key f, TEST_CHAIN, fx_election f, fx_nullifier f, fx_signal f]) < 2 ^ 50"
    using d(8,9) b(1) by (simp add: fits32_def d(11,12) ascii_def TEST_CHAIN_def)
  ultimately show ?thesis
    unfolding vote_call_def
    using vote_layout_runs(1) [OF d(4), of "[b, fx_public_key f, TEST_CHAIN, fx_election f, fx_nullifier f, fx_signal f]"]
    by (simp add: of_bool_i32_def del: vote_accepts.simps)
qed

lemma length_TEST_CHAIN: "length TEST_CHAIN = 13"
  by (simp add: TEST_CHAIN_def)

lemmas fixture_simps = of_bool_i32_def length_TEST_CHAIN

lemma valid_proof_passes: "passes (vote_ready V) (valid_proof_accepts_roundtrip V)"
  unfolding valid_proof_accepts_roundtrip_def vote_call_def
  by (intro fixture_then runs_verdict [OF fixture_call_runs], assumption)
    (simp_all add: fixtureD(2,8,12) fixture_simps, simp add: fixtureD(2) flip: fixtureD(12))

lemma wrong_nullifier_passes:
  "passes (vote_ready V) (tampered_nullifier_rejected V)" "passes (vote_ready V) (wrong_length_nullifier_rejected V)"
proof -
  show "passes (vote_ready V) (tampered_nullifier_rejected V)"
    unfolding tampered_nullifier_rejected_def vote_call_def Let_def
  proof (intro fixture_then)
    fix p f assume f: "fixture_ok V p f"
    then obtain b bs where n: "fx_nullifier f = b # bs" using fixtureD(8) [OF f] by (cases "fx_nullifier f") auto
    have x: "b XOR 1 \<noteq> b"
    proof
      assume "b XOR 1 = b"
      then have "b XOR (b XOR 1) = b XOR b" by simp
      then show False by (simp flip: xor.assoc)
    qed
    show "passes (vote_ready V) (bind_s (lift_s (index (fx_nullifier f) 0)) (\<lambda>b.
       bind_s (case layout [fx_proof_bytes f, fx_public_key f, TEST_CHAIN, fx_election f, (fx_nullifier f)[0 := b XOR 1], fx_signal f] of
          (mem, args) \<Rightarrow> unsafe_call (vote_export Unwind V mem args)) (\<lambda>rc. assert_t (rc = 0))))"
      by (intro runs_bind [OF runs_lift_result [where x = b and Q = "\<lambda>x. x = b"]] runs_verdict [OF fixture_call_runs [OF f]])
        (use x fixtureD(8) [OF f] in \<open>auto simp: n index_def fixture_simps fixtureD(12) [OF f]\<close>)
  qed
  have short: "replicate 32 0 \<noteq> fx_nullifier f" if "fixture_ok V p f" for p f
  proof
    assume "replicate 32 0 = fx_nullifier f"
    then have "length (fx_nullifier f) = 32" by (metis length_replicate)
    then show False using fixtureD(8) [OF that] by simp
  qed
  show "passes (vote_ready V) (wrong_length_nullifier_rejected V)"
    unfolding wrong_length_nullifier_rejected_def vote_call_def Let_def
    by (intro fixture_then runs_verdict [OF fixture_call_runs], assumption)
      (auto simp: short fixtureD(12) fixture_simps)
qed

lemma malformed_export_passes: "passes (vote_ready V) (malformed_and_truncated_proof_rejected V)"
  unfolding malformed_and_truncated_proof_rejected_def Let_def
proof (intro fixture_then)
  fix p f assume f: "fixture_ok V p f"
  note d = fixtureD [OF f]
  have fit: "fits64 (fx_proof_bytes f)" "fits64 (fx_proof_bytes f @ [0xaa])" using d(10) by (simp_all add: fits64_def)
  have l: "12 \<le> length (fx_proof_bytes f)"
    using arg_cong [OF d(5) [unfolded vs_to_bytes_eq [OF d(7)] result.inject], of length] by simp
  note canon = vote_canonical [OF d(4)]
  have n: "ok (vs_from_bytes V []) = None" using short_ballot_rejected [of "[]" V] by auto
  have t: "ok (vs_from_bytes V (take (min (length (fx_proof_bytes f)) 10) (fx_proof_bytes f))) = None"
    using canonical_codec.rejects_truncated [OF canon fit(1), of p] d(6) l by simp
  have e: "ok (vs_from_bytes V (fx_proof_bytes f @ [0xaa])) = None"
    using canonical_codec.rejects_trailing [OF canon fit(2), of p] d(6) by simp
  show "passes (vote_ready V)
     (bind_s (vote_call V [] (fx_public_key f) (fx_election f) (fx_nullifier f) (fx_signal f)) (\<lambda>rc.
      bind_s (assert_t (rc = 0)) (\<lambda>_.
      bind_s (vote_call V (take (min (length (fx_proof_bytes f)) 10) (fx_proof_bytes f)) (fx_public_key f) (fx_election f)
          (fx_nullifier f) (fx_signal f)) (\<lambda>rc.
      bind_s (assert_t (rc = 0)) (\<lambda>_.
      bind_s (vote_call V (fx_proof_bytes f @ [0xaa]) (fx_public_key f) (fx_election f) (fx_nullifier f) (fx_signal f)) (\<lambda>rc.
      assert_t (rc = 0)))))))"
    by (intro runs_checked [OF undecodable_call_runs [OF f _ n]] runs_checked [OF undecodable_call_runs [OF f _ t]]
        runs_verdict [OF undecodable_call_runs [OF f _ e]]) (use d(10) in auto)
qed

lemma null_pointers_pass: "passes (vote_ready V) (null_pointers_rejected V)"
  unfolding null_pointers_rejected_def Let_def
proof (intro fixture_then)
  fix p f assume f: "fixture_ok V p f"
  note d = fixtureD [OF f]
  let ?bs = "[fx_proof_bytes f, fx_public_key f, TEST_CHAIN, fx_election f, fx_nullifier f, fx_signal f]"
  have "length (concat ?bs) < 2 ^ 50" using d(8-10) by (simp add: fits32_def d(11,12) ascii_def TEST_CHAIN_def)
  note r = vote_layout_runs(2) [OF d(4) _ this]
  show "passes (vote_ready V)
     (bind_s (case layout ?bs of (mem, args) \<Rightarrow> unsafe_call (vote_export Unwind V mem (args[0 := (0, 64)]))) (\<lambda>rc.
      bind_s (assert_t (rc = 0)) (\<lambda>_.
      bind_s (case layout ?bs of (mem, args) \<Rightarrow> unsafe_call (vote_export Unwind V mem (args[1 := (0, 96)]))) (\<lambda>rc.
      bind_s (assert_t (rc = 0)) (\<lambda>_.
      bind_s (case layout ?bs of (mem, args) \<Rightarrow> unsafe_call (vote_export Unwind V mem (args[4 := (0, 48)]))) (\<lambda>rc.
      assert_t (rc = 0)))))))"
    by (intro runs_checked [OF r] runs_verdict [OF r]) simp_all
qed

text \<open>A ballot moved to another signal or chain is refused unless the two ballots collide.\<close>

lemma wrong_signal_passes:
  assumes "binds V"
    and "\<And>p f. fixture_ok V p f \<Longrightarrow> \<not> rebound V p (fx_public_key f) TEST_CHAIN (fx_election f) (fx_signal f)
          p (fx_public_key f) TEST_CHAIN (ascii ''option-9'')"
  shows "passes (vote_ready V) (wrong_signal_rejected V)"
  unfolding wrong_signal_rejected_def vote_call_def
proof (intro fixture_then)
  fix p f assume f: "fixture_ok V p f"
  note d = fixtureD [OF f]
  have "\<not> vote_valid V p (fx_public_key f) TEST_CHAIN (fx_election f) (ascii ''option-9'')"
    unfolding d(11)
    by (rule moved_ballot_invalid [OF d(1) assms(1) assms(2) [OF f, unfolded d(11,12)]]) (simp_all add: bound_simps)
  then show "passes (vote_ready V) (bind_s (case layout [fx_proof_bytes f, fx_public_key f, TEST_CHAIN, fx_election f,
      fx_nullifier f, ascii ''option-9''] of (mem, args) \<Rightarrow> unsafe_call (vote_export Unwind V mem args)) (\<lambda>rc. assert_t (rc = 0)))"
    by (intro runs_verdict [OF fixture_call_runs [OF f]]) (simp_all add: d(8) fixture_simps)
qed

lemma wrong_chain_passes:
  assumes "binds V"
    and "\<And>p f. fixture_ok V p f \<Longrightarrow> \<not> rebound V p (fx_public_key f) TEST_CHAIN (fx_election f) (fx_signal f)
          p (fx_public_key f) (ascii ''phi-mainnet-1'') (fx_signal f)"
  shows "passes (vote_ready V) (wrong_chain_id_rejected V)"
  unfolding wrong_chain_id_rejected_def vote_call_def Let_def
proof (intro fixture_then)
  fix p f assume f: "fixture_ok V p f"
  note d = fixtureD [OF f]
  have n: "\<not> vote_valid V p (fx_public_key f) (ascii ''phi-mainnet-1'') (fx_election f) (fx_signal f)"
    unfolding d(11,12)
    by (rule moved_ballot_invalid [OF d(1) assms(1) assms(2) [OF f, unfolded d(11,12)]]) (simp_all add: bound_simps)
  show "passes (vote_ready V) (bind_s (case layout [fx_proof_bytes f, fx_public_key f, ascii ''phi-mainnet-1'', fx_election f,
       fx_nullifier f, fx_signal f] of (mem, args) \<Rightarrow> unsafe_call (vote_export Unwind V mem args)) (\<lambda>rc.
     bind_s (assert_t (rc = 0)) (\<lambda>_.
     bind_s (case layout [fx_proof_bytes f, fx_public_key f, TEST_CHAIN, fx_election f, fx_nullifier f, fx_signal f] of
       (mem, args) \<Rightarrow> unsafe_call (vote_export Unwind V mem args)) (\<lambda>rc. assert_t (rc = 1)))))"
    by (intro runs_checked [OF fixture_call_runs [OF f]] runs_verdict [OF fixture_call_runs [OF f]])
      (use n d(2) in \<open>simp_all add: d(8) d(12) fixture_simps\<close>)
qed

end
