(* ===== verification/Phi_Tests_Keys.thy ===== *)
theory Phi_Tests_Keys
  imports Phi_Tests_Boundary Phi_Bound_Once
begin

section \<open>The unit tests of keys, identifiers and nullifiers (did.rs, voting.rs, semaphore.rs, secret.rs)\<close>

text \<open>
  The tests of the small modules. A test that asserts that two digests differ passes when the
  hash has no collision among the inputs of that test, which the framings make pairwise
  different. A test that asserts that a moved or forged value is refused is followed along a
  run: it passes when the values drawn in that run do not exhibit the event named in the
  hypothesis. Left out are pinned vectors of the curves.
\<close>

subsection \<open>Nullifiers (voting.rs)\<close>

definition nullifier_is_deterministic :: "(bytes \<Rightarrow> bytes) \<Rightarrow> ('s, unit) st" where
  "nullifier_is_deterministic H =
     (let n1 = compute_nullifier H (ascii ''secret'') (ascii ''proposal-7'');
          n2 = compute_nullifier H (ascii ''secret'') (ascii ''proposal-7'') in
      assert_t (n1 = n2))"

definition nullifier_differs_by_topic_and_secret :: "(bytes \<Rightarrow> bytes) \<Rightarrow> ('s, unit) st" where
  "nullifier_differs_by_topic_and_secret H =
     (let base = compute_nullifier H (ascii ''secret'') (ascii ''proposal-7'') in
      bind_s (assert_t (base \<noteq> compute_nullifier H (ascii ''secret'') (ascii ''proposal-8''))) (\<lambda>_.
      assert_t (base \<noteq> compute_nullifier H (ascii ''other-secret'') (ascii ''proposal-7''))))"

definition length_prefix_prevents_ambiguity :: "(bytes \<Rightarrow> bytes) \<Rightarrow> ('s, unit) st" where
  "length_prefix_prevents_ambiguity H =
     assert_t (compute_nullifier H (ascii ''ab'') (ascii ''c'') \<noteq> compute_nullifier H (ascii ''a'') (ascii ''bc''))"

definition threshold_counts_distinct_voters :: "(bytes \<Rightarrow> bytes) \<Rightarrow> ('s, unit) st" where
  "threshold_counts_distinct_voters H =
     (let a = \<lparr>vp_nullifier = compute_nullifier H (ascii ''alice'') (ascii ''t'')\<rparr>;
          b = \<lparr>vp_nullifier = compute_nullifier H (ascii ''bob'') (ascii ''t'')\<rparr>;
          a_dup = \<lparr>vp_nullifier = compute_nullifier H (ascii ''alice'') (ascii ''t'')\<rparr>;
          votes = [a, b, a_dup] in
      bind_s (assert_t (distinct_nullifiers votes = 2)) (\<lambda>_.
      bind_s (assert_t (verify_threshold_tally votes 2)) (\<lambda>_.
      assert_t (\<not> verify_threshold_tally votes 3))))"

text \<open>Distinct pairs have distinct nullifiers where the hash does not collide on the two inputs.\<close>

lemma nullifiers_differ:
  assumes "\<not> collision H (nullifier_preimage s t) (nullifier_preimage s' t')" "(s, t) \<noteq> (s', t')"
    and "fits64 s" "fits64 t" "fits64 s'" "fits64 t'"
  shows "compute_nullifier H s t \<noteq> compute_nullifier H s' t'"
  using nullifier_framing.binding_iff [of "(s, t)" "(s', t')" H] assms by (simp add: compute_nullifier_def)

lemma fits64_ascii: "length x < 100 \<Longrightarrow> fits64 (ascii x)"
  by (simp add: fits64_def)

lemma ascii_neq: "length x \<noteq> length y \<Longrightarrow> ascii x \<noteq> ascii y"
  using length_ascii by metis

lemma deterministic_passes: "passes I (nullifier_is_deterministic H)"
  by (simp add: nullifier_is_deterministic_def runs_assert)

lemma nullifier_tests_pass:
  "\<not> collision H (nullifier_preimage (ascii ''secret'') (ascii ''proposal-7''))
      (nullifier_preimage (ascii ''secret'') (ascii ''proposal-8'')) \<Longrightarrow>
   \<not> collision H (nullifier_preimage (ascii ''secret'') (ascii ''proposal-7''))
      (nullifier_preimage (ascii ''other-secret'') (ascii ''proposal-7'')) \<Longrightarrow>
     passes I (nullifier_differs_by_topic_and_secret H)"
  "\<not> collision H (nullifier_preimage (ascii ''ab'') (ascii ''c'')) (nullifier_preimage (ascii ''a'') (ascii ''bc'')) \<Longrightarrow>
     passes I (length_prefix_prevents_ambiguity H)"
  unfolding nullifier_differs_by_topic_and_secret_def length_prefix_prevents_ambiguity_def Let_def
  by (intro runs_assert_then runs_assert nullifiers_differ; simp add: fits64_ascii; simp add: ascii_def)+

lemma threshold_passes:
  assumes "\<not> collision H (nullifier_preimage (ascii ''alice'') (ascii ''t'')) (nullifier_preimage (ascii ''bob'') (ascii ''t''))"
  shows "passes I (threshold_counts_distinct_voters H)"
proof -
  have "compute_nullifier H (ascii ''alice'') (ascii ''t'') \<noteq> compute_nullifier H (ascii ''bob'') (ascii ''t'')"
    by (rule nullifiers_differ [OF assms]) (simp_all add: fits64_ascii, simp add: ascii_def)
  then have "card {compute_nullifier H (ascii ''alice'') (ascii ''t''), compute_nullifier H (ascii ''bob'') (ascii ''t''),
      compute_nullifier H (ascii ''alice'') (ascii ''t'')} = 2"
    by (simp add: insert_absorb)
  then show ?thesis
    unfolding threshold_counts_distinct_voters_def Let_def
    by (intro runs_assert_then runs_assert) (simp_all add: threshold_tally_nat distinct_nullifiers_eq)
qed

subsection \<open>Semaphore nullifiers (semaphore.rs)\<close>

definition external_nullifier_is_per_election :: "(bytes \<Rightarrow> bytes) \<Rightarrow> ('s, unit) st" where
  "external_nullifier_is_per_election H =
     bind_s (assert_t (external_nullifier H (ascii ''election-1'') \<noteq> external_nullifier H (ascii ''election-2''))) (\<lambda>_.
     assert_t (external_nullifier H (ascii ''e'') = external_nullifier H (ascii ''e'')))"

definition sem_nullifier_is_deterministic_per_secret_and_election :: "(bytes \<Rightarrow> bytes) \<Rightarrow> ('s, unit) st" where
  "sem_nullifier_is_deterministic_per_secret_and_election H =
     (let a = sem_nullifier H (ascii ''voter-secret'') (ascii ''election-1'') in
      bind_s (assert_t (a = sem_nullifier H (ascii ''voter-secret'') (ascii ''election-1''))) (\<lambda>_.
      bind_s (assert_t (a \<noteq> sem_nullifier H (ascii ''voter-secret'') (ascii ''election-2''))) (\<lambda>_.
      assert_t (a \<noteq> sem_nullifier H (ascii ''other-secret'') (ascii ''election-1'')))))"

definition bind_nonce_changes_with_nullifier_election_and_signal :: "(bytes \<Rightarrow> bytes) \<Rightarrow> ('s, unit) st" where
  "bind_nonce_changes_with_nullifier_election_and_signal H =
     (let n1 = sem_nullifier H (ascii ''s'') (ascii ''e1'');
          n2 = sem_nullifier H (ascii ''s'') (ascii ''e2'') in
      bind_s (assert_t (bind_nonce H (ascii ''e1'') n1 (ascii ''0'') \<noteq> bind_nonce H (ascii ''e1'') n2 (ascii ''0''))) (\<lambda>_.
      bind_s (assert_t (bind_nonce H (ascii ''e1'') n1 (ascii ''0'') \<noteq> bind_nonce H (ascii ''e2'') n1 (ascii ''0''))) (\<lambda>_.
      bind_s (assert_t (bind_nonce H (ascii ''e1'') n1 (ascii ''0'') \<noteq> bind_nonce H (ascii ''e1'') n1 (ascii ''1''))) (\<lambda>_.
      assert_t (bind_nonce H (ascii ''ab'') n1 (ascii ''c'') \<noteq> bind_nonce H (ascii ''a'') n1 (ascii ''bc''))))))"

text \<open>The hash separates a set of inputs: no two of them collide.\<close>

definition separates :: "(bytes \<Rightarrow> bytes) \<Rightarrow> bytes list \<Rightarrow> bool" where
  "separates H ps \<longleftrightarrow> (\<forall>x \<in> set ps. \<forall>y \<in> set ps. \<not> collision H x y)"

lemma separatesD: "separates H ps \<Longrightarrow> x \<in> set ps \<Longrightarrow> y \<in> set ps \<Longrightarrow> H x = H y \<longleftrightarrow> x = y"
  by (auto simp: separates_def collision_def)

definition sem_inputs :: "(bytes \<Rightarrow> bytes) \<Rightarrow> (bytes \<times> bytes) list \<Rightarrow> bytes list" where
  "sem_inputs H ps = concat (map (\<lambda>(s, e). [external_preimage e, nullifier_preimage s (external_nullifier H e)]) ps)"

lemma sem_nullifiers_differ:
  assumes "separates H (sem_inputs H ps)" "\<forall>x. length (H x) = 32" "(s, e) \<in> set ps" "(s', e') \<in> set ps"
    and "(s, e) \<noteq> (s', e')" "fits64 s" "fits64 e" "fits64 s'" "fits64 e'"
  shows "sem_nullifier H s e \<noteq> sem_nullifier H s' e'"
proof
  let ?n = "\<lambda>s e. nullifier_preimage s (external_nullifier H e)"
  assume eq: "sem_nullifier H s e = sem_nullifier H s' e'"
  have m: "external_preimage e \<in> set (sem_inputs H ps)" "external_preimage e' \<in> set (sem_inputs H ps)"
      "?n s e \<in> set (sem_inputs H ps)" "?n s' e' \<in> set (sem_inputs H ps)"
    using assms(3,4) by (auto simp: sem_inputs_def intro!: bexI)
  have f: "fits64 (external_nullifier H x)" for x using assms(2) by (simp add: external_nullifier_def fits64_def)
  have "?n s e = ?n s' e'"
    using eq separatesD [OF assms(1) m(3,4)] by (simp add: sem_nullifier_def compute_nullifier_def)
  then have "s = s'" "external_nullifier H e = external_nullifier H e'"
    using nullifier_framing.enc_inj [of "(s, external_nullifier H e)" "(s', external_nullifier H e')"] assms(6,8) f by auto
  moreover from this(2) have "external_preimage e = external_preimage e'"
    using separatesD [OF assms(1) m(1,2)] by (simp add: external_nullifier_def)
  then have "e = e'" using external_framing.enc_inj assms(7,9) by blast
  ultimately show False using assms(5) by simp
qed

lemma external_tests_pass:
  assumes "separates H (map (external_preimage \<circ> ascii) [''election-1'', ''election-2''])"
  shows "passes I (external_nullifier_is_per_election H)"
proof -
  have "external_preimage (ascii ''election-1'') \<noteq> external_preimage (ascii ''election-2'')"
    by (simp add: external_preimage_def ascii_def)
  then have "external_nullifier H (ascii ''election-1'') \<noteq> external_nullifier H (ascii ''election-2'')"
    using separatesD [OF assms, of "external_preimage (ascii ''election-1'')" "external_preimage (ascii ''election-2'')"]
    by (simp add: external_nullifier_def)
  then show ?thesis
    unfolding external_nullifier_is_per_election_def by (intro runs_assert_then runs_assert) simp_all
qed

lemma sem_nullifier_passes:
  assumes "\<forall>x. length (H x) = 32"
    and "separates H (sem_inputs H [(ascii ''voter-secret'', ascii ''election-1''), (ascii ''voter-secret'', ascii ''election-2''),
          (ascii ''other-secret'', ascii ''election-1'')])"
  shows "passes I (sem_nullifier_is_deterministic_per_secret_and_election H)"
  unfolding sem_nullifier_is_deterministic_per_secret_and_election_def Let_def
  by (intro runs_assert_then runs_assert refl sem_nullifiers_differ [OF assms(2,1)])
    (simp_all add: fits64_ascii, simp_all add: ascii_def)

definition nonce_inputs :: "(bytes \<Rightarrow> bytes) \<Rightarrow> bytes list" where
  "nonce_inputs H = map (\<lambda>(e, n, g). bind_preimage (ascii e) (sem_nullifier H (ascii ''s'') (ascii n)) (ascii g))
     [(''e1'', ''e1'', ''0''), (''e1'', ''e2'', ''0''), (''e2'', ''e1'', ''0''), (''e1'', ''e1'', ''1''),
      (''ab'', ''e1'', ''c''), (''a'', ''e1'', ''bc'')]"

lemma bind_nonces_differ:
  assumes "separates H (nonce_inputs H)" "bind_preimage e n g \<in> set (nonce_inputs H)" "bind_preimage e' n' g' \<in> set (nonce_inputs H)"
    and "fits64 e \<and> fits64 g \<and> fits64 e' \<and> fits64 g'" "e \<noteq> e' \<or> n \<noteq> n' \<or> g \<noteq> g'"
  shows "bind_nonce H e n g \<noteq> bind_nonce H e' n' g'"
  using separatesD [OF assms(1-3)] bind_framing.enc_inj [of "(e, n, g)" "(e', n', g')"] assms(4,5)
  by (auto simp: bind_nonce_def)

lemma bind_nonce_passes:
  assumes "\<forall>x. length (H x) = 32" "separates H (sem_inputs H [(ascii ''s'', ascii ''e1''), (ascii ''s'', ascii ''e2'')])"
    and "separates H (nonce_inputs H)"
  shows "passes I (bind_nonce_changes_with_nullifier_election_and_signal H)"
proof -
  let ?n = "\<lambda>e. sem_nullifier H (ascii ''s'') (ascii e)"
  have n: "?n ''e1'' \<noteq> ?n ''e2''"
    by (rule sem_nullifiers_differ [OF assms(2,1)]) (simp_all add: fits64_ascii, simp add: ascii_def)
  have d: "ascii ''e1'' \<noteq> ascii ''e2''" "ascii ''0'' \<noteq> ascii ''1''" "ascii ''ab'' \<noteq> ascii ''a''" by (simp_all add: ascii_def)
  show ?thesis
    unfolding bind_nonce_changes_with_nullifier_election_and_signal_def Let_def
    by (intro runs_assert_then runs_assert bind_nonces_differ [OF assms(3)]) (simp_all add: nonce_inputs_def n d fits64_ascii)
qed

subsection \<open>Bound presentations (semaphore.rs)\<close>

definition bound_proof_roundtrip_and_replay_rejection ::
    "('p, 'r, 'f, 'sk, 'pk, 'sg, 'pok, 'pf) bbs_backend \<Rightarrow> (('p, 'r) suite_state, unit) st" where
  "bound_proof_roundtrip_and_replay_rejection B =
     (let claims = map ascii [''voter_secret=deadbeef'', ''region=north''] in
      bind_s (expect (bbs_generate_keypair B (word_of_nat (length claims)))) (\<lambda>kp.
      bind_s (expect (bbs_sign_credential B claims (held (bkp_secret kp)))) (\<lambda>sig.
      let election = ascii ''election-42'';
          signal = ascii ''option-2'';
          null = sem_nullifier (bk_sha256 B) (ascii ''voter_secret=deadbeef'') election;
          nonce = bind_nonce (bk_sha256 B) election null signal in
      bind_s (expect (bbs_derive_proof B claims sig [1] nonce)) (\<lambda>proof.
      let proof_bytes = sp_to_bytes proof in
      bind_s (verify_bound_proof B proof_bytes (bkp_public kp) election null signal) (\<lambda>b. bind_s (assert_t b) (\<lambda>_.
      let other = sem_nullifier (bk_sha256 B) (ascii ''voter_secret=deadbeef'') (ascii ''election-99'') in
      bind_s (verify_bound_proof B proof_bytes (bkp_public kp) election other signal) (\<lambda>b. bind_s (assert_t (\<not> b)) (\<lambda>_.
      bind_s (verify_bound_proof B proof_bytes (bkp_public kp) (ascii ''election-99'') null signal) (\<lambda>b. assert_t (\<not> b))))))))))"

definition ballot_signal_is_non_malleable ::
    "('p, 'r, 'f, 'sk, 'pk, 'sg, 'pok, 'pf) bbs_backend \<Rightarrow> (('p, 'r) suite_state, unit) st" where
  "ballot_signal_is_non_malleable B =
     (let claims = map ascii [''voter_secret=cafe'', ''region=south''] in
      bind_s (expect (bbs_generate_keypair B (word_of_nat (length claims)))) (\<lambda>kp.
      bind_s (expect (bbs_sign_credential B claims (held (bkp_secret kp)))) (\<lambda>sig.
      let election = ascii ''election-7'';
          null = sem_nullifier (bk_sha256 B) (ascii ''voter_secret=cafe'') election;
          chosen = ascii ''yes'';
          nonce = bind_nonce (bk_sha256 B) election null chosen in
      bind_s (expect (bbs_derive_proof B claims sig [1] nonce)) (\<lambda>proof.
      let proof_bytes = sp_to_bytes proof in
      bind_s (verify_bound_proof B proof_bytes (bkp_public kp) election null chosen) (\<lambda>b. bind_s (assert_t b) (\<lambda>_.
      bind_s (verify_bound_proof B proof_bytes (bkp_public kp) election null (ascii ''no'')) (\<lambda>b. assert_t (\<not> b))))))))"

definition sem_ready ::
    "('p, 'r, 'f, 'sk, 'pk, 'sg, 'pok, 'pf) bbs_backend \<Rightarrow> ('p, 'r) suite_state \<Rightarrow> bool" where
  "sem_ready B s \<longleftrightarrow> bbs_ready B s \<and> (\<forall>x e. serialize_compressed (bk_pf_codec B) x = Some e \<longrightarrow> fits32 e)"

lemma runs_sem_ready: "runs (bbs_ready B) m Q \<Longrightarrow> runs (sem_ready B) m Q"
  unfolding runs_def sem_ready_def by blast

lemma derived_sized:
  assumes "bbs_derive_proof B claims sg reveal nonce s = (Ok p, s')" "sem_ready B s" "\<forall>c \<in> set claims. fits32 c"
  shows "sp_from_bytes (sp_to_bytes p) = Ok p"
proof (rule docknet.crosses_wire [OF assms(1)])
  show "claims \<noteq> []" "length claims \<le> 64" using derive_facts [OF assms(1)] by simp_all
  show "fits32 (sp_proof p)"
    using assms(1,2) by (auto simp: bbs_derive_proof_def bind_s_Ok_iff Let_def sem_ready_def ser_def split: if_splits option.splits)
qed (use assms(3) in blast)

text \<open>What the operations of one run give: a presentation that is valid and crosses the wire.\<close>

lemma bound_run:
  assumes "sem_ready B s" "length claims = 2" "\<forall>c \<in> set claims. fits32 c"
    and "bbs_generate_keypair B (word_of_nat (length claims)) s = (Ok kp, s1)"
    and "bbs_sign_credential B claims (held (bkp_secret kp)) s1 = (Ok sig, s2)"
    and "bbs_derive_proof B claims sig [1] nonce s2 = (Ok p, s3)"
  shows "selective_valid B p (bkp_public kp) nonce" "sp_from_bytes (sp_to_bytes p) = Ok p" "sem_ready B s3"
proof -
  have c: "claims \<noteq> []" "length claims \<le> 64" "\<forall>i \<in> set [1 :: nat]. i < length claims" using assms(2) by auto
  have "runs (sem_ready B) (bbs_generate_keypair B (word_of_nat (length claims))) (bbs_key_ok B (length claims))"
    by (rule runs_sem_ready [OF docknet_tests.gen_runs]) (use assms(2) in simp_all)
  from runsD [OF this assms(1)] have k: "bbs_key_ok B (length claims) kp" "sem_ready B s1" using assms(4) by simp_all
  from runsD [OF runs_sem_ready [OF docknet_tests.sgn_runs [OF c(1,2) k(1)]] k(2)]
  have g: "bbs_sig_ok B claims kp sig" "sem_ready B s2" using assms(5) by simp_all
  from runsD [OF runs_sem_ready [OF docknet_tests.der_runs [OF c(1,2) g(1) c(3)]] g(2), of nonce]
  show "selective_valid B p (bkp_public kp) nonce" "sem_ready B s3" using assms(6) by simp_all
  show "sp_from_bytes (sp_to_bytes p) = Ok p" by (rule derived_sized [OF assms(6) g(2) assms(3)])
qed

lemma verify_bound_runs:
  assumes "sp_from_bytes (sp_to_bytes p) = Ok p"
  shows "runs (sem_ready B) (verify_bound_proof B (sp_to_bytes p) pk election null signal)
    (\<lambda>b. b = selective_valid B p pk (bind_nonce (bk_sha256 B) election null signal))"
proof -
  have "verify_bound_proof B (sp_to_bytes p) pk election null signal
      = bbs_verify_proof B p pk (bind_nonce (bk_sha256 B) election null signal)"
    using assms by (simp add: verify_bound_proof_def Let_def bbs_verify_proof_bytes_def)
  with runs_sem_ready [OF docknet_tests.ver_runs] show ?thesis by simp
qed

text \<open>
  The presentation of the run is refused for another nullifier, election or vote unless it
  rebinds there; the two nullifiers of the first test differ when the hash separates their inputs.
\<close>

lemma bound_replay_passes:
  fixes B :: "('p, 'r, 'f, 'sk, 'pk, 'sg, 'pok, 'pf) bbs_backend"
  defines "claims \<equiv> map ascii [''voter_secret=deadbeef'', ''region=north'']"
  defines "secret \<equiv> ascii ''voter_secret=deadbeef''" and "e \<equiv> ascii ''election-42''" and "e' \<equiv> ascii ''election-99''"
    and "sg \<equiv> ascii ''option-2''"
  defines "null \<equiv> sem_nullifier (bk_sha256 B) secret e" and "other \<equiv> sem_nullifier (bk_sha256 B) secret e'"
  assumes s: "sem_ready B s" and h: "\<forall>x. length (bk_sha256 B x) = 32"
    and run: "bbs_generate_keypair B (word_of_nat (length claims)) s = (Ok kp, s1)"
      "bbs_sign_credential B claims (held (bkp_secret kp)) s1 = (Ok sig, s2)"
      "bbs_derive_proof B claims sig [1] (bind_nonce (bk_sha256 B) e null sg) s2 = (Ok p, s3)"
    and sep: "separates (bk_sha256 B) (sem_inputs (bk_sha256 B) [(secret, e), (secret, e')])"
    and r: "\<not> rebinds B p (bkp_public kp) (e, null, sg) (e, other, sg)"
      "\<not> rebinds B p (bkp_public kp) (e, null, sg) (e', null, sg)"
  shows "fst (bound_proof_roundtrip_and_replay_rejection B s) = Ok ()"
proof -
  have c: "length claims = 2" "\<forall>c \<in> set claims. fits32 c" by (simp_all add: claims_def fits32_def)
  note p = bound_run [OF s c run]
  have f: "fits64 secret" "fits64 e" "fits64 e'" "fits64 sg" by (simp_all add: secret_def e_def e'_def sg_def fits64_ascii)
  have ne: "e \<noteq> e'" by (simp add: e_def e'_def ascii_def)
  have nn: "null \<noteq> other"
    unfolding null_def other_def by (rule sem_nullifiers_differ [OF sep h]) (simp_all add: f ne)
  have inv: "\<not> selective_valid B p (bkp_public kp) (bind_nonce (bk_sha256 B) e other sg)"
      "\<not> selective_valid B p (bkp_public kp) (bind_nonce (bk_sha256 B) e' null sg)"
    using bound_once [OF h p(1) _ f(2,4,2,4)] bound_once [OF h p(1) _ f(2,4,3,4)] r nn ne by auto
  note v = verify_bound_runs [OF p(2)]
  have "passes (sem_ready B) (bind_s (verify_bound_proof B (sp_to_bytes p) (bkp_public kp) e null sg) (\<lambda>b. bind_s (assert_t b) (\<lambda>_.
      bind_s (verify_bound_proof B (sp_to_bytes p) (bkp_public kp) e other sg) (\<lambda>b. bind_s (assert_t (\<not> b)) (\<lambda>_.
      bind_s (verify_bound_proof B (sp_to_bytes p) (bkp_public kp) e' null sg) (\<lambda>b. assert_t (\<not> b)))))))"
    using p(1) inv by (intro runs_checked [OF v] runs_verdict [OF v]) simp_all
  from runsD [OF this p(3)] show ?thesis
    unfolding bound_proof_roundtrip_and_replay_rejection_def Let_def
      claims_def [symmetric] e_def [symmetric] e'_def [symmetric] sg_def [symmetric] secret_def [symmetric]
      null_def [symmetric] other_def [symmetric]
    using run by (auto simp: expect_step)
qed

lemma ballot_signal_passes:
  fixes B :: "('p, 'r, 'f, 'sk, 'pk, 'sg, 'pok, 'pf) bbs_backend"
  defines "claims \<equiv> map ascii [''voter_secret=cafe'', ''region=south'']"
  defines "e \<equiv> ascii ''election-7''"
  defines "null \<equiv> sem_nullifier (bk_sha256 B) (ascii ''voter_secret=cafe'') e"
  assumes s: "sem_ready B s" and h: "\<forall>x. length (bk_sha256 B x) = 32"
    and run: "bbs_generate_keypair B (word_of_nat (length claims)) s = (Ok kp, s1)"
      "bbs_sign_credential B claims (held (bkp_secret kp)) s1 = (Ok sig, s2)"
      "bbs_derive_proof B claims sig [1] (bind_nonce (bk_sha256 B) e null (ascii ''yes'')) s2 = (Ok p, s3)"
    and r: "\<not> rebinds B p (bkp_public kp) (e, null, ascii ''yes'') (e, null, ascii ''no'')"
  shows "fst (ballot_signal_is_non_malleable B s) = Ok ()"
proof -
  have c: "length claims = 2" "\<forall>c \<in> set claims. fits32 c" by (simp_all add: claims_def fits32_def)
  note p = bound_run [OF s c run]
  have f: "fits64 e" "fits64 (ascii ''yes'')" "fits64 (ascii ''no'')" by (simp_all add: e_def fits64_ascii)
  have "ascii ''yes'' \<noteq> ascii ''no''" by (simp add: ascii_def)
  then have inv: "\<not> selective_valid B p (bkp_public kp) (bind_nonce (bk_sha256 B) e null (ascii ''no''))"
    using bound_once [OF h p(1) _ f(1,2,1,3)] r by auto
  note v = verify_bound_runs [OF p(2)]
  have "passes (sem_ready B) (bind_s (verify_bound_proof B (sp_to_bytes p) (bkp_public kp) e null (ascii ''yes'')) (\<lambda>b. bind_s (assert_t b) (\<lambda>_.
      bind_s (verify_bound_proof B (sp_to_bytes p) (bkp_public kp) e null (ascii ''no'')) (\<lambda>b. assert_t (\<not> b)))))"
    using p(1) inv by (intro runs_checked [OF v] runs_verdict [OF v]) simp_all
  from runsD [OF this p(3)] show ?thesis
    unfolding ballot_signal_is_non_malleable_def Let_def claims_def [symmetric] e_def [symmetric] null_def [symmetric]
    using run by (auto simp: expect_step)
qed

subsection \<open>Keys and identifiers (did.rs)\<close>

definition did_roundtrip :: "('r, 'ks, 'kv, 'kg, 'ps, 'pv, 'pg) curves \<Rightarrow> Curve \<Rightarrow> ('r, unit) st" where
  "did_roundtrip C curve =
     bind_s (gen_key C curve) (\<lambda>kp.
     let msg = ascii ''phi network test message'' in
     bind_s (expect (lift_s (did_sign C curve (held (kp_secret kp)) msg))) (\<lambda>sig.
     bind_s (assert_t (length sig = 64)) (\<lambda>_.
     bind_s (assert_t (did_verify C curve (kp_public kp) msg sig)) (\<lambda>_.
     bind_s (assert_t (\<not> did_verify C curve (kp_public kp) (ascii ''tampered'') sig)) (\<lambda>_.
     bind_s (gen_key C curve) (\<lambda>other.
     assert_t (\<not> did_verify C curve (kp_public other) msg sig)))))))"

definition sign_verify_secp256k1 :: "('r, 'ks, 'kv, 'kg, 'ps, 'pv, 'pg) curves \<Rightarrow> ('r, unit) st" where
  "sign_verify_secp256k1 C = did_roundtrip C Secp256k1"

definition sign_verify_secp256r1 :: "('r, 'ks, 'kv, 'kg, 'ps, 'pv, 'pg) curves \<Rightarrow> ('r, unit) st" where
  "sign_verify_secp256r1 C = did_roundtrip C Secp256r1"

definition did_is_stable :: "(bytes \<Rightarrow> bytes) \<Rightarrow> ('r, 'ks, 'kv, 'kg, 'ps, 'pv, 'pg) curves \<Rightarrow> ('r, unit) st" where
  "did_is_stable H C =
     bind_s (gen_key C Secp256r1) (\<lambda>kp.
     bind_s (expect (lift_s (did_from_public H C Secp256r1 (kp_public kp)))) (\<lambda>did1.
     bind_s (expect (lift_s (did_from_public H C Secp256r1 (kp_public kp)))) (\<lambda>did2.
     bind_s (assert_t (did1 = did2)) (\<lambda>_.
     assert_t (take 8 did1 = ascii ''did:phi:'')))))"

definition encoded_points :: "('r, 'ks, 'kv, 'kg, 'ps, 'pv, 'pg) curves \<Rightarrow> Curve \<Rightarrow> bytes \<Rightarrow> (bytes \<times> bytes, crypto_error) result" where
  "encoded_points C curve public = (case curve of
       Secp256k1 \<Rightarrow> bind_r (ok_or InvalidKey (ec_from_sec1_bytes (cv_k256 C) public)) (\<lambda>vk.
         Ok (ec_to_encoded_point (cv_k256 C) vk True, ec_to_encoded_point (cv_k256 C) vk False))
     | Secp256r1 \<Rightarrow> bind_r (ok_or InvalidKey (ec_from_sec1_bytes (cv_p256 C) public)) (\<lambda>vk.
         Ok (ec_to_encoded_point (cv_p256 C) vk True, ec_to_encoded_point (cv_p256 C) vk False)))"

definition did_is_canonical_across_sec1_encodings ::
    "(bytes \<Rightarrow> bytes) \<Rightarrow> ('r, 'ks, 'kv, 'kg, 'ps, 'pv, 'pg) curves \<Rightarrow> ('r, unit) st" where
  "did_is_canonical_across_sec1_encodings H C =
     bind_s (gen_key C Secp256r1) (\<lambda>kp.
     bind_s (expect (lift_s (encoded_points C Secp256r1 (kp_public kp)))) (\<lambda>(compressed, uncompressed).
     bind_s (assert_t (length compressed = 33)) (\<lambda>_.
     bind_s (assert_t (length uncompressed = 65)) (\<lambda>_.
     bind_s (assert_t (compressed \<noteq> uncompressed)) (\<lambda>_.
     bind_s (expect (lift_s (did_from_public H C Secp256r1 compressed))) (\<lambda>from_compressed.
     bind_s (expect (lift_s (did_from_public H C Secp256r1 uncompressed))) (\<lambda>from_uncompressed.
     bind_s (assert_t (from_compressed = from_uncompressed)) (\<lambda>_.
     bind_s (expect (lift_s (did_from_public H C Secp256r1 (kp_public kp)))) (\<lambda>did.
     assert_t (from_compressed = did))))))))))"

definition canonical_sec1_round_trips_and_absorbs_both_input_forms ::
    "(bytes \<Rightarrow> bytes) \<Rightarrow> ('r, 'ks, 'kv, 'kg, 'ps, 'pv, 'pg) curves \<Rightarrow> ('r, unit) st" where
  "canonical_sec1_round_trips_and_absorbs_both_input_forms H C =
     for_each [Secp256k1, Secp256r1] (\<lambda>curve.
       bind_s (gen_key C curve) (\<lambda>kp.
       bind_s (expect (lift_s (ok_or InvalidKey (canonical_sec1 C curve (kp_public kp))))) (\<lambda>canonical.
       bind_s (expect (lift_s (ok_or InvalidKey (canonical_sec1 C curve canonical)))) (\<lambda>again.
       bind_s (assert_t (again = canonical)) (\<lambda>_.
       bind_s (expect (lift_s (encoded_points C curve (kp_public kp)))) (\<lambda>(compressed, uncompressed).
       bind_s (assert_t (length compressed = 33)) (\<lambda>_.
       bind_s (assert_t (length uncompressed = 65)) (\<lambda>_.
       bind_s (expect (lift_s (did_from_public H C curve compressed))) (\<lambda>a.
       bind_s (expect (lift_s (did_from_public H C curve uncompressed))) (\<lambda>b.
       assert_t (a = b)))))))))))"

definition rejects_wrong_length_signature :: "('r, 'ks, 'kv, 'kg, 'ps, 'pv, 'pg) curves \<Rightarrow> ('r, unit) st" where
  "rejects_wrong_length_signature C =
     bind_s (gen_key C Secp256k1) (\<lambda>kp.
     assert_t (\<not> did_verify C Secp256k1 (kp_public kp) (ascii ''x'') (replicate 10 0)))"

definition did_valid_key_is_ok_and_full_length ::
    "(bytes \<Rightarrow> bytes) \<Rightarrow> ('r, 'ks, 'kv, 'kg, 'ps, 'pv, 'pg) curves \<Rightarrow> ('r, unit) st" where
  "did_valid_key_is_ok_and_full_length H C =
     bind_s (gen_key C Secp256r1) (\<lambda>kp.
     bind_s (expect (lift_s (did_from_public H C Secp256r1 (kp_public kp)))) (\<lambda>did.
     assert_t (length did = length (ascii ''did:phi:'') + 64)))"

text \<open>The generator of \<open>did_from_public_never_panics_on_arbitrary_bytes\<close> and its loop.\<close>

definition xorshift :: "u64 \<Rightarrow> u64" where
  "xorshift state =
     (let state = state XOR push_bit 13 state;
          state = state XOR drop_bit 7 state;
          state = state XOR push_bit 17 state in state)"

fun random_bytes :: "nat \<Rightarrow> u64 \<Rightarrow> bytes \<times> u64" where
  "random_bytes 0 state = ([], state)"
| "random_bytes (Suc n) state =
     (let state = xorshift state; (bs, state') = random_bytes n state in (ucast (state AND 0xff) # bs, state'))"

fun never_panics_loop ::
    "(bytes \<Rightarrow> bytes) \<Rightarrow> ('r, 'ks, 'kv, 'kg, 'ps, 'pv, 'pg) curves \<Rightarrow> nat \<Rightarrow> u64 \<Rightarrow> ('s, unit) st" where
  "never_panics_loop H C 0 state = lift_s (Ok ())"
| "never_panics_loop H C (Suc n) state =
     (let state = xorshift state;
          len = unat (state mod 70);
          (buf, state) = random_bytes len state in
      bind_s (for_each [Secp256k1, Secp256r1] (\<lambda>curve.
        case did_from_public H C curve buf of
          Ok did \<Rightarrow>
            bind_s (assert_t (take 8 did = ascii ''did:phi:'')) (\<lambda>_.
            assert_t (length did = length (ascii ''did:phi:'') + 64))
        | Err InvalidKey \<Rightarrow> lift_s (Ok ())
        | _ \<Rightarrow> lift_s Panic)) (\<lambda>_.
      never_panics_loop H C n state))"

definition did_from_public_never_panics_on_arbitrary_bytes ::
    "(bytes \<Rightarrow> bytes) \<Rightarrow> ('r, 'ks, 'kv, 'kg, 'ps, 'pv, 'pg) curves \<Rightarrow> ('s, unit) st" where
  "did_from_public_never_panics_on_arbitrary_bytes H C = never_panics_loop H C 5000 0x9E3779B97F4A7C15"

text \<open>What the curves promise of encoded points: 33 and 65 bytes.\<close>

definition sec1_law :: "('r, 'sk, 'vk, 'sg) ecdsa \<Rightarrow> bool" where
  "sec1_law E \<longleftrightarrow> (\<forall>vk. length (ec_to_encoded_point E vk True) = 33 \<and> length (ec_to_encoded_point E vk False) = 65)"

lemma gen_then:
  assumes "\<And>kp rng rng'. generate_keypair C curve rng = (kp, rng') \<Longrightarrow> curves_law C \<Longrightarrow> runs (did_ready C) (f kp) Q"
  shows "runs (did_ready C) (bind_s (gen_key C curve) f) Q"
  using assms by (auto intro: runs_bind [OF gen_key_runs])

text \<open>
  The round trip along a run. That the signature drawn is none of the other message and none under the
  second key are the two hypotheses; unforgeability is not a law of the curves here.
\<close>

lemma did_roundtrip_passes:
  assumes "curves_law C" "generate_keypair C curve rng = (kp, rng1)" "generate_keypair C curve rng1 = (other, rng2)"
    and "did_sign C curve (held (kp_secret kp)) (ascii ''phi network test message'') = Ok sig"
    and "\<not> did_verify C curve (kp_public kp) (ascii ''tampered'') sig"
    and "\<not> did_verify C curve (kp_public other) (ascii ''phi network test message'') sig"
  shows "did_roundtrip C curve rng = (Ok (), rng2)"
proof -
  have "length sig = 64" "did_verify C curve (kp_public kp) (ascii ''phi network test message'') sig"
    using keypair_signs [OF assms(1,2), of "ascii ''phi network test message''"] assms(4) by auto
  then show ?thesis
    using assms(2-6) by (simp add: did_roundtrip_def gen_key_def bind_s_def expect_def assert_t_def Let_def)
qed

lemmas sign_verify_tests_pass =
  did_roundtrip_passes [where curve = Secp256k1, folded sign_verify_secp256k1_def]
  did_roundtrip_passes [where curve = Secp256r1, folded sign_verify_secp256r1_def]

text \<open>An identifier in full: its prefix, its length, and no outcome but \<open>InvalidKey\<close> beside it.\<close>

lemma did_cases:
  assumes "\<forall>x. length (H x) = 32"
  shows "(\<exists>did. did_from_public H C curve public = Ok did \<and> take 8 did = ascii ''did:phi:'' \<and> length did = 72)
    \<or> did_from_public H C curve public = Err InvalidKey"
  using assms by (cases "canonical_sec1 C curve public") (auto simp: did_from_public_def)

lemma never_panics_passes:
  assumes "\<forall>x. length (H x) = 32"
  shows "passes I (did_from_public_never_panics_on_arbitrary_bytes H C)"
proof -
  have one: "passes I (case did_from_public H C curve buf of
          Ok did \<Rightarrow> bind_s (assert_t (take 8 did = ascii ''did:phi:'')) (\<lambda>_. assert_t (length did = length (ascii ''did:phi:'') + 64))
        | Err InvalidKey \<Rightarrow> lift_s (Ok ()) | _ \<Rightarrow> lift_s Panic)" for curve buf
    using did_cases [OF assms, of C curve buf] by (auto intro!: runs_assert_then runs_assert)
  have "passes I (never_panics_loop H C n state)" for n state
    by (induction n arbitrary: state)
      (auto simp: Let_def simp del: for_each.simps split: prod.split intro!: runs_bind [OF runs_for_each] one)
  then show ?thesis by (simp add: did_from_public_never_panics_on_arbitrary_bytes_def)
qed

lemma identifier_tests_pass:
  assumes "\<forall>x. length (H x) = 32"
  shows "passes (did_ready C) (did_is_stable H C)" "passes (did_ready C) (did_valid_key_is_ok_and_full_length H C)"
    "passes (did_ready C) (rejects_wrong_length_signature C)"
proof -
  have d: "runs (did_ready C) (expect (lift_s (did_from_public H C Secp256r1 (kp_public kp))))
      (\<lambda>did. did_from_public H C Secp256r1 (kp_public kp) = Ok did \<and> take 8 did = ascii ''did:phi:'' \<and> length did = 72)"
    if "generate_keypair C Secp256r1 rng = (kp, rng')" "curves_law C" for kp rng rng'
    using did_cases [OF assms, of C Secp256r1 "kp_public kp"] keypair_has_did [OF that(2,1), of H]
    by (auto intro!: runs_expect_lift)
  show "passes (did_ready C) (did_is_stable H C)"
    unfolding did_is_stable_def by (intro gen_then runs_bind [OF d] runs_assert_then runs_assert) auto
  show "passes (did_ready C) (did_valid_key_is_ok_and_full_length H C)"
    unfolding did_valid_key_is_ok_and_full_length_def by (intro gen_then runs_bind [OF d] runs_assert) auto
  show "passes (did_ready C) (rejects_wrong_length_signature C)"
    unfolding rejects_wrong_length_signature_def by (intro gen_then runs_assert) (simp add: did_verify_def)
qed

text \<open>Both encodings of a key have its canonical encoding, so its identifier.\<close>

lemma encoded_points_canonical:
  assumes "curves_law C" "canonical_sec1 C curve public \<noteq> None"
  obtains c u where "encoded_points C curve public = Ok (c, u)" "canonical_sec1 C curve c = canonical_sec1 C curve public"
    "canonical_sec1 C curve u = canonical_sec1 C curve public"
    "sec1_law (cv_k256 C) \<Longrightarrow> sec1_law (cv_p256 C) \<Longrightarrow> length c = 33 \<and> length u = 65"
  using assms
  by (cases curve) (auto simp: encoded_points_def canonical_sec1_def curves_law_def ecdsa_law_def sec1_law_def)

lemma did_canonical_cong:
  "canonical_sec1 C curve a = canonical_sec1 C curve b \<Longrightarrow> did_from_public H C curve a = did_from_public H C curve b"
  by (simp add: did_from_public_def)

lemma canonical_key:
  assumes "generate_keypair C curve rng = (kp, rng')" "curves_law C"
  shows "canonical_sec1 C curve (kp_public kp) \<noteq> None"
  using keypair_has_did [OF assms(2,1), of "\<lambda>x. x"]
  by (cases "canonical_sec1 C curve (kp_public kp)") (auto simp: did_from_public_def)

lemma encodings_tests_pass:
  assumes "sec1_law (cv_k256 C)" "sec1_law (cv_p256 C)"
  shows "passes (did_ready C) (did_is_canonical_across_sec1_encodings H C)"
    "passes (did_ready C) (canonical_sec1_round_trips_and_absorbs_both_input_forms H C)"
proof -
  show "passes (did_ready C) (did_is_canonical_across_sec1_encodings H C)"
    unfolding did_is_canonical_across_sec1_encodings_def
  proof (rule gen_then)
    fix kp rng rng' assume g: "generate_keypair C Secp256r1 rng = (kp, rng')" and l: "curves_law C"
    obtain c u where e: "encoded_points C Secp256r1 (kp_public kp) = Ok (c, u)" "length c = 33 \<and> length u = 65"
        "canonical_sec1 C Secp256r1 c = canonical_sec1 C Secp256r1 (kp_public kp)"
        "canonical_sec1 C Secp256r1 u = canonical_sec1 C Secp256r1 (kp_public kp)"
      using encoded_points_canonical [OF l canonical_key [OF g l]] assms by metis
    obtain did where d: "did_from_public H C Secp256r1 (kp_public kp) = Ok did" using keypair_has_did [OF l g] by blast
    have "c \<noteq> u" using e(2) by auto
    with e d did_canonical_cong [OF e(3), of H] did_canonical_cong [OF e(4), of H]
    show "passes (did_ready C) (bind_s (expect (lift_s (encoded_points C Secp256r1 (kp_public kp)))) (\<lambda>(compressed, uncompressed).
       bind_s (assert_t (length compressed = 33)) (\<lambda>_.
       bind_s (assert_t (length uncompressed = 65)) (\<lambda>_.
       bind_s (assert_t (compressed \<noteq> uncompressed)) (\<lambda>_.
       bind_s (expect (lift_s (did_from_public H C Secp256r1 compressed))) (\<lambda>from_compressed.
       bind_s (expect (lift_s (did_from_public H C Secp256r1 uncompressed))) (\<lambda>from_uncompressed.
       bind_s (assert_t (from_compressed = from_uncompressed)) (\<lambda>_.
       bind_s (expect (lift_s (did_from_public H C Secp256r1 (kp_public kp)))) (\<lambda>did.
       assert_t (from_compressed = did))))))))))"
      by (intro runsI) (simp add: bind_s_def expect_def assert_t_def)
  qed
  show "passes (did_ready C) (canonical_sec1_round_trips_and_absorbs_both_input_forms H C)"
    unfolding canonical_sec1_round_trips_and_absorbs_both_input_forms_def
  proof (intro runs_for_each gen_then)
    fix curve kp rng rng' assume g: "generate_keypair C curve rng = (kp, rng')" and l: "curves_law C"
    obtain c u where e: "encoded_points C curve (kp_public kp) = Ok (c, u)" "length c = 33 \<and> length u = 65"
        "canonical_sec1 C curve c = canonical_sec1 C curve (kp_public kp)"
        "canonical_sec1 C curve u = canonical_sec1 C curve (kp_public kp)"
      using encoded_points_canonical [OF l canonical_key [OF g l]] assms by metis
    obtain k where k: "canonical_sec1 C curve (kp_public kp) = Some k" "canonical_sec1 C curve k = Some k"
      using canonical_key [OF g l] canonical_sec1_idem [OF l] by blast
    obtain did where d: "did_from_public H C curve (kp_public kp) = Ok did" using keypair_has_did [OF l g] by blast
    from e k d did_canonical_cong [OF e(3), of H] did_canonical_cong [OF e(4), of H]
    show "passes (did_ready C)
      (bind_s (expect (lift_s (ok_or InvalidKey (canonical_sec1 C curve (kp_public kp))))) (\<lambda>canonical.
       bind_s (expect (lift_s (ok_or InvalidKey (canonical_sec1 C curve canonical)))) (\<lambda>again.
       bind_s (assert_t (again = canonical)) (\<lambda>_.
       bind_s (expect (lift_s (encoded_points C curve (kp_public kp)))) (\<lambda>(compressed, uncompressed).
       bind_s (assert_t (length compressed = 33)) (\<lambda>_.
       bind_s (assert_t (length uncompressed = 65)) (\<lambda>_.
       bind_s (expect (lift_s (did_from_public H C curve compressed))) (\<lambda>a.
       bind_s (expect (lift_s (did_from_public H C curve uncompressed))) (\<lambda>b.
       assert_t (a = b))))))))))"
      by (intro runsI) (simp add: bind_s_def expect_def assert_t_def)
  qed
qed

subsection \<open>Secrets (secret.rs)\<close>

definition moves_the_value_out_unchanged :: "('s, unit) st" where
  "moves_the_value_out_unchanged =
     (let bytes = [9, 8, 7, 6] in
      bind_s (assert_t (fst (into_boundary_owned [] zeroize_vec \<lparr>held = bytes\<rparr>) = bytes)) (\<lambda>_.
      let phrase = ascii ''abandon abandon art'' in
      assert_t (fst (into_boundary_owned [] zeroize_vec \<lparr>held = phrase\<rparr>) = phrase)))"

definition leaves_the_wrapper_empty :: "('s, unit) st" where
  "leaves_the_wrapper_empty =
     (let held = \<lparr>held = replicate 32 (5 :: byte)\<rparr>;
          (owned, held) = mem_take [] held in
      bind_s (assert_t (length owned = 32)) (\<lambda>_.
      assert_t (zeroizing.held held = [])))"

lemma secret_tests_pass: "passes I moves_the_value_out_unchanged" "passes I leaves_the_wrapper_empty"
  unfolding moves_the_value_out_unchanged_def leaves_the_wrapper_empty_def Let_def
  by (auto simp: mem_take_def intro!: runs_assert_then runs_assert)

end
