(* ===== verification/Phi_Tests_Webauthn.thy ===== *)
theory Phi_Tests_Webauthn
  imports Phi_Test_Kit Phi_Webauthn
begin

section \<open>The unit tests of the WebAuthn verifier (webauthn.rs)\<close>

text \<open>
  The tests build a signed assertion and vary one of its parts. The builder writes the client
  data as JSON text; what the parser reads from such a text is the law \<open>json_law\<close>, stated for
  the texts the tests write. DER encoding and the high form of a signature belong to the
  ECDSA crate (\<open>form_law\<close>). Every test is an instance of \<open>built_verdict\<close>: an assertion of the
  builder is accepted exactly under its own challenge, origin and party, from the same origin,
  with the user present, verified where that is required, and a low-S signature.
\<close>

subsection \<open>The builder\<close>

record Built =
  bt_assertion :: WebAuthnAssertion
  bt_challenge :: bytes
  bt_pk :: bytes
  bt_origin :: str
  bt_rp_id :: str

record 'sg sig_forms =
  sf_to_der :: "'sg \<Rightarrow> bytes"
  sf_negate_s :: "'sg \<Rightarrow> 'sg option"
  sf_is_high :: "'sg \<Rightarrow> bool"

definition high_s_variant :: "'sg sig_forms \<Rightarrow> 'sg \<Rightarrow> ('sg, crypto_error) result" where
  "high_s_variant F sig =
     bind_r (ok_or InvalidSignature (sf_negate_s F sig)) (\<lambda>candidate.
     Ok (if sf_is_high F candidate then candidate else sig))"

definition quoted :: "str \<Rightarrow> str" where
  "quoted x = [0x22] @ x @ [0x22]"

definition client_json :: "str \<Rightarrow> str \<Rightarrow> str \<Rightarrow> str \<Rightarrow> str" where
  "client_json typ chal origin provenance =
     ascii ''{'' @ quoted (ascii ''type'') @ ascii '':'' @ quoted typ
       @ ascii '','' @ quoted (ascii ''challenge'') @ ascii '':'' @ quoted chal
       @ ascii '','' @ quoted (ascii ''origin'') @ ascii '':'' @ quoted origin
       @ ascii '','' @ provenance @ ascii ''}''"

definition SAME_ORIGIN :: str where
  "SAME_ORIGIN = quoted (ascii ''crossOrigin'') @ ascii '':false''"

definition CROSS_ORIGIN :: str where
  "CROSS_ORIGIN = quoted (ascii ''crossOrigin'') @ ascii '':true''"

definition TOP_ORIGIN :: str where
  "TOP_ORIGIN = ascii '','' @ quoted (ascii ''topOrigin'') @ ascii '':'' @ quoted (ascii ''https://evil.example'')"

definition NO_ORIGIN :: str where
  "NO_ORIGIN = quoted (ascii ''extra'') @ ascii '':1''"

definition build_full ::
    "('r, 'ps, 'pv, 'pg) webauthn_backend \<Rightarrow> 'pg sig_forms \<Rightarrow> bool \<Rightarrow> bool \<Rightarrow> bool \<Rightarrow> str \<Rightarrow> str \<Rightarrow> bytes \<Rightarrow>
     str option \<Rightarrow> u32 \<Rightarrow> byte \<Rightarrow> ('r, Built) st" where
  "build_full W F up uv high_s origin rp_id chal provenance sign_count extra_flags =
     bind_s (\<lambda>rng. case ec_random (wb_p256 W) rng of (sk, rng) \<Rightarrow> (Ok sk, rng)) (\<lambda>sk.
     let pk = ec_to_sec1_bytes (wb_p256 W) (ec_verifying_key (wb_p256 W) sk) in
     bind_s (lift_s (base64_encode chal)) (\<lambda>text.
     let client_bytes = client_json (ascii ''webauthn.get'') text origin
           (case provenance of Some p \<Rightarrow> p | None \<Rightarrow> SAME_ORIGIN);
         auth = [];
         auth = auth @ wb_sha256 W rp_id;
         flags = 0;
         flags = (if up then flags OR FLAG_USER_PRESENT else flags);
         flags = (if uv then flags OR FLAG_USER_VERIFIED else flags);
         flags = flags OR extra_flags;
         auth = auth @ [flags];
         auth = auth @ u32_to_be_bytes sign_count;
         signed_data = auth @ wb_sha256 W client_bytes;
         sig = ec_sign (wb_p256 W) sk signed_data;
         low = (case ec_normalize_s (wb_p256 W) sig of Some s \<Rightarrow> s | None \<Rightarrow> sig) in
     bind_s (expect (lift_s (if high_s then high_s_variant F low else Ok low))) (\<lambda>sig.
     lift_s (Ok \<lparr>bt_assertion = \<lparr>wa_authenticator_data = auth, wa_client_data_json = client_bytes,
                    wa_signature = sf_to_der F sig\<rparr>,
                 bt_challenge = chal, bt_pk = pk, bt_origin = origin, bt_rp_id = rp_id\<rparr>))))"

definition build_flags ::
    "('r, 'ps, 'pv, 'pg) webauthn_backend \<Rightarrow> 'pg sig_forms \<Rightarrow> bool \<Rightarrow> bool \<Rightarrow> bool \<Rightarrow> str \<Rightarrow> str \<Rightarrow> bytes \<Rightarrow> ('r, Built) st" where
  "build_flags W F up uv high_s origin rp_id chal = build_full W F up uv high_s origin rp_id chal None 1 0"

definition build ::
    "('r, 'ps, 'pv, 'pg) webauthn_backend \<Rightarrow> 'pg sig_forms \<Rightarrow> bool \<Rightarrow> bool \<Rightarrow> str \<Rightarrow> str \<Rightarrow> bytes \<Rightarrow> ('r, Built) st" where
  "build W F up high_s origin rp_id chal = build_flags W F up False high_s origin rp_id chal"

definition verify_uv :: "('r, 'ps, 'pv, 'pg) webauthn_backend \<Rightarrow> Built \<Rightarrow> bool \<Rightarrow> ('s, bool) st" where
  "verify_uv W b require_uv =
     lift_s (verify_webauthn W (bt_assertion b) (bt_challenge b) (bt_pk b) (bt_origin b) (bt_rp_id b) require_uv)"

definition test_verify :: "('r, 'ps, 'pv, 'pg) webauthn_backend \<Rightarrow> Built \<Rightarrow> ('s, bool) st" where
  "test_verify W b = verify_uv W b False"

abbreviation PORT_ORIGIN :: str where "PORT_ORIGIN \<equiv> ascii ''https://portphi.com''"
abbreviation PORT_RP :: str where "PORT_RP \<equiv> ascii ''portphi.com''"

subsection \<open>What the tests assume\<close>

definition PROVENANCES :: "(str \<times> bool option \<times> str option) list" where
  "PROVENANCES = [(SAME_ORIGIN, Some False, None), (CROSS_ORIGIN, Some True, None),
     (CROSS_ORIGIN @ TOP_ORIGIN, Some True, Some (ascii ''https://evil.example'')),
     (SAME_ORIGIN @ TOP_ORIGIN, Some False, Some (ascii ''https://evil.example'')), (NO_ORIGIN, None, None)]"

definition json_law :: "('r, 'ps, 'pv, 'pg) webauthn_backend \<Rightarrow> bool" where
  "json_law W \<longleftrightarrow> (\<forall>typ \<in> {ascii ''webauthn.get'', ascii ''webauthn.create''}. \<forall>c.
     \<forall>origin \<in> {PORT_ORIGIN, ascii ''https://evil.example''}. \<forall>(prov, cross, tp) \<in> set PROVENANCES.
       wb_parse W (client_json typ (b64 c) origin prov) =
         Some \<lparr>cd_typ = typ, cd_challenge = b64 c, cd_origin = origin, cd_cross_origin = cross, cd_top_origin = tp\<rparr>)"

definition form_law :: "('r, 'sk, 'vk, 'sg) ecdsa \<Rightarrow> 'sg sig_forms \<Rightarrow> bool" where
  "form_law P F \<longleftrightarrow> (\<forall>s. ec_sig_from_der P (sf_to_der F s) = Some s)
     \<and> (\<forall>s. ec_normalize_s P s = None \<longleftrightarrow> \<not> sf_is_high F s)
     \<and> (\<forall>s. \<exists>s'. sf_negate_s F s = Some s' \<and> (sf_is_high F s' \<longleftrightarrow> \<not> sf_is_high F s))"

definition webauthn_ready :: "('r, 'ps, 'pv, 'pg) webauthn_backend \<Rightarrow> 'pg sig_forms \<Rightarrow> 'r \<Rightarrow> bool" where
  "webauthn_ready W F rng \<longleftrightarrow> json_law W \<and> ecdsa_law (wb_p256 W) \<and> form_law (wb_p256 W) F
     \<and> (\<forall>x. length (wb_sha256 W x) = 32)"

subsection \<open>The verdict on a built assertion\<close>

definition test_flags :: "bool \<Rightarrow> bool \<Rightarrow> byte \<Rightarrow> byte" where
  "test_flags up uv extra = ((if up then FLAG_USER_PRESENT else 0) OR (if uv then FLAG_USER_VERIFIED else 0)) OR extra"

lemma test_flags_bits:
  assumes "extra \<in> {0, FLAG_BACKUP_ELIGIBLE OR FLAG_BACKUP_STATE}"
  shows "test_flags up uv extra AND FLAG_USER_PRESENT \<noteq> 0 \<longleftrightarrow> up" "test_flags up uv extra AND FLAG_USER_VERIFIED \<noteq> 0 \<longleftrightarrow> uv"
    "test_flags up uv extra AND FLAG_BACKUP_ELIGIBLE \<noteq> 0 \<longleftrightarrow> extra \<noteq> 0" "test_flags up uv extra AND FLAG_BACKUP_STATE \<noteq> 0 \<longleftrightarrow> extra \<noteq> 0"
  using assms
  by (auto simp: test_flags_def FLAG_USER_PRESENT_def FLAG_USER_VERIFIED_def FLAG_BACKUP_ELIGIBLE_def FLAG_BACKUP_STATE_def)

definition built_ok ::
    "('r, 'ps, 'pv, 'pg) webauthn_backend \<Rightarrow> bool \<Rightarrow> bool \<Rightarrow> bool \<Rightarrow> str \<Rightarrow> str \<Rightarrow> bytes \<Rightarrow> str \<Rightarrow> u32 \<Rightarrow> byte \<Rightarrow> Built \<Rightarrow> bool" where
  "built_ok W up uv high_s origin rp_id chal prov sign_count extra b \<longleftrightarrow>
     wa_authenticator_data (bt_assertion b) = wb_sha256 W rp_id @ [test_flags up uv extra] @ u32_to_be_bytes sign_count
     \<and> wa_client_data_json (bt_assertion b) = client_json (ascii ''webauthn.get'') (b64 chal) origin prov
     \<and> bt_challenge b = chal \<and> bt_origin b = origin \<and> bt_rp_id b = rp_id
     \<and> json_law W \<and> (\<forall>x. length (wb_sha256 W x) = 32)
     \<and> (verify_p256_low_s (wb_p256 W) (bt_pk b) (wa_authenticator_data (bt_assertion b)
          @ wb_sha256 W (wa_client_data_json (bt_assertion b))) (wa_signature (bt_assertion b)) \<longleftrightarrow> \<not> high_s)"

lemma low_s_verdict:
  assumes "ecdsa_law P" "form_law P F"
    and "ec_normalize_s P low = None" "ec_verify P (ec_verifying_key P sk) signed_data low"
    and "(if high_s then high_s_variant F low else Ok low) = Ok sig"
  shows "verify_p256_low_s P (ec_to_sec1_bytes P (ec_verifying_key P sk)) signed_data (sf_to_der F sig) \<longleftrightarrow> \<not> high_s"
proof -
  have k: "ec_from_sec1_bytes P (ec_to_sec1_bytes P (ec_verifying_key P sk)) = Some (ec_verifying_key P sk)"
    using assms(1) by (simp add: ecdsa_law_def)
  have d: "ec_sig_from_der P (sf_to_der F sig) = Some sig" using assms(2) by (simp add: form_law_def)
  have "ec_normalize_s P sig \<noteq> None" if high_s
  proof -
    obtain s' where s': "sf_negate_s F low = Some s'" "sf_is_high F s' \<longleftrightarrow> \<not> sf_is_high F low"
      using assms(2) unfolding form_law_def by blast
    have "\<not> sf_is_high F low" using assms(2,3) unfolding form_law_def by blast
    then have "sig = s'" "sf_is_high F s'" using assms(5) that s' by (simp_all add: high_s_variant_def)
    then show ?thesis using assms(2) unfolding form_law_def by blast
  qed
  then show ?thesis using k d assms(3-5) by (cases high_s) (auto simp: verify_p256_low_s_def)
qed

lemma build_runs:
  assumes "length chal < 2 ^ 63"
  shows "runs (webauthn_ready W F) (build_full W F up uv high_s origin rp_id chal prov sign_count extra)
     (built_ok W up uv high_s origin rp_id chal (case prov of Some p \<Rightarrow> p | None \<Rightarrow> SAME_ORIGIN) sign_count extra)"
proof (rule runsI)
  fix rng assume r: "webauthn_ready W F rng"
  let ?P = "wb_p256 W"
  have laws: "ecdsa_law ?P" "form_law ?P F" using r by (simp_all add: webauthn_ready_def)
  obtain sk rng' where sk: "ec_random ?P rng = (sk, rng')" by force
  let ?client = "client_json (ascii ''webauthn.get'') (b64 chal) origin (case prov of Some p \<Rightarrow> p | None \<Rightarrow> SAME_ORIGIN)"
  let ?auth = "wb_sha256 W rp_id @ [test_flags up uv extra] @ u32_to_be_bytes sign_count"
  let ?sig = "ec_sign ?P sk (?auth @ wb_sha256 W ?client)"
  let ?low = "case ec_normalize_s ?P ?sig of Some s \<Rightarrow> s | None \<Rightarrow> ?sig"
  have low: "ec_normalize_s ?P ?low = None" "ec_verify ?P (ec_verifying_key ?P sk) (?auth @ wb_sha256 W ?client) ?low"
    using laws(1) by (cases "ec_normalize_s ?P ?sig"; auto simp: ecdsa_law_def)+
  obtain sig where sig: "(if high_s then high_s_variant F ?low else Ok ?low) = Ok sig"
  proof (cases high_s)
    case True
    obtain s' where "sf_negate_s F ?low = Some s'" using laws(2) unfolding form_law_def by blast
    then show ?thesis using that True by (simp add: high_s_variant_def)
  qed simp
  let ?b = "\<lparr>bt_assertion = \<lparr>wa_authenticator_data = ?auth, wa_client_data_json = ?client, wa_signature = sf_to_der F sig\<rparr>,
      bt_challenge = chal, bt_pk = ec_to_sec1_bytes ?P (ec_verifying_key ?P sk), bt_origin = origin, bt_rp_id = rp_id\<rparr>"
  have flags: "(if uv then (if up then 0 OR FLAG_USER_PRESENT else 0) OR FLAG_USER_VERIFIED
      else (if up then 0 OR FLAG_USER_PRESENT else 0)) OR extra = test_flags up uv extra"
    by (simp add: test_flags_def)
  have "build_full W F up uv high_s origin rp_id chal prov sign_count extra rng = (Ok ?b, rng')"
    using sig unfolding build_full_def Let_def flags append_assoc append_Nil append_Cons
    by (cases high_s) (simp_all add: bind_s_def sk base64_encode_eq [OF assms] expect_def)
  moreover have "built_ok W up uv high_s origin rp_id chal (case prov of Some p \<Rightarrow> p | None \<Rightarrow> SAME_ORIGIN) sign_count extra ?b"
    using r low_s_verdict [OF laws low sig] by (simp add: built_ok_def webauthn_ready_def)
  ultimately show "\<exists>x s'. build_full W F up uv high_s origin rp_id chal prov sign_count extra rng = (Ok x, s')
      \<and> webauthn_ready W F s' \<and> built_ok W up uv high_s origin rp_id chal (case prov of Some p \<Rightarrow> p | None \<Rightarrow> SAME_ORIGIN) sign_count extra x"
    using r by (auto simp: webauthn_ready_def)
qed

text \<open>What the parser reads from the client data of a built assertion.\<close>

lemma built_verdict:
  assumes b: "built_ok W up uv high_s origin rp_id chal prov sign_count extra b"
    and p: "(prov, cross, tp) \<in> set PROVENANCES" "origin \<in> {PORT_ORIGIN, ascii ''https://evil.example''}"
    and e: "extra \<in> {0, FLAG_BACKUP_ELIGIBLE OR FLAG_BACKUP_STATE}"
  shows "assertion_ok W (bt_assertion b) chal' (bt_pk b) origin' rp_id require_uv \<longleftrightarrow>
     chal' = chal \<and> origin' = origin \<and> cross \<noteq> Some True \<and> tp = None \<and> up \<and> (require_uv \<longrightarrow> uv) \<and> \<not> high_s"
proof -
  note ok = b [unfolded built_ok_def]
  let ?a = "wa_authenticator_data (bt_assertion b)"
  have parse: "wb_parse W (wa_client_data_json (bt_assertion b)) = Some \<lparr>cd_typ = ascii ''webauthn.get'', cd_challenge = b64 chal,
      cd_origin = origin, cd_cross_origin = cross, cd_top_origin = tp\<rparr>"
    using ok p unfolding json_law_def by fastforce
  have auth: "length ?a = 37" "take 32 ?a = wb_sha256 W rp_id" "?a ! 32 = test_flags up uv extra"
    using ok by (simp_all add: nth_append)
  have sig: "verify_p256_low_s (wb_p256 W) (bt_pk b) (?a @ wb_sha256 W (wa_client_data_json (bt_assertion b)))
      (wa_signature (bt_assertion b)) \<longleftrightarrow> \<not> high_s" using ok by blast
  have inj: "b64 chal = b64 chal' \<longleftrightarrow> chal' = chal" using b64_inj by blast
  show ?thesis
    unfolding assertion_ok_def auth(2,3) test_flags_bits [OF e] sig parse option.inject client_data_ok_def
    by (simp add: inj auth(1), blast)
qed

text \<open>A built assertion, verified as the tests do.\<close>

lemma built_then:
  assumes "length chal < 2 ^ 63"
    and "\<And>b. built_ok W up uv high_s origin rp_id chal (case prov of Some p \<Rightarrow> p | None \<Rightarrow> SAME_ORIGIN) sign_count extra b \<Longrightarrow>
        runs (webauthn_ready W F) (k b) Q"
  shows "runs (webauthn_ready W F) (bind_s (build_full W F up uv high_s origin rp_id chal prov sign_count extra) k) Q"
  using assms by (auto intro: runs_bind [OF build_runs])

lemma verify_runs:
  assumes "length chal' < 2 ^ 63"
  shows "runs I (lift_s (verify_webauthn W a chal' pk origin' rp require_uv))
    (\<lambda>x. x = assertion_ok W a chal' pk origin' rp require_uv)"
  by (simp add: runs_def verify_webauthn_eq [OF assms])

lemma provenances:
  "(SAME_ORIGIN, Some False, None) \<in> set PROVENANCES" "(CROSS_ORIGIN, Some True, None) \<in> set PROVENANCES"
  "(CROSS_ORIGIN @ TOP_ORIGIN, Some True, Some (ascii ''https://evil.example'')) \<in> set PROVENANCES"
  "(SAME_ORIGIN @ TOP_ORIGIN, Some False, Some (ascii ''https://evil.example'')) \<in> set PROVENANCES"
  "(NO_ORIGIN, None, None) \<in> set PROVENANCES"
  by (simp_all add: PROVENANCES_def)

subsection \<open>The tests\<close>

definition verify_built :: "('r, 'ps, 'pv, 'pg) webauthn_backend \<Rightarrow> Built \<Rightarrow> bytes \<Rightarrow> str \<Rightarrow> bool \<Rightarrow> ('s, bool) st" where
  "verify_built W b chal origin require_uv =
     lift_s (verify_webauthn W (bt_assertion b) chal (bt_pk b) origin (bt_rp_id b) require_uv)"

definition rejects_cross_origin_assertion :: "('r, 'ps, 'pv, 'pg) webauthn_backend \<Rightarrow> 'pg sig_forms \<Rightarrow> ('r, unit) st" where
  "rejects_cross_origin_assertion W F =
     (let ch = ascii ''cross-origin-challenge'' in
      for_each [CROSS_ORIGIN, CROSS_ORIGIN @ TOP_ORIGIN] (\<lambda>provenance.
        bind_s (build_full W F True False False PORT_ORIGIN PORT_RP ch (Some provenance) 1 0) (\<lambda>b.
        bind_s (verify_built W b (bt_challenge b) (bt_origin b) False) (\<lambda>r. assert_t (\<not> r)))))"

definition rejects_top_origin_even_when_cross_origin_claims_false ::
    "('r, 'ps, 'pv, 'pg) webauthn_backend \<Rightarrow> 'pg sig_forms \<Rightarrow> ('r, unit) st" where
  "rejects_top_origin_even_when_cross_origin_claims_false W F =
     (let ch = ascii ''top-origin-challenge'' in
      bind_s (build_full W F True False False PORT_ORIGIN PORT_RP ch (Some (SAME_ORIGIN @ TOP_ORIGIN)) 1 0) (\<lambda>b.
      bind_s (verify_built W b (bt_challenge b) (bt_origin b) False) (\<lambda>r. assert_t (\<not> r))))"

definition accepts_same_origin_assertion_with_or_without_the_field ::
    "('r, 'ps, 'pv, 'pg) webauthn_backend \<Rightarrow> 'pg sig_forms \<Rightarrow> ('r, unit) st" where
  "accepts_same_origin_assertion_with_or_without_the_field W F =
     (let ch = ascii ''same-origin-challenge'' in
      for_each [SAME_ORIGIN, NO_ORIGIN] (\<lambda>provenance.
        bind_s (build_full W F True False False PORT_ORIGIN PORT_RP ch (Some provenance) 1 0) (\<lambda>b.
        bind_s (verify_built W b (bt_challenge b) (bt_origin b) False) assert_t)))"

definition surfaces_sign_count_and_backup_flags ::
    "('r, 'ps, 'pv, 'pg) webauthn_backend \<Rightarrow> 'pg sig_forms \<Rightarrow> ('r, unit) st" where
  "surfaces_sign_count_and_backup_flags W F =
     (let ch = ascii ''details-challenge'' in
      bind_s (build_full W F True True False PORT_ORIGIN PORT_RP ch None 42 (FLAG_BACKUP_ELIGIBLE OR FLAG_BACKUP_STATE)) (\<lambda>b.
      bind_s (lift_s (verify_webauthn_details W (bt_assertion b) (bt_challenge b) (bt_pk b) (bt_origin b) (bt_rp_id b) True)) (\<lambda>d.
      bind_s (expect (lift_s (ok_or VerificationFailed d))) (\<lambda>details.
      bind_s (assert_t (ad_sign_count details = 42)) (\<lambda>_.
      bind_s (assert_t (ad_user_present details)) (\<lambda>_.
      bind_s (assert_t (ad_user_verified details)) (\<lambda>_.
      bind_s (assert_t (ad_backup_eligible details)) (\<lambda>_.
      bind_s (assert_t (ad_backup_state details)) (\<lambda>_.
      bind_s (build_full W F True False False PORT_ORIGIN PORT_RP ch None 0 0) (\<lambda>plain.
      bind_s (lift_s (verify_webauthn_details W (bt_assertion plain) (bt_challenge plain) (bt_pk plain) (bt_origin plain)
          (bt_rp_id plain) False)) (\<lambda>d.
      bind_s (expect (lift_s (ok_or VerificationFailed d))) (\<lambda>details.
      bind_s (assert_t (ad_sign_count details = 0)) (\<lambda>_.
      bind_s (assert_t (\<not> ad_user_verified details)) (\<lambda>_.
      bind_s (assert_t (\<not> ad_backup_eligible details)) (\<lambda>_.
      assert_t (\<not> ad_backup_state details))))))))))))))))"

definition details_and_bool_agree_on_rejection ::
    "('r, 'ps, 'pv, 'pg) webauthn_backend \<Rightarrow> 'pg sig_forms \<Rightarrow> ('r, unit) st" where
  "details_and_bool_agree_on_rejection W F =
     (let ch = ascii ''agreement-challenge'' in
      bind_s (build_full W F True False False PORT_ORIGIN PORT_RP ch (Some CROSS_ORIGIN) 1 0) (\<lambda>b.
      bind_s (verify_built W b (bt_challenge b) (bt_origin b) False) (\<lambda>r. bind_s (assert_t (\<not> r)) (\<lambda>_.
      bind_s (lift_s (verify_webauthn_details W (bt_assertion b) (bt_challenge b) (bt_pk b) (bt_origin b) (bt_rp_id b) False)) (\<lambda>d.
      assert_t (d = None))))))"

definition uv_flag_gates_sensitive_operations :: "('r, 'ps, 'pv, 'pg) webauthn_backend \<Rightarrow> 'pg sig_forms \<Rightarrow> ('r, unit) st" where
  "uv_flag_gates_sensitive_operations W F =
     bind_s (build_flags W F True True False PORT_ORIGIN PORT_RP (ascii ''challenge-uv'')) (\<lambda>with_uv.
     bind_s (verify_uv W with_uv True) (\<lambda>r. bind_s (assert_t r) (\<lambda>_.
     bind_s (verify_uv W with_uv False) (\<lambda>r. bind_s (assert_t r) (\<lambda>_.
     bind_s (build_flags W F True False False PORT_ORIGIN PORT_RP (ascii ''challenge-uv'')) (\<lambda>up_only.
     bind_s (verify_uv W up_only True) (\<lambda>r. bind_s (assert_t (\<not> r)) (\<lambda>_.
     bind_s (verify_uv W up_only False) assert_t))))))))"

definition user_presence_is_always_required :: "('r, 'ps, 'pv, 'pg) webauthn_backend \<Rightarrow> 'pg sig_forms \<Rightarrow> ('r, unit) st" where
  "user_presence_is_always_required W F =
     for_each [False, True] (\<lambda>require_uv.
       bind_s (build_flags W F False True False PORT_ORIGIN PORT_RP (ascii ''c'')) (\<lambda>no_up.
       bind_s (verify_uv W no_up require_uv) (\<lambda>r. assert_t (\<not> r))))"

definition accepts_valid_assertion :: "('r, 'ps, 'pv, 'pg) webauthn_backend \<Rightarrow> 'pg sig_forms \<Rightarrow> ('r, unit) st" where
  "accepts_valid_assertion W F =
     bind_s (build W F True False PORT_ORIGIN PORT_RP (ascii ''challenge-bytes-123'')) (\<lambda>b.
     bind_s (test_verify W b) assert_t)"

definition rejects_wrong_challenge :: "('r, 'ps, 'pv, 'pg) webauthn_backend \<Rightarrow> 'pg sig_forms \<Rightarrow> ('r, unit) st" where
  "rejects_wrong_challenge W F =
     bind_s (build W F True False PORT_ORIGIN PORT_RP (ascii ''challenge-bytes-123'')) (\<lambda>b.
     bind_s (verify_built W b (ascii ''WRONG'') (bt_origin b) False) (\<lambda>r. assert_t (\<not> r)))"

definition rejects_wrong_origin :: "('r, 'ps, 'pv, 'pg) webauthn_backend \<Rightarrow> 'pg sig_forms \<Rightarrow> ('r, unit) st" where
  "rejects_wrong_origin W F =
     bind_s (build W F True False (ascii ''https://evil.example'') PORT_RP (ascii ''c'')) (\<lambda>b.
     bind_s (verify_built W b (bt_challenge b) PORT_ORIGIN False) (\<lambda>r. assert_t (\<not> r)))"

definition rejects_missing_user_presence :: "('r, 'ps, 'pv, 'pg) webauthn_backend \<Rightarrow> 'pg sig_forms \<Rightarrow> ('r, unit) st" where
  "rejects_missing_user_presence W F =
     bind_s (build W F False False PORT_ORIGIN PORT_RP (ascii ''c'')) (\<lambda>b.
     bind_s (test_verify W b) (\<lambda>r. assert_t (\<not> r)))"

definition rejects_high_s :: "('r, 'ps, 'pv, 'pg) webauthn_backend \<Rightarrow> 'pg sig_forms \<Rightarrow> ('r, unit) st" where
  "rejects_high_s W F =
     bind_s (build W F True True PORT_ORIGIN PORT_RP (ascii ''c'')) (\<lambda>b.
     bind_s (test_verify W b) (\<lambda>r. assert_t (\<not> r)))"

text \<open>\<open>str::replace\<close>: every occurrence from the left, not overlapping.\<close>

function str_replace :: "str \<Rightarrow> str \<Rightarrow> str \<Rightarrow> str" where
  "str_replace pat to s =
     (if pat = [] then s
      else case s of [] \<Rightarrow> []
        | c # cs \<Rightarrow> if take (length pat) s = pat then to @ str_replace pat to (drop (length pat) s)
                   else c # str_replace pat to cs)"
  by pat_completeness auto
termination by (relation "measure (\<lambda>(pat, to, s). length s)") auto

declare str_replace.simps [simp del]

definition rejects_wrong_type :: "('r, 'ps, 'pv, 'pg) webauthn_backend \<Rightarrow> 'pg sig_forms \<Rightarrow> ('r, unit) st" where
  "rejects_wrong_type W F =
     bind_s (build W F True False PORT_ORIGIN PORT_RP (ascii ''c'')) (\<lambda>b.
     bind_s (expect (lift_s (ok_or (InvalidInput ''utf8'') (from_utf8 (wa_client_data_json (bt_assertion b)))))) (\<lambda>text.
     let bad = str_replace (ascii ''webauthn.get'') (ascii ''webauthn.create'') text;
         b = b\<lparr>bt_assertion := (bt_assertion b)\<lparr>wa_client_data_json := bad\<rparr>\<rparr> in
     bind_s (test_verify W b) (\<lambda>r. assert_t (\<not> r))))"

subsection \<open>They pass\<close>

lemma verify_built_runs:
  assumes "built_ok W up uv high_s origin rp_id chal prov sign_count extra b" "(prov, cross, tp) \<in> set PROVENANCES"
    and "origin \<in> {PORT_ORIGIN, ascii ''https://evil.example''}" "extra \<in> {0, FLAG_BACKUP_ELIGIBLE OR FLAG_BACKUP_STATE}"
    and "length chal' < 2 ^ 63"
  shows "runs I (verify_built W b chal' origin' require_uv) (\<lambda>x. x \<longleftrightarrow> chal' = chal \<and> origin' = origin
     \<and> cross \<noteq> Some True \<and> tp = None \<and> up \<and> (require_uv \<longrightarrow> uv) \<and> \<not> high_s)"
proof -
  have "bt_rp_id b = rp_id" using assms(1) by (simp add: built_ok_def)
  then show ?thesis
    using verify_runs [OF assms(5), of I W "bt_assertion b" "bt_pk b" origin' rp_id require_uv] built_verdict [OF assms(1-4)]
    by (simp add: verify_built_def)
qed

lemma details_runs:
  assumes "built_ok W True uv False PORT_ORIGIN rp_id chal SAME_ORIGIN sign_count extra b"
    and "extra \<in> {0, FLAG_BACKUP_ELIGIBLE OR FLAG_BACKUP_STATE}" "length chal < 2 ^ 63" "require_uv \<longrightarrow> uv"
  shows "verify_webauthn_details W (bt_assertion b) (bt_challenge b) (bt_pk b) (bt_origin b) (bt_rp_id b) require_uv =
     Ok (Some \<lparr>ad_sign_count = sign_count, ad_user_present = True, ad_user_verified = uv,
               ad_backup_eligible = (extra \<noteq> 0), ad_backup_state = (extra \<noteq> 0)\<rparr>)"
proof -
  note ok = assms(1) [unfolded built_ok_def]
  have "assertion_ok W (bt_assertion b) chal (bt_pk b) PORT_ORIGIN rp_id require_uv"
    using built_verdict [OF assms(1) provenances(1)] assms(2,4) by simp
  moreover have "details_of (wa_authenticator_data (bt_assertion b)) = \<lparr>ad_sign_count = sign_count, ad_user_present = True,
      ad_user_verified = uv, ad_backup_eligible = (extra \<noteq> 0), ad_backup_state = (extra \<noteq> 0)\<rparr>"
    using ok test_flags_bits [OF assms(2), of True uv] by (simp add: details_of_def nth_append)
  ultimately show ?thesis using ok by (simp add: details_eq [OF assms(3)])
qed

lemma builtD:
  assumes "built_ok W up uv high_s origin rp_id chal prov sign_count extra b"
  shows "bt_challenge b = chal" "bt_origin b = origin" "bt_rp_id b = rp_id"
  using assms by (simp_all add: built_ok_def)

text \<open>A test that builds one assertion and asserts the verdict on it.\<close>

lemma own_verdict_passes:
  assumes "length chal < 2 ^ 63" "(case prov of Some p \<Rightarrow> p | None \<Rightarrow> SAME_ORIGIN, cross, tp) \<in> set PROVENANCES"
    and "origin \<in> {PORT_ORIGIN, ascii ''https://evil.example''}"
    and "P (cross \<noteq> Some True \<and> tp = None \<and> up \<and> (require_uv \<longrightarrow> uv) \<and> \<not> high_s)"
  shows "passes (webauthn_ready W F) (bind_s (build_full W F up uv high_s origin rp_id chal prov sign_count 0) (\<lambda>b.
     bind_s (verify_built W b (bt_challenge b) (bt_origin b) require_uv) (\<lambda>r. assert_t (P r))))"
proof (rule built_then [OF assms(1)])
  fix b assume b: "built_ok W up uv high_s origin rp_id chal (case prov of Some p \<Rightarrow> p | None \<Rightarrow> SAME_ORIGIN) sign_count 0 b"
  show "passes (webauthn_ready W F) (bind_s (verify_built W b (bt_challenge b) (bt_origin b) require_uv) (\<lambda>r. assert_t (P r)))"
    unfolding builtD [OF b]
    by (rule runs_verdict [OF verify_built_runs [OF b assms(2,3) _ assms(1)]]) (use assms(4) in simp_all)
qed

lemma port_origin: "PORT_ORIGIN \<in> {PORT_ORIGIN, ascii ''https://evil.example''}" by simp

lemma origin_tests_pass:
  "passes (webauthn_ready W F) (rejects_cross_origin_assertion W F)"
  "passes (webauthn_ready W F) (rejects_top_origin_even_when_cross_origin_claims_false W F)"
  "passes (webauthn_ready W F) (accepts_same_origin_assertion_with_or_without_the_field W F)"
proof -
  note go = own_verdict_passes [where prov = "Some p" for p, OF _ _ port_origin, unfolded option.case]
  show "passes (webauthn_ready W F) (rejects_cross_origin_assertion W F)"
    unfolding rejects_cross_origin_assertion_def Let_def
  proof (rule runs_for_each)
    fix p assume "p \<in> set [CROSS_ORIGIN, CROSS_ORIGIN @ TOP_ORIGIN]"
    then obtain tp where "(p, Some True, tp) \<in> set PROVENANCES" using provenances(2,3) by auto
    then show "passes (webauthn_ready W F) (bind_s (build_full W F True False False PORT_ORIGIN PORT_RP
        (ascii ''cross-origin-challenge'') (Some p) 1 0) (\<lambda>b.
        bind_s (verify_built W b (bt_challenge b) (bt_origin b) False) (\<lambda>r. assert_t (\<not> r))))"
      by (rule go [rotated]) simp_all
  qed
  show "passes (webauthn_ready W F) (rejects_top_origin_even_when_cross_origin_claims_false W F)"
    unfolding rejects_top_origin_even_when_cross_origin_claims_false_def Let_def
    by (rule go [OF _ provenances(4)]) simp_all
  show "passes (webauthn_ready W F) (accepts_same_origin_assertion_with_or_without_the_field W F)"
    unfolding accepts_same_origin_assertion_with_or_without_the_field_def Let_def
  proof (rule runs_for_each)
    fix p assume "p \<in> set [SAME_ORIGIN, NO_ORIGIN]"
    then obtain cr where "(p, cr, None) \<in> set PROVENANCES" "cr \<noteq> Some True" using provenances(1,5) by auto
    then show "passes (webauthn_ready W F) (bind_s (build_full W F True False False PORT_ORIGIN PORT_RP
        (ascii ''same-origin-challenge'') (Some p) 1 0) (\<lambda>b.
        bind_s (verify_built W b (bt_challenge b) (bt_origin b) False) assert_t))"
      by (intro go [rotated, where P = "\<lambda>r. r"]) simp_all
  qed
qed

lemma verify_uv_built: "verify_uv W b require_uv = verify_built W b (bt_challenge b) (bt_origin b) require_uv"
  by (simp add: verify_uv_def verify_built_def)

lemmas one_built = own_verdict_passes [where prov = None, OF _ _ port_origin, unfolded option.case, OF _ provenances(1)]

lemma presence_tests_pass:
  "passes (webauthn_ready W F) (user_presence_is_always_required W F)"
  "passes (webauthn_ready W F) (accepts_valid_assertion W F)"
  "passes (webauthn_ready W F) (rejects_missing_user_presence W F)"
  "passes (webauthn_ready W F) (rejects_high_s W F)"
  unfolding user_presence_is_always_required_def accepts_valid_assertion_def rejects_missing_user_presence_def
    rejects_high_s_def test_verify_def verify_uv_built build_def build_flags_def
  by (intro runs_for_each one_built one_built [where P = "\<lambda>r. r"]; simp)+

lemma wrong_expectation_passes:
  "passes (webauthn_ready W F) (rejects_wrong_challenge W F)" "passes (webauthn_ready W F) (rejects_wrong_origin W F)"
proof -
  have ne: "ascii ''WRONG'' \<noteq> ascii ''challenge-bytes-123''" "PORT_ORIGIN \<noteq> ascii ''https://evil.example''"
    by (simp_all add: ascii_def)
  show "passes (webauthn_ready W F) (rejects_wrong_challenge W F)"
    unfolding rejects_wrong_challenge_def build_def build_flags_def
  proof (rule built_then, simp)
    fix b assume b: "built_ok W True False False PORT_ORIGIN PORT_RP (ascii ''challenge-bytes-123'')
        (case None of Some p \<Rightarrow> p | None \<Rightarrow> SAME_ORIGIN) 1 0 b"
    show "passes (webauthn_ready W F) (bind_s (verify_built W b (ascii ''WRONG'') (bt_origin b) False) (\<lambda>r. assert_t (\<not> r)))"
      unfolding builtD [OF b]
      by (rule runs_verdict [OF verify_built_runs [OF b [unfolded option.case] provenances(1)]]) (simp_all add: ne)
  qed
  show "passes (webauthn_ready W F) (rejects_wrong_origin W F)"
    unfolding rejects_wrong_origin_def build_def build_flags_def
  proof (rule built_then, simp)
    fix b assume b: "built_ok W True False False (ascii ''https://evil.example'') PORT_RP (ascii ''c'')
        (case None of Some p \<Rightarrow> p | None \<Rightarrow> SAME_ORIGIN) 1 0 b"
    show "passes (webauthn_ready W F) (bind_s (verify_built W b (bt_challenge b) PORT_ORIGIN False) (\<lambda>r. assert_t (\<not> r)))"
      unfolding builtD [OF b]
      by (rule runs_verdict [OF verify_built_runs [OF b [unfolded option.case] provenances(1)]]) (simp_all add: ne)
  qed
qed

lemma user_verification_passes: "passes (webauthn_ready W F) (uv_flag_gates_sensitive_operations W F)"
proof -
  have v: "runs (webauthn_ready W F) (verify_built W b (bt_challenge b) (bt_origin b) r) (\<lambda>x. x \<longleftrightarrow> (r \<longrightarrow> uv))"
    if b: "built_ok W True uv False PORT_ORIGIN PORT_RP (ascii ''challenge-uv'') (case None of Some p \<Rightarrow> p | None \<Rightarrow> SAME_ORIGIN) 1 0 b"
    for uv b r
    using verify_built_runs [OF b [unfolded option.case] provenances(1), of "ascii ''challenge-uv''" "webauthn_ready W F" PORT_ORIGIN r]
    by (simp add: builtD [OF b])
  show ?thesis
    unfolding uv_flag_gates_sensitive_operations_def build_flags_def verify_uv_built
  proof (rule built_then, simp)
    fix b assume b: "built_ok W True True False PORT_ORIGIN PORT_RP (ascii ''challenge-uv'')
        (case None of Some p \<Rightarrow> p | None \<Rightarrow> SAME_ORIGIN) 1 0 b"
    have last: "passes (webauthn_ready W F) (bind_s (build_full W F True False False PORT_ORIGIN PORT_RP (ascii ''challenge-uv'') None 1 0)
        (\<lambda>u. bind_s (verify_built W u (bt_challenge u) (bt_origin u) True) (\<lambda>r. bind_s (assert_t (\<not> r)) (\<lambda>_.
         bind_s (verify_built W u (bt_challenge u) (bt_origin u) False) assert_t))))"
      by (rule built_then, simp, rule runs_checked [OF v], assumption, simp, rule runs_bind [OF v], assumption) (simp add: runs_assert)
    show "passes (webauthn_ready W F)
      (bind_s (verify_built W b (bt_challenge b) (bt_origin b) True) (\<lambda>r. bind_s (assert_t r) (\<lambda>_.
       bind_s (verify_built W b (bt_challenge b) (bt_origin b) False) (\<lambda>r. bind_s (assert_t r) (\<lambda>_.
       bind_s (build_full W F True False False PORT_ORIGIN PORT_RP (ascii ''challenge-uv'') None 1 0)
        (\<lambda>u. bind_s (verify_built W u (bt_challenge u) (bt_origin u) True) (\<lambda>r. bind_s (assert_t (\<not> r)) (\<lambda>_.
         bind_s (verify_built W u (bt_challenge u) (bt_origin u) False) assert_t))))))))"
      by (intro runs_checked [OF v [OF b], where Q = "\<lambda>r. r"] last) simp_all
  qed
qed

lemma details_tests_pass:
  "passes (webauthn_ready W F) (surfaces_sign_count_and_backup_flags W F)"
  "passes (webauthn_ready W F) (details_and_bool_agree_on_rejection W F)"
proof -
  let ?ch = "ascii ''details-challenge''"
  have extra: "FLAG_BACKUP_ELIGIBLE OR FLAG_BACKUP_STATE \<noteq> 0" by (simp add: FLAG_BACKUP_ELIGIBLE_def FLAG_BACKUP_STATE_def)
  have two: "passes (webauthn_ready W F) (bind_s (build_full W F True False False PORT_ORIGIN PORT_RP ?ch None 0 0) (\<lambda>plain.
      bind_s (lift_s (verify_webauthn_details W (bt_assertion plain) (bt_challenge plain) (bt_pk plain) (bt_origin plain)
          (bt_rp_id plain) False)) (\<lambda>d.
      bind_s (expect (lift_s (ok_or VerificationFailed d))) (\<lambda>details.
      bind_s (assert_t (ad_sign_count details = 0)) (\<lambda>_.
      bind_s (assert_t (\<not> ad_user_verified details)) (\<lambda>_.
      bind_s (assert_t (\<not> ad_backup_eligible details)) (\<lambda>_.
      assert_t (\<not> ad_backup_state details))))))))"
    by (rule built_then, simp, subst details_runs, unfold option.case, assumption)
      (simp_all add: runs_def bind_s_def expect_def assert_t_def)
  have step: "bind_s (lift_s (Ok (Some d))) (\<lambda>d. bind_s (expect (lift_s (ok_or VerificationFailed d))) k) = k d"
    for d :: AssertionDetails and k :: "AssertionDetails \<Rightarrow> ('a, unit) st"
    by (simp add: bind_s_def expect_def fun_eq_iff)
  show "passes (webauthn_ready W F) (surfaces_sign_count_and_backup_flags W F)"
    unfolding surfaces_sign_count_and_backup_flags_def Let_def
    by (rule built_then, simp, subst details_runs, unfold option.case, assumption)
      (simp_all add: extra step, intro runs_assert_then two, simp_all)
  show "passes (webauthn_ready W F) (details_and_bool_agree_on_rejection W F)"
    unfolding details_and_bool_agree_on_rejection_def Let_def
  proof (rule built_then, simp)
    fix b assume b: "built_ok W True False False PORT_ORIGIN PORT_RP (ascii ''agreement-challenge'')
        (case Some CROSS_ORIGIN of Some p \<Rightarrow> p | None \<Rightarrow> SAME_ORIGIN) 1 0 b"
    note b' = b [unfolded option.case]
    have "\<not> assertion_ok W (bt_assertion b) (ascii ''agreement-challenge'') (bt_pk b) PORT_ORIGIN PORT_RP False"
      using built_verdict [OF b' provenances(2)] by simp
    then show "passes (webauthn_ready W F) (bind_s (verify_built W b (bt_challenge b) (bt_origin b) False) (\<lambda>r.
       bind_s (assert_t (\<not> r)) (\<lambda>_.
       bind_s (lift_s (verify_webauthn_details W (bt_assertion b) (bt_challenge b) (bt_pk b) (bt_origin b) (bt_rp_id b) False)) (\<lambda>d.
       assert_t (d = None)))))"
      unfolding builtD [OF b] verify_built_def
      by (simp add: runs_def verify_webauthn_eq details_eq bind_s_def assert_t_def)
  qed
qed

text \<open>The text with its type replaced is the client data of a registration.\<close>

lemma replaced_type:
  "str_replace (ascii ''webauthn.get'') (ascii ''webauthn.create'')
      (client_json (ascii ''webauthn.get'') (b64 (ascii ''c'')) PORT_ORIGIN SAME_ORIGIN)
    = client_json (ascii ''webauthn.create'') (b64 (ascii ''c'')) PORT_ORIGIN SAME_ORIGIN"
  by code_simp

lemma wrong_type_passes: "passes (webauthn_ready W F) (rejects_wrong_type W F)"
  unfolding rejects_wrong_type_def build_def build_flags_def Let_def
proof (rule built_then, simp)
  let ?json = "client_json (ascii ''webauthn.get'') (b64 (ascii ''c'')) PORT_ORIGIN SAME_ORIGIN"
    and ?bad = "client_json (ascii ''webauthn.create'') (b64 (ascii ''c'')) PORT_ORIGIN SAME_ORIGIN"
  fix b assume b: "built_ok W True False False PORT_ORIGIN PORT_RP (ascii ''c'') (case None of Some p \<Rightarrow> p | None \<Rightarrow> SAME_ORIGIN) 1 0 b"
  have j: "wa_client_data_json (bt_assertion b) = ?json" and law: "json_law W" using b by (simp_all add: built_ok_def)
  have "list_all (\<lambda>b. unat b < 128) ?json" by code_simp
  from from_utf8_ascii [OF this] have u: "from_utf8 ?json = Some ?json" .
  have "wb_parse W ?bad = Some \<lparr>cd_typ = ascii ''webauthn.create'', cd_challenge = b64 (ascii ''c''), cd_origin = PORT_ORIGIN,
      cd_cross_origin = Some False, cd_top_origin = None\<rparr>"
    using law provenances(1) unfolding json_law_def by fastforce
  moreover have "ascii ''webauthn.create'' \<noteq> ascii ''webauthn.get''" by (simp add: ascii_def)
  ultimately have "\<not> assertion_ok W ((bt_assertion b)\<lparr>wa_client_data_json := ?bad\<rparr>) (ascii ''c'') (bt_pk b) PORT_ORIGIN PORT_RP False"
    by (simp add: assertion_ok_def client_data_ok_def)
  then show "passes (webauthn_ready W F)
     (bind_s (expect (lift_s (ok_or (InvalidInput ''utf8'') (from_utf8 (wa_client_data_json (bt_assertion b)))))) (\<lambda>text.
      bind_s (test_verify W (b\<lparr>bt_assertion := (bt_assertion b)\<lparr>wa_client_data_json :=
         str_replace (ascii ''webauthn.get'') (ascii ''webauthn.create'') text\<rparr>\<rparr>)) (\<lambda>r. assert_t (\<not> r))))"
    unfolding j u test_verify_def verify_uv_def
    by (simp add: runs_def bind_s_def expect_def assert_t_def replaced_type builtD [OF b] verify_webauthn_eq)
qed

end
