(* ===== verification/Phi_Tests_All.thy ===== *)
theory Phi_Tests_All
  imports Phi_Tests_Export Phi_Tests_Keys Phi_Tests_Webauthn
begin

section \<open>The tests run together\<close>

text \<open>
  The tests of \<open>bbs.rs\<close>, \<open>voting_snark.rs\<close> and \<open>ffi.rs\<close> share the process's parameter cache and
  generator. The harness promises no order, so the claim is that the tests pass in every order,
  from every consistent state of the cache, and leave the cache in such a state. \<open>law_suite\<close>
  holds tests which need the laws of the backend and nothing else. A test that casts a ballot unwraps the
  prover's refusals of degenerate values, so those of \<open>ballot_suite\<close> pass under \<open>no_degenerate\<close> as
  well, an assumption on the drawn values and not a law. The other tests pass under
  hypotheses of their own (no collision, no forgery, the pinned value of a vector), each stated in
  the lemma about that test.
\<close>

definition law_suite ::
    "('p, 'r, 'f::comm_ring_1, 'sk, 'pk, 'sg, 'pok, 'pf, 'g::ab_group_add) vote_backend \<Rightarrow>
     (('p, 'r) suite_state, unit) st list" where
  "law_suite V =
     [transcript_is_domain_separated, transcript_field_boundaries_are_unambiguous,
      sign_derive_verify_roundtrip (vb_bbs V), rejects_duplicate_revealed_index (vb_bbs V),
      rejects_out_of_range_revealed_index (vb_bbs V), accepts_a_well_formed_fully_revealed_proof (vb_bbs V),
      deser_rejects_trailing_bytes (vb_bbs V), rejects_degenerate_message_count_in_o1 (vb_bbs V),
      keygen_sign_proof_reject_degenerate_message_count (vb_bbs V), rejects_more_revealed_than_message_count,
      blinded_mul_equals_the_reference_multiply V, blinded_mul_is_deterministic_in_its_result V,
      transcript_binds_the_issuer_key (bk_sha256 (vb_bbs V)), transcript_binds_the_message_count (bk_sha256 (vb_bbs V)),
      vote_transcript_field_boundaries_are_unambiguous (bk_sha256 (vb_bbs V)),
      revealing_the_voter_secret_is_refused V, malformed_inputs_fail_closed V,
      decode_revealed_accepts_the_canonical_encoding, decode_revealed_rejects_trailing_bytes,
      decode_revealed_rejects_an_over_large_count, decode_revealed_rejects_duplicate_and_unsorted_indices,
      decode_revealed_accepts_exactly_one_encoding_per_set, decode_revealed_rejects_truncation,
      guard_converts_a_panic_into_the_fail_closed_value, guard_passes_a_successful_result_through,
      ffi_bbs_verify_rejects_hostile_message_count (vb_bbs V),
      moves_the_value_out_unchanged, leaves_the_wrapper_empty]"

definition ballot_suite ::
    "('p, 'r, 'f::comm_ring_1, 'sk, 'pk, 'sg, 'pok, 'pf, 'g::ab_group_add) vote_backend \<Rightarrow>
     (('p, 'r) suite_state, unit) st list" where
  "ballot_suite V =
     [roundtrip_valid_proof_verifies V, witness_equality_response_binding_kat V,
      non_canonical_padded_nullifier_is_rejected V, vote_proof_rejects_unsorted_and_duplicate_revealed_indices V,
      valid_proof_accepts_roundtrip V, tampered_nullifier_rejected V, wrong_length_nullifier_rejected V,
      malformed_and_truncated_proof_rejected V, null_pointers_rejected V]"

lemma runs_suite_start:
  assumes "runs (suite_ok (vb_bbs V)) m Q"
  shows "runs (vote_start V) m Q"
  using assms unfolding runs_def vote_start_def by blast

lemmas bbs_tests_pass = roundtrip_passes duplicate_index_passes out_of_range_index_passes fully_revealed_passes
  trailing_passes degenerate_count_passes keygen_degenerate_passes

lemma law_suite_passes: "t \<in> set (law_suite V) \<Longrightarrow> passes (vote_start V) t"
  unfolding law_suite_def
  by (auto simp only: list.set insert_iff empty_iff disj_assoc
      intro: transcript_tests_pass more_revealed_passes decode_tests_pass guard_tests_pass secret_tests_pass
        vote_transcript_tests_pass bbs_tests_pass [THEN runs_vote_start] hostile_count_passes [THEN runs_suite_start]
        blinded_tests_pass revealing_refused_passes malformed_passes)

lemma ballot_suite_passes: "t \<in> set (ballot_suite V) \<Longrightarrow> passes (vote_ready V) t"
  unfolding ballot_suite_def
  by (auto simp only: list.set insert_iff empty_iff disj_assoc
      intro: roundtrip_ballot_passes witness_equality_passes padded_nullifier_passes unsorted_passes
        valid_proof_passes wrong_nullifier_passes malformed_export_passes null_pointers_pass)

text \<open>With no degenerate value, both suites pass in every order.\<close>

lemma all_tests_pass:
  assumes "vote_ready V s" "set order \<subseteq> set (law_suite V) \<union> set (ballot_suite V)"
  shows "\<exists>s'. for_each order id s = (Ok (), s') \<and> vote_ready V s'"
proof -
  have "passes (vote_ready V) t" if "t \<in> set (law_suite V @ ballot_suite V)" for t
    using that runs_ready [OF law_suite_passes] ballot_suite_passes by auto
  then have "passes (vote_ready V) (for_each order id)"
    using assms(2) by (intro all_orders [where tests = "law_suite V @ ballot_suite V"]) auto
  from runsD [OF this assms(1)] show ?thesis by auto
qed

text \<open>A backend where no value is degenerate: the hypotheses of that lemma can hold.\<close>

definition test_vote ::
    "(u32, byte, byte, byte, byte, byte, byte \<times> byte \<times> byte \<times> byte, byte \<times> byte \<times> byte, byte) vote_backend" where
  "test_vote = sample_vote\<lparr>vb_bbs := vote_bbs\<lparr>bk_from_le_bytes_mod_order := \<lambda>b. 1\<rparr>,
     vb_hasher_new := \<lambda>dst. Some (\<lambda>tag. Some 1)\<rparr>"

lemma test_vote_ready: "vote_ready test_vote (fresh_state seed)"
proof -
  have laws: "backend_laws (vb_bbs test_vote)" "response_law (vb_bbs test_vote)"
    using vote_bbs_laws by (simp_all add: test_vote_def backend_laws_def sign_law_def pok_law_def response_law_def)
  have vote: "vote_law test_vote"
    using laws sample_vote_law by (simp add: vote_law_def test_vote_def)
  have s: "suite_ok (vb_bbs test_vote) (fresh_state seed)"
    using sample_vote_ok [of seed] by (simp add: test_vote_def sample_vote_def suite_ok_def params_law_def fresh_state_def)
  have o: "bk_oracle (vb_bbs test_vote) t \<noteq> 0" for t using vote_bbs_oracle by (simp add: test_vote_def)
  have codecs: "bk_pf_codec (vb_bbs test_vote) = triple_codec" "bk_pk_codec (vb_bbs test_vote) = byte_codec"
      "vb_dl_codec test_vote = dl_sample_codec"
    by (simp_all add: test_vote_def sample_vote_def vote_bbs_def sum_backend_def)
  have c: "fits32 e" if "serialize_compressed triple_codec x = Some e" for x e
    using that by (auto simp: triple_codec_def fits32_def split: prod.splits)
  have d: "fits32 e" if "serialize_compressed byte_codec x = Some e" for x e using that by (auto simp: byte_codec_def fits32_def)
  have f: "fits32 e" if "serialize_compressed dl_sample_codec x = Some e" for x e
    using that by (auto simp: dl_sample_codec_def fits32_def)
  have h: "vb_mul test_vote h (claim_to_fr (vb_bbs test_vote) x) \<noteq> 0" if "hash_to_g1 test_vote el = Ok h" for h x el
    using that by (auto simp: test_vote_def sample_vote_def hash_to_g1_def claim_to_fr_def Let_def)
  show ?thesis
    unfolding vote_ready_def vote_tests_ok_def no_degenerate_def codecs using vote s o c d f h by blast
qed

lemma test_vote_passes: "\<exists>s'. for_each (ballot_suite test_vote @ law_suite test_vote) id (fresh_state 3) = (Ok (), s')"
  using all_tests_pass [OF test_vote_ready, of "ballot_suite test_vote @ law_suite test_vote" 3] by auto

subsection \<open>Claims\<close>

text \<open>C28: tests that need no more than the laws of the backend pass in every order. From every
  consistent state of the parameter cache and the generator, any selection of the tests of
  \<open>law_suite\<close>, in any order and with any repetition, runs to its end (no assertion fails, nothing
  panics) and leaves a consistent state.\<close>

theorem unit_tests_pass:
  assumes "vote_law V" "suite_ok (vb_bbs V) s" "set order \<subseteq> set (law_suite V)"
  shows "\<exists>s'. for_each order id s = (Ok (), s') \<and> suite_ok (vb_bbs V) s'"
proof -
  have "passes (vote_start V) (for_each order id)" using assms(3) law_suite_passes by (intro all_orders) auto
  from runsD [OF this] assms(1,2) show ?thesis by (auto simp: vote_start_def)
qed

theorem unit_tests_pass_witness:
  "\<exists>s'. for_each (rev (law_suite sample_vote) @ law_suite sample_vote) id (fresh_state 3) = (Ok (), s')"
  using unit_tests_pass [OF sample_vote_law sample_vote_ok, of "rev (law_suite sample_vote) @ law_suite sample_vote" 3] by auto

end
