(* ===== verification/Spec2Isabelle.thy ===== *)
theory Spec2Isabelle
  imports Phi_Bound_Once Phi_Pool Phi_Surfaces Phi_Base64 Phi_Bridge_Props Phi_Fuzz Phi_Examples Phi_Hash_Sites Phi_Seed_Bip32
    Phi_Tests_All
begin

text \<open>
  \<^bold>\<open>phi-crypto: a verification development.\<close>

  \<^bold>\<open>The program.\<close> The crate \<open>phi-crypto\<close> (\<open>src/src\<close>) is the cryptographic core of the Phi network:
  DID keys and signatures (\<open>did.rs\<close>, \<open>seed.rs\<close>), WebAuthn assertions (\<open>webauthn.rs\<close>), two
  selective-disclosure suites (\<open>bbs.rs\<close>, \<open>bbs_2023.rs\<close>), anonymous voting (\<open>voting.rs\<close>,
  \<open>semaphore.rs\<close>, \<open>voting_snark.rs\<close>), and three boundaries over them: the C ABI of the chain node
  (\<open>ffi.rs\<close>), the browser (\<open>wasm.rs\<close>) and the mobile app (\<open>bindings/flutter/rust/src/api.rs\<close>,
  called by messages through \<open>frb_generated.rs\<close>).
  Issuers sign claims, holders derive proofs that disclose some of them, voters derive
  nullifiers and vote proofs, and verifiers at the boundaries accept or refuse byte strings.

  \<^bold>\<open>Conventions.\<close> A Rust function is one definition; \<open>Result\<close> is \<open>(value, error) result\<close> with a third
  outcome \<open>Panic\<close>, so that the absence of panics is a theorem; \<open>?\<close> is \<open>bind_r\<close>, or \<open>bind_s\<close> where state
  is threaded (the parameter cache and the random generator). \<open>u8\<close>, \<open>u32\<close>, \<open>u64\<close> and \<open>i32\<close> are words;
  \<open>usize\<close> is a natural number with the 64-bit bound written at every checked addition; a slice
  is shorter than \<open>2 ^ 64\<close> bytes (\<open>fits64\<close>), and where a length is cast to \<open>u32\<close> the cast is
  written out and the theorems carry \<open>fits32\<close>. All functions are total and execute.

  \<^bold>\<open>Parameters.\<close> The curves and pairings are not part of the crate. Each is a record of the
  operations the crate calls, with the documented behaviour as a named law: \<open>bbs_backend\<close> with
  \<open>backend_laws\<close> (a signature verifies; a proof of knowledge of a signature, its commitment and
  its verifier agree), \<open>vote_backend\<close> with \<open>vote_law\<close> (scalar multiplication, 48-byte points, Schnorr
  responses), \<open>irtf_backend\<close> with \<open>irtf_law\<close>, \<open>curves\<close> with \<open>curves_law\<close>, \<open>seed_backend\<close>,
  \<open>webauthn_backend\<close>. The laws are satisfiable: small evaluating backends (\<open>sum_backend\<close>,
  \<open>sample_vote\<close>, \<open>bit_vote\<close>, \<open>test_vote\<close>, \<open>sample_irtf\<close>, \<open>sample_curves\<close>) keep them, and every theorem with a hypothesis is
  applied to one. A hash function is an argument of what calls it; for SHA-256 the vendored code is
  modelled (\<open>Phi_Sha256\<close>, \<open>Phi_Hasher\<close>), and \<open>Phi_Hash_Sites\<close> puts it where voting, DIDs, claims and
  WebAuthn assertions hash. The hashing inside a backend (hash to curve, the Blake2b challenge) is a parameter.
  Executed, these definitions give the known answers of the tests \<open>nullifier_known_answer\<close> and
  \<open>bip39_seed_matches_the_official_vector\<close>.
  No theorem assumes that a hash is injective: a binding theorem says that equal digests have
  equal contents or exhibits the colliding pair.

  \<^bold>\<open>The theories, in the order of the imports.\<close>
  \<^item> \<open>Phi_Prelude\<close>: outcomes, slices, arrays, big-endian integers, ordered sets; the collections
    \<open>outcome_simps\<close> and \<open>framing_simps\<close>.
  \<^item> \<open>Phi_Error\<close> (\<open>error.rs\<close>, \<open>secret.rs\<close>): errors, codes, texts; the hand-off of a secret.
  \<^item> \<open>Phi_Framing\<close>, \<open>Phi_Codec\<close>: interfaces. \<open>framing\<close> (injective hash inputs bind up to a
    collision), \<open>prefix_framing\<close> (length prefixes), \<open>canonical_codec\<close> (one encoding per value, no
    trailing or missing bytes).
  \<^item> \<open>Phi_Reader\<close>: the cursor of \<open>bbs.rs\<close>; the interfaces \<open>field_codec\<close> and \<open>entry_reader\<close>, where the
    loop over revealed entries is proved once for all three decoders.
  \<^item> \<open>Phi_Wire\<close>: \<open>SelectiveProof\<close>, \<open>to_bytes\<close>, \<open>from_bytes\<close>, an instance of \<open>canonical_codec\<close>.
  \<^item> \<open>Phi_State\<close>: state-threading operations, \<open>BTreeMap\<close>. \<open>Phi_Params\<close>: \<open>params_for\<close> and its global
    cache. \<open>Phi_Pool\<close>: the same calls made concurrently, with the mutex and its holder. A thread
    takes the lock to look, gives it back, derives, and takes it again to store; a thread that finds it held
    waits. Shown are mutual exclusion, the cache invariant over all interleavings, that the holder
    can always go on and gives the lock back in its next step (so a wait ends), and a rank that no
    step raises and every step of a call lowers, so that all calls return.
  \<^item> \<open>Phi_Suite\<close>: the interface \<open>crypto_suite\<close> of both suites. \<open>Phi_Bbs\<close>, \<open>Phi_Bbs_Correct\<close>,
    \<open>Phi_Bbs_Props\<close>: the phi-bbs-v1 suite, a declarative validity predicate, refinement and round
    trip. \<open>Phi_Bbs2023\<close>: the bbs-2023 suite. \<open>Phi_Cryptosuite\<close>: the trait, its two instances and the
    default suite.
  \<^item> \<open>Phi_Voting\<close>, \<open>Phi_Semaphore\<close>: nullifiers, tally, presentation headers. \<open>Phi_Bound_Once\<close>: what it
    takes that one presentation serves two elections, nullifiers or votes (\<open>rebinds\<close>: a named hash collision,
    or a proof the backend accepts under two challenges).
  \<^item> \<open>Phi_Text\<close>, \<open>Phi_Utf8\<close>, \<open>Phi_Base64\<close>: hexadecimal and base64 text and the constant-time comparison
    of the vendored crates, UTF-8 and trimming of the standard library.
  \<^item> \<open>Phi_Did\<close>, \<open>Phi_Seed\<close>, \<open>Phi_Webauthn\<close>: keys, DIDs, recovery, assertions.
  \<^item> \<open>Phi_Sha256\<close> (vendored \<open>sha2\<close>: both portable compression functions equal the function of the
    standard), \<open>Phi_Block_Buffer\<close> (vendored \<open>block-buffer\<close>; the interface \<open>block_consumer\<close> says what
    the buffer hands its consumer however the input is cut), \<open>Phi_Core_Wrapper\<close> (vendored \<open>digest\<close>; the
    interfaces \<open>hash_core\<close> and \<open>hasher\<close>: a core that hashes what it absorbed makes a hasher that
    hashes the concatenation of its updates), \<open>Phi_Hasher\<close> (its instance SHA-256),
    \<open>Phi_Hash_Sites\<close> (each use of \<open>Sha256\<close> in the crate's own code, as the sequence of updates
    written there).
  \<^item> \<open>Phi_Sha512\<close>, \<open>Phi_Hasher512\<close> (the same for SHA-512), \<open>Phi_Hmac\<close> (vendored \<open>hmac\<close>; the interface
    \<open>keyed_hash\<close>: HMAC over a \<open>hash_core\<close> is again one, and computes RFC 2104), \<open>Phi_Pbkdf2\<close> (vendored
    \<open>pbkdf2\<close>: RFC 8018 over any such core).
  \<^item> \<open>Phi_Bits\<close>, \<open>Phi_Wordlist\<close>, \<open>Phi_Bip39\<close> (vendored \<open>bip32\<close>, recovery phrases: the bit cursors, the 2048
    English words, encoding and checked decoding), \<open>Phi_Bip32\<close> (derivation paths and their text,
    extended keys along a path with their HMAC objects), \<open>Phi_Seed_Bip32\<close>: the functions of
    \<open>seed.rs\<close> over that code, from the words to the key.
  \<^item> \<open>Phi_Schnorr\<close> (vendored \<open>schnorr_pok\<close>), \<open>Phi_Vote\<close>, \<open>Phi_Vote_Codec\<close>, \<open>Phi_Vote_Correct\<close>,
    \<open>Phi_Vote_Props\<close>: the composed vote proof, its wire format, what its verifier decides, its
    completeness, the uniqueness of the nullifier and the binding of the challenge.
    \<open>Phi_Vote_Binding\<close>: of one discrete-log proof and nullifier, at most one issuer key, credential
    size, chain and signal is accepted in an election. It asks the group to have no torsion
    (\<open>order_law\<close>: a product is the identity only for the identity or the zero scalar), and the encodings to
    have sizes a \<open>u32\<close> can hold (\<open>size_law\<close>); the exceptions are named byte strings that collide.
  \<^item> \<open>Phi_Boundary\<close>: memory, slices, \<open>guard\<close>; the interface \<open>verifier_export\<close>. \<open>guard\<close> takes the panic strategy
    of the build: with \<open>Unwind\<close> (test builds) it turns a panic into the fail-closed value, with
    \<open>Abort\<close> (the release profile, and the fuzzer, which aborts in its panic hook) a panic stays a panic.
    The theorems hold for both, so that none of them rests on \<open>catch_unwind\<close>. \<open>Phi_Ffi\<close>,
    \<open>Phi_Ffi_Props\<close>: all exports of \<open>ffi.rs\<close>, each an instance of it. An access outside allocated
    memory is the outcome \<open>Undefined\<close>, excluded only by the safety contract of the source.
  \<^item> \<open>Phi_Bindings\<close>, \<open>Phi_Surfaces\<close>: the browser and mobile functions; the agreement of the three
    boundaries.
  \<^item> \<open>Phi_Sse\<close>, \<open>Phi_Bridge\<close>, \<open>Phi_Bridge_Props\<close>: the message bridge under the mobile functions
    (\<open>bindings/flutter/rust/src/frb_generated.rs\<close>). The interfaces \<open>sse_type\<close> and \<open>sse_codec\<close> say what a
    wire type promises and carry it to sequences; each handler refines the abstract call it is
    numbered for, and nothing but the encoding of a call reaches the library (up to the byte of a
    Boolean, where any value but 0 is read as true).
  \<^item> \<open>Phi_Fuzz\<close>, \<open>Phi_Examples\<close>: the fuzz target, where a panic of an export is a crash, and the
    example programs; neither can fail.
  \<^item> \<open>Phi_Test_Kit\<close>: the crate's unit tests as programs. A test passes when it runs to its end;
    \<open>runs\<close> is total correctness from every state with an invariant, and the interface \<open>presenting\<close>
    (interpreted for both suites) is what most tests begin with. \<open>Phi_Tests_Bbs\<close> (\<open>bbs.rs\<close> with its
    counted derivations, \<open>bbs_2023.rs\<close>), \<open>Phi_Tests_Vote\<close>, \<open>Phi_Tests_Binding\<close> (\<open>voting_snark.rs\<close>),
    \<open>Phi_Tests_Ffi\<close>, \<open>Phi_Tests_Boundary\<close>, \<open>Phi_Tests_Export\<close> (\<open>ffi.rs\<close>: the decoder, calls by pointer
    over a memory the test lays out, the vote export), \<open>Phi_Tests_Keys\<close> (\<open>did.rs\<close>, \<open>voting.rs\<close>,
    \<open>semaphore.rs\<close>, \<open>secret.rs\<close>), \<open>Phi_Tests_Webauthn\<close> (\<open>webauthn.rs\<close>), \<open>Phi_Tests_All\<close>: the tests that need
    only the laws of the backends (\<open>law_suite\<close>) pass in any order from any state. A test that casts a ballot unwraps the
    prover's refusals, so it is proved under \<open>no_degenerate\<close> (a challenge that is never zero, nullifiers
    that are not the identity), which is not a law and is not asked of \<open>law_suite\<close>. Every modelled test has all its
    assertions; where one asserts that digests differ, that a moved or forged value is refused or a pinned
    value, the lemma about it names what has to hold (no collision of its inputs, no second
    opening, no forgery, the pinned value); the tests of assertions, what the JSON parser reads from
    the texts they write (\<open>json_law\<close>).
  \<^item> This theory adds the runs that cross all boundaries.

  \<^bold>\<open>Bounds.\<close> No fuel is used: every loop is structural recursion over a list or a count, or has a
  termination measure (\<open>utf8_decode\<close>, the loops of the base64 encoder, the bit cursors, the chunks
  of a hash input, the digits of a path element). The claim count is at most
  64 (\<open>MAX_BBS_MESSAGES\<close>), as the code enforces. A message of the bridge is shorter than
  \<open>2 ^ 31\<close> bytes, the range of its length field; a fuzz input is below \<open>2 ^ 56\<close> bytes, where the
  harness's own products fit a \<open>usize\<close>. The SHA-256 theorems hold for inputs of every length: the
  64-bit bit count wraps in the hasher and in the reference padding alike, and agrees with the
  standard below \<open>2 ^ 61\<close> bytes (SHA-512: 128 bits). The number of PBKDF2 rounds is any \<open>u32\<close>.

  \<^bold>\<open>Not modelled.\<close> The arithmetic of curves and pairings, the Blake2b hash of the BBS suites,
  Unicode normalisation, the JSON parser, the operating system's random generator (parameters,
  see above); the processor-specific forms of the SHA compression functions; the base58 text of
  extended keys, which the crate does not use; timing and the wiping of memory beyond the hand-off of a secret; allocation failure; the thread pool and
  ports of the mobile bridge (a handler runs as one step, concurrency of the shared cache is
  the subject of \<open>Phi_Pool\<close>) and its unused DartCObject conversions; what the examples print;
  further tests that rest on the hardness of a problem or on the generator (forged and replayed proofs,
  unlinkability), pinned vectors of the curves and of Blake2b, the vectors of \<open>seed.rs\<close>, wall-clock time;
  the 32-bit \<open>usize\<close> of the browser build, whose lengths are below the bounds of the
  64-bit model.
\<close>

section \<open>Runs across all boundaries\<close>

text \<open>A byte string passed by pointer and length, within the safety contract.\<close>

definition passed_as :: "memory \<Rightarrow> u64 \<Rightarrow> usize \<Rightarrow> bytes \<Rightarrow> bool" where
  "passed_as mem ptr len b \<longleftrightarrow> valid_arg mem (ptr, len) \<and> view mem (ptr, len) = Some b"

lemma fl_issue:
  assumes "bbs_generate_keypair B n si = (Ok kp, si1)" "bbs_sign_credential B claims (held (bkp_secret kp)) si1 = (Ok sg, si2)"
  shows "fl_bbs_generate_keypair B n si = (Ok \<lparr>pbk_secret = held (bkp_secret kp), pbk_public = bkp_public kp\<rparr>, si1)
     \<and> fl_bbs_sign_credential B claims (held (bkp_secret kp)) si1 = (Ok sg, si2)"
  using assms by (simp add: fl_bbs_generate_keypair_def fl_bbs_sign_credential_def and_then_def with_err_def Let_def)

lemma wasm_derive:
  assumes "bbs_derive_proof B claims sg (map unat reveal) nonce sh = (Ok p, sh1)"
  shows "wasm_bbs_derive_proof B (map JsUint8Array claims) sg reveal nonce sh = (Ok (sp_to_bytes p), sh1)"
  using assms by (simp add: wasm_bbs_derive_proof_def and_then_def with_err_def Let_def)

lemma presented:
  assumes "backend_laws B" "suite_ok B si" "suite_ok B sh" "suite_ok B sv"
    and "claims \<noteq> []" "length claims \<le> 64" "\<forall>i \<in> set reveal. unat i < length claims"
    and "\<forall>c \<in> set claims. fits32 c" "\<forall>pf pfb. ser (bk_pf_codec B) pf = Ok pfb \<longrightarrow> fits32 pfb"
  shows "\<exists>kp si1 sg si2 p sh1.
      fl_bbs_generate_keypair B (word_of_nat (length claims)) si = (Ok kp, si1)
      \<and> fl_bbs_sign_credential B claims (pbk_secret kp) si1 = (Ok sg, si2)
      \<and> wasm_bbs_derive_proof B (map JsUint8Array claims) sg reveal nonce sh = (Ok (sp_to_bytes p), sh1)
      \<and> sp_wf p \<and> selective_valid B p (pbk_public kp) nonce"
proof -
  have r: "\<forall>i \<in> set (map unat reveal). i < length claims" using assms(7) by simp
  obtain kp si1 sg si2 p sh1 where run:
      "bbs_generate_keypair B (word_of_nat (length claims)) si = (Ok kp, si1)"
      "bbs_sign_credential B claims (held (bkp_secret kp)) si1 = (Ok sg, si2)"
      "bbs_derive_proof B claims sg (map unat reveal) nonce sh = (Ok p, sh1)"
      and v: "fst (bbs_verify_proof B p (bkp_public kp) nonce sv) = Ok True"
    using roundtrip_aux [OF assms(1-6) r] by blast
  have "fits32 (sp_proof p)"
    using run(3) assms(9) by (auto simp: bbs_derive_proof_def bind_s_Ok_iff Let_def split: if_splits)
  then have "sp_wf p" using docknet.derived_wf [OF run(3) assms(5,6)] assms(8) by blast
  moreover have "selective_valid B p (bkp_public kp) nonce" using v verify_spec_aux [OF assms(4)] by simp
  ultimately show ?thesis
    using fl_issue [OF run(1,2)] wasm_derive [OF run(3)]
    by (intro exI [of _ "\<lparr>pbk_secret = held (bkp_secret kp), pbk_public = bkp_public kp\<rparr>"] exI [of _ si1] exI [of _ sg]
        exI [of _ si2] exI [of _ p] exI [of _ sh1]) simp
qed

text \<open>C20: a credential crosses all boundaries. Issued on a mobile device, presented from a browser and
  checked by a chain node through the C ABI: from any cache and generator states, for 1 to 64
  claims and any valid request, every call succeeds and \<open>phi_bbs_verify_proof\<close> returns 1 for
  every placement of the bytes in memory.\<close>

theorem cross_surface_presentation:
  assumes "backend_laws B" "suite_ok B si" "suite_ok B sh" "suite_ok B sv"
    and "claims \<noteq> []" "length claims \<le> 64" "\<forall>i \<in> set reveal. unat i < length claims"
    and "\<forall>c \<in> set claims. fits32 c" "\<forall>pf pfb. ser (bk_pf_codec B) pf = Ok pfb \<longrightarrow> fits32 pfb"
  shows "\<exists>kp si1 sg si2 pb sh1.
      fl_bbs_generate_keypair B (word_of_nat (length claims)) si = (Ok kp, si1)
      \<and> fl_bbs_sign_credential B claims (pbk_secret kp) si1 = (Ok sg, si2)
      \<and> wasm_bbs_derive_proof B (map JsUint8Array claims) sg reveal nonce sh = (Ok pb, sh1)
      \<and> fst (wasm_bbs_verify_proof B pb (pbk_public kp) nonce sv) = Ok True
      \<and> (\<forall>mem p pn pk pkn n nn. passed_as mem p pn pb \<and> passed_as mem pk pkn (pbk_public kp) \<and> passed_as mem n nn nonce \<longrightarrow>
           fst (phi_bbs_verify_proof ps B mem p pn pk pkn n nn sv) = Ok 1)"
proof -
  obtain kp si1 sg si2 p sh1 where run:
      "fl_bbs_generate_keypair B (word_of_nat (length claims)) si = (Ok kp, si1)"
      "fl_bbs_sign_credential B claims (pbk_secret kp) si1 = (Ok sg, si2)"
      "wasm_bbs_derive_proof B (map JsUint8Array claims) sg reveal nonce sh = (Ok (sp_to_bytes p), sh1)"
      and p: "sp_wf p" "selective_valid B p (pbk_public kp) nonce"
    using presented [OF assms] by blast
  have "fst (phi_bbs_verify_proof ps B mem a an pk pkn n nn sv) = Ok 1"
    if "passed_as mem a an (sp_to_bytes p)" "passed_as mem pk pkn (pbk_public kp)" "passed_as mem n nn nonce" for mem a an pk pkn n nn
    using c_bbs.accepts_iff [OF assms(4), of "[(a, an), (pk, pkn), (n, nn)]" mem ps] that p by (auto simp: passed_as_def)
  moreover have "fst (wasm_bbs_verify_proof B (sp_to_bytes p) (pbk_public kp) nonce sv) = Ok True"
    using verify_bytes_spec_aux [OF assms(4) sp_encode_fits [OF p(1)]] p by (auto simp: wasm_bbs_verify_proof_def)
  ultimately show ?thesis using run by blast
qed

theorem cross_surface_presentation_witness:
  "\<exists>kp si1 sg si2 pb sh1.
      fl_bbs_generate_keypair sum_backend 3 (fresh_state 7) = (Ok kp, si1)
      \<and> fl_bbs_sign_credential sum_backend [[1], [2], [3]] (pbk_secret kp) si1 = (Ok sg, si2)
      \<and> wasm_bbs_derive_proof sum_backend (map JsUint8Array [[1], [2], [3]]) sg [2, 0] [9] (fresh_state 5) = (Ok pb, sh1)
      \<and> fst (wasm_bbs_verify_proof sum_backend pb (pbk_public kp) [9] (fresh_state 1)) = Ok True"
proof -
  have f: "\<forall>pf pfb. ser (bk_pf_codec sum_backend) pf = Ok pfb \<longrightarrow> fits32 pfb"
    by (auto simp: sum_backend_def ser_def triple_codec_def fits32_def)
  show ?thesis
    using cross_surface_presentation [OF sum_backend_laws sum_backend_suite_ok [of 7] sum_backend_suite_ok [of 5]
      sum_backend_suite_ok [of 1] _ _ _ _ f, of "[[1], [2], [3]]" "[2, 0]" "[9]"]
    by (simp add: fits32_def) blast
qed


text \<open>The chain node's answer to a bound presentation, for every placement in memory.\<close>

definition semaphore_answers ::
    "panic_strategy \<Rightarrow> ('p, 'r, 'f, 'sk, 'pk, 'sg, 'pok, 'pf) bbs_backend \<Rightarrow> ('p, 'r) suite_state \<Rightarrow>
     bytes \<Rightarrow> bytes \<Rightarrow> bytes \<Rightarrow> bytes \<Rightarrow> bytes \<Rightarrow> i32 \<Rightarrow> bool" where
  "semaphore_answers ps B s pb pkb election null signal v \<longleftrightarrow>
     (\<forall>mem p pn pk pkn el eln n nn g gn.
        passed_as mem p pn pb \<and> passed_as mem pk pkn pkb \<and> passed_as mem el eln election
        \<and> passed_as mem n nn null \<and> passed_as mem g gn signal \<longrightarrow>
        fst (phi_semaphore_verify_vote ps B mem p pn pk pkn el eln n nn g gn s) = Ok v)"

lemma semaphore_answers_valid:
  assumes "suite_ok B s" "sp_wf p" "length null = NULLIFIER_LEN"
    and "selective_valid B p pkb (bind_nonce (bk_sha256 B) election null signal)"
  shows "semaphore_answers ps B s (sp_to_bytes p) pkb election null signal 1"
  unfolding semaphore_answers_def
proof (intro allI impI)
  fix mem a an pk pkn el eln n nn g gn
  assume "passed_as mem a an (sp_to_bytes p) \<and> passed_as mem pk pkn pkb \<and> passed_as mem el eln election
        \<and> passed_as mem n nn null \<and> passed_as mem g gn signal"
  then show "fst (phi_semaphore_verify_vote ps B mem a an pk pkn el eln n nn g gn s) = Ok 1"
    using c_semaphore.accepts_iff [OF assms(1), of "[(a, an), (pk, pkn), (el, eln), (n, nn), (g, gn)]" mem ps] assms(2-4)
    by (auto simp: passed_as_def)
qed

text \<open>A presentation bound to other values is refused, unless it rebinds.\<close>

lemma semaphore_answers_other:
  assumes "suite_ok B s" "sp_wf p" "\<forall>x. length (bk_sha256 B x) = 32" "fits64 election" "fits64 signal"
    and "selective_valid B p pkb (bind_nonce (bk_sha256 B) election null signal)"
    and "(election', null', signal') \<noteq> (election, null, signal)"
    and "\<not> rebinds B p pkb (election, null, signal) (election', null', signal')"
  shows "semaphore_answers ps B s (sp_to_bytes p) pkb election' null' signal' 0"
  unfolding semaphore_answers_def
proof (intro allI impI)
  fix mem a an pk pkn el eln n nn g gn
  assume m: "passed_as mem a an (sp_to_bytes p) \<and> passed_as mem pk pkn pkb \<and> passed_as mem el eln election'
        \<and> passed_as mem n nn null' \<and> passed_as mem g gn signal'"
  then have f: "fits64 election'" "fits64 signal'" using view_fits64 by (auto simp: passed_as_def)
  have "\<not> selective_valid B q pkb (bind_nonce (bk_sha256 B) election' null' signal')"
    if "sp_wf q" "sp_to_bytes q = sp_to_bytes p" for q
  proof -
    have "q = p" using sp_from_bytes_complete [OF that(1)] sp_from_bytes_complete [OF assms(2)]
      unfolding that(2) by (metis result.inject(1))
    then show ?thesis using bound_once [OF assms(3,6) _ assms(4,5) f] assms(7,8) by auto
  qed
  then have "\<not> semaphore_accepts B [Some (sp_to_bytes p), Some pkb, Some election', Some null', Some signal']" by auto
  then show "fst (phi_semaphore_verify_vote ps B mem a an pk pkn el eln n nn g gn s) = Ok 0"
    using c_semaphore.decides [OF assms(1), of "[(a, an), (pk, pkn), (el, eln), (n, nn), (g, gn)]" mem ps] m
    by (simp add: passed_as_def of_bool_i32_def del: semaphore_accepts.simps)
qed

text \<open>C22: a vote bound to its election is counted there and nowhere else. The voter's browser derives
  the election nullifier and the presentation header from the voter's secret and presents a
  credential under that header. The chain node's \<open>phi_semaphore_verify_vote\<close> returns 1 for this
  election, nullifier and vote, whatever the placement in memory; for any other election,
  nullifier or vote it returns 0 for the same presentation, unless SHA-256 collides on the two header
  preimages, the challenge hash collides on the two transcripts of this presentation, or the
  backend accepts its proof under the two different challenges (\<open>rebinds\<close>). (\<open>sha256\<close> only has to
  give 32 bytes.)\<close>

theorem bound_vote_accepted:
  fixes secret election signal :: bytes
  assumes "backend_laws B" "suite_ok B si" "suite_ok B sh" "suite_ok B sv"
    and "claims \<noteq> []" "length claims \<le> 64" "\<forall>i \<in> set reveal. unat i < length claims"
    and "\<forall>c \<in> set claims. fits32 c" "\<forall>pf pfb. ser (bk_pf_codec B) pf = Ok pfb \<longrightarrow> fits32 pfb"
    and "\<forall>x. length (bk_sha256 B x) = 32" "fits64 election" "fits64 signal"
  defines "null \<equiv> wasm_semaphore_nullifier (bk_sha256 B) secret election"
  defines "header \<equiv> wasm_semaphore_bind_nonce (bk_sha256 B) election null signal"
  shows "\<exists>kp si1 sg si2 p sh1.
      fl_bbs_generate_keypair B (word_of_nat (length claims)) si = (Ok kp, si1)
      \<and> fl_bbs_sign_credential B claims (pbk_secret kp) si1 = (Ok sg, si2)
      \<and> wasm_bbs_derive_proof B (map JsUint8Array claims) sg reveal header sh = (Ok (sp_to_bytes p), sh1)
      \<and> fst (verify_bound_proof B (sp_to_bytes p) (pbk_public kp) election null signal sv) = Ok True
      \<and> semaphore_answers ps B sv (sp_to_bytes p) (pbk_public kp) election null signal 1
      \<and> (\<forall>election' null' signal'. (election', null', signal') \<noteq> (election, null, signal)
           \<and> \<not> rebinds B p (pbk_public kp) (election, null, signal) (election', null', signal') \<longrightarrow>
           semaphore_answers ps B sv (sp_to_bytes p) (pbk_public kp) election' null' signal' 0)"
proof -
  have n: "length null = NULLIFIER_LEN"
    using assms(10) by (simp add: null_def wasm_semaphore_nullifier_def sem_nullifier_def compute_nullifier_def
        NULLIFIER_LEN_def)
  have h: "header = bind_nonce (bk_sha256 B) election null signal"
    using n by (simp add: header_def wasm_semaphore_bind_nonce_def try_into_array_def)
  obtain kp si1 sg si2 p sh1 where run:
      "fl_bbs_generate_keypair B (word_of_nat (length claims)) si = (Ok kp, si1)"
      "fl_bbs_sign_credential B claims (pbk_secret kp) si1 = (Ok sg, si2)"
      "wasm_bbs_derive_proof B (map JsUint8Array claims) sg reveal header sh = (Ok (sp_to_bytes p), sh1)"
      and p: "sp_wf p" "selective_valid B p (pbk_public kp) header"
    using presented [OF assms(1-9)] by blast
  note v = p(2) [unfolded h]
  have "fst (verify_bound_proof B (sp_to_bytes p) (pbk_public kp) election null signal sv) = Ok True"
    using verify_bytes_spec_aux [OF assms(4) sp_encode_fits [OF p(1)]] p
    by (auto simp: verify_bound_proof_def h)
  with run semaphore_answers_valid [OF assms(4) p(1) n v] semaphore_answers_other [OF assms(4) p(1) assms(10-12) v]
  show ?thesis by blast
qed

definition hashed_sum :: "(u32, byte, byte, byte, byte, byte, byte \<times> byte \<times> byte \<times> byte, byte \<times> byte \<times> byte) bbs_backend" where
  "hashed_sum = sum_backend\<lparr>bk_sha256 := sample_hash\<rparr>"

lemma hashed_sum_laws: "backend_laws hashed_sum" "suite_ok hashed_sum (fresh_state seed)"
  using sum_backend_laws sum_backend_suite_ok [of seed]
  by (simp_all add: hashed_sum_def backend_laws_def sign_law_def pok_law_def suite_ok_def params_law_def fresh_state_def)

theorem bound_vote_accepted_witness:
  "\<exists>kp si1 sg si2 p sh1.
      fl_bbs_generate_keypair hashed_sum 2 (fresh_state 7) = (Ok kp, si1)
      \<and> fl_bbs_sign_credential hashed_sum [[1], [2]] (pbk_secret kp) si1 = (Ok sg, si2)
      \<and> wasm_bbs_derive_proof hashed_sum (map JsUint8Array [[1], [2]]) sg []
          (wasm_semaphore_bind_nonce sample_hash [5] (wasm_semaphore_nullifier sample_hash [9] [5]) [6]) (fresh_state 5)
          = (Ok (sp_to_bytes p), sh1)
      \<and> semaphore_answers Abort hashed_sum (fresh_state 1) (sp_to_bytes p) (pbk_public kp) [5]
             (wasm_semaphore_nullifier sample_hash [9] [5]) [6] 1"
proof -
  have f: "\<forall>pf pfb. ser (bk_pf_codec hashed_sum) pf = Ok pfb \<longrightarrow> fits32 pfb"
    by (auto simp: hashed_sum_def sum_backend_def ser_def triple_codec_def fits32_def)
  have h: "\<forall>x. length (bk_sha256 hashed_sum x) = 32" and s: "bk_sha256 hashed_sum = sample_hash"
    by (simp_all add: hashed_sum_def)
  show ?thesis
    using bound_vote_accepted [OF hashed_sum_laws(1) hashed_sum_laws(2) [of 7] hashed_sum_laws(2) [of 5]
        hashed_sum_laws(2) [of 1] _ _ _ _ f h, of "[[1], [2]]" "[]" "[5]" "[6]" "[9]" Abort] unfolding s
    by (simp add: fits32_def fits64_def) blast
qed

lemma prove_vote_encodings:
  assumes "prove_vote V claims sig issuer reveal chain_id election_id signal s = (Ok p, s')"
  shows "(\<exists>pf. ser (bk_pf_codec (vb_bbs V)) pf = Ok (vo_bbs_proof p)) \<and> (\<exists>d. ser (vb_dl_codec V) d = Ok (vo_dl_proof p))"
  using assms by (auto simp: prove_vote_def Let_def bind_s_Ok_iff split: if_splits)

lemma vote_accepts_own:
  assumes "point_law (vb_g_codec V)" "vo_wf p" "vs_to_bytes V p = Ok pb" "ser (vb_g_codec V) (vo_nullifier p) = Ok null"
    and "vote_valid V p pk ch el sg"
  shows "vote_accepts V [Some pb, Some pk, Some ch, Some el, Some key, Some sg] \<longleftrightarrow> key = null"
proof -
  have "q = p" if "vo_wf q" "vs_to_bytes V q = Ok pb" for q
    using vs_from_bytes_complete [OF assms(1) that(1)] vs_from_bytes_complete [OF assms(1,2)] that(2) assms(3)
    by (simp add: vo_enc_def)
  then have "vote_accepts V [Some pb, Some pk, Some ch, Some el, Some key, Some sg]
      \<longleftrightarrow> ser (vb_g_codec V) (vo_nullifier p) = Ok key"
    using assms(2,3,5) unfolding vote_accepts.simps by blast
  then show ?thesis using assms(4) by auto
qed

lemma wasm_vote_run:
  assumes "prove_vote V claims sg pk (map unat reveal) ch el vote s = (r, s')"
  shows "wasm_vote_prove V (map JsUint8Array claims) sg pk reveal ch el vote s
     = (err_with js_error (bind_r r (vs_to_bytes V)), s')"
  using assms
  by (cases r) (simp_all add: wasm_vote_prove_def prove_vote_bytes_def with_err_def bind_s_def Let_def)

text \<open>The chain node's answer to a ballot, for every placement in memory: 1 with the nullifier
  \<open>null\<close> as deduplication key, 0 with any other key.\<close>

definition node_counts ::
    "panic_strategy \<Rightarrow> ('p, 'r, 'f::comm_ring_1, 'sk, 'pk, 'sg, 'pok, 'pf, 'g::ab_group_add) vote_backend \<Rightarrow> ('p, 'r) suite_state \<Rightarrow>
     bytes \<Rightarrow> bytes \<Rightarrow> bytes \<Rightarrow> bytes \<Rightarrow> bytes \<Rightarrow> bytes \<Rightarrow> bool" where
  "node_counts ps V s pb pkb chain election signal null \<longleftrightarrow>
     (\<forall>mem p pn pk pkn ch chn el eln n nn g gn key.
        passed_as mem p pn pb \<and> passed_as mem pk pkn pkb \<and> passed_as mem ch chn chain
        \<and> passed_as mem el eln election \<and> passed_as mem n nn key \<and> passed_as mem g gn signal \<longrightarrow>
        fst (phi_voting_verify_vote_v1 ps V mem p pn pk pkn ch chn el eln n nn g gn s)
          = Ok (if key = null then 1 else 0))"

lemma node_counts_valid:
  assumes "point_law (vb_g_codec V)" "suite_ok (vb_bbs V) s" "vo_wf p" "vs_to_bytes V p = Ok pb"
    and "ser (vb_g_codec V) (vo_nullifier p) = Ok null" "vote_valid V p pkb chain election signal"
  shows "node_counts ps V s pb pkb chain election signal null"
proof -
  have "fst (phi_voting_verify_vote_v1 ps V mem a an k kn ch chn el eln n nn g gn s) = Ok (if key = null then 1 else 0)"
    if "passed_as mem a an pb" "passed_as mem k kn pkb" "passed_as mem ch chn chain"
      "passed_as mem el eln election" "passed_as mem n nn key" "passed_as mem g gn signal"
    for mem a an k kn ch chn el eln n nn g gn key
    using vote_export_decides [OF assms(1,2), of "[(a, an), (k, kn), (ch, chn), (el, eln), (n, nn), (g, gn)]" mem ps]
      vote_accepts_own [OF assms(1,3,4,5,6), of key] that
    by (simp add: passed_as_def of_bool_i32_def del: vote_accepts.simps)
  then show ?thesis unfolding node_counts_def by blast
qed

text \<open>C21: a ballot crosses all boundaries. With a credential issued on a mobile device, the browser's
  \<open>vote_prove\<close> gives proof bytes that the chain node's \<open>phi_voting_verify_vote_v1\<close> accepts with
  the proof's own 48-byte nullifier as the deduplication key, and with no other; the only
  alternatives are the error texts of the two degenerate values.\<close>

theorem cross_surface_ballot:
  assumes "vote_law V" "suite_ok (vb_bbs V) si" "suite_ok (vb_bbs V) sh" "suite_ok (vb_bbs V) sv"
    and "claims \<noteq> []" "length claims \<le> 64" "\<forall>i \<in> set reveal. unat i < length claims" "0 \<notin> set reveal"
    and "\<forall>c \<in> set claims. fits32 c" "\<forall>pf pfb. ser (bk_pf_codec (vb_bbs V)) pf = Ok pfb \<longrightarrow> fits32 pfb"
    and "\<forall>d db. ser (vb_dl_codec V) d = Ok db \<longrightarrow> fits32 db"
  shows "\<exists>kp si1 sg si2 r sh1.
      fl_bbs_generate_keypair (vb_bbs V) (word_of_nat (length claims)) si = (Ok kp, si1)
      \<and> fl_bbs_sign_credential (vb_bbs V) claims (pbk_secret kp) si1 = (Ok sg, si2)
      \<and> wasm_vote_prove V (map JsUint8Array claims) sg (pbk_public kp) reveal chain election signal sh = (r, sh1)
      \<and> (r = Err (JsString ''invalid input: nullifier is identity'')
             \<and> (\<exists>h_e. hash_to_g1 V election = Ok h_e
                  \<and> vb_mul V h_e (claim_to_fr (vb_bbs V) (claims ! 0)) = 0)
         \<or> r = Err (JsString ''backend error: degenerate challenge'') \<and> (\<exists>t. bk_oracle (vb_bbs V) t = 0)
         \<or> (\<exists>pb null. r = Ok pb \<and> length null = 48
              \<and> node_counts ps V sv pb (pbk_public kp) chain election signal null))"
proof -
  have laws: "backend_laws (vb_bbs V)" "group_law (vb_mul V)" "point_law (vb_g_codec V)"
    using assms(1) by (simp_all add: vote_law_def)
  have r: "\<forall>i \<in> set (map unat reveal). i < length claims" "0 \<notin> set (map unat reveal)"
    using assms(7,8) by (auto simp: unat_eq_0)
  obtain kp si1 sg si2 params sk pk rng0 rng0' rng1 rng1' sig where c:
      "bbs_generate_keypair (vb_bbs V) (word_of_nat (length claims)) si = (Ok kp, si1)"
      "bbs_sign_credential (vb_bbs V) claims (held (bkp_secret kp)) si1 = (Ok sg, si2)"
      "bk_params_new (vb_bbs V) PARAMS_LABEL (word_of_nat (length claims)) = Ok params"
      "bk_keygen (vb_bbs V) rng0 params = ((sk, pk), rng0')"
      "bk_sign (vb_bbs V) rng1 (map (claim_to_fr (vb_bbs V)) claims) sk params = (Some sig, rng1')"
      "deser (bk_sg_codec (vb_bbs V)) sg = Ok sig" "deser (bk_pk_codec (vb_bbs V)) (bkp_public kp) = Ok pk"
    using issued_credential [OF laws(1) assms(2,5,6)] by blast
  let ?run = "prove_vote V claims sg (bkp_public kp) (map unat reveal) chain election signal sh"
  obtain q sh1 where q: "?run = (q, sh1)" by force
  note wasm = wasm_vote_run [OF q]
  have accepted: "\<exists>pb null. err_with js_error (bind_r q (vs_to_bytes V)) = Ok pb \<and> length null = 48
      \<and> node_counts ps V sv pb (bkp_public kp) chain election signal null"
    if p: "q = Ok p" and v: "vote_valid V p (bkp_public kp) chain election signal" for p
  proof -
    have run: "?run = (Ok p, sh1)" using q p by simp
    have "fits32 (vo_bbs_proof p)" "fits32 (vo_dl_proof p)"
      using prove_vote_encodings [OF run] assms(10,11) by blast+
    then have wf: "vo_wf p"
      using prove_vote_facts [OF run laws(2)] assms(9) by (intro prove_vote_disclosed) auto
    obtain null where null: "ser (vb_g_codec V) (vo_nullifier p) = Ok null" "length null = 48"
      using point_ser [OF laws(3)] by blast
    obtain pb where pb: "vs_to_bytes V p = Ok pb" using vs_to_bytes_eq [OF null(1)] by blast
    show ?thesis using node_counts_valid [OF laws(3) assms(4) wf pb null(1) v] p pb null(2) by auto
  qed
  have "q = Err (InvalidInput ''nullifier is identity'')
        \<and> (\<exists>h_e. hash_to_g1 V election = Ok h_e \<and> vb_mul V h_e (claim_to_fr (vb_bbs V) (claims ! 0)) = 0)
      \<or> q = Err (Backend ''degenerate challenge'') \<and> (\<exists>t. bk_oracle (vb_bbs V) t = 0)
      \<or> (\<exists>p. q = Ok p \<and> vote_valid V p (bkp_public kp) chain election signal)"
    using vote_complete [OF assms(1,3,5,6) r c(3,4,5,6,7), of chain election signal] q by auto
  then show ?thesis
    using fl_issue [OF c(1,2)] wasm accepted
    by (intro exI [of _ "\<lparr>pbk_secret = held (bkp_secret kp), pbk_public = bkp_public kp\<rparr>"] exI [of _ si1] exI [of _ sg]
        exI [of _ si2] exI [of _ "err_with js_error (bind_r q (vs_to_bytes V))"] exI [of _ sh1])
      (auto simp: js_error_def)
qed


theorem cross_surface_ballot_witness:
  "\<exists>kp si1 sg si2 pb null sh1.
      fl_bbs_generate_keypair (vb_bbs sample_vote) 3 (fresh_state 7) = (Ok kp, si1)
      \<and> fl_bbs_sign_credential (vb_bbs sample_vote) [[1], [2], [3]] (pbk_secret kp) si1 = (Ok sg, si2)
      \<and> wasm_vote_prove sample_vote (map JsUint8Array [[1], [2], [3]]) sg (pbk_public kp) [2] [4] [5] [6] (fresh_state 5)
          = (Ok pb, sh1)
      \<and> length null = 48 \<and> node_counts Abort sample_vote (fresh_state 1) pb (pbk_public kp) [4] [5] [6] null"
proof -
  have o: "\<And>t. bk_oracle (vb_bbs sample_vote) t \<noteq> 0" using vote_bbs_oracle by (simp add: sample_vote_def)
  have f: "\<forall>pf pfb. ser (bk_pf_codec (vb_bbs sample_vote)) pf = Ok pfb \<longrightarrow> fits32 pfb"
      "\<forall>d db. ser (vb_dl_codec sample_vote) d = Ok db \<longrightarrow> fits32 db"
    by (auto simp: sample_vote_def vote_bbs_def sum_backend_def ser_def triple_codec_def dl_sample_codec_def fits32_def)
  show ?thesis
    using cross_surface_ballot [OF sample_vote_law sample_vote_ok [of 7] sample_vote_ok [of 5] sample_vote_ok [of 1]
        _ _ _ _ _ f, of "[[1], [2], [3]]" "[2]" "[4]" "[5]" "[6]"] sample_ballot_nonzero o
    by (simp add: fits32_def) metis
qed

end
